(* ===== verification/Prelude.thy ===== *)
theory Prelude
  imports Main "HOL-Library.Word"
begin

text \<open>
  Shared vocabulary of the development: names for the machine integers of the two
  targets (a 32-bit RISC-V and a 32-bit PowerPC tool chain), the register macros of
  \<^verbatim>\<open>soc2022_project/board/XYR3201.h\<close>, and the generic lemmas on words and lists the
  components use.  The collection \<open>bit_eqs\<close> gathers the facts that turn an equation
  between words into an equation between their bits.
\<close>

unbundle bit_operations_syntax

named_theorems bit_eqs \<open>rules that reduce word expressions to their bits\<close>

type_synonym u8 = "8 word"
type_synonym u16 = "16 word"
type_synonym u32 = "32 word"
type_synonym u64 = "64 word"

subsection \<open>Register macros (XYR3201.h)\<close>

text \<open>\<^verbatim>\<open>BIT(bitn)\<close>, \<^verbatim>\<open>SET_BIT(reg,bitn,val)\<close> and \<^verbatim>\<open>GET_BIT(reg,bitn)\<close>.  \<^verbatim>\<open>SET_BIT\<close> is an
  assignment in the source; here it returns the new register value.  \<^verbatim>\<open>val\<close> is only tested
  against zero.\<close>

definition SET_BIT :: "'a::len word \<Rightarrow> nat \<Rightarrow> bool \<Rightarrow> 'a word" where
  "SET_BIT reg bitn val = (if val then reg OR push_bit bitn 1 else reg AND NOT (push_bit bitn 1))"

definition GET_BIT :: "'a::len word \<Rightarrow> nat \<Rightarrow> 'a word" where
  "GET_BIT reg bitn = drop_bit bitn reg AND 1"

lemma bit_SET_BIT [simp, bit_eqs]:
  fixes reg :: "'a::len word"
  shows "bit (SET_BIT reg m v) n =
    (if n = m \<and> m < LENGTH('a) then v else bit reg n)"
  by (auto simp: SET_BIT_def bit_simps)
    (metis bit_imp_le_length)+

lemma GET_BIT_of_bool: "GET_BIT reg n = of_bool (bit reg n)"
  by (rule bit_word_eqI) (auto simp: GET_BIT_def bit_simps)

lemma GET_BIT_nonzero [simp]: "(GET_BIT reg n \<noteq> 0) = bit reg n"
  by (simp add: GET_BIT_of_bool)

lemma GET_BIT_zero [simp]: "(GET_BIT reg n = 0) = (\<not> bit reg n)"
  by (simp add: GET_BIT_of_bool)

lemma word_xor_cancel [simp]:
  fixes a b c :: "'a::len word"
  shows "(a XOR c = b XOR c) = (a = b)" "(c XOR a = c XOR b) = (a = b)"
proof -
  have "a = b" if "a XOR c = b XOR c"
  proof -
    from that have "(a XOR c) XOR c = (b XOR c) XOR c" by simp
    then show ?thesis by (simp add: xor.assoc)
  qed
  then show "(a XOR c = b XOR c) = (a = b)" by blast
  then show "(c XOR a = c XOR b) = (a = b)" by (simp add: xor.commute)
qed

subsection \<open>Naturals as 32-bit words\<close>

text \<open>An opaque name for the conversion, so that the simplifier does not push it through sums.\<close>

definition w32 :: "nat \<Rightarrow> u32" where
  "w32 n = word_of_nat n"

lemma unat_w32 [simp]: "n < 2 ^ 32 \<Longrightarrow> unat (w32 n) = n"
  by (simp add: w32_def unat_of_nat take_bit_eq_mod)

lemma unat_u32_less: "unat (x :: u32) < 2 ^ 32"
  using unsigned_less [where 'a = nat, of x] by simp

lemma unat_w32_mod: "unat (w32 n) = n mod 2 ^ 32"
  by (simp add: w32_def unat_of_nat take_bit_eq_mod)

lemma w32_unat [simp]: "w32 (unat x) = x"
  by (simp add: w32_def)

lemma w32_add [simp]: "w32 x + w32 y = w32 (x + y)"
  by (simp add: w32_def)

lemma w32_diff: "y \<le> x \<Longrightarrow> w32 x - w32 y = w32 (x - y)"
  by (simp add: w32_def)

lemma w32_0 [simp]: "w32 0 = 0"
  by (simp add: w32_def)

lemma w32_inj: "x < 2 ^ 32 \<Longrightarrow> y < 2 ^ 32 \<Longrightarrow> (w32 x = w32 y) = (x = y)"
  by (metis unat_w32)

lemma w32_less: "x < 2 ^ 32 \<Longrightarrow> y < 2 ^ 32 \<Longrightarrow> (w32 x < w32 y) = (x < y)"
  by (simp add: word_less_nat_alt)

lemma w32_le: "x < 2 ^ 32 \<Longrightarrow> y < 2 ^ 32 \<Longrightarrow> (w32 x \<le> w32 y) = (x \<le> y)"
  by (simp add: word_le_nat_alt)

subsection \<open>Alignment to multiples of eight\<close>

lemma seven_mask: "(7 :: u32) = mask 3"
  by (simp add: mask_eq_exp_minus_1)

lemma unat_and_7: "unat ((x :: u32) AND 7) = unat x mod 8"
proof -
  have "x AND 7 = take_bit 3 x" unfolding seven_mask by (simp add: take_bit_eq_mask)
  then have "unat (x AND 7) = take_bit 3 (unat x)" by (simp only: unsigned_take_bit_eq)
  then show ?thesis by (simp add: take_bit_eq_mod)
qed

lemma unat_and_not_7: "unat ((x :: u32) AND NOT 7) = unat x div 8 * 8"
proof -
  have "x AND NOT 7 = push_bit 3 (drop_bit 3 x)"
    unfolding seven_mask by (rule bit_word_eqI) (auto simp: bit_simps)
  then have "x AND NOT 7 = x - (x AND 7)"
    unfolding seven_mask take_bit_eq_mask [symmetric]
    using bits_ident [of 3 x] by (metis add_diff_cancel_right')
  moreover have "x AND 7 \<le> x" by (rule word_and_le2)
  ultimately have "unat (x AND NOT 7) = unat x - unat x mod 8"
    by (simp add: unat_sub unat_and_7)
  then show ?thesis by (simp add: minus_mod_eq_div_mult)
qed

text \<open>The simplifier evaluates \<open>NOT 7\<close>, so the same fact in that form.\<close>

lemma unat_and_minus_8: "unat ((x :: u32) AND - 8) = unat x div 8 * 8"
  using unat_and_not_7 [of x] by simp

end
