(* ===== verification/GmacCrc.thy ===== *)
theory GmacCrc
  imports Prelude
begin

text \<open>
  The Ethernet CRC unit, \<^verbatim>\<open>soc2022_project/driver/drv_gmac_crc.c\<close>: bit reversal
  (\<open>Reflect\<close>), the lazily built 256 entry table (\<open>CRC_CreateTable\<close>) and the table driven
  checksum (\<open>CRC_Calc\<close>).  The table driven routine is proved equal to the bit serial
  division it stands for, and the checksum is proved to separate buffers that differ in
  one byte.
\<close>

subsection \<open>Reflect\<close>

text \<open>The loop \<^verbatim>\<open>for (i = 0; i < len; i++)\<close> of \<^verbatim>\<open>Reflect\<close>: \<open>val\<close> (\<^verbatim>\<open>value\<close>) collects the bits, \<open>data\<close> is
  shifted right.\<close>

function Reflect_loop :: "nat \<Rightarrow> nat \<Rightarrow> u32 \<Rightarrow> u32 \<Rightarrow> u32" where
  "Reflect_loop i len data val =
     (if i < len then
        Reflect_loop (i + 1) len (drop_bit 1 data)
          (if data AND 1 \<noteq> 0 then val OR push_bit (len - i - 1) 1 else val)
      else val)"
  by pat_completeness auto
termination by (relation "measure (\<lambda>(i, len, data, val). len - i)") auto

declare Reflect_loop.simps [simp del]

definition Reflect :: "u32 \<Rightarrow> nat \<Rightarrow> u32" where
  "Reflect data len = Reflect_loop 0 len data 0"

subsection \<open>The lookup table\<close>

definition CRC_TABLE_DEPTH :: nat where
  "CRC_TABLE_DEPTH = 256"

text \<open>One pass of the inner loop: \<open>t1\<close> is the entry shifted left, \<open>t2\<close> the polynomial when
  bit 31 was set.\<close>

definition CRC_table_shift :: "u32 \<Rightarrow> u32" where
  "CRC_table_shift e =
     (let t1 = push_bit 1 e;
          t2 = (if GET_BIT e 31 \<noteq> 0 then 0x04c11db7 else 0)
      in t1 XOR t2)"

text \<open>The body of the outer loop for index \<open>i\<close>: eight passes of the inner loop between the two
  reflections.\<close>

definition CRC_table_entry :: "nat \<Rightarrow> u32" where
  "CRC_table_entry i =
     Reflect ((CRC_table_shift ^^ 8) (push_bit 24 (Reflect (of_nat i) 8))) 32"

text \<open>\<^verbatim>\<open>CRC_CreateTable\<close> stores one entry after the other into the static array.\<close>

fun CRC_CreateTable_loop :: "nat \<Rightarrow> u32 list \<Rightarrow> u32 list" where
  "CRC_CreateTable_loop 0 tbl = tbl"
| "CRC_CreateTable_loop (Suc n) tbl =
     CRC_CreateTable_loop n
       (tbl[CRC_TABLE_DEPTH - Suc n := CRC_table_entry (CRC_TABLE_DEPTH - Suc n)])"

definition CRC_CreateTable :: "u32 list \<Rightarrow> u32 list" where
  "CRC_CreateTable tbl = CRC_CreateTable_loop CRC_TABLE_DEPTH tbl"

subsection \<open>The checksum\<close>

text \<open>The two static variables of the file.\<close>

record crc_state =
  s_crc_table :: "u32 list"
  s_crc_table_flag :: u8

definition crc_state_init :: crc_state where
  "crc_state_init = \<lparr>s_crc_table = replicate CRC_TABLE_DEPTH 0, s_crc_table_flag = 0\<rparr>"

definition CRC_step :: "u32 list \<Rightarrow> u32 \<Rightarrow> u8 \<Rightarrow> u32" where
  "CRC_step tbl value b =
     tbl ! unat ((value XOR ucast b) AND 0xff) XOR drop_bit 8 value"

definition CRC_Calc :: "crc_state \<Rightarrow> u8 list \<Rightarrow> u32 \<times> crc_state" where
  "CRC_Calc st buf =
     (let value = 0xffffffff;
          st' = (if s_crc_table_flag st = 0
                 then st\<lparr>s_crc_table_flag := 1, s_crc_table := CRC_CreateTable (s_crc_table st)\<rparr>
                 else st)
      in (foldl (CRC_step (s_crc_table st')) value buf, st'))"

text \<open>What every call leaves behind: the array has its 256 cells and, once the flag is set,
  they hold the table.\<close>

definition crc_state_ok :: "crc_state \<Rightarrow> bool" where
  "crc_state_ok st \<longleftrightarrow> length (s_crc_table st) = CRC_TABLE_DEPTH \<and>
     (s_crc_table_flag st \<noteq> 0 \<longrightarrow> s_crc_table st = map CRC_table_entry [0..<CRC_TABLE_DEPTH])"

subsection \<open>Reference: bit serial CRC-32 over the reflected polynomial\<close>

definition crc_bit :: "u32 \<Rightarrow> u32" where
  "crc_bit x = drop_bit 1 x XOR (if bit x 0 then 0xedb88320 else 0)"

definition crc_byte :: "u32 \<Rightarrow> u8 \<Rightarrow> u32" where
  "crc_byte x b = (crc_bit ^^ 8) (x XOR ucast b)"

definition crc_serial :: "u8 list \<Rightarrow> u32" where
  "crc_serial buf = foldl crc_byte 0xffffffff buf"

subsection \<open>Bit reversal\<close>

lemma Reflect_loop_bit:
  assumes "len \<le> 32" and "i \<le> len"
  shows "bit (Reflect_loop i len data val) n =
    (bit val n \<or> (n < len - i \<and> bit data (len - i - 1 - n)))"
  using assms
proof (induction i len data val rule: Reflect_loop.induct)
  case (1 i len data val)
  show ?case
  proof (cases "i < len")
    case False
    with "1.prems" show ?thesis by (subst Reflect_loop.simps) simp
  next
    case True
    let ?v = "if data AND 1 \<noteq> 0 then val OR push_bit (len - i - 1) 1 else val"
    have "bit (Reflect_loop i len data val) n = bit (Reflect_loop (i + 1) len (drop_bit 1 data) ?v) n"
      using True by (simp add: Reflect_loop.simps [of i len])
    also have "\<dots> = (bit ?v n \<or> (n < len - (i + 1) \<and> bit (drop_bit 1 data) (len - (i + 1) - 1 - n)))"
      using "1.IH" [OF True] "1.prems" True by simp
    also have "bit ?v n = (bit val n \<or> (n = len - i - 1 \<and> bit data 0))"
      using True "1.prems" by (auto simp: bit_simps and_one_eq odd_iff_mod_2_eq_one bit_0)
    also have "(n < len - (i + 1) \<and> bit (drop_bit 1 data) (len - (i + 1) - 1 - n)) =
        (n < len - i - 1 \<and> bit data (len - i - 1 - n))"
      by (auto simp: bit_drop_bit_eq Suc_diff_Suc)
    finally show ?thesis using True
      by (cases "n = len - i - 1") auto
  qed
qed

lemma bit_Reflect [bit_eqs]:
  "len \<le> 32 \<Longrightarrow> bit (Reflect data len) n = (n < len \<and> bit data (len - 1 - n))"
  by (simp add: Reflect_def Reflect_loop_bit)

lemma Reflect_32_32 [simp]: "Reflect (Reflect x 32) 32 = x"
  by (rule bit_word_eqI) (auto simp: bit_Reflect)


subsection \<open>The table holds eight serial steps per index\<close>

lemma crc_bit_xor: "crc_bit (x XOR y) = crc_bit x XOR crc_bit y"
  by (rule bit_word_eqI) (auto simp: crc_bit_def bit_simps)

lemma crc_bits_xor: "(crc_bit ^^ n) (x XOR y) = (crc_bit ^^ n) x XOR (crc_bit ^^ n) y"
  by (induction n) (simp_all add: crc_bit_xor)

lemma crc_bits_low_zero:
  "(\<And>k. k < n \<Longrightarrow> \<not> bit x k) \<Longrightarrow> (crc_bit ^^ n) x = drop_bit n x"
  by (induction n) (simp_all add: crc_bit_def bit_drop_bit_eq)

lemma crc_bits_split:
  "(crc_bit ^^ 8) x = (crc_bit ^^ 8) (x AND 0xff) XOR drop_bit 8 x"
proof -
  have mask: "(0xff :: u32) = mask 8" by (simp add: mask_eq_exp_minus_1)
  have "x = (x AND 0xff) XOR (x AND NOT 0xff)"
    by (rule bit_word_eqI) (auto simp: bit_simps)
  then have "(crc_bit ^^ 8) x = (crc_bit ^^ 8) (x AND 0xff) XOR (crc_bit ^^ 8) (x AND NOT 0xff)"
    by (metis crc_bits_xor)
  also have "(crc_bit ^^ 8) (x AND NOT 0xff) = drop_bit 8 (x AND NOT 0xff)"
    by (rule crc_bits_low_zero) (simp add: mask bit_simps)
  also have "\<dots> = drop_bit 8 x"
    by (rule bit_word_eqI) (auto simp: mask bit_simps dest: bit_imp_le_length)
  finally show ?thesis .
qed

lemma poly_reflected: "Reflect 0x04c11db7 32 = 0xedb88320"
  by code_simp

lemma bit_CRC_table_shift:
  "bit (CRC_table_shift e) n =
    ((1 \<le> n \<and> n < 32 \<and> bit e (n - 1)) \<noteq> (bit e 31 \<and> bit (0x04c11db7 :: u32) n))"
  unfolding CRC_table_shift_def Let_def bit_xor_iff bit_push_bit_iff GET_BIT_nonzero
  by auto

lemma bit_crc_bit: "bit (crc_bit x) n = (bit x (Suc n) \<noteq> (bit x 0 \<and> bit (0xedb88320 :: u32) n))"
  unfolding crc_bit_def bit_xor_iff bit_drop_bit_eq by auto

lemma Reflect_table_shift: "Reflect (CRC_table_shift e) 32 = crc_bit (Reflect e 32)"
proof (rule bit_word_eqI)
  fix n assume "n < LENGTH(32)"
  then have n: "n < 32" by simp
  have p: "bit (0xedb88320 :: u32) n = bit (0x04c11db7 :: u32) (31 - n)"
    using bit_Reflect [of 32 "0x04c11db7" n] n by (simp add: poly_reflected)
  have "bit (Reflect (CRC_table_shift e) 32) n =
      ((n < 31 \<and> bit e (30 - n)) \<noteq> (bit e 31 \<and> bit (0x04c11db7 :: u32) (31 - n)))"
    using n by (auto simp: bit_Reflect bit_CRC_table_shift)
  also have "\<dots> = bit (crc_bit (Reflect e 32)) n"
    unfolding bit_crc_bit p using n by (auto simp: bit_Reflect)
  finally show "bit (Reflect (CRC_table_shift e) 32) n = bit (crc_bit (Reflect e 32)) n" .
qed

lemma Reflect_table_shifts:
  "Reflect ((CRC_table_shift ^^ n) e) 32 = (crc_bit ^^ n) (Reflect e 32)"
  by (induction n) (simp_all add: Reflect_table_shift)

lemma Reflect_low_byte:
  assumes "i < 256"
  shows "Reflect (push_bit 24 (Reflect (of_nat i) 8)) 32 = of_nat i"
proof (rule bit_word_eqI)
  fix n assume "n < LENGTH(32)"
  then have n: "n < 32" by simp
  have high: "\<not> bit (of_nat i :: u32) n" if "8 \<le> n"
  proof -
    from assms have "take_bit 8 i = i" by (simp add: take_bit_eq_mod)
    then have "\<not> bit i n" using that by (metis bit_take_bit_iff linorder_not_le)
    then show ?thesis by (simp add: bit_of_nat_iff)
  qed
  show "bit (Reflect (push_bit 24 (Reflect (of_nat i) 8)) 32) n = bit (of_nat i :: u32) n"
    using n high by (cases "8 \<le> n") (auto simp: bit_Reflect bit_push_bit_iff)
qed

lemma CRC_table_entry_eq: "i < 256 \<Longrightarrow> CRC_table_entry i = (crc_bit ^^ 8) (of_nat i)"
  by (simp add: CRC_table_entry_def Reflect_table_shifts Reflect_low_byte del: funpow.simps)


lemma CRC_CreateTable_loop_length [simp]:
  "length (CRC_CreateTable_loop n tbl) = length tbl"
  by (induction n arbitrary: tbl) simp_all

lemma CRC_CreateTable_loop_nth:
  assumes "n \<le> CRC_TABLE_DEPTH" and "length tbl = CRC_TABLE_DEPTH"
    and "\<And>k. k < CRC_TABLE_DEPTH - n \<Longrightarrow> tbl ! k = CRC_table_entry k"
    and "k < CRC_TABLE_DEPTH"
  shows "CRC_CreateTable_loop n tbl ! k = CRC_table_entry k"
  using assms
proof (induction n arbitrary: tbl)
  case 0
  then show ?case by simp
next
  case (Suc n)
  show ?case unfolding CRC_CreateTable_loop.simps
  proof (rule Suc.IH)
    fix j assume "j < CRC_TABLE_DEPTH - n"
    then show "tbl[CRC_TABLE_DEPTH - Suc n := CRC_table_entry (CRC_TABLE_DEPTH - Suc n)] ! j =
        CRC_table_entry j"
      using Suc.prems(1-3) by (cases "j = CRC_TABLE_DEPTH - Suc n") auto
  qed (use Suc.prems in auto)
qed

lemma CRC_CreateTable_eq:
  "length tbl = CRC_TABLE_DEPTH \<Longrightarrow>
    CRC_CreateTable tbl = map CRC_table_entry [0..<CRC_TABLE_DEPTH]"
  unfolding CRC_CreateTable_def
  by (rule nth_equalityI) (auto intro: CRC_CreateTable_loop_nth)

subsection \<open>The table driven step is eight serial steps\<close>

lemma CRC_step_eq:
  "CRC_step (map CRC_table_entry [0..<CRC_TABLE_DEPTH]) x b = crc_byte x b"
proof -
  let ?y = "x XOR ucast b"
  have lt: "unat (?y AND 0xff) < 256"
    by (rule le_less_trans [OF word_and_le1 [THEN word_le_nat_alt [THEN iffD1]]]) simp
  have "drop_bit 8 ?y = drop_bit 8 x"
    by (rule bit_word_eqI) (auto simp: bit_simps dest: bit_imp_le_length)
  then have "crc_byte x b = (crc_bit ^^ 8) (?y AND 0xff) XOR drop_bit 8 x"
    unfolding crc_byte_def by (subst crc_bits_split) simp
  moreover have "map CRC_table_entry [0..<CRC_TABLE_DEPTH] ! unat (?y AND 0xff) =
      (crc_bit ^^ 8) (?y AND 0xff)"
    using lt by (simp add: CRC_TABLE_DEPTH_def CRC_table_entry_eq del: funpow.simps)
  ultimately show ?thesis by (simp add: CRC_step_def)
qed

lemma CRC_step_table: "CRC_step (map CRC_table_entry [0..<CRC_TABLE_DEPTH]) = crc_byte"
  by (intro ext CRC_step_eq)

subsection \<open>Injectivity of the serial register\<close>

lemma crc_bit_inj: "crc_bit x = crc_bit y \<Longrightarrow> x = y"
proof (rule bit_word_eqI)
  fix n
  assume eq: "crc_bit x = crc_bit y" and n: "n < LENGTH(32)"
  have all: "bit (crc_bit x) m = bit (crc_bit y) m" for m by (simp add: eq)
  have "\<not> bit x 32" "\<not> bit y 32" by (auto dest: bit_imp_le_length)
  then have low: "bit x 0 = bit y 0"
    using all [of 31] by (simp add: bit_crc_bit)
  show "bit x n = bit y n"
    using all [of "n - 1"] low by (cases n) (auto simp: bit_crc_bit)
qed


lemma crc_bits_inj: "(crc_bit ^^ n) x = (crc_bit ^^ n) y \<Longrightarrow> x = y"
  by (induction n) (auto dest: crc_bit_inj)

lemma crc_byte_state_inj: "crc_byte x b = crc_byte y b \<Longrightarrow> x = y"
proof -
  assume "crc_byte x b = crc_byte y b"
  then have "x XOR ucast b = y XOR ucast b" unfolding crc_byte_def by (rule crc_bits_inj)
  then show "x = y" by simp
qed

lemma foldl_crc_byte_inj: "foldl crc_byte x bs = foldl crc_byte y bs \<Longrightarrow> x = y"
  by (induction bs arbitrary: x y) (auto dest: crc_byte_state_inj)

text \<open>\<open>le_bytes bs\<close> is the number whose little endian bytes are \<open>bs\<close>: what a run over at most
  four bytes mixes into the register.\<close>

fun le_bytes :: "u8 list \<Rightarrow> u32" where
  "le_bytes [] = 0"
| "le_bytes (b # bs) = ucast b XOR push_bit 8 (le_bytes bs)"

lemma bit_le_bytes:
  "length bs \<le> 4 \<Longrightarrow> bit (le_bytes bs) n =
    (n < 8 * length bs \<and> bit (bs ! (n div 8)) (n mod 8))"
proof (induction bs arbitrary: n)
  case Nil
  then show ?case by simp
next
  case (Cons b bs)
  have le: "bit (le_bytes (b # bs)) n = ((bit b n \<and> n < 32) \<noteq> (8 \<le> n \<and> n < 32 \<and> bit (le_bytes bs) (n - 8)))"
    unfolding le_bytes.simps bit_xor_iff bit_push_bit_iff bit_ucast_iff by auto
  show ?case
  proof (cases "n < 8")
    case True
    then show ?thesis unfolding le by simp
  next
    case False
    then obtain m where m: "n = m + 8" by (metis le_add_diff_inverse2 linorder_not_less)
    have "\<not> bit b (m + 8)" by (auto dest: bit_imp_le_length)
    then have "bit (le_bytes (b # bs)) n = (m + 8 < 32 \<and> bit (le_bytes bs) m)"
      using le by (simp del: le_bytes.simps add: m)
    moreover have "(m + 8) div 8 = Suc (m div 8)" by simp
    ultimately show ?thesis
      using Cons.IH [of m] Cons.prems m by (auto simp del: le_bytes.simps)
  qed
qed

lemma le_bytes_inj:
  assumes "length as \<le> 4" and "length as = length bs" and "le_bytes as = le_bytes bs"
  shows "as = bs"
proof (rule nth_equalityI)
  fix i assume i: "i < length as"
  show "as ! i = bs ! i"
  proof (rule bit_word_eqI)
    fix n assume "n < LENGTH(8)"
    then have n: "n < 8" by simp
    have "bit (le_bytes as) (8 * i + n) = bit (le_bytes bs) (8 * i + n)" by (simp add: assms)
    then show "bit (as ! i) n = bit (bs ! i) n"
      using assms(1,2) i n by (simp add: bit_le_bytes)
  qed
qed (use assms in simp)

lemma foldl_crc_byte_le_bytes:
  "length bs \<le> 4 \<Longrightarrow> foldl crc_byte x bs = (crc_bit ^^ (8 * length bs)) (x XOR le_bytes bs)"
proof (induction bs arbitrary: x)
  case Nil
  then show ?case by simp
next
  case (Cons b bs)
  let ?h = "push_bit 8 (le_bytes bs)"
  have "drop_bit 8 ?h = le_bytes bs"
    using Cons.prems by (intro bit_word_eqI) (auto simp: bit_simps bit_le_bytes)
  moreover have "(crc_bit ^^ 8) ?h = drop_bit 8 ?h"
    by (rule crc_bits_low_zero) (simp add: bit_simps)
  ultimately have h: "(crc_bit ^^ 8) ?h = le_bytes bs" by simp
  have "foldl crc_byte x (b # bs) =
      (crc_bit ^^ (8 * length bs)) ((crc_bit ^^ 8) (x XOR ucast b) XOR (crc_bit ^^ 8) ?h)"
    using Cons.IH [of "crc_byte x b"] Cons.prems
    by (simp add: h crc_byte_def [of x b] del: funpow.simps)
  also have "\<dots> = (crc_bit ^^ (8 * length bs)) ((crc_bit ^^ 8) ((x XOR ucast b) XOR ?h))"
    by (simp only: crc_bits_xor)
  also have "\<dots> = (crc_bit ^^ (8 * length bs + 8)) (x XOR le_bytes (b # bs))"
    by (simp only: funpow_add comp_apply le_bytes.simps xor.assoc)
  finally show ?case by (simp add: algebra_simps del: funpow.simps)
qed


subsection \<open>Properties\<close>

lemma crc_state_init_ok: "crc_state_ok crc_state_init"
  by (simp add: crc_state_ok_def crc_state_init_def)

lemma CRC_Calc_eq:
  "crc_state_ok st \<Longrightarrow> CRC_Calc st buf =
    (crc_serial buf, st\<lparr>s_crc_table_flag := (if s_crc_table_flag st = 0 then 1 else s_crc_table_flag st),
      s_crc_table := map CRC_table_entry [0..<CRC_TABLE_DEPTH]\<rparr>)"
  by (auto simp: CRC_Calc_def crc_state_ok_def CRC_CreateTable_eq CRC_step_table crc_serial_def)

text \<open>C38: from the power-up state or from the state any earlier call left, the table driven
  \<^verbatim>\<open>CRC_Calc\<close> returns exactly the bit serial CRC-32 of the buffer (preset to all ones,
  reflected polynomial), builds its table at most once, and leaves the table in the state the
  next call relies on.\<close>

theorem CRC_Calc_is_serial:
  assumes "crc_state_ok st"
  shows "fst (CRC_Calc st buf) = crc_serial buf \<and> crc_state_ok (snd (CRC_Calc st buf)) \<and>
    s_crc_table_flag (snd (CRC_Calc st buf)) \<noteq> 0"
  using CRC_Calc_eq [OF assms, of buf] by (auto simp: crc_state_ok_def)

theorem CRC_Calc_is_serial_witness:
  "fst (CRC_Calc crc_state_init [0x31, 0x32]) = crc_serial [0x31, 0x32] \<and>
    crc_state_ok (snd (CRC_Calc crc_state_init [0x31, 0x32]))"
  using CRC_Calc_is_serial [OF crc_state_init_ok, of "[0x31, 0x32]"] by blast

text \<open>C39: the checksum separates any two buffers of the same length that differ only inside one
  window of at most four consecutive bytes, whatever surrounds the window and whether or not
  the table was already built.\<close>

theorem CRC_Calc_detects_burst:
  assumes "crc_state_ok st" and "length m1 = length m2" and "length m1 \<le> 4" and "m1 \<noteq> m2"
  shows "fst (CRC_Calc st (pre @ m1 @ post)) \<noteq> fst (CRC_Calc st (pre @ m2 @ post))"
proof
  let ?x = "foldl crc_byte 0xffffffff pre"
  assume "fst (CRC_Calc st (pre @ m1 @ post)) = fst (CRC_Calc st (pre @ m2 @ post))"
  then have "foldl crc_byte (foldl crc_byte ?x m1) post = foldl crc_byte (foldl crc_byte ?x m2) post"
    using assms(1) by (simp add: CRC_Calc_eq crc_serial_def)
  then have "foldl crc_byte ?x m1 = foldl crc_byte ?x m2" by (rule foldl_crc_byte_inj)
  then have "?x XOR le_bytes m1 = ?x XOR le_bytes m2"
    using assms(2,3) by (auto simp: foldl_crc_byte_le_bytes dest: crc_bits_inj simp del: funpow.simps)
  then have "le_bytes m1 = le_bytes m2" by simp
  then show False using assms(2-4) le_bytes_inj by blast
qed

theorem CRC_Calc_detects_burst_witness:
  "fst (CRC_Calc crc_state_init ([9] @ [1, 2, 3, 4] @ [7])) \<noteq>
    fst (CRC_Calc crc_state_init ([9] @ [4, 3, 2, 1] @ [7]))"
  by (rule CRC_Calc_detects_burst [OF crc_state_init_ok]) simp_all

lemma crc_check_bytes:
  "crc_byte 0xffffffff 0x31 = 0x7c231048"
  "crc_byte 0x7c231048 0x32 = 0xb0acbb32"
  "crc_byte 0xb0acbb32 0x33 = 0x77b79c2d"
  "crc_byte 0x77b79c2d 0x34 = 0x641c1f5c"
  "crc_byte 0x641c1f5c 0x35 = 0x340ac5e3"
  "crc_byte 0x340ac5e3 0x36 = 0xf68d2c9e"
  "crc_byte 0xf68d2c9e 0x37 = 0xaffc9660"
  "crc_byte 0xaffc9660 0x38 = 0x651f2550"
  "crc_byte 0x651f2550 0x39 = 0x340bc6d9"
  by code_simp+

text \<open>\<^verbatim>\<open>CRC_Calc\<close> leaves out the final complement of IEEE 802.3: for the nine ASCII digits,
  whose CRC-32 check value is 0xcbf43926, the routine returns its bitwise complement.\<close>

lemma CRC_Calc_no_final_complement:
  "fst (CRC_Calc crc_state_init [0x31, 0x32, 0x33, 0x34, 0x35, 0x36, 0x37, 0x38, 0x39]) =
    NOT 0xcbf43926"
  by (simp add: CRC_Calc_eq [OF crc_state_init_ok] crc_serial_def crc_check_bytes)

end
