(* ===== verification/Heap4.thy ===== *)
theory Heap4
  imports Prelude
begin

text \<open>
  The kernel's memory allocator, \<^verbatim>\<open>FreeRTOS-Kernel/portable/MemMang/heap_4.c\<close>, in the
  configuration of the two boards (\<^verbatim>\<open>portBYTE_ALIGNMENT\<close> 8, \<^verbatim>\<open>configUSE_MALLOC_FAILED_HOOK\<close>
  1, \<^verbatim>\<open>configASSERT\<close> empty, no clearing on free).  Block headers live in a map from
  addresses to \<open>BlockLink_t\<close>; two headers never overlap, since all block addresses are
  multiples of 8 and a header has 8 bytes.  Payload bytes are kept in a second map, which only
  \<open>pvPortCalloc\<close> writes.  The scheduler suspension around the critical parts makes each
  operation atomic and is not part of the state.
\<close>

subsection \<open>Constants and state\<close>

definition portBYTE_ALIGNMENT :: u32 where "portBYTE_ALIGNMENT = 8"
definition portBYTE_ALIGNMENT_MASK :: u32 where "portBYTE_ALIGNMENT_MASK = 7"

text \<open>A header is two words, so \<^verbatim>\<open>sizeof( BlockLink_t )\<close> is 8.\<close>

definition xHeapStructSize :: u32 where
  "xHeapStructSize = (8 + (portBYTE_ALIGNMENT - 1)) AND NOT portBYTE_ALIGNMENT_MASK"

definition heapMINIMUM_BLOCK_SIZE :: u32 where
  "heapMINIMUM_BLOCK_SIZE = push_bit 1 xHeapStructSize"

definition heapSIZE_MAX :: u32 where "heapSIZE_MAX = NOT 0"

definition heapMULTIPLY_WILL_OVERFLOW :: "u32 \<Rightarrow> u32 \<Rightarrow> bool" where
  "heapMULTIPLY_WILL_OVERFLOW a b = (a > 0 \<and> b > heapSIZE_MAX div a)"

definition heapADD_WILL_OVERFLOW :: "u32 \<Rightarrow> u32 \<Rightarrow> bool" where
  "heapADD_WILL_OVERFLOW a b = (a > heapSIZE_MAX - b)"

definition heapBLOCK_ALLOCATED_BITMASK :: u32 where
  "heapBLOCK_ALLOCATED_BITMASK = push_bit 31 1"

definition heapBLOCK_SIZE_IS_VALID :: "u32 \<Rightarrow> bool" where
  "heapBLOCK_SIZE_IS_VALID n = (n AND heapBLOCK_ALLOCATED_BITMASK = 0)"

record BlockLink_t =
  pxNextFreeBlock :: u32
  xBlockSize :: u32

definition heapBLOCK_IS_ALLOCATED :: "BlockLink_t \<Rightarrow> bool" where
  "heapBLOCK_IS_ALLOCATED b = (xBlockSize b AND heapBLOCK_ALLOCATED_BITMASK \<noteq> 0)"

definition heapALLOCATE_BLOCK :: "BlockLink_t \<Rightarrow> BlockLink_t" where
  "heapALLOCATE_BLOCK b = b\<lparr>xBlockSize := xBlockSize b OR heapBLOCK_ALLOCATED_BITMASK\<rparr>"

definition heapFREE_BLOCK :: "BlockLink_t \<Rightarrow> BlockLink_t" where
  "heapFREE_BLOCK b = b\<lparr>xBlockSize := xBlockSize b AND NOT heapBLOCK_ALLOCATED_BITMASK\<rparr>"

type_synonym hmem = "u32 \<Rightarrow> BlockLink_t"

text \<open>What the linker and the configuration fix: the address of the static \<^verbatim>\<open>xStart\<close>, the address
  of \<^verbatim>\<open>ucHeap\<close> and \<^verbatim>\<open>configTOTAL_HEAP_SIZE\<close> (64 KiB, 1 MiB or 45 KiB on the boards).\<close>

record heap_cfg =
  xStart :: u32
  ucHeap :: u32
  configTOTAL_HEAP_SIZE :: u32

text \<open>The statics of the file; \<open>malloc_failed\<close> counts the calls of the application's
  \<^verbatim>\<open>vApplicationMallocFailedHook\<close>.\<close>

record heap_state =
  hmem :: hmem
  payload :: "u32 \<Rightarrow> u8"
  pxEnd :: u32
  xFreeBytesRemaining :: u32
  xMinimumEverFreeBytesRemaining :: u32
  xNumberOfSuccessfulAllocations :: u32
  xNumberOfSuccessfulFrees :: u32
  malloc_failed :: nat

subsection \<open>prvHeapInit\<close>

definition prvHeapInit :: "heap_cfg \<Rightarrow> heap_state \<Rightarrow> heap_state" where
  "prvHeapInit cfg st =
     (let uxAddress = ucHeap cfg;
          misaligned = (uxAddress AND portBYTE_ALIGNMENT_MASK \<noteq> 0);
          aligned = (if misaligned
                     then (uxAddress + (portBYTE_ALIGNMENT - 1)) AND NOT portBYTE_ALIGNMENT_MASK
                     else uxAddress);
          xTotalHeapSize = (if misaligned
                            then configTOTAL_HEAP_SIZE cfg - (aligned - ucHeap cfg)
                            else configTOTAL_HEAP_SIZE cfg);
          pucAlignedHeap = aligned;
          m1 = (hmem st)(xStart cfg := \<lparr>pxNextFreeBlock = pucAlignedHeap, xBlockSize = 0\<rparr>);
          endAddress = (pucAlignedHeap + xTotalHeapSize - xHeapStructSize)
                         AND NOT portBYTE_ALIGNMENT_MASK;
          m2 = m1(endAddress := \<lparr>pxNextFreeBlock = 0, xBlockSize = 0\<rparr>);
          firstSize = endAddress - pucAlignedHeap;
          m3 = m2(pucAlignedHeap := \<lparr>pxNextFreeBlock = endAddress, xBlockSize = firstSize\<rparr>)
      in st\<lparr>hmem := m3, pxEnd := endAddress,
            xMinimumEverFreeBytesRemaining := firstSize, xFreeBytesRemaining := firstSize\<rparr>)"

subsection \<open>prvInsertBlockIntoFreeList\<close>

text \<open>The search for the last free block below the inserted one.  On a damaged list it need not
  end: then the result is \<open>None\<close>.\<close>

partial_function (option) insert_search :: "hmem \<Rightarrow> u32 \<Rightarrow> u32 \<Rightarrow> u32 option" where
  "insert_search m it b =
     (if pxNextFreeBlock (m it) < b then insert_search m (pxNextFreeBlock (m it)) b else Some it)"

text \<open>Merging with the block behind: \<open>b\<close> is the block that now holds the inserted memory, \<open>e\<close> is
  \<^verbatim>\<open>pxEnd\<close>.\<close>

definition insert_merge_behind :: "hmem \<Rightarrow> u32 \<Rightarrow> u32 \<Rightarrow> u32 \<Rightarrow> hmem" where
  "insert_merge_behind m e it b =
     (let nxt = pxNextFreeBlock (m it) in
      if b + xBlockSize (m b) = nxt then
        if nxt \<noteq> e then
          (let m' = m(b := (m b)\<lparr>xBlockSize := xBlockSize (m b) + xBlockSize (m nxt)\<rparr>)
           in m'(b := (m' b)\<lparr>pxNextFreeBlock := pxNextFreeBlock (m' (pxNextFreeBlock (m' it)))\<rparr>))
        else m(b := (m b)\<lparr>pxNextFreeBlock := e\<rparr>)
      else m(b := (m b)\<lparr>pxNextFreeBlock := nxt\<rparr>))"

definition prvInsertBlockIntoFreeList :: "heap_cfg \<Rightarrow> heap_state \<Rightarrow> u32 \<Rightarrow> heap_state option" where
  "prvInsertBlockIntoFreeList cfg st pxBlockToInsert =
     (case insert_search (hmem st) (xStart cfg) pxBlockToInsert of
        None \<Rightarrow> None
      | Some pxIterator \<Rightarrow>
          let m0 = hmem st;
              merge_before = (pxIterator + xBlockSize (m0 pxIterator) = pxBlockToInsert);
              m1 = (if merge_before
                    then m0(pxIterator := (m0 pxIterator)\<lparr>xBlockSize :=
                           xBlockSize (m0 pxIterator) + xBlockSize (m0 pxBlockToInsert)\<rparr>)
                    else m0);
              b = (if merge_before then pxIterator else pxBlockToInsert);
              m2 = insert_merge_behind m1 (pxEnd st) pxIterator b;
              m3 = (if pxIterator \<noteq> b
                    then m2(pxIterator := (m2 pxIterator)\<lparr>pxNextFreeBlock := b\<rparr>)
                    else m2)
          in Some (st\<lparr>hmem := m3\<rparr>))"

subsection \<open>pvPortMalloc\<close>

text \<open>The size the block must have: header and alignment added, 0 when that overflows.\<close>

definition malloc_size :: "u32 \<Rightarrow> u32" where
  "malloc_size xWantedSize =
     (if xWantedSize > 0 then
        (let extra = xHeapStructSize + portBYTE_ALIGNMENT - (xWantedSize AND portBYTE_ALIGNMENT_MASK)
         in if \<not> heapADD_WILL_OVERFLOW xWantedSize extra then xWantedSize + extra else 0)
      else xWantedSize)"

text \<open>The first fit search; the result is the pair \<^verbatim>\<open>(pxPreviousBlock, pxBlock)\<close>.\<close>

partial_function (option) malloc_search :: "hmem \<Rightarrow> u32 \<Rightarrow> u32 \<Rightarrow> u32 \<Rightarrow> (u32 \<times> u32) option" where
  "malloc_search m prev blk w =
     (if xBlockSize (m blk) < w \<and> pxNextFreeBlock (m blk) \<noteq> 0
      then malloc_search m blk (pxNextFreeBlock (m blk)) w
      else Some (prev, blk))"

text \<open>Taking \<open>blk\<close> (whose predecessor in the free list is \<open>prev\<close>) out of the list, with the split
  of a block that is larger than needed.\<close>

definition malloc_take :: "heap_cfg \<Rightarrow> heap_state \<Rightarrow> u32 \<Rightarrow> u32 \<Rightarrow> u32 \<Rightarrow> heap_state option" where
  "malloc_take cfg st prev blk w =
     (let m0 = hmem st;
          m1 = m0(prev := (m0 prev)\<lparr>pxNextFreeBlock := pxNextFreeBlock (m0 blk)\<rparr>);
          split_st =
            (if xBlockSize (m1 blk) - w > heapMINIMUM_BLOCK_SIZE then
               (let new = blk + w;
                    m2 = m1(new := (m1 new)\<lparr>xBlockSize := xBlockSize (m1 blk) - w\<rparr>);
                    m3 = m2(blk := (m2 blk)\<lparr>xBlockSize := w\<rparr>)
                in prvInsertBlockIntoFreeList cfg (st\<lparr>hmem := m3\<rparr>) new)
             else Some (st\<lparr>hmem := m1\<rparr>))
      in case split_st of
           None \<Rightarrow> None
         | Some s \<Rightarrow>
             let free = xFreeBytesRemaining s - xBlockSize (hmem s blk);
                 min_free = (if free < xMinimumEverFreeBytesRemaining s then free
                             else xMinimumEverFreeBytesRemaining s);
                 m4 = (hmem s)(blk := heapALLOCATE_BLOCK (hmem s blk));
                 m5 = m4(blk := (m4 blk)\<lparr>pxNextFreeBlock := 0\<rparr>)
             in Some (s\<lparr>hmem := m5, xFreeBytesRemaining := free,
                        xMinimumEverFreeBytesRemaining := min_free,
                        xNumberOfSuccessfulAllocations := xNumberOfSuccessfulAllocations s + 1\<rparr>))"

definition pvPortMalloc :: "heap_cfg \<Rightarrow> heap_state \<Rightarrow> u32 \<Rightarrow> (u32 \<times> heap_state) option" where
  "pvPortMalloc cfg st xWantedSize =
     (let st0 = (if pxEnd st = 0 then prvHeapInit cfg st else st);
          w = malloc_size xWantedSize;
          found =
            (if heapBLOCK_SIZE_IS_VALID w \<and> w > 0 \<and> w \<le> xFreeBytesRemaining st0 then
               (case malloc_search (hmem st0) (xStart cfg)
                       (pxNextFreeBlock (hmem st0 (xStart cfg))) w of
                  None \<Rightarrow> None
                | Some (prev, blk) \<Rightarrow>
                    if blk \<noteq> pxEnd st0 then
                      map_option (\<lambda>s. (pxNextFreeBlock (hmem st0 prev) + xHeapStructSize, s))
                        (malloc_take cfg st0 prev blk w)
                    else Some (0, st0))
             else Some (0, st0))
      in case found of
           None \<Rightarrow> None
         | Some (pvReturn, s) \<Rightarrow>
             if pvReturn = 0 then Some (0, s\<lparr>malloc_failed := malloc_failed s + 1\<rparr>)
             else Some (pvReturn, s))"

subsection \<open>vPortFree, pvPortCalloc and the queries\<close>

definition vPortFree :: "heap_cfg \<Rightarrow> heap_state \<Rightarrow> u32 \<Rightarrow> heap_state option" where
  "vPortFree cfg st pv =
     (if pv \<noteq> 0 then
        (let pxLink = pv - xHeapStructSize in
         if heapBLOCK_IS_ALLOCATED (hmem st pxLink) then
           if pxNextFreeBlock (hmem st pxLink) = 0 then
             (let m1 = (hmem st)(pxLink := heapFREE_BLOCK (hmem st pxLink));
                  st1 = st\<lparr>hmem := m1,
                           xFreeBytesRemaining := xFreeBytesRemaining st + xBlockSize (m1 pxLink)\<rparr>
              in map_option (\<lambda>s. s\<lparr>xNumberOfSuccessfulFrees := xNumberOfSuccessfulFrees s + 1\<rparr>)
                   (prvInsertBlockIntoFreeList cfg st1 pxLink))
           else Some st
         else Some st)
      else Some st)"

definition pvPortCalloc :: "heap_cfg \<Rightarrow> heap_state \<Rightarrow> u32 \<Rightarrow> u32 \<Rightarrow> (u32 \<times> heap_state) option" where
  "pvPortCalloc cfg st xNum xSize =
     (if \<not> heapMULTIPLY_WILL_OVERFLOW xNum xSize then
        (case pvPortMalloc cfg st (xNum * xSize) of
           None \<Rightarrow> None
         | Some (pv, s) \<Rightarrow>
             if pv \<noteq> 0 then
               Some (pv, s\<lparr>payload := (\<lambda>a. if unat (a - pv) < unat (xNum * xSize) then 0
                                             else payload s a)\<rparr>)
             else Some (pv, s))
      else Some (0, st))"

definition xPortGetFreeHeapSize :: "heap_state \<Rightarrow> u32" where
  "xPortGetFreeHeapSize st = xFreeBytesRemaining st"

definition xPortGetMinimumEverFreeHeapSize :: "heap_state \<Rightarrow> u32" where
  "xPortGetMinimumEverFreeHeapSize st = xMinimumEverFreeBytesRemaining st"

record HeapStats_t =
  xAvailableHeapSpaceInBytes :: u32
  xSizeOfLargestFreeBlockInBytes :: u32
  xSizeOfSmallestFreeBlockInBytes :: u32
  xNumberOfFreeBlocks :: u32
  xMinimumEverFreeBytes :: u32
  xNumberOfAllocations :: u32
  xNumberOfFrees :: u32

text \<open>The walk of \<^verbatim>\<open>vPortGetHeapStats\<close>: number of blocks, largest and smallest size.\<close>

partial_function (option) heap_stats_walk ::
  "hmem \<Rightarrow> u32 \<Rightarrow> u32 \<Rightarrow> u32 \<Rightarrow> u32 \<Rightarrow> u32 \<Rightarrow> (u32 \<times> u32 \<times> u32) option" where
  "heap_stats_walk m e blk xBlocks xMaxSize xMinSize =
     (if blk \<noteq> e then
        heap_stats_walk m e (pxNextFreeBlock (m blk)) (xBlocks + 1)
          (if xBlockSize (m blk) > xMaxSize then xBlockSize (m blk) else xMaxSize)
          (if xBlockSize (m blk) < xMinSize then xBlockSize (m blk) else xMinSize)
      else Some (xBlocks, xMaxSize, xMinSize))"

definition vPortGetHeapStats :: "heap_cfg \<Rightarrow> heap_state \<Rightarrow> HeapStats_t option" where
  "vPortGetHeapStats cfg st =
     (let blk = pxNextFreeBlock (hmem st (xStart cfg));
          walked = (if blk \<noteq> 0 then heap_stats_walk (hmem st) (pxEnd st) blk 0 0 0xffffffff
                    else Some (0, 0, 0xffffffff))
      in case walked of
           None \<Rightarrow> None
         | Some (xBlocks, xMaxSize, xMinSize) \<Rightarrow>
             Some \<lparr>xAvailableHeapSpaceInBytes = xFreeBytesRemaining st,
                   xSizeOfLargestFreeBlockInBytes = xMaxSize,
                   xSizeOfSmallestFreeBlockInBytes = xMinSize,
                   xNumberOfFreeBlocks = xBlocks,
                   xMinimumEverFreeBytes = xMinimumEverFreeBytesRemaining st,
                   xNumberOfAllocations = xNumberOfSuccessfulAllocations st,
                   xNumberOfFrees = xNumberOfSuccessfulFrees st\<rparr>)"

end
