(* ===== verification/Heap4Inv.thy ===== *)
theory Heap4Inv
  imports Heap4
begin

text \<open>
  Correctness of \<open>Heap4\<close>.  The abstract heap is the list of segments, in address order,
  that tile the region from the aligned start of \<^verbatim>\<open>ucHeap\<close> to \<^verbatim>\<open>pxEnd\<close>: each a size and a flag
  that says whether the application owns it.  \<open>freechain\<close> relates the free segments to the
  linked list that starts at \<^verbatim>\<open>xStart\<close>, \<open>usedok\<close> the owned ones to their marked headers.
\<close>

subsection \<open>Segments\<close>

type_synonym seg = "nat \<times> bool"

definition segs_size :: "seg list \<Rightarrow> nat" where
  "segs_size bl = sum_list (map fst bl)"

definition free_size :: "seg list \<Rightarrow> nat" where
  "free_size bl = sum_list (map fst (filter (\<lambda>b. \<not> snd b) bl))"

lemma segs_size_simps [simp]:
  "segs_size [] = 0" "segs_size (b # bl) = fst b + segs_size bl"
  "segs_size (xs @ ys) = segs_size xs + segs_size ys"
  by (simp_all add: segs_size_def)

lemma free_size_simps [simp]:
  "free_size [] = 0" "free_size ((s, True) # bl) = free_size bl"
  "free_size ((s, False) # bl) = s + free_size bl"
  "free_size (xs @ ys) = free_size xs + free_size ys"
  by (simp_all add: free_size_def)

lemma free_size_le: "free_size bl \<le> segs_size bl"
proof (induction bl)
  case (Cons b bl)
  then show ?case by (cases b; cases "snd b") auto
qed simp

fun free_addrs :: "nat \<Rightarrow> seg list \<Rightarrow> nat list" where
  "free_addrs a [] = []"
| "free_addrs a ((s, True) # bl) = free_addrs (a + s) bl"
| "free_addrs a ((s, False) # bl) = a # free_addrs (a + s) bl"

fun used_addrs :: "nat \<Rightarrow> seg list \<Rightarrow> nat list" where
  "used_addrs a [] = []"
| "used_addrs a ((s, True) # bl) = a # used_addrs (a + s) bl"
| "used_addrs a ((s, False) # bl) = used_addrs (a + s) bl"

lemma free_addrs_append [simp]:
  "free_addrs a (xs @ ys) = free_addrs a xs @ free_addrs (a + segs_size xs) ys"
  by (induction a xs rule: free_addrs.induct) (simp_all add: add.assoc)

lemma used_addrs_append [simp]:
  "used_addrs a (xs @ ys) = used_addrs a xs @ used_addrs (a + segs_size xs) ys"
  by (induction a xs rule: used_addrs.induct) (simp_all add: add.assoc)

definition pos_sizes :: "seg list \<Rightarrow> bool" where
  "pos_sizes bl \<longleftrightarrow> (\<forall>b \<in> set bl. 0 < fst b)"

lemma pos_sizes_simps [simp]:
  "pos_sizes []" "pos_sizes (b # bl) = (0 < fst b \<and> pos_sizes bl)"
  "pos_sizes (xs @ ys) = (pos_sizes xs \<and> pos_sizes ys)"
  by (auto simp: pos_sizes_def)

lemma free_addrs_range:
  "pos_sizes bl \<Longrightarrow> x \<in> set (free_addrs a bl) \<Longrightarrow> a \<le> x \<and> x < a + segs_size bl"
  by (induction a bl rule: free_addrs.induct) auto

lemma used_addrs_range:
  "pos_sizes bl \<Longrightarrow> x \<in> set (used_addrs a bl) \<Longrightarrow> a \<le> x \<and> x < a + segs_size bl"
  by (induction a bl rule: used_addrs.induct) auto

lemma free_used_disjoint:
  "pos_sizes bl \<Longrightarrow> x \<in> set (free_addrs a bl) \<Longrightarrow> x \<notin> set (used_addrs a bl)"
proof (induction a bl rule: free_addrs.induct)
  case (2 a s bl)
  then show ?case using free_addrs_range [of bl x "a + s"] by auto
next
  case (3 a s bl)
  then show ?case using used_addrs_range [of bl x "a + s"] by auto
qed simp

subsection \<open>The free list\<close>

fun first_free :: "nat \<Rightarrow> seg list \<Rightarrow> u32 \<Rightarrow> u32" where
  "first_free a [] n = n"
| "first_free a ((s, True) # bl) n = first_free (a + s) bl n"
| "first_free a ((s, False) # bl) n = w32 a"

fun last_free :: "u32 \<Rightarrow> nat \<Rightarrow> seg list \<Rightarrow> u32" where
  "last_free p a [] = p"
| "last_free p a ((s, True) # bl) = last_free p (a + s) bl"
| "last_free p a ((s, False) # bl) = last_free (w32 a) (a + s) bl"

fun freechain :: "hmem \<Rightarrow> u32 \<Rightarrow> nat \<Rightarrow> seg list \<Rightarrow> u32 \<Rightarrow> bool" where
  "freechain m p a [] n = (pxNextFreeBlock (m p) = n)"
| "freechain m p a ((s, True) # bl) n = freechain m p (a + s) bl n"
| "freechain m p a ((s, False) # bl) n =
     (pxNextFreeBlock (m p) = w32 a \<and> xBlockSize (m (w32 a)) = w32 s \<and>
      freechain m (w32 a) (a + s) bl n)"

fun usedok :: "hmem \<Rightarrow> nat \<Rightarrow> seg list \<Rightarrow> bool" where
  "usedok m a [] = True"
| "usedok m a ((s, True) # bl) =
     (m (w32 a) = \<lparr>pxNextFreeBlock = 0, xBlockSize = w32 s OR heapBLOCK_ALLOCATED_BITMASK\<rparr> \<and>
      usedok m (a + s) bl)"
| "usedok m a ((s, False) # bl) = usedok m (a + s) bl"

lemma freechain_next: "freechain m p a bl n \<Longrightarrow> pxNextFreeBlock (m p) = first_free a bl n"
  by (induction m p a bl n rule: freechain.induct) auto

lemma freechain_last: "freechain m p a bl n \<Longrightarrow> pxNextFreeBlock (m (last_free p a bl)) = n"
  by (induction m p a bl n rule: freechain.induct) auto

lemma freechain_append:
  "freechain m p a (xs @ ys) n \<longleftrightarrow>
    freechain m p a xs (first_free (a + segs_size xs) ys n) \<and>
    freechain m (last_free p a xs) (a + segs_size xs) ys n"
proof (induction m p a xs "first_free (a + segs_size xs) ys n" rule: freechain.induct)
  case (1 m p a)
  then show ?case by (auto dest: freechain_next)
qed (simp_all add: add.assoc)

lemma freechain_cong:
  assumes "freechain m p a bl n"
    and "pxNextFreeBlock (m' q) = pxNextFreeBlock (m p)"
    and "\<And>x. x \<in> set (free_addrs a bl) \<Longrightarrow> m' (w32 x) = m (w32 x)"
  shows "freechain m' q a bl n"
  using assms by (induction m p a bl n arbitrary: q rule: freechain.induct) auto

lemma usedok_cong:
  assumes "usedok m a bl" and "\<And>x. x \<in> set (used_addrs a bl) \<Longrightarrow> m' (w32 x) = m (w32 x)"
  shows "usedok m' a bl"
  using assms by (induction m a bl rule: usedok.induct) auto

lemma usedok_append [simp]:
  "usedok m a (xs @ ys) \<longleftrightarrow> usedok m a xs \<and> usedok m (a + segs_size xs) ys"
  by (induction m a xs rule: usedok.induct) (simp_all add: add.assoc)

lemma last_free_append [simp]:
  "last_free p a (xs @ ys) = last_free (last_free p a xs) (a + segs_size xs) ys"
  by (induction p a xs rule: last_free.induct) (simp_all add: add.assoc)

text \<open>Where the last free segment below a point is: there is none, or it is followed by owned
  segments only.\<close>

lemma last_free_cases:
  "(\<forall>b \<in> set bl. snd b) \<and> last_free p a bl = p \<and> free_addrs a bl = [] \<or>
   (\<exists>xs s ys. bl = xs @ (s, False) # ys \<and> (\<forall>b \<in> set ys. snd b) \<and>
      last_free p a bl = w32 (a + segs_size xs))"
proof (induction p a bl rule: last_free.induct)
  case (2 p a s bl)
  then show ?case
  proof
    assume "(\<forall>b \<in> set bl. snd b) \<and> last_free p (a + s) bl = p \<and> free_addrs (a + s) bl = []"
    then show ?thesis by simp
  next
    assume "\<exists>xs t ys. bl = xs @ (t, False) # ys \<and> (\<forall>b \<in> set ys. snd b) \<and>
        last_free p (a + s) bl = w32 (a + s + segs_size xs)"
    then obtain xs t ys where "bl = xs @ (t, False) # ys" "\<forall>b \<in> set ys. snd b"
        "last_free p (a + s) bl = w32 (a + s + segs_size xs)" by blast
    then show ?thesis
      by (intro disjI2 exI [of _ "(s, True) # xs"] exI [of _ t] exI [of _ ys]) (simp add: add.assoc)
  qed
next
  case (3 p a s bl)
  from "3.IH" show ?case
  proof
    assume "(\<forall>b \<in> set bl. snd b) \<and> last_free (w32 a) (a + s) bl = w32 a \<and> free_addrs (a + s) bl = []"
    then show ?thesis by (intro disjI2 exI [of _ "[]"] exI [of _ s] exI [of _ bl]) simp
  next
    assume "\<exists>xs t ys. bl = xs @ (t, False) # ys \<and> (\<forall>b \<in> set ys. snd b) \<and>
        last_free (w32 a) (a + s) bl = w32 (a + s + segs_size xs)"
    then obtain xs t ys where "bl = xs @ (t, False) # ys" "\<forall>b \<in> set ys. snd b"
        "last_free (w32 a) (a + s) bl = w32 (a + s + segs_size xs)" by blast
    then show ?thesis
      by (intro disjI2 exI [of _ "(s, False) # xs"] exI [of _ t] exI [of _ ys]) (simp add: add.assoc)
  qed
qed simp


lemma all_used_simps:
  assumes "\<forall>b \<in> set bl. snd b"
  shows "free_addrs a bl = []" "last_free p a bl = p" "first_free a bl n = n"
    "freechain m p a bl n = (pxNextFreeBlock (m p) = n)" "free_size bl = 0"
  using assms by (induction a bl rule: free_addrs.induct) auto

lemma first_free_append_used:
  "\<forall>b \<in> set xs. snd b \<Longrightarrow> first_free a (xs @ ys) n = first_free (a + segs_size xs) ys n"
  by (induction a xs rule: free_addrs.induct) (auto simp: add.assoc)

lemma first_free_range:
  assumes "pos_sizes bl"
  shows "first_free a bl (w32 (a + segs_size bl)) \<in> w32 ` {a..a + segs_size bl}"
  using assms
proof (induction a bl rule: free_addrs.induct)
  case (2 a s bl)
  then have "first_free (a + s) bl (w32 (a + s + segs_size bl)) \<in> w32 ` {a + s..a + s + segs_size bl}"
    by simp
  then show ?case by (auto simp: add.assoc)
qed auto

subsection \<open>Inserting a block into the free list\<close>

text \<open>What a free block of size \<open>s\<close> turns into when the segments \<open>post\<close> follow it, and what the
  whole list becomes.\<close>

fun absorb :: "nat \<Rightarrow> seg list \<Rightarrow> nat \<times> seg list" where
  "absorb s ((t, False) # post) = (s + t, post)"
| "absorb s post = (s, post)"

definition absorbed :: "nat \<Rightarrow> seg list \<Rightarrow> seg list" where
  "absorbed s post = (fst (absorb s post), False) # snd (absorb s post)"

definition ins_free :: "seg list \<Rightarrow> nat \<Rightarrow> seg list \<Rightarrow> seg list" where
  "ins_free pre s post =
     (if pre \<noteq> [] \<and> \<not> snd (last pre) then butlast pre @ absorbed (fst (last pre) + s) post
      else pre @ absorbed s post)"

lemma absorbed_size [simp]: "segs_size (absorbed s post) = s + segs_size post"
  by (cases "(s, post)" rule: absorb.cases) (auto simp: absorbed_def)

lemma absorbed_free [simp]: "free_size (absorbed s post) = s + free_size post"
  by (cases "(s, post)" rule: absorb.cases) (auto simp: absorbed_def)

lemma ins_free_size [simp]: "segs_size (ins_free pre s post) = segs_size pre + s + segs_size post"
  by (cases pre rule: rev_cases) (auto simp: ins_free_def)

lemma ins_free_free [simp]: "free_size (ins_free pre s post) = free_size pre + s + free_size post"
proof (cases pre rule: rev_cases)
  case (snoc xs x)
  then show ?thesis by (cases x; cases "snd x") (auto simp: ins_free_def)
qed (simp add: ins_free_def)

text \<open>The region of the heap: positive segments inside the address space, the list head
  outside, the end marker behind the last segment.\<close>

definition region :: "u32 \<Rightarrow> nat \<Rightarrow> seg list \<Rightarrow> u32 \<Rightarrow> bool" where
  "region p a bl n \<longleftrightarrow> pos_sizes bl \<and> 0 < a \<and> a + segs_size bl < 2 ^ 32 \<and>
     n = w32 (a + segs_size bl) \<and> (unat p < a \<or> a + segs_size bl < unat p)"

lemma region_head:
  "region p a bl n \<Longrightarrow> a \<le> x \<Longrightarrow> x \<le> a + segs_size bl \<Longrightarrow> w32 x \<noteq> p"
  by (auto simp: region_def)

lemma insert_search_stop:
  "freechain m p a bl n \<Longrightarrow> b \<le> first_free a bl n \<Longrightarrow> insert_search m p b = Some p"
  by (subst insert_search.simps) (auto dest: freechain_next)

lemma insert_search_eq:
  assumes "freechain m p a (pre @ post) n"
    and "pos_sizes pre" and "a + segs_size pre < 2 ^ 32"
    and "w32 (a + segs_size pre) \<le> first_free (a + segs_size pre) post n"
  shows "insert_search m p (w32 (a + segs_size pre)) = Some (last_free p a pre)"
  using assms
proof (induction p a pre rule: last_free.induct)
  case (1 p a)
  then show ?case using insert_search_stop [of m p a post n "w32 a"] by simp
next
  case (2 p a s bl)
  then show ?case by (simp add: add.assoc)
next
  case (3 p a s bl)
  let ?b = "w32 (a + segs_size ((s, False) # bl))"
  have "w32 a < ?b" using "3.prems"(2,3) by (subst w32_less) auto
  then have "insert_search m p ?b = insert_search m (w32 a) ?b"
    using "3.prems"(1) by (subst insert_search.simps) simp
  then show ?case using 3 by (simp add: add.assoc)
qed


lemma absorb_addrs: "set (free_addrs (y + fst (absorb s post)) (snd (absorb s post))) \<subseteq> set (free_addrs (y + s) post)"
  by (cases "(s, post)" rule: absorb.cases) (auto simp: add.assoc)

lemma absorb_cases:
  obtains (free) t rest where "post = (t, False) # rest"
  | (none) "post = []" | (used) t rest where "post = (t, True) # rest"
  by (cases post; cases "hd post"; cases "snd (hd post)") auto

lemma freechain_absorb:
  assumes "freechain m q (y + s) post n"
    and "pxNextFreeBlock (m' r) = first_free (y + fst (absorb s post)) (snd (absorb s post)) n"
    and "\<And>x. x \<in> set (free_addrs (y + s) post) \<Longrightarrow> m' (w32 x) = m (w32 x)"
  shows "freechain m' r (y + fst (absorb s post)) (snd (absorb s post)) n"
proof (cases post rule: absorb_cases)
  case (free t rest)
  then have c: "freechain m (w32 (y + s)) (y + s + t) rest n" using assms(1) by simp
  then have "freechain m' r (y + s + t) rest n"
    by (rule freechain_cong) (use assms(2,3) free freechain_next [OF c] in \<open>auto simp: add.assoc\<close>)
  then show ?thesis using free by (simp add: add.assoc)
next
  case none
  then show ?thesis using assms freechain_next [OF assms(1)] by simp
next
  case (used t rest)
  have "freechain m' r (y + s) post n"
    by (rule freechain_cong [OF assms(1)]) (use used assms freechain_next [OF assms(1)] in auto)
  then show ?thesis using used by simp
qed

lemma BlockLink_next_upd:
  "xBlockSize h = z \<Longrightarrow> h\<lparr>pxNextFreeBlock := n\<rparr> = \<lparr>pxNextFreeBlock = n, xBlockSize = z\<rparr>"
  by (cases h) simp

lemma insert_merge_behind_eq:
  assumes m: "xBlockSize (m (w32 y)) = w32 s"
    and nxt: "pxNextFreeBlock (m it) = first_free (y + s) post n"
    and chain: "freechain m q (y + s) post n"
    and n: "n = w32 (y + s + segs_size post)" "y + s + segs_size post < 2 ^ 32"
    and pos: "pos_sizes post"
  shows "insert_merge_behind m n it (w32 y) =
    m(w32 y := \<lparr>pxNextFreeBlock = first_free (y + fst (absorb s post)) (snd (absorb s post)) n,
                xBlockSize = w32 (fst (absorb s post))\<rparr>)"
proof (cases post rule: absorb_cases)
  case (free t rest)
  then have "w32 (y + s) \<noteq> n" using n pos by (simp add: w32_inj)
  moreover have "xBlockSize (m (w32 (y + s))) = w32 t"
      "pxNextFreeBlock (m (w32 (y + s))) = first_free (y + s + t) rest n"
    using chain free by (auto dest: freechain_next)
  ultimately show ?thesis using free m nxt
    by (auto simp: insert_merge_behind_def Let_def add.assoc)
next
  case none
  then show ?thesis using m nxt n by (simp add: insert_merge_behind_def Let_def BlockLink_next_upd)
next
  case (used t rest)
  have "first_free (y + s + t) rest n \<in> w32 ` {y + s + t..y + s + t + segs_size rest}"
    using first_free_range [of rest "y + s + t"] used n(1) pos by (simp add: add.assoc)
  then have "w32 (y + s) \<noteq> first_free (y + s + t) rest n"
    using used n pos by (auto simp: w32_inj)
  then show ?thesis using used m nxt by (auto simp: insert_merge_behind_def Let_def)
qed

lemma segs_size_pos: "pos_sizes bl \<Longrightarrow> bl \<noteq> [] \<Longrightarrow> 0 < segs_size bl"
  by (cases bl) auto

lemma ins_free_used: "\<forall>b \<in> set pre. snd b \<Longrightarrow> ins_free pre s post = pre @ absorbed s post"
  by (auto simp: ins_free_def dest: last_in_set)

lemma freechain_ins:
  assumes "freechain m p a xs (w32 x)" and "x = a + segs_size xs"
    and "xBlockSize (m (w32 x)) = w32 (fst (absorb s post))"
    and "freechain m (w32 x) (x + fst (absorb s post)) (snd (absorb s post)) n"
  shows "freechain m p a (xs @ absorbed s post) n"
  using assms by (simp add: freechain_append absorbed_def freechain_last)

lemma freechain_mid:
  assumes "freechain m p a xs (w32 (a + segs_size xs))"
    and "xBlockSize (m (w32 (a + segs_size xs))) = w32 t" and "\<forall>b \<in> set ys. snd b"
    and "pxNextFreeBlock (m (w32 (a + segs_size xs))) = k"
  shows "freechain m p a (xs @ (t, False) # ys) k"
  using assms freechain_last [OF assms(1)] by (simp add: freechain_append all_used_simps(4))

text \<open>No owned or free segment of \<open>pre\<close> shares its address with \<open>b\<close> or one behind it.\<close>

lemma addr_neq:
  "pos_sizes pre \<Longrightarrow> x \<in> set (free_addrs a pre) \<Longrightarrow> a + segs_size pre \<le> y \<Longrightarrow> y < 2 ^ 32 \<Longrightarrow>
    w32 x \<noteq> w32 y"
  by (frule (1) free_addrs_range) (auto simp: w32_inj)

lemma addr_neq_behind:
  "pos_sizes post \<Longrightarrow> x \<in> set (free_addrs y post) \<Longrightarrow> z < y \<Longrightarrow> y + segs_size post < 2 ^ 32 \<Longrightarrow>
    w32 x \<noteq> w32 z"
  by (frule (1) free_addrs_range) (auto simp: w32_inj)


lemma addr_in_region:
  assumes "region p a bl n" and "x \<in> set (free_addrs a bl)"
  shows "w32 x \<noteq> p"
  using assms free_addrs_range [of bl x a] by (auto simp: region_def intro!: region_head [OF assms(1)])

lemma prvInsert_merge_before:
  assumes "insert_search (hmem st) (xStart cfg) b = Some it"
    and "it + xBlockSize (hmem st it) = b" and "xBlockSize (hmem st it) + xBlockSize (hmem st b) = z"
  shows "prvInsertBlockIntoFreeList cfg st b =
    Some (st\<lparr>hmem := insert_merge_behind ((hmem st)(it := (hmem st it)\<lparr>xBlockSize := z\<rparr>)) (pxEnd st) it it\<rparr>)"
  using assms by (simp add: prvInsertBlockIntoFreeList_def Let_def)

theorem insert_block:
  assumes reg: "region (xStart cfg) a (pre @ (s, True) # post) (pxEnd st)"
    and chain: "freechain (hmem st) (xStart cfg) a (pre @ (s, True) # post) (pxEnd st)"
    and start: "xBlockSize (hmem st (xStart cfg)) = 0"
    and b: "xBlockSize (hmem st (w32 (a + segs_size pre))) = w32 s"
  shows "\<exists>m'. prvInsertBlockIntoFreeList cfg st (w32 (a + segs_size pre)) = Some (st\<lparr>hmem := m'\<rparr>) \<and>
    freechain m' (xStart cfg) a (ins_free pre s post) (pxEnd st) \<and>
    xBlockSize (m' (xStart cfg)) = 0 \<and>
    (\<forall>x. x \<noteq> xStart cfg \<and> x \<notin> w32 ` set (free_addrs a pre) \<and> x \<noteq> w32 (a + segs_size pre)
       \<longrightarrow> m' x = hmem st x)"
proof -
  let ?m = "hmem st" and ?p = "xStart cfg" and ?n = "pxEnd st" and ?y = "a + segs_size pre"
  let ?s2 = "\<lambda>z. fst (absorb z post)" and ?post2 = "\<lambda>z. snd (absorb z post)"
  have pos: "pos_sizes pre" "0 < s" "pos_sizes post" and a0: "0 < a"
    and top: "?y + s + segs_size post < 2 ^ 32" and n: "?n = w32 (?y + s + segs_size post)"
    using reg by (auto simp: region_def add.assoc)
  have notp: "w32 x \<noteq> ?p" if "a \<le> x" "x \<le> ?y + s + segs_size post" for x
    using region_head [OF reg] that by (simp add: add.assoc)
  have pre_notp: "w32 x \<noteq> ?p" if "x \<in> set (free_addrs a pre)" for x
    using addr_in_region [OF reg] that by simp
  have post_range: "?y + s \<le> x \<and> x < ?y + s + segs_size post"
    if "x \<in> set (free_addrs (?y + s) post)" for x
    using free_addrs_range [OF pos(3) that] .
  have behind: "w32 x \<noteq> w32 z \<and> w32 x \<noteq> ?p"
    if "x \<in> set (free_addrs (?y + s) post)" "z \<le> ?y" for x z
    using post_range [OF that(1)] notp [of x] that(2) pos(2) top by (simp add: w32_inj)
  have chain1: "freechain ?m ?p a pre (first_free (?y + s) post ?n)"
    and chain2: "freechain ?m (last_free ?p a pre) (?y + s) post ?n"
    using chain by (auto simp: freechain_append)
  have "first_free (?y + s) post ?n \<in> w32 ` {?y + s..?y + s + segs_size post}"
    using first_free_range [OF pos(3)] n by simp
  then have "w32 ?y \<le> first_free (?y + s) post ?n" using top by (auto simp: w32_le)
  then have search: "insert_search ?m ?p (w32 ?y) = Some (last_free ?p a pre)"
    using insert_search_eq [OF chain pos(1)] top by simp
  from last_free_cases [of pre ?p a] show ?thesis
  proof
    assume A: "(\<forall>b \<in> set pre. snd b) \<and> last_free ?p a pre = ?p \<and> free_addrs a pre = []"
    then have it: "last_free ?p a pre = ?p" by blast
    let ?m1 = "?m(w32 ?y := \<lparr>pxNextFreeBlock = first_free (?y + ?s2 s) (?post2 s) ?n,
                xBlockSize = w32 (?s2 s)\<rparr>)"
    let ?m' = "?m1(?p := (?m1 ?p)\<lparr>pxNextFreeBlock := w32 ?y\<rparr>)"
    have yp: "?p \<noteq> w32 ?y" using notp [of ?y] by auto
    have "pxNextFreeBlock (?m ?p) = first_free (?y + s) post ?n"
      using chain2 it by (simp add: freechain_next)
    from insert_merge_behind_eq [OF b this chain2 n top pos(3)] yp start
    have "prvInsertBlockIntoFreeList cfg st (w32 ?y) = Some (st\<lparr>hmem := ?m'\<rparr>)"
      by (simp add: prvInsertBlockIntoFreeList_def search it Let_def)
    moreover have "freechain ?m' ?p a (pre @ absorbed s post) ?n"
    proof (rule freechain_ins)
      show "freechain ?m' (w32 ?y) (?y + ?s2 s) (?post2 s) ?n"
      proof (rule freechain_absorb [OF chain2])
        show "pxNextFreeBlock (?m' (w32 ?y)) = first_free (?y + ?s2 s) (?post2 s) ?n"
          using yp by simp
        fix x assume x: "x \<in> set (free_addrs (?y + s) post)"
        have "w32 x \<noteq> w32 ?y" "w32 x \<noteq> ?p" using behind [OF x, of ?y] by auto
        then show "?m' (w32 x) = ?m (w32 x)" by simp
      qed
      show "freechain ?m' ?p a pre (w32 ?y)" using A by (simp add: all_used_simps(4))
    qed (use yp in simp_all)
    moreover have "\<forall>x. x \<noteq> ?p \<and> x \<notin> w32 ` set (free_addrs a pre) \<and> x \<noteq> w32 ?y \<longrightarrow> ?m' x = ?m x"
      by simp
    moreover have "xBlockSize (?m' ?p) = 0" using start yp by simp
    ultimately show ?thesis using A ins_free_used [of pre s post] by (intro exI [of _ ?m']) simp
  next
    assume "\<exists>xs t ys. pre = xs @ (t, False) # ys \<and> (\<forall>b \<in> set ys. snd b) \<and>
        last_free ?p a pre = w32 (a + segs_size xs)"
    then obtain xs t ys where B: "pre = xs @ (t, False) # ys" "\<forall>b \<in> set ys. snd b"
      and it: "last_free ?p a pre = w32 (a + segs_size xs)" by blast
    let ?x = "a + segs_size xs"
    have y: "?y = ?x + t + segs_size ys" and t: "0 < t" using B(1) pos(1) by auto
    have xp: "w32 ?x \<noteq> ?p" "?x < ?y" using notp [of ?x] y t by auto
    have xs: "freechain ?m ?p a xs (w32 ?x)" "xBlockSize (?m (w32 ?x)) = w32 t"
      using chain1 B(1) by (simp_all add: freechain_append)
    have nx: "pxNextFreeBlock (?m (w32 ?x)) = first_free (?y + s) post ?n"
      using chain2 it by (simp add: freechain_next)
    have xs_addr: "w32 z \<noteq> w32 ?x \<and> w32 z \<noteq> w32 ?y \<and> w32 z \<noteq> ?p"
      if "z \<in> set (free_addrs a xs)" for z
      using free_addrs_range [of xs z a] that B(1) pos(1) xp(2) top pre_notp [of z] by (simp add: w32_inj)
    show ?thesis
    proof (cases ys rule: rev_cases)
      case Nil
      then have y': "?y = ?x + t" using y by simp
      let ?m1 = "?m(w32 ?x := (?m (w32 ?x))\<lparr>xBlockSize := w32 (t + s)\<rparr>)"
      let ?m' = "?m1(w32 ?x := \<lparr>pxNextFreeBlock = first_free (?x + ?s2 (t + s)) (?post2 (t + s)) ?n,
                xBlockSize = w32 (?s2 (t + s))\<rparr>)"
      have c1: "freechain ?m1 (w32 ?x) (?x + (t + s)) post ?n"
        by (rule freechain_cong [of ?m "w32 ?x"])
          (use chain2 it y' behind [of _ ?x] in \<open>simp_all add: add.assoc\<close>)
      have "insert_merge_behind ?m1 ?n (w32 ?x) (w32 ?x) = ?m'"
        by (rule insert_merge_behind_eq [OF _ _ c1])
          (use nx y' n top pos(3) in \<open>simp_all add: add.assoc\<close>)
      then have "prvInsertBlockIntoFreeList cfg st (w32 ?y) = Some (st\<lparr>hmem := ?m'\<rparr>)"
        using prvInsert_merge_before [OF search [unfolded it], of "w32 (t + s)"] xs(2) b y'
        by (simp add: add.assoc)
      moreover have "freechain ?m' ?p a (xs @ absorbed (t + s) post) ?n"
      proof (rule freechain_ins)
        show "freechain ?m' ?p a xs (w32 ?x)"
          by (rule freechain_cong [OF xs(1)]) (use xp xs_addr in simp_all)
        show "freechain ?m' (w32 ?x) (?x + ?s2 (t + s)) (?post2 (t + s)) ?n"
          by (rule freechain_absorb [OF c1])
            (use behind [of _ ?x] y' in \<open>simp_all add: add.assoc\<close>)
      qed simp_all
      moreover have "ins_free pre s post = xs @ absorbed (t + s) post"
        using B(1) Nil by (simp add: ins_free_def)
      moreover have "\<forall>x. x \<noteq> ?p \<and> x \<notin> w32 ` set (free_addrs a pre) \<and> x \<noteq> w32 ?y \<longrightarrow> ?m' x = ?m x"
        using B(1) by auto
      moreover have "xBlockSize (?m' ?p) = 0" using start xp by simp
      ultimately show ?thesis by (intro exI [of _ ?m']) simp
    next
      case (snoc zs u)
      then have yx: "?x + t < ?y" using y B(1) pos(1) by auto
      have ne: "w32 ?x + xBlockSize (?m (w32 ?x)) \<noteq> w32 ?y"
        using xs(2) yx top by (simp add: w32_inj)
      have yne: "w32 ?y \<noteq> w32 ?x" using yx top by (simp add: w32_inj)
      let ?m1 = "?m(w32 ?y := \<lparr>pxNextFreeBlock = first_free (?y + ?s2 s) (?post2 s) ?n,
                xBlockSize = w32 (?s2 s)\<rparr>)"
      let ?m' = "?m1(w32 ?x := (?m1 (w32 ?x))\<lparr>pxNextFreeBlock := w32 ?y\<rparr>)"
      from insert_merge_behind_eq [OF b nx chain2 n top pos(3)] ne yne
      have "prvInsertBlockIntoFreeList cfg st (w32 ?y) = Some (st\<lparr>hmem := ?m'\<rparr>)"
        by (simp add: prvInsertBlockIntoFreeList_def search it Let_def)
      moreover have "freechain ?m' ?p a (pre @ absorbed s post) ?n"
      proof (rule freechain_ins)
        have c: "freechain ?m' ?p a xs (w32 ?x)"
          by (rule freechain_cong [OF xs(1)]) (use xp yne notp [of ?y] xs_addr in auto)
        have "freechain ?m' ?p a (xs @ (t, False) # ys) (w32 ?y)"
          by (rule freechain_mid [OF c]) (use B(2) xs(2) yne in simp_all)
        then show "freechain ?m' ?p a pre (w32 ?y)" by (simp only: B(1) [symmetric])
        show "freechain ?m' (w32 ?y) (?y + ?s2 s) (?post2 s) ?n"
          by (rule freechain_absorb [OF chain2])
            (use yne behind [of _ ?x] behind [of _ ?y] xp(2) in simp_all)
      qed (use yne in simp_all)
      moreover have "ins_free pre s post = pre @ absorbed s post"
        using B snoc by (simp add: ins_free_def)
      moreover have "\<forall>x. x \<noteq> ?p \<and> x \<notin> w32 ` set (free_addrs a pre) \<and> x \<noteq> w32 ?y \<longrightarrow> ?m' x = ?m x"
        using B(1) by auto
      moreover have "xBlockSize (?m' ?p) = 0" using start xp notp [of ?y] by auto
      ultimately show ?thesis by (intro exI [of _ ?m']) simp
    qed
  qed
qed

end
