(* ===== verification/Heap4Props.thy ===== *)
theory Heap4Props
  imports Heap4Inv
begin

text \<open>
  The heap invariant, its preservation by every operation of \<open>Heap4\<close>, and the functional
  correctness of allocation and release against the segment list.
\<close>

subsection \<open>Sizes\<close>

lemma heap_consts [simp]:
  "xHeapStructSize = 8" "heapMINIMUM_BLOCK_SIZE = 16" "heapBLOCK_ALLOCATED_BITMASK = 0x80000000"
  by (simp_all add: xHeapStructSize_def heapMINIMUM_BLOCK_SIZE_def heapBLOCK_ALLOCATED_BITMASK_def
      portBYTE_ALIGNMENT_def portBYTE_ALIGNMENT_MASK_def)

definition block_need :: "nat \<Rightarrow> nat" where
  "block_need n = n + (16 - n mod 8)"

lemma block_need_props: "n + 8 < block_need n" "block_need n \<le> n + 16" "8 dvd block_need n"
proof -
  have "n mod 8 < 8" by simp
  then show "n + 8 < block_need n" "block_need n \<le> n + 16" unfolding block_need_def by linarith+
  show "8 dvd block_need n" unfolding block_need_def by presburger
qed

lemma malloc_size_eq:
  "malloc_size n = (if 0 < unat n \<and> block_need (unat n) < 2 ^ 32 then w32 (block_need (unat n)) else 0)"
proof (cases "n = 0")
  case True
  then show ?thesis by (simp add: malloc_size_def)
next
  case False
  define e where "e = (xHeapStructSize + portBYTE_ALIGNMENT - (n AND portBYTE_ALIGNMENT_MASK))"
  have u7: "unat (n AND 7) = unat n mod 8" by (rule unat_and_7)
  then have "(n AND 7) \<le> 16" by (simp add: word_le_nat_alt)
  then have ue: "unat e = 16 - unat n mod 8"
    by (simp add: e_def portBYTE_ALIGNMENT_def portBYTE_ALIGNMENT_MASK_def unat_sub u7)
  have "e \<le> heapSIZE_MAX" by (simp add: heapSIZE_MAX_def)
  then have "unat (heapSIZE_MAX - e) = 2 ^ 32 - 1 - unat e"
    by (simp add: unat_sub heapSIZE_MAX_def unsigned_minus_1_eq_mask mask_eq_exp_minus_1)
  then have ov: "heapADD_WILL_OVERFLOW n e = (2 ^ 32 \<le> unat n + unat e)"
    using unat_u32_less [of e] by (auto simp: heapADD_WILL_OVERFLOW_def word_less_nat_alt)
  have "n + e = w32 (unat n + unat e)" by (metis w32_add w32_unat)
  then show ?thesis
    using False ov ue unfolding malloc_size_def e_def [symmetric] Let_def
    by (simp add: block_need_def word_gt_0 unat_gt_0)
qed

lemma msb_bit: "((x :: u32) AND 0x80000000 = 0) = (\<not> bit x 31)"
  using and_exp_eq_0_iff_not_bit [of x 31] by simp

lemma w32_bit31: "n < 2 ^ 32 \<Longrightarrow> bit (w32 n) 31 = (2 ^ 31 \<le> n)"
proof -
  assume n: "n < 2 ^ 32"
  have "bit (w32 n) 31 = bit n 31"
    by (simp add: w32_def bit_of_nat_iff)
  also have "\<dots> = odd (n div 2 ^ 31)" by (rule bit_iff_odd)
  also have "\<dots> = (2 ^ 31 \<le> n)"
  proof (cases "2 ^ 31 \<le> n")
    case True
    with n have "n div 2 ^ 31 = 1" by (intro div_nat_eqI) auto
    with True show ?thesis by simp
  qed simp
  finally show ?thesis .
qed

lemma size_valid: "n < 2 ^ 32 \<Longrightarrow> heapBLOCK_SIZE_IS_VALID (w32 n) = (n < 2 ^ 31)"
  by (simp add: heapBLOCK_SIZE_IS_VALID_def msb_bit w32_bit31 not_le)

lemma mark_unmark:
  fixes x m :: u32
  assumes "\<And>k. bit m k = (k = 31)" and "\<not> bit x 31"
  shows "(x OR m) AND NOT m = x" and "(x OR m) AND m = m"
  by (rule bit_word_eqI; use assms in \<open>auto simp: bit_and_iff bit_or_iff bit_not_iff\<close>)+

lemma bit_msb: "bit (0x80000000 :: u32) k = (k = 31)"
  using bit_exp_iff [where 'a = u32, of 31 k] bit_imp_le_length [of "0x80000000 :: u32" k] by auto

lemma mark_bits:
  assumes "n < 2 ^ 31"
  shows "(w32 n OR 0x80000000) AND 0x80000000 \<noteq> 0"
    and "(w32 n OR 0x80000000) AND NOT 0x80000000 = w32 n"
proof -
  have "\<not> bit (w32 n) 31" using assms by (simp add: w32_bit31)
  then have eq: "(w32 n OR 0x80000000) AND NOT 0x80000000 = w32 n"
    "(w32 n OR 0x80000000) AND 0x80000000 = 0x80000000"
    by (rule mark_unmark [OF bit_msb])+
  show "(w32 n OR 0x80000000) AND 0x80000000 \<noteq> 0" unfolding eq(2) by simp
  show "(w32 n OR 0x80000000) AND NOT 0x80000000 = w32 n" by (rule eq(1))
qed

subsection \<open>The invariant\<close>

definition coalesced :: "seg list \<Rightarrow> bool" where
  "coalesced bl \<longleftrightarrow> successively (\<lambda>x y. snd x \<or> snd y) bl"

definition aligned8 :: "seg list \<Rightarrow> bool" where
  "aligned8 bl \<longleftrightarrow> (\<forall>b \<in> set bl. 8 dvd fst b)"

lemma coalesced_simps [simp]:
  "coalesced []" "coalesced [b]"
  "coalesced (b # c # bl) = ((snd b \<or> snd c) \<and> coalesced (c # bl))"
  "coalesced (xs @ ys) = (coalesced xs \<and> coalesced ys \<and>
     (xs = [] \<or> ys = [] \<or> snd (last xs) \<or> snd (hd ys)))"
  by (simp_all add: coalesced_def successively_append_iff)

lemma aligned8_simps [simp]:
  "aligned8 []" "aligned8 (b # bl) = (8 dvd fst b \<and> aligned8 bl)"
  "aligned8 (xs @ ys) = (aligned8 xs \<and> aligned8 ys)"
  by (auto simp: aligned8_def)

lemma aligned8_dvd: "aligned8 bl \<Longrightarrow> 8 dvd segs_size bl"
  by (induction bl) auto

definition heap_base :: "heap_cfg \<Rightarrow> nat" where
  "heap_base cfg = (unat (ucHeap cfg) + 7) div 8 * 8"

text \<open>Admissible layouts: the array is not at address 0, holds more than one header and its
  alignment loss, ends below the top of memory, and \<^verbatim>\<open>xStart\<close> lies outside it.\<close>

definition heap_cfg_ok :: "heap_cfg \<Rightarrow> bool" where
  "heap_cfg_ok cfg \<longleftrightarrow> 0 < unat (ucHeap cfg) \<and>
     unat (ucHeap cfg) + unat (configTOTAL_HEAP_SIZE cfg) < 2 ^ 32 \<and>
     32 \<le> unat (configTOTAL_HEAP_SIZE cfg) \<and> unat (configTOTAL_HEAP_SIZE cfg) < 2 ^ 31 \<and>
     (unat (xStart cfg) < unat (ucHeap cfg) \<or>
      unat (ucHeap cfg) + unat (configTOTAL_HEAP_SIZE cfg) \<le> unat (xStart cfg))"

definition heap_inv :: "heap_cfg \<Rightarrow> heap_state \<Rightarrow> seg list \<Rightarrow> bool" where
  "heap_inv cfg st bl \<longleftrightarrow>
     region (xStart cfg) (heap_base cfg) bl (pxEnd st) \<and> segs_size bl < 2 ^ 31 \<and>
     aligned8 bl \<and> coalesced bl \<and>
     freechain (hmem st) (xStart cfg) (heap_base cfg) bl (pxEnd st) \<and>
     usedok (hmem st) (heap_base cfg) bl \<and>
     xBlockSize (hmem st (xStart cfg)) = 0 \<and>
     hmem st (pxEnd st) = \<lparr>pxNextFreeBlock = 0, xBlockSize = 0\<rparr> \<and>
     xFreeBytesRemaining st = w32 (free_size bl) \<and>
     xMinimumEverFreeBytesRemaining st \<le> xFreeBytesRemaining st"

lemma heap_base_dvd: "8 dvd heap_base cfg"
  by (simp add: heap_base_def)

text \<open>The end marker's address, and the closed form of the initialisation.\<close>

definition heap_end :: "heap_cfg \<Rightarrow> nat" where
  "heap_end cfg = (unat (ucHeap cfg) + unat (configTOTAL_HEAP_SIZE cfg) - 8) div 8 * 8"

lemma heap_base_bounds: "unat (ucHeap cfg) \<le> heap_base cfg" "heap_base cfg \<le> unat (ucHeap cfg) + 7"
  unfolding heap_base_def using mod_less_divisor [of 8 "unat (ucHeap cfg) + 7"]
  by (simp_all add: minus_mod_eq_div_mult [symmetric])

lemma heap_end_bounds:
  assumes "heap_cfg_ok cfg"
  shows "heap_end cfg + 8 \<le> unat (ucHeap cfg) + unat (configTOTAL_HEAP_SIZE cfg)"
    and "unat (ucHeap cfg) + unat (configTOTAL_HEAP_SIZE cfg) \<le> heap_end cfg + 15"
    and "8 dvd heap_end cfg" and "heap_base cfg < heap_end cfg"
proof -
  let ?t = "unat (ucHeap cfg) + unat (configTOTAL_HEAP_SIZE cfg) - 8"
  have t: "24 + unat (ucHeap cfg) \<le> ?t" using assms unfolding heap_cfg_ok_def by linarith
  have "heap_end cfg + ?t mod 8 = ?t" by (simp add: heap_end_def div_mult_mod_eq)
  moreover have "?t mod 8 < 8" by simp
  ultimately show "heap_end cfg + 8 \<le> unat (ucHeap cfg) + unat (configTOTAL_HEAP_SIZE cfg)"
    and "unat (ucHeap cfg) + unat (configTOTAL_HEAP_SIZE cfg) \<le> heap_end cfg + 15"
    and "heap_base cfg < heap_end cfg"
    using t heap_base_bounds(2) [of cfg] by linarith+
  show "8 dvd heap_end cfg" by (simp add: heap_end_def)
qed

lemma prvHeapInit_eq:
  assumes "heap_cfg_ok cfg"
  shows "prvHeapInit cfg st =
    st\<lparr>hmem := (hmem st)(xStart cfg := \<lparr>pxNextFreeBlock = w32 (heap_base cfg), xBlockSize = 0\<rparr>,
          w32 (heap_end cfg) := \<lparr>pxNextFreeBlock = 0, xBlockSize = 0\<rparr>,
          w32 (heap_base cfg) := \<lparr>pxNextFreeBlock = w32 (heap_end cfg),
            xBlockSize = w32 (heap_end cfg - heap_base cfg)\<rparr>),
      pxEnd := w32 (heap_end cfg),
      xMinimumEverFreeBytesRemaining := w32 (heap_end cfg - heap_base cfg),
      xFreeBytesRemaining := w32 (heap_end cfg - heap_base cfg)\<rparr>"
proof -
  define u where "u = unat (ucHeap cfg)"
  define t where "t = unat (configTOTAL_HEAP_SIZE cfg)"
  let ?b = "heap_base cfg"
  have cu: "ucHeap cfg = w32 u" and ct: "configTOTAL_HEAP_SIZE cfg = w32 t"
    by (simp_all add: u_def t_def)
  have ok: "u + t < 2 ^ 32" "32 \<le> t" using assms by (auto simp: heap_cfg_ok_def u_def t_def)
  have b: "?b = (u + 7) div 8 * 8" "u \<le> ?b" "?b \<le> u + 7"
    using heap_base_bounds [of cfg] by (simp_all add: heap_base_def u_def)
  have mis: "(ucHeap cfg AND 7 \<noteq> 0) = (u mod 8 \<noteq> 0)"
    using unat_and_7 [of "ucHeap cfg"] by (metis u_def unat_eq_zero unsigned_0)
  have seven: "(7 :: u32) = w32 7" "(8 :: u32) = w32 8" by (simp_all add: w32_def)
  have up: "(ucHeap cfg + 7) AND NOT 7 = w32 ?b"
  proof -
    have "ucHeap cfg + 7 = w32 (u + 7)" by (simp only: cu seven(1) w32_add)
    then have "unat ((ucHeap cfg + 7) AND NOT 7) = ?b"
      using ok by (simp add: unat_and_minus_8 b(1))
    then show ?thesis by (metis w32_unat)
  qed
  have al: "(if ucHeap cfg AND 7 \<noteq> 0 then (ucHeap cfg + 7) AND NOT 7 else ucHeap cfg) = w32 ?b"
  proof (cases "u mod 8 = 0")
    case True
    then have "u = ?b" unfolding b(1) by presburger
    with True mis show ?thesis by (metis cu)
  next
    case False
    with mis up show ?thesis by simp
  qed
  have tot: "(if ucHeap cfg AND 7 \<noteq> 0 then configTOTAL_HEAP_SIZE cfg - (w32 ?b - ucHeap cfg)
      else configTOTAL_HEAP_SIZE cfg) = w32 (t - (?b - u))"
  proof (cases "u mod 8 = 0")
    case True
    then have "u = ?b" unfolding b(1) by presburger
    with True mis show ?thesis by (simp add: ct)
  next
    case False
    with mis b ok show ?thesis by (simp add: cu ct w32_diff)
  qed
  have en: "(w32 ?b + w32 (t - (?b - u)) - 8) AND NOT 7 = w32 (heap_end cfg)"
  proof -
    have "w32 ?b + w32 (t - (?b - u)) - 8 = w32 (u + t - 8)"
      using b ok by (simp add: seven w32_diff add.commute [of u t])
    then have "unat ((w32 ?b + w32 (t - (?b - u)) - 8) AND NOT 7) = heap_end cfg"
      using ok by (simp add: unat_and_minus_8 heap_end_def u_def [symmetric] t_def [symmetric])
    then show ?thesis by (metis w32_unat)
  qed
  have sz: "w32 (heap_end cfg) - w32 ?b = w32 (heap_end cfg - ?b)"
    using heap_end_bounds(4) [OF assms] by (simp add: w32_diff)
  have c8: "(8 :: u32) - 1 = 7" by simp
  show ?thesis
    by (simp only: prvHeapInit_def Let_def portBYTE_ALIGNMENT_def portBYTE_ALIGNMENT_MASK_def
        heap_consts c8 al tot en sz)
qed

lemma prvHeapInit_inv:
  assumes "heap_cfg_ok cfg"
  shows "heap_inv cfg (prvHeapInit cfg st) [(heap_end cfg - heap_base cfg, False)]"
proof -
  have e: "heap_base cfg < heap_end cfg" "heap_end cfg < 2 ^ 32" "0 < heap_base cfg"
    "heap_end cfg - heap_base cfg < 2 ^ 31"
    "unat (xStart cfg) < heap_base cfg \<or> heap_end cfg < unat (xStart cfg)"
    using heap_end_bounds [OF assms] heap_base_bounds [of cfg] assms
    by (auto simp: heap_cfg_ok_def)
  have reg: "region (xStart cfg) (heap_base cfg) [(heap_end cfg - heap_base cfg, False)] (w32 (heap_end cfg))"
    using e by (simp add: region_def)
  have "w32 (heap_base cfg) \<noteq> xStart cfg" "w32 (heap_end cfg) \<noteq> xStart cfg"
    using region_head [OF reg, of "heap_base cfg"] region_head [OF reg, of "heap_end cfg"] e by auto
  moreover have "w32 (heap_base cfg) \<noteq> w32 (heap_end cfg)" using e by (simp add: w32_inj)
  ultimately show ?thesis using reg e heap_end_bounds(3) [OF assms] heap_base_dvd [of cfg]
    by (auto simp: heap_inv_def prvHeapInit_eq [OF assms] dvd_diff_nat)
qed


subsection \<open>First fit\<close>

text \<open>The segments before the first free one of at least \<open>w\<close> bytes, its size, the rest.\<close>

fun first_fit :: "nat \<Rightarrow> seg list \<Rightarrow> (seg list \<times> nat \<times> seg list) option" where
  "first_fit w [] = None"
| "first_fit w ((s, u) # bl) =
     (if \<not> u \<and> w \<le> s then Some ([], s, bl)
      else map_option (\<lambda>(pre, t, post). ((s, u) # pre, t, post)) (first_fit w bl))"

lemma first_fit_Some:
  "first_fit w bl = Some (pre, s, post) \<Longrightarrow>
    bl = pre @ (s, False) # post \<and> w \<le> s \<and> (\<forall>(t, u) \<in> set pre. u \<or> t < w)"
  by (induction w bl arbitrary: pre rule: first_fit.induct) (auto split: if_splits)

lemma first_fit_None: "first_fit w bl = None \<longleftrightarrow> (\<forall>(t, u) \<in> set bl. u \<or> t < w)"
  by (induction w bl rule: first_fit.induct) auto

lemma first_fit_le_free: "first_fit w bl = Some (pre, s, post) \<Longrightarrow> w \<le> free_size bl"
  by (drule first_fit_Some) auto

lemma malloc_search_eq:
  assumes "freechain m prev a bl n"
    and "m n = \<lparr>pxNextFreeBlock = 0, xBlockSize = 0\<rparr>" and "0 < w" and "w < 2 ^ 32"
    and "0 < a" and "n = w32 (a + segs_size bl)" and "a + segs_size bl < 2 ^ 32"
    and "pos_sizes bl"
  shows "malloc_search m prev (first_free a bl n) (w32 w) =
    (case first_fit w bl of
       None \<Rightarrow> Some (last_free prev a bl, n)
     | Some (pre, s, post) \<Rightarrow> Some (last_free prev a pre, w32 (a + segs_size pre)))"
  using assms
proof (induction prev a bl rule: last_free.induct)
  case (1 p a)
  then show ?case by (subst malloc_search.simps) simp
next
  case (2 p a s bl)
  then show ?case by (auto simp: add.assoc split: option.splits)
next
  case (3 p a s bl)
  have size: "xBlockSize (m (w32 a)) = w32 s" and c: "freechain m (w32 a) (a + s) bl n"
    using "3.prems"(1) by auto
  have nx: "pxNextFreeBlock (m (w32 a)) = first_free (a + s) bl n" using c by (rule freechain_next)
  show ?case
  proof (cases "w \<le> s")
    case True
    then have "\<not> w32 s < w32 w" using "3.prems" by (simp add: w32_less)
    then show ?thesis using True size by (subst malloc_search.simps) simp
  next
    case False
    have "first_free (a + s) bl n \<in> w32 ` {a + s..a + s + segs_size bl}"
      using first_free_range [of bl "a + s"] "3.prems" by (simp add: add.assoc)
    then obtain k where k: "first_free (a + s) bl n = w32 k" "a + s \<le> k" "k \<le> a + s + segs_size bl"
      by auto
    then have "w32 k \<noteq> w32 0" using "3.prems" by (subst w32_inj) auto
    then have ne: "first_free (a + s) bl n \<noteq> 0" using k(1) by simp
    have lt: "w32 s < w32 w" using False "3.prems" by (simp add: w32_less)
    have "malloc_search m p (first_free a ((s, False) # bl) n) (w32 w) =
        malloc_search m (w32 a) (first_free (a + s) bl n) (w32 w)"
      using size nx lt ne by (subst malloc_search.simps) simp
    also have "\<dots> = (case first_fit w bl of
       None \<Rightarrow> Some (last_free (w32 a) (a + s) bl, n)
     | Some (pre, t, post) \<Rightarrow> Some (last_free (w32 a) (a + s) pre, w32 (a + s + segs_size pre)))"
      using "3.IH" [OF c] "3.prems" by (simp add: add.assoc)
    finally show ?thesis using False by (auto simp: add.assoc split: option.splits)
  qed
qed

subsection \<open>Taking a block out of the free list\<close>

lemma freechain_relink:
  assumes "freechain m p a pre j" and "pos_sizes pre" and "a + segs_size pre < 2 ^ 32"
    and "\<And>x. x \<in> set (free_addrs a pre) \<Longrightarrow> w32 x \<noteq> p"
    and "it = last_free p a pre"
  shows "freechain (m(it := (m it)\<lparr>pxNextFreeBlock := k\<rparr>)) p a pre k"
  using last_free_cases [of pre p a]
proof
  assume "(\<forall>b \<in> set pre. snd b) \<and> last_free p a pre = p \<and> free_addrs a pre = []"
  then show ?thesis using assms(5) by (simp add: all_used_simps(4))
next
  assume "\<exists>xs t ys. pre = xs @ (t, False) # ys \<and> (\<forall>b \<in> set ys. snd b) \<and>
        last_free p a pre = w32 (a + segs_size xs)"
  then obtain xs t ys where B: "pre = xs @ (t, False) # ys" "\<forall>b \<in> set ys. snd b"
    "last_free p a pre = w32 (a + segs_size xs)" by blast
  let ?x = "a + segs_size xs"
  have xs: "freechain m p a xs (w32 ?x)" "xBlockSize (m (w32 ?x)) = w32 t"
    using assms(1) B(1) by (simp_all add: freechain_append)
  have "w32 z \<noteq> w32 ?x" if "z \<in> set (free_addrs a xs)" for z
    using addr_neq [OF _ that, of ?x] B(1) assms(2,3) by auto
  moreover have "w32 ?x \<noteq> p" using assms(4) B(1) by simp
  ultimately have "freechain (m(it := (m it)\<lparr>pxNextFreeBlock := k\<rparr>)) p a xs (w32 ?x)"
    using assms(5) B(3) by (intro freechain_cong [OF xs(1)]) auto
  then show ?thesis unfolding B(1) by (rule freechain_mid) (use B assms(5) xs(2) in auto)
qed

lemma freechain_unlink:
  assumes chain: "freechain m p a (pre @ (s, False) # post) n"
    and reg: "region p a (pre @ (s, False) # post) n"
    and it: "it = last_free p a pre" and b: "b = a + segs_size pre"
  shows "freechain (m(it := (m it)\<lparr>pxNextFreeBlock := pxNextFreeBlock (m (w32 b))\<rparr>))
    p a (pre @ (s, True) # post) n"
    and "it = p \<or> (\<exists>x \<in> set (free_addrs a pre). it = w32 x)"
proof -
  have c: "freechain m p a pre (w32 b)" "freechain m (w32 b) (b + s) post n"
    using chain b by (simp_all add: freechain_append)
  have pos: "pos_sizes pre" "0 < s" "pos_sizes post" and top: "b + s + segs_size post < 2 ^ 32"
    using reg b by (auto simp: region_def add.assoc)
  show it_cases: "it = p \<or> (\<exists>x \<in> set (free_addrs a pre). it = w32 x)"
    using last_free_cases [of pre p a] it by auto
  let ?k = "pxNextFreeBlock (m (w32 b))"
  let ?m' = "m(it := (m it)\<lparr>pxNextFreeBlock := ?k\<rparr>)"
  have notp: "w32 x \<noteq> p" if "x \<in> set (free_addrs a (pre @ (s, False) # post))" for x
    using addr_in_region [OF reg that] .
  have "freechain ?m' p a pre ?k"
    by (rule freechain_relink [OF c(1) pos(1) _ _ it]) (use top b notp in auto)
  moreover have "freechain ?m' it (b + s) post n"
  proof (rule freechain_cong [OF c(2)])
    fix x assume x: "x \<in> set (free_addrs (b + s) post)"
    have "w32 x \<noteq> w32 y" if "y \<in> set (free_addrs a pre)" for y
      using addr_neq_behind [OF pos(3) x, of y] free_addrs_range [OF pos(1) that] b top by auto
    moreover have "w32 x \<noteq> p" using notp [of x] x b by simp
    ultimately show "?m' (w32 x) = m (w32 x)" using it_cases by auto
  qed simp
  ultimately show "freechain ?m' p a (pre @ (s, True) # post) n"
    using freechain_next [OF c(2)] it b by (simp add: freechain_append)
qed


subsection \<open>Allocation\<close>

definition malloc_segs :: "nat \<Rightarrow> seg list \<Rightarrow> nat \<Rightarrow> seg list \<Rightarrow> seg list" where
  "malloc_segs w pre s post =
     (if 16 < s - w then pre @ (w, True) # (s - w, False) # post else pre @ (s, True) # post)"

lemma region_cong:
  "region p a bl n \<Longrightarrow> pos_sizes bl' \<Longrightarrow> segs_size bl' = segs_size bl \<Longrightarrow> region p a bl' n"
  by (simp add: region_def)

lemma region_addr_distinct:
  assumes "region p a (pre @ (s, u) # post) n"
  shows "w32 (a + segs_size pre) \<noteq> p"
    and "x \<in> set (free_addrs a pre) \<union> set (used_addrs a pre) \<Longrightarrow> w32 x \<noteq> w32 (a + segs_size pre)"
    and "x \<in> set (free_addrs (a + segs_size pre + s) post) \<union> set (used_addrs (a + segs_size pre + s) post) \<Longrightarrow>
      w32 x \<noteq> w32 (a + segs_size pre)"
    and "n \<noteq> w32 (a + segs_size pre)"
proof -
  let ?b = "a + segs_size pre"
  have pos: "pos_sizes pre" "0 < s" "pos_sizes post" and top: "?b + s + segs_size post < 2 ^ 32"
    and n: "n = w32 (?b + s + segs_size post)"
    using assms by (auto simp: region_def add.assoc)
  show "w32 ?b \<noteq> p" by (rule region_head [OF assms]) auto
  show "w32 x \<noteq> w32 ?b" if "x \<in> set (free_addrs a pre) \<union> set (used_addrs a pre)"
    using that free_addrs_range [OF pos(1), of x a] used_addrs_range [OF pos(1), of x a] top
    by (auto simp: w32_inj)
  show "w32 x \<noteq> w32 ?b"
    if "x \<in> set (free_addrs (?b + s) post) \<union> set (used_addrs (?b + s) post)"
    using that free_addrs_range [OF pos(3), of x "?b + s"] used_addrs_range [OF pos(3), of x "?b + s"]
      pos(2) top by (auto simp: w32_inj)
  show "n \<noteq> w32 ?b" unfolding n using pos(2) top by (simp add: w32_inj)
qed

lemma region_used_not_head:
  "region p a bl n \<Longrightarrow> x \<in> set (used_addrs a bl) \<Longrightarrow> w32 x \<noteq> p"
  using used_addrs_range [of bl x a] by (auto simp: region_def intro!: region_head)

lemma used_free_words:
  assumes "region p a bl n" and "x \<in> set (used_addrs a bl)" and "y \<in> set (free_addrs a bl)"
  shows "w32 x \<noteq> w32 y"
proof -
  have pos: "pos_sizes bl" "a + segs_size bl < 2 ^ 32" using assms(1) by (auto simp: region_def)
  have "x \<noteq> y" using free_used_disjoint [OF pos(1) assms(3)] assms(2) by auto
  then show ?thesis
    using used_addrs_range [OF pos(1) assms(2)] free_addrs_range [OF pos(1) assms(3)] pos(2)
    by (simp add: w32_inj)
qed

text \<open>Marking the block at \<open>b\<close> as owned, once it is off the free list.\<close>

lemma alloc_mark:
  assumes reg: "region p a (pre @ (t, True) # rest) n"
    and chain: "freechain m p a (pre @ (t, True) # rest) n"
    and used: "usedok m a pre" "usedok m (a + segs_size pre + t) rest"
    and size: "xBlockSize (m (w32 (a + segs_size pre))) = w32 t"
    and m': "m' = m(w32 (a + segs_size pre) :=
        \<lparr>pxNextFreeBlock = 0, xBlockSize = w32 t OR heapBLOCK_ALLOCATED_BITMASK\<rparr>)"
  shows "freechain m' p a (pre @ (t, True) # rest) n \<and> usedok m' a (pre @ (t, True) # rest)"
proof
  let ?b = "a + segs_size pre"
  note ne = region_addr_distinct [OF reg]
  show "freechain m' p a (pre @ (t, True) # rest) n"
  proof (rule freechain_cong [OF chain])
    show "pxNextFreeBlock (m' p) = pxNextFreeBlock (m p)" using ne(1) m' by auto
    show "m' (w32 x) = m (w32 x)" if "x \<in> set (free_addrs a (pre @ (t, True) # rest))" for x
      using that ne(2,3) [of x] m' by auto
  qed
  have "usedok m' a pre" by (rule usedok_cong [OF used(1)]) (use ne(2) m' in simp)
  moreover have "usedok m' (?b + t) rest" by (rule usedok_cong [OF used(2)]) (use ne(3) m' in simp)
  ultimately show "usedok m' a (pre @ (t, True) # rest)" using m' by simp
qed

text \<open>The bookkeeping that follows the split, on the state \<open>s\<close> it left.\<close>

definition malloc_finish :: "heap_state \<Rightarrow> u32 \<Rightarrow> u32 \<Rightarrow> heap_state" where
  "malloc_finish s blk t =
     s\<lparr>hmem := (hmem s)(blk := \<lparr>pxNextFreeBlock = 0, xBlockSize = t OR heapBLOCK_ALLOCATED_BITMASK\<rparr>),
       xFreeBytesRemaining := xFreeBytesRemaining s - t,
       xMinimumEverFreeBytesRemaining :=
         (if xFreeBytesRemaining s - t < xMinimumEverFreeBytesRemaining s
          then xFreeBytesRemaining s - t else xMinimumEverFreeBytesRemaining s),
       xNumberOfSuccessfulAllocations := xNumberOfSuccessfulAllocations s + 1\<rparr>"

lemma malloc_finish_inv:
  assumes reg: "region (xStart cfg) (heap_base cfg) (pre @ (t, True) # rest) (pxEnd s)"
    and "freechain (hmem s) (xStart cfg) (heap_base cfg) (pre @ (t, True) # rest) (pxEnd s)"
    and "usedok (hmem s) (heap_base cfg) pre" "usedok (hmem s) (heap_base cfg + segs_size pre + t) rest"
    and "xBlockSize (hmem s (w32 (heap_base cfg + segs_size pre))) = w32 t"
    and "xBlockSize (hmem s (xStart cfg)) = 0"
    and "hmem s (pxEnd s) = \<lparr>pxNextFreeBlock = 0, xBlockSize = 0\<rparr>"
    and "segs_size (pre @ (t, True) # rest) < 2 ^ 31"
    and "aligned8 (pre @ (t, True) # rest)" "coalesced (pre @ (t, True) # rest)"
    and free: "xFreeBytesRemaining s = w32 (free_size (pre @ rest) + t)"
  shows "heap_inv cfg (malloc_finish s (w32 (heap_base cfg + segs_size pre)) (w32 t)) (pre @ (t, True) # rest)"
proof -
  have "xFreeBytesRemaining s - w32 t = w32 (free_size (pre @ (t, True) # rest))"
    using free by (simp add: w32_diff)
  then show ?thesis
    using assms alloc_mark [OF assms(1-5) refl] region_addr_distinct(1,4) [OF reg]
    by (simp add: heap_inv_def malloc_finish_def not_less)
qed


lemma BlockLink_marked:
  "xBlockSize h = z \<Longrightarrow> (heapALLOCATE_BLOCK h)\<lparr>pxNextFreeBlock := 0\<rparr> =
    \<lparr>pxNextFreeBlock = 0, xBlockSize = z OR heapBLOCK_ALLOCATED_BITMASK\<rparr>"
  by (cases h) (simp add: heapALLOCATE_BLOCK_def)

lemma malloc_take_nosplit:
  assumes "m1 = (hmem st)(prev := (hmem st prev)\<lparr>pxNextFreeBlock := pxNextFreeBlock (hmem st blk)\<rparr>)"
    and "\<not> xBlockSize (m1 blk) - w > heapMINIMUM_BLOCK_SIZE" and "xBlockSize (m1 blk) = t"
  shows "malloc_take cfg st prev blk w = Some (malloc_finish (st\<lparr>hmem := m1\<rparr>) blk t)"
  using assms BlockLink_marked [of "m1 blk" t]
  by (simp add: malloc_take_def malloc_finish_def Let_def del: heap_consts)

lemma malloc_take_split:
  assumes "m1 = (hmem st)(prev := (hmem st prev)\<lparr>pxNextFreeBlock := pxNextFreeBlock (hmem st blk)\<rparr>)"
    and "xBlockSize (m1 blk) - w > heapMINIMUM_BLOCK_SIZE"
    and "m2 = m1(blk + w := (m1 (blk + w))\<lparr>xBlockSize := xBlockSize (m1 blk) - w\<rparr>)"
    and "prvInsertBlockIntoFreeList cfg (st\<lparr>hmem := m2(blk := (m2 blk)\<lparr>xBlockSize := w\<rparr>)\<rparr>) (blk + w) = Some s"
    and "xBlockSize (hmem s blk) = w"
  shows "malloc_take cfg st prev blk w = Some (malloc_finish s blk w)"
  using assms BlockLink_marked [of "hmem s blk" w]
  by (simp add: malloc_take_def malloc_finish_def Let_def del: heap_consts)

lemma heap_inv_unlink:
  assumes inv: "heap_inv cfg st (pre @ (s, False) # post)"
    and b: "b = heap_base cfg + segs_size pre" and it: "it = last_free (xStart cfg) (heap_base cfg) pre"
    and m1: "m1 = (hmem st)(it := (hmem st it)\<lparr>pxNextFreeBlock := pxNextFreeBlock (hmem st (w32 b))\<rparr>)"
  shows "freechain m1 (xStart cfg) (heap_base cfg) (pre @ (s, True) # post) (pxEnd st)"
    and "m1 (w32 b) = hmem st (w32 b)" and "xBlockSize (hmem st (w32 b)) = w32 s"
    and "usedok m1 (heap_base cfg) pre" and "usedok m1 (b + s) post"
    and "xBlockSize (m1 (xStart cfg)) = 0" and "m1 (pxEnd st) = hmem st (pxEnd st)"
proof -
  let ?p = "xStart cfg" and ?a = "heap_base cfg" and ?n = "pxEnd st"
  let ?bl = "pre @ (s, False) # post"
  have reg: "region ?p ?a ?bl ?n" and chain: "freechain (hmem st) ?p ?a ?bl ?n"
    using inv by (simp_all add: heap_inv_def)
  show "freechain m1 ?p ?a (pre @ (s, True) # post) ?n"
    using freechain_unlink(1) [OF chain reg it b] m1 by simp
  have itc: "it = ?p \<or> (\<exists>x \<in> set (free_addrs ?a pre). it = w32 x)"
    by (rule freechain_unlink(2) [OF chain reg it b])
  have "w32 x \<noteq> w32 b" if "x \<in> set (free_addrs ?a pre)" for x
    using region_addr_distinct(2) [OF reg, of x] that b by simp
  moreover have "w32 b \<noteq> ?p" using region_addr_distinct(1) [OF reg] b by simp
  ultimately have "w32 b \<noteq> it" using itc by metis
  then show "m1 (w32 b) = hmem st (w32 b)" using m1 by simp
  show "xBlockSize (hmem st (w32 b)) = w32 s" using chain b by (simp add: freechain_append)
  have "w32 x \<noteq> it" if "x \<in> set (used_addrs ?a ?bl)" for x
    using itc
  proof
    assume "it = ?p"
    then show ?thesis using region_used_not_head [OF reg that] by simp
  next
    assume "\<exists>y \<in> set (free_addrs ?a pre). it = w32 y"
    then obtain y where "y \<in> set (free_addrs ?a pre)" "it = w32 y" by blast
    then show ?thesis using used_free_words [OF reg that, of y] by simp
  qed
  then have m1x: "m1 (w32 x) = hmem st (w32 x)" if "x \<in> set (used_addrs ?a ?bl)" for x
    using that m1 by simp
  have "usedok (hmem st) ?a ?bl" using inv by (simp add: heap_inv_def)
  then have used: "usedok m1 ?a ?bl" by (rule usedok_cong) (rule m1x)
  then show "usedok m1 ?a pre" "usedok m1 (b + s) post" using b by simp_all
  have "xBlockSize (hmem st ?p) = 0" using inv by (simp add: heap_inv_def)
  then show "xBlockSize (m1 ?p) = 0" using m1 by auto
  have nreg: "?n = w32 (?a + segs_size ?bl)" "?a + segs_size ?bl < 2 ^ 32" "pos_sizes ?bl"
    using reg by (auto simp: region_def)
  have "w32 (?a + segs_size ?bl) \<noteq> ?p" by (rule region_head [OF reg]) auto
  moreover have "w32 x \<noteq> w32 (?a + segs_size ?bl)" if "x \<in> set (free_addrs ?a pre)" for x
    using free_addrs_range [OF nreg(3), of x ?a] that nreg(2) by (auto simp: w32_inj)
  ultimately have "?n \<noteq> it" using itc nreg(1) by metis
  then show "m1 ?n = hmem st ?n" using m1 by simp
qed


lemma w32_numerals: "(8 :: u32) = w32 8" "(16 :: u32) = w32 16"
  by (simp_all add: w32_def)

lemma coalesced_taken:
  assumes "coalesced (pre @ (s, False) # post)"
  shows "coalesced (pre @ (t, True) # post)" and "coalesced (pre @ (w, True) # (r, False) # post)"
    and "absorbed r post = (r, False) # post"
  using assms by (cases post; cases "hd post"; auto simp: absorbed_def)+

text \<open>Giving the tail of a block that is off the free list back to it.\<close>

lemma malloc_split_insert:
  assumes reg: "region (xStart cfg) a (pre @ (s, True) # post) (pxEnd st)"
    and chain: "freechain (hmem st) (xStart cfg) a (pre @ (s, True) # post) (pxEnd st)"
    and used: "usedok (hmem st) a pre" "usedok (hmem st) (b + s) post"
    and start: "xBlockSize (hmem st (xStart cfg)) = 0"
    and endm: "hmem st (pxEnd st) = \<lparr>pxNextFreeBlock = 0, xBlockSize = 0\<rparr>"
    and w: "0 < w" "w < s" and b: "b = a + segs_size pre"
    and m2: "m2 = (hmem st)(w32 (b + w) := (hmem st (w32 (b + w)))\<lparr>xBlockSize := w32 (s - w)\<rparr>)"
    and m3: "m3 = m2(w32 b := (m2 (w32 b))\<lparr>xBlockSize := w32 w\<rparr>)"
    and co: "absorbed (s - w) post = (s - w, False) # post"
  shows "\<exists>m'. prvInsertBlockIntoFreeList cfg (st\<lparr>hmem := m3\<rparr>) (w32 (b + w)) = Some (st\<lparr>hmem := m'\<rparr>) \<and>
    freechain m' (xStart cfg) a (pre @ (w, True) # (s - w, False) # post) (pxEnd st) \<and>
    usedok m' a pre \<and> usedok m' (b + s) post \<and> xBlockSize (m' (xStart cfg)) = 0 \<and>
    m' (pxEnd st) = \<lparr>pxNextFreeBlock = 0, xBlockSize = 0\<rparr> \<and> xBlockSize (m' (w32 b)) = w32 w"
proof -
  let ?p = "xStart cfg" and ?n = "pxEnd st" and ?pre = "pre @ [(w, True)]"
  let ?bl = "?pre @ (s - w, True) # post"
  have reg2: "region ?p a ?bl ?n" by (rule region_cong [OF reg]) (use reg w in \<open>auto simp: region_def\<close>)
  then have reg3: "region ?p a (pre @ (w, True) # (s - w, True) # post) ?n" by simp
  note B = region_addr_distinct [OF reg3, folded b]
  note C = region_addr_distinct [OF reg2, simplified, folded b, simplified]
  have sw: "a + (segs_size pre + w) = b + w" "b + w + (s - w) = b + s" using b w by simp_all
  note C = C [unfolded sw]
  have neq: "w32 (b + w) \<noteq> w32 b" using reg2 b w by (auto simp: region_def w32_inj)
  have chain2: "freechain (hmem st) ?p a ?bl ?n"
    using chain w b by (simp add: freechain_append add.assoc)
  have "freechain m3 ?p a ?bl ?n"
  proof (rule freechain_cong [OF chain2])
    show "pxNextFreeBlock (m3 ?p) = pxNextFreeBlock (hmem st ?p)" using m3 m2 by auto
    fix x assume "x \<in> set (free_addrs a ?bl)"
    then have x: "x \<in> set (free_addrs a pre) \<or> x \<in> set (free_addrs (b + s) post)"
      using w b by (simp add: add.assoc)
    have "w32 x \<noteq> w32 b" using x B(2) [of x] B(3) [of x] by (elim disjE) (simp_all add: sw)
    moreover have "w32 x \<noteq> w32 (b + w)" using x C(2) [of x] C(3) [of x] by (elim disjE) simp_all
    ultimately show "m3 (w32 x) = hmem st (w32 x)" using m3 m2 by simp
  qed
  moreover have "xBlockSize (m3 ?p) = 0" using B(1) C(1) start m3 m2 by simp
  moreover have "xBlockSize (m3 (w32 (b + w))) = w32 (s - w)" using neq m3 m2 by simp
  ultimately obtain m' where ins: "prvInsertBlockIntoFreeList cfg (st\<lparr>hmem := m3\<rparr>) (w32 (b + w)) = Some (st\<lparr>hmem := m'\<rparr>)"
    and c: "freechain m' ?p a (ins_free ?pre (s - w) post) ?n" and st: "xBlockSize (m' ?p) = 0"
    and un: "\<And>x. x \<noteq> ?p \<Longrightarrow> x \<notin> w32 ` set (free_addrs a ?pre) \<Longrightarrow> x \<noteq> w32 (b + w) \<Longrightarrow> m' x = m3 x"
    using insert_block [of cfg a ?pre "s - w" post "st\<lparr>hmem := m3\<rparr>"] reg2 sw(1)
    by (auto simp: add.assoc)
  have un': "m' x = hmem st x"
    if "x \<noteq> ?p" "x \<notin> w32 ` set (free_addrs a pre)" "x \<noteq> w32 (b + w)" "x \<noteq> w32 b" for x
    using un [of x] that m3 m2 by simp
  have uaddr: "w32 x \<noteq> ?p \<and> w32 x \<notin> w32 ` set (free_addrs a pre)"
    if "x \<in> set (used_addrs a pre) \<union> set (used_addrs (b + s) post)" for x
  proof -
    have x: "x \<in> set (used_addrs a ?bl)" using that sw b by (auto simp: add.assoc)
    show ?thesis using region_used_not_head [OF reg2 x] used_free_words [OF reg2 x] by auto
  qed
  have bdist: "w32 x \<noteq> w32 b \<and> w32 x \<noteq> w32 (b + w)"
    if "x \<in> set (used_addrs a pre) \<union> set (used_addrs (b + s) post)" for x
    using that B(2,3) [of x] C(2,3) [of x] by (elim UnE) (simp_all add: sw)
  have "usedok m' a pre"
    by (rule usedok_cong [OF used(1)], rule un') (use uaddr bdist in auto)
  moreover have "usedok m' (b + s) post"
    by (rule usedok_cong [OF used(2)], rule un') (use uaddr bdist in auto)
  moreover have "m' ?n = hmem st ?n"
  proof (rule un')
    have nreg: "?n = w32 (b + s + segs_size post)" "b + s + segs_size post < 2 ^ 32" "pos_sizes pre"
      using reg b by (auto simp: region_def add.assoc)
    have "w32 x \<noteq> ?n" if "x \<in> set (free_addrs a pre)" for x
      using addr_neq [OF nreg(3) that, of "b + s + segs_size post"] nreg b by simp
    then show "?n \<notin> w32 ` set (free_addrs a pre)" by (metis imageE)
    show "?n \<noteq> ?p" using region_head [OF reg, of "a + segs_size pre + s + segs_size post"] nreg b by auto
  qed (use B(4) C(4) in auto)
  moreover have "w32 b \<notin> w32 ` set (free_addrs a ?pre)"
  proof
    assume "w32 b \<in> w32 ` set (free_addrs a ?pre)"
    then obtain x where "x \<in> set (free_addrs a pre)" "w32 x = w32 b" by auto
    then show False using B(2) [of x] by simp
  qed
  then have "m' (w32 b) = m3 (w32 b)" using un [of "w32 b"] B(1) neq by simp
  then have "xBlockSize (m' (w32 b)) = w32 w" using m3 by simp
  moreover have "ins_free ?pre (s - w) post = pre @ (w, True) # (s - w, False) # post"
    using co by (simp add: ins_free_def)
  ultimately show ?thesis using ins c st endm by (intro exI [of _ m']) simp
qed

lemma malloc_take_inv:
  assumes inv: "heap_inv cfg st (pre @ (s, False) # post)"
    and w: "0 < w" "w \<le> s" "8 dvd w"
    and b: "b = heap_base cfg + segs_size pre"
  shows "\<exists>st'. malloc_take cfg st (last_free (xStart cfg) (heap_base cfg) pre) (w32 b) (w32 w) = Some st' \<and>
    heap_inv cfg st' (malloc_segs w pre s post) \<and> pxEnd st' = pxEnd st \<and> payload st' = payload st \<and>
    malloc_failed st' = malloc_failed st \<and>
    xNumberOfSuccessfulAllocations st' = xNumberOfSuccessfulAllocations st + 1 \<and>
    xNumberOfSuccessfulFrees st' = xNumberOfSuccessfulFrees st"
proof -
  let ?p = "xStart cfg" and ?a = "heap_base cfg" and ?n = "pxEnd st"
  let ?bl = "pre @ (s, False) # post" and ?it = "last_free (xStart cfg) (heap_base cfg) pre"
  define m1 where "m1 = (hmem st)(?it := (hmem st ?it)\<lparr>pxNextFreeBlock := pxNextFreeBlock (hmem st (w32 b))\<rparr>)"
  note un = heap_inv_unlink [OF inv b refl m1_def]
  have reg: "region ?p ?a ?bl ?n" and endm: "hmem st ?n = \<lparr>pxNextFreeBlock = 0, xBlockSize = 0\<rparr>"
    and free: "xFreeBytesRemaining st = w32 (free_size ?bl)"
    and al: "aligned8 ?bl" and co: "coalesced ?bl" and sz: "segs_size ?bl < 2 ^ 31"
    using inv by (simp_all add: heap_inv_def)
  have reg1: "region ?p ?a (pre @ (s, True) # post) ?n"
    by (rule region_cong [OF reg]) (use reg in \<open>auto simp: region_def\<close>)
  have top: "b + s + segs_size post < 2 ^ 32" using reg b by (auto simp: region_def add.assoc)
  have size1: "xBlockSize (m1 (w32 b)) = w32 s" using un(2,3) by simp
  have test: "(xBlockSize (m1 (w32 b)) - w32 w > heapMINIMUM_BLOCK_SIZE) = (16 < s - w)"
    using w(2) top by (simp add: size1 w32_diff w32_numerals w32_less)
  let ?s1 = "st\<lparr>hmem := m1\<rparr>"
  show ?thesis
  proof (cases "16 < s - w")
    case False
    have "heap_inv cfg (malloc_finish ?s1 (w32 (?a + segs_size pre)) (w32 s)) (pre @ (s, True) # post)"
    proof (rule malloc_finish_inv)
      show "coalesced (pre @ (s, True) # post)" by (rule coalesced_taken(1) [OF co])
    qed (use un b endm free al sz reg1 in \<open>simp_all add: ac_simps\<close>)
    moreover have "malloc_take cfg st ?it (w32 b) (w32 w) = Some (malloc_finish ?s1 (w32 b) (w32 s))"
      by (rule malloc_take_nosplit [OF m1_def]) (use test False size1 in auto)
    ultimately show ?thesis using False b by (simp add: malloc_segs_def malloc_finish_def)
  next
    case True
    then have w': "w < s" by simp
    define m2 where "m2 = m1(w32 (b + w) := (m1 (w32 (b + w)))\<lparr>xBlockSize := w32 (s - w)\<rparr>)"
    define m3 where "m3 = m2(w32 b := (m2 (w32 b))\<lparr>xBlockSize := w32 w\<rparr>)"
    have m23: "m2 = (hmem ?s1)(w32 (b + w) := (hmem ?s1 (w32 (b + w)))\<lparr>xBlockSize := w32 (s - w)\<rparr>)"
      by (simp add: m2_def)
    obtain m' where ins: "prvInsertBlockIntoFreeList cfg (?s1\<lparr>hmem := m3\<rparr>) (w32 (b + w)) = Some (?s1\<lparr>hmem := m'\<rparr>)"
      and m': "freechain m' ?p ?a (pre @ (w, True) # (s - w, False) # post) ?n" "usedok m' ?a pre"
        "usedok m' (b + s) post" "xBlockSize (m' ?p) = 0"
        "m' ?n = \<lparr>pxNextFreeBlock = 0, xBlockSize = 0\<rparr>" "xBlockSize (m' (w32 b)) = w32 w"
      using malloc_split_insert [of cfg ?a pre s post ?s1 b w m2 m3, OF _ _ _ _ _ _ w(1) w' b m23 m3_def
          coalesced_taken(3) [OF co]] un reg1 endm by auto
    let ?s2 = "?s1\<lparr>hmem := m'\<rparr>" and ?bl' = "pre @ (w, True) # (s - w, False) # post"
    have "8 dvd s - w" using al w by (simp add: dvd_diff_nat)
    moreover have "region ?p ?a ?bl' ?n"
      by (rule region_cong [OF reg1]) (use reg1 w(1) w' in \<open>auto simp: region_def\<close>)
    ultimately have "heap_inv cfg (malloc_finish ?s2 (w32 (?a + segs_size pre)) (w32 w)) ?bl'"
      using m' b w w' free al sz coalesced_taken(2) [OF co, of w "s - w"]
      by (intro malloc_finish_inv) (simp_all add: add.assoc)
    moreover have "malloc_take cfg st ?it (w32 b) (w32 w) = Some (malloc_finish ?s2 (w32 b) (w32 w))"
    proof (rule malloc_take_split [OF m1_def])
      show "xBlockSize (m1 (w32 b)) - w32 w > heapMINIMUM_BLOCK_SIZE" using test True by blast
      show "m2 = m1(w32 b + w32 w := (m1 (w32 b + w32 w))\<lparr>xBlockSize := xBlockSize (m1 (w32 b)) - w32 w\<rparr>)"
        using size1 w' by (simp add: m2_def w32_add w32_diff)
      show "prvInsertBlockIntoFreeList cfg (st\<lparr>hmem := m2(w32 b := (m2 (w32 b))\<lparr>xBlockSize := w32 w\<rparr>)\<rparr>)
          (w32 b + w32 w) = Some ?s2"
        using ins by (simp add: m3_def w32_add)
    qed (simp add: m'(6))
    ultimately show ?thesis using True b by (simp add: malloc_segs_def malloc_finish_def)
  qed
qed

end
