(* ===== verification/Heap4Ops.thy ===== *)
theory Heap4Ops
  imports Heap4Props
begin

text \<open>
  The properties of \<open>pvPortMalloc\<close>, \<open>vPortFree\<close>, \<open>pvPortCalloc\<close> and
  \<open>vPortGetHeapStats\<close>, on top of the invariant \<open>heap_inv\<close>: functional correctness
  against the segment list, the allocate/release round trip, and the safety of every sequence of
  calls a well-behaved client can make.
\<close>

subsection \<open>Owned segments\<close>

fun used_segs :: "nat \<Rightarrow> seg list \<Rightarrow> (nat \<times> nat) list" where
  "used_segs a [] = []"
| "used_segs a ((s, True) # bl) = (a, s) # used_segs (a + s) bl"
| "used_segs a ((s, False) # bl) = used_segs (a + s) bl"

lemma used_segs_append [simp]:
  "used_segs a (xs @ ys) = used_segs a xs @ used_segs (a + segs_size xs) ys"
  by (induction a xs rule: used_segs.induct) (simp_all add: add.assoc)

lemma used_segs_range:
  "(x, s) \<in> set (used_segs a bl) \<Longrightarrow> a \<le> x \<and> x + s \<le> a + segs_size bl"
  by (induction a bl rule: used_segs.induct) auto

lemma used_segs_split:
  "(x, s) \<in> set (used_segs a bl) \<Longrightarrow>
    \<exists>pre post. bl = pre @ (s, True) # post \<and> x = a + segs_size pre"
proof (induction a bl rule: used_segs.induct)
  case (2 a t bl)
  show ?case
  proof (cases "(x, s) = (a, t)")
    case True
    then show ?thesis by (intro exI [of _ "[]"] exI [of _ bl]) simp
  next
    case False
    then obtain pre post where "bl = pre @ (s, True) # post" "x = a + t + segs_size pre"
      using 2 by auto
    then show ?thesis by (intro exI [of _ "(t, True) # pre"] exI [of _ post]) simp
  qed
next
  case (3 a t bl)
  then obtain pre post where "bl = pre @ (s, True) # post" "x = a + t + segs_size pre" by auto
  then show ?case by (intro exI [of _ "(t, False) # pre"] exI [of _ post]) simp
qed simp

lemma used_segs_disjoint:
  "(x, s) \<in> set (used_segs a bl) \<Longrightarrow> (y, t) \<in> set (used_segs a bl) \<Longrightarrow> (x, s) \<noteq> (y, t) \<Longrightarrow>
    x + s \<le> y \<or> y + t \<le> x"
proof (induction a bl rule: used_segs.induct)
  case (2 a r bl)
  then show ?case using used_segs_range [of _ _ "a + r" bl] by fastforce
qed auto

lemma used_segs_absorbed [simp]: "used_segs a (absorbed s post) = used_segs (a + s) post"
  by (cases "(s, post)" rule: absorb.cases) (auto simp: absorbed_def add.assoc)

lemma used_segs_ins_free [simp]:
  "used_segs a (ins_free pre s post) = used_segs a pre @ used_segs (a + segs_size pre + s) post"
proof (cases pre rule: rev_cases)
  case (snoc xs x)
  then show ?thesis by (cases x; cases "snd x") (auto simp: ins_free_def add.assoc)
qed (simp add: ins_free_def)

lemma used_addrs_segs: "used_addrs a bl = map fst (used_segs a bl)"
  by (induction a bl rule: used_segs.induct) auto

lemma usedok_segs:
  "usedok m a bl \<longleftrightarrow> (\<forall>(x, s) \<in> set (used_segs a bl).
    m (w32 x) = \<lparr>pxNextFreeBlock = 0, xBlockSize = w32 s OR heapBLOCK_ALLOCATED_BITMASK\<rparr>)"
  by (induction m a bl rule: usedok.induct) auto

lemma end_not_free:
  assumes "region p a (pre @ post) n"
  shows "n \<notin> w32 ` set (free_addrs a pre)"
proof -
  have r: "pos_sizes pre" "n = w32 (a + segs_size (pre @ post))" "a + segs_size (pre @ post) < 2 ^ 32"
    using assms by (auto simp: region_def)
  have "w32 x \<noteq> n" if "x \<in> set (free_addrs a pre)" for x
    using addr_neq [OF _ that, of "a + segs_size (pre @ post)"] r by simp
  then show ?thesis by (metis imageE)
qed

lemma heap_inv_region: "heap_inv cfg st bl \<Longrightarrow> region (xStart cfg) (heap_base cfg) bl (pxEnd st)"
  by (simp add: heap_inv_def)

lemma heap_inv_top:
  assumes "heap_inv cfg st bl"
  shows "0 < heap_base cfg" "heap_base cfg + segs_size bl < 2 ^ 32" "segs_size bl < 2 ^ 31" "pos_sizes bl"
  using assms by (auto simp: heap_inv_def region_def)

lemma heap_inv_dvd: "heap_inv cfg st (pre @ post) \<Longrightarrow> 8 dvd segs_size pre"
  using aligned8_dvd [of pre] by (simp add: heap_inv_def)

lemma pxEnd_nonzero: "heap_inv cfg st bl \<Longrightarrow> pxEnd st \<noteq> 0"
proof -
  assume "heap_inv cfg st bl"
  then have r: "0 < heap_base cfg + segs_size bl" "heap_base cfg + segs_size bl < 2 ^ 32"
    "pxEnd st = w32 (heap_base cfg + segs_size bl)" by (auto simp: heap_inv_def region_def)
  then have "w32 (heap_base cfg + segs_size bl) \<noteq> w32 0" by (subst w32_inj) auto
  then show ?thesis using r by simp
qed

subsection \<open>pvPortMalloc\<close>

text \<open>The segment list after an allocation of \<open>n\<close> bytes and the address of the block, if one
  is found.\<close>

definition malloc_abs :: "nat \<Rightarrow> seg list \<Rightarrow> (nat \<times> seg list) option" where
  "malloc_abs n bl =
     (if 0 < n \<and> block_need n < 2 ^ 31 then
        map_option (\<lambda>(pre, s, post). (segs_size pre, malloc_segs (block_need n) pre s post))
          (first_fit (block_need n) bl)
      else None)"

lemma malloc_searched:
  assumes inv: "heap_inv cfg st bl" and w: "0 < w" "w < 2 ^ 32"
  shows "malloc_search (hmem st) (xStart cfg) (pxNextFreeBlock (hmem st (xStart cfg))) (w32 w) =
    (case first_fit w bl of
       None \<Rightarrow> Some (last_free (xStart cfg) (heap_base cfg) bl, pxEnd st)
     | Some (pre, s, post) \<Rightarrow> Some (last_free (xStart cfg) (heap_base cfg) pre,
         w32 (heap_base cfg + segs_size pre)))"
proof -
  have chain: "freechain (hmem st) (xStart cfg) (heap_base cfg) bl (pxEnd st)"
    using inv by (simp add: heap_inv_def)
  show ?thesis unfolding freechain_next [OF chain]
    by (rule malloc_search_eq [OF chain]) (use inv w in \<open>auto simp: heap_inv_def region_def\<close>)
qed

lemma pvPortMalloc_None:
  assumes inv: "heap_inv cfg st bl" and none: "malloc_abs (unat n) bl = None"
  shows "pvPortMalloc cfg st n = Some (0, st\<lparr>malloc_failed := malloc_failed st + 1\<rparr>)"
proof -
  let ?w = "block_need (unat n)"
  have e: "pxEnd st \<noteq> 0" by (rule pxEnd_nonzero [OF inv])
  show ?thesis
  proof (cases "0 < unat n \<and> ?w < 2 ^ 31")
    case False
    then have "\<not> (heapBLOCK_SIZE_IS_VALID (malloc_size n) \<and> malloc_size n > 0)"
      by (auto simp: malloc_size_eq size_valid)
    then show ?thesis using e by (auto simp: pvPortMalloc_def Let_def)
  next
    case True
    then have "first_fit ?w bl = None" using none by (simp add: malloc_abs_def)
    moreover have "malloc_size n = w32 ?w" using True by (simp add: malloc_size_eq)
    moreover have "0 < ?w" using block_need_props(1) [of "unat n"] by simp
    ultimately show ?thesis using e True malloc_searched [OF inv, of ?w]
      by (simp add: pvPortMalloc_def Let_def)
  qed
qed

lemma free_words: "heap_inv cfg st bl \<Longrightarrow> unat (xFreeBytesRemaining st) = free_size bl"
  using free_size_le [of bl] by (simp add: heap_inv_def)

lemma pvPortMalloc_Some:
  assumes inv: "heap_inv cfg st bl" and some: "malloc_abs (unat n) bl = Some (off, bl')"
  shows "\<exists>st'. pvPortMalloc cfg st n = Some (w32 (heap_base cfg + off + 8), st') \<and>
    heap_inv cfg st' bl' \<and> payload st' = payload st \<and> malloc_failed st' = malloc_failed st \<and>
    xNumberOfSuccessfulAllocations st' = xNumberOfSuccessfulAllocations st + 1 \<and>
    xNumberOfSuccessfulFrees st' = xNumberOfSuccessfulFrees st"
proof -
  let ?w = "block_need (unat n)"
  from some obtain pre s post where ff: "first_fit ?w bl = Some (pre, s, post)"
    and n: "0 < unat n" "?w < 2 ^ 31" and off: "off = segs_size pre" and bl': "bl' = malloc_segs ?w pre s post"
    by (auto simp: malloc_abs_def split: if_splits)
  have bl: "bl = pre @ (s, False) # post" "?w \<le> s" using first_fit_Some [OF ff] by auto
  have w: "0 < ?w" "8 dvd ?w" "8 < ?w" using block_need_props [of "unat n"] by auto
  let ?b = "heap_base cfg + segs_size pre"
  obtain st' where st': "malloc_take cfg st (last_free (xStart cfg) (heap_base cfg) pre) (w32 ?b) (w32 ?w) = Some st'"
    and rest: "heap_inv cfg st' (malloc_segs ?w pre s post)" "payload st' = payload st"
      "malloc_failed st' = malloc_failed st"
      "xNumberOfSuccessfulAllocations st' = xNumberOfSuccessfulAllocations st + 1"
      "xNumberOfSuccessfulFrees st' = xNumberOfSuccessfulFrees st"
    using malloc_take_inv [OF inv [unfolded bl(1)] w(1) bl(2) w(2) refl] by blast
  have reg: "region (xStart cfg) (heap_base cfg) (pre @ (s, False) # post) (pxEnd st)"
    using heap_inv_region [OF inv] bl(1) by simp
  have ne: "w32 ?b \<noteq> pxEnd st" using region_addr_distinct(4) [OF reg] by simp
  have top: "?b + 8 < 2 ^ 32" using heap_inv_top(2) [OF inv] bl w(3) by simp
  then have nz: "w32 (?b + 8) \<noteq> 0" using w32_inj [of "?b + 8" 0] by simp
  have le: "w32 ?w \<le> xFreeBytesRemaining st"
    using first_fit_le_free [OF ff] free_words [OF inv] n by (simp add: word_le_nat_alt)
  have nx: "pxNextFreeBlock (hmem st (last_free (xStart cfg) (heap_base cfg) pre)) = w32 ?b"
    using inv bl(1) by (auto simp: heap_inv_def freechain_append)
  have "malloc_size n = w32 ?w" using n by (simp add: malloc_size_eq)
  moreover have "w32 ?w > 0" using w(1) n w32_inj [of ?w 0] by (simp add: word_gt_0)
  ultimately have "pvPortMalloc cfg st n = Some (w32 ?b + 8, st')"
    using malloc_searched [OF inv, of ?w] pxEnd_nonzero [OF inv] ff w(1) n le ne st' nx nz size_valid [of ?w]
    by (simp add: pvPortMalloc_def Let_def w32_numerals w32_add)
  then show ?thesis using rest off bl' by (auto simp: w32_numerals w32_add)
qed

lemma pvPortMalloc_returns:
  assumes "heap_inv cfg st bl"
  shows "\<exists>pv st'. pvPortMalloc cfg st n = Some (pv, st')"
proof (cases "malloc_abs (unat n) bl")
  case None
  then show ?thesis using pvPortMalloc_None [OF assms] by simp
next
  case (Some r)
  then show ?thesis using pvPortMalloc_Some [OF assms, of n] by (cases r) auto
qed

subsection \<open>vPortFree\<close>

lemma absorbed_aligned: "8 dvd s \<Longrightarrow> aligned8 post \<Longrightarrow> aligned8 (absorbed s post)"
  by (cases "(s, post)" rule: absorb.cases) (auto simp: absorbed_def)

lemma absorbed_pos: "0 < s \<Longrightarrow> pos_sizes post \<Longrightarrow> pos_sizes (absorbed s post)"
  by (cases "(s, post)" rule: absorb.cases) (auto simp: absorbed_def)

lemma absorbed_coalesced:
  "coalesced ((t, True) # post) \<Longrightarrow> coalesced (absorbed s post)"
proof (cases "(s, post)" rule: absorb.cases)
  case (1 s' r rest)
  assume "coalesced ((t, True) # post)"
  then show ?thesis using 1 by (cases rest) (auto simp: absorbed_def)
qed (auto simp: absorbed_def)

lemma ins_free_wf:
  assumes "aligned8 (pre @ (s, True) # post)" "coalesced (pre @ (s, True) # post)"
    and "pos_sizes (pre @ (s, True) # post)"
  shows "aligned8 (ins_free pre s post)" "coalesced (ins_free pre s post)" "pos_sizes (ins_free pre s post)"
proof -
  have "(pre = [] \<or> snd (last pre)) \<or> (\<exists>xs t. pre = xs @ [(t, False)])"
    by (cases pre rule: rev_cases) auto
  then show "aligned8 (ins_free pre s post)" "coalesced (ins_free pre s post)" "pos_sizes (ins_free pre s post)"
    using assms absorbed_coalesced [of s post] absorbed_coalesced [of s post _] absorbed_aligned absorbed_pos
    by (auto simp: ins_free_def absorbed_def)
qed

text \<open>The marks on the header of an owned segment are what \<open>vPortFree\<close> checks and removes.\<close>

lemma vPortFree_owned:
  assumes inv: "heap_inv cfg st (pre @ (s, True) # post)"
    and b: "b = heap_base cfg + segs_size pre"
  shows "\<exists>st'. vPortFree cfg st (w32 (b + 8)) = Some st' \<and> heap_inv cfg st' (ins_free pre s post) \<and>
    payload st' = payload st \<and> malloc_failed st' = malloc_failed st \<and>
    xNumberOfSuccessfulAllocations st' = xNumberOfSuccessfulAllocations st \<and>
    xNumberOfSuccessfulFrees st' = xNumberOfSuccessfulFrees st + 1 \<and>
    xMinimumEverFreeBytesRemaining st' = xMinimumEverFreeBytesRemaining st"
proof -
  let ?p = "xStart cfg" and ?a = "heap_base cfg" and ?n = "pxEnd st" and ?bl = "pre @ (s, True) # post"
  have reg: "region ?p ?a ?bl ?n" and chain: "freechain (hmem st) ?p ?a ?bl ?n"
    and used: "usedok (hmem st) ?a ?bl" and start: "xBlockSize (hmem st ?p) = 0"
    and endm: "hmem st ?n = \<lparr>pxNextFreeBlock = 0, xBlockSize = 0\<rparr>" and sz: "segs_size ?bl < 2 ^ 31"
    and free: "xFreeBytesRemaining st = w32 (free_size ?bl)"
    and least: "xMinimumEverFreeBytesRemaining st \<le> xFreeBytesRemaining st"
    and wf: "aligned8 ?bl" "coalesced ?bl" "pos_sizes ?bl"
    using inv by (auto simp: heap_inv_def region_def)
  note dist = region_addr_distinct [OF reg, folded b]
  have hdr: "hmem st (w32 b) = \<lparr>pxNextFreeBlock = 0, xBlockSize = w32 s OR 0x80000000\<rparr>"
    using used b by simp
  have s31: "s < 2 ^ 31" using sz by simp
  have top: "b + 8 < 2 ^ 32" and s8: "8 \<le> s"
    using reg b wf by (auto simp: region_def dest: dvd_imp_le)
  have nz: "w32 (b + 8) \<noteq> 0" using w32_inj [of "b + 8" 0] top by simp
  have link: "w32 (b + 8) - 8 = w32 b" by (simp add: w32_numerals w32_diff)
  define m1 where "m1 = (hmem st)(w32 b := \<lparr>pxNextFreeBlock = 0, xBlockSize = w32 s\<rparr>)"
  define st1 where "st1 = st\<lparr>hmem := m1, xFreeBytesRemaining := w32 (free_size pre + s + free_size post)\<rparr>"
  have "heapFREE_BLOCK (hmem st (w32 b)) = \<lparr>pxNextFreeBlock = 0, xBlockSize = w32 s\<rparr>"
    unfolding hdr heapFREE_BLOCK_def heap_consts using mark_bits(2) [OF s31] by simp
  moreover have "heapBLOCK_IS_ALLOCATED (hmem st (w32 b))"
    unfolding hdr heapBLOCK_IS_ALLOCATED_def heap_consts using mark_bits(1) [OF s31] by simp
  ultimately have free_eq: "vPortFree cfg st (w32 (b + 8)) =
      map_option (\<lambda>t. t\<lparr>xNumberOfSuccessfulFrees := xNumberOfSuccessfulFrees t + 1\<rparr>)
        (prvInsertBlockIntoFreeList cfg st1 (w32 b))"
    using nz link free hdr by (simp add: vPortFree_def Let_def st1_def m1_def w32_add add.commute add.left_commute)
  have chain1: "freechain m1 ?p ?a ?bl ?n"
    using chain dist b by (auto intro!: freechain_cong [OF chain] simp: m1_def)
  obtain m' where ins: "prvInsertBlockIntoFreeList cfg st1 (w32 b) = Some (st1\<lparr>hmem := m'\<rparr>)"
    and m': "freechain m' ?p ?a (ins_free pre s post) ?n" "xBlockSize (m' ?p) = 0"
    and un: "\<And>x. x \<noteq> ?p \<Longrightarrow> x \<notin> w32 ` set (free_addrs ?a pre) \<Longrightarrow> x \<noteq> w32 b \<Longrightarrow> m' x = m1 x"
    using insert_block [of cfg ?a pre s post st1] reg chain1 start dist(1) b
    by (auto simp: st1_def m1_def)
  have fa: "w32 x \<noteq> ?p \<and> w32 x \<notin> w32 ` set (free_addrs ?a pre) \<and> w32 x \<noteq> w32 b"
    if "x \<in> set (used_addrs ?a pre) \<union> set (used_addrs (b + s) post)" for x
  proof -
    have x: "x \<in> set (used_addrs ?a ?bl)" using that b by (auto simp: add.assoc)
    show ?thesis using that dist(2,3) [of x] region_used_not_head [OF reg x] used_free_words [OF reg x]
      by auto
  qed
  have same: "m' (w32 x) = hmem st (w32 x)"
    if "x \<in> set (used_addrs ?a pre) \<union> set (used_addrs (b + s) post)" for x
    using un [of "w32 x"] fa [OF that] by (simp add: m1_def)
  have "usedok m' ?a pre" "usedok m' (b + s) post"
    using used b same by (auto intro: usedok_cong)
  then have used': "usedok m' ?a (ins_free pre s post)"
    using b by (auto simp: usedok_segs)
  have end': "m' ?n = hmem st ?n"
    using un [of ?n] dist(4) end_not_free [OF reg] region_head [OF reg, of "?a + segs_size ?bl"] reg
    by (auto simp: m1_def region_def)
  have bounds: "free_size pre + s + free_size post < 2 ^ 32" using free_size_le [of ?bl] sz s31 by simp
  have "xMinimumEverFreeBytesRemaining st \<le> w32 (free_size pre + s + free_size post)"
    using least bounds unfolding free word_le_nat_alt by simp
  then have "heap_inv cfg (st1\<lparr>hmem := m'\<rparr>) (ins_free pre s post)"
    using m' used' end' ins_free_wf [OF wf] reg sz endm
    by (simp add: heap_inv_def st1_def region_def add.assoc)
  then show ?thesis unfolding free_eq ins by (simp add: heap_inv_def st1_def)
qed

subsection \<open>The client's view\<close>

text \<open>Every way a client that only frees what it owns can use the allocator: the state at boot
  (\<^verbatim>\<open>pxEnd\<close> is the zeroed static), then any sequence of allocations and releases.  The set
  holds the live pointers with the sizes asked for.\<close>

inductive heap_reach :: "heap_cfg \<Rightarrow> heap_state \<Rightarrow> (u32 \<times> nat) set \<Rightarrow> bool" for cfg where
  boot: "pxEnd st = 0 \<Longrightarrow> heap_reach cfg st {}"
| alloc: "heap_reach cfg st L \<Longrightarrow> pvPortMalloc cfg st n = Some (pv, st') \<Longrightarrow> pv \<noteq> 0 \<Longrightarrow>
    heap_reach cfg st' (insert (pv, unat n) L)"
| alloc_fails: "heap_reach cfg st L \<Longrightarrow> pvPortMalloc cfg st n = Some (0, st') \<Longrightarrow> heap_reach cfg st' L"
| release: "heap_reach cfg st L \<Longrightarrow> (pv, n) \<in> L \<Longrightarrow> vPortFree cfg st pv = Some st' \<Longrightarrow>
    heap_reach cfg st' {l \<in> L. fst l \<noteq> pv}"

text \<open>Each live pointer is the payload of an owned segment that is large enough.\<close>

definition live_ok :: "heap_cfg \<Rightarrow> heap_state \<Rightarrow> (u32 \<times> nat) set \<Rightarrow> seg list \<Rightarrow> bool" where
  "live_ok cfg st L bl \<longleftrightarrow> heap_inv cfg st bl \<and>
     segs_size bl = heap_end cfg - heap_base cfg \<and>
     (\<forall>(pv, n) \<in> L. \<exists>x s. (x, s) \<in> set (used_segs (heap_base cfg) bl) \<and> pv = w32 (x + 8) \<and> n + 8 \<le> s) \<and>
     (\<forall>l \<in> L. \<forall>l' \<in> L. fst l = fst l' \<longrightarrow> l = l')"

lemma heap_inv_hook: "heap_inv cfg (st\<lparr>malloc_failed := k\<rparr>) bl = heap_inv cfg st bl"
  by (simp add: heap_inv_def)

lemma first_call:
  assumes "pxEnd st = 0" and "heap_cfg_ok cfg"
  shows "pvPortMalloc cfg st n = pvPortMalloc cfg (prvHeapInit cfg st) n"
  using assms(1) pxEnd_nonzero [OF prvHeapInit_inv [OF assms(2)]]
  by (simp add: pvPortMalloc_def Let_def)

lemma used_word_inj:
  assumes "heap_inv cfg st bl" and "(x, s) \<in> set (used_segs (heap_base cfg) bl)"
    and "(y, t) \<in> set (used_segs (heap_base cfg) bl)" and "8 \<le> s" "8 \<le> t"
    and "w32 (x + 8) = w32 (y + 8)"
  shows "(x, s) = (y, t)"
proof -
  have "x + 8 < 2 ^ 32" "y + 8 < 2 ^ 32"
    using heap_inv_top(2) [OF assms(1)] used_segs_range [OF assms(2)] used_segs_range [OF assms(3)] assms(4,5)
    by linarith+
  then have "x = y" using assms(6) by (simp add: w32_inj)
  then show ?thesis using used_segs_disjoint [OF assms(2,3)] assms(4,5) by force
qed

lemma malloc_segs_used:
  assumes "bl = pre @ (s, False) # post" and "w \<le> s" and "0 < w"
  shows "\<exists>t. w \<le> t \<and> set (used_segs a (malloc_segs w pre s post)) =
      insert (a + segs_size pre, t) (set (used_segs a bl))"
    and "segs_size (malloc_segs w pre s post) = segs_size bl"
  using assms by (auto simp: malloc_segs_def add.assoc intro: exI [of _ s] exI [of _ w])

lemma malloc_abs_used:
  assumes "malloc_abs n bl = Some (off, bl')"
  shows "\<exists>t. n + 8 \<le> t \<and> set (used_segs a bl') = insert (a + off, t) (set (used_segs a bl))"
    and "segs_size bl' = segs_size bl" and "off + 8 \<le> segs_size bl"
    and "\<exists>pre post. bl = pre @ post \<and> off = segs_size pre"
    and "(x, r) \<in> set (used_segs a bl) \<Longrightarrow> 0 < r \<Longrightarrow> x \<noteq> a + off"
proof -
  let ?w = "block_need n"
  from assms obtain pre s post where ff: "first_fit ?w bl = Some (pre, s, post)"
    and n: "0 < n" "?w < 2 ^ 31" and off: "off = segs_size pre" and bl': "bl' = malloc_segs ?w pre s post"
    by (auto simp: malloc_abs_def split: if_splits)
  have bl: "bl = pre @ (s, False) # post" "?w \<le> s" using first_fit_Some [OF ff] by auto
  have w: "n + 8 < ?w" "0 < ?w" using block_need_props(1) [of n] by auto
  note m = malloc_segs_used [OF bl w(2)]
  show "\<exists>t. n + 8 \<le> t \<and> set (used_segs a bl') = insert (a + off, t) (set (used_segs a bl))"
  proof -
    obtain t where "?w \<le> t" "set (used_segs a bl') = insert (a + off, t) (set (used_segs a bl))"
      using m(1) [of a] off bl' by blast
    then show ?thesis using w(1) by (intro exI [of _ t]) simp
  qed
  show "segs_size bl' = segs_size bl" using m(2) bl' by simp
  show "off + 8 \<le> segs_size bl" using bl off w by simp
  show "\<exists>pre post. bl = pre @ post \<and> off = segs_size pre" using bl(1) off by blast
  show "x \<noteq> a + off" if "(x, r) \<in> set (used_segs a bl)" "0 < r"
    using that bl(1) off used_segs_range [of x r a pre] used_segs_range [of x r "a + segs_size pre + s" post]
      bl(2) w(2) by auto
qed

lemma live_alloc:
  assumes ok: "live_ok cfg st L bl" and m: "pvPortMalloc cfg st n = Some (pv, st')"
  shows "\<exists>bl'. live_ok cfg st' (if pv = 0 then L else insert (pv, unat n) L) bl'"
proof (cases "malloc_abs (unat n) bl")
  case None
  have inv: "heap_inv cfg st bl" using ok by (simp add: live_ok_def)
  have "pv = 0" "st' = st\<lparr>malloc_failed := malloc_failed st + 1\<rparr>"
    using m pvPortMalloc_None [OF inv None] by simp_all
  then have "live_ok cfg st' L bl" using ok by (simp add: live_ok_def heap_inv_hook)
  then show ?thesis using \<open>pv = 0\<close> by auto
next
  case (Some r)
  obtain off bl' where r: "malloc_abs (unat n) bl = Some (off, bl')" using Some by (cases r) auto
  have inv: "heap_inv cfg st bl" using ok by (simp add: live_ok_def)
  let ?a = "heap_base cfg"
  have pv: "pv = w32 (?a + off + 8)" and inv': "heap_inv cfg st' bl'"
    using m pvPortMalloc_Some [OF inv r] by auto
  obtain t where t: "unat n + 8 \<le> t" "set (used_segs ?a bl') = insert (?a + off, t) (set (used_segs ?a bl))"
    using malloc_abs_used(1) [OF r] by blast
  have top: "?a + off + 8 < 2 ^ 32" using heap_inv_top(2) [OF inv] malloc_abs_used(3) [OF r] by simp
  then have nz: "pv \<noteq> 0" using pv w32_inj [of "?a + off + 8" 0] by simp
  have fresh: "pv \<noteq> pv'" if "(pv', k) \<in> L" for pv' k
  proof -
    obtain x s where x: "(x, s) \<in> set (used_segs ?a bl)" "pv' = w32 (x + 8)" "k + 8 \<le> s"
      using ok \<open>(pv', k) \<in> L\<close> by (auto simp: live_ok_def)
    have "x \<noteq> ?a + off" using malloc_abs_used(5) [OF r x(1)] x(3) by simp
    moreover have "x + 8 < 2 ^ 32" using used_segs_range [OF x(1)] heap_inv_top(2) [OF inv] x(3) by linarith
    ultimately show ?thesis using pv x(2) top by (simp add: w32_inj)
  qed
  have "live_ok cfg st' (insert (pv, unat n) L) bl'"
    using ok inv' malloc_abs_used(2) [OF r] t pv fresh
    by (fastforce simp: live_ok_def)
  then show ?thesis using nz by auto
qed

lemma live_free:
  assumes ok: "live_ok cfg st L bl" and l: "(pv, n) \<in> L"
  shows "\<exists>st' bl'. vPortFree cfg st pv = Some st' \<and> live_ok cfg st' {l \<in> L. fst l \<noteq> pv} bl'"
proof -
  let ?a = "heap_base cfg"
  have inv: "heap_inv cfg st bl" using ok by (simp add: live_ok_def)
  obtain x s where x: "(x, s) \<in> set (used_segs ?a bl)" "pv = w32 (x + 8)" "n + 8 \<le> s"
    using ok l by (auto simp: live_ok_def)
  then obtain pre post where bl: "bl = pre @ (s, True) # post" "x = ?a + segs_size pre"
    using used_segs_split [of x s ?a bl] by blast
  obtain st' where st': "vPortFree cfg st pv = Some st'" "heap_inv cfg st' (ins_free pre s post)"
    using vPortFree_owned [OF inv [unfolded bl(1)] bl(2)] x(2) by auto
  have keep: "\<exists>y t. (y, t) \<in> set (used_segs ?a (ins_free pre s post)) \<and> q = w32 (y + 8) \<and> k + 8 \<le> t"
    if q: "(q, k) \<in> L" "q \<noteq> pv" for q k
  proof -
    obtain y t where y: "(y, t) \<in> set (used_segs ?a bl)" "q = w32 (y + 8)" "k + 8 \<le> t"
      using ok q(1) by (auto simp: live_ok_def)
    have "y \<noteq> x" using q(2) y(2) x(2) by auto
    then have "(y, t) \<in> set (used_segs ?a (ins_free pre s post))" using y(1) bl by auto
    then show ?thesis using y by blast
  qed
  have "segs_size (ins_free pre s post) = heap_end cfg - ?a" using ok bl(1) by (simp add: live_ok_def)
  then have "live_ok cfg st' {l \<in> L. fst l \<noteq> pv} (ins_free pre s post)"
    using ok st'(2) keep by (auto simp: live_ok_def)
  then show ?thesis using st'(1) by blast
qed

lemma heap_reach_live:
  assumes "heap_reach cfg st L" and ok: "heap_cfg_ok cfg"
  shows "pxEnd st = 0 \<and> L = {} \<or> (\<exists>bl. live_ok cfg st L bl)"
  using assms(1)
proof (induction rule: heap_reach.induct)
  case (boot st)
  then show ?case by simp
next
  case (alloc st L n pv st')
  from alloc.IH show ?case
  proof
    assume z: "pxEnd st = 0 \<and> L = {}"
    have "live_ok cfg (prvHeapInit cfg st) {} [(heap_end cfg - heap_base cfg, False)]"
      using prvHeapInit_inv [OF ok] by (simp add: live_ok_def)
    from live_alloc [OF this] alloc.hyps(2,3) first_call [OF _ ok, of st n] z
    show ?thesis by fastforce
  next
    assume "\<exists>bl. live_ok cfg st L bl"
    then show ?thesis using live_alloc [OF _ alloc.hyps(2)] alloc.hyps(3) by fastforce
  qed
next
  case (alloc_fails st L n st')
  from alloc_fails.IH show ?case
  proof
    assume z: "pxEnd st = 0 \<and> L = {}"
    have "live_ok cfg (prvHeapInit cfg st) {} [(heap_end cfg - heap_base cfg, False)]"
      using prvHeapInit_inv [OF ok] by (simp add: live_ok_def)
    from live_alloc [OF this] alloc_fails.hyps(2) first_call [OF _ ok, of st n] z
    show ?thesis by fastforce
  next
    assume "\<exists>bl. live_ok cfg st L bl"
    then show ?thesis using live_alloc [OF _ alloc_fails.hyps(2)] by fastforce
  qed
next
  case (release st L pv n st')
  then obtain bl where "live_ok cfg st L bl" by auto
  from live_free [OF this release.hyps(2)] release.hyps(3) show ?case by auto
qed

lemma live_facts:
  assumes ok: "live_ok cfg st L bl" and p: "(p, n) \<in> L"
  shows "8 dvd unat p" and "heap_base cfg + 8 \<le> unat p" and "unat p + n \<le> heap_end cfg"
    and "(q, k) \<in> L \<Longrightarrow> q \<noteq> p \<Longrightarrow> unat p + n + 8 \<le> unat q \<or> unat q + k + 8 \<le> unat p"
proof -
  let ?a = "heap_base cfg"
  have inv: "heap_inv cfg st bl" and size: "segs_size bl = heap_end cfg - ?a" using ok by (auto simp: live_ok_def)
  have block: "\<exists>x s. (x, s) \<in> set (used_segs ?a bl) \<and> unat r = x + 8 \<and> j + 8 \<le> s \<and> 8 dvd x"
    if "(r, j) \<in> L" for r j
  proof -
    obtain x s where x: "(x, s) \<in> set (used_segs ?a bl)" "r = w32 (x + 8)" "j + 8 \<le> s"
      using ok \<open>(r, j) \<in> L\<close> by (auto simp: live_ok_def)
    obtain pre post where "bl = pre @ (s, True) # post" "x = ?a + segs_size pre"
      using used_segs_split [OF x(1)] by blast
    then have "8 dvd x" using heap_inv_dvd [of cfg st pre] inv heap_base_dvd [of cfg] by auto
    moreover have "x + 8 < 2 ^ 32" using used_segs_range [OF x(1)] heap_inv_top(2) [OF inv] x(3) by linarith
    ultimately show ?thesis using x by auto
  qed
  obtain x s where x: "(x, s) \<in> set (used_segs ?a bl)" "unat p = x + 8" "n + 8 \<le> s" "8 dvd x"
    using block [OF p] by blast
  have r: "?a \<le> x" "x + s \<le> ?a + segs_size bl" using used_segs_range [OF x(1)] by auto
  have "0 < segs_size bl" using r x by simp
  then have e: "?a + segs_size bl = heap_end cfg" using size by simp
  show "8 dvd unat p" "?a + 8 \<le> unat p" using x r by simp_all
  show "unat p + n \<le> heap_end cfg" using x r e by linarith
  show "unat p + n + 8 \<le> unat q \<or> unat q + k + 8 \<le> unat p" if "(q, k) \<in> L" "q \<noteq> p"
  proof -
    obtain y t where y: "(y, t) \<in> set (used_segs ?a bl)" "unat q = y + 8" "k + 8 \<le> t"
      using block [OF \<open>(q, k) \<in> L\<close>] by blast
    have "x \<noteq> y" using x(2) y(2) \<open>q \<noteq> p\<close> word_unat_eq_iff by metis
    then have "x + s \<le> y \<or> y + t \<le> x" using used_segs_disjoint [OF x(1) y(1)] by auto
    then show ?thesis using x y by linarith
  qed
qed

subsection \<open>The statistics walk\<close>

definition free_sizes :: "seg list \<Rightarrow> nat list" where
  "free_sizes bl = map fst (filter (\<lambda>b. \<not> snd b) bl)"

lemma free_sizes_simps [simp]:
  "free_sizes [] = []" "free_sizes ((s, True) # bl) = free_sizes bl"
  "free_sizes ((s, False) # bl) = s # free_sizes bl"
  by (simp_all add: free_sizes_def)

lemma free_sizes_le: "x \<in> set (free_sizes bl) \<Longrightarrow> x \<le> segs_size bl"
  unfolding free_sizes_def segs_size_def by (rule member_le_sum_list) auto

lemma w32_if: "(if w32 a < w32 b then w32 b else w32 a) = w32 (max a b)"
  if "a < 2 ^ 32" "b < 2 ^ 32" using that by (auto simp: w32_less max_def)

lemma w32_if_min: "(if w32 b < w32 a then w32 b else w32 a) = w32 (min a b)"
  if "a < 2 ^ 32" "b < 2 ^ 32" using that by (auto simp: w32_less min_def)

lemma heap_stats_walk_eq:
  assumes "freechain m p a bl n" and "n = w32 (a + segs_size bl)" and "a + segs_size bl < 2 ^ 32"
    and "pos_sizes bl" and "mx < 2 ^ 32" and "mn < 2 ^ 32"
  shows "heap_stats_walk m n (first_free a bl n) c (w32 mx) (w32 mn) =
    Some (c + w32 (length (free_sizes bl)), w32 (fold max (free_sizes bl) mx), w32 (fold min (free_sizes bl) mn))"
  using assms
proof (induction a bl arbitrary: p c mx mn rule: free_addrs.induct)
  case (1 a)
  then show ?case by (subst heap_stats_walk.simps) simp
next
  case (2 a s bl)
  then show ?case by (simp add: add.assoc)
next
  case (3 a s bl)
  have size: "xBlockSize (m (w32 a)) = w32 s" and ch: "freechain m (w32 a) (a + s) bl n"
    using "3.prems"(1) by auto
  have ne: "w32 a \<noteq> n" using "3.prems" by (simp add: w32_inj)
  have s: "s < 2 ^ 32" using "3.prems" by simp
  have "heap_stats_walk m n (first_free a ((s, False) # bl) n) c (w32 mx) (w32 mn) =
      heap_stats_walk m n (first_free (a + s) bl n) (c + 1) (w32 (max mx s)) (w32 (min mn s))"
    by (subst heap_stats_walk.simps)
      (use ne size freechain_next [OF ch] w32_if [OF "3.prems"(5) s] w32_if_min [OF "3.prems"(6) s] in \<open>simp split: if_splits\<close>)
  also have "\<dots> = Some (c + 1 + w32 (length (free_sizes bl)), w32 (fold max (free_sizes bl) (max mx s)),
      w32 (fold min (free_sizes bl) (min mn s)))"
    by (rule "3.IH" [OF ch]) (use "3.prems" s in \<open>auto simp: add.assoc\<close>)
  also have "c + 1 + w32 (length (free_sizes bl)) = c + w32 (length (free_sizes ((s, False) # bl)))"
    by (simp add: w32_def)
  finally show ?case by (simp add: max.commute min.commute)
qed

lemma fold_max_Max: "fold max xs (x :: 'a :: linorder) = Max (insert x (set xs))"
  by (simp add: Max.set_eq_fold [symmetric])

lemma fold_min_Min: "fold min xs (x :: 'a :: linorder) = Min (insert x (set xs))"
  by (simp add: Min.set_eq_fold [symmetric])

lemma first_free_nonzero:
  assumes "heap_inv cfg st bl"
  shows "first_free (heap_base cfg) bl (pxEnd st) \<noteq> 0"
proof -
  have "first_free (heap_base cfg) bl (pxEnd st) \<in> w32 ` {heap_base cfg..heap_base cfg + segs_size bl}"
    using first_free_range [of bl "heap_base cfg"] heap_inv_region [OF assms] by (simp add: region_def)
  then obtain k where "first_free (heap_base cfg) bl (pxEnd st) = w32 k" "0 < k" "k < 2 ^ 32"
    using heap_inv_top [OF assms] by auto
  then show ?thesis using w32_inj [of k 0] by simp
qed

subsection \<open>Properties\<close>

text \<open>A concrete layout for the witnesses: 256 bytes at a misaligned address.\<close>

definition cfg_w :: heap_cfg where
  "cfg_w = \<lparr>xStart = 0x1000, ucHeap = 0x2004, configTOTAL_HEAP_SIZE = 256\<rparr>"

definition boot_w :: heap_state where
  "boot_w = \<lparr>hmem = (\<lambda>_. \<lparr>pxNextFreeBlock = 0, xBlockSize = 0\<rparr>), payload = (\<lambda>_. 0), pxEnd = 0,
     xFreeBytesRemaining = 0, xMinimumEverFreeBytesRemaining = 0, xNumberOfSuccessfulAllocations = 0,
     xNumberOfSuccessfulFrees = 0, malloc_failed = 0\<rparr>"

lemma cfg_w_ok: "heap_cfg_ok cfg_w" by (simp add: heap_cfg_ok_def cfg_w_def)

lemma cfg_w_bounds: "heap_base cfg_w = 8200" "heap_end cfg_w = 8440"
  by (simp_all add: heap_base_def heap_end_def cfg_w_def)

lemma inv_w: "heap_inv cfg_w (prvHeapInit cfg_w boot_w) [(240, False)]"
  using prvHeapInit_inv [OF cfg_w_ok, of boot_w] by (simp add: cfg_w_bounds)

lemma fit_w: "malloc_abs 20 [(240, False)] = Some (0, [(32, True), (208, False)])"
  by (simp add: malloc_abs_def block_need_def malloc_segs_def)

lemma fit_w_word: "malloc_abs (unat (20 :: u32)) [(240, False)] = Some (0, [(32, True), (208, False)])"
  using fit_w by simp

text \<open>C2: \<open>pvPortMalloc\<close> on a consistent heap always returns.  With room (a size of at least
  1 whose padded block size is below \<^verbatim>\<open>2^31\<close>, and a free block of that size) it takes the first
  such block in address order, splits off the rest when more than 16 bytes remain, returns the
  address behind the 8-byte header and leaves a consistent heap; in every other case it returns
  NULL, calls the failure hook once and changes nothing else.\<close>

theorem pvPortMalloc_first_fit:
  assumes "heap_inv cfg st bl"
  shows "case malloc_abs (unat n) bl of
      None \<Rightarrow> pvPortMalloc cfg st n = Some (0, st\<lparr>malloc_failed := malloc_failed st + 1\<rparr>)
    | Some (off, bl') \<Rightarrow> \<exists>st'. pvPortMalloc cfg st n = Some (w32 (heap_base cfg + off + 8), st') \<and>
        w32 (heap_base cfg + off + 8) \<noteq> 0 \<and> heap_inv cfg st' bl' \<and>
        payload st' = payload st \<and> malloc_failed st' = malloc_failed st \<and>
        xNumberOfSuccessfulAllocations st' = xNumberOfSuccessfulAllocations st + 1"
proof (cases "malloc_abs (unat n) bl")
  case None
  then show ?thesis using pvPortMalloc_None [OF assms None] by simp
next
  case (Some r)
  then obtain off bl' where r: "malloc_abs (unat n) bl = Some (off, bl')" by (cases r) auto
  have "heap_base cfg + off + 8 < 2 ^ 32"
    using heap_inv_top(2) [OF assms] malloc_abs_used(3) [OF r] by simp
  then have "w32 (heap_base cfg + off + 8) \<noteq> 0" using w32_inj [of "heap_base cfg + off + 8" 0] by simp
  then show ?thesis using pvPortMalloc_Some [OF assms r] r by auto
qed

theorem pvPortMalloc_first_fit_witness:
  "\<exists>st'. pvPortMalloc cfg_w (prvHeapInit cfg_w boot_w) 20 = Some (w32 8208, st') \<and>
     heap_inv cfg_w st' [(32, True), (208, False)]"
  using pvPortMalloc_first_fit [OF inv_w, of 20] by (auto simp: fit_w cfg_w_bounds)

text \<open>C3: \<open>vPortFree\<close> of a pointer whose block the application owns always returns, gives the
  block back to the free list merged with its free neighbours, and leaves a consistent heap: no
  two free blocks are adjacent, the list is in address order, and the free-byte counter is the
  sum of the free blocks.\<close>

theorem vPortFree_coalesces:
  assumes "heap_inv cfg st (pre @ (s, True) # post)"
  shows "\<exists>st'. vPortFree cfg st (w32 (heap_base cfg + segs_size pre + 8)) = Some st' \<and>
    heap_inv cfg st' (ins_free pre s post) \<and> payload st' = payload st \<and>
    xNumberOfSuccessfulFrees st' = xNumberOfSuccessfulFrees st + 1"
  using vPortFree_owned [OF assms refl] by auto

lemma inv_w_alloc: "\<exists>st. heap_inv cfg_w st ([] @ (32, True) # [(208, False)])"
  using pvPortMalloc_Some [OF inv_w fit_w_word] by auto

theorem vPortFree_coalesces_witness:
  "\<exists>st st'. vPortFree cfg_w st (w32 8208) = Some st' \<and> heap_inv cfg_w st' [(240, False)]"
proof -
  obtain st where "heap_inv cfg_w st ([] @ (32, True) # [(208, False)])" using inv_w_alloc by blast
  from vPortFree_coalesces [OF this] show ?thesis
    by (auto simp: cfg_w_bounds ins_free_def absorbed_def)
qed

text \<open>C4: releasing a block right after allocating it restores the heap: the segment list, and
  with it the free bytes, are those before the allocation.\<close>

theorem malloc_free_roundtrip:
  assumes "heap_inv cfg st bl" and "pvPortMalloc cfg st n = Some (pv, st1)" and "pv \<noteq> 0"
  shows "\<exists>st2. vPortFree cfg st1 pv = Some st2 \<and> heap_inv cfg st2 bl \<and>
    xPortGetFreeHeapSize st2 = xPortGetFreeHeapSize st"
proof -
  have "malloc_abs (unat n) bl \<noteq> None"
  proof
    assume "malloc_abs (unat n) bl = None"
    from pvPortMalloc_None [OF assms(1) this] assms(2,3) show False by simp
  qed
  then obtain off bl' where r: "malloc_abs (unat n) bl = Some (off, bl')"
    by (cases "malloc_abs (unat n) bl") force+
  then obtain pre s post where ff: "first_fit (block_need (unat n)) bl = Some (pre, s, post)"
    and off: "off = segs_size pre" and bl': "bl' = malloc_segs (block_need (unat n)) pre s post"
    by (auto simp: malloc_abs_def split: if_splits)
  let ?w = "block_need (unat n)"
  have bl: "bl = pre @ (s, False) # post" "?w \<le> s" using first_fit_Some [OF ff] by auto
  have pv: "pv = w32 (heap_base cfg + off + 8)" and inv1: "heap_inv cfg st1 bl'"
    using pvPortMalloc_Some [OF assms(1) r] assms(2) by auto
  have co: "coalesced (pre @ (s, False) # post)" using assms(1) bl(1) by (simp add: heap_inv_def)
  have undo: "\<exists>t rest. bl' = pre @ (t, True) # rest \<and> ins_free pre t rest = bl"
    using co bl coalesced_taken(3) [OF co] unfolding bl' malloc_segs_def
    by (auto simp: ins_free_def absorbed_def)
  then obtain t rest where t: "bl' = pre @ (t, True) # rest" "ins_free pre t rest = bl" by blast
  obtain st2 where st2: "vPortFree cfg st1 pv = Some st2" "heap_inv cfg st2 bl"
    using vPortFree_owned [OF inv1 [unfolded t(1)] refl] pv off t(2) by auto
  then have "xFreeBytesRemaining st2 = xFreeBytesRemaining st" using assms(1) by (simp add: heap_inv_def)
  then show ?thesis using st2 by (simp add: xPortGetFreeHeapSize_def)
qed

theorem malloc_free_roundtrip_witness:
  "\<exists>st1 st2. pvPortMalloc cfg_w (prvHeapInit cfg_w boot_w) 20 = Some (w32 8208, st1) \<and>
     vPortFree cfg_w st1 (w32 8208) = Some st2 \<and> heap_inv cfg_w st2 [(240, False)]"
proof -
  have nz: "w32 8208 \<noteq> 0" using w32_inj [of 8208 0] by simp
  obtain st1 where st1: "pvPortMalloc cfg_w (prvHeapInit cfg_w boot_w) 20 = Some (w32 8208, st1)"
    using pvPortMalloc_Some [OF inv_w fit_w_word] by (auto simp: cfg_w_bounds)
  from malloc_free_roundtrip [OF inv_w st1 nz] st1 show ?thesis by blast
qed

text \<open>C1: whatever a client does that only frees what it owns, starting from the boot state:
  every live pointer is a multiple of 8 inside the heap, its requested bytes end inside the heap,
  and any two live blocks are disjoint with room for a header between them.\<close>

theorem heap_reach_safe:
  assumes "heap_reach cfg st L" and "heap_cfg_ok cfg" and "(p, n) \<in> L"
  shows "8 dvd unat p \<and> heap_base cfg + 8 \<le> unat p \<and> unat p + n \<le> heap_end cfg \<and>
    (\<forall>(q, k) \<in> L. q \<noteq> p \<longrightarrow> unat p + n + 8 \<le> unat q \<or> unat q + k + 8 \<le> unat p)"
proof -
  obtain bl where ok: "live_ok cfg st L bl"
    using heap_reach_live [OF assms(1,2)] assms(3) by auto
  show ?thesis using live_facts [OF ok assms(3)] by auto
qed

lemma reach_w: "\<exists>st. heap_reach cfg_w st {(w32 8208, 20)}"
proof -
  have "pvPortMalloc cfg_w boot_w 20 = pvPortMalloc cfg_w (prvHeapInit cfg_w boot_w) 20"
    by (rule first_call [OF _ cfg_w_ok]) (simp add: boot_w_def)
  then obtain st where st: "pvPortMalloc cfg_w boot_w 20 = Some (w32 8208, st)"
    using pvPortMalloc_Some [OF inv_w fit_w_word] by (auto simp: cfg_w_bounds)
  have "heap_reach cfg_w boot_w {}" by (rule heap_reach.boot) (simp add: boot_w_def)
  from heap_reach.alloc [OF this st] show ?thesis using w32_inj [of 8208 0] by auto
qed

theorem heap_reach_safe_witness:
  "\<exists>st. heap_reach cfg_w st {(w32 8208, 20)} \<and> 8 dvd unat (w32 8208) \<and> unat (w32 8208) + 20 \<le> 8440"
proof -
  obtain st where st: "heap_reach cfg_w st {(w32 8208, 20)}" using reach_w by blast
  from heap_reach_safe [OF st cfg_w_ok, of "w32 8208" 20] st show ?thesis
    by (auto simp: cfg_w_bounds)
qed

text \<open>C5: in every state such a client can reach, \<open>pvPortMalloc\<close> of any size and \<open>vPortFree\<close> of
  any live pointer return: the loops over the free list end.\<close>

theorem heap_reach_total:
  assumes "heap_reach cfg st L" and "heap_cfg_ok cfg"
  shows "(\<exists>pv st'. pvPortMalloc cfg st n = Some (pv, st')) \<and>
    (\<forall>(p, k) \<in> L. \<exists>st'. vPortFree cfg st p = Some st')"
proof
  note run = pvPortMalloc_returns [of cfg _ _ n]
  from heap_reach_live [OF assms] show "\<exists>pv st'. pvPortMalloc cfg st n = Some (pv, st')"
  proof
    assume "pxEnd st = 0 \<and> L = {}"
    then show ?thesis using first_call [OF _ assms(2)] run [OF prvHeapInit_inv [OF assms(2)]] by simp
  next
    assume "\<exists>bl. live_ok cfg st L bl"
    then show ?thesis using run by (auto simp: live_ok_def)
  qed
  show "\<forall>(p, k) \<in> L. \<exists>st'. vPortFree cfg st p = Some st'"
    using heap_reach_live [OF assms] live_free by fastforce
qed

theorem heap_reach_total_witness:
  "\<exists>st. heap_reach cfg_w st {(w32 8208, 20)} \<and> (\<exists>st'. vPortFree cfg_w st (w32 8208) = Some st')"
proof -
  obtain st where st: "heap_reach cfg_w st {(w32 8208, 20)}" using reach_w by blast
  from heap_reach_total [OF st cfg_w_ok] st show ?thesis by auto
qed

text \<open>\<open>vPortGetHeapStats\<close> returns and reports the number of free blocks, the largest and the
  smallest of them (0 and the maximum of \<^verbatim>\<open>size_t\<close> when there is none), the sum of their
  sizes, and the counters.\<close>

lemma vPortGetHeapStats_correct:
  assumes "heap_inv cfg st bl"
  shows "vPortGetHeapStats cfg st = Some
    \<lparr>xAvailableHeapSpaceInBytes = w32 (sum_list (free_sizes bl)),
     xSizeOfLargestFreeBlockInBytes = w32 (Max (insert 0 (set (free_sizes bl)))),
     xSizeOfSmallestFreeBlockInBytes = w32 (Min (insert (2 ^ 32 - 1) (set (free_sizes bl)))),
     xNumberOfFreeBlocks = w32 (length (free_sizes bl)),
     xMinimumEverFreeBytes = xMinimumEverFreeBytesRemaining st,
     xNumberOfAllocations = xNumberOfSuccessfulAllocations st,
     xNumberOfFrees = xNumberOfSuccessfulFrees st\<rparr>"
proof -
  have chain: "freechain (hmem st) (xStart cfg) (heap_base cfg) bl (pxEnd st)"
    and free: "xFreeBytesRemaining st = w32 (sum_list (free_sizes bl))"
    using assms by (simp_all add: heap_inv_def free_sizes_def free_size_def)
  have z: "(0 :: u32) = w32 0" "(0xffffffff :: u32) = w32 (2 ^ 32 - 1)" by (simp_all add: w32_def)
  have "heap_stats_walk (hmem st) (pxEnd st) (first_free (heap_base cfg) bl (pxEnd st)) 0 0 0xffffffff =
    Some (w32 (length (free_sizes bl)), w32 (fold max (free_sizes bl) 0), w32 (fold min (free_sizes bl) (2 ^ 32 - 1)))"
    using heap_stats_walk_eq [OF chain, of 0 "2 ^ 32 - 1" 0] assms
    unfolding z(2) by (simp add: heap_inv_def region_def)
  then show ?thesis
    using freechain_next [OF chain] first_free_nonzero [OF assms] free
    by (simp add: vPortGetHeapStats_def Let_def fold_max_Max fold_min_Min)
qed

lemma vPortGetHeapStats_witness:
  "\<exists>r. vPortGetHeapStats cfg_w (prvHeapInit cfg_w boot_w) = Some r \<and>
     xNumberOfFreeBlocks r = 1 \<and> xSizeOfLargestFreeBlockInBytes r = 240"
  using vPortGetHeapStats_correct [OF inv_w] by (simp add: free_sizes_def w32_def)

text \<open>\<open>pvPortCalloc\<close> refuses a product that does not fit in \<^verbatim>\<open>size_t\<close>; otherwise it is an
  allocation of the product whose bytes, and no others, are zeroed.\<close>

lemma pvPortCalloc_zeroed:
  assumes "heap_inv cfg st bl"
  shows "(2 ^ 32 \<le> unat k * unat n \<longrightarrow> pvPortCalloc cfg st k n = Some (0, st)) \<and>
    (unat k * unat n < 2 ^ 32 \<longrightarrow> (\<exists>pv s. pvPortMalloc cfg st (k * n) = Some (pv, s) \<and>
       (\<exists>s'. pvPortCalloc cfg st k n = Some (pv, s') \<and> hmem s' = hmem s \<and> pxEnd s' = pxEnd s \<and>
         payload s' = (if pv = 0 then payload s
           else (\<lambda>a. if unat (a - pv) < unat k * unat n then 0 else payload s a)))))"
proof -
  have ov: "heapMULTIPLY_WILL_OVERFLOW k n = (2 ^ 32 \<le> unat k * unat n)"
  proof (cases "k = 0")
    case False
    have "unat (heapSIZE_MAX div k) = (2 ^ 32 - 1) div unat k"
      by (simp add: heapSIZE_MAX_def unat_div unsigned_minus_1_eq_mask mask_eq_exp_minus_1)
    then have "(n > heapSIZE_MAX div k) = ((2 ^ 32 - 1) div unat k < unat n)"
      by (simp add: word_less_nat_alt)
    also have "\<dots> = (2 ^ 32 - 1 < unat n * unat k)"
      using False by (simp add: div_less_iff_less_mult unat_gt_0)
    also have "\<dots> = (2 ^ 32 \<le> unat k * unat n)" by (auto simp: mult.commute)
    finally show ?thesis using False by (simp add: heapMULTIPLY_WILL_OVERFLOW_def word_gt_0)
  qed (simp add: heapMULTIPLY_WILL_OVERFLOW_def)
  have prod: "unat (k * n) = unat k * unat n" if "unat k * unat n < 2 ^ 32"
    using that by (simp add: unat_word_ariths)
  obtain pv s where m: "pvPortMalloc cfg st (k * n) = Some (pv, s)"
    using pvPortMalloc_returns [OF assms, of "k * n"] by auto
  show ?thesis using ov prod m by (auto simp: pvPortCalloc_def)
qed

lemma pvPortCalloc_zeroed_witness:
  "\<exists>pv s. pvPortCalloc cfg_w (prvHeapInit cfg_w boot_w) 5 4 = Some (pv, s)"
  using pvPortCalloc_zeroed [OF inv_w, of 5 4] by auto

text \<open>A pointer to a block that is already on the free list is not freed again: the
  ownership bit is clear and \<open>vPortFree\<close> changes nothing.\<close>

lemma vPortFree_free_block_ignored:
  assumes "heap_inv cfg st (pre @ (s, False) # post)"
  shows "vPortFree cfg st (w32 (heap_base cfg + segs_size pre + 8)) = Some st"
proof -
  let ?b = "heap_base cfg + segs_size pre"
  have "xBlockSize (hmem st (w32 ?b)) = w32 s" and s: "s < 2 ^ 31"
    using assms by (auto simp: heap_inv_def freechain_append)
  then have "heapBLOCK_SIZE_IS_VALID (xBlockSize (hmem st (w32 ?b)))" using size_valid [of s] by simp
  then have "\<not> heapBLOCK_IS_ALLOCATED (hmem st (w32 ?b))"
    unfolding heapBLOCK_SIZE_IS_VALID_def heapBLOCK_IS_ALLOCATED_def by simp
  moreover have "w32 (?b + 8) - 8 = w32 ?b" by (simp add: w32_numerals w32_diff)
  ultimately show ?thesis by (simp add: vPortFree_def Let_def)
qed

lemma vPortFree_free_block_ignored_witness:
  "vPortFree cfg_w (prvHeapInit cfg_w boot_w) (w32 8208) = Some (prvHeapInit cfg_w boot_w)"
  using vPortFree_free_block_ignored [of cfg_w "prvHeapInit cfg_w boot_w" "[]" 240 "[]"] inv_w
  by (simp add: cfg_w_bounds)

end
