(* ===== verification/KList.thy ===== *)
theory KList
  imports Prelude
begin

text \<open>
  The kernel's doubly linked lists, \<^verbatim>\<open>FreeRTOS-Kernel/list.c\<close> and the macros of \<^verbatim>\<open>list.h\<close>.
  Lists and items live in a store: \<open>nodes\<close> maps every item pointer to its fields, the end marker
  of list \<open>l\<close> (which the code casts to an item pointer) being \<open>ListEnd l\<close>; \<open>lists\<close> holds the
  count and the index of each list.  The types of lists, items and owners are parameters, since
  the kernel embeds items in task control blocks and lists in queues.
\<close>

subsection \<open>Data\<close>

definition portMAX_DELAY :: u32 where "portMAX_DELAY = 0xffffffff"

datatype ('l, 'i) iptr = ListEnd 'l | Item 'i

record ('l, 'i, 'o) ListItem_t =
  xItemValue :: u32
  pxNext :: "('l, 'i) iptr"
  pxPrevious :: "('l, 'i) iptr"
  pvOwner :: 'o
  pxContainer :: "'l option"

record ('l, 'i) List_t =
  uxNumberOfItems :: u32
  pxIndex :: "('l, 'i) iptr"

type_synonym ('l, 'i, 'o) nodes = "('l, 'i) iptr \<Rightarrow> ('l, 'i, 'o) ListItem_t"

record ('l, 'i, 'o) lstore =
  nodes :: "('l, 'i, 'o) nodes"
  lists :: "'l \<Rightarrow> ('l, 'i) List_t"

text \<open>Assignments through a pointer.\<close>

definition set_next :: "('l, 'i) iptr \<Rightarrow> ('l, 'i) iptr \<Rightarrow> ('l, 'i, 'o) nodes \<Rightarrow> ('l, 'i, 'o) nodes" where
  "set_next p q m = m(p := (m p)\<lparr>pxNext := q\<rparr>)"

definition set_prev :: "('l, 'i) iptr \<Rightarrow> ('l, 'i) iptr \<Rightarrow> ('l, 'i, 'o) nodes \<Rightarrow> ('l, 'i, 'o) nodes" where
  "set_prev p q m = m(p := (m p)\<lparr>pxPrevious := q\<rparr>)"

definition set_container :: "'i \<Rightarrow> 'l option \<Rightarrow> ('l, 'i, 'o) nodes \<Rightarrow> ('l, 'i, 'o) nodes" where
  "set_container x c m = m(Item x := (m (Item x))\<lparr>pxContainer := c\<rparr>)"

subsection \<open>Operations\<close>

definition vListInitialise :: "'l \<Rightarrow> ('l, 'i, 'o) lstore \<Rightarrow> ('l, 'i, 'o) lstore" where
  "vListInitialise l st =
     st\<lparr>nodes := (nodes st)(ListEnd l := (nodes st (ListEnd l))
          \<lparr>xItemValue := portMAX_DELAY, pxNext := ListEnd l, pxPrevious := ListEnd l\<rparr>),
        lists := (lists st)(l := \<lparr>uxNumberOfItems = 0, pxIndex = ListEnd l\<rparr>)\<rparr>"

definition vListInitialiseItem :: "'i \<Rightarrow> ('l, 'i, 'o) lstore \<Rightarrow> ('l, 'i, 'o) lstore" where
  "vListInitialiseItem x st = st\<lparr>nodes := set_container x None (nodes st)\<rparr>"

definition vListInsertEnd :: "'l \<Rightarrow> 'i \<Rightarrow> ('l, 'i, 'o) lstore \<Rightarrow> ('l, 'i, 'o) lstore" where
  "vListInsertEnd l x st =
     (let index = pxIndex (lists st l);
          m0 = nodes st;
          m1 = set_next (Item x) index m0;
          m2 = set_prev (Item x) (pxPrevious (m1 index)) m1;
          m3 = set_next (pxPrevious (m2 index)) (Item x) m2;
          m4 = set_prev index (Item x) m3;
          m5 = set_container x (Some l) m4
      in st\<lparr>nodes := m5,
            lists := (lists st)(l := (lists st l)\<lparr>uxNumberOfItems := uxNumberOfItems (lists st l) + 1\<rparr>)\<rparr>)"

text \<open>The search of \<^verbatim>\<open>vListInsert\<close>; it need not end on a damaged list.\<close>

partial_function (option) list_insert_iter ::
  "('l, 'i, 'o) nodes \<Rightarrow> ('l, 'i) iptr \<Rightarrow> u32 \<Rightarrow> ('l, 'i) iptr option" where
  "list_insert_iter m it v =
     (if xItemValue (m (pxNext (m it))) \<le> v then list_insert_iter m (pxNext (m it)) v else Some it)"

definition vListInsert :: "'l \<Rightarrow> 'i \<Rightarrow> ('l, 'i, 'o) lstore \<Rightarrow> ('l, 'i, 'o) lstore option" where
  "vListInsert l x st =
     (let m0 = nodes st;
          xValueOfInsertion = xItemValue (m0 (Item x));
          found = (if xValueOfInsertion = portMAX_DELAY then Some (pxPrevious (m0 (ListEnd l)))
                   else list_insert_iter m0 (ListEnd l) xValueOfInsertion)
      in case found of
           None \<Rightarrow> None
         | Some pxIterator \<Rightarrow>
             let m1 = set_next (Item x) (pxNext (m0 pxIterator)) m0;
                 m2 = set_prev (pxNext (m1 (Item x))) (Item x) m1;
                 m3 = set_prev (Item x) pxIterator m2;
                 m4 = set_next pxIterator (Item x) m3;
                 m5 = set_container x (Some l) m4
             in Some (st\<lparr>nodes := m5,
                  lists := (lists st)(l := (lists st l)\<lparr>uxNumberOfItems := uxNumberOfItems (lists st l) + 1\<rparr>)\<rparr>))"

text \<open>\<open>None\<close>: the item is in no list, so that the code would follow a null pointer.\<close>

definition uxListRemove :: "'i \<Rightarrow> ('l, 'i, 'o) lstore \<Rightarrow> (u32 \<times> ('l, 'i, 'o) lstore) option" where
  "uxListRemove x st =
     (case pxContainer (nodes st (Item x)) of
        None \<Rightarrow> None
      | Some l \<Rightarrow>
          let m0 = nodes st;
              m1 = set_prev (pxNext (m0 (Item x))) (pxPrevious (m0 (Item x))) m0;
              m2 = set_next (pxPrevious (m1 (Item x))) (pxNext (m1 (Item x))) m1;
              L1 = (if pxIndex (lists st l) = Item x
                    then (lists st l)\<lparr>pxIndex := pxPrevious (m2 (Item x))\<rparr> else lists st l);
              m3 = set_container x None m2;
              L2 = L1\<lparr>uxNumberOfItems := uxNumberOfItems L1 - 1\<rparr>
          in Some (uxNumberOfItems L2, st\<lparr>nodes := m3, lists := (lists st)(l := L2)\<rparr>))"

text \<open>The macros.\<close>

definition listGET_OWNER_OF_NEXT_ENTRY :: "'l \<Rightarrow> ('l, 'i, 'o) lstore \<Rightarrow> 'o \<times> ('l, 'i, 'o) lstore" where
  "listGET_OWNER_OF_NEXT_ENTRY l st =
     (let i1 = pxNext (nodes st (pxIndex (lists st l)));
          i2 = (if i1 = ListEnd l then pxNext (nodes st i1) else i1)
      in (pvOwner (nodes st i2), st\<lparr>lists := (lists st)(l := (lists st l)\<lparr>pxIndex := i2\<rparr>)\<rparr>))"

definition listSET_LIST_ITEM_VALUE :: "'i \<Rightarrow> u32 \<Rightarrow> ('l, 'i, 'o) lstore \<Rightarrow> ('l, 'i, 'o) lstore" where
  "listSET_LIST_ITEM_VALUE x v st =
     st\<lparr>nodes := (nodes st)(Item x := (nodes st (Item x))\<lparr>xItemValue := v\<rparr>)\<rparr>"

definition listGET_LIST_ITEM_VALUE :: "'i \<Rightarrow> ('l, 'i, 'o) lstore \<Rightarrow> u32" where
  "listGET_LIST_ITEM_VALUE x st = xItemValue (nodes st (Item x))"

definition listSET_LIST_ITEM_OWNER :: "'i \<Rightarrow> 'o \<Rightarrow> ('l, 'i, 'o) lstore \<Rightarrow> ('l, 'i, 'o) lstore" where
  "listSET_LIST_ITEM_OWNER x v st =
     st\<lparr>nodes := (nodes st)(Item x := (nodes st (Item x))\<lparr>pvOwner := v\<rparr>)\<rparr>"

definition listGET_ITEM_VALUE_OF_HEAD_ENTRY :: "'l \<Rightarrow> ('l, 'i, 'o) lstore \<Rightarrow> u32" where
  "listGET_ITEM_VALUE_OF_HEAD_ENTRY l st = xItemValue (nodes st (pxNext (nodes st (ListEnd l))))"

definition listGET_OWNER_OF_HEAD_ENTRY :: "'l \<Rightarrow> ('l, 'i, 'o) lstore \<Rightarrow> 'o" where
  "listGET_OWNER_OF_HEAD_ENTRY l st = pvOwner (nodes st (pxNext (nodes st (ListEnd l))))"

definition listLIST_IS_EMPTY :: "'l \<Rightarrow> ('l, 'i, 'o) lstore \<Rightarrow> bool" where
  "listLIST_IS_EMPTY l st = (uxNumberOfItems (lists st l) = 0)"

definition listCURRENT_LIST_LENGTH :: "'l \<Rightarrow> ('l, 'i, 'o) lstore \<Rightarrow> u32" where
  "listCURRENT_LIST_LENGTH l st = uxNumberOfItems (lists st l)"

definition listIS_CONTAINED_WITHIN :: "'l \<Rightarrow> 'i \<Rightarrow> ('l, 'i, 'o) lstore \<Rightarrow> bool" where
  "listIS_CONTAINED_WITHIN l x st = (pxContainer (nodes st (Item x)) = Some l)"

subsection \<open>The abstract list\<close>

text \<open>What a list stands for: its items from the head on, and the position of the index, 0 for
  the end marker and \<open>k + 1\<close> for item \<open>k\<close>.\<close>

definition linked :: "('l, 'i, 'o) nodes \<Rightarrow> ('l, 'i) iptr list \<Rightarrow> bool" where
  "linked m ps \<longleftrightarrow> successively (\<lambda>p q. pxNext (m p) = q \<and> pxPrevious (m q) = p) ps"

definition ring :: "'l \<Rightarrow> 'i list \<Rightarrow> ('l, 'i) iptr list" where
  "ring l xs = ListEnd l # map Item xs @ [ListEnd l]"

definition klist :: "'l \<Rightarrow> ('l, 'i, 'o) lstore \<Rightarrow> 'i list \<times> nat \<Rightarrow> bool" where
  "klist l st = (\<lambda>(xs, k).
     distinct xs \<and> length xs < 2 ^ 32 \<and> linked (nodes st) (ring l xs) \<and>
     (\<forall>x \<in> set xs. pxContainer (nodes st (Item x)) = Some l) \<and>
     xItemValue (nodes st (ListEnd l)) = portMAX_DELAY \<and>
     uxNumberOfItems (lists st l) = w32 (length xs) \<and>
     k \<le> length xs \<and> pxIndex (lists st l) = (ListEnd l # map Item xs) ! k)"

text \<open>The operations on it.\<close>

definition ins_at :: "nat \<Rightarrow> 'i \<Rightarrow> 'i list \<Rightarrow> 'i list" where
  "ins_at p x xs = take p xs @ x # drop p xs"

definition al_insert_end :: "'i \<Rightarrow> 'i list \<times> nat \<Rightarrow> 'i list \<times> nat" where
  "al_insert_end x = (\<lambda>(xs, k). if k = 0 then (xs @ [x], 0) else (ins_at (k - 1) x xs, k + 1))"

definition al_insert :: "('i \<Rightarrow> u32) \<Rightarrow> 'i \<Rightarrow> 'i list \<times> nat \<Rightarrow> 'i list \<times> nat" where
  "al_insert v x = (\<lambda>(xs, k). let p = length (takeWhile (\<lambda>y. v y \<le> v x) xs) in
     (ins_at p x xs, if k \<le> p then k else k + 1))"

definition al_remove :: "'i \<Rightarrow> 'i list \<times> nat \<Rightarrow> 'i list \<times> nat" where
  "al_remove x = (\<lambda>(xs, k). (remove1 x xs,
     if length (takeWhile (\<lambda>y. y \<noteq> x) xs) < k then k - 1 else k))"

definition al_next :: "'i list \<times> nat \<Rightarrow> 'i \<times> ('i list \<times> nat)" where
  "al_next = (\<lambda>(xs, k). let j = (if k < length xs then k else 0) in (xs ! j, (xs, j + 1)))"

end
