(* ===== verification/KListProps.thy ===== *)
theory KListProps
  imports KList
begin

text \<open>
  The list operations of \<open>KList\<close> implement the operations on the abstract list, and leave
  every other list of the store alone.  The interface the scheduler relies on is the locale
  \<open>ready_list\<close>: round robin over a list is proved there, from the laws of the operations.
\<close>

subsection \<open>Neighbours\<close>

definition before :: "'l \<Rightarrow> 'i list \<Rightarrow> ('l, 'i) iptr" where
  "before l pre = last (ListEnd l # map Item pre)"

definition after :: "'l \<Rightarrow> 'i list \<Rightarrow> ('l, 'i) iptr" where
  "after l post = hd (map Item post @ [ListEnd l])"

lemma before_simps [simp]: "before l [] = ListEnd l" "before l (xs @ [x]) = Item x"
  by (simp_all add: before_def)

lemma after_simps [simp]: "after l [] = ListEnd l" "after l (x # xs) = Item x"
  by (simp_all add: after_def)

lemma before_append: "ys \<noteq> [] \<Longrightarrow> before l (pre @ ys) = Item (last ys)"
  by (simp add: before_def last_map)

lemma before_nth: "k \<le> length xs \<Longrightarrow> (ListEnd l # map Item xs) ! k = before l (take k xs)"
  by (cases k) (auto simp: take_Suc_conv_app_nth)

lemma before_in: "before l pre \<in> insert (ListEnd l) (Item ` set pre)"
  by (cases pre rule: rev_cases) auto

lemma after_in: "after l post \<in> insert (ListEnd l) (Item ` set post)"
  by (cases post) auto

lemma linked_append:
  "linked m (us @ a # b # vs) \<longleftrightarrow>
    linked m (us @ [a]) \<and> pxNext (m a) = b \<and> pxPrevious (m b) = a \<and> linked m (b # vs)"
  by (auto simp: linked_def successively_append_iff)

lemma linked_cong:
  assumes "linked m ps" and "\<And>p. p \<in> set (butlast ps) \<Longrightarrow> pxNext (m' p) = pxNext (m p)"
    and "\<And>q. q \<in> set (tl ps) \<Longrightarrow> pxPrevious (m' q) = pxPrevious (m q)"
  shows "linked m' ps"
  using assms unfolding linked_def
proof (induction ps)
  case (Cons p ps)
  show ?case
  proof (cases ps)
    case (Cons q qs)
    have "successively (\<lambda>p q. pxNext (m' p) = q \<and> pxPrevious (m' q) = p) ps"
      by (rule Cons.IH) (use Cons.prems Cons in \<open>auto dest: in_set_butlastD\<close>)
    then show ?thesis using Cons.prems Cons by auto
  qed simp
qed simp

lemma linked_ring:
  "linked m (ring l (pre @ post)) \<longleftrightarrow>
    linked m (ListEnd l # map Item pre) \<and> pxNext (m (before l pre)) = after l post \<and>
    pxPrevious (m (after l post)) = before l pre \<and> linked m (map Item post @ [ListEnd l])"
proof -
  let ?U = "butlast (ListEnd l # map Item pre)" and ?V = "tl (map Item post @ [ListEnd l])"
  have U: "?U @ [before l pre] = ListEnd l # map Item pre"
    unfolding before_def by (rule append_butlast_last_id) simp
  have V: "after l post # ?V = map Item post @ [ListEnd l]" by (cases post) auto
  have "ring l (pre @ post) = (?U @ [before l pre]) @ after l post # ?V"
    unfolding U V by (simp add: ring_def)
  then have "ring l (pre @ post) = ?U @ before l pre # after l post # ?V" by simp
  then show ?thesis using linked_append [of m ?U "before l pre" "after l post" ?V]
    unfolding U V by (simp only:)
qed

lemma linked_pre_cong:
  assumes "linked m (ListEnd l # map Item pre)"
    and "\<And>p. p \<in> insert (ListEnd l) (Item ` set pre) \<Longrightarrow> p \<noteq> before l pre \<Longrightarrow> pxNext (m' p) = pxNext (m p)"
    and "\<And>q. q \<in> Item ` set pre \<Longrightarrow> pxPrevious (m' q) = pxPrevious (m q)"
    and "distinct pre"
  shows "linked m' (ListEnd l # map Item pre)"
proof (rule linked_cong [OF assms(1)])
  fix p assume p: "p \<in> set (butlast (ListEnd l # map Item pre))"
  have "distinct (ListEnd l # map Item pre)" using assms(4) by (auto simp: distinct_map inj_on_def)
  then have "distinct (butlast (ListEnd l # map Item pre) @ [before l pre])"
    unfolding before_def by (subst append_butlast_last_id) auto
  then have "p \<noteq> before l pre" using p by auto
  moreover have "p \<in> set (ListEnd l # map Item pre)" using p by (rule in_set_butlastD)
  ultimately show "pxNext (m' p) = pxNext (m p)" using assms(2) [of p] by simp
next
  fix q assume "q \<in> set (tl (ListEnd l # map Item pre))"
  then show "pxPrevious (m' q) = pxPrevious (m q)" using assms(3) by simp
qed

lemma linked_post_cong:
  assumes "linked m (map Item post @ [ListEnd l])"
    and "\<And>p. p \<in> Item ` set post \<Longrightarrow> pxNext (m' p) = pxNext (m p)"
    and "\<And>q. q \<in> insert (ListEnd l) (Item ` set post) \<Longrightarrow> q \<noteq> after l post \<Longrightarrow>
      pxPrevious (m' q) = pxPrevious (m q)"
    and "distinct post"
  shows "linked m' (map Item post @ [ListEnd l])"
proof (rule linked_cong [OF assms(1)])
  show "pxNext (m' p) = pxNext (m p)" if "p \<in> set (butlast (map Item post @ [ListEnd l]))" for p
    using that assms(2) by simp
  fix q assume q: "q \<in> set (tl (map Item post @ [ListEnd l]))"
  then have "q \<noteq> after l post" using assms(4) by (cases post) auto
  moreover have "q \<in> insert (ListEnd l) (Item ` set post)" using q by (cases post) auto
  ultimately show "pxPrevious (m' q) = pxPrevious (m q)" using assms(3) by blast
qed

lemma ring_insert:
  assumes "linked m (ring l (pre @ post))" and d: "distinct (pre @ post)" and x: "x \<notin> set (pre @ post)"
    and "pxNext (m' (Item x)) = after l post" "pxPrevious (m' (Item x)) = before l pre"
    and "pxNext (m' (before l pre)) = Item x" "pxPrevious (m' (after l post)) = Item x"
    and nx: "\<And>p. p \<noteq> before l pre \<Longrightarrow> p \<noteq> Item x \<Longrightarrow> pxNext (m' p) = pxNext (m p)"
    and pv: "\<And>q. q \<noteq> after l post \<Longrightarrow> q \<noteq> Item x \<Longrightarrow> pxPrevious (m' q) = pxPrevious (m q)"
  shows "linked m' (ring l (pre @ x # post))"
proof -
  have l: "linked m (ListEnd l # map Item pre)" "linked m (map Item post @ [ListEnd l])"
    using assms(1) by (auto simp: linked_ring)
  have "linked m' (ListEnd l # map Item pre)"
    by (rule linked_pre_cong [OF l(1)])
      (use d x after_in [of l post] in \<open>auto intro!: nx pv\<close>)
  moreover have post': "linked m' (map Item post @ [ListEnd l])"
    by (rule linked_post_cong [OF l(2)])
      (use d x before_in [of l pre] in \<open>auto intro!: nx pv\<close>)
  moreover have "linked m' (Item x # map Item post @ [ListEnd l])"
    using post' assms(4,7) by (cases post) (auto simp: linked_def)
  ultimately show ?thesis using assms(5,6) by (simp add: linked_ring)
qed

lemma ring_neighbours:
  assumes "linked m (ring l (pre @ x # post))"
  shows "pxNext (m (Item x)) = after l post" and "pxPrevious (m (Item x)) = before l pre"
proof -
  show "pxPrevious (m (Item x)) = before l pre" using assms by (simp add: linked_ring)
  show "pxNext (m (Item x)) = after l post"
    using assms linked_ring [of m l "pre @ [x]" post] by simp
qed

lemma ring_remove:
  assumes "linked m (ring l (pre @ x # post))" and d: "distinct (pre @ x # post)"
    and "pxNext (m' (before l pre)) = after l post" "pxPrevious (m' (after l post)) = before l pre"
    and nx: "\<And>p. p \<noteq> before l pre \<Longrightarrow> p \<noteq> Item x \<Longrightarrow> pxNext (m' p) = pxNext (m p)"
    and pv: "\<And>q. q \<noteq> after l post \<Longrightarrow> q \<noteq> Item x \<Longrightarrow> pxPrevious (m' q) = pxPrevious (m q)"
  shows "linked m' (ring l (pre @ post))"
proof -
  have l: "linked m (ListEnd l # map Item pre)" "linked m (map Item post @ [ListEnd l])"
    using assms(1) linked_ring [of m l pre "x # post"] linked_ring [of m l "pre @ [x]" post] by auto
  have "linked m' (ListEnd l # map Item pre)"
    by (rule linked_pre_cong [OF l(1)])
      (use d after_in [of l post] in \<open>auto intro!: nx pv\<close>)
  moreover have "linked m' (map Item post @ [ListEnd l])"
    by (rule linked_post_cong [OF l(2)])
      (use d before_in [of l pre] in \<open>auto intro!: nx pv\<close>)
  ultimately show ?thesis using assms(3,4) by (simp add: linked_ring)
qed

subsection \<open>One list\<close>

lemma klist_iff:
  "klist l st (xs, k) \<longleftrightarrow>
     distinct xs \<and> length xs < 2 ^ 32 \<and> linked (nodes st) (ring l xs) \<and>
     (\<forall>x \<in> set xs. pxContainer (nodes st (Item x)) = Some l) \<and>
     xItemValue (nodes st (ListEnd l)) = portMAX_DELAY \<and>
     uxNumberOfItems (lists st l) = w32 (length xs) \<and>
     k \<le> length xs \<and> pxIndex (lists st l) = before l (take k xs)"
  by (cases "k \<le> length xs") (simp_all add: klist_def before_nth)

lemma klist_frame:
  assumes "klist l st L" and "lists st' l = lists st l"
    and "\<And>p. p = ListEnd l \<or> (\<exists>x \<in> set (fst L). p = Item x) \<Longrightarrow> nodes st' p = nodes st p"
  shows "klist l st' L"
proof -
  obtain xs k where L: "L = (xs, k)" by (cases L)
  have "linked (nodes st') (ring l xs)"
    by (rule linked_cong [of "nodes st"])
      (use assms L in \<open>auto simp: klist_iff ring_def dest!: in_set_butlastD\<close>)
  then show ?thesis using assms L by (auto simp: klist_iff)
qed

text \<open>What an operation that moves item \<open>x\<close> in or out of list \<open>l\<close> may change: the links and the
  index of \<open>l\<close>, and the container of \<open>x\<close>, which becomes \<open>c\<close>.\<close>

definition list_frame :: "'l \<Rightarrow> 'i list \<Rightarrow> 'i \<Rightarrow> 'l option \<Rightarrow> ('l, 'i, 'o) lstore \<Rightarrow> ('l, 'i, 'o) lstore \<Rightarrow> bool" where
  "list_frame l xs x c st st' \<longleftrightarrow>
     (\<forall>l'. l' \<noteq> l \<longrightarrow> lists st' l' = lists st l') \<and>
     (\<forall>p. p \<notin> insert (ListEnd l) (Item ` insert x (set xs)) \<longrightarrow> nodes st' p = nodes st p) \<and>
     (\<forall>p. xItemValue (nodes st' p) = xItemValue (nodes st p) \<and> pvOwner (nodes st' p) = pvOwner (nodes st p)) \<and>
     (\<forall>p. pxContainer (nodes st' p) = (if p = Item x then c else pxContainer (nodes st p)))"

lemma before_take_shift:
  assumes "length pre < k" and "k \<le> length (pre @ post)"
  shows "before l (take (k + 1) (pre @ x # post)) = before l (take k (pre @ post))"
proof -
  obtain j where j: "k = Suc (length pre + j)" using assms(1) less_imp_Suc_add by metis
  then have "j < length post" using assms(2) by simp
  then have "take (Suc j) post = take j post @ [post ! j]" by (rule take_Suc_conv_app_nth)
  then have "take (k + 1) (pre @ x # post) = (pre @ x # take j post) @ [post ! j]"
    and "take k (pre @ post) = (pre @ take j post) @ [post ! j]"
    using j by simp_all
  then show ?thesis by (simp only: before_simps)
qed

lemma klist_insert_between:
  assumes k: "klist l st (pre @ post, k)" and x: "x \<notin> set (pre @ post)"
    and len: "length (pre @ post) + 1 < 2 ^ 32"
    and links: "pxNext (nodes st' (Item x)) = after l post" "pxPrevious (nodes st' (Item x)) = before l pre"
      "pxNext (nodes st' (before l pre)) = Item x" "pxPrevious (nodes st' (after l post)) = Item x"
      "\<And>p. p \<noteq> before l pre \<Longrightarrow> p \<noteq> Item x \<Longrightarrow> pxNext (nodes st' p) = pxNext (nodes st p)"
      "\<And>q. q \<noteq> after l post \<Longrightarrow> q \<noteq> Item x \<Longrightarrow> pxPrevious (nodes st' q) = pxPrevious (nodes st q)"
    and cont: "pxContainer (nodes st' (Item x)) = Some l"
      "\<And>p. p \<noteq> Item x \<Longrightarrow> pxContainer (nodes st' p) = pxContainer (nodes st p)"
    and val: "xItemValue (nodes st' (ListEnd l)) = xItemValue (nodes st (ListEnd l))"
    and lst: "lists st' l = (lists st l)\<lparr>uxNumberOfItems := uxNumberOfItems (lists st l) + 1\<rparr>"
  shows "klist l st' (pre @ x # post, if k \<le> length pre then k else k + 1)"
proof -
  have K: "distinct (pre @ post)" "linked (nodes st) (ring l (pre @ post))"
    "\<And>y. y \<in> set (pre @ post) \<Longrightarrow> pxContainer (nodes st (Item y)) = Some l"
    "xItemValue (nodes st (ListEnd l)) = portMAX_DELAY"
    "uxNumberOfItems (lists st l) = w32 (length (pre @ post))" "k \<le> length (pre @ post)"
    "pxIndex (lists st l) = before l (take k (pre @ post))"
    using k by (auto simp: klist_iff)
  have "linked (nodes st') (ring l (pre @ x # post))"
    by (rule ring_insert [OF K(2,1) x links])
  moreover have "pxContainer (nodes st' (Item y)) = Some l" if "y \<in> set (pre @ x # post)" for y
    using that cont K(3) by (cases "y = x") auto
  moreover have "w32 (length (pre @ post)) + 1 = w32 (length (pre @ x # post))"
    by (simp add: w32_def)
  moreover have "before l (take (if k \<le> length pre then k else k + 1) (pre @ x # post)) =
      before l (take k (pre @ post))"
    using before_take_shift [of pre k post l x] K(6) by auto
  ultimately show ?thesis using K x len val lst by (simp add: klist_iff)
qed

lemma klist_ends:
  assumes "klist l st (pre @ post, k)" and "pxContainer (nodes st (Item x)) = None"
  shows "before l pre \<noteq> Item x" "after l post \<noteq> Item x" "x \<notin> set (pre @ post)"
proof -
  have c: "\<And>y. y \<in> set (pre @ post) \<Longrightarrow> pxContainer (nodes st (Item y)) = Some l"
    using assms(1) by (auto simp: klist_iff)
  then show x: "x \<notin> set (pre @ post)" using assms(2) by fastforce
  show "before l pre \<noteq> Item x" "after l post \<noteq> Item x"
    using x before_in [of l pre] after_in [of l post] by auto
qed

lemma vListInsertEnd_klist:
  assumes k: "klist l st (xs, k)" and x: "pxContainer (nodes st (Item x)) = None"
    and len: "length xs + 1 < 2 ^ 32"
  shows "klist l (vListInsertEnd l x st) (al_insert_end x (xs, k)) \<and>
    list_frame l xs x (Some l) st (vListInsertEnd l x st)"
proof -
  define j where "j = (if k = 0 then length xs else k - 1)"
  define pre where "pre = take j xs"
  define post where "post = drop j xs"
  have kx: "k \<le> length xs" using k by (simp add: klist_iff)
  have xs: "xs = pre @ post" by (simp add: pre_def post_def)
  have pp: "length pre = j" using kx by (auto simp: pre_def j_def)
  note k' = k [unfolded xs]
  note ne = klist_ends [OF k' x]
  have index: "pxIndex (lists st l) = after l post"
  proof (cases k)
    case 0
    then show ?thesis using k by (simp add: klist_iff post_def j_def)
  next
    case (Suc i)
    then have "take k xs = take i xs @ [xs ! i]" "drop i xs = xs ! i # drop k xs"
      using kx by (simp_all add: take_Suc_conv_app_nth Cons_nth_drop_Suc)
    then show ?thesis using k Suc by (simp add: klist_iff post_def j_def)
  qed
  have prev: "pxPrevious (nodes st (after l post)) = before l pre"
    using k' by (simp add: klist_iff linked_ring)
  have res: "al_insert_end x (xs, k) = (pre @ x # post, if k \<le> length pre then k else k + 1)"
    using kx pp unfolding pre_def post_def j_def by (auto simp: al_insert_end_def ins_at_def)
  define m5 where "m5 = set_container x (Some l) (set_prev (after l post) (Item x)
    (set_next (before l pre) (Item x) (set_prev (Item x) (before l pre) (set_next (Item x) (after l post) (nodes st)))))"
  note sets = m5_def set_next_def set_prev_def set_container_def
  have p1: "pxPrevious (set_next (Item x) (after l post) (nodes st) (after l post)) = before l pre"
    and p2: "pxPrevious (set_prev (Item x) (before l pre) (set_next (Item x) (after l post) (nodes st))
      (after l post)) = before l pre"
    using ne prev by (simp_all add: set_next_def set_prev_def)
  have run: "vListInsertEnd l x st = st\<lparr>nodes := m5,
      lists := (lists st)(l := (lists st l)\<lparr>uxNumberOfItems := uxNumberOfItems (lists st l) + 1\<rparr>)\<rparr>"
    unfolding vListInsertEnd_def Let_def index p1 p2 m5_def ..
  have "klist l (vListInsertEnd l x st) (al_insert_end x (xs, k))" unfolding res
    by (rule klist_insert_between [OF k' ne(3)])
      (use len xs ne in \<open>auto simp: run sets\<close>)
  moreover have "m5 p = nodes st p" if "p \<notin> insert (ListEnd l) (Item ` insert x (set xs))" for p
    using that before_in [of l pre] after_in [of l post] xs by (auto simp: sets)
  moreover have "xItemValue (m5 p) = xItemValue (nodes st p)" "pvOwner (m5 p) = pvOwner (nodes st p)"
    "pxContainer (m5 p) = (if p = Item x then Some l else pxContainer (nodes st p))" for p
    using ne by (auto simp: sets)
  ultimately show ?thesis by (simp add: run list_frame_def)
qed

lemma max_delay_top: "portMAX_DELAY \<le> v \<longleftrightarrow> v = portMAX_DELAY"
  using unat_u32_less [of v] by (auto simp: portMAX_DELAY_def word_le_nat_alt word_unat_eq_iff)

lemma le_max_delay: "v \<le> portMAX_DELAY"
  using unat_u32_less [of v] by (simp add: portMAX_DELAY_def word_le_nat_alt)

lemma list_insert_iter_eq:
  assumes "linked m (ring l (pre @ rest))" and "xItemValue (m (ListEnd l)) = portMAX_DELAY"
    and "v \<noteq> portMAX_DELAY"
  shows "list_insert_iter m (before l pre) v =
    Some (before l (pre @ takeWhile (\<lambda>y. xItemValue (m (Item y)) \<le> v) rest))"
  using assms(1)
proof (induction rest arbitrary: pre)
  case Nil
  have "pxNext (m (before l pre)) = ListEnd l" using Nil linked_ring [of m l pre "[]"] by simp
  moreover have "\<not> portMAX_DELAY \<le> v" using assms(3) by (simp add: max_delay_top)
  ultimately show ?case using assms(2) by (subst list_insert_iter.simps) simp
next
  case (Cons y rest)
  have nx: "pxNext (m (before l pre)) = Item y" using Cons.prems linked_ring [of m l pre "y # rest"] by simp
  show ?case
  proof (cases "xItemValue (m (Item y)) \<le> v")
    case True
    then have "list_insert_iter m (before l pre) v = list_insert_iter m (before l (pre @ [y])) v"
      using nx by (subst list_insert_iter.simps) simp
    also have "\<dots> = Some (before l ((pre @ [y]) @ takeWhile (\<lambda>y. xItemValue (m (Item y)) \<le> v) rest))"
      by (rule Cons.IH) (use Cons.prems in simp)
    finally show ?thesis using True by simp
  next
    case False
    then show ?thesis using nx by (subst list_insert_iter.simps) simp
  qed
qed

lemma vListInsert_klist:
  assumes k: "klist l st (xs, k)" and x: "pxContainer (nodes st (Item x)) = None"
    and len: "length xs + 1 < 2 ^ 32"
  shows "\<exists>st'. vListInsert l x st = Some st' \<and>
    klist l st' (al_insert (\<lambda>y. listGET_LIST_ITEM_VALUE y st) x (xs, k)) \<and>
    list_frame l xs x (Some l) st st'"
proof -
  let ?m = "nodes st" and ?v = "xItemValue (nodes st (Item x))"
  let ?small = "\<lambda>y. xItemValue (nodes st (Item y)) \<le> ?v"
  define pre where "pre = takeWhile ?small xs"
  define post where "post = dropWhile ?small xs"
  have xs: "xs = pre @ post" by (simp add: pre_def post_def)
  note k' = k [unfolded xs]
  note ne = klist_ends [OF k' x]
  have lr: "linked ?m (ring l (pre @ post))" "xItemValue (?m (ListEnd l)) = portMAX_DELAY"
    using k' by (simp_all add: klist_iff)
  have found: "(if ?v = portMAX_DELAY then Some (pxPrevious (?m (ListEnd l)))
      else list_insert_iter ?m (ListEnd l) ?v) = Some (before l pre)"
  proof (cases "?v = portMAX_DELAY")
    case True
    then have "post = []" by (simp add: post_def le_max_delay)
    then show ?thesis using iffD1 [OF linked_ring lr(1)] True by simp
  next
    case False
    then show ?thesis using list_insert_iter_eq [of ?m l "[]" xs ?v] lr(1) [folded xs] lr(2)
      by (simp add: pre_def)
  qed
  have nxt: "pxNext (?m (before l pre)) = after l post" using lr(1) by (simp add: linked_ring)
  define m5 where "m5 = set_container x (Some l) (set_next (before l pre) (Item x)
    (set_prev (Item x) (before l pre) (set_prev (after l post) (Item x) (set_next (Item x) (after l post) ?m))))"
  define st' where "st' = st\<lparr>nodes := m5,
    lists := (lists st)(l := (lists st l)\<lparr>uxNumberOfItems := uxNumberOfItems (lists st l) + 1\<rparr>)\<rparr>"
  note sets = m5_def set_next_def set_prev_def set_container_def
  have run: "vListInsert l x st = Some st'"
    unfolding vListInsert_def Let_def found option.case nxt
    by (simp add: st'_def m5_def set_next_def)
  have "klist l st' (pre @ x # post, if k \<le> length pre then k else k + 1)"
    by (rule klist_insert_between [OF k' ne(3)])
      (use len xs ne in \<open>auto simp: st'_def sets\<close>)
  moreover have "al_insert (\<lambda>y. listGET_LIST_ITEM_VALUE y st) x (xs, k) =
      (pre @ x # post, if k \<le> length pre then k else k + 1)"
    by (simp add: al_insert_def ins_at_def listGET_LIST_ITEM_VALUE_def post_def pre_def
        takeWhile_eq_take [symmetric] dropWhile_eq_drop [symmetric] Let_def)
  moreover have "m5 p = ?m p" if "p \<notin> insert (ListEnd l) (Item ` insert x (set xs))" for p
    using that before_in [of l pre] after_in [of l post] xs by (auto simp: sets)
  moreover have "xItemValue (m5 p) = xItemValue (?m p)" "pvOwner (m5 p) = pvOwner (?m p)"
    "pxContainer (m5 p) = (if p = Item x then Some l else pxContainer (?m p))" for p
    using ne by (auto simp: sets)
  ultimately show ?thesis using run by (simp add: st'_def list_frame_def)
qed

lemma uxListRemove_klist:
  assumes k: "klist l st (xs, k)" and x: "pxContainer (nodes st (Item x)) = Some l" "x \<in> set xs"
  shows "\<exists>st'. uxListRemove x st = Some (w32 (length xs - 1), st') \<and>
    klist l st' (al_remove x (xs, k)) \<and> list_frame l xs x None st st'"
proof -
  let ?m = "nodes st"
  obtain pre post where xs: "xs = pre @ x # post" and xpre: "x \<notin> set pre"
    using split_list_first [OF x(2)] by blast
  have K: "distinct xs" "linked ?m (ring l (pre @ x # post))" "length xs < 2 ^ 32"
    "\<And>y. y \<in> set xs \<Longrightarrow> pxContainer (?m (Item y)) = Some l"
    "xItemValue (?m (ListEnd l)) = portMAX_DELAY"
    "uxNumberOfItems (lists st l) = w32 (length xs)" "k \<le> length xs"
    "pxIndex (lists st l) = before l (take k xs)"
    using k xs by (auto simp: klist_iff)
  have d: "distinct (pre @ x # post)" using K(1) xs by simp
  note nb = ring_neighbours [OF K(2)]
  have ne: "before l pre \<noteq> Item x" "after l post \<noteq> Item x"
    using d before_in [of l pre] after_in [of l post] by auto
  define m3 where "m3 = set_container x None (set_next (before l pre) (after l post)
    (set_prev (after l post) (before l pre) ?m))"
  define k' where "k' = (if length pre < k then k - 1 else k)"
  define st' where "st' = st\<lparr>nodes := m3, lists := (lists st)(l :=
    \<lparr>uxNumberOfItems = w32 (length xs - 1), pxIndex = before l (take k' (pre @ post))\<rparr>)\<rparr>"
  note sets = m3_def set_next_def set_prev_def set_container_def
  have index: "(if pxIndex (lists st l) = Item x then before l pre else pxIndex (lists st l)) =
      before l (take k' (pre @ post))"
  proof -
    consider "k \<le> length pre" | "k = length pre + 1" | "length pre + 1 < k" by linarith
    then show ?thesis
    proof cases
      case 1
      then have "take k xs = take k pre" "k' = k" using xs by (auto simp: k'_def)
      moreover have "before l (take k pre) \<noteq> Item x"
        using xpre before_in [of l "take k pre"] by (auto dest: in_set_takeD)
      ultimately show ?thesis using 1 K(8) by simp
    next
      case 2
      then have "take k xs = pre @ [x]" "take k' (pre @ post) = pre" using xs by (auto simp: k'_def)
      then show ?thesis using K(8) by simp
    next
      case 3
      then have s: "before l (take k xs) = before l (take (k - 1) (pre @ post))" "k' = k - 1"
        using before_take_shift [of pre "k - 1" post l x] K(7) xs by (auto simp: k'_def)
      let ?ys = "take (k - 1 - length pre) post"
      have "take (k - 1) (pre @ post) = pre @ ?ys" using 3 by simp
      moreover have ys: "?ys \<noteq> []" using 3 K(7) xs by auto
      ultimately have "before l (take (k - 1) (pre @ post)) = Item (last ?ys)"
        by (simp only: before_append [OF ys])
      moreover have "last ?ys \<in> set post" by (rule in_set_takeD [OF last_in_set [OF ys]])
      ultimately show ?thesis using d K(8) s by auto
    qed
  qed
  have tw: "takeWhile (\<lambda>y. y \<noteq> x) (pre @ x # post) = pre"
    using xpre by (subst takeWhile_append2) auto
  have cnt: "w32 (length xs) - 1 = w32 (length xs - 1)" using xs by (simp add: w32_def)
  have m3': "set_container x None (set_next (pxPrevious (set_prev (after l post) (before l pre) ?m (Item x)))
      (pxNext (set_prev (after l post) (before l pre) ?m (Item x)))
      (set_prev (after l post) (before l pre) ?m)) = m3"
    using nb ne by (simp add: m3_def set_prev_def)
  have pv: "pxPrevious (set_next (pxPrevious (set_prev (after l post) (before l pre) ?m (Item x)))
      (pxNext (set_prev (after l post) (before l pre) ?m (Item x)))
      (set_prev (after l post) (before l pre) ?m) (Item x)) = before l pre"
    using nb ne by (simp add: set_prev_def set_next_def)
  have run: "uxListRemove x st = Some (w32 (length xs - 1), st')"
    unfolding uxListRemove_def x(1) Let_def option.case nb m3' pv
    using index K(6) cnt by (cases "lists st l") (auto simp: st'_def)
  have flds: "xItemValue (m3 p) = xItemValue (?m p)" "pvOwner (m3 p) = pvOwner (?m p)"
    "pxContainer (m3 p) = (if p = Item x then None else pxContainer (?m p))" for p
    using ne by (auto simp: sets)
  have "linked m3 (ring l (pre @ post))"
    by (rule ring_remove [OF K(2) d]) (use ne in \<open>auto simp: sets\<close>)
  then have "klist l st' (pre @ post, k')"
    using K(3-5,7) xs d xpre by (auto simp: klist_iff st'_def flds k'_def)
  moreover have "al_remove x (xs, k) = (pre @ post, k')"
    using xpre tw unfolding xs by (simp add: al_remove_def k'_def remove1_append)
  moreover have "m3 p = ?m p" if "p \<notin> insert (ListEnd l) (Item ` set xs)" for p
    using that before_in [of l pre] after_in [of l post] xs by (auto simp: sets)
  ultimately show ?thesis using run flds x(2) by (simp add: st'_def list_frame_def insert_absorb)
qed

lemma listGET_OWNER_OF_NEXT_ENTRY_klist:
  assumes k: "klist l st (xs, k)" and "xs \<noteq> []"
  shows "\<exists>st'. listGET_OWNER_OF_NEXT_ENTRY l st = (pvOwner (nodes st (Item (fst (al_next (xs, k))))), st') \<and>
    klist l st' (snd (al_next (xs, k))) \<and> nodes st' = nodes st \<and>
    (\<forall>l'. l' \<noteq> l \<longrightarrow> lists st' l' = lists st l')"
proof -
  let ?m = "nodes st"
  define j where "j = (if k < length xs then k else 0)"
  have jx: "j < length xs" using assms(2) by (simp add: j_def)
  have K: "linked ?m (ring l xs)" "k \<le> length xs" "pxIndex (lists st l) = before l (take k xs)"
    using k by (auto simp: klist_iff)
  have nx: "pxNext (?m (before l (take i xs))) = after l (drop i xs)" for i
    using K(1) linked_ring [of ?m l "take i xs" "drop i xs"] by simp
  have item: "after l (drop i xs) = Item (xs ! i)" if "i < length xs" for i
    using that by (simp add: Cons_nth_drop_Suc [symmetric])
  let ?i1 = "pxNext (?m (pxIndex (lists st l)))"
  have i2: "(if ?i1 = ListEnd l then pxNext (?m ?i1) else ?i1) = Item (xs ! j)"
  proof (cases "k < length xs")
    case True
    then show ?thesis using K(3) nx [of k] item [of k] by (simp add: j_def)
  next
    case False
    then have "?i1 = ListEnd l" using K nx [of k] by simp
    then show ?thesis using nx [of 0] item [of 0] assms(2) False by (simp add: j_def)
  qed
  define st' where "st' = st\<lparr>lists := (lists st)(l := (lists st l)\<lparr>pxIndex := Item (xs ! j)\<rparr>)\<rparr>"
  have "listGET_OWNER_OF_NEXT_ENTRY l st = (pvOwner (?m (Item (xs ! j))), st')"
    unfolding listGET_OWNER_OF_NEXT_ENTRY_def Let_def i2 st'_def by simp
  moreover have "klist l st' (xs, j + 1)"
    using k jx by (auto simp: klist_iff st'_def take_Suc_conv_app_nth)
  ultimately show ?thesis by (simp add: al_next_def j_def Let_def st'_def)
qed

lemma klist_head:
  assumes "klist l st (xs, k)" and "xs \<noteq> []"
  shows "listGET_OWNER_OF_HEAD_ENTRY l st = pvOwner (nodes st (Item (hd xs)))"
    and "listGET_ITEM_VALUE_OF_HEAD_ENTRY l st = listGET_LIST_ITEM_VALUE (hd xs) st"
proof -
  have "linked (nodes st) (ring l ([] @ xs))" using assms(1) by (simp add: klist_iff)
  then have "pxNext (nodes st (ListEnd l)) = Item (hd xs)"
    using linked_ring [of "nodes st" l "[]" xs] assms(2) by (cases xs) auto
  then show "listGET_OWNER_OF_HEAD_ENTRY l st = pvOwner (nodes st (Item (hd xs)))"
    and "listGET_ITEM_VALUE_OF_HEAD_ENTRY l st = listGET_LIST_ITEM_VALUE (hd xs) st"
    by (simp_all add: listGET_OWNER_OF_HEAD_ENTRY_def listGET_ITEM_VALUE_OF_HEAD_ENTRY_def
        listGET_LIST_ITEM_VALUE_def)
qed

lemma klist_length:
  assumes "klist l st (xs, k)"
  shows "listLIST_IS_EMPTY l st \<longleftrightarrow> xs = []" and "unat (listCURRENT_LIST_LENGTH l st) = length xs"
proof -
  have n: "uxNumberOfItems (lists st l) = w32 (length xs)" "length xs < 2 ^ 32"
    using assms by (simp_all add: klist_iff)
  show "listLIST_IS_EMPTY l st \<longleftrightarrow> xs = []"
    using n w32_inj [of "length xs" 0] by (simp add: listLIST_IS_EMPTY_def)
  show "unat (listCURRENT_LIST_LENGTH l st) = length xs" using n by (simp add: listCURRENT_LIST_LENGTH_def)
qed

lemma vListInitialise_klist: "klist l (vListInitialise l st) ([], 0)"
  by (simp add: klist_iff vListInitialise_def ring_def linked_def w32_def)

subsection \<open>The whole store\<close>

text \<open>\<open>lrel D st A\<close>: the lists of \<open>D\<close> are initialised and stand for \<open>A\<close>; an item is in a list
  exactly when its container pointer says so.\<close>

definition lrel :: "'l set \<Rightarrow> ('l, 'i, 'o) lstore \<Rightarrow> ('l \<Rightarrow> 'i list \<times> nat) \<Rightarrow> bool" where
  "lrel D st A \<longleftrightarrow> (\<forall>l \<in> D. klist l st (A l)) \<and>
     (\<forall>x l. pxContainer (nodes st (Item x)) = Some l \<longrightarrow> l \<in> D \<and> x \<in> set (fst (A l)))"

lemma lrel_container:
  assumes "lrel D st A" and "l \<in> D"
  shows "pxContainer (nodes st (Item x)) = Some l \<longleftrightarrow> x \<in> set (fst (A l))"
proof -
  have "klist l st (fst (A l), snd (A l))" using assms by (simp add: lrel_def)
  then have "\<forall>y \<in> set (fst (A l)). pxContainer (nodes st (Item y)) = Some l" unfolding klist_iff by blast
  then show ?thesis using assms by (auto simp: lrel_def)
qed

lemma lrel_upd:
  assumes rel: "lrel D st A" and l: "l \<in> D" and k: "klist l st' L"
    and frame: "list_frame l (fst (A l)) x c st st'"
    and x: "pxContainer (nodes st (Item x)) = None \<or> pxContainer (nodes st (Item x)) = Some l"
    and c: "c = Some l \<and> set (fst L) = insert x (set (fst (A l))) \<or>
      c = None \<and> set (fst L) = set (fst (A l)) - {x}"
  shows "lrel D st' (A(l := L))"
proof -
  have "klist l' st' (A l')" if "l' \<in> D" "l' \<noteq> l" for l'
  proof (rule klist_frame)
    show "klist l' st (A l')" using rel that by (simp add: lrel_def)
    show "lists st' l' = lists st l'" using frame that by (simp add: list_frame_def)
    fix p assume p: "p = ListEnd l' \<or> (\<exists>y \<in> set (fst (A l')). p = Item y)"
    have "p \<notin> insert (ListEnd l) (Item ` insert x (set (fst (A l))))"
    proof (cases p)
      case (Item y)
      then have "pxContainer (nodes st (Item y)) = Some l'"
        using p lrel_container [OF rel \<open>l' \<in> D\<close>, of y] by auto
      then show ?thesis using Item that x lrel_container [OF rel l, of y] by auto
    qed (use p that in auto)
    then show "nodes st' p = nodes st p" using frame by (simp add: list_frame_def)
  qed
  moreover have "l' \<in> D \<and> y \<in> set (fst ((A(l := L)) l'))" if "pxContainer (nodes st' (Item y)) = Some l'" for y l'
    using that frame c l rel by (auto simp: list_frame_def lrel_def split: if_splits)
  ultimately show ?thesis using k by (auto simp: lrel_def)
qed

lemma lrel_list: "lrel D st A \<Longrightarrow> l \<in> D \<Longrightarrow> klist l st (fst (A l), snd (A l))"
  by (simp add: lrel_def)

lemma al_set [simp]:
  "set (fst (al_insert_end x L)) = insert x (set (fst L))"
  "set (fst (al_insert v x L)) = insert x (set (fst L))"
  "fst (snd (al_next L)) = fst L"
proof -
  have ins: "set (ins_at p x xs) = insert x (set xs)" for p and xs :: "'a list"
    by (metis Un_insert_right append_take_drop_id ins_at_def list.set(2) set_append)
  show "set (fst (al_insert_end x L)) = insert x (set (fst L))"
    by (cases L) (auto simp: al_insert_end_def ins)
  show "set (fst (al_insert v x L)) = insert x (set (fst L))"
    by (cases L) (auto simp: al_insert_def ins Let_def)
  show "fst (snd (al_next L)) = fst L" by (cases L) (simp add: al_next_def Let_def)
qed

lemma al_set_remove [simp]: "distinct (fst L) \<Longrightarrow> set (fst (al_remove x L)) = set (fst L) - {x}"
  by (cases L) (simp add: al_remove_def set_remove1_eq)

lemma vListInitialise_lrel:
  assumes "lrel D st A" and "l \<notin> D"
  shows "lrel (insert l D) (vListInitialise l st) (A(l := ([], 0)))"
proof -
  let ?st' = "vListInitialise l st"
  have c: "pxContainer (nodes ?st' (Item x)) = pxContainer (nodes st (Item x))" for x
    by (simp add: vListInitialise_def)
  have "klist l' ?st' (A l')" if "l' \<in> D" for l'
    by (rule klist_frame [of l' st])
      (use assms that in \<open>auto simp: lrel_def vListInitialise_def\<close>)
  then show ?thesis using assms vListInitialise_klist [of l st] c
    by (auto simp: lrel_def)
qed

lemma vListInsertEnd_lrel:
  assumes "lrel D st A" and "l \<in> D" and "pxContainer (nodes st (Item x)) = None"
    and "length (fst (A l)) + 1 < 2 ^ 32"
  shows "lrel D (vListInsertEnd l x st) (A(l := al_insert_end x (A l)))"
  using vListInsertEnd_klist [OF lrel_list [OF assms(1,2)] assms(3,4)] assms(3)
  by (intro lrel_upd [OF assms(1,2)]) auto

lemma vListInsert_lrel:
  assumes "lrel D st A" and "l \<in> D" and "pxContainer (nodes st (Item x)) = None"
    and "length (fst (A l)) + 1 < 2 ^ 32"
  shows "\<exists>st'. vListInsert l x st = Some st' \<and>
    lrel D st' (A(l := al_insert (\<lambda>y. listGET_LIST_ITEM_VALUE y st) x (A l))) \<and>
    list_frame l (fst (A l)) x (Some l) st st'"
proof -
  obtain st' where st': "vListInsert l x st = Some st'"
    "klist l st' (al_insert (\<lambda>y. listGET_LIST_ITEM_VALUE y st) x (A l))"
    "list_frame l (fst (A l)) x (Some l) st st'"
    using vListInsert_klist [OF lrel_list [OF assms(1,2)] assms(3,4)] by auto
  then show ?thesis using lrel_upd [OF assms(1,2) st'(2,3)] assms(3) by simp
qed

lemma uxListRemove_lrel:
  assumes "lrel D st A" and "pxContainer (nodes st (Item x)) = Some l"
  shows "\<exists>st'. uxListRemove x st = Some (w32 (length (fst (A l)) - 1), st') \<and>
    lrel D st' (A(l := al_remove x (A l))) \<and> list_frame l (fst (A l)) x None st st'"
proof -
  have l: "l \<in> D" and x: "x \<in> set (fst (A l))" using assms by (auto simp: lrel_def)
  note kl = lrel_list [OF assms(1) l]
  have d: "distinct (fst (A l))" using kl unfolding klist_iff by blast
  obtain st' where st': "uxListRemove x st = Some (w32 (length (fst (A l)) - 1), st')"
    "klist l st' (al_remove x (A l))" "list_frame l (fst (A l)) x None st st'"
    using uxListRemove_klist [OF kl assms(2) x] by auto
  then show ?thesis using lrel_upd [OF assms(1) l st'(2,3)] assms(2) d by simp
qed

lemma listGET_OWNER_OF_NEXT_ENTRY_lrel:
  assumes "lrel D st A" and "l \<in> D" and "fst (A l) \<noteq> []"
  shows "\<exists>st'. listGET_OWNER_OF_NEXT_ENTRY l st = (pvOwner (nodes st (Item (fst (al_next (A l))))), st') \<and>
    lrel D st' (A(l := snd (al_next (A l)))) \<and> nodes st' = nodes st"
proof -
  obtain st' where st': "listGET_OWNER_OF_NEXT_ENTRY l st = (pvOwner (nodes st (Item (fst (al_next (A l))))), st')"
    "klist l st' (snd (al_next (A l)))" "nodes st' = nodes st" "\<forall>l'. l' \<noteq> l \<longrightarrow> lists st' l' = lists st l'"
    using listGET_OWNER_OF_NEXT_ENTRY_klist [OF lrel_list [OF assms(1,2)] assms(3)] by auto
  have "klist l' st' (A l')" if "l' \<in> D" "l' \<noteq> l" for l'
    by (rule klist_frame [of l' st]) (use assms(1) that st' in \<open>auto simp: lrel_def\<close>)
  then have "lrel D st' (A(l := snd (al_next (A l))))"
    using assms(1) st' by (auto simp: lrel_def)
  then show ?thesis using st' by blast
qed

subsection \<open>The interface of a round robin list\<close>

fun iter_next :: "('s \<Rightarrow> 'o \<times> 's) \<Rightarrow> nat \<Rightarrow> 's \<Rightarrow> 'o list \<times> 's" where
  "iter_next f 0 s = ([], s)"
| "iter_next f (Suc n) s =
     (let (v, s1) = f s; (vs, s2) = iter_next f n s1 in (v # vs, s2))"

locale ready_list =
  fixes rel :: "'s \<Rightarrow> 'i list \<times> nat \<Rightarrow> bool"
    and pick :: "'s \<Rightarrow> 'o \<times> 's"
    and add :: "'i \<Rightarrow> 's \<Rightarrow> 's"
    and addable :: "'i \<Rightarrow> 's \<Rightarrow> bool"
    and owner :: "'s \<Rightarrow> 'i \<Rightarrow> 'o"
  assumes index: "rel s (xs, k) \<Longrightarrow> k \<le> length xs"
    and pick_law: "rel s L \<Longrightarrow> fst L \<noteq> [] \<Longrightarrow>
      fst (pick s) = owner s (fst (al_next L)) \<and> rel (snd (pick s)) (snd (al_next L)) \<and>
      owner (snd (pick s)) = owner s"
    and add_law: "rel s L \<Longrightarrow> addable x s \<Longrightarrow> length (fst L) + 1 < 2 ^ 32 \<Longrightarrow>
      rel (add x s) (al_insert_end x L) \<and> owner (add x s) = owner s"
begin

lemma picks:
  assumes "rel s (xs, k)" and "xs \<noteq> []"
  shows "fst (iter_next pick n s) = map (\<lambda>i. owner s (xs ! ((k + i) mod length xs))) [0..<n]"
  using assms(1)
proof (induction n arbitrary: s k)
  case (Suc n)
  define j where "j = (if k < length xs then k else 0)"
  have j: "j = k mod length xs" using index [OF Suc.prems] assms(2) by (auto simp: j_def le_less)
  have p: "fst (pick s) = owner s (xs ! j)" "rel (snd (pick s)) (xs, j + 1)" "owner (snd (pick s)) = owner s"
    using pick_law [OF Suc.prems] assms(2) by (auto simp: al_next_def Let_def j_def)
  have step: "(j + 1 + i) mod length xs = (k + Suc i) mod length xs" for i
    unfolding j by (metis add.commute add_Suc_right group_cancel.add1 mod_add_left_eq plus_1_eq_Suc)
  have "fst (iter_next pick (Suc n) s) = owner s (xs ! j) # fst (iter_next pick n (snd (pick s)))"
    using p(1) by (simp add: Let_def case_prod_beta)
  also have "\<dots> = owner s (xs ! j) # map (\<lambda>i. owner s (xs ! ((j + 1 + i) mod length xs))) [0..<n]"
    using Suc.IH [OF p(2)] p(3) by simp
  also have "\<dots> = map (\<lambda>i. owner s (xs ! ((k + i) mod length xs))) (0 # map Suc [0..<n])"
    using j step by simp
  also have "0 # map Suc [0..<n] = [0..<Suc n]" by (simp add: map_Suc_upt upt_conv_Cons)
  finally show ?case .
qed simp

lemma full_round:
  assumes "rel s (xs, k)" and "xs \<noteq> []"
  shows "fst (iter_next pick (length xs) s) = map (owner s) (rotate k xs)"
  by (rule nth_equalityI) (use picks [OF assms, of "length xs"] in \<open>auto simp: nth_rotate add.commute\<close>)

text \<open>A newly added item is picked behind all others, except the item the index stands on.\<close>

lemma added_order:
  assumes "rel s (xs, Suc k)" and "addable x s" and "length xs + 1 < 2 ^ 32"
  shows "fst (iter_next pick (length xs + 1) (add x s)) =
    map (owner s) (drop (Suc k) xs @ take k xs @ [x, xs ! k])"
proof -
  have k: "k < length xs" using index [OF assms(1)] by simp
  let ?ys = "take k xs @ x # drop k xs"
  have a: "rel (add x s) (?ys, k + 2)" "owner (add x s) = owner s"
    using add_law [OF assms(1,2)] assms(3) by (simp_all add: al_insert_end_def ins_at_def)
  have len: "length ?ys = length xs + 1" using k by simp
  have "rotate (k + 2) ?ys = drop (k + 2) ?ys @ take (k + 2) ?ys"
    using k by (simp add: rotate_drop_take) (cases "k + 1 = length xs"; simp)
  also have "drop (k + 2) ?ys = drop (Suc k) xs" using k by simp
  also have "take (k + 2) ?ys = take k xs @ [x, xs ! k]"
    using k by (simp add: take_Cons' hd_drop_conv_nth take_Suc numeral_2_eq_2)
  finally show ?thesis using full_round [OF a(1)] a(2) len by simp
qed

end

interpretation kl: ready_list "\<lambda>st L. klist l st L" "listGET_OWNER_OF_NEXT_ENTRY l" "vListInsertEnd l"
  "\<lambda>x st. pxContainer (nodes st (Item x)) = None" "\<lambda>st x. pvOwner (nodes st (Item x))"
  for l :: 'l
proof
  fix st :: "('l, 'i, 'o) lstore" and xs :: "'i list" and k L x
  show "k \<le> length xs" if "klist l st (xs, k)" using that by (simp add: klist_iff)
  show "fst (listGET_OWNER_OF_NEXT_ENTRY l st) = pvOwner (nodes st (Item (fst (al_next L)))) \<and>
      klist l (snd (listGET_OWNER_OF_NEXT_ENTRY l st)) (snd (al_next L)) \<and>
      (\<lambda>x. pvOwner (nodes (snd (listGET_OWNER_OF_NEXT_ENTRY l st)) (Item x))) = (\<lambda>x. pvOwner (nodes st (Item x)))"
    if "klist l st L" "fst L \<noteq> []"
    using listGET_OWNER_OF_NEXT_ENTRY_klist [of l st "fst L" "snd L"] that by auto
  show "klist l (vListInsertEnd l x st) (al_insert_end x L) \<and>
      (\<lambda>y. pvOwner (nodes (vListInsertEnd l x st) (Item y))) = (\<lambda>y. pvOwner (nodes st (Item y)))"
    if "klist l st L" "pxContainer (nodes st (Item x)) = None" "length (fst L) + 1 < 2 ^ 32"
    using vListInsertEnd_klist [of l st "fst L" "snd L" x] that by (auto simp: list_frame_def)
qed

subsection \<open>Properties\<close>

lemma al_insert_sorted:
  assumes "sorted (map v xs)"
  shows "sorted (map v (fst (al_insert v x (xs, k))))"
proof -
  let ?p = "takeWhile (\<lambda>y. v y \<le> v x) xs" and ?d = "dropWhile (\<lambda>y. v y \<le> v x) xs"
  have eq: "fst (al_insert v x (xs, k)) = ?p @ x # ?d"
    by (simp add: al_insert_def ins_at_def Let_def takeWhile_eq_take [symmetric] dropWhile_eq_drop [symmetric])
  have s: "sorted (map v (?p @ ?d))" using assms by simp
  have p: "\<forall>y \<in> set ?p. v y \<le> v x" by (auto dest: set_takeWhileD)
  have d: "\<forall>y \<in> set ?d. v x \<le> v y"
  proof (cases ?d)
    case (Cons z zs)
    then have "\<not> v z \<le> v x" using hd_dropWhile [of "\<lambda>y. v y \<le> v x" xs] by simp
    moreover have "\<forall>y \<in> set zs. v z \<le> v y" using s unfolding Cons by (simp add: sorted_append)
    ultimately show ?thesis unfolding Cons by auto
  next
    case Nil
    show ?thesis unfolding Nil by simp
  qed
  have "sorted (map v ?p)" "sorted (map v ?d)" using s unfolding map_append sorted_append by blast+
  then show ?thesis unfolding eq using p d by (simp add: sorted_append) (meson order_trans)
qed

lemma al_remove_insert: "x \<notin> set (fst L) \<Longrightarrow> al_remove x (al_insert v x L) = L"
proof -
  assume x: "x \<notin> set (fst L)"
  obtain xs k where L: "L = (xs, k)" by (cases L)
  let ?p = "takeWhile (\<lambda>y. v y \<le> v x) xs" and ?d = "dropWhile (\<lambda>y. v y \<le> v x) xs"
  have "x \<notin> set ?p" using x L by (auto dest: set_takeWhileD)
  then have "remove1 x (?p @ x # ?d) = ?p @ ?d" "takeWhile (\<lambda>y. y \<noteq> x) (?p @ x # ?d) = ?p"
    by (simp_all add: remove1_append, subst takeWhile_append2, auto)
  then show ?thesis unfolding L
    by (simp add: al_remove_def al_insert_def ins_at_def Let_def takeWhile_eq_take [symmetric]
        dropWhile_eq_drop [symmetric])
qed

text \<open>A store with the list 0, items 5 and 6 in list 0, for the witnesses.\<close>

definition blank_w :: "(nat, nat, nat) lstore" where
  "blank_w = \<lparr>nodes = (\<lambda>p. \<lparr>xItemValue = 0, pxNext = ListEnd 9, pxPrevious = ListEnd 9,
       pvOwner = (case p of ListEnd _ \<Rightarrow> 0 | Item i \<Rightarrow> 100 + i), pxContainer = None\<rparr>),
     lists = (\<lambda>_. \<lparr>uxNumberOfItems = 0, pxIndex = ListEnd 9\<rparr>)\<rparr>"

definition store_w :: "(nat, nat, nat) lstore" where
  "store_w = vListInsertEnd 0 6 (vListInsertEnd 0 5 (vListInitialise 0 blank_w))"

lemma store_w_klist: "klist 0 store_w ([5, 6], 0)" "pxContainer (nodes store_w (Item 7)) = None"
  "pvOwner (nodes store_w (Item i)) = 100 + i"
proof -
  let ?s = "vListInitialise 0 blank_w"
  have "pxContainer (nodes ?s (Item i)) = None" for i by (simp add: blank_w_def vListInitialise_def)
  with vListInsertEnd_klist [OF vListInitialise_klist [of 0 blank_w], of 5]
  have 1: "klist 0 (vListInsertEnd 0 5 ?s) ([5], 0)"
    "\<And>p. pxContainer (nodes (vListInsertEnd 0 5 ?s) p) = (if p = Item 5 then Some 0 else pxContainer (nodes ?s p))"
    "\<And>p. pvOwner (nodes (vListInsertEnd 0 5 ?s) p) = pvOwner (nodes ?s p)"
    by (auto simp: al_insert_end_def list_frame_def)
  with vListInsertEnd_klist [OF 1(1), of 6]
  show "klist 0 store_w ([5, 6], 0)" "pxContainer (nodes store_w (Item 7)) = None"
    "pvOwner (nodes store_w (Item i)) = 100 + i"
    by (auto simp: al_insert_end_def list_frame_def store_w_def vListInitialise_def blank_w_def)
qed

lemma store_w_lrel: "lrel {0} store_w ((\<lambda>_. ([], 0))(0 := ([5, 6], 0)))"
proof -
  have none: "pxContainer (nodes (vListInitialise 0 blank_w) (Item i)) = None" for i
    by (simp add: blank_w_def vListInitialise_def)
  have "lrel {} blank_w (\<lambda>_. ([], 0))" by (simp add: lrel_def blank_w_def)
  from vListInitialise_lrel [OF this, of 0]
  have r0: "lrel {0} (vListInitialise 0 blank_w) (\<lambda>_. ([], 0))" by (simp add: fun_upd_idem)
  have r1: "lrel {0} (vListInsertEnd 0 5 (vListInitialise 0 blank_w)) ((\<lambda>_. ([], 0))(0 := ([5], 0)))"
    using vListInsertEnd_lrel [OF r0 _ none, of 0 5] by (simp add: al_insert_end_def)
  have "list_frame 0 [] 5 (Some 0) (vListInitialise 0 blank_w) (vListInsertEnd 0 5 (vListInitialise 0 blank_w))"
    using vListInsertEnd_klist [OF vListInitialise_klist [of 0 blank_w] none, of 5] by simp
  then have "pxContainer (nodes (vListInsertEnd 0 5 (vListInitialise 0 blank_w)) (Item 6)) = None"
    using none by (simp add: list_frame_def)
  with vListInsertEnd_lrel [of "{0}" _ _ 0 6, OF r1] show ?thesis
    by (simp add: store_w_def al_insert_end_def)
qed

text \<open>C27: \<open>vListInsert\<close> of an item that is in no list returns (the search ends, also for the value
  \<^verbatim>\<open>portMAX_DELAY\<close> of the end marker), puts it behind every item whose value is not larger, and
  changes no other list; a list sorted by value stays sorted.\<close>

theorem vListInsert_sorted:
  assumes "lrel D st A" and "l \<in> D" and "pxContainer (nodes st (Item x)) = None"
    and "length (fst (A l)) + 1 < 2 ^ 32"
    and "sorted (map (\<lambda>y. listGET_LIST_ITEM_VALUE y st) (fst (A l)))"
  shows "\<exists>st'. vListInsert l x st = Some st' \<and>
    lrel D st' (A(l := al_insert (\<lambda>y. listGET_LIST_ITEM_VALUE y st) x (A l))) \<and>
    sorted (map (\<lambda>y. listGET_LIST_ITEM_VALUE y st')
      (fst (al_insert (\<lambda>y. listGET_LIST_ITEM_VALUE y st) x (A l))))"
proof -
  obtain st' where st': "vListInsert l x st = Some st'"
    "lrel D st' (A(l := al_insert (\<lambda>y. listGET_LIST_ITEM_VALUE y st) x (A l)))"
    "list_frame l (fst (A l)) x (Some l) st st'"
    using vListInsert_lrel [OF assms(1-4)] by blast
  then have "(\<lambda>y. listGET_LIST_ITEM_VALUE y st') = (\<lambda>y. listGET_LIST_ITEM_VALUE y st)"
    by (simp add: list_frame_def listGET_LIST_ITEM_VALUE_def)
  then show ?thesis using st' al_insert_sorted [OF assms(5), of x "snd (A l)"] by auto
qed

theorem vListInsert_sorted_witness:
  "\<exists>st'. vListInsert 0 7 store_w = Some st' \<and> lrel {0} st' ((\<lambda>_. ([], 0))(0 := ([5, 6, 7], 0)))"
proof -
  have v: "listGET_LIST_ITEM_VALUE y store_w = 0" for y
    by (simp add: listGET_LIST_ITEM_VALUE_def store_w_def vListInsertEnd_def vListInitialise_def
        Let_def set_next_def set_prev_def set_container_def blank_w_def)
  from vListInsert_sorted [OF store_w_lrel _ store_w_klist(2)] show ?thesis
    by (auto simp: v al_insert_def ins_at_def)
qed

text \<open>\<open>uxListRemove\<close> right after \<open>vListInsert\<close> restores every list of the store, with the
  position of its index, and returns the number of items left.\<close>

lemma insert_remove_roundtrip:
  assumes "lrel D st A" and "l \<in> D" and "pxContainer (nodes st (Item x)) = None"
    and "length (fst (A l)) + 1 < 2 ^ 32"
  shows "\<exists>st1 st2. vListInsert l x st = Some st1 \<and>
    uxListRemove x st1 = Some (w32 (length (fst (A l))), st2) \<and> lrel D st2 A"
proof -
  let ?L = "al_insert (\<lambda>y. listGET_LIST_ITEM_VALUE y st) x (A l)"
  obtain st1 where st1: "vListInsert l x st = Some st1" "lrel D st1 (A(l := ?L))"
    "list_frame l (fst (A l)) x (Some l) st st1"
    using vListInsert_lrel [OF assms(1-4)] by blast
  have "pxContainer (nodes st1 (Item x)) = Some l" using st1(3) by (simp add: list_frame_def)
  from uxListRemove_lrel [OF st1(2) this] obtain st2 where
    st2: "uxListRemove x st1 = Some (w32 (length (fst ?L) - 1), st2)" "lrel D st2 (A(l := al_remove x ?L))"
    by auto
  have "x \<notin> set (fst (A l))" using lrel_container [OF assms(1,2), of x] assms(3) by auto
  then have "al_remove x ?L = A l" by (rule al_remove_insert)
  moreover have "length (fst ?L) - 1 = length (fst (A l))"
    by (cases "A l") (simp add: al_insert_def ins_at_def Let_def length_takeWhile_le)
  ultimately show ?thesis using st1(1) st2 by auto
qed

lemma insert_remove_roundtrip_witness:
  "\<exists>st1 st2. vListInsert 0 7 store_w = Some st1 \<and> uxListRemove 7 st1 = Some (w32 2, st2)"
  using insert_remove_roundtrip [OF store_w_lrel _ store_w_klist(2), of 0]
  by (auto simp flip: numeral_2_eq_2)

text \<open>Round robin: as many calls of \<open>listGET_OWNER_OF_NEXT_ENTRY\<close> as the list has items
  return every owner once, in list order from the index on; and an item added by
  \<open>vListInsertEnd\<close> while the index stands on an item is returned behind all others but that
  one.\<close>

lemma round_robin:
  assumes "klist l st (xs, k)" and "xs \<noteq> []"
  shows "fst (iter_next (listGET_OWNER_OF_NEXT_ENTRY l) (length xs) st) =
      map (\<lambda>x. pvOwner (nodes st (Item x))) (rotate k xs) \<and>
    (0 < k \<and> pxContainer (nodes st (Item x)) = None \<and> length xs + 1 < 2 ^ 32 \<longrightarrow>
      fst (iter_next (listGET_OWNER_OF_NEXT_ENTRY l) (length xs + 1) (vListInsertEnd l x st)) =
      map (\<lambda>x. pvOwner (nodes st (Item x))) (drop k xs @ take (k - 1) xs @ [x, xs ! (k - 1)]))"
proof (cases k)
  case 0
  then show ?thesis using kl.full_round [OF assms] by simp
next
  case (Suc i)
  then show ?thesis using kl.full_round [OF assms] kl.added_order [of l st xs i x] assms(1) by simp
qed

lemma round_robin_witness:
  "fst (iter_next (listGET_OWNER_OF_NEXT_ENTRY 0) 2 store_w) = [105, 106]"
  using round_robin [OF store_w_klist(1)] by (simp add: store_w_klist(3) numeral_2_eq_2)

end
