(* ===== verification/Tasks.thy ===== *)
theory Tasks
  imports KListProps "HOL-Library.Monad_Syntax"
begin

text \<open>
  The scheduler, \<^verbatim>\<open>FreeRTOS-Kernel/tasks.c\<close>, in the configuration of the boards (preemption
  and time slicing, 7 priorities, generic task selection, mutexes, one notification per task, no
  tickless idle, no \<^verbatim>\<open>xTaskAbortDelay\<close>, no hooks).  Tasks are numbers; the two list items of a
  task are \<open>StateItem t\<close> and \<open>EventItem t\<close>, kept with all lists in one store of \<open>KList\<close>.
  \<open>None\<close> stands for a step that follows a null pointer or a walk that does not end.  A request
  for a context switch (\<^verbatim>\<open>portYIELD_WITHIN_API\<close>) is counted in \<open>yields\<close>; the switch itself is
  \<open>vTaskSwitchContext\<close>.  Stacks and the port are not modelled.
\<close>

subsection \<open>State\<close>

definition configMAX_PRIORITIES :: u32 where "configMAX_PRIORITIES = 7"

definition taskEVENT_LIST_ITEM_VALUE_IN_USE :: u32 where
  "taskEVENT_LIST_ITEM_VALUE_IN_USE = 0x80000000"

datatype notify_state = NOT_WAITING_NOTIFICATION | WAITING_NOTIFICATION | NOTIFICATION_RECEIVED

type_synonym task = nat

datatype klid = Ready u32 | DelayedTaskList1 | DelayedTaskList2 | PendingReady | Suspended
  | WaitingTermination | Event nat

datatype kitem = StateItem task | EventItem task

fun item_task :: "kitem \<Rightarrow> task" where
  "item_task (StateItem t) = t" | "item_task (EventItem t) = t"

record TCB_t =
  uxPriority :: u32
  uxBasePriority :: u32
  uxMutexesHeld :: u32
  uxTCBNumber :: u32
  ulNotifiedValue :: u32
  ucNotifyState :: notify_state

type_synonym klists = "(klid, kitem, task) lstore"

record ktask =
  ls :: klists
  tcb :: "task \<Rightarrow> TCB_t"
  pxCurrentTCB :: "task option"
  pxDelayedTaskList :: klid
  pxOverflowDelayedTaskList :: klid
  uxDeletedTasksWaitingCleanUp :: u32
  uxCurrentNumberOfTasks :: u32
  xTickCount :: u32
  uxTopReadyPriority :: u32
  xSchedulerRunning :: bool
  xPendedTicks :: u32
  xYieldPending :: bool
  xNumOfOverflows :: u32
  uxTaskNumber :: u32
  xNextTaskUnblockTime :: u32
  uxSchedulerSuspended :: u32
  yields :: nat

text \<open>Field assignments through a task pointer, and list operations on the store.\<close>

definition set_tcb :: "task \<Rightarrow> TCB_t \<Rightarrow> ktask \<Rightarrow> ktask" where
  "set_tcb t c st = st\<lparr>tcb := (tcb st)(t := c)\<rparr>"

definition set_priority :: "task \<Rightarrow> u32 \<Rightarrow> ktask \<Rightarrow> ktask" where
  "set_priority t p st = set_tcb t ((tcb st t)\<lparr>uxPriority := p\<rparr>) st"

definition on_lists :: "(klists \<Rightarrow> klists) \<Rightarrow> ktask \<Rightarrow> ktask" where
  "on_lists f st = st\<lparr>ls := f (ls st)\<rparr>"

definition list_remove :: "kitem \<Rightarrow> ktask \<Rightarrow> (u32 \<times> ktask) option" where
  "list_remove i st = map_option (\<lambda>(n, s). (n, st\<lparr>ls := s\<rparr>)) (uxListRemove i (ls st))"

definition list_insert :: "klid \<Rightarrow> kitem \<Rightarrow> ktask \<Rightarrow> ktask option" where
  "list_insert l i st = map_option (\<lambda>s. st\<lparr>ls := s\<rparr>) (vListInsert l i (ls st))"

definition container :: "kitem \<Rightarrow> ktask \<Rightarrow> klid option" where
  "container i st = pxContainer (nodes (ls st) (Item i))"

definition taskYIELD_IF_USING_PREEMPTION :: "ktask \<Rightarrow> ktask" where
  "taskYIELD_IF_USING_PREEMPTION st = st\<lparr>yields := yields st + 1\<rparr>"

definition prvGetTCBFromHandle :: "task option \<Rightarrow> ktask \<Rightarrow> task option" where
  "prvGetTCBFromHandle h st = (case h of None \<Rightarrow> pxCurrentTCB st | Some t \<Rightarrow> Some t)"

subsection \<open>Ready lists\<close>

definition taskRECORD_READY_PRIORITY :: "u32 \<Rightarrow> ktask \<Rightarrow> ktask" where
  "taskRECORD_READY_PRIORITY p st =
     (if p > uxTopReadyPriority st then st\<lparr>uxTopReadyPriority := p\<rparr> else st)"

definition prvAddTaskToReadyList :: "task \<Rightarrow> ktask \<Rightarrow> ktask" where
  "prvAddTaskToReadyList t st =
     (let st1 = taskRECORD_READY_PRIORITY (uxPriority (tcb st t)) st
      in on_lists (vListInsertEnd (Ready (uxPriority (tcb st1 t))) (StateItem t)) st1)"

text \<open>The downward search of \<^verbatim>\<open>taskSELECT_HIGHEST_PRIORITY_TASK\<close>; with every ready list empty it
  does not end, which \<open>fuel\<close> cuts off after the 7 lists.\<close>

fun select_priority :: "nat \<Rightarrow> klists \<Rightarrow> u32 \<Rightarrow> u32 option" where
  "select_priority 0 s p = None"
| "select_priority (Suc fuel) s p =
     (if listLIST_IS_EMPTY (Ready p) s then select_priority fuel s (p - 1) else Some p)"

definition taskSELECT_HIGHEST_PRIORITY_TASK :: "ktask \<Rightarrow> ktask option" where
  "taskSELECT_HIGHEST_PRIORITY_TASK st =
     do {
       uxTopPriority \<leftarrow> select_priority 7 (ls st) (uxTopReadyPriority st);
       let (t, s) = listGET_OWNER_OF_NEXT_ENTRY (Ready uxTopPriority) (ls st);
       Some (st\<lparr>ls := s, pxCurrentTCB := Some t, uxTopReadyPriority := uxTopPriority\<rparr>)
     }"

definition vTaskSwitchContext :: "ktask \<Rightarrow> ktask option" where
  "vTaskSwitchContext st =
     (if uxSchedulerSuspended st \<noteq> 0 then Some (st\<lparr>xYieldPending := True\<rparr>)
      else taskSELECT_HIGHEST_PRIORITY_TASK (st\<lparr>xYieldPending := False\<rparr>))"

subsection \<open>The tick\<close>

definition prvResetNextTaskUnblockTime :: "ktask \<Rightarrow> ktask" where
  "prvResetNextTaskUnblockTime st =
     (if listLIST_IS_EMPTY (pxDelayedTaskList st) (ls st)
      then st\<lparr>xNextTaskUnblockTime := portMAX_DELAY\<rparr>
      else st\<lparr>xNextTaskUnblockTime := listGET_ITEM_VALUE_OF_HEAD_ENTRY (pxDelayedTaskList st) (ls st)\<rparr>)"

definition taskSWITCH_DELAYED_LISTS :: "ktask \<Rightarrow> ktask" where
  "taskSWITCH_DELAYED_LISTS st =
     prvResetNextTaskUnblockTime
       (st\<lparr>pxDelayedTaskList := pxOverflowDelayedTaskList st,
           pxOverflowDelayedTaskList := pxDelayedTaskList st,
           xNumOfOverflows := xNumOfOverflows st + 1\<rparr>)"

text \<open>Taking the task \<open>t\<close> out of the delayed list and off the event it waits for.\<close>

definition tick_unblock :: "task \<Rightarrow> ktask \<Rightarrow> ktask option" where
  "tick_unblock t st =
     do {
       (_, st1) \<leftarrow> list_remove (StateItem t) st;
       st2 \<leftarrow> (if container (EventItem t) st1 \<noteq> None
               then map_option snd (list_remove (EventItem t) st1) else Some st1);
       Some (prvAddTaskToReadyList t st2)
     }"

text \<open>The loop \<^verbatim>\<open>for( ; ; )\<close> of \<^verbatim>\<open>xTaskIncrementTick\<close>, with the flag \<^verbatim>\<open>xSwitchRequired\<close>.\<close>

partial_function (option) tick_loop :: "u32 \<Rightarrow> bool \<Rightarrow> ktask \<Rightarrow> (bool \<times> ktask) option" where
  "tick_loop now switch st =
     (if listLIST_IS_EMPTY (pxDelayedTaskList st) (ls st)
      then Some (switch, st\<lparr>xNextTaskUnblockTime := portMAX_DELAY\<rparr>)
      else
        let t = listGET_OWNER_OF_HEAD_ENTRY (pxDelayedTaskList st) (ls st);
            xItemValue = listGET_LIST_ITEM_VALUE (StateItem t) (ls st)
        in if now < xItemValue then Some (switch, st\<lparr>xNextTaskUnblockTime := xItemValue\<rparr>)
           else
             do {
               st1 \<leftarrow> tick_unblock t st;
               cur \<leftarrow> pxCurrentTCB st1;
               tick_loop now (if uxPriority (tcb st1 t) > uxPriority (tcb st1 cur) then True else switch) st1
             })"

definition xTaskIncrementTick :: "ktask \<Rightarrow> (bool \<times> ktask) option" where
  "xTaskIncrementTick st =
     (if uxSchedulerSuspended st = 0 then
        do {
          let xConstTickCount = xTickCount st + 1;
          let st1 = st\<lparr>xTickCount := xConstTickCount\<rparr>;
          let st2 = (if xConstTickCount = 0 then taskSWITCH_DELAYED_LISTS st1 else st1);
          (switch, st3) \<leftarrow> (if xConstTickCount \<ge> xNextTaskUnblockTime st2
                            then tick_loop xConstTickCount False st2 else Some (False, st2));
          cur \<leftarrow> pxCurrentTCB st3;
          let slice = listCURRENT_LIST_LENGTH (Ready (uxPriority (tcb st3 cur))) (ls st3) > 1;
          Some (switch \<or> slice \<or> xYieldPending st3, st3)
        }
      else Some (False, st\<lparr>xPendedTicks := xPendedTicks st + 1\<rparr>))"

subsection \<open>Suspending the scheduler\<close>

definition vTaskSuspendAll :: "ktask \<Rightarrow> ktask" where
  "vTaskSuspendAll st = st\<lparr>uxSchedulerSuspended := uxSchedulerSuspended st + 1\<rparr>"

text \<open>The loop over \<^verbatim>\<open>xPendingReadyList\<close>; the flag says whether \<^verbatim>\<open>pxTCB\<close> is set.\<close>

partial_function (option) resume_pending :: "bool \<Rightarrow> ktask \<Rightarrow> (bool \<times> ktask) option" where
  "resume_pending moved st =
     (if listLIST_IS_EMPTY PendingReady (ls st) then Some (moved, st)
      else
        do {
          let t = listGET_OWNER_OF_HEAD_ENTRY PendingReady (ls st);
          (_, st1) \<leftarrow> list_remove (EventItem t) st;
          (_, st2) \<leftarrow> list_remove (StateItem t) st1;
          let st3 = prvAddTaskToReadyList t st2;
          cur \<leftarrow> pxCurrentTCB st3;
          let st4 = (if uxPriority (tcb st3 t) \<ge> uxPriority (tcb st3 cur)
                     then st3\<lparr>xYieldPending := True\<rparr> else st3);
          resume_pending True st4
        })"

text \<open>The ticks that were held back, one after the other.\<close>

fun pended_ticks :: "nat \<Rightarrow> ktask \<Rightarrow> ktask option" where
  "pended_ticks 0 st = Some st"
| "pended_ticks (Suc n) st =
     do {
       (switch, st1) \<leftarrow> xTaskIncrementTick st;
       pended_ticks n (if switch then st1\<lparr>xYieldPending := True\<rparr> else st1)
     }"

definition xTaskResumeAll :: "ktask \<Rightarrow> (bool \<times> ktask) option" where
  "xTaskResumeAll st0 =
     (let st = st0\<lparr>uxSchedulerSuspended := uxSchedulerSuspended st0 - 1\<rparr> in
      if uxSchedulerSuspended st = 0 then
        if uxCurrentNumberOfTasks st > 0 then
          do {
            (moved, st1) \<leftarrow> resume_pending False st;
            let st2 = (if moved then prvResetNextTaskUnblockTime st1 else st1);
            let xPendedCounts = xPendedTicks st2;
            st3 \<leftarrow> (if xPendedCounts > 0
                    then map_option (\<lambda>s. s\<lparr>xPendedTicks := 0\<rparr>) (pended_ticks (unat xPendedCounts) st2)
                    else Some st2);
            if xYieldPending st3 then Some (True, taskYIELD_IF_USING_PREEMPTION st3)
            else Some (False, st3)
          }
        else Some (False, st)
      else Some (False, st))"

definition xTaskCatchUpTicks :: "u32 \<Rightarrow> ktask \<Rightarrow> (bool \<times> ktask) option" where
  "xTaskCatchUpTicks n st =
     (let st1 = vTaskSuspendAll st
      in xTaskResumeAll (st1\<lparr>xPendedTicks := xPendedTicks st1 + n\<rparr>))"

subsection \<open>Delays\<close>

definition prvAddCurrentTaskToDelayedList :: "u32 \<Rightarrow> bool \<Rightarrow> ktask \<Rightarrow> ktask option" where
  "prvAddCurrentTaskToDelayedList xTicksToWait xCanBlockIndefinitely st =
     do {
       let xConstTickCount = xTickCount st;
       cur \<leftarrow> pxCurrentTCB st;
       (_, st1) \<leftarrow> list_remove (StateItem cur) st;
       if xTicksToWait = portMAX_DELAY \<and> xCanBlockIndefinitely
       then Some (on_lists (vListInsertEnd Suspended (StateItem cur)) st1)
       else
         do {
           let xTimeToWake = xConstTickCount + xTicksToWait;
           let st2 = on_lists (listSET_LIST_ITEM_VALUE (StateItem cur) xTimeToWake) st1;
           if xTimeToWake < xConstTickCount
           then list_insert (pxOverflowDelayedTaskList st2) (StateItem cur) st2
           else
             do {
               st3 \<leftarrow> list_insert (pxDelayedTaskList st2) (StateItem cur) st2;
               Some (if xTimeToWake < xNextTaskUnblockTime st3
                     then st3\<lparr>xNextTaskUnblockTime := xTimeToWake\<rparr> else st3)
             }
         }
     }"

definition vTaskDelay :: "u32 \<Rightarrow> ktask \<Rightarrow> ktask option" where
  "vTaskDelay xTicksToDelay st =
     do {
       (xAlreadyYielded, st1) \<leftarrow>
         (if xTicksToDelay > 0
          then do { s \<leftarrow> prvAddCurrentTaskToDelayedList xTicksToDelay False (vTaskSuspendAll st);
                    xTaskResumeAll s }
          else Some (False, st));
       Some (if xAlreadyYielded then st1 else taskYIELD_IF_USING_PREEMPTION st1)
     }"

definition delay_until_due :: "u32 \<Rightarrow> u32 \<Rightarrow> u32 \<Rightarrow> bool" where
  "delay_until_due xConstTickCount prev xTimeToWake =
     (if xConstTickCount < prev
      then xTimeToWake < prev \<and> xTimeToWake > xConstTickCount
      else xTimeToWake < prev \<or> xTimeToWake > xConstTickCount)"

text \<open>The result is \<^verbatim>\<open>xShouldDelay\<close> with the new \<^verbatim>\<open>*pxPreviousWakeTime\<close>.\<close>

definition xTaskDelayUntil :: "u32 \<Rightarrow> u32 \<Rightarrow> ktask \<Rightarrow> (bool \<times> u32 \<times> ktask) option" where
  "xTaskDelayUntil prev xTimeIncrement st0 =
     do {
       let st = vTaskSuspendAll st0;
       let xConstTickCount = xTickCount st;
       let xTimeToWake = prev + xTimeIncrement;
       let xShouldDelay = delay_until_due xConstTickCount prev xTimeToWake;
       st1 \<leftarrow> (if xShouldDelay
               then prvAddCurrentTaskToDelayedList (xTimeToWake - xConstTickCount) False st
               else Some st);
       (xAlreadyYielded, st2) \<leftarrow> xTaskResumeAll st1;
       Some (xShouldDelay, xTimeToWake, if xAlreadyYielded then st2 else taskYIELD_IF_USING_PREEMPTION st2)
     }"

record TimeOut_t =
  xOverflowCount :: u32
  xTimeOnEntering :: u32

definition vTaskInternalSetTimeOutState :: "ktask \<Rightarrow> TimeOut_t" where
  "vTaskInternalSetTimeOutState st = \<lparr>xOverflowCount = xNumOfOverflows st, xTimeOnEntering = xTickCount st\<rparr>"

definition vTaskSetTimeOutState :: "ktask \<Rightarrow> TimeOut_t" where
  "vTaskSetTimeOutState st = \<lparr>xOverflowCount = xNumOfOverflows st, xTimeOnEntering = xTickCount st\<rparr>"

text \<open>The result: timed out, the new \<^verbatim>\<open>*pxTimeOut\<close>, the new \<^verbatim>\<open>*pxTicksToWait\<close>.\<close>

definition xTaskCheckForTimeOut :: "TimeOut_t \<Rightarrow> u32 \<Rightarrow> ktask \<Rightarrow> bool \<times> TimeOut_t \<times> u32" where
  "xTaskCheckForTimeOut pxTimeOut ticks st =
     (let xConstTickCount = xTickCount st;
          xElapsedTime = xConstTickCount - xTimeOnEntering pxTimeOut
      in if ticks = portMAX_DELAY then (False, pxTimeOut, ticks)
         else if xNumOfOverflows st \<noteq> xOverflowCount pxTimeOut \<and> xConstTickCount \<ge> xTimeOnEntering pxTimeOut
         then (True, pxTimeOut, 0)
         else if xElapsedTime < ticks
         then (False, vTaskInternalSetTimeOutState st, ticks - xElapsedTime)
         else (True, pxTimeOut, 0))"

subsection \<open>Event lists\<close>

definition vTaskPlaceOnEventList :: "klid \<Rightarrow> u32 \<Rightarrow> ktask \<Rightarrow> ktask option" where
  "vTaskPlaceOnEventList pxEventList xTicksToWait st =
     do {
       cur \<leftarrow> pxCurrentTCB st;
       st1 \<leftarrow> list_insert pxEventList (EventItem cur) st;
       prvAddCurrentTaskToDelayedList xTicksToWait True st1
     }"

definition vTaskPlaceOnUnorderedEventList :: "klid \<Rightarrow> u32 \<Rightarrow> u32 \<Rightarrow> ktask \<Rightarrow> ktask option" where
  "vTaskPlaceOnUnorderedEventList pxEventList v xTicksToWait st =
     do {
       cur \<leftarrow> pxCurrentTCB st;
       let st1 = on_lists (listSET_LIST_ITEM_VALUE (EventItem cur)
                   (v OR taskEVENT_LIST_ITEM_VALUE_IN_USE)) st;
       let st2 = on_lists (vListInsertEnd pxEventList (EventItem cur)) st1;
       prvAddCurrentTaskToDelayedList xTicksToWait True st2
     }"

definition vTaskPlaceOnEventListRestricted :: "klid \<Rightarrow> u32 \<Rightarrow> bool \<Rightarrow> ktask \<Rightarrow> ktask option" where
  "vTaskPlaceOnEventListRestricted pxEventList xTicksToWait xWaitIndefinitely st =
     do {
       cur \<leftarrow> pxCurrentTCB st;
       let st1 = on_lists (vListInsertEnd pxEventList (EventItem cur)) st;
       prvAddCurrentTaskToDelayedList (if xWaitIndefinitely then portMAX_DELAY else xTicksToWait)
         xWaitIndefinitely st1
     }"

definition xTaskRemoveFromEventList :: "klid \<Rightarrow> ktask \<Rightarrow> (bool \<times> ktask) option" where
  "xTaskRemoveFromEventList pxEventList st =
     do {
       let t = listGET_OWNER_OF_HEAD_ENTRY pxEventList (ls st);
       (_, st1) \<leftarrow> list_remove (EventItem t) st;
       st2 \<leftarrow> (if uxSchedulerSuspended st1 = 0
               then do { (_, s) \<leftarrow> list_remove (StateItem t) st1; Some (prvAddTaskToReadyList t s) }
               else Some (on_lists (vListInsertEnd PendingReady (EventItem t)) st1));
       cur \<leftarrow> pxCurrentTCB st2;
       Some (if uxPriority (tcb st2 t) > uxPriority (tcb st2 cur)
             then (True, st2\<lparr>xYieldPending := True\<rparr>) else (False, st2))
     }"

definition vTaskRemoveFromUnorderedEventList :: "kitem \<Rightarrow> u32 \<Rightarrow> ktask \<Rightarrow> ktask option" where
  "vTaskRemoveFromUnorderedEventList pxEventListItem v st =
     do {
       let st1 = on_lists (listSET_LIST_ITEM_VALUE pxEventListItem
                   (v OR taskEVENT_LIST_ITEM_VALUE_IN_USE)) st;
       let t = pvOwner (nodes (ls st1) (Item pxEventListItem));
       (_, st2) \<leftarrow> list_remove pxEventListItem st1;
       (_, st3) \<leftarrow> list_remove (StateItem t) st2;
       let st4 = prvAddTaskToReadyList t st3;
       cur \<leftarrow> pxCurrentTCB st4;
       Some (if uxPriority (tcb st4 t) > uxPriority (tcb st4 cur) then st4\<lparr>xYieldPending := True\<rparr> else st4)
     }"

definition vTaskMissedYield :: "ktask \<Rightarrow> ktask" where
  "vTaskMissedYield st = st\<lparr>xYieldPending := True\<rparr>"

definition uxTaskResetEventItemValue :: "ktask \<Rightarrow> (u32 \<times> ktask) option" where
  "uxTaskResetEventItemValue st =
     do {
       cur \<leftarrow> pxCurrentTCB st;
       let uxReturn = listGET_LIST_ITEM_VALUE (EventItem cur) (ls st);
       Some (uxReturn, on_lists (listSET_LIST_ITEM_VALUE (EventItem cur)
               (configMAX_PRIORITIES - uxPriority (tcb st cur))) st)
     }"

end
