(* ===== verification/TaskApi.thy ===== *)
theory TaskApi
  imports Tasks
begin

text \<open>
  The task control functions of \<^verbatim>\<open>tasks.c\<close> on the state of \<open>Tasks\<close>: creation and deletion,
  priorities, suspension, state queries, priority inheritance and notifications.
\<close>

subsection \<open>Creation and deletion\<close>

definition prvInitialiseTaskLists :: "ktask \<Rightarrow> ktask" where
  "prvInitialiseTaskLists st =
     (let s0 = fold (\<lambda>p. vListInitialise (Ready (of_nat p))) [0..<unat configMAX_PRIORITIES] (ls st);
          s1 = vListInitialise DelayedTaskList1 s0;
          s2 = vListInitialise DelayedTaskList2 s1;
          s3 = vListInitialise PendingReady s2;
          s4 = vListInitialise WaitingTermination s3;
          s5 = vListInitialise Suspended s4
      in st\<lparr>ls := s5, pxDelayedTaskList := DelayedTaskList1,
            pxOverflowDelayedTaskList := DelayedTaskList2\<rparr>)"

text \<open>The fields of the control block that do not concern the stack or the name.  The block was
  zeroed by \<^verbatim>\<open>xTaskCreate\<close>.\<close>

definition prvInitialiseNewTask :: "task \<Rightarrow> u32 \<Rightarrow> ktask \<Rightarrow> ktask" where
  "prvInitialiseNewTask t prio st =
     (let p = (if prio \<ge> configMAX_PRIORITIES then configMAX_PRIORITIES - 1 else prio);
          st1 = set_tcb t \<lparr>uxPriority = p, uxBasePriority = p, uxMutexesHeld = 0, uxTCBNumber = 0,
                           ulNotifiedValue = 0, ucNotifyState = NOT_WAITING_NOTIFICATION\<rparr> st;
          s1 = vListInitialiseItem (StateItem t) (ls st1);
          s2 = vListInitialiseItem (EventItem t) s1;
          s3 = listSET_LIST_ITEM_OWNER (StateItem t) t s2;
          s4 = listSET_LIST_ITEM_VALUE (EventItem t) (configMAX_PRIORITIES - p) s3;
          s5 = listSET_LIST_ITEM_OWNER (EventItem t) t s4
      in st1\<lparr>ls := s5\<rparr>)"

definition prvAddNewTaskToReadyList :: "task \<Rightarrow> ktask \<Rightarrow> ktask" where
  "prvAddNewTaskToReadyList t st =
     (let st1 = st\<lparr>uxCurrentNumberOfTasks := uxCurrentNumberOfTasks st + 1\<rparr>;
          st2 = (case pxCurrentTCB st1 of
                   None \<Rightarrow>
                     (let s = st1\<lparr>pxCurrentTCB := Some t\<rparr>
                      in if uxCurrentNumberOfTasks s = 1 then prvInitialiseTaskLists s else s)
                 | Some cur \<Rightarrow>
                     if \<not> xSchedulerRunning st1 \<and> uxPriority (tcb st1 cur) \<le> uxPriority (tcb st1 t)
                     then st1\<lparr>pxCurrentTCB := Some t\<rparr> else st1);
          st3 = st2\<lparr>uxTaskNumber := uxTaskNumber st2 + 1\<rparr>;
          st4 = set_tcb t ((tcb st3 t)\<lparr>uxTCBNumber := uxTaskNumber st3\<rparr>) st3;
          st5 = prvAddTaskToReadyList t st4
      in case pxCurrentTCB st5 of
           None \<Rightarrow> st5
         | Some cur \<Rightarrow>
             if xSchedulerRunning st5 \<and> uxPriority (tcb st5 cur) < uxPriority (tcb st5 t)
             then taskYIELD_IF_USING_PREEMPTION st5 else st5)"

text \<open>\<^verbatim>\<open>xTaskCreate\<close>; the two booleans say whether the stack and the control block could be
  allocated.  The result is whether the task was created.\<close>

definition xTaskCreate :: "task \<Rightarrow> u32 \<Rightarrow> bool \<Rightarrow> bool \<Rightarrow> ktask \<Rightarrow> bool \<times> ktask" where
  "xTaskCreate t prio pxStack pxNewTCB st =
     (if pxStack \<and> pxNewTCB
      then (True, prvAddNewTaskToReadyList t (prvInitialiseNewTask t prio st))
      else (False, st))"

text \<open>Deleting a task; the boolean says whether its memory is released at once
  (\<^verbatim>\<open>prvDeleteTCB\<close>).\<close>

definition vTaskDelete :: "task option \<Rightarrow> ktask \<Rightarrow> (bool \<times> ktask) option" where
  "vTaskDelete h st =
     do {
       t \<leftarrow> prvGetTCBFromHandle h st;
       (_, st1) \<leftarrow> list_remove (StateItem t) st;
       st2 \<leftarrow> (if container (EventItem t) st1 \<noteq> None
               then map_option snd (list_remove (EventItem t) st1) else Some st1);
       let st3 = st2\<lparr>uxTaskNumber := uxTaskNumber st2 + 1\<rparr>;
       let own = (Some t = pxCurrentTCB st3);
       let st4 = (if own
                  then (on_lists (vListInsertEnd WaitingTermination (StateItem t)) st3)
                         \<lparr>uxDeletedTasksWaitingCleanUp := uxDeletedTasksWaitingCleanUp st3 + 1\<rparr>
                  else prvResetNextTaskUnblockTime
                         (st3\<lparr>uxCurrentNumberOfTasks := uxCurrentNumberOfTasks st3 - 1\<rparr>));
       Some (\<not> own, if xSchedulerRunning st4 \<and> own then taskYIELD_IF_USING_PREEMPTION st4 else st4)
     }"

text \<open>The idle task's clean-up; the list holds the tasks whose memory is released, in order.\<close>

fun check_waiting_termination :: "nat \<Rightarrow> ktask \<Rightarrow> (task list \<times> ktask) option" where
  "check_waiting_termination 0 st = Some ([], st)"
| "check_waiting_termination (Suc n) st =
     do {
       let t = listGET_OWNER_OF_HEAD_ENTRY WaitingTermination (ls st);
       (_, st1) \<leftarrow> list_remove (StateItem t) st;
       (ts, st2) \<leftarrow> check_waiting_termination n
         (st1\<lparr>uxCurrentNumberOfTasks := uxCurrentNumberOfTasks st1 - 1,
              uxDeletedTasksWaitingCleanUp := uxDeletedTasksWaitingCleanUp st1 - 1\<rparr>);
       Some (t # ts, st2)
     }"

definition prvCheckTasksWaitingTermination :: "ktask \<Rightarrow> (task list \<times> ktask) option" where
  "prvCheckTasksWaitingTermination st =
     check_waiting_termination (unat (uxDeletedTasksWaitingCleanUp st)) st"

subsection \<open>Priorities\<close>

definition uxTaskPriorityGet :: "task option \<Rightarrow> ktask \<Rightarrow> u32 option" where
  "uxTaskPriorityGet h st = map_option (\<lambda>t. uxPriority (tcb st t)) (prvGetTCBFromHandle h st)"

text \<open>Moving a ready task to the list of its new priority, used four times in the file.\<close>

definition requeue_if_ready :: "u32 \<Rightarrow> task \<Rightarrow> ktask \<Rightarrow> ktask option" where
  "requeue_if_ready p t st =
     (if listIS_CONTAINED_WITHIN (Ready p) (StateItem t) (ls st)
      then do { (_, st1) \<leftarrow> list_remove (StateItem t) st; Some (prvAddTaskToReadyList t st1) }
      else Some st)"

definition set_event_priority :: "task \<Rightarrow> u32 \<Rightarrow> ktask \<Rightarrow> ktask" where
  "set_event_priority t p st =
     (if listGET_LIST_ITEM_VALUE (EventItem t) (ls st) AND taskEVENT_LIST_ITEM_VALUE_IN_USE = 0
      then on_lists (listSET_LIST_ITEM_VALUE (EventItem t) (configMAX_PRIORITIES - p)) st else st)"

definition vTaskPrioritySet :: "task option \<Rightarrow> u32 \<Rightarrow> ktask \<Rightarrow> ktask option" where
  "vTaskPrioritySet h prio st =
     do {
       let uxNewPriority = (if prio \<ge> configMAX_PRIORITIES then configMAX_PRIORITIES - 1 else prio);
       t \<leftarrow> prvGetTCBFromHandle h st;
       cur \<leftarrow> pxCurrentTCB st;
       let uxCurrentBasePriority = uxBasePriority (tcb st t);
       if uxCurrentBasePriority \<noteq> uxNewPriority then
         do {
           let xYieldRequired =
             (if uxNewPriority > uxCurrentBasePriority
              then t \<noteq> cur \<and> uxNewPriority \<ge> uxPriority (tcb st cur)
              else t = cur);
           let uxPriorityUsedOnEntry = uxPriority (tcb st t);
           let st1 = (if uxBasePriority (tcb st t) = uxPriority (tcb st t)
                      then set_priority t uxNewPriority st else st);
           let st2 = set_tcb t ((tcb st1 t)\<lparr>uxBasePriority := uxNewPriority\<rparr>) st1;
           let st3 = set_event_priority t uxNewPriority st2;
           st4 \<leftarrow> requeue_if_ready uxPriorityUsedOnEntry t st3;
           Some (if xYieldRequired then taskYIELD_IF_USING_PREEMPTION st4 else st4)
         }
       else Some st
     }"

subsection \<open>Suspend and resume\<close>

definition vTaskSuspend :: "task option \<Rightarrow> ktask \<Rightarrow> ktask option" where
  "vTaskSuspend h st =
     do {
       t \<leftarrow> prvGetTCBFromHandle h st;
       (_, st1) \<leftarrow> list_remove (StateItem t) st;
       st2 \<leftarrow> (if container (EventItem t) st1 \<noteq> None
               then map_option snd (list_remove (EventItem t) st1) else Some st1);
       let st3 = on_lists (vListInsertEnd Suspended (StateItem t)) st2;
       let st4 = (if ucNotifyState (tcb st3 t) = WAITING_NOTIFICATION
                  then set_tcb t ((tcb st3 t)\<lparr>ucNotifyState := NOT_WAITING_NOTIFICATION\<rparr>) st3 else st3);
       let st5 = (if xSchedulerRunning st4 then prvResetNextTaskUnblockTime st4 else st4);
       if Some t = pxCurrentTCB st5 then
         if xSchedulerRunning st5 then Some (taskYIELD_IF_USING_PREEMPTION st5)
         else if listCURRENT_LIST_LENGTH Suspended (ls st5) = uxCurrentNumberOfTasks st5
         then Some (st5\<lparr>pxCurrentTCB := None\<rparr>)
         else vTaskSwitchContext st5
       else Some st5
     }"

definition prvTaskIsTaskSuspended :: "task \<Rightarrow> ktask \<Rightarrow> bool" where
  "prvTaskIsTaskSuspended t st =
     (listIS_CONTAINED_WITHIN Suspended (StateItem t) (ls st) \<and>
      \<not> listIS_CONTAINED_WITHIN PendingReady (EventItem t) (ls st) \<and>
      container (EventItem t) st = None)"

definition vTaskResume :: "task \<Rightarrow> ktask \<Rightarrow> ktask option" where
  "vTaskResume t st =
     (if Some t \<noteq> pxCurrentTCB st \<and> prvTaskIsTaskSuspended t st then
        do {
          (_, st1) \<leftarrow> list_remove (StateItem t) st;
          let st2 = prvAddTaskToReadyList t st1;
          cur \<leftarrow> pxCurrentTCB st2;
          Some (if uxPriority (tcb st2 t) \<ge> uxPriority (tcb st2 cur)
                then taskYIELD_IF_USING_PREEMPTION st2 else st2)
        }
      else Some st)"

definition xTaskResumeFromISR :: "task \<Rightarrow> ktask \<Rightarrow> (bool \<times> ktask) option" where
  "xTaskResumeFromISR t st =
     (if prvTaskIsTaskSuspended t st then
        if uxSchedulerSuspended st = 0 then
          do {
            cur \<leftarrow> pxCurrentTCB st;
            let xYieldRequired = (uxPriority (tcb st t) \<ge> uxPriority (tcb st cur));
            let st1 = (if xYieldRequired then st\<lparr>xYieldPending := True\<rparr> else st);
            (_, st2) \<leftarrow> list_remove (StateItem t) st1;
            Some (xYieldRequired, prvAddTaskToReadyList t st2)
          }
        else Some (False, on_lists (vListInsertEnd PendingReady (EventItem t)) st)
      else Some (False, st))"

datatype eTaskState = eRunning | eReady | eBlocked | eSuspended | eDeleted

definition eTaskGetState :: "task \<Rightarrow> ktask \<Rightarrow> eTaskState" where
  "eTaskGetState t st =
     (if Some t = pxCurrentTCB st then eRunning
      else
        let pxStateList = container (StateItem t) st in
        if pxStateList = Some (pxDelayedTaskList st) \<or> pxStateList = Some (pxOverflowDelayedTaskList st)
        then eBlocked
        else if pxStateList = Some Suspended
        then (if container (EventItem t) st = None
              then (if ucNotifyState (tcb st t) = WAITING_NOTIFICATION then eBlocked else eSuspended)
              else eBlocked)
        else if pxStateList = Some WaitingTermination \<or> pxStateList = None then eDeleted
        else eReady)"

datatype scheduler_state = taskSCHEDULER_NOT_STARTED | taskSCHEDULER_RUNNING | taskSCHEDULER_SUSPENDED

definition xTaskGetSchedulerState :: "ktask \<Rightarrow> scheduler_state" where
  "xTaskGetSchedulerState st =
     (if \<not> xSchedulerRunning st then taskSCHEDULER_NOT_STARTED
      else if uxSchedulerSuspended st = 0 then taskSCHEDULER_RUNNING else taskSCHEDULER_SUSPENDED)"

definition xTaskGetTickCount :: "ktask \<Rightarrow> u32" where "xTaskGetTickCount st = xTickCount st"

definition uxTaskGetNumberOfTasks :: "ktask \<Rightarrow> u32" where
  "uxTaskGetNumberOfTasks st = uxCurrentNumberOfTasks st"

text \<open>Starting: the idle task is created, then the timer service (\<open>timers\<close> stands for
  \<^verbatim>\<open>xTimerCreateTimerTask\<close>), and the clock starts.  The result is whether both exist.\<close>

definition vTaskStartScheduler ::
  "task \<Rightarrow> bool \<Rightarrow> bool \<Rightarrow> (ktask \<Rightarrow> bool \<times> ktask) \<Rightarrow> ktask \<Rightarrow> bool \<times> ktask" where
  "vTaskStartScheduler idle pxStack pxNewTCB timers st =
     (let (r1, st1) = xTaskCreate idle 0 pxStack pxNewTCB st;
          (r2, st2) = (if r1 then timers st1 else (False, st1))
      in if r2
         then (True, st2\<lparr>xNextTaskUnblockTime := portMAX_DELAY, xSchedulerRunning := True, xTickCount := 0\<rparr>)
         else (False, st2))"

definition vTaskEndScheduler :: "ktask \<Rightarrow> ktask" where
  "vTaskEndScheduler st = st\<lparr>xSchedulerRunning := False\<rparr>"

subsection \<open>Priority inheritance\<close>

definition pvTaskIncrementMutexHeldCount :: "ktask \<Rightarrow> task option \<times> ktask" where
  "pvTaskIncrementMutexHeldCount st =
     (case pxCurrentTCB st of
        None \<Rightarrow> (None, st)
      | Some cur \<Rightarrow> (Some cur, set_tcb cur ((tcb st cur)\<lparr>uxMutexesHeld := uxMutexesHeld (tcb st cur) + 1\<rparr>) st))"

definition xTaskPriorityInherit :: "task option \<Rightarrow> ktask \<Rightarrow> (bool \<times> ktask) option" where
  "xTaskPriorityInherit pxMutexHolder st =
     (case pxMutexHolder of
        None \<Rightarrow> Some (False, st)
      | Some h \<Rightarrow>
          do {
            cur \<leftarrow> pxCurrentTCB st;
            let top = uxPriority (tcb st cur);
            if uxPriority (tcb st h) < top then
              do {
                let st1 = set_event_priority h top st;
                let p = uxPriority (tcb st1 h);
                st2 \<leftarrow> (if listIS_CONTAINED_WITHIN (Ready p) (StateItem h) (ls st1)
                        then do { (_, s) \<leftarrow> list_remove (StateItem h) st1;
                                  Some (prvAddTaskToReadyList h (set_priority h top s)) }
                        else Some (set_priority h top st1));
                Some (True, st2)
              }
            else Some (uxBasePriority (tcb st h) < top, st)
          })"

definition xTaskPriorityDisinherit :: "task option \<Rightarrow> ktask \<Rightarrow> (bool \<times> ktask) option" where
  "xTaskPriorityDisinherit pxMutexHolder st0 =
     (case pxMutexHolder of
        None \<Rightarrow> Some (False, st0)
      | Some t \<Rightarrow>
          let st = set_tcb t ((tcb st0 t)\<lparr>uxMutexesHeld := uxMutexesHeld (tcb st0 t) - 1\<rparr>) st0 in
          if uxPriority (tcb st t) \<noteq> uxBasePriority (tcb st t) \<and> uxMutexesHeld (tcb st t) = 0 then
            do {
              (_, st1) \<leftarrow> list_remove (StateItem t) st;
              let st2 = set_priority t (uxBasePriority (tcb st1 t)) st1;
              let st3 = on_lists (listSET_LIST_ITEM_VALUE (EventItem t)
                          (configMAX_PRIORITIES - uxPriority (tcb st2 t))) st2;
              Some (True, prvAddTaskToReadyList t st3)
            }
          else Some (False, st))"

definition vTaskPriorityDisinheritAfterTimeout :: "task option \<Rightarrow> u32 \<Rightarrow> ktask \<Rightarrow> ktask option" where
  "vTaskPriorityDisinheritAfterTimeout pxMutexHolder uxHighestPriorityWaitingTask st =
     (case pxMutexHolder of
        None \<Rightarrow> Some st
      | Some t \<Rightarrow>
          let uxPriorityToUse = (if uxBasePriority (tcb st t) < uxHighestPriorityWaitingTask
                                 then uxHighestPriorityWaitingTask else uxBasePriority (tcb st t)) in
          if uxPriority (tcb st t) \<noteq> uxPriorityToUse \<and> uxMutexesHeld (tcb st t) = 1 then
            do {
              let uxPriorityUsedOnEntry = uxPriority (tcb st t);
              let st1 = set_priority t uxPriorityToUse st;
              let st2 = set_event_priority t uxPriorityToUse st1;
              requeue_if_ready uxPriorityUsedOnEntry t st2
            }
          else Some st)"

subsection \<open>Notifications\<close>

datatype eNotifyAction = eNoAction | eSetBits | eIncrement | eSetValueWithOverwrite
  | eSetValueWithoutOverwrite

definition set_notify :: "task \<Rightarrow> u32 \<Rightarrow> notify_state \<Rightarrow> ktask \<Rightarrow> ktask" where
  "set_notify t v s st = set_tcb t ((tcb st t)\<lparr>ulNotifiedValue := v, ucNotifyState := s\<rparr>) st"

text \<open>The \<^verbatim>\<open>switch\<close> over the action: the new value and \<^verbatim>\<open>xReturn\<close>.\<close>

definition notify_action :: "eNotifyAction \<Rightarrow> u32 \<Rightarrow> notify_state \<Rightarrow> u32 \<Rightarrow> u32 \<times> bool" where
  "notify_action eAction ulValue ucOriginalNotifyState old =
     (case eAction of
        eSetBits \<Rightarrow> (old OR ulValue, True)
      | eIncrement \<Rightarrow> (old + 1, True)
      | eSetValueWithOverwrite \<Rightarrow> (ulValue, True)
      | eSetValueWithoutOverwrite \<Rightarrow>
          if ucOriginalNotifyState \<noteq> NOTIFICATION_RECEIVED then (ulValue, True) else (old, False)
      | eNoAction \<Rightarrow> (old, True))"

text \<open>The result: \<^verbatim>\<open>xReturn\<close>, the previous value, the state.\<close>

definition xTaskGenericNotify :: "task \<Rightarrow> u32 \<Rightarrow> eNotifyAction \<Rightarrow> ktask \<Rightarrow> (bool \<times> u32 \<times> ktask) option" where
  "xTaskGenericNotify t ulValue eAction st =
     do {
       let prev = ulNotifiedValue (tcb st t);
       let orig = ucNotifyState (tcb st t);
       let (v, xReturn) = notify_action eAction ulValue orig prev;
       let st1 = set_notify t v NOTIFICATION_RECEIVED st;
       if orig = WAITING_NOTIFICATION then
         do {
           (_, st2) \<leftarrow> list_remove (StateItem t) st1;
           let st3 = prvAddTaskToReadyList t st2;
           cur \<leftarrow> pxCurrentTCB st3;
           Some (xReturn, prev, if uxPriority (tcb st3 t) > uxPriority (tcb st3 cur)
                                then taskYIELD_IF_USING_PREEMPTION st3 else st3)
         }
       else Some (xReturn, prev, st1)
     }"

definition notify_wake_from_isr :: "task \<Rightarrow> ktask \<Rightarrow> (bool \<times> ktask) option" where
  "notify_wake_from_isr t st =
     do {
       st1 \<leftarrow> (if uxSchedulerSuspended st = 0
               then do { (_, s) \<leftarrow> list_remove (StateItem t) st; Some (prvAddTaskToReadyList t s) }
               else Some (on_lists (vListInsertEnd PendingReady (EventItem t)) st));
       cur \<leftarrow> pxCurrentTCB st1;
       Some (if uxPriority (tcb st1 t) > uxPriority (tcb st1 cur)
             then (True, st1\<lparr>xYieldPending := True\<rparr>) else (False, st1))
     }"

text \<open>The result: \<^verbatim>\<open>xReturn\<close>, the previous value, whether a task of higher priority was woken.\<close>

definition xTaskGenericNotifyFromISR ::
  "task \<Rightarrow> u32 \<Rightarrow> eNotifyAction \<Rightarrow> ktask \<Rightarrow> (bool \<times> u32 \<times> bool \<times> ktask) option" where
  "xTaskGenericNotifyFromISR t ulValue eAction st =
     do {
       let prev = ulNotifiedValue (tcb st t);
       let orig = ucNotifyState (tcb st t);
       let (v, xReturn) = notify_action eAction ulValue orig prev;
       let st1 = set_notify t v NOTIFICATION_RECEIVED st;
       if orig = WAITING_NOTIFICATION
       then do { (woken, st2) \<leftarrow> notify_wake_from_isr t st1; Some (xReturn, prev, woken, st2) }
       else Some (xReturn, prev, False, st1)
     }"

definition vTaskGenericNotifyGiveFromISR :: "task \<Rightarrow> ktask \<Rightarrow> (bool \<times> ktask) option" where
  "vTaskGenericNotifyGiveFromISR t st =
     do {
       let orig = ucNotifyState (tcb st t);
       let st1 = set_notify t (ulNotifiedValue (tcb st t) + 1) NOTIFICATION_RECEIVED st;
       if orig = WAITING_NOTIFICATION then notify_wake_from_isr t st1 else Some (False, st1)
     }"

text \<open>\<^verbatim>\<open>ulTaskGenericNotifyTake\<close> and \<^verbatim>\<open>xTaskGenericNotifyWait\<close> are two critical sections with a
  possible block between them: one definition for each section.\<close>

definition notify_block :: "u32 \<Rightarrow> ktask \<Rightarrow> ktask option" where
  "notify_block xTicksToWait st =
     (if xTicksToWait > 0
      then map_option taskYIELD_IF_USING_PREEMPTION (prvAddCurrentTaskToDelayedList xTicksToWait True st)
      else Some st)"

definition ulTaskGenericNotifyTake_enter :: "u32 \<Rightarrow> ktask \<Rightarrow> ktask option" where
  "ulTaskGenericNotifyTake_enter xTicksToWait st =
     do {
       cur \<leftarrow> pxCurrentTCB st;
       if ulNotifiedValue (tcb st cur) = 0
       then notify_block xTicksToWait (set_notify cur (ulNotifiedValue (tcb st cur)) WAITING_NOTIFICATION st)
       else Some st
     }"

definition ulTaskGenericNotifyTake_leave :: "bool \<Rightarrow> ktask \<Rightarrow> (u32 \<times> ktask) option" where
  "ulTaskGenericNotifyTake_leave xClearCountOnExit st =
     do {
       cur \<leftarrow> pxCurrentTCB st;
       let ulReturn = ulNotifiedValue (tcb st cur);
       let v = (if ulReturn \<noteq> 0 then (if xClearCountOnExit then 0 else ulReturn - 1) else ulReturn);
       Some (ulReturn, set_notify cur v NOT_WAITING_NOTIFICATION st)
     }"

definition xTaskGenericNotifyWait_enter :: "u32 \<Rightarrow> u32 \<Rightarrow> ktask \<Rightarrow> ktask option" where
  "xTaskGenericNotifyWait_enter ulBitsToClearOnEntry xTicksToWait st =
     do {
       cur \<leftarrow> pxCurrentTCB st;
       if ucNotifyState (tcb st cur) \<noteq> NOTIFICATION_RECEIVED
       then notify_block xTicksToWait
              (set_notify cur (ulNotifiedValue (tcb st cur) AND NOT ulBitsToClearOnEntry)
                 WAITING_NOTIFICATION st)
       else Some st
     }"

text \<open>The result: \<^verbatim>\<open>xReturn\<close> and \<^verbatim>\<open>*pulNotificationValue\<close>.\<close>

definition xTaskGenericNotifyWait_leave :: "u32 \<Rightarrow> ktask \<Rightarrow> (bool \<times> u32 \<times> ktask) option" where
  "xTaskGenericNotifyWait_leave ulBitsToClearOnExit st =
     do {
       cur \<leftarrow> pxCurrentTCB st;
       let v = ulNotifiedValue (tcb st cur);
       let received = (ucNotifyState (tcb st cur) = NOTIFICATION_RECEIVED);
       Some (received, v, set_notify cur (if received then v AND NOT ulBitsToClearOnExit else v)
               NOT_WAITING_NOTIFICATION st)
     }"

definition xTaskGenericNotifyStateClear :: "task option \<Rightarrow> ktask \<Rightarrow> (bool \<times> ktask) option" where
  "xTaskGenericNotifyStateClear h st =
     do {
       t \<leftarrow> prvGetTCBFromHandle h st;
       Some (if ucNotifyState (tcb st t) = NOTIFICATION_RECEIVED
             then (True, set_notify t (ulNotifiedValue (tcb st t)) NOT_WAITING_NOTIFICATION st)
             else (False, st))
     }"

definition ulTaskGenericNotifyValueClear :: "task option \<Rightarrow> u32 \<Rightarrow> ktask \<Rightarrow> (u32 \<times> ktask) option" where
  "ulTaskGenericNotifyValueClear h ulBitsToClear st =
     do {
       t \<leftarrow> prvGetTCBFromHandle h st;
       let v = ulNotifiedValue (tcb st t);
       Some (v, set_notify t (v AND NOT ulBitsToClear) (ucNotifyState (tcb st t)) st)
     }"

end
