(* ===== verification/TasksInv.thy ===== *)
theory TasksInv
  imports TaskApi
begin

text \<open>
  The scheduler invariant \<open>sched\<close> and its preservation by the primitive steps the functions of
  \<open>Tasks\<close> and \<open>TaskApi\<close> are made of.  The invariant speaks of list membership through the
  container pointers; \<open>lrel\<close> ties those to the linked lists.
\<close>

subsection \<open>The invariant\<close>

definition kernel_lists :: "nat set \<Rightarrow> klid set" where
  "kernel_lists E = {Ready p | p. p < 7} \<union>
     {DelayedTaskList1, DelayedTaskList2, PendingReady, Suspended, WaitingTermination} \<union> Event ` E"

fun is_state :: "kitem \<Rightarrow> bool" where
  "is_state (StateItem t) = True" | "is_state (EventItem t) = False"

fun holds_state :: "klid \<Rightarrow> bool" where
  "holds_state PendingReady = False" | "holds_state (Event e) = False" | "holds_state _ = True"

definition owner_of :: "ktask \<Rightarrow> kitem \<Rightarrow> task" where
  "owner_of st i = pvOwner (nodes (ls st) (Item i))"

definition value_of :: "ktask \<Rightarrow> kitem \<Rightarrow> u32" where
  "value_of st i = listGET_LIST_ITEM_VALUE i (ls st)"

text \<open>What holds of tasks and items, \<open>T\<close> being the tasks that exist and \<open>E\<close> the event lists.\<close>

definition tasks_at :: "task set \<Rightarrow> nat \<Rightarrow> nat \<Rightarrow> ktask \<Rightarrow> bool" where
  "tasks_at T c d st \<longleftrightarrow> finite T \<and> card T < 2 ^ 31 \<and>
     (\<forall>i. item_task i \<in> T \<longrightarrow> owner_of st i = item_task i) \<and>
     (\<forall>i l. container i st = Some l \<longrightarrow> item_task i \<in> T \<and> is_state i = holds_state l) \<and>
     (\<forall>t \<in> T. uxPriority (tcb st t) < 7) \<and>
     (\<forall>t p. container (StateItem t) st = Some (Ready p) \<longrightarrow>
        uxPriority (tcb st t) = p \<and> p \<le> uxTopReadyPriority st) \<and>
     uxTopReadyPriority st < 7 \<and>
     {pxDelayedTaskList st, pxOverflowDelayedTaskList st} = {DelayedTaskList1, DelayedTaskList2} \<and>
     (\<forall>t. container (StateItem t) st = Some (pxDelayedTaskList st) \<longrightarrow>
        c \<le> unat (value_of st (StateItem t)) \<and>
        xNextTaskUnblockTime st \<le> value_of st (StateItem t)) \<and>
     (\<forall>t. container (StateItem t) st = Some (pxOverflowDelayedTaskList st) \<longrightarrow>
        unat (value_of st (StateItem t)) \<le> d)"

definition lists_ok :: "nat set \<Rightarrow> ktask \<Rightarrow> (klid \<Rightarrow> kitem list \<times> nat) \<Rightarrow> bool" where
  "lists_ok E st A \<longleftrightarrow> lrel (kernel_lists E) (ls st) A \<and>
     sorted (map (value_of st) (fst (A DelayedTaskList1))) \<and>
     sorted (map (value_of st) (fst (A DelayedTaskList2)))"

definition sched_at :: "task set \<Rightarrow> nat set \<Rightarrow> nat \<Rightarrow> nat \<Rightarrow> ktask \<Rightarrow> bool" where
  "sched_at T E c d st \<longleftrightarrow> tasks_at T c d st \<and> (\<exists>A. lists_ok E st A)"

text \<open>Between ticks the bounds are the tick count: a task on the delayed list is due later, one on
  the overflow list was due at the latest now, counting from the next wrap-around.\<close>

abbreviation sched :: "task set \<Rightarrow> nat set \<Rightarrow> ktask \<Rightarrow> bool" where
  "sched T E st \<equiv> sched_at T E (Suc (unat (xTickCount st))) (unat (xTickCount st)) st"

text \<open>A step that moves one item: everything but the lists is as before, values and owners too.\<close>

definition moved :: "kitem \<Rightarrow> klid option \<Rightarrow> ktask \<Rightarrow> ktask \<Rightarrow> bool" where
  "moved i c st st' \<longleftrightarrow> st' = st\<lparr>ls := ls st'\<rparr> \<and>
     (\<forall>j. container j st' = (if j = i then c else container j st)) \<and>
     value_of st' = value_of st \<and> owner_of st' = owner_of st"

lemma moved_fields:
  assumes "moved i c st st'"
  shows "tcb st' = tcb st" "pxCurrentTCB st' = pxCurrentTCB st" "pxDelayedTaskList st' = pxDelayedTaskList st"
    "pxOverflowDelayedTaskList st' = pxOverflowDelayedTaskList st" "xTickCount st' = xTickCount st"
    "uxTopReadyPriority st' = uxTopReadyPriority st" "xNextTaskUnblockTime st' = xNextTaskUnblockTime st"
    "uxSchedulerSuspended st' = uxSchedulerSuspended st" "xPendedTicks st' = xPendedTicks st"
    "xYieldPending st' = xYieldPending st" "xNumOfOverflows st' = xNumOfOverflows st"
    "xSchedulerRunning st' = xSchedulerRunning st" "uxCurrentNumberOfTasks st' = uxCurrentNumberOfTasks st"
    "yields st' = yields st"
    "container j st' = (if j = i then c else container j st)"
    "value_of st' = value_of st" "owner_of st' = owner_of st"
proof -
  obtain s where st': "st' = st\<lparr>ls := s\<rparr>" using assms unfolding moved_def by blast
  show "tcb st' = tcb st" "pxCurrentTCB st' = pxCurrentTCB st" "pxDelayedTaskList st' = pxDelayedTaskList st"
    "pxOverflowDelayedTaskList st' = pxOverflowDelayedTaskList st" "xTickCount st' = xTickCount st"
    "uxTopReadyPriority st' = uxTopReadyPriority st" "xNextTaskUnblockTime st' = xNextTaskUnblockTime st"
    "uxSchedulerSuspended st' = uxSchedulerSuspended st" "xPendedTicks st' = xPendedTicks st"
    "xYieldPending st' = xYieldPending st" "xNumOfOverflows st' = xNumOfOverflows st"
    "xSchedulerRunning st' = xSchedulerRunning st" "uxCurrentNumberOfTasks st' = uxCurrentNumberOfTasks st"
    "yields st' = yields st"
    by (simp_all add: st')
  show "container j st' = (if j = i then c else container j st)"
    "value_of st' = value_of st" "owner_of st' = owner_of st"
    using assms unfolding moved_def by blast+
qed

lemma list_frame_moved:
  assumes "list_frame l xs i c (ls st) s"
  shows "moved i c st (st\<lparr>ls := s\<rparr>)"
  using assms by (auto simp: moved_def list_frame_def container_def value_of_def owner_of_def
      listGET_LIST_ITEM_VALUE_def)

lemma lists_ok_lrel: "lists_ok E st A \<Longrightarrow> lrel (kernel_lists E) (ls st) A"
  by (simp add: lists_ok_def)

lemma lists_ok_container:
  "lists_ok E st A \<Longrightarrow> l \<in> kernel_lists E \<Longrightarrow> container i st = Some l \<longleftrightarrow> i \<in> set (fst (A l))"
  unfolding container_def by (rule lrel_container [OF lists_ok_lrel])

lemma lists_ok_known: "lists_ok E st A \<Longrightarrow> container i st = Some l \<Longrightarrow> l \<in> kernel_lists E"
  by (auto simp: lists_ok_def lrel_def container_def)

lemma lists_ok_distinct: "lists_ok E st A \<Longrightarrow> l \<in> kernel_lists E \<Longrightarrow> distinct (fst (A l))"
  using lrel_list [OF lists_ok_lrel] unfolding klist_iff by blast

lemma kitem_eqI: "item_task i = item_task j \<Longrightarrow> is_state i = is_state j \<Longrightarrow> i = j"
  by (cases i; cases j) auto

text \<open>There are at most two items per task, so no list is ever full.\<close>

lemma lists_ok_length:
  assumes "tasks_at T c d st" and "lists_ok E st A" and "l \<in> kernel_lists E"
  shows "length (fst (A l)) \<le> card T"
proof -
  have in_T: "item_task i \<in> T" "is_state i = holds_state l" if "i \<in> set (fst (A l))" for i
    using assms lists_ok_container [OF assms(2,3), of i] that by (auto simp: tasks_at_def)
  have "inj_on item_task (set (fst (A l)))"
  proof (rule inj_onI)
    fix i j assume ij: "i \<in> set (fst (A l))" "j \<in> set (fst (A l))" "item_task i = item_task j"
    have "is_state i = is_state j" using in_T(2) [OF ij(1)] in_T(2) [OF ij(2)] by simp
    then show "i = j" by (rule kitem_eqI [OF ij(3)])
  qed
  then have "card (set (fst (A l))) = card (item_task ` set (fst (A l)))" by (simp add: card_image)
  also have "\<dots> \<le> card T" by (rule card_mono) (use assms(1) in_T(1) in \<open>auto simp: tasks_at_def\<close>)
  finally show ?thesis using lists_ok_distinct [OF assms(2,3)] by (simp add: distinct_card)
qed

lemma sorted_remove: "sorted (map v (fst L)) \<Longrightarrow> sorted (map v (fst (al_remove x L)))"
  by (cases L) (simp add: al_remove_def sorted_map_remove1)

subsection \<open>Primitive steps\<close>

lemma list_remove_lists:
  assumes "lists_ok E st A" and "container i st = Some l"
  shows "\<exists>st'. list_remove i st = Some (w32 (length (fst (A l)) - 1), st') \<and>
    lists_ok E st' (A(l := al_remove i (A l))) \<and> moved i None st st'"
proof -
  obtain s where s: "uxListRemove i (ls st) = Some (w32 (length (fst (A l)) - 1), s)"
    "lrel (kernel_lists E) s (A(l := al_remove i (A l)))" "list_frame l (fst (A l)) i None (ls st) s"
    using uxListRemove_lrel [OF lists_ok_lrel [OF assms(1)]] assms(2) by (auto simp: container_def)
  note m = list_frame_moved [OF s(3)]
  have "lists_ok E (st\<lparr>ls := s\<rparr>) (A(l := al_remove i (A l)))"
    using assms(1) s(2) moved_fields(16) [OF m] by (auto simp: lists_ok_def intro: sorted_remove)
  then show ?thesis using s(1) m by (simp add: list_remove_def)
qed

lemma tasks_at_remove: "tasks_at T c d st \<Longrightarrow> moved i None st st' \<Longrightarrow> tasks_at T c d st'"
  by (simp add: tasks_at_def moved_fields)

lemma sched_remove:
  assumes "sched_at T E c d st" and "container i st = Some l"
  shows "\<exists>n st'. list_remove i st = Some (n, st') \<and> sched_at T E c d st' \<and> moved i None st st'"
  using assms list_remove_lists tasks_at_remove unfolding sched_at_def by meson

lemma insert_end_lists:
  assumes "tasks_at T c d st" and "lists_ok E st A" and "l \<in> kernel_lists E" and "container i st = None"
    and "l \<notin> {DelayedTaskList1, DelayedTaskList2}"
  shows "lists_ok E (on_lists (vListInsertEnd l i) st) (A(l := al_insert_end i (A l))) \<and>
    moved i (Some l) st (on_lists (vListInsertEnd l i) st)"
proof -
  have c: "pxContainer (nodes (ls st) (Item i)) = None" using assms(4) by (simp add: container_def)
  have len: "length (fst (A l)) + 1 < 2 ^ 32"
    using lists_ok_length [OF assms(1-3)] assms(1) by (simp add: tasks_at_def)
  note lr = lists_ok_lrel [OF assms(2)]
  note r = vListInsertEnd_lrel [OF lr assms(3) c len]
  have "list_frame l (fst (A l)) i (Some l) (ls st) (vListInsertEnd l i (ls st))"
    using vListInsertEnd_klist [OF lrel_list [OF lr assms(3)] c len] by simp
  note m = list_frame_moved [OF this]
  show ?thesis using r m assms(2,5) moved_fields(16) [OF m] by (auto simp: lists_ok_def on_lists_def)
qed

lemma tasks_at_insert:
  assumes "tasks_at T c d st" and "moved i (Some l) st st'" and "item_task i \<in> T" "is_state i = holds_state l"
    and "l \<notin> {DelayedTaskList1, DelayedTaskList2}" and "\<forall>p. l \<noteq> Ready p"
  shows "tasks_at T c d st'"
  using assms by (auto simp: tasks_at_def moved_fields)

lemma sched_insert_end:
  assumes "sched_at T E c d st" and "container i st = None" and "item_task i \<in> T" "is_state i = holds_state l"
    and "l \<in> {PendingReady, Suspended, WaitingTermination} \<union> Event ` E"
  shows "sched_at T E c d (on_lists (vListInsertEnd l i) st)" "moved i (Some l) st (on_lists (vListInsertEnd l i) st)"
proof -
  obtain A where A: "tasks_at T c d st" "lists_ok E st A" using assms(1) by (auto simp: sched_at_def)
  have l: "l \<in> kernel_lists E" "l \<notin> {DelayedTaskList1, DelayedTaskList2}" "\<forall>p. l \<noteq> Ready p"
    using assms(5) by (auto simp: kernel_lists_def)
  note r = insert_end_lists [OF A l(1) assms(2) l(2)]
  then show "moved i (Some l) st (on_lists (vListInsertEnd l i) st)" by blast
  then show "sched_at T E c d (on_lists (vListInsertEnd l i) st)"
    using r tasks_at_insert [OF A(1) _ assms(3,4) l(2,3)] by (auto simp: sched_at_def)
qed

text \<open>Fields the invariant does not mention.\<close>

lemma obs_simps [simp]:
  "value_of (st\<lparr>yields := n\<rparr>) = value_of st" "owner_of (st\<lparr>yields := n\<rparr>) = owner_of st"
  "container i (st\<lparr>yields := n\<rparr>) = container i st"
  "value_of (st\<lparr>xYieldPending := b\<rparr>) = value_of st" "owner_of (st\<lparr>xYieldPending := b\<rparr>) = owner_of st"
  "container i (st\<lparr>xYieldPending := b\<rparr>) = container i st"
  "value_of (st\<lparr>uxSchedulerSuspended := u\<rparr>) = value_of st"
  "owner_of (st\<lparr>uxSchedulerSuspended := u\<rparr>) = owner_of st"
  "container i (st\<lparr>uxSchedulerSuspended := u\<rparr>) = container i st"
  "value_of (st\<lparr>xPendedTicks := u\<rparr>) = value_of st" "owner_of (st\<lparr>xPendedTicks := u\<rparr>) = owner_of st"
  "container i (st\<lparr>xPendedTicks := u\<rparr>) = container i st"
  "value_of (st\<lparr>uxTopReadyPriority := u\<rparr>) = value_of st" "owner_of (st\<lparr>uxTopReadyPriority := u\<rparr>) = owner_of st"
  "container i (st\<lparr>uxTopReadyPriority := u\<rparr>) = container i st"
  "value_of (st\<lparr>xNextTaskUnblockTime := u\<rparr>) = value_of st"
  "owner_of (st\<lparr>xNextTaskUnblockTime := u\<rparr>) = owner_of st"
  "container i (st\<lparr>xNextTaskUnblockTime := u\<rparr>) = container i st"
  "value_of (st\<lparr>xTickCount := u\<rparr>) = value_of st" "owner_of (st\<lparr>xTickCount := u\<rparr>) = owner_of st"
  "container i (st\<lparr>xTickCount := u\<rparr>) = container i st"
  "value_of (st\<lparr>pxCurrentTCB := cu\<rparr>) = value_of st" "owner_of (st\<lparr>pxCurrentTCB := cu\<rparr>) = owner_of st"
  "container i (st\<lparr>pxCurrentTCB := cu\<rparr>) = container i st"
  "value_of (st\<lparr>uxCurrentNumberOfTasks := n32\<rparr>) = value_of st" "owner_of (st\<lparr>uxCurrentNumberOfTasks := n32\<rparr>) = owner_of st"
  "container i (st\<lparr>uxCurrentNumberOfTasks := n32\<rparr>) = container i st"
  "value_of (st\<lparr>uxTaskNumber := n32\<rparr>) = value_of st" "owner_of (st\<lparr>uxTaskNumber := n32\<rparr>) = owner_of st"
  "container i (st\<lparr>uxTaskNumber := n32\<rparr>) = container i st"
  "value_of (st\<lparr>uxDeletedTasksWaitingCleanUp := n32\<rparr>) = value_of st" "owner_of (st\<lparr>uxDeletedTasksWaitingCleanUp := n32\<rparr>) = owner_of st"
  "container i (st\<lparr>uxDeletedTasksWaitingCleanUp := n32\<rparr>) = container i st"
  "value_of (st\<lparr>xSchedulerRunning := b\<rparr>) = value_of st" "owner_of (st\<lparr>xSchedulerRunning := b\<rparr>) = owner_of st"
  "container i (st\<lparr>xSchedulerRunning := b\<rparr>) = container i st"
  "value_of (set_tcb t cb st) = value_of st" "owner_of (set_tcb t cb st) = owner_of st"
  "container i (set_tcb t cb st) = container i st"
  by (simp_all add: fun_eq_iff value_of_def owner_of_def container_def set_tcb_def)

lemma sched_simps [simp]:
  "sched_at T E c d (st\<lparr>yields := n\<rparr>) = sched_at T E c d st"
  "sched_at T E c d (st\<lparr>xTickCount := n'\<rparr>) = sched_at T E c d st"
  "sched_at T E c d (st\<lparr>xYieldPending := b\<rparr>) = sched_at T E c d st"
  "sched_at T E c d (st\<lparr>uxSchedulerSuspended := u\<rparr>) = sched_at T E c d st"
  "sched_at T E c d (st\<lparr>xPendedTicks := u\<rparr>) = sched_at T E c d st"
  "sched_at T E c d (st\<lparr>pxCurrentTCB := cu\<rparr>) = sched_at T E c d st"
  "sched_at T E c d (st\<lparr>uxCurrentNumberOfTasks := n32\<rparr>) = sched_at T E c d st"
  "sched_at T E c d (st\<lparr>uxTaskNumber := n32\<rparr>) = sched_at T E c d st"
  "sched_at T E c d (st\<lparr>uxDeletedTasksWaitingCleanUp := n32\<rparr>) = sched_at T E c d st"
  "sched_at T E c d (st\<lparr>xSchedulerRunning := b\<rparr>) = sched_at T E c d st"
  by (simp_all add: sched_at_def tasks_at_def lists_ok_def)

lemma tasks_at_D:
  assumes "tasks_at T c d st"
  shows "item_task i \<in> T \<Longrightarrow> owner_of st i = item_task i"
    and "container i st = Some l \<Longrightarrow> item_task i \<in> T"
    and "container i st = Some l \<Longrightarrow> is_state i = holds_state l"
    and "t \<in> T \<Longrightarrow> uxPriority (tcb st t) < 7"
    and "container (StateItem t) st = Some (Ready p) \<Longrightarrow> uxPriority (tcb st t) = p"
    and "container (StateItem t) st = Some (Ready p) \<Longrightarrow> p \<le> uxTopReadyPriority st"
    and "pxDelayedTaskList st = DelayedTaskList1 \<and> pxOverflowDelayedTaskList st = DelayedTaskList2 \<or>
      pxDelayedTaskList st = DelayedTaskList2 \<and> pxOverflowDelayedTaskList st = DelayedTaskList1"
    and "container (StateItem t) st = Some (pxDelayedTaskList st) \<Longrightarrow> c \<le> unat (value_of st (StateItem t))"
    and "container (StateItem t) st = Some (pxDelayedTaskList st) \<Longrightarrow>
      xNextTaskUnblockTime st \<le> value_of st (StateItem t)"
    and "container (StateItem t) st = Some (pxOverflowDelayedTaskList st) \<Longrightarrow>
      unat (value_of st (StateItem t)) \<le> d"
  using assms unfolding tasks_at_def by (blast, blast, blast, blast, blast, blast, metis doubleton_eq_iff, blast+)

lemma tasks_at_cong:
  assumes "tasks_at T c d st"
    and "\<And>t. container (StateItem t) st = Some (pxDelayedTaskList st) \<or>
      container (StateItem t) st = Some (pxOverflowDelayedTaskList st) \<Longrightarrow>
      value_of st' (StateItem t) = value_of st (StateItem t)"
    and "\<And>i. container i st' = container i st" and "owner_of st' = owner_of st"
    and "\<And>t. uxPriority (tcb st' t) = uxPriority (tcb st t)"
    and "pxDelayedTaskList st' = pxDelayedTaskList st"
    and "pxOverflowDelayedTaskList st' = pxOverflowDelayedTaskList st"
    and "uxTopReadyPriority st' = uxTopReadyPriority st" and "xNextTaskUnblockTime st' = xNextTaskUnblockTime st"
  shows "tasks_at T c d st'"
  using assms(1,2) unfolding tasks_at_def assms(3-9) by simp

text \<open>Making a task ready.\<close>

definition made_ready :: "task \<Rightarrow> ktask \<Rightarrow> ktask \<Rightarrow> bool" where
  "made_ready t st st' \<longleftrightarrow>
     st' = st\<lparr>ls := ls st', uxTopReadyPriority := max (uxTopReadyPriority st) (uxPriority (tcb st t))\<rparr> \<and>
     (\<forall>j. container j st' = (if j = StateItem t then Some (Ready (uxPriority (tcb st t))) else container j st)) \<and>
     value_of st' = value_of st \<and> owner_of st' = owner_of st"

lemma made_ready_fields:
  assumes "made_ready t st st'"
  shows "tcb st' = tcb st" "pxCurrentTCB st' = pxCurrentTCB st" "pxDelayedTaskList st' = pxDelayedTaskList st"
    "pxOverflowDelayedTaskList st' = pxOverflowDelayedTaskList st" "xTickCount st' = xTickCount st"
    "xNextTaskUnblockTime st' = xNextTaskUnblockTime st"
    "uxSchedulerSuspended st' = uxSchedulerSuspended st" "xPendedTicks st' = xPendedTicks st"
    "xYieldPending st' = xYieldPending st" "xNumOfOverflows st' = xNumOfOverflows st"
    "xSchedulerRunning st' = xSchedulerRunning st" "uxCurrentNumberOfTasks st' = uxCurrentNumberOfTasks st"
    "yields st' = yields st"
    "uxTopReadyPriority st' = max (uxTopReadyPriority st) (uxPriority (tcb st t))"
    "container j st' = (if j = StateItem t then Some (Ready (uxPriority (tcb st t))) else container j st)"
    "value_of st' = value_of st" "owner_of st' = owner_of st"
proof -
  obtain s where st': "st' = st\<lparr>ls := s, uxTopReadyPriority := max (uxTopReadyPriority st) (uxPriority (tcb st t))\<rparr>"
    using assms unfolding made_ready_def by blast
  show "tcb st' = tcb st" "pxCurrentTCB st' = pxCurrentTCB st" "pxDelayedTaskList st' = pxDelayedTaskList st"
    "pxOverflowDelayedTaskList st' = pxOverflowDelayedTaskList st" "xTickCount st' = xTickCount st"
    "xNextTaskUnblockTime st' = xNextTaskUnblockTime st"
    "uxSchedulerSuspended st' = uxSchedulerSuspended st" "xPendedTicks st' = xPendedTicks st"
    "xYieldPending st' = xYieldPending st" "xNumOfOverflows st' = xNumOfOverflows st"
    "xSchedulerRunning st' = xSchedulerRunning st" "uxCurrentNumberOfTasks st' = uxCurrentNumberOfTasks st"
    "yields st' = yields st"
    "uxTopReadyPriority st' = max (uxTopReadyPriority st) (uxPriority (tcb st t))"
    by (simp_all add: st')
  show "container j st' = (if j = StateItem t then Some (Ready (uxPriority (tcb st t))) else container j st)"
    "value_of st' = value_of st" "owner_of st' = owner_of st"
    using assms unfolding made_ready_def by blast+
qed

lemma sched_add_ready:
  assumes "sched_at T E c d st" and "t \<in> T" and "container (StateItem t) st = None"
  shows "sched_at T E c d (prvAddTaskToReadyList t st)" "made_ready t st (prvAddTaskToReadyList t st)"
proof -
  let ?p = "uxPriority (tcb st t)" and ?st' = "prvAddTaskToReadyList t st"
  obtain A where A: "tasks_at T c d st" "lists_ok E st A" using assms(1) by (auto simp: sched_at_def)
  have p: "?p < 7" using tasks_at_D(4) [OF A(1) assms(2)] .
  have l: "Ready ?p \<in> kernel_lists E" using p by (simp add: kernel_lists_def)
  have eq: "?st' = (on_lists (vListInsertEnd (Ready ?p) (StateItem t)) st)
      \<lparr>uxTopReadyPriority := max (uxTopReadyPriority st) ?p\<rparr>"
    by (auto simp: prvAddTaskToReadyList_def taskRECORD_READY_PRIORITY_def on_lists_def Let_def max_def)
  note r = insert_end_lists [OF A l assms(3)]
  then have m: "moved (StateItem t) (Some (Ready ?p)) st (on_lists (vListInsertEnd (Ready ?p) (StateItem t)) st)"
    by simp
  show mr: "made_ready t st ?st'"
    unfolding made_ready_def eq using moved_fields(15-17) [OF m] by (auto simp: on_lists_def)
  have "lists_ok E ?st' (A(Ready ?p := al_insert_end (StateItem t) (A (Ready ?p))))"
    using r unfolding eq by (simp add: lists_ok_def)
  moreover have "tasks_at T c d ?st'"
    using A(1) p assms(2) made_ready_fields [OF mr] by (auto simp: tasks_at_def le_max_iff_disj split: if_splits)
  ultimately show "sched_at T E c d ?st'" by (auto simp: sched_at_def)
qed

subsection \<open>Reading the lists\<close>

lemma list_empty:
  assumes "sched_at T E c d st" and "l \<in> kernel_lists E"
  shows "listLIST_IS_EMPTY l (ls st) \<longleftrightarrow> (\<forall>i. container i st \<noteq> Some l)"
proof -
  obtain A where A: "lists_ok E st A" using assms(1) by (auto simp: sched_at_def)
  have "listLIST_IS_EMPTY l (ls st) \<longleftrightarrow> fst (A l) = []"
    by (rule klist_length [OF lrel_list [OF lists_ok_lrel [OF A] assms(2)]])
  then show ?thesis using lists_ok_container [OF A assms(2)] by (metis emptyE list.set(1) list.set_intros(1) neq_Nil_conv)
qed

lemma list_head:
  assumes "sched_at T E c d st" and "l \<in> kernel_lists E" and "\<not> listLIST_IS_EMPTY l (ls st)"
  shows "\<exists>i. container i st = Some l \<and> listGET_OWNER_OF_HEAD_ENTRY l (ls st) = item_task i \<and>
    listGET_ITEM_VALUE_OF_HEAD_ENTRY l (ls st) = value_of st i \<and>
    (l \<in> {DelayedTaskList1, DelayedTaskList2} \<longrightarrow>
      (\<forall>j. container j st = Some l \<longrightarrow> value_of st i \<le> value_of st j))"
proof -
  obtain A where t: "tasks_at T c d st" and A: "lists_ok E st A" using assms(1) by (auto simp: sched_at_def)
  note k = lrel_list [OF lists_ok_lrel [OF A] assms(2)]
  have ne: "fst (A l) \<noteq> []" using assms(3) klist_length(1) [OF k] by blast
  let ?i = "hd (fst (A l))"
  have c: "container ?i st = Some l" using lists_ok_container [OF A assms(2)] ne by simp
  have "listGET_OWNER_OF_HEAD_ENTRY l (ls st) = item_task ?i"
    using klist_head(1) [OF k ne] tasks_at_D(1) [OF t tasks_at_D(2) [OF t c]] by (simp add: owner_of_def)
  moreover have "listGET_ITEM_VALUE_OF_HEAD_ENTRY l (ls st) = value_of st ?i"
    using klist_head(2) [OF k ne] by (simp add: value_of_def)
  moreover have "value_of st ?i \<le> value_of st j"
    if "l \<in> {DelayedTaskList1, DelayedTaskList2}" "container j st = Some l" for j
  proof -
    have s: "sorted (map (value_of st) (fst (A l)))" using that(1) A by (auto simp: lists_ok_def)
    have "j \<in> set (fst (A l))" using lists_ok_container [OF A assms(2)] that(2) by blast
    then show ?thesis using s ne by (cases "fst (A l)") auto
  qed
  ultimately show ?thesis using c by blast
qed

subsection \<open>Sorted insertion and delays\<close>

lemma list_insert_lists:
  assumes "tasks_at T c d st" and "lists_ok E st A" and "l \<in> kernel_lists E" and "container i st = None"
  shows "\<exists>st'. list_insert l i st = Some st' \<and> lists_ok E st' (A(l := al_insert (value_of st) i (A l))) \<and>
    moved i (Some l) st st'"
proof -
  have c: "pxContainer (nodes (ls st) (Item i)) = None" using assms(4) by (simp add: container_def)
  have len: "length (fst (A l)) + 1 < 2 ^ 32"
    using lists_ok_length [OF assms(1-3)] assms(1) by (simp add: tasks_at_def)
  have v: "(\<lambda>y. listGET_LIST_ITEM_VALUE y (ls st)) = value_of st" by (simp add: fun_eq_iff value_of_def)
  obtain s where s: "vListInsert l i (ls st) = Some s"
    "lrel (kernel_lists E) s (A(l := al_insert (value_of st) i (A l)))"
    "list_frame l (fst (A l)) i (Some l) (ls st) s"
    using vListInsert_lrel [OF lists_ok_lrel [OF assms(2)] assms(3) c len] unfolding v by blast
  note m = list_frame_moved [OF s(3)]
  have "sorted (map (value_of st) (fst ((A(l := al_insert (value_of st) i (A l))) l')))"
    if "sorted (map (value_of st) (fst (A l')))" for l'
    using that al_insert_sorted [of "value_of st" "fst (A l)" i "snd (A l)"] by auto
  then have "lists_ok E (st\<lparr>ls := s\<rparr>) (A(l := al_insert (value_of st) i (A l)))"
    using assms(2) s(2) moved_fields(16) [OF m] by (simp add: lists_ok_def)
  then show ?thesis using s(1) m by (simp add: list_insert_def)
qed

lemma sched_insert_event:
  assumes "sched_at T E c d st" and "t \<in> T" and "container (EventItem t) st = None" and "e \<in> E"
  shows "\<exists>st'. list_insert (Event e) (EventItem t) st = Some st' \<and> sched_at T E c d st' \<and>
    moved (EventItem t) (Some (Event e)) st st'"
proof -
  obtain A where A: "tasks_at T c d st" "lists_ok E st A" using assms(1) by (auto simp: sched_at_def)
  have l: "Event e \<in> kernel_lists E" using assms(4) by (simp add: kernel_lists_def)
  from list_insert_lists [OF A l assms(3)] tasks_at_insert [OF A(1), of "EventItem t" "Event e"] assms(2)
  show ?thesis by (auto simp: sched_at_def)
qed

lemma sorted_value_upd:
  "x \<notin> set xs \<Longrightarrow> sorted (map (v(x := a)) xs) = sorted (map v xs)"
  by (simp add: map_fun_upd)

lemma set_value_obs:
  fixes i :: kitem and v :: u32 and st :: ktask
  defines "st' \<equiv> on_lists (listSET_LIST_ITEM_VALUE i v) st"
  shows "value_of st' = (value_of st)(i := v)" "owner_of st' = owner_of st" "container j st' = container j st"
    "st' = st\<lparr>ls := ls st'\<rparr>"
  by (auto simp: st'_def on_lists_def listSET_LIST_ITEM_VALUE_def value_of_def owner_of_def container_def
      listGET_LIST_ITEM_VALUE_def)

lemma lrel_set_value:
  assumes "lrel D s A"
  shows "lrel D (listSET_LIST_ITEM_VALUE x v s) A"
proof -
  have "klist l (listSET_LIST_ITEM_VALUE x v s) (A l)" if "l \<in> D" for l
  proof -
    obtain xs k where L: "A l = (xs, k)" by (cases "A l")
    have "klist l s (A l)" using assms that by (simp add: lrel_def)
    then have kl: "klist l s (xs, k)" using L by simp
    have "linked (nodes (listSET_LIST_ITEM_VALUE x v s)) (ring l xs)"
      by (rule linked_cong [of "nodes s"]) (use kl in \<open>auto simp: klist_iff listSET_LIST_ITEM_VALUE_def\<close>)
    then show ?thesis using kl L by (simp add: klist_iff listSET_LIST_ITEM_VALUE_def)
  qed
  then show ?thesis using assms by (auto simp: lrel_def listSET_LIST_ITEM_VALUE_def split: if_splits)
qed

text \<open>Changing the value of an item that is on no delayed list.\<close>

lemma sched_set_value:
  assumes "sched_at T E c d st"
    and "container i st \<notin> {Some DelayedTaskList1, Some DelayedTaskList2}"
  shows "sched_at T E c d (on_lists (listSET_LIST_ITEM_VALUE i v) st)"
proof -
  let ?st' = "on_lists (listSET_LIST_ITEM_VALUE i v) st"
  obtain A where A: "tasks_at T c d st" "lists_ok E st A" using assms(1) by (auto simp: sched_at_def)
  have lr: "lrel (kernel_lists E) (ls ?st') A"
    using lrel_set_value [OF lists_ok_lrel [OF A(2)]] by (simp add: on_lists_def)
  have "DelayedTaskList1 \<in> kernel_lists E" "DelayedTaskList2 \<in> kernel_lists E" by (auto simp: kernel_lists_def)
  then have "i \<notin> set (fst (A DelayedTaskList1))" "i \<notin> set (fst (A DelayedTaskList2))"
    using lists_ok_container [OF A(2)] assms(2) by auto
  then have "lists_ok E ?st' A"
    using lr A(2) unfolding lists_ok_def set_value_obs(1) by (simp only: sorted_value_upd simp_thms)
  moreover have "tasks_at T c d ?st'"
  proof (rule tasks_at_cong [OF A(1)])
    fix t assume "container (StateItem t) st = Some (pxDelayedTaskList st) \<or>
      container (StateItem t) st = Some (pxOverflowDelayedTaskList st)"
    then have "container (StateItem t) st \<in> {Some DelayedTaskList1, Some DelayedTaskList2}"
      using tasks_at_D(7) [OF A(1)] by auto
    then have "StateItem t \<noteq> i" using assms(2) by blast
    then show "value_of ?st' (StateItem t) = value_of st (StateItem t)" by (simp add: set_value_obs(1))
  next
    show "container j ?st' = container j st" for j by (rule set_value_obs(3))
    show "owner_of ?st' = owner_of st" by (rule set_value_obs(2))
  qed (simp_all add: on_lists_def)
  ultimately show ?thesis by (auto simp: sched_at_def)
qed

text \<open>The control fields a list operation leaves alone.\<close>

definition same_ctl :: "ktask \<Rightarrow> ktask \<Rightarrow> bool" where
  "same_ctl st st' \<longleftrightarrow> tcb st' = tcb st \<and> pxCurrentTCB st' = pxCurrentTCB st \<and>
     pxDelayedTaskList st' = pxDelayedTaskList st \<and>
     pxOverflowDelayedTaskList st' = pxOverflowDelayedTaskList st \<and> xTickCount st' = xTickCount st \<and>
     uxSchedulerSuspended st' = uxSchedulerSuspended st \<and> xPendedTicks st' = xPendedTicks st \<and>
     xNumOfOverflows st' = xNumOfOverflows st \<and> xSchedulerRunning st' = xSchedulerRunning st \<and>
     uxCurrentNumberOfTasks st' = uxCurrentNumberOfTasks st \<and> yields st' = yields st \<and>
     xYieldPending st' = xYieldPending st \<and> owner_of st' = owner_of st"

lemma same_ctl_D:
  assumes "same_ctl st st'"
  shows "tcb st' = tcb st" "pxCurrentTCB st' = pxCurrentTCB st" "pxDelayedTaskList st' = pxDelayedTaskList st"
    "pxOverflowDelayedTaskList st' = pxOverflowDelayedTaskList st" "xTickCount st' = xTickCount st"
    "uxSchedulerSuspended st' = uxSchedulerSuspended st" "xPendedTicks st' = xPendedTicks st"
    "xNumOfOverflows st' = xNumOfOverflows st" "xSchedulerRunning st' = xSchedulerRunning st"
    "uxCurrentNumberOfTasks st' = uxCurrentNumberOfTasks st" "yields st' = yields st"
    "xYieldPending st' = xYieldPending st" "owner_of st' = owner_of st"
  using assms by (simp_all add: same_ctl_def)

lemma same_ctl_refl [simp]: "same_ctl st st"
  by (simp add: same_ctl_def)

lemma same_ctl_trans [trans]: "same_ctl a b \<Longrightarrow> same_ctl b c \<Longrightarrow> same_ctl a c"
  by (simp add: same_ctl_def)

lemma moved_same_ctl: "moved i c st st' \<Longrightarrow> same_ctl st st'"
  by (simp add: same_ctl_def moved_fields)

lemma made_ready_same_ctl: "made_ready t st st' \<Longrightarrow> same_ctl st st'"
  by (simp add: same_ctl_def made_ready_fields)

lemma set_value_same_ctl: "same_ctl st (on_lists (listSET_LIST_ITEM_VALUE i v) st)"
  unfolding same_ctl_def by (simp add: set_value_obs(2)) (simp add: on_lists_def)

text \<open>Where a delay of \<open>n\<close> ticks puts the current task.\<close>

definition delay_list :: "u32 \<Rightarrow> bool \<Rightarrow> ktask \<Rightarrow> klid" where
  "delay_list n indefinite st =
     (if n = portMAX_DELAY \<and> indefinite then Suspended
      else if xTickCount st + n < xTickCount st then pxOverflowDelayedTaskList st
      else pxDelayedTaskList st)"

lemma sched_insert_delayed:
  assumes "sched_at T E c d st" and t: "t \<in> T" and c: "container (StateItem t) st = None"
    and l: "l = pxDelayedTaskList st \<and> c \<le> unat (value_of st (StateItem t)) \<or>
      l = pxOverflowDelayedTaskList st \<and> unat (value_of st (StateItem t)) \<le> d"
  shows "\<exists>st1. list_insert l (StateItem t) st = Some st1 \<and> moved (StateItem t) (Some l) st st1 \<and>
    sched_at T E c d (st1\<lparr>xNextTaskUnblockTime := (if l = pxDelayedTaskList st
      then min (xNextTaskUnblockTime st) (value_of st (StateItem t)) else xNextTaskUnblockTime st)\<rparr>)"
proof -
  obtain A where A: "tasks_at T c d st" "lists_ok E st A" using assms(1) by (auto simp: sched_at_def)
  have dl: "l = DelayedTaskList1 \<or> l = DelayedTaskList2" and ne: "pxDelayedTaskList st \<noteq> pxOverflowDelayedTaskList st"
    using l tasks_at_D(7) [OF A(1)] by auto
  then have lk: "l \<in> kernel_lists E" and hs: "holds_state l" by (auto simp: kernel_lists_def)
  obtain st1 where st1: "list_insert l (StateItem t) st = Some st1"
    "lists_ok E st1 (A(l := al_insert (value_of st) (StateItem t) (A l)))" "moved (StateItem t) (Some l) st st1"
    using list_insert_lists [OF A lk c] by blast
  define u where "u = (if l = pxDelayedTaskList st
      then min (xNextTaskUnblockTime st) (value_of st (StateItem t)) else xNextTaskUnblockTime st)"
  let ?st2 = "st1\<lparr>xNextTaskUnblockTime := u\<rparr>"
  have u: "u \<le> xNextTaskUnblockTime st" "l = pxDelayedTaskList st \<Longrightarrow> u \<le> value_of st (StateItem t)"
    by (simp_all add: u_def)
  have over: "l = pxOverflowDelayedTaskList st \<Longrightarrow> unat (value_of st (StateItem t)) \<le> d"
    and del: "l = pxDelayedTaskList st \<Longrightarrow> c \<le> unat (value_of st (StateItem t))"
    using l ne by auto
  have "lists_ok E ?st2 (A(l := al_insert (value_of st) (StateItem t) (A l)))"
    using st1(2) by (simp add: lists_ok_def)
  moreover have "tasks_at T c d ?st2"
    unfolding tasks_at_def
  proof (intro conjI allI impI)
    fix x
    assume "container (StateItem x) ?st2 = Some (pxDelayedTaskList ?st2)"
    then have x: "container (StateItem x) st = Some (pxDelayedTaskList st) \<or> x = t \<and> l = pxDelayedTaskList st"
      by (simp add: moved_fields [OF st1(3)] split: if_splits)
    show "c \<le> unat (value_of ?st2 (StateItem x))"
      using x tasks_at_D(8) [OF A(1)] del by (auto simp: moved_fields [OF st1(3)])
    show "xNextTaskUnblockTime ?st2 \<le> value_of ?st2 (StateItem x)"
      using x tasks_at_D(9) [OF A(1)] u by (auto simp: moved_fields [OF st1(3)] intro: order_trans)
  next
    fix x
    assume "container (StateItem x) ?st2 = Some (pxOverflowDelayedTaskList ?st2)"
    then have x: "container (StateItem x) st = Some (pxOverflowDelayedTaskList st) \<or> x = t \<and> l = pxOverflowDelayedTaskList st"
      by (simp add: moved_fields [OF st1(3)] split: if_splits)
    then show "unat (value_of ?st2 (StateItem x)) \<le> d"
      using tasks_at_D(10) [OF A(1)] over by (auto simp: moved_fields [OF st1(3)])
  qed (use A(1) t dl hs in \<open>auto simp: tasks_at_def moved_fields [OF st1(3)] split: if_splits\<close>)
  ultimately show ?thesis using st1 u_def by (auto simp: sched_at_def)
qed

lemma add_delayed:
  assumes "sched T E st" and cur: "pxCurrentTCB st = Some cur" "cur \<in> T"
    and "container (StateItem cur) st = Some l" and "0 < n"
  shows "\<exists>st'. prvAddCurrentTaskToDelayedList n b st = Some st' \<and> sched T E st' \<and> same_ctl st st' \<and>
    (\<forall>j. container j st' = (if j = StateItem cur then Some (delay_list n b st) else container j st)) \<and>
    (delay_list n b st \<noteq> Suspended \<longrightarrow> value_of st' (StateItem cur) = xTickCount st + n) \<and>
    (\<forall>j. j \<noteq> StateItem cur \<longrightarrow> value_of st' j = value_of st j)"
proof -
  let ?c = "Suc (unat (xTickCount st))" and ?d = "unat (xTickCount st)"
  obtain k st1 where st1: "list_remove (StateItem cur) st = Some (k, st1)" "sched_at T E ?c ?d st1"
    "moved (StateItem cur) None st st1"
    using sched_remove [OF assms(1,4)] by blast
  note m1 = moved_fields [OF st1(3)]
  have none: "container (StateItem cur) st1 = None" by (simp add: m1)
  show ?thesis
  proof (cases "n = portMAX_DELAY \<and> b")
    case True
    let ?st' = "on_lists (vListInsertEnd Suspended (StateItem cur)) st1"
    have s: "sched_at T E ?c ?d ?st'" "moved (StateItem cur) (Some Suspended) st1 ?st'"
      using sched_insert_end [OF st1(2) none] cur(2) by auto
    have sc: "same_ctl st ?st'" by (rule same_ctl_trans [OF moved_same_ctl [OF st1(3)] moved_same_ctl [OF s(2)]])
    show ?thesis
      using True st1(1) cur(1) s moved_fields(15,16) [OF s(2)] m1(15,16) sc same_ctl_D(5) [OF sc]
      by (simp add: prvAddCurrentTaskToDelayedList_def Let_def delay_list_def)
  next
    case False
    let ?w = "xTickCount st + n"
    define st2 where "st2 = on_lists (listSET_LIST_ITEM_VALUE (StateItem cur) ?w) st1"
    have s2: "sched_at T E ?c ?d st2" unfolding st2_def by (rule sched_set_value [OF st1(2)]) (simp add: none)
    note o2 = set_value_obs [where i = "StateItem cur" and v = ?w and st = st1, folded st2_def]
    have c2: "same_ctl st st2"
      using same_ctl_trans [OF moved_same_ctl [OF st1(3)] set_value_same_ctl] by (simp add: st2_def)
    note f2 = same_ctl_D [OF c2]
    have u2: "xNextTaskUnblockTime st2 = xNextTaskUnblockTime st1" by (simp add: st2_def on_lists_def)
    have w: "?w \<noteq> xTickCount st" using assms(5) by (simp add: word_gt_0)
    define l' where "l' = (if ?w < xTickCount st then pxOverflowDelayedTaskList st else pxDelayedTaskList st)"
    have v2: "value_of st2 (StateItem cur) = ?w" by (simp add: o2(1))
    have c0: "container (StateItem cur) st2 = None" using none by (simp add: o2(3))
    have l'2: "l' = pxDelayedTaskList st2 \<and> ?c \<le> unat (value_of st2 (StateItem cur)) \<or>
        l' = pxOverflowDelayedTaskList st2 \<and> unat (value_of st2 (StateItem cur)) \<le> ?d"
      using w unfolding v2 f2 l'_def by (auto simp: word_less_nat_alt not_less Suc_le_eq le_less word_unat_eq_iff)
    obtain st3 where st3: "list_insert l' (StateItem cur) st2 = Some st3" "moved (StateItem cur) (Some l') st2 st3"
      "sched_at T E ?c ?d (st3\<lparr>xNextTaskUnblockTime := (if l' = pxDelayedTaskList st2
         then min (xNextTaskUnblockTime st2) ?w else xNextTaskUnblockTime st2)\<rparr>)"
      using sched_insert_delayed [OF s2 cur(2) c0 l'2, unfolded v2] by blast
    note m3 = moved_fields [OF st3(2)]
    have ne: "pxDelayedTaskList st \<noteq> pxOverflowDelayedTaskList st"
      using assms(1) tasks_at_D(7) [of T ?c ?d st] by (auto simp: sched_at_def)
    let ?st' = "st3\<lparr>xNextTaskUnblockTime := (if l' = pxDelayedTaskList st2
         then min (xNextTaskUnblockTime st2) ?w else xNextTaskUnblockTime st2)\<rparr>"
    have run: "prvAddCurrentTaskToDelayedList n b st = Some ?st'"
    proof (cases "?w < xTickCount st")
      case True
      then have "list_insert (pxOverflowDelayedTaskList st2) (StateItem cur) st2 = Some st3" "l' \<noteq> pxDelayedTaskList st2"
        using st3(1) ne f2 by (auto simp: l'_def)
      moreover have "?st' = st3" using m3(7) \<open>l' \<noteq> pxDelayedTaskList st2\<close> by simp
      ultimately show ?thesis using True False st1(1) cur(1)
        by (auto simp add: prvAddCurrentTaskToDelayedList_def Let_def st2_def [symmetric])
    next
      case wake: False
      then have "list_insert (pxDelayedTaskList st2) (StateItem cur) st2 = Some st3" "l' = pxDelayedTaskList st2"
        using st3(1) f2 by (auto simp: l'_def)
      moreover have "?st' = (if ?w < xNextTaskUnblockTime st3 then st3\<lparr>xNextTaskUnblockTime := ?w\<rparr> else st3)"
        using m3(7) \<open>l' = pxDelayedTaskList st2\<close> by (auto simp: min_def)
      ultimately show ?thesis using wake False st1(1) cur(1)
        by (auto simp add: prvAddCurrentTaskToDelayedList_def Let_def st2_def [symmetric])
    qed
    have sc: "same_ctl st ?st'"
      using same_ctl_trans [OF c2 moved_same_ctl [OF st3(2)]] by (simp add: same_ctl_def)
    moreover have "delay_list n b st = l'" using False by (auto simp: delay_list_def l'_def)
    moreover have "sched T E ?st'" using st3(3) same_ctl_D(5) [OF sc] by simp
    ultimately show ?thesis using run m3(15,16) o2(1,3) m1(15,16) by auto
  qed
qed

subsection \<open>The tick\<close>

text \<open>Taking a task off the event it waits for, if any: a step of three operations.\<close>

lemma sched_drop_event:
  assumes "sched_at T E c d st"
  shows "\<exists>st'. (if container (EventItem t) st \<noteq> None then map_option snd (list_remove (EventItem t) st) else Some st) = Some st' \<and>
    sched_at T E c d st' \<and> moved (EventItem t) None st st'"
proof (cases "container (EventItem t) st")
  case None
  then have "moved (EventItem t) None st st" by (auto simp: moved_def)
  then show ?thesis using None assms by auto
next
  case (Some l)
  then show ?thesis using sched_remove [OF assms Some] by auto
qed

lemma tick_unblock_eq:
  assumes "sched_at T E c d st" and "container (StateItem t) st = Some l"
  shows "\<exists>st'. tick_unblock t st = Some st' \<and> sched_at T E c d st' \<and> same_ctl st st' \<and>
    xNextTaskUnblockTime st' = xNextTaskUnblockTime st \<and> value_of st' = value_of st \<and>
    (\<forall>j. container j st' = (if j = StateItem t then Some (Ready (uxPriority (tcb st t)))
       else if j = EventItem t then None else container j st))"
proof -
  obtain k st1 where st1: "list_remove (StateItem t) st = Some (k, st1)" "sched_at T E c d st1"
    "moved (StateItem t) None st st1"
    using sched_remove [OF assms] by blast
  note m1 = moved_fields [OF st1(3)]
  have t: "t \<in> T" using assms tasks_at_D(2) [of T c d st "StateItem t"] by (auto simp: sched_at_def)
  obtain st2 where st2: "(if container (EventItem t) st1 \<noteq> None
      then map_option snd (list_remove (EventItem t) st1) else Some st1) = Some st2"
    "sched_at T E c d st2" "moved (EventItem t) None st1 st2"
    using sched_drop_event [OF st1(2)] by blast
  note m2 = moved_fields [OF st2(3)]
  have none: "container (StateItem t) st2 = None" by (simp add: m2 m1)
  let ?st' = "prvAddTaskToReadyList t st2"
  note r = sched_add_ready [OF st2(2) t none]
  note m3 = made_ready_fields [OF r(2)]
  have "tick_unblock t st = Some ?st'"
    using st1(1) st2(1) by (simp add: tick_unblock_def)
  moreover have "same_ctl st ?st'"
    by (rule same_ctl_trans [OF same_ctl_trans [OF moved_same_ctl [OF st1(3)] moved_same_ctl [OF st2(3)]]
          made_ready_same_ctl [OF r(2)]])
  ultimately show ?thesis using r(1) by (auto simp: m3 m2 m1)
qed

text \<open>The loop takes every task due by \<open>now\<close> off the delayed list and leaves the others.  The
  delayed list gets shorter with every round: the number of tasks on it bounds the rounds.\<close>

definition delayed_tasks :: "ktask \<Rightarrow> task set" where
  "delayed_tasks st = {t. container (StateItem t) st = Some (pxDelayedTaskList st)}"

lemma delayed_finite: "sched_at T E c d st \<Longrightarrow> finite (delayed_tasks st)"
proof -
  assume s: "sched_at T E c d st"
  then have "finite T" by (simp add: sched_at_def tasks_at_def)
  moreover have "delayed_tasks st \<subseteq> T"
    using s tasks_at_D(2) [of T c d st "StateItem _"] by (force simp: sched_at_def delayed_tasks_def)
  ultimately show ?thesis by (rule rev_finite_subset)
qed

lemma delayed_list_kernel:
  assumes "sched_at T E c d st"
  shows "pxDelayedTaskList st \<in> {DelayedTaskList1, DelayedTaskList2}" "pxDelayedTaskList st \<in> kernel_lists E"
    "holds_state (pxDelayedTaskList st)" "pxDelayedTaskList st \<noteq> pxOverflowDelayedTaskList st"
    "pxDelayedTaskList st \<noteq> Ready p"
  using assms tasks_at_D(7) [of T c d st] by (auto simp: sched_at_def kernel_lists_def)

lemma tick_loop_eq:
  assumes "sched_at T E c d st" and "pxCurrentTCB st = Some cur"
  shows "\<exists>sw' st'. tick_loop now sw st = Some (sw', st') \<and> sched_at T E c d st' \<and> same_ctl st st' \<and>
    value_of st' = value_of st \<and>
    (\<forall>t. container (StateItem t) st' =
       (if t \<in> delayed_tasks st \<and> value_of st (StateItem t) \<le> now
        then Some (Ready (uxPriority (tcb st t))) else container (StateItem t) st)) \<and>
    (\<forall>t. container (EventItem t) st' =
       (if t \<in> delayed_tasks st \<and> value_of st (StateItem t) \<le> now then None else container (EventItem t) st)) \<and>
    (sw' \<longleftrightarrow> sw \<or> (\<exists>t \<in> delayed_tasks st. value_of st (StateItem t) \<le> now \<and>
       uxPriority (tcb st t) > uxPriority (tcb st cur)))"
  using assms
proof (induction "card (delayed_tasks st)" arbitrary: st sw rule: less_induct)
  case less
  note s = less.prems(1)
  note dl = delayed_list_kernel [OF s]
  show ?case
  proof (cases "listLIST_IS_EMPTY (pxDelayedTaskList st) (ls st)")
    case True
    then have "delayed_tasks st = {}" using list_empty [OF s dl(2)] by (simp add: delayed_tasks_def)
    moreover have "sched_at T E c d (st\<lparr>xNextTaskUnblockTime := portMAX_DELAY\<rparr>)"
      using s calculation by (auto simp: sched_at_def lists_ok_def tasks_at_def delayed_tasks_def)
    ultimately show ?thesis using True by (subst tick_loop.simps) (simp add: same_ctl_def)
  next
    case False
    obtain i where i: "container i st = Some (pxDelayedTaskList st)"
      "listGET_OWNER_OF_HEAD_ENTRY (pxDelayedTaskList st) (ls st) = item_task i"
      "\<forall>j. container j st = Some (pxDelayedTaskList st) \<longrightarrow> value_of st i \<le> value_of st j"
      using list_head [OF s dl(2) False] dl(1) by blast
    have "is_state i" using s dl(3) tasks_at_D(3) [OF _ i(1)] by (auto simp: sched_at_def)
    then obtain t where t: "i = StateItem t" by (cases i) auto
    have td: "t \<in> delayed_tasks st" using i(1) t by (simp add: delayed_tasks_def)
    let ?v = "value_of st (StateItem t)"
    have least: "?v \<le> value_of st (StateItem u)" if "u \<in> delayed_tasks st" for u
      using i(3) that t by (simp add: delayed_tasks_def)
    have head: "listGET_OWNER_OF_HEAD_ENTRY (pxDelayedTaskList st) (ls st) = t" using i(2) t by simp
    show ?thesis
    proof (cases "now < ?v")
      case True
      then have none: "\<not> value_of st (StateItem u) \<le> now" if "u \<in> delayed_tasks st" for u
        using least [OF that] by (metis not_less order.strict_trans1 order.strict_trans2)
      have "sched_at T E c d (st\<lparr>xNextTaskUnblockTime := ?v\<rparr>)"
        using s least by (auto simp: sched_at_def lists_ok_def tasks_at_def delayed_tasks_def)
      then show ?thesis using True False head none
        by (subst tick_loop.simps) (auto simp: Let_def same_ctl_def value_of_def [symmetric])
    next
      case due: False
      obtain st1 where st1: "tick_unblock t st = Some st1" "sched_at T E c d st1" "same_ctl st st1"
        "value_of st1 = value_of st"
        "\<And>j. container j st1 = (if j = StateItem t then Some (Ready (uxPriority (tcb st t)))
            else if j = EventItem t then None else container j st)"
        using tick_unblock_eq [OF s i(1) [unfolded t]] by blast
      note f1 = same_ctl_D [OF st1(3)]
      have rest: "delayed_tasks st1 = delayed_tasks st - {t}"
        by (auto simp: delayed_tasks_def st1(5) f1 dl(5) dl(5) [symmetric])
      have less_card: "card (delayed_tasks st1) < card (delayed_tasks st)"
        unfolding rest using delayed_finite [OF s] td by (rule card_Diff1_less)
      have cur1: "pxCurrentTCB st1 = Some cur" using less.prems(2) f1 by simp
      let ?sw = "if uxPriority (tcb st t) > uxPriority (tcb st cur) then True else sw"
      have step: "tick_loop now sw st = tick_loop now ?sw st1"
        using False due head st1(1) cur1 f1(1)
        by (subst tick_loop.simps) (simp add: Let_def value_of_def [symmetric])
      have le: "?v \<le> now" using due by simp
      show ?thesis unfolding step
        using less.hyps [OF less_card st1(2) cur1, of ?sw] same_ctl_trans [OF st1(3)] le td
        unfolding rest st1(4) f1(1)
        by (elim exE conjE) (intro exI conjI, assumption, assumption, blast, assumption,
          auto simp: st1(5))
    qed
  qed
qed

lemma sched_bounds:
  assumes "sched_at T E c d st" and "\<And>t. t \<in> delayed_tasks st \<Longrightarrow> c' \<le> unat (value_of st (StateItem t))"
    and "\<And>t. container (StateItem t) st = Some (pxOverflowDelayedTaskList st) \<Longrightarrow>
      unat (value_of st (StateItem t)) \<le> d'"
  shows "sched_at T E c' d' st"
  using assms unfolding sched_at_def tasks_at_def delayed_tasks_def by blast

lemma sched_unblock_0: "sched_at T E c d st \<Longrightarrow> sched_at T E c d (st\<lparr>xNextTaskUnblockTime := 0\<rparr>)"
  by (auto simp: sched_at_def tasks_at_def lists_ok_def)

lemma sched_reset:
  assumes "sched_at T E c d (st\<lparr>xNextTaskUnblockTime := 0\<rparr>)"
  shows "sched_at T E c d (prvResetNextTaskUnblockTime st)"
    and "\<exists>u. prvResetNextTaskUnblockTime st = st\<lparr>xNextTaskUnblockTime := u\<rparr>"
proof -
  let ?z = "st\<lparr>xNextTaskUnblockTime := 0\<rparr>"
  note dl = delayed_list_kernel [OF assms]
  have upd: "sched_at T E c d (st\<lparr>xNextTaskUnblockTime := u\<rparr>)"
    if "\<And>t. t \<in> delayed_tasks st \<Longrightarrow> u \<le> value_of st (StateItem t)" for u
    using assms that by (auto simp: sched_at_def tasks_at_def lists_ok_def delayed_tasks_def)
  show "sched_at T E c d (prvResetNextTaskUnblockTime st)"
  proof (cases "listLIST_IS_EMPTY (pxDelayedTaskList st) (ls st)")
    case True
    then have "delayed_tasks st = {}" using list_empty [OF assms dl(2)] by (simp add: delayed_tasks_def)
    then show ?thesis using True upd by (simp add: prvResetNextTaskUnblockTime_def)
  next
    case False
    then obtain i where "container i st = Some (pxDelayedTaskList st)"
      "listGET_ITEM_VALUE_OF_HEAD_ENTRY (pxDelayedTaskList st) (ls st) = value_of st i"
      "\<forall>j. container j st = Some (pxDelayedTaskList st) \<longrightarrow> value_of st i \<le> value_of st j"
      using list_head [OF assms dl(2)] dl(1) by auto
    then show ?thesis using False upd by (simp add: prvResetNextTaskUnblockTime_def delayed_tasks_def)
  qed
  show "\<exists>u. prvResetNextTaskUnblockTime st = st\<lparr>xNextTaskUnblockTime := u\<rparr>"
    by (auto simp: prvResetNextTaskUnblockTime_def)
qed

text \<open>Swapping the delayed lists, when nothing is left on the current one.\<close>

lemma sched_switch_lists:
  assumes "sched_at T E c d st" and "delayed_tasks st = {}"
  shows "sched_at T E 0 0 (taskSWITCH_DELAYED_LISTS st)"
    and "\<exists>u. taskSWITCH_DELAYED_LISTS st = st\<lparr>pxDelayedTaskList := pxOverflowDelayedTaskList st,
      pxOverflowDelayedTaskList := pxDelayedTaskList st, xNumOfOverflows := xNumOfOverflows st + 1,
      xNextTaskUnblockTime := u\<rparr>"
proof -
  let ?s = "st\<lparr>pxDelayedTaskList := pxOverflowDelayedTaskList st,
      pxOverflowDelayedTaskList := pxDelayedTaskList st, xNumOfOverflows := xNumOfOverflows st + 1\<rparr>"
  have obs: "value_of (?s\<lparr>xNextTaskUnblockTime := 0\<rparr>) = value_of st"
    "owner_of (?s\<lparr>xNextTaskUnblockTime := 0\<rparr>) = owner_of st"
    "container i (?s\<lparr>xNextTaskUnblockTime := 0\<rparr>) = container i st" for i
    by (simp_all add: fun_eq_iff value_of_def owner_of_def container_def)
  have "lists_ok E (?s\<lparr>xNextTaskUnblockTime := 0\<rparr>) A = lists_ok E st A" for A
    unfolding lists_ok_def obs by simp
  moreover have "tasks_at T 0 0 (?s\<lparr>xNextTaskUnblockTime := 0\<rparr>)"
    using assms unfolding sched_at_def tasks_at_def obs delayed_tasks_def by (auto simp: insert_commute)
  ultimately have "sched_at T E 0 0 (?s\<lparr>xNextTaskUnblockTime := 0\<rparr>)"
    using assms(1) by (simp add: sched_at_def)
  from sched_reset [OF this]
  show "sched_at T E 0 0 (taskSWITCH_DELAYED_LISTS st)"
    and "\<exists>u. taskSWITCH_DELAYED_LISTS st = st\<lparr>pxDelayedTaskList := pxOverflowDelayedTaskList st,
      pxOverflowDelayedTaskList := pxDelayedTaskList st, xNumOfOverflows := xNumOfOverflows st + 1,
      xNextTaskUnblockTime := u\<rparr>"
    by (simp_all add: taskSWITCH_DELAYED_LISTS_def)
qed

text \<open>The tasks a tick wakes: those whose time is the new tick count, on the list that is current
  for it.\<close>

definition due_tasks :: "ktask \<Rightarrow> task set" where
  "due_tasks st = {t. container (StateItem t) st =
       Some (if xTickCount st + 1 = 0 then pxOverflowDelayedTaskList st else pxDelayedTaskList st) \<and>
     value_of st (StateItem t) = xTickCount st + 1}"

text \<open>What the loop part of the tick does to a state whose tick count is already \<open>now\<close>.\<close>

lemma tick_scan:
  assumes s: "sched_at T E (unat now) d st" and cur: "pxCurrentTCB st = Some cur"
    and d: "d \<le> unat now" and now: "xTickCount st = now"
    and due: "due = {t \<in> delayed_tasks st. value_of st (StateItem t) = now}"
  shows "\<exists>sw st'. (if now \<ge> xNextTaskUnblockTime st then tick_loop now False st else Some (False, st)) = Some (sw, st') \<and>
    sched T E st' \<and> same_ctl st st' \<and> value_of st' = value_of st \<and>
    (\<forall>t. container (StateItem t) st' =
       (if t \<in> due then Some (Ready (uxPriority (tcb st t))) else container (StateItem t) st)) \<and>
    (\<forall>t. container (EventItem t) st' = (if t \<in> due then None else container (EventItem t) st)) \<and>
    (sw \<longleftrightarrow> (\<exists>t \<in> due. uxPriority (tcb st t) > uxPriority (tcb st cur)))"
proof -
  note dl = delayed_list_kernel [OF s]
  have lo: "unat now \<le> unat (value_of st (StateItem t))" if "t \<in> delayed_tasks st" for t
    using s that tasks_at_D(8) [of T "unat now" d st t] by (simp add: sched_at_def delayed_tasks_def)
  have ov: "unat (value_of st (StateItem t)) \<le> unat now"
    if "container (StateItem t) st = Some (pxOverflowDelayedTaskList st)" for t
    using s that d tasks_at_D(10) [of T "unat now" d st t] by (fastforce simp: sched_at_def)
  have le_iff: "value_of st (StateItem t) \<le> now \<longleftrightarrow> value_of st (StateItem t) = now" if "t \<in> delayed_tasks st" for t
    using lo [OF that] by (auto simp: word_le_nat_alt word_unat_eq_iff)
  show ?thesis
  proof (cases "now \<ge> xNextTaskUnblockTime st")
    case True
    have dueb: "(t \<in> delayed_tasks st \<and> value_of st (StateItem t) \<le> now) = (t \<in> due)" for t
      using le_iff [of t] due by auto
    obtain sw st' where st': "tick_loop now False st = Some (sw, st')" "sched_at T E (unat now) d st'"
      "same_ctl st st'" "value_of st' = value_of st"
      "\<forall>t. container (StateItem t) st' = (if t \<in> due then Some (Ready (uxPriority (tcb st t)))
         else container (StateItem t) st)"
      "\<forall>t. container (EventItem t) st' = (if t \<in> due then None else container (EventItem t) st)"
      "sw \<longleftrightarrow> False \<or> (\<exists>t \<in> delayed_tasks st. value_of st (StateItem t) \<le> now \<and>
         uxPriority (tcb st t) > uxPriority (tcb st cur))"
      using tick_loop_eq [OF s cur, of now False] unfolding dueb by blast
    note f = same_ctl_D [OF st'(3)]
    have "sched_at T E (Suc (unat now)) (unat now) st'"
    proof (rule sched_bounds [OF st'(2)])
      fix t assume "t \<in> delayed_tasks st'"
      then have "t \<in> delayed_tasks st" "value_of st (StateItem t) \<noteq> now"
        using st'(5) dl(5) [symmetric] due f(3) by (auto simp: delayed_tasks_def split: if_splits)
      then show "Suc (unat now) \<le> unat (value_of st' (StateItem t))"
        using lo [of t] st'(4) by (auto simp: word_unat_eq_iff)
    next
      fix t assume "container (StateItem t) st' = Some (pxOverflowDelayedTaskList st')"
      moreover have "pxOverflowDelayedTaskList st \<noteq> Ready p" for p
        using s tasks_at_D(7) [of T "unat now" d st] by (auto simp: sched_at_def)
      ultimately have "container (StateItem t) st = Some (pxOverflowDelayedTaskList st)"
        using st'(5) f(4) by (metis option.inject)
      then show "unat (value_of st' (StateItem t)) \<le> unat now" using ov st'(4) by simp
    qed
    moreover have "sw \<longleftrightarrow> (\<exists>t \<in> due. uxPriority (tcb st t) > uxPriority (tcb st cur))"
      using st'(7) dueb by auto
    ultimately show ?thesis using True st' f(5) now by (auto simp del: not_less)
  next
    case False
    have "now < value_of st (StateItem t)" if "t \<in> delayed_tasks st" for t
      using s that False tasks_at_D(9) [of T "unat now" d st t]
      by (auto simp: sched_at_def delayed_tasks_def not_le intro: less_le_trans)
    then have none: "due = {}" and "sched_at T E (Suc (unat now)) (unat now) st"
      using due ov by (auto intro!: sched_bounds [OF s] simp: word_less_nat_alt Suc_le_eq)
    then show ?thesis using False now by (intro exI [of _ False] exI [of _ st]) (simp add: none)
  qed
qed

end
