(* ===== verification/TasksTick.thy ===== *)
theory TasksTick
  imports TasksInv
begin

text \<open>
  The tick, \<^verbatim>\<open>xTaskIncrementTick\<close>: from a state with the scheduler invariant it always returns, wakes
  exactly the tasks that are due, and keeps the invariant.
\<close>

lemma one_less_length:
  assumes "distinct xs"
  shows "1 < length xs \<longleftrightarrow> (\<exists>i j. i \<in> set xs \<and> j \<in> set xs \<and> i \<noteq> j)"
proof (cases xs)
  case (Cons a as)
  show ?thesis
  proof (cases as)
    case (Cons b bs)
    then show ?thesis using \<open>xs = a # as\<close> assms by (intro iffI exI [of _ a] exI [of _ b]) auto
  qed (use \<open>xs = a # as\<close> in auto)
qed simp

lemma unat_wrap: "x + 1 = 0 \<Longrightarrow> unat (x :: u32) = 2 ^ 32 - 1"
proof -
  assume "x + 1 = 0"
  then have "x = - 1" by (simp add: eq_neg_iff_add_eq_0)
  moreover have "unat (- 1 :: u32) = 2 ^ 32 - 1" by (simp add: unsigned_minus_1_eq_mask mask_eq_exp_minus_1)
  ultimately show ?thesis by simp
qed

lemma slice_test:
  assumes "sched T E st" and "p < 7"
  shows "listCURRENT_LIST_LENGTH (Ready p) (ls st) > 1 \<longleftrightarrow>
    (\<exists>t u. t \<noteq> u \<and> container (StateItem t) st = Some (Ready p) \<and> container (StateItem u) st = Some (Ready p))"
proof -
  have l: "Ready p \<in> kernel_lists E" using assms(2) by (simp add: kernel_lists_def)
  obtain A where t: "tasks_at T (Suc (unat (xTickCount st))) (unat (xTickCount st)) st" and A: "lists_ok E st A"
    using assms(1) by (auto simp: sched_at_def)
  let ?xs = "fst (A (Ready p))"
  have n: "unat (listCURRENT_LIST_LENGTH (Ready p) (ls st)) = length ?xs"
    using klist_length(2) [OF lrel_list [OF lists_ok_lrel [OF A] l]] .
  have d: "distinct ?xs" by (rule lists_ok_distinct [OF A l])
  have mem: "i \<in> set ?xs \<longleftrightarrow> container i st = Some (Ready p)" for i
    using lists_ok_container [OF A l] by simp
  have st: "\<exists>t. i = StateItem t" if "i \<in> set ?xs" for i
  proof -
    have "is_state i" using that mem tasks_at_D(3) [OF t, of i "Ready p"] by simp
    then show ?thesis by (cases i) auto
  qed
  have "1 < length ?xs \<longleftrightarrow> (\<exists>i j. i \<in> set ?xs \<and> j \<in> set ?xs \<and> i \<noteq> j)"
    by (rule one_less_length [OF d])
  also have "\<dots> \<longleftrightarrow> (\<exists>t u. t \<noteq> u \<and> StateItem t \<in> set ?xs \<and> StateItem u \<in> set ?xs)"
  proof
    assume "\<exists>i j. i \<in> set ?xs \<and> j \<in> set ?xs \<and> i \<noteq> j"
    then obtain i j where ij: "i \<in> set ?xs" "j \<in> set ?xs" "i \<noteq> j" by blast
    then obtain t u where "i = StateItem t" "j = StateItem u" using st by blast
    with ij show "\<exists>t u. t \<noteq> u \<and> StateItem t \<in> set ?xs \<and> StateItem u \<in> set ?xs" by auto
  qed auto
  finally show ?thesis using n mem by (simp add: word_less_nat_alt)
qed

lemma xTaskIncrementTick_eq:
  assumes s: "sched T E st" and cur: "pxCurrentTCB st = Some cur" "cur \<in> T"
    and run: "uxSchedulerSuspended st = 0"
  shows "\<exists>sw st'. xTaskIncrementTick st = Some (sw, st') \<and> sched T E st' \<and>
    xTickCount st' = xTickCount st + 1 \<and> value_of st' = value_of st \<and>
    tcb st' = tcb st \<and> pxCurrentTCB st' = Some cur \<and> uxSchedulerSuspended st' = 0 \<and>
    xPendedTicks st' = xPendedTicks st \<and> xYieldPending st' = xYieldPending st \<and>
    xSchedulerRunning st' = xSchedulerRunning st \<and> uxCurrentNumberOfTasks st' = uxCurrentNumberOfTasks st \<and>
    yields st' = yields st \<and> owner_of st' = owner_of st \<and>
    xNumOfOverflows st' = xNumOfOverflows st + (if xTickCount st + 1 = 0 then 1 else 0) \<and>
    (pxDelayedTaskList st', pxOverflowDelayedTaskList st') =
      (if xTickCount st + 1 = 0 then (pxOverflowDelayedTaskList st, pxDelayedTaskList st)
       else (pxDelayedTaskList st, pxOverflowDelayedTaskList st)) \<and>
    (\<forall>t. container (StateItem t) st' =
       (if t \<in> due_tasks st then Some (Ready (uxPriority (tcb st t))) else container (StateItem t) st)) \<and>
    (\<forall>t. container (EventItem t) st' = (if t \<in> due_tasks st then None else container (EventItem t) st)) \<and>
    (sw \<longleftrightarrow> (\<exists>t \<in> due_tasks st. uxPriority (tcb st t) > uxPriority (tcb st cur)) \<or> xYieldPending st \<or>
       (\<exists>t u. t \<noteq> u \<and> container (StateItem t) st' = Some (Ready (uxPriority (tcb st cur))) \<and>
          container (StateItem u) st' = Some (Ready (uxPriority (tcb st cur)))))"
proof -
  let ?now = "xTickCount st + 1"
  let ?st1 = "st\<lparr>xTickCount := ?now\<rparr>"
  define st2 where "st2 = (if ?now = 0 then taskSWITCH_DELAYED_LISTS ?st1 else ?st1)"
  have s1: "sched_at T E (Suc (unat (xTickCount st))) (unat (xTickCount st)) ?st1" using s by simp
  have "\<exists>d. sched_at T E (unat ?now) d st2 \<and> d \<le> unat ?now \<and> xTickCount st2 = ?now \<and>
      value_of st2 = value_of st \<and> tcb st2 = tcb st \<and> pxCurrentTCB st2 = pxCurrentTCB st \<and>
      uxSchedulerSuspended st2 = 0 \<and> xPendedTicks st2 = xPendedTicks st \<and>
      xYieldPending st2 = xYieldPending st \<and> xSchedulerRunning st2 = xSchedulerRunning st \<and>
      uxCurrentNumberOfTasks st2 = uxCurrentNumberOfTasks st \<and> yields st2 = yields st \<and>
      owner_of st2 = owner_of st \<and>
      xNumOfOverflows st2 = xNumOfOverflows st + (if ?now = 0 then 1 else 0) \<and>
      (pxDelayedTaskList st2, pxOverflowDelayedTaskList st2) =
        (if ?now = 0 then (pxOverflowDelayedTaskList st, pxDelayedTaskList st)
         else (pxDelayedTaskList st, pxOverflowDelayedTaskList st)) \<and>
      (\<forall>i. container i st2 = container i st) \<and>
      due_tasks st = {t \<in> delayed_tasks st2. value_of st2 (StateItem t) = ?now}"
  proof (cases "?now = 0")
    case True
    have "unat (xTickCount st) = 2 ^ 32 - 1" using True by (rule unat_wrap)
    then have "container (StateItem t) st \<noteq> Some (pxDelayedTaskList st)" for t
      using s tasks_at_D(8) [of T "Suc (unat (xTickCount st))" "unat (xTickCount st)" st t]
        unat_u32_less [of "value_of st (StateItem t)"]
      by (auto simp: sched_at_def)
    then have "delayed_tasks ?st1 = {}" by (simp add: delayed_tasks_def container_def)
    note sw = sched_switch_lists [OF s1 this]
    obtain u where u: "st2 = ?st1\<lparr>pxDelayedTaskList := pxOverflowDelayedTaskList st,
      pxOverflowDelayedTaskList := pxDelayedTaskList st, xNumOfOverflows := xNumOfOverflows st + 1,
      xNextTaskUnblockTime := u\<rparr>"
      using sw(2) True by (auto simp: st2_def)
    have "sched_at T E (unat ?now) 0 st2" using sw(1) True by (simp add: st2_def)
    moreover have "value_of st2 = value_of st" "owner_of st2 = owner_of st" "container i st2 = container i st" for i
      by (simp_all add: u fun_eq_iff value_of_def owner_of_def container_def)
    ultimately show ?thesis using True run
      by (intro exI [of _ 0]) (simp add: due_tasks_def delayed_tasks_def, simp add: u)
  next
    case False
    then have "unat ?now = Suc (unat (xTickCount st))" by (simp add: unatSuc add.commute)
    then show ?thesis using False run s1
      by (intro exI [of _ "unat (xTickCount st)"]) (simp add: st2_def due_tasks_def delayed_tasks_def)
  qed
  then obtain d where d: "sched_at T E (unat ?now) d st2" "d \<le> unat ?now" "xTickCount st2 = ?now"
      "value_of st2 = value_of st" "tcb st2 = tcb st" "pxCurrentTCB st2 = pxCurrentTCB st"
      "uxSchedulerSuspended st2 = 0" "xPendedTicks st2 = xPendedTicks st"
      "xYieldPending st2 = xYieldPending st" "xSchedulerRunning st2 = xSchedulerRunning st"
      "uxCurrentNumberOfTasks st2 = uxCurrentNumberOfTasks st" "yields st2 = yields st"
      "owner_of st2 = owner_of st"
      "xNumOfOverflows st2 = xNumOfOverflows st + (if ?now = 0 then 1 else 0)"
      "(pxDelayedTaskList st2, pxOverflowDelayedTaskList st2) =
        (if ?now = 0 then (pxOverflowDelayedTaskList st, pxDelayedTaskList st)
         else (pxDelayedTaskList st, pxOverflowDelayedTaskList st))"
      "\<And>i. container i st2 = container i st"
      "due_tasks st = {t \<in> delayed_tasks st2. value_of st2 (StateItem t) = ?now}"
    by blast
  have cur2: "pxCurrentTCB st2 = Some cur" using d(6) cur(1) by simp
  obtain sw st' where st': "(if ?now \<ge> xNextTaskUnblockTime st2 then tick_loop ?now False st2
      else Some (False, st2)) = Some (sw, st')" "sched T E st'" "same_ctl st2 st'" "value_of st' = value_of st2"
    "\<forall>t. container (StateItem t) st' =
       (if t \<in> due_tasks st then Some (Ready (uxPriority (tcb st2 t))) else container (StateItem t) st2)"
    "\<forall>t. container (EventItem t) st' = (if t \<in> due_tasks st then None else container (EventItem t) st2)"
    "sw \<longleftrightarrow> (\<exists>t \<in> due_tasks st. uxPriority (tcb st2 t) > uxPriority (tcb st2 cur))"
    using tick_scan [OF d(1) cur2 d(2,3,17)] by blast
  note f = same_ctl_D [OF st'(3)]
  let ?p = "uxPriority (tcb st cur)"
  have "?p < 7" using s cur(2) by (auto simp: sched_at_def tasks_at_def)
  note slice = slice_test [OF st'(2) this]
  have "xTaskIncrementTick st =
      (if ?now \<ge> xNextTaskUnblockTime st2 then tick_loop ?now False st2 else Some (False, st2)) \<bind>
      (\<lambda>(sw, s). pxCurrentTCB s \<bind> (\<lambda>c. Some (sw \<or>
         listCURRENT_LIST_LENGTH (Ready (uxPriority (tcb s c))) (ls s) > 1 \<or> xYieldPending s, s)))"
    using run unfolding xTaskIncrementTick_def Let_def st2_def [symmetric] by simp
  also have "\<dots> =
      Some (sw \<or> listCURRENT_LIST_LENGTH (Ready ?p) (ls st') > 1 \<or> xYieldPending st', st')"
    unfolding st'(1) using cur2 f(1,2) d(5) by simp
  finally have eq: "xTaskIncrementTick st =
      Some (sw \<or> listCURRENT_LIST_LENGTH (Ready ?p) (ls st') > 1 \<or> xYieldPending st', st')" .
  show ?thesis unfolding eq slice
    by (intro exI conjI, rule refl) (use st'(2,4-7) f d(3-) cur2 in \<open>simp_all, blast\<close>)
qed

end
