(* ===== verification/TasksTime.thy ===== *)
theory TasksTime
  imports TasksTick
begin

text \<open>
  The time abstraction of the delayed lists: the ticks left for every delayed task.  A tick counts
  each down by one and wakes the task that reaches the end, whatever the tick count is and however
  often it wraps around; \<open>clock\<close> is the time since start, tick count and overflow count together.
\<close>

subsection \<open>Ticks left\<close>

definition time_left :: "ktask \<Rightarrow> task \<Rightarrow> nat option" where
  "time_left st t =
     (if container (StateItem t) st = Some (pxDelayedTaskList st)
      then Some (unat (value_of st (StateItem t)) - unat (xTickCount st))
      else if container (StateItem t) st = Some (pxOverflowDelayedTaskList st)
      then Some (2 ^ 32 + unat (value_of st (StateItem t)) - unat (xTickCount st))
      else None)"

definition count_down :: "nat \<Rightarrow> nat option \<Rightarrow> nat option" where
  "count_down k d = (case d of None \<Rightarrow> None | Some n \<Rightarrow> if n \<le> k then None else Some (n - k))"

lemma count_down_simps [simp]:
  "count_down k None = None" "count_down k (Some n) = (if n \<le> k then None else Some (n - k))"
  by (simp_all add: count_down_def)

lemma count_down_add [simp]: "count_down j (count_down k d) = count_down (k + j) d"
  by (cases d) auto

definition clock :: "ktask \<Rightarrow> nat" where
  "clock st = unat (xNumOfOverflows st) * 2 ^ 32 + unat (xTickCount st)"

lemma clock_less: "clock st < 2 ^ 64"
  using unat_u32_less [of "xNumOfOverflows st"] unat_u32_less [of "xTickCount st"] by (simp add: clock_def)

lemma clock_tick:
  assumes "xTickCount st' = xTickCount st + 1"
    and "xNumOfOverflows st' = xNumOfOverflows st + (if xTickCount st + 1 = 0 then 1 else 0)"
  shows "clock st' = (clock st + 1) mod 2 ^ 64"
proof (cases "xTickCount st + 1 = 0")
  case True
  have t: "unat (xTickCount st) = 2 ^ 32 - 1" using True by (rule unat_wrap)
  have "clock st' = unat (xNumOfOverflows st + 1) * 2 ^ 32"
    using assms True by (simp add: clock_def)
  also have "\<dots> = (unat (xNumOfOverflows st) + 1) mod 2 ^ 32 * 2 ^ 32"
    by (simp add: unat_word_ariths)
  also have "\<dots> = ((unat (xNumOfOverflows st) + 1) * 2 ^ 32) mod 2 ^ 64"
    using mult_mod_left [of "unat (xNumOfOverflows st) + 1" "2 ^ 32" "2 ^ 32"] by simp
  finally show ?thesis using t by (simp add: clock_def)
next
  case False
  then have t: "unat (xTickCount st + 1) = unat (xTickCount st) + 1" by (simp add: unatSuc add.commute)
  then have "clock st' = clock st + 1" using assms False by (simp add: clock_def)
  then show ?thesis using clock_less [of st'] by simp
qed

lemma time_left_pos:
  assumes "sched T E st" and "time_left st t = Some n"
  shows "0 < n" "n \<le> 2 ^ 32"
  using assms(2) tasks_at_D(8,10) [of T "Suc (unat (xTickCount st))" "unat (xTickCount st)" st t] assms(1)
    unat_u32_less [of "xTickCount st"] unat_u32_less [of "value_of st (StateItem t)"]
  by (auto simp: time_left_def sched_at_def split: if_splits)

lemma due_iff:
  assumes "sched T E st"
  shows "t \<in> due_tasks st \<longleftrightarrow> time_left st t = Some 1"
proof -
  have t: "tasks_at T (Suc (unat (xTickCount st))) (unat (xTickCount st)) st"
    using assms by (simp add: sched_at_def)
  note ne = tasks_at_D(7) [OF t] and lo = tasks_at_D(8) [OF t, of t] and hi = tasks_at_D(10) [OF t, of t]
  note b = unat_u32_less [of "xTickCount st"] unat_u32_less [of "value_of st (StateItem t)"]
  show ?thesis
  proof (cases "xTickCount st + 1 = 0")
    case True
    then have "unat (xTickCount st) = 2 ^ 32 - 1" by (rule unat_wrap)
    then show ?thesis using True ne lo hi b
      by (auto simp: due_tasks_def time_left_def word_unat_eq_iff)
  next
    case False
    then have "unat (xTickCount st + 1) = unat (xTickCount st) + 1" by (simp add: unatSuc add.commute)
    then show ?thesis using False ne lo hi b unat_u32_less [of "xTickCount st + 1"]
      by (auto simp: due_tasks_def time_left_def word_unat_eq_iff)
  qed
qed

subsection \<open>Many ticks\<close>

definition woken :: "nat \<Rightarrow> ktask \<Rightarrow> task set" where
  "woken k st = {t. \<exists>n. time_left st t = Some n \<and> n \<le> k}"

definition after_ticks :: "task set \<Rightarrow> nat set \<Rightarrow> nat \<Rightarrow> ktask \<Rightarrow> ktask \<Rightarrow> bool" where
  "after_ticks T E k st st' \<longleftrightarrow> sched T E st' \<and> clock st' = (clock st + k) mod 2 ^ 64 \<and>
     (\<forall>t. time_left st' t = count_down k (time_left st t)) \<and>
     (\<forall>t. t \<in> woken k st \<longrightarrow> container (StateItem t) st' = Some (Ready (uxPriority (tcb st t)))) \<and>
     (\<forall>t. time_left st t = None \<longrightarrow> container (StateItem t) st' = container (StateItem t) st) \<and>
     (\<forall>t. container (EventItem t) st' = (if t \<in> woken k st then None else container (EventItem t) st)) \<and>
     tcb st' = tcb st \<and> pxCurrentTCB st' = pxCurrentTCB st \<and>
     uxSchedulerSuspended st' = uxSchedulerSuspended st \<and> xSchedulerRunning st' = xSchedulerRunning st \<and>
     uxCurrentNumberOfTasks st' = uxCurrentNumberOfTasks st \<and> yields st' = yields st \<and>
     owner_of st' = owner_of st \<and> value_of st' = value_of st"

lemma after_ticks_0: "sched T E st \<Longrightarrow> after_ticks T E 0 st st"
  using time_left_pos(1) [of T E st] clock_less [of st]
  by (auto simp: after_ticks_def woken_def count_down_def split: option.split)

lemma after_ticks_trans:
  assumes "after_ticks T E j st st1" and "after_ticks T E k st1 st2"
  shows "after_ticks T E (j + k) st st2"
proof -
  have left: "time_left st1 t = count_down j (time_left st t)" for t
    using assms(1) by (simp add: after_ticks_def)
  have "t \<in> woken (j + k) st \<longleftrightarrow> t \<in> woken j st \<or> t \<in> woken k st1" for t
    using left [of t] by (cases "time_left st t") (auto simp: woken_def)
  moreover have "time_left st1 t = None" if "t \<in> woken j st" for t
    using left [of t] that by (auto simp: woken_def)
  moreover have "time_left st1 t = None" if "time_left st t = None" for t
    using left [of t] that by simp
  moreover have "(clock st1 + k) mod 2 ^ 64 = (clock st + (j + k)) mod 2 ^ 64"
    using assms(1) by (simp add: after_ticks_def mod_simps add.assoc)
  ultimately show ?thesis using assms unfolding after_ticks_def by (simp add: left)
qed

lemma after_tick:
  assumes s: "sched T E st" and cur: "pxCurrentTCB st = Some cur" "cur \<in> T"
    and run: "uxSchedulerSuspended st = 0"
  shows "\<exists>sw st'. xTaskIncrementTick st = Some (sw, st') \<and> after_ticks T E 1 st st' \<and>
    xPendedTicks st' = xPendedTicks st \<and> xYieldPending st' = xYieldPending st"
proof -
  obtain sw st' where st': "xTaskIncrementTick st = Some (sw, st')" "sched T E st'"
    "xTickCount st' = xTickCount st + 1" "value_of st' = value_of st" "tcb st' = tcb st"
    "pxCurrentTCB st' = Some cur" "uxSchedulerSuspended st' = 0" "xPendedTicks st' = xPendedTicks st"
    "xYieldPending st' = xYieldPending st" "xSchedulerRunning st' = xSchedulerRunning st"
    "uxCurrentNumberOfTasks st' = uxCurrentNumberOfTasks st" "yields st' = yields st"
    "owner_of st' = owner_of st"
    "xNumOfOverflows st' = xNumOfOverflows st + (if xTickCount st + 1 = 0 then 1 else 0)"
    "(pxDelayedTaskList st', pxOverflowDelayedTaskList st') =
      (if xTickCount st + 1 = 0 then (pxOverflowDelayedTaskList st, pxDelayedTaskList st)
       else (pxDelayedTaskList st, pxOverflowDelayedTaskList st))"
    "\<forall>t. container (StateItem t) st' =
       (if t \<in> due_tasks st then Some (Ready (uxPriority (tcb st t))) else container (StateItem t) st)"
    "\<forall>t. container (EventItem t) st' = (if t \<in> due_tasks st then None else container (EventItem t) st)"
    using xTaskIncrementTick_eq [OF s cur run] by blast
  have tk: "tasks_at T (Suc (unat (xTickCount st))) (unat (xTickCount st)) st"
    using s by (simp add: sched_at_def)
  have wk: "woken 1 st = due_tasks st"
    using due_iff [OF s] time_left_pos(1) [OF s] by (force simp: woken_def Suc_le_eq le_Suc_eq)
  have down: "time_left st' t = count_down 1 (time_left st t)" for t
  proof -
    note lo = tasks_at_D(8) [OF tk, of t] and hi = tasks_at_D(10) [OF tk, of t]
    note b = unat_u32_less [of "xTickCount st"] unat_u32_less [of "value_of st (StateItem t)"]
    show ?thesis
    proof (cases "t \<in> due_tasks st")
      case True
      then have "container (StateItem t) st' = Some (Ready (uxPriority (tcb st t)))" using st'(16) by simp
      then have "time_left st' t = None"
        using tasks_at_D(7) [of T "Suc (unat (xTickCount st'))" "unat (xTickCount st')" st'] st'(2)
        by (auto simp: time_left_def sched_at_def)
      then show ?thesis using due_iff [OF s] True by simp
    next
      case False
      then have c: "container (StateItem t) st' = container (StateItem t) st" using st'(16) by simp
      have n1: "time_left st t \<noteq> Some 1" using due_iff [OF s] False by simp
      show ?thesis
      proof (cases "xTickCount st + 1 = 0")
        case True
        then have w: "unat (xTickCount st) = 2 ^ 32 - 1" by (rule unat_wrap)
        show ?thesis using w True st'(3,4,15) c lo hi b n1 tasks_at_D(7) [OF tk]
          by (auto simp: time_left_def)
      next
        case False
        then have w: "unat (xTickCount st + 1) = unat (xTickCount st) + 1" by (simp add: unatSuc add.commute)
        show ?thesis using w False st'(3,4,15) c lo hi b n1 unat_u32_less [of "xTickCount st + 1"]
          tasks_at_D(7) [OF tk] by (auto simp: time_left_def)
      qed
    qed
  qed
  have none: "t \<notin> due_tasks st" if "time_left st t = None" for t using due_iff [OF s] that by simp
  have "after_ticks T E 1 st st'"
    unfolding after_ticks_def wk using st' down clock_tick [OF st'(3,14)] cur run none
    by (intro conjI) simp_all
  then show ?thesis using st'(1,8,9) by blast
qed

text \<open>\<open>n\<close> timer interrupts, with no other activity.\<close>

fun ticks :: "nat \<Rightarrow> ktask \<Rightarrow> ktask option" where
  "ticks 0 st = Some st"
| "ticks (Suc n) st = xTaskIncrementTick st \<bind> (\<lambda>(sw, st1). ticks n st1)"

lemma ticks_after:
  assumes "sched T E st" and "pxCurrentTCB st = Some cur" "cur \<in> T" and "uxSchedulerSuspended st = 0"
  shows "\<exists>st'. ticks n st = Some st' \<and> after_ticks T E n st st'"
  using assms
proof (induction n arbitrary: st)
  case 0
  then show ?case using after_ticks_0 by simp
next
  case (Suc n)
  obtain sw st1 where st1: "xTaskIncrementTick st = Some (sw, st1)" "after_ticks T E 1 st st1"
    using after_tick [OF Suc.prems] by blast
  have "\<exists>st'. ticks n st1 = Some st' \<and> after_ticks T E n st1 st'"
    by (rule Suc.IH) (use st1(2) Suc.prems in \<open>simp_all add: after_ticks_def\<close>)
  then show ?case using after_ticks_trans [OF st1(2)] st1(1) by auto
qed

lemma time_left_simps [simp]:
  "time_left (st\<lparr>xYieldPending := b\<rparr>) = time_left st" "time_left (st\<lparr>xPendedTicks := u\<rparr>) = time_left st"
  "time_left (st\<lparr>yields := n\<rparr>) = time_left st" "time_left (st\<lparr>uxSchedulerSuspended := u\<rparr>) = time_left st"
  "time_left (st\<lparr>xNextTaskUnblockTime := u\<rparr>) = time_left st"
  by (simp_all add: time_left_def fun_eq_iff)

lemma clock_simps [simp]:
  "clock (st\<lparr>xYieldPending := b\<rparr>) = clock st" "clock (st\<lparr>xPendedTicks := u\<rparr>) = clock st"
  "clock (st\<lparr>yields := n\<rparr>) = clock st" "clock (st\<lparr>uxSchedulerSuspended := u\<rparr>) = clock st"
  "clock (st\<lparr>xNextTaskUnblockTime := u\<rparr>) = clock st"
  by (simp_all add: clock_def)

lemma after_ticks_yield [simp]:
  "after_ticks T E k st (st'\<lparr>xYieldPending := b\<rparr>) = after_ticks T E k st st'"
  "after_ticks T E k st (st'\<lparr>xPendedTicks := u\<rparr>) = after_ticks T E k st st'"
  by (simp_all add: after_ticks_def)

lemma pended_ticks_after:
  assumes "sched T E st" and "pxCurrentTCB st = Some cur" "cur \<in> T" and "uxSchedulerSuspended st = 0"
  shows "\<exists>st'. pended_ticks n st = Some st' \<and> after_ticks T E n st st' \<and> xPendedTicks st' = xPendedTicks st"
  using assms
proof (induction n arbitrary: st)
  case 0
  then show ?case using after_ticks_0 by simp
next
  case (Suc n)
  obtain sw st1 where st1: "xTaskIncrementTick st = Some (sw, st1)" "after_ticks T E 1 st st1"
    "xPendedTicks st1 = xPendedTicks st"
    using after_tick [OF Suc.prems] by blast
  let ?st1 = "if sw then st1\<lparr>xYieldPending := True\<rparr> else st1"
  have a1: "after_ticks T E 1 st ?st1" using st1(2) by simp
  have "\<exists>st'. pended_ticks n ?st1 = Some st' \<and> after_ticks T E n ?st1 st' \<and> xPendedTicks st' = xPendedTicks ?st1"
    by (rule Suc.IH) (use a1 Suc.prems in \<open>simp_all only: after_ticks_def\<close>)
  then show ?case using after_ticks_trans [OF a1] st1(1,3) by auto
qed

end
