(* ===== verification/TasksSwitch.thy ===== *)
theory TasksSwitch
  imports TasksTime
begin

text \<open>
  Choosing the next task: the search of \<^verbatim>\<open>taskSELECT_HIGHEST_PRIORITY_TASK\<close> finds the highest
  priority with a ready task, and takes the task that follows the index of its list.
\<close>

text \<open>Two states that differ in the index of a list, the current task and the top ready priority.\<close>

definition same_but_current :: "ktask \<Rightarrow> ktask \<Rightarrow> bool" where
  "same_but_current st st' \<longleftrightarrow> st' = st\<lparr>ls := ls st', pxCurrentTCB := pxCurrentTCB st',
      uxTopReadyPriority := uxTopReadyPriority st', xYieldPending := xYieldPending st'\<rparr> \<and>
    nodes (ls st') = nodes (ls st)"

lemma same_but_current_fields:
  assumes "same_but_current st st'"
  shows "tcb st' = tcb st" "pxDelayedTaskList st' = pxDelayedTaskList st"
    "pxOverflowDelayedTaskList st' = pxOverflowDelayedTaskList st" "xTickCount st' = xTickCount st"
    "uxSchedulerSuspended st' = uxSchedulerSuspended st" "xPendedTicks st' = xPendedTicks st"
    "xNumOfOverflows st' = xNumOfOverflows st" "xSchedulerRunning st' = xSchedulerRunning st"
    "uxCurrentNumberOfTasks st' = uxCurrentNumberOfTasks st" "yields st' = yields st"
    "xNextTaskUnblockTime st' = xNextTaskUnblockTime st"
    "container j st' = container j st" "value_of st' = value_of st" "owner_of st' = owner_of st"
proof -
  obtain s c u y where st': "st' = st\<lparr>ls := s, pxCurrentTCB := c, uxTopReadyPriority := u, xYieldPending := y\<rparr>"
    using assms unfolding same_but_current_def by blast
  show "tcb st' = tcb st" "pxDelayedTaskList st' = pxDelayedTaskList st"
    "pxOverflowDelayedTaskList st' = pxOverflowDelayedTaskList st" "xTickCount st' = xTickCount st"
    "uxSchedulerSuspended st' = uxSchedulerSuspended st" "xPendedTicks st' = xPendedTicks st"
    "xNumOfOverflows st' = xNumOfOverflows st" "xSchedulerRunning st' = xSchedulerRunning st"
    "uxCurrentNumberOfTasks st' = uxCurrentNumberOfTasks st" "yields st' = yields st"
    "xNextTaskUnblockTime st' = xNextTaskUnblockTime st"
    by (simp_all add: st')
  show "container j st' = container j st" "value_of st' = value_of st" "owner_of st' = owner_of st"
    using assms by (simp_all add: same_but_current_def container_def value_of_def owner_of_def fun_eq_iff
        listGET_LIST_ITEM_VALUE_def)
qed

lemma select_priority_max:
  assumes "unat p < fuel" and "q \<le> p" and "\<not> listLIST_IS_EMPTY (Ready q) s"
  shows "\<exists>r. select_priority fuel s p = Some r \<and> \<not> listLIST_IS_EMPTY (Ready r) s \<and> r \<le> p \<and>
    (\<forall>r'. \<not> listLIST_IS_EMPTY (Ready r') s \<and> r' \<le> p \<longrightarrow> r' \<le> r)"
  using assms
proof (induction fuel arbitrary: p)
  case (Suc fuel)
  show ?case
  proof (cases "listLIST_IS_EMPTY (Ready p) s")
    case False
    then show ?thesis by auto
  next
    case True
    have "q \<noteq> p" using True Suc.prems(3) by auto
    then have "q < p" using Suc.prems(2) by simp
    then have "p \<noteq> 0" by auto
    with \<open>q < p\<close> have p: "unat (p - 1) = unat p - 1" "0 < unat p"
      using unat_minus_one [of p] by (auto simp: word_less_nat_alt)
    have le: "r' \<le> p - 1 \<longleftrightarrow> r' < p" for r' using p by (auto simp: word_le_nat_alt word_less_nat_alt)
    have less: "unat (p - 1) < fuel" using p Suc.prems(1) by linarith
    have le_q: "q \<le> p - 1" using le \<open>q < p\<close> by blast
    obtain r where r: "select_priority fuel s (p - 1) = Some r" "\<not> listLIST_IS_EMPTY (Ready r) s" "r \<le> p - 1"
      "\<forall>r'. \<not> listLIST_IS_EMPTY (Ready r') s \<and> r' \<le> p - 1 \<longrightarrow> r' \<le> r"
      using Suc.IH [OF less le_q Suc.prems(3)] by blast
    have "r' \<le> r" if "\<not> listLIST_IS_EMPTY (Ready r') s" "r' \<le> p" for r'
      using r(4) that True le by (metis order.not_eq_order_implies_strict)
    then show ?thesis using True r le by (auto intro: exI [of _ r])
  qed
qed simp

lemma select_highest:
  assumes s: "sched_at T E c d st" and r: "container (StateItem t0) st = Some (Ready p0)"
  shows "\<exists>cur st'. taskSELECT_HIGHEST_PRIORITY_TASK st = Some st' \<and> pxCurrentTCB st' = Some cur \<and>
    container (StateItem cur) st = Some (Ready (uxPriority (tcb st cur))) \<and>
    (\<forall>t p. container (StateItem t) st = Some (Ready p) \<longrightarrow> p \<le> uxPriority (tcb st cur)) \<and>
    sched_at T E c d st' \<and> same_but_current st st' \<and> xYieldPending st' = xYieldPending st"
proof -
  obtain A where tk: "tasks_at T c d st" and A: "lists_ok E st A" using s by (auto simp: sched_at_def)
  have top: "uxTopReadyPriority st < 7" using tk by (simp add: tasks_at_def)
  have kl: "Ready p \<in> kernel_lists E" if "p \<le> uxTopReadyPriority st" for p
    using that top by (auto simp: kernel_lists_def)
  have ne: "\<not> listLIST_IS_EMPTY (Ready p) (ls st)" if "container (StateItem t) st = Some (Ready p)" for t p
    using list_empty [OF s kl] tasks_at_D(6) [OF tk that] that by blast
  have "unat (uxTopReadyPriority st) < 7" using top by (simp add: word_less_nat_alt)
  then obtain p where p: "select_priority 7 (ls st) (uxTopReadyPriority st) = Some p"
    "\<not> listLIST_IS_EMPTY (Ready p) (ls st)" "p \<le> uxTopReadyPriority st"
    "\<forall>p'. \<not> listLIST_IS_EMPTY (Ready p') (ls st) \<and> p' \<le> uxTopReadyPriority st \<longrightarrow> p' \<le> p"
    using select_priority_max [OF _ tasks_at_D(6) [OF tk r] ne [OF r]] by blast
  note l = kl [OF p(3)]
  have xs: "fst (A (Ready p)) \<noteq> []"
    using p(2) klist_length(1) [OF lrel_list [OF lists_ok_lrel [OF A] l]] by blast
  let ?i = "fst (al_next (A (Ready p)))"
  obtain s' where s': "listGET_OWNER_OF_NEXT_ENTRY (Ready p) (ls st) = (pvOwner (nodes (ls st) (Item ?i)), s')"
    "lrel (kernel_lists E) s' (A(Ready p := snd (al_next (A (Ready p)))))" "nodes s' = nodes (ls st)"
    using listGET_OWNER_OF_NEXT_ENTRY_lrel [OF lists_ok_lrel [OF A] l xs] by blast
  have "?i \<in> set (fst (A (Ready p)))" using xs by (cases "A (Ready p)") (auto simp: al_next_def Let_def)
  then have ci: "container ?i st = Some (Ready p)" using lists_ok_container [OF A l] by blast
  have "is_state ?i" using tasks_at_D(3) [OF tk ci] by simp
  then obtain cur where i: "?i = StateItem cur" by (cases ?i) auto
  note cc = ci [unfolded i]
  have own: "pvOwner (nodes (ls st) (Item ?i)) = cur"
    using tasks_at_D(1) [OF tk tasks_at_D(2) [OF tk cc]] i by (simp add: owner_of_def)
  let ?st' = "st\<lparr>ls := s', pxCurrentTCB := Some cur, uxTopReadyPriority := p\<rparr>"
  have run: "taskSELECT_HIGHEST_PRIORITY_TASK st = Some ?st'"
    using p(1) s'(1) own by (simp add: taskSELECT_HIGHEST_PRIORITY_TASK_def)
  have same: "same_but_current st ?st'" using s'(3) by (simp add: same_but_current_def)
  note f = same_but_current_fields [OF same]
  have pr: "uxPriority (tcb st cur) = p" using tasks_at_D(5) [OF tk cc] .
  have best: "q \<le> p" if "container (StateItem t) st = Some (Ready q)" for t q
    using p(4) ne [OF that] tasks_at_D(6) [OF tk that] by blast
  have "lists_ok E ?st' (A(Ready p := snd (al_next (A (Ready p)))))"
    using A s'(2) unfolding lists_ok_def f(13) by (simp add: f(13))
  moreover have "uxTopReadyPriority ?st' < 7" using p(3) top by simp
  then have "tasks_at T c d ?st'" using tk best unfolding tasks_at_def f by simp
  ultimately show ?thesis using run cc pr best same by (auto simp: sched_at_def)
qed

lemma switch_context:
  assumes s: "sched T E st" and r: "container (StateItem t0) st = Some (Ready p0)"
    and run: "uxSchedulerSuspended st = 0"
  shows "\<exists>cur st'. vTaskSwitchContext st = Some st' \<and> pxCurrentTCB st' = Some cur \<and>
    container (StateItem cur) st = Some (Ready (uxPriority (tcb st cur))) \<and>
    (\<forall>t p. container (StateItem t) st = Some (Ready p) \<longrightarrow> p \<le> uxPriority (tcb st cur)) \<and>
    sched T E st' \<and> same_but_current st st' \<and> \<not> xYieldPending st'"
proof -
  let ?st = "st\<lparr>xYieldPending := False\<rparr>"
  obtain cur st' where st': "taskSELECT_HIGHEST_PRIORITY_TASK ?st = Some st'" "pxCurrentTCB st' = Some cur"
    "container (StateItem cur) ?st = Some (Ready (uxPriority (tcb ?st cur)))"
    "\<forall>t p. container (StateItem t) ?st = Some (Ready p) \<longrightarrow> p \<le> uxPriority (tcb ?st cur)"
    "sched_at T E (Suc (unat (xTickCount st))) (unat (xTickCount st)) st'" "same_but_current ?st st'"
    "xYieldPending st' = xYieldPending ?st"
    using select_highest [of T E "Suc (unat (xTickCount st))" "unat (xTickCount st)" ?st t0 p0] s r by auto
  have "same_but_current st st'" using st'(6) by (simp add: same_but_current_def)
  moreover have "sched T E st'" using st'(5) same_but_current_fields(4) [OF st'(6)] by simp
  ultimately show ?thesis using st' run by (simp add: vTaskSwitchContext_def)
qed

end
