(* ===== verification/TasksRun.thy ===== *)
theory TasksRun
  imports TasksSwitch
begin

text \<open>
  The scheduler at the boundary of its operations: the invariant \<open>kernel\<close>, waking tasks in every
  way the kernel does it, and leaving a suspended scheduler.
\<close>

subsection \<open>Waking a set of tasks\<close>

definition wakes :: "task set \<Rightarrow> ktask \<Rightarrow> ktask \<Rightarrow> bool" where
  "wakes W st st' \<longleftrightarrow> same_ctl (st\<lparr>xYieldPending := True\<rparr>) (st'\<lparr>xYieldPending := True\<rparr>) \<and>
     value_of st' = value_of st \<and>
     (\<forall>t. container (StateItem t) st' =
        (if t \<in> W then Some (Ready (uxPriority (tcb st t))) else container (StateItem t) st)) \<and>
     (\<forall>t. container (EventItem t) st' = (if t \<in> W then None else container (EventItem t) st))"

lemma wakes_D:
  assumes "wakes W st st'"
  shows "tcb st' = tcb st" "pxCurrentTCB st' = pxCurrentTCB st" "pxDelayedTaskList st' = pxDelayedTaskList st"
    "pxOverflowDelayedTaskList st' = pxOverflowDelayedTaskList st" "xTickCount st' = xTickCount st"
    "uxSchedulerSuspended st' = uxSchedulerSuspended st" "xPendedTicks st' = xPendedTicks st"
    "xNumOfOverflows st' = xNumOfOverflows st" "xSchedulerRunning st' = xSchedulerRunning st"
    "uxCurrentNumberOfTasks st' = uxCurrentNumberOfTasks st" "yields st' = yields st"
    "value_of st' = value_of st" "owner_of st' = owner_of st"
    "container (StateItem t) st' =
       (if t \<in> W then Some (Ready (uxPriority (tcb st t))) else container (StateItem t) st)"
    "container (EventItem t) st' = (if t \<in> W then None else container (EventItem t) st)"
  using assms by (simp_all add: wakes_def same_ctl_def)

lemma wakes_empty [simp]: "wakes {} st (st\<lparr>xYieldPending := b\<rparr>)" "wakes {} st st"
  by (simp_all add: wakes_def same_ctl_def)

lemma wakes_yield [simp]:
  "wakes W st (st'\<lparr>xYieldPending := b\<rparr>) = wakes W st st'" "wakes W (st\<lparr>xYieldPending := b\<rparr>) st' = wakes W st st'"
  by (simp_all add: wakes_def same_ctl_def)

lemma wakes_trans: "wakes V st st1 \<Longrightarrow> wakes W st1 st2 \<Longrightarrow> wakes (V \<union> W) st st2"
  by (simp add: wakes_def same_ctl_def)

lemma wakes_I:
  assumes "same_ctl st st'" and "value_of st' = value_of st"
    and "\<And>t. container (StateItem t) st' =
        (if t \<in> W then Some (Ready (uxPriority (tcb st t))) else container (StateItem t) st)"
    and "\<And>t. container (EventItem t) st' = (if t \<in> W then None else container (EventItem t) st)"
  shows "wakes W st st'"
  using assms by (simp add: wakes_def same_ctl_def)

lemma wake_one:
  assumes "sched_at T E c d st" and "container (StateItem t) st = Some l"
    and ev: "container (EventItem t) st = None"
  shows "\<exists>n st1. list_remove (StateItem t) st = Some (n, st1) \<and>
    sched_at T E c d (prvAddTaskToReadyList t st1) \<and> wakes {t} st (prvAddTaskToReadyList t st1) \<and>
    xYieldPending (prvAddTaskToReadyList t st1) = xYieldPending st"
proof -
  obtain n st1 where st1: "list_remove (StateItem t) st = Some (n, st1)" "sched_at T E c d st1"
    "moved (StateItem t) None st st1"
    using sched_remove [OF assms(1,2)] by blast
  note m1 = moved_fields [OF st1(3)]
  have t: "t \<in> T" using assms tasks_at_D(2) [of T c d st "StateItem t"] by (auto simp: sched_at_def)
  have none: "container (StateItem t) st1 = None" by (simp add: m1)
  note r = sched_add_ready [OF st1(2) t none]
  note m3 = made_ready_fields [OF r(2)]
  have "wakes {t} st (prvAddTaskToReadyList t st1)"
    by (rule wakes_I [OF same_ctl_trans [OF moved_same_ctl [OF st1(3)] made_ready_same_ctl [OF r(2)]]])
      (use ev in \<open>auto simp: m3 m1\<close>)
  then show ?thesis using st1(1) r(1) by (auto simp: m3 m1)
qed

text \<open>Taking the event item off its list first, as an event or a resumed scheduler does.\<close>

lemma wake_event:
  assumes "sched_at T E c d st" and "container (StateItem t) st = Some l" and "container (EventItem t) st = Some e"
  shows "\<exists>m n st1 st2. list_remove (EventItem t) st = Some (m, st1) \<and> moved (EventItem t) None st st1 \<and>
    list_remove (StateItem t) st1 = Some (n, st2) \<and> sched_at T E c d st1 \<and>
    sched_at T E c d (prvAddTaskToReadyList t st2) \<and> wakes {t} st (prvAddTaskToReadyList t st2) \<and>
    xYieldPending (prvAddTaskToReadyList t st2) = xYieldPending st"
proof -
  obtain m st1 where st1: "list_remove (EventItem t) st = Some (m, st1)" "sched_at T E c d st1"
    "moved (EventItem t) None st st1"
    using sched_remove [OF assms(1,3)] by blast
  note m1 = moved_fields [OF st1(3)]
  have c: "container (StateItem t) st1 = Some l" "container (EventItem t) st1 = None" using assms(2) by (simp_all add: m1)
  obtain n st2 where st2: "list_remove (StateItem t) st1 = Some (n, st2)"
    "sched_at T E c d (prvAddTaskToReadyList t st2)" "wakes {t} st1 (prvAddTaskToReadyList t st2)"
    "xYieldPending (prvAddTaskToReadyList t st2) = xYieldPending st1"
    using wake_one [OF st1(2) c] by blast
  note w = wakes_D [OF st2(3)]
  have "wakes {t} st (prvAddTaskToReadyList t st2)"
    by (rule wakes_I) (simp_all add: same_ctl_def w m1 st2(4))
  then show ?thesis using st1 st2 by (auto simp: m1)
qed

subsection \<open>The invariant between operations\<close>

definition kernel :: "task set \<Rightarrow> nat set \<Rightarrow> task \<Rightarrow> ktask \<Rightarrow> bool" where
  "kernel T E idle st \<longleftrightarrow> sched T E st \<and> idle \<in> T \<and>
     container (StateItem idle) st = Some (Ready (uxPriority (tcb st idle))) \<and>
     (\<forall>t \<in> T. container (StateItem t) st \<noteq> None) \<and>
     (\<forall>t. container (EventItem t) st \<noteq> None \<longrightarrow>
        container (StateItem t) st \<in> {Some DelayedTaskList1, Some DelayedTaskList2, Some Suspended}) \<and>
     (\<exists>cur \<in> T. pxCurrentTCB st = Some cur) \<and> 0 < uxCurrentNumberOfTasks st"

lemma kernel_D:
  assumes "kernel T E idle st"
  shows "sched T E st" "idle \<in> T" "container (StateItem idle) st = Some (Ready (uxPriority (tcb st idle)))"
    "t \<in> T \<Longrightarrow> \<exists>l. container (StateItem t) st = Some l"
    "container (EventItem t) st \<noteq> None \<Longrightarrow>
      container (StateItem t) st \<in> {Some DelayedTaskList1, Some DelayedTaskList2, Some Suspended}"
    "\<exists>cur. pxCurrentTCB st = Some cur \<and> cur \<in> T" "container (EventItem idle) st = None"
    "0 < uxCurrentNumberOfTasks st"
  using assms by (auto simp: kernel_def)

lemma kernel_tasks:
  assumes "kernel T E idle st" and "container i st = Some l"
  shows "item_task i \<in> T" "is_state i = holds_state l"
  using assms tasks_at_D(2,3) [of T "Suc (unat (xTickCount st))" "unat (xTickCount st)" st i l]
  by (auto simp: kernel_def sched_at_def)

lemma kernel_wakes:
  assumes "kernel T E idle st" and "wakes W st st'" and "sched T E st'" and "W \<subseteq> T"
  shows "kernel T E idle st'"
  using assms unfolding kernel_def wakes_D [OF assms(2)] by (auto simp: wakes_D [OF assms(2)])

lemma kernel_fields [simp]:
  "kernel T E idle (st\<lparr>yields := n\<rparr>) = kernel T E idle st"
  "kernel T E idle (st\<lparr>xYieldPending := b\<rparr>) = kernel T E idle st"
  "kernel T E idle (st\<lparr>xPendedTicks := u\<rparr>) = kernel T E idle st"
  "kernel T E idle (st\<lparr>uxSchedulerSuspended := u\<rparr>) = kernel T E idle st"
  by (simp_all add: kernel_def)

lemma woken_tasks: "sched T E st \<Longrightarrow> woken k st \<subseteq> T"
  using tasks_at_D(2) [of T "Suc (unat (xTickCount st))" "unat (xTickCount st)" st "StateItem _"]
  by (fastforce simp: woken_def time_left_def sched_at_def split: if_splits)

lemma kernel_after_ticks:
  assumes k: "kernel T E idle st" and a: "after_ticks T E n st st'"
  shows "kernel T E idle st'"
proof -
  note kd = kernel_D [OF k]
  have s': "sched T E st'" using a by (simp add: after_ticks_def)
  have lists: "container (StateItem t) st' \<in> {Some DelayedTaskList1, Some DelayedTaskList2}"
    if "time_left st t \<noteq> None" "t \<notin> woken n st" for t
  proof -
    have "time_left st' t \<noteq> None" using a that by (auto simp: after_ticks_def woken_def)
    then show ?thesis
      using s' tasks_at_D(7) [of T "Suc (unat (xTickCount st'))" "unat (xTickCount st')" st']
      by (auto simp: time_left_def sched_at_def split: if_splits)
  qed
  have c: "container (StateItem t) st' = container (StateItem t) st \<or>
      container (StateItem t) st' \<in> {Some DelayedTaskList1, Some DelayedTaskList2} \<and> t \<notin> woken n st \<or>
      t \<in> woken n st \<and> container (StateItem t) st' = Some (Ready (uxPriority (tcb st t)))" for t
    using lists [of t] a by (cases "time_left st t") (auto simp: after_ticks_def)
  have "time_left st idle = None"
    using kd(1,3) tasks_at_D(7) [of T "Suc (unat (xTickCount st))" "unat (xTickCount st)" st]
    by (auto simp: time_left_def sched_at_def)
  then have "container (StateItem idle) st' = Some (Ready (uxPriority (tcb st' idle)))"
    using a kd(3) by (simp add: after_ticks_def)
  moreover have "container (StateItem t) st' \<noteq> None" if "t \<in> T" for t using c [of t] kd(4) [OF that] by auto
  moreover have "container (StateItem t) st' \<in> {Some DelayedTaskList1, Some DelayedTaskList2, Some Suspended}"
    if "container (EventItem t) st' \<noteq> None" for t
  proof -
    have "t \<notin> woken n st" "container (EventItem t) st \<noteq> None"
      using that a by (auto simp: after_ticks_def split: if_splits)
    then show ?thesis using c [of t] kd(5) [of t] by auto
  qed
  moreover have "\<exists>cur \<in> T. pxCurrentTCB st' = Some cur" using kd(6) a by (auto simp: after_ticks_def)
  moreover have "0 < uxCurrentNumberOfTasks st'" using kd(8) a by (simp add: after_ticks_def)
  ultimately show ?thesis using s' kd(2) unfolding kernel_def by blast
qed

subsection \<open>Leaving a suspended scheduler\<close>

definition pending :: "ktask \<Rightarrow> task set" where
  "pending st = {t. container (EventItem t) st = Some PendingReady}"

lemma pending_kernel: "kernel T E idle st \<Longrightarrow> pending st \<subseteq> T"
  using kernel_tasks(1) [of T E idle st "EventItem _"] by (fastforce simp: pending_def)

lemma resume_pending_eq:
  assumes "kernel T E idle st" and "pxCurrentTCB st = Some cur"
  shows "\<exists>st'. resume_pending mv st = Some (mv \<or> pending st \<noteq> {}, st') \<and> kernel T E idle st' \<and>
    wakes (pending st) st st' \<and> (xYieldPending st' \<longleftrightarrow> xYieldPending st \<or>
      (\<exists>t \<in> pending st. uxPriority (tcb st t) \<ge> uxPriority (tcb st cur)))"
  using assms
proof (induction "card (pending st)" arbitrary: st mv rule: less_induct)
  case less
  note k = less.prems(1) and kd = kernel_D [OF less.prems(1)]
  have pl: "PendingReady \<in> kernel_lists E" by (simp add: kernel_lists_def)
  have fin: "finite (pending st)"
    using pending_kernel [OF k] kd(1) finite_subset by (auto simp: sched_at_def tasks_at_def)
  show ?case
  proof (cases "listLIST_IS_EMPTY PendingReady (ls st)")
    case True
    then have "pending st = {}" using list_empty [OF kd(1) pl] by (simp add: pending_def)
    then show ?thesis using True k by (subst resume_pending.simps) auto
  next
    case False
    obtain i where i: "container i st = Some PendingReady"
      "listGET_OWNER_OF_HEAD_ENTRY PendingReady (ls st) = item_task i"
      using list_head [OF kd(1) pl False] by blast
    have "\<not> is_state i" using kernel_tasks(2) [OF k i(1)] by simp
    then obtain t where t: "i = EventItem t" by (cases i) auto
    note ce = i(1) [unfolded t]
    have tp: "t \<in> pending st" using ce by (simp add: pending_def)
    obtain l where cs: "container (StateItem t) st = Some l" using kd(5) [of t] ce by auto
    obtain m n st1 st2 where r: "list_remove (EventItem t) st = Some (m, st1)"
      "list_remove (StateItem t) st1 = Some (n, st2)"
      "sched_at T E (Suc (unat (xTickCount st))) (unat (xTickCount st)) (prvAddTaskToReadyList t st2)"
      "wakes {t} st (prvAddTaskToReadyList t st2)"
      "xYieldPending (prvAddTaskToReadyList t st2) = xYieldPending st"
      using wake_event [OF kd(1) cs ce] by blast
    let ?st3 = "prvAddTaskToReadyList t st2"
    note w3 = wakes_D [OF r(4)]
    define st4 where "st4 = (if uxPriority (tcb ?st3 t) \<ge> uxPriority (tcb ?st3 cur)
                     then ?st3\<lparr>xYieldPending := True\<rparr> else ?st3)"
    have w4: "wakes {t} st st4" using r(4) by (simp add: st4_def)
    have y4: "xYieldPending st4 \<longleftrightarrow> xYieldPending st \<or> uxPriority (tcb st t) \<ge> uxPriority (tcb st cur)"
      using r(5) by (simp add: st4_def w3(1))
    have "sched T E st4" using r(3) by (simp add: st4_def w3(5))
    then have k4: "kernel T E idle st4"
      by (rule kernel_wakes [OF k w4]) (use tp pending_kernel [OF k] in auto)
    have p4: "pending st4 = pending st - {t}" by (auto simp: pending_def wakes_D [OF w4])
    have lt: "card (pending st4) < card (pending st)" unfolding p4 by (rule card_Diff1_less [OF fin tp])
    have cur4: "pxCurrentTCB st4 = Some cur" using less.prems(2) wakes_D(2) [OF w4] by simp
    obtain st' where st': "resume_pending True st4 = Some (True, st')" "kernel T E idle st'"
      "wakes (pending st4) st4 st'" "xYieldPending st' \<longleftrightarrow> xYieldPending st4 \<or>
        (\<exists>t \<in> pending st4. uxPriority (tcb st4 t) \<ge> uxPriority (tcb st4 cur))"
      using less.hyps [OF lt k4 cur4, of True] by (simp only: simp_thms) blast
    have "wakes (pending st) st st'" using wakes_trans [OF w4 st'(3)] tp unfolding p4 by (simp add: insert_absorb)
    moreover have "resume_pending mv st = resume_pending True st4"
      using False i(2) t r(1,2) less.prems(2) w3(2)
      by (subst resume_pending.simps) (simp add: Let_def st4_def)
    moreover have "xYieldPending st' \<longleftrightarrow> xYieldPending st \<or>
        (\<exists>t \<in> pending st. uxPriority (tcb st t) \<ge> uxPriority (tcb st cur))"
      using st'(4) tp unfolding y4 p4 wakes_D(1) [OF w4] by auto
    ultimately show ?thesis using st'(1,2) tp by auto
  qed
qed

lemma kernel_reset:
  assumes "kernel T E idle st"
  shows "kernel T E idle (prvResetNextTaskUnblockTime st)"
    "\<exists>u. prvResetNextTaskUnblockTime st = st\<lparr>xNextTaskUnblockTime := u\<rparr>"
proof -
  note r = sched_reset [OF sched_unblock_0 [OF kernel_D(1) [OF assms]]]
  then show u: "\<exists>u. prvResetNextTaskUnblockTime st = st\<lparr>xNextTaskUnblockTime := u\<rparr>" by blast
  then obtain u where u: "prvResetNextTaskUnblockTime st = st\<lparr>xNextTaskUnblockTime := u\<rparr>" by blast
  then show "kernel T E idle (prvResetNextTaskUnblockTime st)" using r(1) assms by (simp add: kernel_def)
qed

text \<open>The last \<^verbatim>\<open>xTaskResumeAll\<close>: pending tasks first, then the ticks that were held back.\<close>

lemma resume_all:
  assumes k: "kernel T E idle st" and one: "uxSchedulerSuspended st = 1"
  shows "\<exists>y st1 st'. xTaskResumeAll st = Some (y, st') \<and> kernel T E idle st' \<and>
    wakes (pending st) (st\<lparr>uxSchedulerSuspended := 0\<rparr>) st1 \<and>
    after_ticks T E (unat (xPendedTicks st)) st1 (st'\<lparr>yields := yields st\<rparr>) \<and> xPendedTicks st' = 0 \<and>
    yields st' = (if y then yields st + 1 else yields st)"
proof -
  let ?st0 = "st\<lparr>uxSchedulerSuspended := 0\<rparr>"
  have k0: "kernel T E idle ?st0" using k by simp
  obtain cur where cur: "pxCurrentTCB st = Some cur" "cur \<in> T" using kernel_D(6) [OF k] by blast
  obtain st1 where st1: "resume_pending False ?st0 = Some (pending ?st0 \<noteq> {}, st1)" "kernel T E idle st1"
    "wakes (pending ?st0) ?st0 st1"
    using resume_pending_eq [OF k0, of cur False] cur(1) by auto
  have p0: "pending ?st0 = pending st" by (simp add: pending_def)
  note w1 = wakes_D [OF st1(3)]
  define st2 where "st2 = (if pending st \<noteq> {} then prvResetNextTaskUnblockTime st1 else st1)"
  have k2: "kernel T E idle st2" using st1(2) kernel_reset(1) by (simp add: st2_def)
  obtain u where u: "st2 = st1\<lparr>xNextTaskUnblockTime := u\<rparr>"
  proof (cases "pending st = {}")
    case True
    then show ?thesis using that [of "xNextTaskUnblockTime st1"] by (simp add: st2_def)
  next
    case False
    then show ?thesis using that kernel_reset(2) [OF st1(2)] by (auto simp: st2_def)
  qed
  have w2: "wakes (pending st) ?st0 st2" using st1(3) unfolding u p0 wakes_def same_ctl_def by simp
  note w2D = wakes_D [OF w2]
  let ?n = "unat (xPendedTicks st)"
  obtain st3 where st3: "pended_ticks ?n st2 = Some st3" "after_ticks T E ?n st2 st3"
    "xPendedTicks st3 = xPendedTicks st2"
    using pended_ticks_after [OF kernel_D(1) [OF k2], of cur ?n] cur w2D by auto
  define st4 where "st4 = st3\<lparr>xPendedTicks := 0\<rparr>"
  have n4: "(if xPendedTicks st2 > 0
      then map_option (\<lambda>s. s\<lparr>xPendedTicks := 0\<rparr>) (pended_ticks (unat (xPendedTicks st2)) st2)
      else Some st2) = Some st4"
  proof (cases "xPendedTicks st = 0")
    case True
    then have "st3 = st2" using st3(1) by simp
    then have "st4 = st2" using True w2D(7) by (simp add: st4_def)
    then show ?thesis using True w2D(7) by simp
  next
    case False
    then show ?thesis using st3(1) w2D(7) by (simp add: word_gt_0 st4_def)
  qed
  have a4: "after_ticks T E ?n st2 st4"
    using st3(2) by (simp add: st4_def)
  have k4: "kernel T E idle st4" by (rule kernel_after_ticks [OF k2 a4])
  have y4: "yields st4 = yields st" using a4 w2D(11) by (simp add: after_ticks_def)
  have num: "uxCurrentNumberOfTasks st > 0" using kernel_D(8) [OF k] .
  have "xTaskResumeAll st = (if xPendedTicks st2 > 0
      then map_option (\<lambda>s. s\<lparr>xPendedTicks := 0\<rparr>) (pended_ticks (unat (xPendedTicks st2)) st2)
      else Some st2) \<bind> (\<lambda>s. if xYieldPending s then Some (True, taskYIELD_IF_USING_PREEMPTION s) else Some (False, s))"
    using one num st1(1) p0 unfolding xTaskResumeAll_def Let_def by (simp add: st2_def)
  then have run: "xTaskResumeAll st = (if xYieldPending st4 then Some (True, taskYIELD_IF_USING_PREEMPTION st4)
      else Some (False, st4))"
    unfolding n4 by simp
  have "st4\<lparr>yields := yields st\<rparr> = st4" unfolding y4 [symmetric] by simp
  then have a5: "after_ticks T E ?n st2 (st4\<lparr>yields := yields st\<rparr>)" using a4 by simp
  show ?thesis
  proof (cases "xYieldPending st4")
    case True
    show ?thesis
      by - (rule exI [of _ True], rule exI [of _ st2], rule exI [of _ "taskYIELD_IF_USING_PREEMPTION st4"],
        use True run k4 w2 y4 a5 in \<open>simp add: taskYIELD_IF_USING_PREEMPTION_def st4_def\<close>)
  next
    case False
    then show ?thesis
      by - (rule exI [of _ False], rule exI [of _ st2], rule exI [of _ st4],
        use run k4 w2 y4 a5 in \<open>simp add: st4_def\<close>)
  qed
qed

end
