(* ===== verification/TasksDelay.thy ===== *)
theory TasksDelay
  imports TasksRun
begin

text \<open>
  Delays and time-outs, stated over the ticks that pass: a delayed task is ready again after exactly
  the ticks it asked for, and a time-out expires after exactly its ticks, across wrap-arounds of
  the tick count.
\<close>

definition settled :: "ktask \<Rightarrow> bool" where
  "settled st \<longleftrightarrow> (uxSchedulerSuspended st = 0 \<longrightarrow> xPendedTicks st = 0 \<and> pending st = {})"

text \<open>What blocking the current task changes.\<close>

definition blocks :: "task \<Rightarrow> klid \<Rightarrow> ktask \<Rightarrow> ktask \<Rightarrow> bool" where
  "blocks cur l st st' \<longleftrightarrow> same_ctl st st' \<and>
     (\<forall>j. container j st' = (if j = StateItem cur then Some l else container j st)) \<and>
     (\<forall>j. j \<noteq> StateItem cur \<longrightarrow> value_of st' j = value_of st j)"

lemma blocks_D:
  assumes "blocks cur l st st'"
  shows "same_ctl st st'" "container j st' = (if j = StateItem cur then Some l else container j st)"
    "j \<noteq> StateItem cur \<Longrightarrow> value_of st' j = value_of st j"
  using assms unfolding blocks_def by blast+

lemma delay_list_cases:
  assumes "sched T E st"
  shows "delay_list n b st \<in> {DelayedTaskList1, DelayedTaskList2, Suspended}"
  using tasks_at_D(7) [of T "Suc (unat (xTickCount st))" "unat (xTickCount st)" st] assms
  by (auto simp: delay_list_def sched_at_def)

lemma delayed_time:
  assumes s: "sched T E st" and cur: "pxCurrentTCB st = Some cur" "cur \<in> T"
    and l: "container (StateItem cur) st = Some l" and n: "0 < n"
  shows "\<exists>st'. prvAddCurrentTaskToDelayedList n b st = Some st' \<and> sched T E st' \<and>
    blocks cur (delay_list n b st) st st' \<and>
    (delay_list n b st \<noteq> Suspended \<longrightarrow> time_left st' cur = Some (unat n)) \<and>
    (\<forall>t. t \<noteq> cur \<longrightarrow> time_left st' t = time_left st t) \<and> clock st' = clock st"
proof -
  obtain st' where st': "prvAddCurrentTaskToDelayedList n b st = Some st'" "sched T E st'" "same_ctl st st'"
    "\<forall>j. container j st' = (if j = StateItem cur then Some (delay_list n b st) else container j st)"
    "delay_list n b st \<noteq> Suspended \<longrightarrow> value_of st' (StateItem cur) = xTickCount st + n"
    "\<forall>j. j \<noteq> StateItem cur \<longrightarrow> value_of st' j = value_of st j"
    using add_delayed [OF s cur l n] by blast
  note f = same_ctl_D [OF st'(3)]
  have dl: "delay_list n b st \<in> {DelayedTaskList1, DelayedTaskList2, Suspended}"
    by (rule delay_list_cases [OF s])
  have tk: "pxDelayedTaskList st = DelayedTaskList1 \<and> pxOverflowDelayedTaskList st = DelayedTaskList2 \<or>
      pxDelayedTaskList st = DelayedTaskList2 \<and> pxOverflowDelayedTaskList st = DelayedTaskList1"
    using tasks_at_D(7) [of T "Suc (unat (xTickCount st))" "unat (xTickCount st)" st] s
    by (auto simp: sched_at_def)
  have bl: "blocks cur (delay_list n b st) st st'" unfolding blocks_def using st'(3,4,6) by blast
  have "time_left st' cur = Some (unat n)" if ns: "delay_list n b st \<noteq> Suspended"
  proof -
    let ?v = "xTickCount st + n"
    have v: "value_of st' (StateItem cur) = ?v" using st'(5) ns by blast
    have un: "unat ?v = (if ?v < xTickCount st then unat (xTickCount st) + unat n - 2 ^ 32
        else unat (xTickCount st) + unat n)"
      and "?v < xTickCount st \<longleftrightarrow> 2 ^ 32 \<le> unat (xTickCount st) + unat n"
    proof -
      have "unat ?v = (unat (xTickCount st) + unat n) mod 2 ^ 32" by (simp add: unat_word_ariths)
      moreover have "(a + c) mod 2 ^ 32 = (if 2 ^ 32 \<le> a + c then a + c - 2 ^ 32 else a + c)"
        if "a < 2 ^ 32" "c < 2 ^ 32" for a c :: nat
        using that by (auto simp: le_mod_geq)
      ultimately have *: "unat ?v = (if 2 ^ 32 \<le> unat (xTickCount st) + unat n
          then unat (xTickCount st) + unat n - 2 ^ 32 else unat (xTickCount st) + unat n)"
        using unat_u32_less by metis
      then show c: "?v < xTickCount st \<longleftrightarrow> 2 ^ 32 \<le> unat (xTickCount st) + unat n"
        using unat_u32_less [of n] by (auto simp: word_less_nat_alt)
      show "unat ?v = (if ?v < xTickCount st then unat (xTickCount st) + unat n - 2 ^ 32
          else unat (xTickCount st) + unat n)" unfolding c by (rule *)
    qed
    then show ?thesis using ns st'(4) tk v
      by (auto simp: time_left_def f delay_list_def split: if_splits)
  qed
  moreover have "time_left st' t = time_left st t" if "t \<noteq> cur" for t
    using st'(4,6) that by (simp add: time_left_def f)
  moreover have "clock st' = clock st" by (simp add: clock_def f)
  ultimately show ?thesis using st'(1,2) bl by blast
qed

lemma block_current:
  assumes k: "kernel T E idle st" and cur: "pxCurrentTCB st = Some cur" and n: "0 < n" and ni: "cur \<noteq> idle"
  shows "\<exists>st'. prvAddCurrentTaskToDelayedList n b st = Some st' \<and> kernel T E idle st' \<and>
    blocks cur (delay_list n b st) st st' \<and>
    (delay_list n b st \<noteq> Suspended \<longrightarrow> time_left st' cur = Some (unat n)) \<and>
    (\<forall>t. t \<noteq> cur \<longrightarrow> time_left st' t = time_left st t) \<and> clock st' = clock st"
proof -
  note kd = kernel_D [OF k]
  have ct: "cur \<in> T" using kd(6) cur by auto
  obtain l where l: "container (StateItem cur) st = Some l" using kd(4) [OF ct] by blast
  obtain st' where st': "prvAddCurrentTaskToDelayedList n b st = Some st'" "sched T E st'"
    "blocks cur (delay_list n b st) st st'" "delay_list n b st \<noteq> Suspended \<longrightarrow> time_left st' cur = Some (unat n)"
    "\<forall>t. t \<noteq> cur \<longrightarrow> time_left st' t = time_left st t" "clock st' = clock st"
    using delayed_time [OF kd(1) cur ct l n, of b] by blast
  note f = same_ctl_D [OF blocks_D(1) [OF st'(3)]]
  have "kernel T E idle st'"
    unfolding kernel_def using st'(2) blocks_D(2) [OF st'(3)] kd delay_list_cases [OF kd(1), of n b] ct ni
    by (simp add: f cur)
  then show ?thesis using st' by blast
qed

lemma vTaskSuspendAll_fields [simp]:
  "container j (vTaskSuspendAll st) = container j st" "value_of (vTaskSuspendAll st) = value_of st"
  "time_left (vTaskSuspendAll st) = time_left st" "clock (vTaskSuspendAll st) = clock st"
  "kernel T E idle (vTaskSuspendAll st) = kernel T E idle st"
  "pending (vTaskSuspendAll st) = pending st"
  by (simp_all add: vTaskSuspendAll_def pending_def)

text \<open>Resuming a scheduler with nothing pending changes nothing but the flags.\<close>

lemma resume_all_quiet:
  assumes k: "kernel T E idle st" and one: "uxSchedulerSuspended st = 1"
    and quiet: "xPendedTicks st = 0" "pending st = {}"
  shows "\<exists>y st'. xTaskResumeAll st = Some (y, st') \<and> kernel T E idle st' \<and>
    (\<forall>t. time_left st t = None \<longrightarrow> container (StateItem t) st' = container (StateItem t) st) \<and>
    (\<forall>t. container (EventItem t) st' = container (EventItem t) st) \<and>
    tcb st' = tcb st \<and> time_left st' = time_left st \<and>
    clock st' = clock st \<and> pxCurrentTCB st' = pxCurrentTCB st \<and> uxSchedulerSuspended st' = 0 \<and>
    xPendedTicks st' = 0 \<and> yields st' = (if y then yields st + 1 else yields st) \<and>
    xSchedulerRunning st' = xSchedulerRunning st"
proof -
  obtain y st1 st' where r: "xTaskResumeAll st = Some (y, st')" "kernel T E idle st'"
    "wakes {} (st\<lparr>uxSchedulerSuspended := 0\<rparr>) st1"
    "after_ticks T E 0 st1 (st'\<lparr>yields := yields st\<rparr>)" "xPendedTicks st' = 0"
    "yields st' = (if y then yields st + 1 else yields st)"
    using resume_all [OF k one] unfolding quiet by auto
  note w = wakes_D [OF r(3)]
  have left: "time_left st1 = time_left st" by (simp add: time_left_def fun_eq_iff w)
  have "clock st1 = clock st" by (simp add: clock_def w)
  then have "clock st' = clock st" using r(4) clock_less [of st] by (simp add: after_ticks_def)
  moreover have c1: "container j st1 = container j st" for j by (cases j) (simp_all add: w)
  have woken0: "woken 0 st1 = {}"
    using left time_left_pos(1) [OF kernel_D(1) [OF k]] by (fastforce simp: woken_def)
  have "time_left st' t = time_left st t" for t
    using r(4) left time_left_pos(1) [OF kernel_D(1) [OF k], of t]
    by (cases "time_left st t") (auto simp: after_ticks_def)
  moreover have same: "tcb st' = tcb st" "pxCurrentTCB st' = pxCurrentTCB st" "uxSchedulerSuspended st' = 0"
    "xSchedulerRunning st' = xSchedulerRunning st"
    using r(4) w by (simp_all add: after_ticks_def)
  moreover have "container (EventItem t) st' = container (EventItem t) st" for t
    using r(4) woken0 c1 by (simp add: after_ticks_def)
  moreover have "container (StateItem t) st' = container (StateItem t) st" if "time_left st t = None" for t
    using r(4) left c1 that by (simp add: after_ticks_def)
  ultimately show ?thesis using r same by (intro exI [of _ y] exI [of _ st']) (auto simp: fun_eq_iff)
qed

text \<open>From the tick a task is delayed on, it is ready after exactly the ticks it has left.\<close>

lemma ready_after:
  assumes k: "kernel T E idle st" and run: "uxSchedulerSuspended st = 0" and left: "time_left st t = Some n"
  shows "\<exists>st'. ticks m st = Some st' \<and>
    (container (StateItem t) st' = Some (Ready (uxPriority (tcb st t))) \<longleftrightarrow> n \<le> m)"
proof -
  note kd = kernel_D [OF k]
  obtain cur where cur: "pxCurrentTCB st = Some cur" "cur \<in> T" using kd(6) by blast
  obtain st' where st': "ticks m st = Some st'" "after_ticks T E m st st'"
    using ticks_after [OF kd(1) cur run] by blast
  have a: "time_left st' t = count_down m (Some n)" using st'(2) left by (simp add: after_ticks_def)
  show ?thesis
  proof (cases "n \<le> m")
    case True
    then have "t \<in> woken m st" using left by (simp add: woken_def)
    then show ?thesis using True st' by (simp add: after_ticks_def)
  next
    case False
    then have "time_left st' t \<noteq> None" using a by simp
    moreover have "sched T E st'" using st'(2) by (simp add: after_ticks_def)
    ultimately have "container (StateItem t) st' \<noteq> Some (Ready p)" for p
      using tasks_at_D(7) [of T "Suc (unat (xTickCount st'))" "unat (xTickCount st')" st']
      by (auto simp: time_left_def sched_at_def split: if_splits)
    then show ?thesis using False st'(1) by simp
  qed
qed

lemma delay_then_resume:
  assumes k: "kernel T E idle st" and cur: "pxCurrentTCB st = Some cur" "cur \<noteq> idle"
    and run: "uxSchedulerSuspended st = 0" and st: "settled st" and n: "0 < n"
  shows "\<exists>st1 y st'. prvAddCurrentTaskToDelayedList n False (vTaskSuspendAll st) = Some st1 \<and>
    xTaskResumeAll st1 = Some (y, st') \<and> kernel T E idle st' \<and>
    time_left st' cur = Some (unat n) \<and> (\<forall>t. t \<noteq> cur \<longrightarrow> time_left st' t = time_left st t) \<and>
    (\<forall>t. t \<noteq> cur \<longrightarrow> time_left st t = None \<longrightarrow> container (StateItem t) st' = container (StateItem t) st) \<and>
    (\<forall>t. container (EventItem t) st' = container (EventItem t) st) \<and> tcb st' = tcb st \<and>
    clock st' = clock st \<and> pxCurrentTCB st' = Some cur \<and> uxSchedulerSuspended st' = 0 \<and> settled st' \<and>
    yields st' = (if y then yields st + 1 else yields st) \<and> xSchedulerRunning st' = xSchedulerRunning st"
proof -
  let ?st0 = "vTaskSuspendAll st"
  have k0: "kernel T E idle ?st0" and cur0: "pxCurrentTCB ?st0 = Some cur"
    using k cur by (simp_all add: vTaskSuspendAll_def)
  have q: "xPendedTicks st = 0" "pending st = {}" using st run by (simp_all add: settled_def)
  have ns: "delay_list n False ?st0 \<noteq> Suspended"
    using tasks_at_D(7) [of T "Suc (unat (xTickCount st))" "unat (xTickCount st)" st] kernel_D(1) [OF k]
    by (auto simp: delay_list_def sched_at_def vTaskSuspendAll_def)
  obtain st1 where st1: "prvAddCurrentTaskToDelayedList n False ?st0 = Some st1" "kernel T E idle st1"
    "blocks cur (delay_list n False ?st0) ?st0 st1" "time_left st1 cur = Some (unat n)"
    "\<forall>t. t \<noteq> cur \<longrightarrow> time_left st1 t = time_left st t" "clock st1 = clock st"
    using block_current [OF k0 cur0 n cur(2), of False] ns by auto
  note f = same_ctl_D [OF blocks_D(1) [OF st1(3)]]
  have "container (EventItem t) st1 = container (EventItem t) st" for t using blocks_D(2) [OF st1(3)] by simp
  then have q1: "pending st1 = {}" "xPendedTicks st1 = 0" "uxSchedulerSuspended st1 = 1"
    using q run f by (simp_all add: pending_def vTaskSuspendAll_def)
  obtain y st' where st': "xTaskResumeAll st1 = Some (y, st')" "kernel T E idle st'"
    "\<forall>t. time_left st1 t = None \<longrightarrow> container (StateItem t) st' = container (StateItem t) st1"
    "\<forall>t. container (EventItem t) st' = container (EventItem t) st1"
    "tcb st' = tcb st1" "time_left st' = time_left st1" "clock st' = clock st1"
    "pxCurrentTCB st' = pxCurrentTCB st1" "uxSchedulerSuspended st' = 0" "xPendedTicks st' = 0"
    "yields st' = (if y then yields st1 + 1 else yields st1)" "xSchedulerRunning st' = xSchedulerRunning st1"
    using resume_all_quiet [OF st1(2) q1(3,2,1)] by blast
  have ev: "container (EventItem t) st' = container (EventItem t) st" for t
    using st'(4) blocks_D(2) [OF st1(3)] by simp
  have "settled st'" using ev q st'(10) by (simp add: settled_def pending_def)
  moreover have "tcb st1 = tcb st" "pxCurrentTCB st1 = Some cur" "yields st1 = yields st"
    "xSchedulerRunning st1 = xSchedulerRunning st"
    using f cur by (simp_all add: vTaskSuspendAll_def)
  ultimately show ?thesis using st1 st' ev blocks_D(2) [OF st1(3)]
    by - (rule exI [of _ st1], rule exI [of _ y], rule exI [of _ st'], simp)
qed

text \<open>\<^verbatim>\<open>vTaskDelay\<close> leaves the caller with exactly the ticks it asked for.\<close>

lemma vTaskDelay_eq:
  assumes "kernel T E idle st" and "pxCurrentTCB st = Some cur" "cur \<noteq> idle"
    and "uxSchedulerSuspended st = 0" and "settled st" and "0 < n"
  shows "\<exists>st'. vTaskDelay n st = Some st' \<and> kernel T E idle st' \<and> time_left st' cur = Some (unat n) \<and>
    (\<forall>t. t \<noteq> cur \<longrightarrow> time_left st' t = time_left st t) \<and>
    (\<forall>t. t \<noteq> cur \<longrightarrow> time_left st t = None \<longrightarrow> container (StateItem t) st' = container (StateItem t) st) \<and>
    (\<forall>t. container (EventItem t) st' = container (EventItem t) st) \<and> tcb st' = tcb st \<and>
    clock st' = clock st \<and> uxSchedulerSuspended st' = 0 \<and> settled st' \<and>
    pxCurrentTCB st' = Some cur \<and> yields st' = yields st + 1"
proof -
  obtain st1 y st2 where r: "prvAddCurrentTaskToDelayedList n False (vTaskSuspendAll st) = Some st1"
    "xTaskResumeAll st1 = Some (y, st2)" "kernel T E idle st2" "time_left st2 cur = Some (unat n)"
    "\<forall>t. t \<noteq> cur \<longrightarrow> time_left st2 t = time_left st t"
    "\<forall>t. t \<noteq> cur \<longrightarrow> time_left st t = None \<longrightarrow> container (StateItem t) st2 = container (StateItem t) st"
    "\<forall>t. container (EventItem t) st2 = container (EventItem t) st" "tcb st2 = tcb st" "clock st2 = clock st"
    "pxCurrentTCB st2 = Some cur" "uxSchedulerSuspended st2 = 0" "settled st2"
    "yields st2 = (if y then yields st + 1 else yields st)"
    using delay_then_resume [OF assms] by blast
  let ?st' = "if y then st2 else taskYIELD_IF_USING_PREEMPTION st2"
  have run: "vTaskDelay n st = Some ?st'" using r(1,2) assms(6) by (simp add: vTaskDelay_def)
  obtain k where k: "?st' = st2\<lparr>yields := k\<rparr>"
    using that [of "yields ?st'"] by (cases y) (simp_all add: taskYIELD_IF_USING_PREEMPTION_def)
  have "yields ?st' = yields st + 1" using r(13) by (simp add: taskYIELD_IF_USING_PREEMPTION_def)
  then show ?thesis unfolding run using r(3-12) unfolding k
    by (intro exI [of _ "st2\<lparr>yields := k\<rparr>"]) (simp add: settled_def pending_def)
qed

text \<open>The test of \<^verbatim>\<open>xTaskDelayUntil\<close> compares the ticks since the last wake time with the period.\<close>

lemma due_nat:
  fixes p i n :: nat
  assumes "p < 2 ^ 32" "i < 2 ^ 32" "n < 2 ^ 32"
  defines "w \<equiv> if p + i < 2 ^ 32 then p + i else p + i - 2 ^ 32"
  shows "(if n < p then w < p \<and> n < w else w < p \<or> n < w) \<longleftrightarrow>
    (if p \<le> n then n - p else n + 2 ^ 32 - p) < i"
proof (cases "n < p")
  case True
  then show ?thesis using assms(1-3) unfolding w_def by (cases "p + i < 2 ^ 32") (simp; linarith)+
next
  case False
  then show ?thesis using assms(1-3) unfolding w_def by (cases "p + i < 2 ^ 32") (simp; linarith)+
qed

lemma unat_add_u32:
  "unat (x + y :: u32) = (if unat x + unat y < 2 ^ 32 then unat x + unat y else unat x + unat y - 2 ^ 32)"
  using unat_plus_if' [of x y] by simp

lemma unat_sub_u32:
  "unat (x - y :: u32) = (if unat y \<le> unat x then unat x - unat y else unat x + 2 ^ 32 - unat y)"
  using unat_sub_if' [of x y] by simp

lemma delay_until_due_iff:
  "delay_until_due now prev (prev + inc) \<longleftrightarrow> unat (now - prev) < unat inc"
  unfolding delay_until_due_def word_less_nat_alt unat_add_u32 unat_sub_u32
  by (rule due_nat) (rule unat_u32_less)+

lemma due_wait: "unat (now - prev) < unat inc \<Longrightarrow> unat (prev + inc - now) = unat inc - unat (now - prev)"
proof -
  assume "unat (now - prev) < unat inc"
  then have "now - prev \<le> inc" by (simp add: word_le_nat_alt)
  moreover have "prev + inc - now = inc - (now - prev)" by simp
  ultimately show ?thesis using unat_sub [of "now - prev" inc] by metis
qed

end
