(* ===== verification/TasksStart.thy ===== *)
theory TasksStart
  imports TasksDelay
begin

text \<open>
  Creating tasks and event lists: the first task created makes the invariant hold, later ones keep
  it.  The states the properties are shown on are built this way.
\<close>

subsection \<open>Initialising lists\<close>

lemma vListInitialise_items [simp]:
  "nodes (vListInitialise l s) (Item x) = nodes s (Item x)"
  by (simp add: vListInitialise_def)

lemma fold_initialise:
  assumes "lrel D s A" and "distinct ks" and "set ks \<inter> D = {}"
  shows "\<exists>A'. lrel (D \<union> set ks) (fold vListInitialise ks s) A' \<and>
    (\<forall>l. A' l = (if l \<in> set ks then ([], 0) else A l)) \<and>
    (\<forall>x. nodes (fold vListInitialise ks s) (Item x) = nodes s (Item x))"
  using assms
proof (induction ks arbitrary: D s A)
  case (Cons l ks)
  have "lrel (insert l D) (vListInitialise l s) (A(l := ([], 0)))"
    using vListInitialise_lrel [OF Cons.prems(1)] Cons.prems(3) by simp
  moreover have "distinct ks" "set ks \<inter> insert l D = {}" using Cons.prems(2,3) by auto
  ultimately obtain A' where A':
    "lrel (insert l D \<union> set ks) (fold vListInitialise ks (vListInitialise l s)) A'"
    "\<forall>l'. A' l' = (if l' \<in> set ks then ([], 0) else (A(l := ([], 0))) l')"
    "\<forall>x. nodes (fold vListInitialise ks (vListInitialise l s)) (Item x) = nodes (vListInitialise l s) (Item x)"
    using Cons.IH by blast
  have D: "D \<union> set (l # ks) = insert l D \<union> set ks" by auto
  show ?case unfolding D fold_Cons o_apply
  proof (rule exI [of _ A'], intro conjI)
    show "\<forall>l'. A' l' = (if l' \<in> set (l # ks) then ([], 0) else A l')" using A'(2) by simp
  qed (use A'(1,3) in simp_all)
next
  case Nil
  then show ?case by (intro exI [of _ A]) simp
qed

definition task_lists :: "klid list" where
  "task_lists = map (\<lambda>p. Ready (of_nat p)) [0..<7] @
     [DelayedTaskList1, DelayedTaskList2, PendingReady, WaitingTermination, Suspended]"

lemma prvInitialiseTaskLists_fold:
  "prvInitialiseTaskLists st = st\<lparr>ls := fold vListInitialise task_lists (ls st),
     pxDelayedTaskList := DelayedTaskList1, pxOverflowDelayedTaskList := DelayedTaskList2\<rparr>"
  by (simp add: prvInitialiseTaskLists_def task_lists_def fold_map o_def Let_def configMAX_PRIORITIES_def)

lemma task_lists_kernel: "set task_lists = kernel_lists {}" "distinct task_lists"
proof -
  have "(\<exists>n < 7. p = of_nat n) \<longleftrightarrow> p < 7" for p :: u32
  proof
    assume "p < 7"
    then have "unat p < 7" by (simp add: word_less_nat_alt)
    then show "\<exists>n < 7. p = of_nat n" by (intro exI [of _ "unat p"]) simp
  next
    assume "\<exists>n < 7. p = of_nat n"
    then show "p < 7" by (auto simp: word_less_nat_alt unat_of_nat)
  qed
  then have "(\<lambda>p. Ready (of_nat p)) ` {0..<7} = {Ready p | p. p < 7}"
    unfolding image_def atLeastLessThan_iff Bex_def by blast
  then show "set task_lists = kernel_lists {}"
    unfolding task_lists_def kernel_lists_def by auto
  have "inj_on (\<lambda>p. Ready (of_nat p)) {0..<7}"
  proof (rule inj_onI)
    fix x y :: nat assume "x \<in> {0..<7}" "y \<in> {0..<7}" "Ready (of_nat x) = Ready (of_nat y)"
    then show "x = y" using w32_inj [of x y] by (simp add: w32_def)
  qed
  then show "distinct task_lists" by (auto simp: task_lists_def distinct_map)
qed

text \<open>A store none of whose items is in a list, as after start-up (memory zeroed).\<close>

lemma sched_initialise:
  assumes none: "\<And>i. container i st = None" and t: "uxPriority (tcb st t) < 7"
    and own: "\<And>i. item_task i = t \<Longrightarrow> owner_of st i = t" and top: "uxTopReadyPriority st < 7"
  shows "sched {t} {} (prvInitialiseTaskLists st)" "container i (prvInitialiseTaskLists st) = None"
proof -
  let ?st' = "prvInitialiseTaskLists st"
  have "lrel {} (ls st) (\<lambda>_. ([], 0))" using none by (simp add: lrel_def container_def)
  from fold_initialise [OF this task_lists_kernel(2)] obtain A where A:
    "lrel (kernel_lists {}) (fold vListInitialise task_lists (ls st)) A" "\<forall>l. A l = ([], 0)"
    "\<forall>x. nodes (fold vListInitialise task_lists (ls st)) (Item x) = nodes (ls st) (Item x)"
    using task_lists_kernel(1) by auto
  have obs: "container j ?st' = None" "owner_of ?st' = owner_of st" for j
    using A(3) none by (simp_all add: prvInitialiseTaskLists_fold container_def owner_of_def fun_eq_iff)
  then show "container i ?st' = None" by blast
  have "lists_ok {} ?st' A" using A by (simp add: lists_ok_def prvInitialiseTaskLists_fold)
  moreover have "tasks_at {t} (Suc (unat (xTickCount ?st'))) (unat (xTickCount ?st')) ?st'"
    using t own top unfolding tasks_at_def obs by (simp add: prvInitialiseTaskLists_fold)
  ultimately show "sched {t} {} ?st'" by (auto simp: sched_at_def)
qed

lemma new_event_list_obs [simp]:
  "container j (on_lists (vListInitialise l) st) = container j st"
  "owner_of (on_lists (vListInitialise l) st) = owner_of st"
  "value_of (on_lists (vListInitialise l) st) = value_of st"
  by (simp_all add: on_lists_def container_def owner_of_def value_of_def listGET_LIST_ITEM_VALUE_def fun_eq_iff)

lemma lists_ok_new_event:
  assumes "lists_ok E st A" and "e \<notin> E"
  shows "lists_ok (insert e E) (on_lists (vListInitialise (Event e)) st) (A(Event e := ([], 0)))"
proof -
  have kl: "kernel_lists (insert e E) = insert (Event e) (kernel_lists E)" "Event e \<notin> kernel_lists E"
    using assms(2) by (auto simp: kernel_lists_def)
  show ?thesis
    using vListInitialise_lrel [OF lists_ok_lrel [OF assms(1)] kl(2)] assms(1)
    unfolding lists_ok_def new_event_list_obs kl(1) by (simp add: on_lists_def)
qed

lemma sched_new_event_list:
  assumes "sched_at T E c d st" and "e \<notin> E"
  shows "sched_at T (insert e E) c d (on_lists (vListInitialise (Event e)) st)"
    "container i (on_lists (vListInitialise (Event e)) st) = container i st"
proof -
  obtain A where A: "tasks_at T c d st" "lists_ok E st A" using assms(1) by (auto simp: sched_at_def)
  have "tasks_at T c d (on_lists (vListInitialise (Event e)) st)"
    by (rule tasks_at_cong [OF A(1)]) (simp_all only: new_event_list_obs, simp_all add: on_lists_def)
  then show "sched_at T (insert e E) c d (on_lists (vListInitialise (Event e)) st)"
    using lists_ok_new_event [OF A(2) assms(2)] by (auto simp: sched_at_def)
qed simp

subsection \<open>Creating a task\<close>

definition capped :: "u32 \<Rightarrow> u32" where
  "capped prio = (if prio \<ge> configMAX_PRIORITIES then configMAX_PRIORITIES - 1 else prio)"

lemma capped_less: "capped prio < 7"
  by (simp add: capped_def configMAX_PRIORITIES_def not_le)

lemma new_task_fields:
  fixes t :: task and prio :: u32 and st :: ktask
  defines "st' \<equiv> prvInitialiseNewTask t prio st"
  shows "container i st' = (if item_task i = t then None else container i st)"
    "owner_of st' i = (if item_task i = t then t else owner_of st i)"
    "item_task i \<noteq> t \<Longrightarrow> nodes (ls st') (Item i) = nodes (ls st) (Item i)"
    "nodes (ls st') (ListEnd l) = nodes (ls st) (ListEnd l)" "lists (ls st') = lists (ls st)"
    "tcb st' u = (if u = t then \<lparr>uxPriority = capped prio, uxBasePriority = capped prio, uxMutexesHeld = 0,
       uxTCBNumber = 0, ulNotifiedValue = 0, ucNotifyState = NOT_WAITING_NOTIFICATION\<rparr> else tcb st u)"
    "st' = st\<lparr>ls := ls st', tcb := tcb st'\<rparr>"
proof -
  note d = st'_def prvInitialiseNewTask_def Let_def set_tcb_def vListInitialiseItem_def set_container_def
    listSET_LIST_ITEM_OWNER_def listSET_LIST_ITEM_VALUE_def capped_def
  show "container i st' = (if item_task i = t then None else container i st)"
    "owner_of st' i = (if item_task i = t then t else owner_of st i)"
    "item_task i \<noteq> t \<Longrightarrow> nodes (ls st') (Item i) = nodes (ls st) (Item i)"
    by (cases i; simp add: d container_def owner_of_def)+
  show "nodes (ls st') (ListEnd l) = nodes (ls st) (ListEnd l)" "lists (ls st') = lists (ls st)"
    "tcb st' u = (if u = t then \<lparr>uxPriority = capped prio, uxBasePriority = capped prio, uxMutexesHeld = 0,
       uxTCBNumber = 0, ulNotifiedValue = 0, ucNotifyState = NOT_WAITING_NOTIFICATION\<rparr> else tcb st u)"
    "st' = st\<lparr>ls := ls st', tcb := tcb st'\<rparr>"
    by (simp_all add: d)
qed

lemma new_task_sched:
  assumes s: "sched_at T E c d st" and t: "t \<notin> T" and n: "card T + 1 < 2 ^ 31"
  shows "sched_at (insert t T) E c d (prvInitialiseNewTask t prio st)"
proof -
  let ?st' = "prvInitialiseNewTask t prio st"
  note f = new_task_fields [where t = t and prio = prio and st = st]
  obtain A where A: "tasks_at T c d st" "lists_ok E st A" using s by (auto simp: sched_at_def)
  have free: "container i st = None" if "item_task i = t" for i
    using tasks_at_D(2) [OF A(1), of i] that t by (cases "container i st") auto
  have c: "container i ?st' = container i st" for i using f(1) free by simp
  have v: "value_of ?st' i = value_of st i" if "item_task i \<noteq> t" for i
    using f(3) [OF that] by (simp add: value_of_def listGET_LIST_ITEM_VALUE_def)
  have mem: "item_task i \<noteq> t" if "l \<in> kernel_lists E" "i \<in> set (fst (A l))" for i l
    using lists_ok_container [OF A(2) that(1), of i] that(2) free [of i] by (cases "item_task i = t") simp_all
  have "klist l (ls ?st') (A l)" if "l \<in> kernel_lists E" for l
    by (rule klist_frame [of l "ls st"])
      (use A(2) that mem f(3-5) in \<open>auto simp: lists_ok_def lrel_def\<close>)
  moreover have "l \<in> kernel_lists E \<and> i \<in> set (fst (A l))" if "container i ?st' = Some l" for i l
    using that A(2) unfolding c by (auto simp: lists_ok_def lrel_def container_def)
  ultimately have "lrel (kernel_lists E) (ls ?st') A" by (simp add: lrel_def container_def)
  moreover have "map (value_of ?st') (fst (A l)) = map (value_of st) (fst (A l))" if "l \<in> kernel_lists E" for l
    using mem [OF that] v by simp
  from this [of DelayedTaskList1] this [of DelayedTaskList2]
  have "map (value_of ?st') (fst (A DelayedTaskList1)) = map (value_of st) (fst (A DelayedTaskList1))"
    "map (value_of ?st') (fst (A DelayedTaskList2)) = map (value_of st) (fst (A DelayedTaskList2))"
    by (simp_all add: kernel_lists_def)
  ultimately have "lists_ok E ?st' A" using A(2) unfolding lists_ok_def by (simp del: map_eq_conv)
  moreover have "tasks_at (insert t T) c d ?st'"
  proof -
    have keep: "pxDelayedTaskList ?st' = pxDelayedTaskList st" "uxTopReadyPriority ?st' = uxTopReadyPriority st"
      "pxOverflowDelayedTaskList ?st' = pxOverflowDelayedTaskList st"
      "xNextTaskUnblockTime ?st' = xNextTaskUnblockTime st"
      by (subst f(7), simp)+
    have nt: "u \<noteq> t" if "container (StateItem u) st = Some l" for u l using free [of "StateItem u"] that by auto
    have vs: "value_of ?st' (StateItem u) = value_of st (StateItem u)" if "container (StateItem u) st = Some l" for u l
      using v [of "StateItem u"] nt [OF that] by simp
    show ?thesis unfolding tasks_at_def c keep
      using A(1) t n f(2,6) nt vs capped_less [of prio] by (auto simp: tasks_at_def)
  qed
  ultimately show ?thesis by (auto simp: sched_at_def)
qed

lemma sched_set_tcb:
  assumes "sched_at T E c d st" and "uxPriority cb = uxPriority (tcb st t)"
  shows "sched_at T E c d (set_tcb t cb st)"
proof -
  obtain A where A: "tasks_at T c d st" "lists_ok E st A" using assms(1) by (auto simp: sched_at_def)
  have "lists_ok E (set_tcb t cb st) A" using A(2) unfolding lists_ok_def obs_simps by (simp add: set_tcb_def)
  moreover have "tasks_at T c d (set_tcb t cb st)"
    by (rule tasks_at_cong [OF A(1)]) (simp_all only: obs_simps, simp_all add: set_tcb_def assms(2))
  ultimately show ?thesis by (auto simp: sched_at_def)
qed

text \<open>The part of \<open>prvAddNewTaskToReadyList\<close> that does not look at the current task.\<close>

definition number_and_ready :: "task \<Rightarrow> ktask \<Rightarrow> ktask" where
  "number_and_ready t st = (let st1 = st\<lparr>uxTaskNumber := uxTaskNumber st + 1\<rparr>
     in prvAddTaskToReadyList t (set_tcb t ((tcb st1 t)\<lparr>uxTCBNumber := uxTaskNumber st1\<rparr>) st1))"

definition choose_current :: "task \<Rightarrow> ktask \<Rightarrow> ktask" where
  "choose_current t st1 = (case pxCurrentTCB st1 of
      None \<Rightarrow> (let s = st1\<lparr>pxCurrentTCB := Some t\<rparr>
                in if uxCurrentNumberOfTasks s = 1 then prvInitialiseTaskLists s else s)
    | Some cur \<Rightarrow>
        if \<not> xSchedulerRunning st1 \<and> uxPriority (tcb st1 cur) \<le> uxPriority (tcb st1 t)
        then st1\<lparr>pxCurrentTCB := Some t\<rparr> else st1)"

lemma add_new_task_eq:
  "prvAddNewTaskToReadyList t st =
     (let st5 = number_and_ready t (choose_current t (st\<lparr>uxCurrentNumberOfTasks := uxCurrentNumberOfTasks st + 1\<rparr>))
      in case pxCurrentTCB st5 of
           None \<Rightarrow> st5
         | Some cur \<Rightarrow> if xSchedulerRunning st5 \<and> uxPriority (tcb st5 cur) < uxPriority (tcb st5 t)
             then taskYIELD_IF_USING_PREEMPTION st5 else st5)"
  unfolding prvAddNewTaskToReadyList_def number_and_ready_def choose_current_def Let_def ..

lemma number_and_ready_sched:
  assumes "sched_at T E c d st" and "t \<in> T" and "container (StateItem t) st = None"
  shows "sched_at T E c d (number_and_ready t st)"
    "container j (number_and_ready t st) = (if j = StateItem t then Some (Ready (uxPriority (tcb st t))) else container j st)"
    "uxPriority (tcb (number_and_ready t st) u) = uxPriority (tcb st u)"
    "pxCurrentTCB (number_and_ready t st) = pxCurrentTCB st" "xTickCount (number_and_ready t st) = xTickCount st"
    "uxCurrentNumberOfTasks (number_and_ready t st) = uxCurrentNumberOfTasks st"
    "xSchedulerRunning (number_and_ready t st) = xSchedulerRunning st"
    "uxSchedulerSuspended (number_and_ready t st) = uxSchedulerSuspended st"
    "xPendedTicks (number_and_ready t st) = xPendedTicks st"
proof -
  let ?st1 = "st\<lparr>uxTaskNumber := uxTaskNumber st + 1\<rparr>"
  define st2 where "st2 = set_tcb t ((tcb ?st1 t)\<lparr>uxTCBNumber := uxTaskNumber ?st1\<rparr>) ?st1"
  have eq: "number_and_ready t st = prvAddTaskToReadyList t st2"
    by (simp add: number_and_ready_def st2_def Let_def)
  have "sched_at T E c d ?st1" using assms(1) by simp
  then have s2: "sched_at T E c d st2" unfolding st2_def by (rule sched_set_tcb) simp
  have c2: "container i st2 = container i st" for i unfolding st2_def by simp
  have p2: "uxPriority (tcb st2 u) = uxPriority (tcb st u)" for u by (simp add: st2_def set_tcb_def)
  have none: "container (StateItem t) st2 = None" using assms(3) c2 by simp
  note r = sched_add_ready [OF s2 assms(2) none]
  note m = made_ready_fields [OF r(2)]
  show "sched_at T E c d (number_and_ready t st)" using r(1) by (simp add: eq)
  show "container j (number_and_ready t st) = (if j = StateItem t then Some (Ready (uxPriority (tcb st t))) else container j st)"
    "uxPriority (tcb (number_and_ready t st) u) = uxPriority (tcb st u)"
    unfolding eq by (simp_all add: m c2 p2)
  show "pxCurrentTCB (number_and_ready t st) = pxCurrentTCB st" "xTickCount (number_and_ready t st) = xTickCount st"
    "uxCurrentNumberOfTasks (number_and_ready t st) = uxCurrentNumberOfTasks st"
    "xSchedulerRunning (number_and_ready t st) = xSchedulerRunning st"
    "uxSchedulerSuspended (number_and_ready t st) = uxSchedulerSuspended st"
    "xPendedTicks (number_and_ready t st) = xPendedTicks st"
    unfolding eq m(2,5,7,8,11,12) by (simp_all add: st2_def set_tcb_def)
qed

text \<open>Start-up: the data segment zeroed.\<close>

definition ktask_zero :: ktask where
  "ktask_zero = \<lparr>
     ls = \<lparr>nodes = (\<lambda>_. \<lparr>xItemValue = 0, pxNext = ListEnd Suspended, pxPrevious = ListEnd Suspended,
                          pvOwner = 0, pxContainer = None\<rparr>),
           lists = (\<lambda>_. \<lparr>uxNumberOfItems = 0, pxIndex = ListEnd Suspended\<rparr>)\<rparr>,
     tcb = (\<lambda>_. \<lparr>uxPriority = 0, uxBasePriority = 0, uxMutexesHeld = 0, uxTCBNumber = 0,
                 ulNotifiedValue = 0, ucNotifyState = NOT_WAITING_NOTIFICATION\<rparr>),
     pxCurrentTCB = None, pxDelayedTaskList = DelayedTaskList1, pxOverflowDelayedTaskList = DelayedTaskList2,
     uxDeletedTasksWaitingCleanUp = 0, uxCurrentNumberOfTasks = 0, xTickCount = 0, uxTopReadyPriority = 0,
     xSchedulerRunning = False, xPendedTicks = 0, xYieldPending = False, xNumOfOverflows = 0,
     uxTaskNumber = 0, xNextTaskUnblockTime = 0, uxSchedulerSuspended = 0, yields = 0\<rparr>"

lemma kernel_create:
  assumes k: "kernel T E idle st" and t: "t \<notin> T" and n: "card T + 1 < 2 ^ 31"
    and m: "uxCurrentNumberOfTasks st + 1 \<noteq> 0"
  shows "\<exists>st'. xTaskCreate t prio True True st = (True, st') \<and> kernel (insert t T) E idle st' \<and>
    container (StateItem t) st' = Some (Ready (capped prio)) \<and> uxPriority (tcb st' t) = capped prio \<and>
    (\<forall>j. item_task j \<noteq> t \<longrightarrow> container j st' = container j st) \<and>
    container (EventItem t) st' = None \<and>
    (\<forall>u. u \<noteq> t \<longrightarrow> uxPriority (tcb st' u) = uxPriority (tcb st u)) \<and>
    xTickCount st' = xTickCount st \<and> uxSchedulerSuspended st' = uxSchedulerSuspended st \<and>
    xPendedTicks st' = xPendedTicks st \<and> uxCurrentNumberOfTasks st' = uxCurrentNumberOfTasks st + 1 \<and>
    xSchedulerRunning st' = xSchedulerRunning st \<and>
    (\<forall>cur. pxCurrentTCB st = Some cur \<longrightarrow> pxCurrentTCB st' =
      Some (if \<not> xSchedulerRunning st \<and> uxPriority (tcb st cur) \<le> capped prio then t else cur))"
proof -
  note kd = kernel_D [OF k]
  obtain cur where cur: "pxCurrentTCB st = Some cur" "cur \<in> T" using kd(6) by blast
  define st1 where "st1 = prvInitialiseNewTask t prio st"
  note f = new_task_fields [where t = t and prio = prio and st = st, folded st1_def]
  have s1: "sched_at (insert t T) E (Suc (unat (xTickCount st))) (unat (xTickCount st)) st1"
    unfolding st1_def by (rule new_task_sched [OF kd(1) t n])
  have free: "container i st = None" if "item_task i = t" for i
    using kernel_tasks(1) [OF k, of i] that t by (cases "container i st") auto
  have c1: "container i st1 = container i st" for i using f(1) free by simp
  have keep: "xTickCount st1 = xTickCount st" "pxCurrentTCB st1 = pxCurrentTCB st"
    "uxCurrentNumberOfTasks st1 = uxCurrentNumberOfTasks st" "xSchedulerRunning st1 = xSchedulerRunning st"
    "uxSchedulerSuspended st1 = uxSchedulerSuspended st" "xPendedTicks st1 = xPendedTicks st"
    by (subst f(7), simp)+
  define c where "c = (if \<not> xSchedulerRunning st \<and> uxPriority (tcb st1 cur) \<le> uxPriority (tcb st1 t) then t else cur)"
  define st2 where "st2 = st1\<lparr>uxCurrentNumberOfTasks := uxCurrentNumberOfTasks st + 1, pxCurrentTCB := Some c\<rparr>"
  have s2: "sched_at (insert t T) E (Suc (unat (xTickCount st))) (unat (xTickCount st)) st2"
    using s1 by (simp add: st2_def)
  have c2: "container i st2 = container i st" for i using c1 by (simp add: st2_def)
  have none: "container (StateItem t) st2 = None" using c2 free by simp
  have keep2: "xTickCount st2 = xTickCount st" "pxCurrentTCB st2 = Some c"
    "uxCurrentNumberOfTasks st2 = uxCurrentNumberOfTasks st + 1" "xSchedulerRunning st2 = xSchedulerRunning st"
    "uxSchedulerSuspended st2 = uxSchedulerSuspended st" "xPendedTicks st2 = xPendedTicks st" "tcb st2 = tcb st1"
    using keep by (simp_all add: st2_def)
  note r = number_and_ready_sched [OF s2 insertI1 none, unfolded keep2]
  let ?s = "st1\<lparr>uxCurrentNumberOfTasks := uxCurrentNumberOfTasks st1 + 1\<rparr>"
  have "?s\<lparr>pxCurrentTCB := Some cur\<rparr> = ?s" using cur(1) keep(2) by (simp add: ktask.equality)
  then have choose: "choose_current t ?s = st2"
    using cur(1) keep by (simp add: choose_current_def st2_def c_def)
  have eq: "prvAddNewTaskToReadyList t st1 = (if xSchedulerRunning st \<and> uxPriority (tcb st1 c) < uxPriority (tcb st1 t)
      then taskYIELD_IF_USING_PREEMPTION (number_and_ready t st2) else number_and_ready t st2)"
    unfolding add_new_task_eq choose Let_def r by simp
  obtain y where y: "prvAddNewTaskToReadyList t st1 = (number_and_ready t st2)\<lparr>yields := y\<rparr>"
  proof (cases "xSchedulerRunning st \<and> uxPriority (tcb st1 c) < uxPriority (tcb st1 t)")
    case True
    then show ?thesis using that eq by (simp add: taskYIELD_IF_USING_PREEMPTION_def)
  next
    case False
    have "prvAddNewTaskToReadyList t st1 = number_and_ready t st2"
      unfolding eq using False by (simp only: if_False)
    also have "\<dots> = (number_and_ready t st2)\<lparr>yields := yields (number_and_ready t st2)\<rparr>" by simp
    finally show ?thesis by (rule that)
  qed
  let ?st' = "prvAddNewTaskToReadyList t st1"
  have cc: "c \<in> insert t T" using cur(2) by (simp add: c_def)
  have idle: "idle \<noteq> t" using kd(2) t by auto
  have ev: "container (StateItem u) st \<in> {Some DelayedTaskList1, Some DelayedTaskList2, Some Suspended}"
    if "container (EventItem u) st \<noteq> None" for u using kd(5) [OF that] .
  have ut: "u \<noteq> t" if "container (EventItem u) st \<noteq> None" for u using that free [of "EventItem u"] by auto
  have "kernel (insert t T) E idle (number_and_ready t st2)"
    unfolding kernel_def r using r(1) kd(2-4) cc idle ev ut m
    by (auto simp: c2 f(6) word_gt_0)
  then have "kernel (insert t T) E idle ?st'" unfolding y by simp
  moreover have "xTaskCreate t prio True True st = (True, ?st')" by (simp add: xTaskCreate_def st1_def)
  moreover have "container j ?st' = (if j = StateItem t then Some (Ready (capped prio)) else container j st)" for j
    unfolding y by (simp add: r c2 f(6))
  moreover have "uxPriority (tcb ?st' u) = (if u = t then capped prio else uxPriority (tcb st u))" for u
    unfolding y by (simp add: r f(6))
  moreover have "xTickCount ?st' = xTickCount st" "uxSchedulerSuspended ?st' = uxSchedulerSuspended st"
    "xPendedTicks ?st' = xPendedTicks st" "uxCurrentNumberOfTasks ?st' = uxCurrentNumberOfTasks st + 1"
    "xSchedulerRunning ?st' = xSchedulerRunning st"
    unfolding y by (simp_all add: r)
  moreover have "pxCurrentTCB ?st' =
      Some (if \<not> xSchedulerRunning st \<and> uxPriority (tcb st cur) \<le> capped prio then t else cur)"
    using cur(2) t unfolding y by (auto simp: r c_def f(6))
  ultimately show ?thesis using free cur(1) by auto
qed

lemma kernel_first:
  fixes t :: task and prio :: u32
  defines "st' \<equiv> snd (xTaskCreate t prio True True ktask_zero)"
  shows "kernel {t} {} t st'" "pxCurrentTCB st' = Some t" "uxPriority (tcb st' t) = capped prio"
    "xTickCount st' = 0" "uxSchedulerSuspended st' = 0" "xPendedTicks st' = 0" "uxCurrentNumberOfTasks st' = 1"
    "\<not> xSchedulerRunning st'" "container (EventItem u) st' = None"
proof -
  define st1 where "st1 = prvInitialiseNewTask t prio ktask_zero"
  note f = new_task_fields [where t = t and prio = prio and st = ktask_zero, folded st1_def]
  define st2 where "st2 = st1\<lparr>uxCurrentNumberOfTasks := uxCurrentNumberOfTasks st1 + 1\<rparr>"
  define st3 where "st3 = prvInitialiseTaskLists (st2\<lparr>pxCurrentTCB := Some t\<rparr>)"
  have z: "pxCurrentTCB ktask_zero = None" "uxCurrentNumberOfTasks ktask_zero = 0" "xSchedulerRunning ktask_zero = False"
    "xTickCount ktask_zero = 0" "uxSchedulerSuspended ktask_zero = 0" "xPendedTicks ktask_zero = 0"
    "uxTopReadyPriority ktask_zero = 0" "container i ktask_zero = None" for i
    by (simp_all add: ktask_zero_def container_def)
  have k1: "pxCurrentTCB st1 = None" "uxCurrentNumberOfTasks st1 = 0" "xSchedulerRunning st1 = False"
    "xTickCount st1 = 0" "uxSchedulerSuspended st1 = 0" "xPendedTicks st1 = 0" "uxTopReadyPriority st1 = 0"
    by (subst f(7), simp add: z)+
  have k3: "pxCurrentTCB st3 = Some t" "uxCurrentNumberOfTasks st3 = 1" "xSchedulerRunning st3 = False"
    "xTickCount st3 = 0" "uxSchedulerSuspended st3 = 0" "xPendedTicks st3 = 0" "tcb st3 = tcb st1"
    by (simp_all add: st3_def st2_def prvInitialiseTaskLists_fold k1)
  have s3: "sched {t} {} st3" "container i st3 = None" for i
    unfolding st3_def
    by (rule sched_initialise [where t = t]; simp add: st2_def f(1,2,6) z k1 capped_less)+
  have choose: "choose_current t st2 = st3"
    by (simp add: choose_current_def st3_def Let_def) (simp add: st2_def k1)
  note r = number_and_ready_sched [OF s3(1)  singletonI s3(2), unfolded k3 k3(4)]
  have "prvAddNewTaskToReadyList t st1 = number_and_ready t st3"
    unfolding add_new_task_eq st2_def [symmetric] choose Let_def r by simp
  then have eq: "st' = number_and_ready t st3"
    by (simp add: st'_def xTaskCreate_def st1_def)
  show "kernel {t} {} t st'"
    using r(1) unfolding kernel_def eq r by (auto simp: s3(2))
  show "pxCurrentTCB st' = Some t" "uxPriority (tcb st' t) = capped prio"
    "xTickCount st' = 0" "uxSchedulerSuspended st' = 0" "xPendedTicks st' = 0" "uxCurrentNumberOfTasks st' = 1"
    "\<not> xSchedulerRunning st'" "container (EventItem u) st' = None"
    by (simp_all add: eq r f(6) s3(2))
qed

text \<open>The facts of a creation, to compute with.\<close>

lemma created:
  fixes st :: ktask and t :: task and prio :: u32
  assumes "kernel T E idle st" and "t \<notin> T" and "card T + 1 < 2 ^ 31" and "uxCurrentNumberOfTasks st + 1 \<noteq> 0"
  defines "st' \<equiv> snd (xTaskCreate t prio True True st)"
  shows "kernel (insert t T) E idle st'"
    "container j st' = (if j = StateItem t then Some (Ready (capped prio))
       else if j = EventItem t then None else container j st)"
    "uxPriority (tcb st' u) = (if u = t then capped prio else uxPriority (tcb st u))"
    "xTickCount st' = xTickCount st" "uxSchedulerSuspended st' = uxSchedulerSuspended st"
    "xPendedTicks st' = xPendedTicks st" "uxCurrentNumberOfTasks st' = uxCurrentNumberOfTasks st + 1"
    "xSchedulerRunning st' = xSchedulerRunning st"
    "pxCurrentTCB st = Some cur \<Longrightarrow> pxCurrentTCB st' =
      Some (if \<not> xSchedulerRunning st \<and> uxPriority (tcb st cur) \<le> capped prio then t else cur)"
proof -
  obtain st2 where r: "xTaskCreate t prio True True st = (True, st2)" "kernel (insert t T) E idle st2"
    "container (StateItem t) st2 = Some (Ready (capped prio))" "uxPriority (tcb st2 t) = capped prio"
    "\<forall>j. item_task j \<noteq> t \<longrightarrow> container j st2 = container j st" "container (EventItem t) st2 = None"
    "\<forall>u. u \<noteq> t \<longrightarrow> uxPriority (tcb st2 u) = uxPriority (tcb st u)"
    "xTickCount st2 = xTickCount st" "uxSchedulerSuspended st2 = uxSchedulerSuspended st"
    "xPendedTicks st2 = xPendedTicks st" "uxCurrentNumberOfTasks st2 = uxCurrentNumberOfTasks st + 1"
    "xSchedulerRunning st2 = xSchedulerRunning st"
    "\<forall>cur. pxCurrentTCB st = Some cur \<longrightarrow> pxCurrentTCB st2 =
      Some (if \<not> xSchedulerRunning st \<and> uxPriority (tcb st cur) \<le> capped prio then t else cur)"
    using kernel_create [OF assms(1-4), of prio] by blast
  have st': "st' = st2" by (simp add: st'_def r(1))
  show "container j st' = (if j = StateItem t then Some (Ready (capped prio))
       else if j = EventItem t then None else container j st)"
    using r(3,5,6) unfolding st' by (cases j) auto
  show "kernel (insert t T) E idle st'"
    "uxPriority (tcb st' u) = (if u = t then capped prio else uxPriority (tcb st u))"
    "xTickCount st' = xTickCount st" "uxSchedulerSuspended st' = uxSchedulerSuspended st"
    "xPendedTicks st' = xPendedTicks st" "uxCurrentNumberOfTasks st' = uxCurrentNumberOfTasks st + 1"
    "xSchedulerRunning st' = xSchedulerRunning st"
    "pxCurrentTCB st = Some cur \<Longrightarrow> pxCurrentTCB st' =
      Some (if \<not> xSchedulerRunning st \<and> uxPriority (tcb st cur) \<le> capped prio then t else cur)"
    using r(2,4,7-13) unfolding st' by simp_all
qed

text \<open>The state the properties are shown on: the idle task 0, and the tasks 3 and 5 of the
  priorities 3 and 5; the last one created runs.\<close>

definition tasks_w :: ktask where
  "tasks_w = snd (xTaskCreate 5 5 True True (snd (xTaskCreate 3 3 True True
     (snd (xTaskCreate 0 0 True True ktask_zero)))))"

lemma tasks_w:
  "kernel {0, 3, 5} {} 0 tasks_w" "pxCurrentTCB tasks_w = Some 5" "uxPriority (tcb tasks_w 5) = 5"
  "uxPriority (tcb tasks_w 3) = 3" "uxPriority (tcb tasks_w 0) = 0" "xTickCount tasks_w = 0"
  "uxSchedulerSuspended tasks_w = 0" "xPendedTicks tasks_w = 0" "settled tasks_w"
  "container (StateItem 5) tasks_w = Some (Ready 5)" "container (StateItem 3) tasks_w = Some (Ready 3)"
  "container (StateItem 0) tasks_w = Some (Ready 0)" "container (EventItem t) tasks_w = None"
proof -
  let ?a = "snd (xTaskCreate 0 0 True True ktask_zero)" let ?b = "snd (xTaskCreate 3 3 True True ?a)"
  note a = kernel_first [of 0 0]
  have cap: "capped 0 = 0" "capped 3 = 3" "capped 5 = 5" by (simp_all add: capped_def configMAX_PRIORITIES_def)
  have n1: "(3 :: nat) \<notin> {0}" "card {0 :: nat} + 1 < 2 ^ 31" "uxCurrentNumberOfTasks ?a + 1 \<noteq> 0" by (simp_all add: a)
  note b = created [OF a(1) n1, where prio = 3]
  have n2: "(5 :: nat) \<notin> {3, 0}" "card {3, 0 :: nat} + 1 < 2 ^ 31" "uxCurrentNumberOfTasks ?b + 1 \<noteq> 0"
    by (simp_all add: a b)
  note d = created [OF b(1) n2, where prio = 5, folded tasks_w_def]
  have c: "kernel {0, 3, 5} {} 0 tasks_w" "pxCurrentTCB tasks_w = Some 5" "uxPriority (tcb tasks_w 5) = 5"
    "uxPriority (tcb tasks_w 3) = 3" "uxPriority (tcb tasks_w 0) = 0" "xTickCount tasks_w = 0"
    "uxSchedulerSuspended tasks_w = 0" "xPendedTicks tasks_w = 0"
    "container (StateItem 5) tasks_w = Some (Ready 5)" "container (StateItem 3) tasks_w = Some (Ready 3)"
    using d(1) by (simp_all add: insert_commute a b d cap)
  have "container (EventItem u) tasks_w = None" for u
  proof -
    have "container (EventItem u) ?a = None" by (rule kernel_first(9))
    then show ?thesis by (simp add: b d)
  qed
  note c = c this
  show "kernel {0, 3, 5} {} 0 tasks_w" "pxCurrentTCB tasks_w = Some 5" "uxPriority (tcb tasks_w 5) = 5"
    "uxPriority (tcb tasks_w 3) = 3" "uxPriority (tcb tasks_w 0) = 0" "xTickCount tasks_w = 0"
    "uxSchedulerSuspended tasks_w = 0" "xPendedTicks tasks_w = 0"
    "container (StateItem 5) tasks_w = Some (Ready 5)" "container (StateItem 3) tasks_w = Some (Ready 3)"
    "container (EventItem t) tasks_w = None"
    by (rule c)+
  show "settled tasks_w" using c(8,11) by (simp add: settled_def pending_def)
  show "container (StateItem 0) tasks_w = Some (Ready 0)" using kernel_D(3) [OF c(1)] c(5) by simp
qed

end
