(* ===== verification/TasksProps.thy ===== *)
theory TasksProps
  imports TasksStart
begin

text \<open>
  The properties of the scheduler: the choice of the next task, ticks, delays, time-outs and the
  suspended scheduler.  Each is shown on the state \<open>tasks_w\<close> of three tasks, built by
  \<open>xTaskCreate\<close>.
\<close>

subsection \<open>Switching\<close>

text \<open>C22: with the scheduler running, \<open>vTaskSwitchContext\<close> returns; the task it selects is ready and
  no ready task has a higher priority; the invariant holds again, no task changes its list, and a
  pending yield is cleared.\<close>

theorem vTaskSwitchContext_highest:
  assumes "kernel T E idle st" and "uxSchedulerSuspended st = 0"
  shows "\<exists>cur st'. vTaskSwitchContext st = Some st' \<and> pxCurrentTCB st' = Some cur \<and>
    container (StateItem cur) st = Some (Ready (uxPriority (tcb st cur))) \<and>
    (\<forall>t p. container (StateItem t) st = Some (Ready p) \<longrightarrow> p \<le> uxPriority (tcb st cur)) \<and>
    kernel T E idle st' \<and> (\<forall>i. container i st' = container i st) \<and> \<not> xYieldPending st'"
proof -
  note kd = kernel_D [OF assms(1)]
  obtain cur st' where st': "vTaskSwitchContext st = Some st'" "pxCurrentTCB st' = Some cur"
    "container (StateItem cur) st = Some (Ready (uxPriority (tcb st cur)))"
    "\<forall>t p. container (StateItem t) st = Some (Ready p) \<longrightarrow> p \<le> uxPriority (tcb st cur)"
    "sched T E st'" "same_but_current st st'" "\<not> xYieldPending st'"
    using switch_context [OF kd(1,3) assms(2)] by blast
  note f = same_but_current_fields [OF st'(6)]
  have "cur \<in> T" using kernel_tasks(1) [OF assms(1) st'(3)] by simp
  then have "kernel T E idle st'"
    using assms(1) st'(2,5) unfolding kernel_def f by auto
  then show ?thesis using st' f(12) by blast
qed

theorem vTaskSwitchContext_highest_witness:
  "\<exists>st'. vTaskSwitchContext tasks_w = Some st' \<and> pxCurrentTCB st' = Some 5"
proof -
  obtain cur st' where r: "vTaskSwitchContext tasks_w = Some st'" "pxCurrentTCB st' = Some cur"
    "container (StateItem cur) tasks_w = Some (Ready (uxPriority (tcb tasks_w cur)))"
    "\<forall>t p. container (StateItem t) tasks_w = Some (Ready p) \<longrightarrow> p \<le> uxPriority (tcb tasks_w cur)"
    using vTaskSwitchContext_highest [OF tasks_w(1,7)] by blast
  have "5 \<le> uxPriority (tcb tasks_w cur)" using r(4) tasks_w(10) by blast
  moreover have "cur \<in> {0, 3, 5}" using kernel_tasks(1) [OF tasks_w(1) r(3)] by simp
  ultimately have "cur = 5" using tasks_w(3-5) by auto
  then show ?thesis using r by blast
qed

subsection \<open>Ticks\<close>

text \<open>C26: any number \<open>n\<close> of timer interrupts is handled without fault.  Every delayed task has its
  remaining ticks counted down by \<open>n\<close>; those with at most \<open>n\<close> left are ready in the list of their
  priority and off the event they waited for; no other task moves between lists, whatever the
  tick count was and however often it and the delayed lists wrapped around.\<close>

theorem ticks_count_down:
  assumes "kernel T E idle st" and "uxSchedulerSuspended st = 0"
  shows "\<exists>st'. ticks n st = Some st' \<and> kernel T E idle st' \<and> clock st' = (clock st + n) mod 2 ^ 64 \<and>
    (\<forall>t. time_left st' t = count_down n (time_left st t)) \<and>
    (\<forall>t d. time_left st t = Some d \<and> d \<le> n \<longrightarrow>
       container (StateItem t) st' = Some (Ready (uxPriority (tcb st t))) \<and> container (EventItem t) st' = None) \<and>
    (\<forall>t. time_left st t = None \<longrightarrow> container (StateItem t) st' = container (StateItem t) st \<and>
       container (EventItem t) st' = container (EventItem t) st)"
proof -
  note kd = kernel_D [OF assms(1)]
  obtain cur where cur: "pxCurrentTCB st = Some cur" "cur \<in> T" using kd(6) by blast
  obtain st' where st': "ticks n st = Some st'" "after_ticks T E n st st'"
    using ticks_after [OF kd(1) cur assms(2)] by blast
  have "kernel T E idle st'" by (rule kernel_after_ticks [OF assms(1) st'(2)])
  then show ?thesis using st' by (auto simp: after_ticks_def woken_def)
qed

lemma delayed_w:
  assumes "0 < n"
  shows "\<exists>st. vTaskDelay n tasks_w = Some st \<and> kernel {0, 3, 5} {} 0 st \<and> uxSchedulerSuspended st = 0 \<and>
    time_left st 5 = Some (unat n) \<and> uxPriority (tcb st 5) = 5"
proof -
  obtain st where "vTaskDelay n tasks_w = Some st" "kernel {0, 3, 5} {} 0 st" "time_left st 5 = Some (unat n)"
    "tcb st = tcb tasks_w" "uxSchedulerSuspended st = 0"
    using vTaskDelay_eq [OF tasks_w(1,2) _ tasks_w(7,9) assms] by auto
  then show ?thesis using tasks_w(3) by auto
qed

theorem ticks_count_down_witness:
  "\<exists>st st'. vTaskDelay 2 tasks_w = Some st \<and> ticks 5 st = Some st' \<and>
     container (StateItem 5) st' = Some (Ready 5)"
proof -
  obtain st where st: "vTaskDelay 2 tasks_w = Some st" "kernel {0, 3, 5} {} 0 st" "uxSchedulerSuspended st = 0"
    "time_left st 5 = Some 2" "uxPriority (tcb st 5) = 5"
    using delayed_w [of 2] by auto
  obtain st' where "ticks 5 st = Some st'" "\<forall>t d. time_left st t = Some d \<and> d \<le> 5 \<longrightarrow>
       container (StateItem t) st' = Some (Ready (uxPriority (tcb st t))) \<and> container (EventItem t) st' = None"
    using ticks_count_down [OF st(2,3), of 5] by blast
  moreover from this(2) have "container (StateItem 5) st' = Some (Ready 5)" using st(4,5) by fastforce
  ultimately show ?thesis using st(1) by blast
qed

subsection \<open>Delays\<close>

text \<open>C28: \<open>vTaskDelay n\<close> with \<open>n > 0\<close>, called by a task other than the idle task, blocks the caller
  and nobody else, asks for a context switch exactly once, and after \<open>m\<close> further ticks the caller
  is in the ready list of its priority if and only if \<open>n \<le> m\<close>, also when the tick count wraps
  around in between.\<close>

theorem vTaskDelay_exact:
  assumes "kernel T E idle st" and "pxCurrentTCB st = Some cur" "cur \<noteq> idle"
    and "uxSchedulerSuspended st = 0" and "settled st" and "0 < n"
  shows "\<exists>st1. vTaskDelay n st = Some st1 \<and> kernel T E idle st1 \<and> yields st1 = yields st + 1 \<and>
    (\<forall>t. t \<noteq> cur \<longrightarrow> time_left st1 t = time_left st t) \<and>
    (\<forall>m. \<exists>st2. ticks m st1 = Some st2 \<and>
       (container (StateItem cur) st2 = Some (Ready (uxPriority (tcb st cur))) \<longleftrightarrow> unat n \<le> m))"
proof -
  obtain st1 where st1: "vTaskDelay n st = Some st1" "kernel T E idle st1" "time_left st1 cur = Some (unat n)"
    "\<forall>t. t \<noteq> cur \<longrightarrow> time_left st1 t = time_left st t" "tcb st1 = tcb st" "uxSchedulerSuspended st1 = 0"
    "yields st1 = yields st + 1"
    using vTaskDelay_eq [OF assms] by blast
  then show ?thesis using ready_after [OF st1(2,6,3)] by (intro exI [of _ st1]) simp
qed

theorem vTaskDelay_exact_witness:
  "\<exists>st1 st2. vTaskDelay 3 tasks_w = Some st1 \<and> ticks 3 st1 = Some st2 \<and>
     container (StateItem 5) st2 = Some (Ready 5)"
proof -
  obtain st1 where st1: "vTaskDelay 3 tasks_w = Some st1" "\<forall>m. \<exists>st2. ticks m st1 = Some st2 \<and>
       (container (StateItem 5) st2 = Some (Ready (uxPriority (tcb tasks_w 5))) \<longleftrightarrow> unat (3 :: u32) \<le> m)"
    using vTaskDelay_exact [OF tasks_w(1,2) _ tasks_w(7,9), of 3] by auto
  from st1(2) obtain st2 where "ticks 3 st1 = Some st2"
    "container (StateItem 5) st2 = Some (Ready (uxPriority (tcb tasks_w 5))) \<longleftrightarrow> unat (3 :: u32) \<le> 3"
    by blast
  then show ?thesis using st1(1) tasks_w(3) by auto
qed



subsection \<open>Time-outs\<close>

lemma clock_diff:
  assumes "clock st1 = (clock st + k) mod 2 ^ 64" and "k < 2 ^ 32"
  shows "unat (xTickCount st1 - xTickCount st) = k"
    "xNumOfOverflows st1 \<noteq> xNumOfOverflows st \<Longrightarrow> xTickCount st1 < xTickCount st"
proof -
  note b = unat_u32_less [of "xTickCount st"] unat_u32_less [of "xTickCount st1"]
  let ?x = "unat (xTickCount st)" and ?o = "unat (xNumOfOverflows st)"
  have lo: "unat (xTickCount st1) = (?x + k) mod 2 ^ 32"
  proof -
    have "unat (xTickCount st1) = clock st1 mod 2 ^ 32" using b by (simp add: clock_def)
    also have "\<dots> = (clock st + k) mod 2 ^ 32" unfolding assms(1) by (simp add: mod_mod_cancel)
    also have "\<dots> = (?x + k) mod 2 ^ 32" by (simp add: clock_def add.assoc)
    finally show ?thesis .
  qed
  show "unat (xTickCount st1 - xTickCount st) = k"
    using b assms(2) lo unfolding unat_sub_u32 by (cases "?x + k < 2 ^ 32") (auto simp: le_mod_geq not_less)
  assume ne: "xNumOfOverflows st1 \<noteq> xNumOfOverflows st"
  have hi: "unat (xNumOfOverflows st1) = clock st1 div 2 ^ 32" using b by (simp add: clock_def)
  have "2 ^ 32 \<le> ?x + k"
  proof (rule ccontr)
    assume "\<not> 2 ^ 32 \<le> ?x + k"
    then have "clock st + k < 2 ^ 64" "(clock st + k) div 2 ^ 32 = ?o"
      using unat_u32_less [of "xNumOfOverflows st"] by (simp_all add: clock_def)
    then show False using ne hi assms(1) by (simp add: word_unat_eq_iff)
  qed
  then show "xTickCount st1 < xTickCount st"
    using lo b assms(2) by (auto simp: word_less_nat_alt le_mod_geq)
qed

lemma check_time_out:
  assumes "clock st1 = (clock st + k) mod 2 ^ 64" and "k < 2 ^ 32" and "n \<noteq> portMAX_DELAY"
  shows "xTaskCheckForTimeOut (vTaskInternalSetTimeOutState st) n st1 =
    (if unat n \<le> k then (True, vTaskInternalSetTimeOutState st, 0)
     else (False, vTaskInternalSetTimeOutState st1, n - of_nat k))"
proof -
  note c = clock_diff [OF assms(1,2)]
  have "of_nat k = xTickCount st1 - xTickCount st" using c(1) by (metis of_nat_unat ucast_id)
  then show ?thesis using c assms(3)
    by (auto simp: xTaskCheckForTimeOut_def vTaskInternalSetTimeOutState_def Let_def word_less_nat_alt word_le_nat_alt)
qed

text \<open>C32: a time-out taken with \<open>vTaskSetTimeOutState\<close> and checked \<open>k < 2 ^ 32\<close> ticks later with \<open>n\<close>
  ticks to wait (other than \<^verbatim>\<open>portMAX_DELAY\<close>) has expired if and only if \<open>n \<le> k\<close>; otherwise the ticks
  to wait are reduced by \<open>k\<close> and the time-out restarts from now.\<close>

theorem xTaskCheckForTimeOut_exact:
  assumes "kernel T E idle st" and "uxSchedulerSuspended st = 0" and "ticks k st = Some st1"
    and "k < 2 ^ 32" and "n \<noteq> portMAX_DELAY"
  shows "xTaskCheckForTimeOut (vTaskSetTimeOutState st) n st1 =
    (if unat n \<le> k then (True, vTaskSetTimeOutState st, 0)
     else (False, vTaskSetTimeOutState st1, n - of_nat k))"
proof -
  note kd = kernel_D [OF assms(1)]
  obtain cur where "pxCurrentTCB st = Some cur" "cur \<in> T" using kd(6) by blast
  with ticks_after [OF kd(1) _ _ assms(2), of cur k] assms(3) have "after_ticks T E k st st1" by auto
  then have "clock st1 = (clock st + k) mod 2 ^ 64" by (simp add: after_ticks_def)
  from check_time_out [OF this assms(4,5)] show ?thesis
    by (simp add: vTaskSetTimeOutState_def vTaskInternalSetTimeOutState_def)
qed

theorem xTaskCheckForTimeOut_exact_witness:
  "\<exists>st1. ticks 7 tasks_w = Some st1 \<and>
     xTaskCheckForTimeOut (vTaskSetTimeOutState tasks_w) 10 st1 = (False, vTaskSetTimeOutState st1, 3)"
proof -
  obtain st1 where st1: "ticks 7 tasks_w = Some st1"
    using ticks_after [OF kernel_D(1) [OF tasks_w(1)] tasks_w(2) _ tasks_w(7), of 7] by auto
  show ?thesis
    using xTaskCheckForTimeOut_exact [OF tasks_w(1,7) st1, of 10] st1 by (simp add: portMAX_DELAY_def)
qed

subsection \<open>The suspended scheduler\<close>

lemma resume_all_catches_up:
  assumes "kernel T E idle st" and "uxSchedulerSuspended st = 1"
  shows "\<exists>y st'. xTaskResumeAll st = Some (y, st') \<and> kernel T E idle st' \<and> uxSchedulerSuspended st' = 0 \<and>
    settled st' \<and> clock st' = (clock st + unat (xPendedTicks st)) mod 2 ^ 64 \<and>
    (\<forall>t \<in> pending st. container (StateItem t) st' = Some (Ready (uxPriority (tcb st t))) \<and>
       container (EventItem t) st' = None) \<and>
    (\<forall>t. t \<notin> pending st \<longrightarrow> time_left st' t = count_down (unat (xPendedTicks st)) (time_left st t) \<and>
       (time_left st t = None \<longrightarrow> container (StateItem t) st' = container (StateItem t) st))"
proof -
  obtain y st1 st' where r: "xTaskResumeAll st = Some (y, st')" "kernel T E idle st'"
    "wakes (pending st) (st\<lparr>uxSchedulerSuspended := 0\<rparr>) st1"
    "after_ticks T E (unat (xPendedTicks st)) st1 (st'\<lparr>yields := yields st\<rparr>)" "xPendedTicks st' = 0"
    using resume_all [OF assms] by blast
  note w = wakes_D [OF r(3)]
  have left: "time_left st1 t = (if t \<in> pending st then None else time_left st t)" for t
    using kernel_D(1) [OF assms(1)] tasks_at_D(7) [of T "Suc (unat (xTickCount st))" "unat (xTickCount st)" st]
    by (auto simp: time_left_def w sched_at_def)
  have clk: "clock st1 = clock st" by (simp add: clock_def w)
  have wk: "t \<notin> woken k st1" if "t \<in> pending st" for t k using left that by (simp add: woken_def)
  have p1: "container (EventItem t) st1 \<noteq> Some PendingReady" for t by (simp add: w(15) pending_def)
  have "pending st' = {}" using r(4) p1 by (auto simp: after_ticks_def pending_def split: if_splits)
  then have "settled st'" using r(5) by (simp add: settled_def)
  moreover have "container (StateItem t) st' = Some (Ready (uxPriority (tcb st t))) \<and> container (EventItem t) st' = None"
    if "t \<in> pending st" for t
    using r(4) left wk [OF that] that by (simp add: after_ticks_def w)
  moreover have "time_left st' t = count_down (unat (xPendedTicks st)) (time_left st t) \<and>
      (time_left st t = None \<longrightarrow> container (StateItem t) st' = container (StateItem t) st)" if "t \<notin> pending st" for t
    using r(4) left that by (simp add: after_ticks_def w)
  moreover have "clock st' = (clock st + unat (xPendedTicks st)) mod 2 ^ 64" "uxSchedulerSuspended st' = 0"
    using r(4) clk w by (simp_all add: after_ticks_def)
  ultimately show ?thesis using r(1,2) by blast
qed

text \<open>C33: the \<open>xTaskResumeAll\<close> that ends the suspension makes every task pending ready, and then
  processes the ticks held back: the time left of every delayed task is what it would be had the
  ticks been counted when they occurred, and the clock has caught up.\<close>

theorem xTaskResumeAll_catches_up:
  assumes "kernel T E idle st" and "uxSchedulerSuspended st = 1"
  shows "\<exists>y st'. xTaskResumeAll st = Some (y, st') \<and> kernel T E idle st' \<and> uxSchedulerSuspended st' = 0 \<and>
    settled st' \<and> clock st' = (clock st + unat (xPendedTicks st)) mod 2 ^ 64 \<and>
    (\<forall>t \<in> pending st. container (StateItem t) st' = Some (Ready (uxPriority (tcb st t))) \<and>
       container (EventItem t) st' = None) \<and>
    (\<forall>t. t \<notin> pending st \<longrightarrow> time_left st' t = count_down (unat (xPendedTicks st)) (time_left st t) \<and>
       (time_left st t = None \<longrightarrow> container (StateItem t) st' = container (StateItem t) st))"
  by (rule resume_all_catches_up [OF assms])

theorem xTaskResumeAll_catches_up_witness:
  "\<exists>st y st'. xTaskIncrementTick (vTaskSuspendAll tasks_w) = Some (False, st) \<and>
     xTaskResumeAll st = Some (y, st') \<and> clock st' = (clock tasks_w + 1) mod 2 ^ 64"
proof -
  let ?s = "vTaskSuspendAll tasks_w"
  let ?st = "?s\<lparr>xPendedTicks := xPendedTicks ?s + 1\<rparr>"
  have one: "uxSchedulerSuspended ?s = 1" "xPendedTicks ?s = 0" using tasks_w(7,8) by (simp_all add: vTaskSuspendAll_def)
  have t: "xTaskIncrementTick ?s = Some (False, ?st)" using one by (simp add: xTaskIncrementTick_def)
  have k: "kernel {0, 3, 5} {} 0 ?st" using tasks_w(1) by simp
  show ?thesis
    using xTaskResumeAll_catches_up [OF k] one t by simp blast
qed

end
