(* ===== verification/TasksEvents.thy ===== *)
theory TasksEvents
  imports TasksProps
begin

text \<open>
  Event lists: every one is a priority queue of the tasks that wait on it.  \<open>waits E st Q\<close> says which
  items wait on each event, in the order the kernel will wake them.
\<close>

subsection \<open>The waiting lists\<close>

definition waits :: "nat set \<Rightarrow> ktask \<Rightarrow> (nat \<Rightarrow> kitem list) \<Rightarrow> bool" where
  "waits E st Q \<longleftrightarrow> (\<exists>A. lists_ok E st A \<and> (\<forall>e \<in> E. Q e = fst (A (Event e))))"

lemma linked_unique:
  assumes "linked m (p # map Item xs @ q)" and "linked m (p # map Item ys @ r)" and "length xs = length ys"
  shows "xs = ys"
  using assms(3,1,2)
proof (induction xs ys arbitrary: p rule: list_induct2)
  case (Cons x xs y ys)
  then show ?case by (auto simp: linked_def)
qed simp

lemma klist_unique:
  assumes "klist l st L" and "klist l st M"
  shows "fst L = fst M"
proof -
  obtain xs j ys k where L: "L = (xs, j)" and M: "M = (ys, k)" by (cases L; cases M)
  have "linked (nodes st) (ListEnd l # map Item xs @ [ListEnd l])" "linked (nodes st) (ListEnd l # map Item ys @ [ListEnd l])"
    "w32 (length xs) = w32 (length ys)" "length xs < 2 ^ 32" "length ys < 2 ^ 32"
    using assms unfolding L M klist_def ring_def by auto
  then show ?thesis using linked_unique w32_inj unfolding L M by (metis fst_conv)
qed

text \<open>The queues are a function of the state.\<close>

lemma lists_ok_unique:
  assumes "lists_ok E st A" and "lists_ok E st B" and "l \<in> kernel_lists E"
  shows "fst (A l) = fst (B l)"
  using klist_unique [OF lrel_list [OF lists_ok_lrel [OF assms(1)] assms(3)]
      lrel_list [OF lists_ok_lrel [OF assms(2)] assms(3)]] by simp

lemma waits_D:
  assumes "waits E st Q" and "lists_ok E st A" and "e \<in> E"
  shows "Q e = fst (A (Event e))"
proof -
  obtain B where "lists_ok E st B" "\<forall>e \<in> E. Q e = fst (B (Event e))" using assms(1) unfolding waits_def by blast
  moreover have "Event e \<in> kernel_lists E" using assms(3) by (simp add: kernel_lists_def)
  ultimately show ?thesis using lists_ok_unique [OF assms(2)] assms(3) by simp
qed

text \<open>Where an operation on list \<open>l\<close> changes the queues.\<close>

definition upd_waits :: "klid \<Rightarrow> (kitem list \<Rightarrow> kitem list) \<Rightarrow> (nat \<Rightarrow> kitem list) \<Rightarrow> nat \<Rightarrow> kitem list" where
  "upd_waits l f Q = (case l of Event e \<Rightarrow> Q(e := f (Q e)) | _ \<Rightarrow> Q)"

lemma upd_waits_simps [simp]:
  "upd_waits (Event e) f Q = Q(e := f (Q e))" "upd_waits (Ready p) f Q = Q" "upd_waits Suspended f Q = Q"
  "upd_waits PendingReady f Q = Q" "upd_waits DelayedTaskList1 f Q = Q" "upd_waits DelayedTaskList2 f Q = Q"
  "upd_waits WaitingTermination f Q = Q"
  by (simp_all add: upd_waits_def)

lemma waits_upd:
  assumes "waits E st Q" and "lists_ok E st A" and "lists_ok E st' (A(l := L))" and "fst L = f (fst (A l))"
  shows "waits E st' (upd_waits l f Q)"
proof -
  have "upd_waits l f Q e = fst ((A(l := L)) (Event e))" if "e \<in> E" for e
    using waits_D [OF assms(1,2) that] assms(4) by (cases l) auto
  then show ?thesis using assms(3) by (auto simp: waits_def)
qed

lemma sched_waits: "sched_at T E c d st \<Longrightarrow> \<exists>Q. waits E st Q"
  by (auto simp: sched_at_def waits_def)

lemma waits_cong:
  assumes "waits E st Q" and "ls st' = ls st"
  shows "waits E st' Q"
proof -
  have "value_of st' = value_of st" by (simp add: value_of_def fun_eq_iff assms(2))
  then have "lists_ok E st' A = lists_ok E st A" for A by (simp add: lists_ok_def assms(2))
  then show ?thesis using assms(1) by (simp add: waits_def)
qed

subsection \<open>Primitive steps\<close>

lemma waits_remove:
  assumes "sched_at T E c d st" and "container i st = Some l" and "waits E st Q"
  shows "\<exists>n st'. list_remove i st = Some (n, st') \<and> sched_at T E c d st' \<and> moved i None st st' \<and>
    waits E st' (upd_waits l (remove1 i) Q)"
proof -
  obtain A where A: "tasks_at T c d st" "lists_ok E st A" using assms(1) by (auto simp: sched_at_def)
  obtain st' n where st': "list_remove i st = Some (n, st')" "lists_ok E st' (A(l := al_remove i (A l)))" "moved i None st st'"
    using list_remove_lists [OF A(2) assms(2)] by blast
  have "fst (al_remove i (A l)) = remove1 i (fst (A l))" by (cases "A l") (simp add: al_remove_def)
  then show ?thesis using st' tasks_at_remove [OF A(1) st'(3)] waits_upd [OF assms(3) A(2) st'(2)]
    by (auto simp: sched_at_def)
qed

lemma waits_add_ready:
  assumes "sched_at T E c d st" and "t \<in> T" and "container (StateItem t) st = None" and "waits E st Q"
  shows "waits E (prvAddTaskToReadyList t st) Q"
proof -
  let ?p = "uxPriority (tcb st t)"
  obtain A where A: "tasks_at T c d st" "lists_ok E st A" using assms(1) by (auto simp: sched_at_def)
  have l: "Ready ?p \<in> kernel_lists E" using tasks_at_D(4) [OF A(1) assms(2)] by (simp add: kernel_lists_def)
  let ?s = "on_lists (vListInsertEnd (Ready ?p) (StateItem t)) st"
  have "lists_ok E ?s (A(Ready ?p := al_insert_end (StateItem t) (A (Ready ?p))))"
    using insert_end_lists [OF A l assms(3)] by simp
  from waits_upd [OF assms(4) A(2) this, of "\<lambda>_. fst (al_insert_end (StateItem t) (A (Ready ?p)))"]
  have "waits E ?s Q" by simp
  moreover have "ls (prvAddTaskToReadyList t st) = ls ?s"
    by (simp add: prvAddTaskToReadyList_def taskRECORD_READY_PRIORITY_def on_lists_def Let_def)
  ultimately show ?thesis by (rule waits_cong)
qed

lemma waits_insert_end:
  assumes "sched_at T E c d st" and "container i st = None" and "l \<in> {PendingReady, Suspended}" and "waits E st Q"
  shows "waits E (on_lists (vListInsertEnd l i) st) Q"
proof -
  obtain A where A: "tasks_at T c d st" "lists_ok E st A" using assms(1) by (auto simp: sched_at_def)
  have l: "l \<in> kernel_lists E" "l \<notin> {DelayedTaskList1, DelayedTaskList2}" using assms(3) by (auto simp: kernel_lists_def)
  have "lists_ok E (on_lists (vListInsertEnd l i) st) (A(l := al_insert_end i (A l)))"
    using insert_end_lists [OF A l(1) assms(2) l(2)] by simp
  from waits_upd [OF assms(4) A(2) this, of "\<lambda>_. fst (al_insert_end i (A l))"]
  show ?thesis using assms(3) by auto
qed

lemma waits_insert:
  assumes "sched_at T E c d st" and "container i st = None" and "l \<in> kernel_lists E" and "waits E st Q"
    and "list_insert l i st = Some st'"
  shows "waits E st' (upd_waits l (\<lambda>xs. fst (al_insert (value_of st) i (xs, 0))) Q)"
proof -
  obtain A where A: "tasks_at T c d st" "lists_ok E st A" using assms(1) by (auto simp: sched_at_def)
  have "lists_ok E st' (A(l := al_insert (value_of st) i (A l)))"
    using list_insert_lists [OF A assms(3,2)] assms(5) by auto
  moreover have "fst (al_insert (value_of st) i (A l)) = fst (al_insert (value_of st) i (fst (A l), 0))"
    by (cases "A l") (simp add: al_insert_def Let_def)
  ultimately show ?thesis by (rule waits_upd [OF assms(4) A(2)])
qed

lemma waits_set_value:
  assumes "waits E st Q" and "container i st \<notin> {Some DelayedTaskList1, Some DelayedTaskList2}"
  shows "waits E (on_lists (listSET_LIST_ITEM_VALUE i v) st) Q"
proof -
  let ?st' = "on_lists (listSET_LIST_ITEM_VALUE i v) st"
  obtain A where A: "lists_ok E st A" "\<forall>e \<in> E. Q e = fst (A (Event e))" using assms(1) by (auto simp: waits_def)
  have "DelayedTaskList1 \<in> kernel_lists E" "DelayedTaskList2 \<in> kernel_lists E" by (auto simp: kernel_lists_def)
  then have "i \<notin> set (fst (A DelayedTaskList1))" "i \<notin> set (fst (A DelayedTaskList2))"
    using lists_ok_container [OF A(1)] assms(2) by auto
  moreover have "lrel (kernel_lists E) (ls ?st') A"
    using lrel_set_value [OF lists_ok_lrel [OF A(1)]] by (simp add: on_lists_def)
  ultimately have "lists_ok E ?st' A"
    using A(1) unfolding lists_ok_def set_value_obs(1) by (simp only: sorted_value_upd simp_thms)
  then show ?thesis using A(2) by (auto simp: waits_def)
qed

text \<open>Delaying the current task leaves every queue as it is.\<close>

lemma waits_add_delayed:
  assumes s: "sched T E st" and cur: "pxCurrentTCB st = Some cur" "cur \<in> T"
    and l: "container (StateItem cur) st = Some l" and q: "waits E st Q"
    and run: "prvAddCurrentTaskToDelayedList n b st = Some st'"
  shows "waits E st' Q"
proof -
  let ?c = "Suc (unat (xTickCount st))" and ?d = "unat (xTickCount st)"
  have tl: "upd_waits l f Q = Q" for f
    using tasks_at_D(3) [of T ?c ?d st "StateItem cur" l] s l by (cases l) (auto simp: sched_at_def)
  obtain k st1 where st1: "list_remove (StateItem cur) st = Some (k, st1)" "sched_at T E ?c ?d st1"
    "moved (StateItem cur) None st st1" "waits E st1 Q"
    using waits_remove [OF s l q] unfolding tl by blast
  note m1 = moved_fields [OF st1(3)]
  have none: "container (StateItem cur) st1 = None" by (simp add: m1)
  show ?thesis
  proof (cases "n = portMAX_DELAY \<and> b")
    case True
    then have "st' = on_lists (vListInsertEnd Suspended (StateItem cur)) st1"
      using run cur(1) st1(1) by (simp add: prvAddCurrentTaskToDelayedList_def)
    then show ?thesis using waits_insert_end [OF st1(2) none _ st1(4)] by simp
  next
    case False
    define w where "w = xTickCount st + n"
    define st2 where "st2 = on_lists (listSET_LIST_ITEM_VALUE (StateItem cur) w) st1"
    have s2: "sched_at T E ?c ?d st2" "waits E st2 Q" "container (StateItem cur) st2 = None"
      unfolding st2_def using sched_set_value [OF st1(2)] waits_set_value [OF st1(4)] none
      by (simp_all add: set_value_obs(3))
    have dl: "pxDelayedTaskList st2 \<in> {DelayedTaskList1, DelayedTaskList2}"
      "pxOverflowDelayedTaskList st2 \<in> {DelayedTaskList1, DelayedTaskList2}"
      using s2(1) tasks_at_D(7) [of T ?c ?d st2] by (auto simp: sched_at_def)
    have ins: "waits E s Q" if "list_insert l' (StateItem cur) st2 = Some s" "l' \<in> {DelayedTaskList1, DelayedTaskList2}" for s l'
      using waits_insert [OF s2(1,3) _ s2(2) that(1)] that(2) by (auto simp: kernel_lists_def)
    show ?thesis
    proof (cases "w < xTickCount st")
      case True
      then have "list_insert (pxOverflowDelayedTaskList st2) (StateItem cur) st2 = Some st'"
        using run cur(1) st1(1) False by (simp add: prvAddCurrentTaskToDelayedList_def Let_def w_def st2_def split: if_splits)
      then show ?thesis using ins dl(2) by blast
    next
      case late: False
      obtain s where s: "list_insert (pxDelayedTaskList st2) (StateItem cur) st2 = Some s"
        using run cur(1) st1(1) False late
        by (cases "list_insert (pxDelayedTaskList st2) (StateItem cur) st2")
          (auto simp: prvAddCurrentTaskToDelayedList_def Let_def w_def st2_def)
      then have "ls st' = ls s"
        using run cur(1) st1(1) False late
        by (auto simp: prvAddCurrentTaskToDelayedList_def Let_def w_def st2_def split: if_splits)
      then show ?thesis using waits_cong ins [OF s dl(1)] by blast
    qed
  qed
qed

subsection \<open>Waiting and waking\<close>

text \<open>Where a new waiter goes: behind every waiter whose value is not larger.\<close>

definition queue_insert :: "(kitem \<Rightarrow> u32) \<Rightarrow> kitem \<Rightarrow> kitem list \<Rightarrow> kitem list" where
  "queue_insert v i xs = takeWhile (\<lambda>j. v j \<le> v i) xs @ i # dropWhile (\<lambda>j. v j \<le> v i) xs"

lemma al_insert_queue: "fst (al_insert v i (xs, k)) = queue_insert v i xs"
  by (simp add: al_insert_def ins_at_def queue_insert_def Let_def takeWhile_eq_take [symmetric] dropWhile_eq_drop [symmetric])

lemma queue_insert_set [simp]: "set (queue_insert v i xs) = insert i (set xs)"
  using takeWhile_dropWhile_id [of "\<lambda>j. v j \<le> v i" xs] by (metis Un_insert_right list.set(2) queue_insert_def set_append)

lemma queue_insert_sorted: "sorted (map v xs) \<Longrightarrow> sorted (map v (queue_insert v i xs))"
  using al_insert_sorted [of v xs i 0] by (simp add: al_insert_queue)

lemma kernel_waits_container:
  assumes "waits E st Q" and "e \<in> E"
  shows "container i st = Some (Event e) \<longleftrightarrow> i \<in> set (Q e)"
proof -
  obtain A where "lists_ok E st A" "Q e = fst (A (Event e))" using assms by (auto simp: waits_def)
  then show ?thesis using lists_ok_container [of E st A "Event e" i] assms(2) by (simp add: kernel_lists_def)
qed

lemma place_on_event_list:
  assumes k: "kernel T E idle st" and cur: "pxCurrentTCB st = Some cur" "cur \<noteq> idle" and e: "e \<in> E"
    and free: "container (EventItem cur) st = None" and n: "0 < n" and q: "waits E st Q"
  shows "\<exists>st'. vTaskPlaceOnEventList (Event e) n st = Some st' \<and> kernel T E idle st' \<and>
    waits E st' (Q(e := queue_insert (value_of st) (EventItem cur) (Q e))) \<and>
    same_ctl st st' \<and> container (EventItem cur) st' = Some (Event e) \<and>
    container (StateItem cur) st' = Some (delay_list n True st) \<and>
    (\<forall>j. item_task j \<noteq> cur \<longrightarrow> container j st' = container j st) \<and>
    (\<forall>j. j \<noteq> StateItem cur \<longrightarrow> value_of st' j = value_of st j) \<and>
    (n \<noteq> portMAX_DELAY \<longrightarrow> time_left st' cur = Some (unat n)) \<and>
    (\<forall>t. t \<noteq> cur \<longrightarrow> time_left st' t = time_left st t) \<and> clock st' = clock st"
proof -
  note kd = kernel_D [OF k]
  have ct: "cur \<in> T" using kd(6) cur by auto
  obtain l where l: "container (StateItem cur) st = Some l" using kd(4) [OF ct] by blast
  obtain st1 where st1: "list_insert (Event e) (EventItem cur) st = Some st1"
    "sched_at T E (Suc (unat (xTickCount st))) (unat (xTickCount st)) st1" "moved (EventItem cur) (Some (Event e)) st st1"
    using sched_insert_event [OF kd(1) ct free e] by blast
  note m = moved_fields [OF st1(3)]
  have ek: "Event e \<in> kernel_lists E" using e by (simp add: kernel_lists_def)
  have q1: "waits E st1 (Q(e := queue_insert (value_of st) (EventItem cur) (Q e)))"
    using waits_insert [OF kd(1) free ek q st1(1)] by (simp add: al_insert_queue)
  have s1: "sched T E st1" "pxCurrentTCB st1 = Some cur" "container (StateItem cur) st1 = Some l"
    using st1(2) cur l by (simp_all add: m)
  obtain st' where st': "prvAddCurrentTaskToDelayedList n True st1 = Some st'" "sched T E st'"
    "blocks cur (delay_list n True st1) st1 st'"
    "delay_list n True st1 \<noteq> Suspended \<longrightarrow> time_left st' cur = Some (unat n)"
    "\<forall>t. t \<noteq> cur \<longrightarrow> time_left st' t = time_left st1 t" "clock st' = clock st1"
    using delayed_time [OF s1(1,2) ct s1(3) n, of True] by blast
  have dl: "delay_list n True st1 = delay_list n True st" by (simp add: delay_list_def m)
  have left: "time_left st1 t = time_left st t" for t by (simp add: time_left_def m)
  note b = blocks_D [OF st'(3), unfolded dl]
  have sc: "same_ctl st st'" using same_ctl_trans [OF moved_same_ctl [OF st1(3)] b(1)] .
  note f = same_ctl_D [OF sc]
  have c: "container j st' = (if j = StateItem cur then Some (delay_list n True st)
      else if j = EventItem cur then Some (Event e) else container j st)" for j
    using b(2) m(15) by simp
  have dls: "delay_list n True st \<in> {DelayedTaskList1, DelayedTaskList2, Suspended}" by (rule delay_list_cases [OF kd(1)])
  have "kernel T E idle st'"
    unfolding kernel_def using st'(2) kd dls ct cur by (simp add: f c)
  moreover have "waits E st' (Q(e := queue_insert (value_of st) (EventItem cur) (Q e)))"
    by (rule waits_add_delayed [OF s1(1,2) ct s1(3) q1 st'(1)])
  moreover have "vTaskPlaceOnEventList (Event e) n st = Some st'"
    using cur(1) st1(1) st'(1) by (simp add: vTaskPlaceOnEventList_def)
  moreover have "time_left st' cur = Some (unat n)" if "n \<noteq> portMAX_DELAY"
  proof -
    have "pxDelayedTaskList st \<noteq> Suspended" "pxOverflowDelayedTaskList st \<noteq> Suspended"
      using tasks_at_D(7) [of T "Suc (unat (xTickCount st))" "unat (xTickCount st)" st] kd(1) by (auto simp: sched_at_def)
    then have "delay_list n True st1 \<noteq> Suspended" using that unfolding dl by (auto simp: delay_list_def)
    then show ?thesis using st'(4) by blast
  qed
  moreover have "clock st' = clock st" by (simp add: clock_def f)
  moreover have "value_of st' j = value_of st j" if "j \<noteq> StateItem cur" for j using b(3) [OF that] m(16) by simp
  moreover have "container j st' = container j st" if "item_task j \<noteq> cur" for j using c that by auto
  ultimately show ?thesis using sc c st'(5) left by simp
qed

lemma remove_from_event_list:
  assumes k: "kernel T E idle st" and e: "e \<in> E" and q: "waits E st Q" "Q e = i # is"
  shows "\<exists>t b st'. i = EventItem t \<and> xTaskRemoveFromEventList (Event e) st = Some (b, st') \<and>
    kernel T E idle st' \<and> waits E st' (Q(e := is)) \<and> value_of st' = value_of st \<and>
    (uxSchedulerSuspended st = 0 \<longrightarrow> wakes {t} st st') \<and>
    (uxSchedulerSuspended st \<noteq> 0 \<longrightarrow> container (EventItem t) st' = Some PendingReady \<and>
       (\<forall>j. j \<noteq> EventItem t \<longrightarrow> container j st' = container j st)) \<and>
    same_ctl (st\<lparr>xYieldPending := True\<rparr>) (st'\<lparr>xYieldPending := True\<rparr>) \<and>
    (\<exists>cur. pxCurrentTCB st = Some cur \<and> (b \<longleftrightarrow> uxPriority (tcb st t) > uxPriority (tcb st cur))) \<and>
    (xYieldPending st' \<longleftrightarrow> b \<or> xYieldPending st)"
proof -
  note kd = kernel_D [OF k]
  let ?sch = "sched_at T E (Suc (unat (xTickCount st))) (unat (xTickCount st))"
  have ek: "Event e \<in> kernel_lists E" using e by (simp add: kernel_lists_def)
  have ci: "container i st = Some (Event e)" using kernel_waits_container [OF q(1) e] q(2) by simp
  have "\<not> is_state i" "item_task i \<in> T" using kernel_tasks [OF k ci] by simp_all
  then obtain t where t: "i = EventItem t" "t \<in> T" by (cases i) auto
  note ce = ci [unfolded t]
  obtain cur where cur: "pxCurrentTCB st = Some cur" using kd(6) by blast
  obtain A where tk: "tasks_at T (Suc (unat (xTickCount st))) (unat (xTickCount st)) st" and A: "lists_ok E st A"
    using kd(1) by (auto simp: sched_at_def)
  note kl = lrel_list [OF lists_ok_lrel [OF A] ek]
  have xs: "fst (A (Event e)) = i # is" using waits_D [OF q(1) A e] q(2) by simp
  have own: "listGET_OWNER_OF_HEAD_ENTRY (Event e) (ls st) = t"
    using klist_head(1) [OF kl] xs tasks_at_D(1) [OF tk, where i = i] t by (simp add: owner_of_def)
  have dist: "i \<notin> set is" using lists_ok_distinct [OF A ek] xs by simp
  obtain n st1 where st1: "list_remove i st = Some (n, st1)" "?sch st1" "moved i None st st1"
    "waits E st1 (upd_waits (Event e) (remove1 i) Q)"
    using waits_remove [OF kd(1) ci q(1)] by blast
  note m = moved_fields [OF st1(3)]
  have q1: "waits E st1 (Q(e := is))" using st1(4) q(2) by simp
  obtain l where l: "container (StateItem t) st = Some l" using kd(4) [OF t(2)] by blast
  define st2 where "st2 = (if uxSchedulerSuspended st = 0
    then prvAddTaskToReadyList t (snd (the (list_remove (StateItem t) st1)))
    else on_lists (vListInsertEnd PendingReady (EventItem t)) st1)"
  have none: "container (EventItem t) st1 = None" using m(15) t by simp
  have run2: "(if uxSchedulerSuspended st1 = 0
      then do { (_, s) \<leftarrow> list_remove (StateItem t) st1; Some (prvAddTaskToReadyList t s) }
      else Some (on_lists (vListInsertEnd PendingReady (EventItem t)) st1)) = Some st2 \<and>
    ?sch st2 \<and> waits E st2 (Q(e := is)) \<and> value_of st2 = value_of st \<and> same_ctl st st2 \<and>
    (uxSchedulerSuspended st = 0 \<longrightarrow> wakes {t} st st2) \<and>
    (uxSchedulerSuspended st \<noteq> 0 \<longrightarrow> container (EventItem t) st2 = Some PendingReady \<and>
       (\<forall>j. j \<noteq> EventItem t \<longrightarrow> container j st2 = container j st))"
  proof (cases "uxSchedulerSuspended st = 0")
    case True
    have l1: "container (StateItem t) st1 = Some l" using l t m(15) by simp
    have hs: "holds_state l" using tasks_at_D(3) [OF tk l] by simp
    obtain n2 s where s: "list_remove (StateItem t) st1 = Some (n2, s)" "?sch s" "moved (StateItem t) None st1 s"
      "waits E s (upd_waits l (remove1 (StateItem t)) (Q(e := is)))"
      using waits_remove [OF st1(2) l1 q1] by blast
    have qs: "waits E s (Q(e := is))" using s(4) hs by (cases l) auto
    note ms = moved_fields [OF s(3)]
    have no: "container (StateItem t) s = None" by (simp add: ms)
    note r = sched_add_ready [OF s(2) t(2) no]
    note mr = made_ready_fields [OF r(2)]
    have eq: "st2 = prvAddTaskToReadyList t s" using True s(1) by (simp add: st2_def)
    have sc: "same_ctl st st2" unfolding eq
      by (rule same_ctl_trans [OF moved_same_ctl [OF st1(3)]
            same_ctl_trans [OF moved_same_ctl [OF s(3)] made_ready_same_ctl [OF r(2)]]])
    have "wakes {t} st st2"
      by (rule wakes_I [OF sc]) (simp_all add: eq mr ms m t)
    then show ?thesis
      using True s(1) r(1) waits_add_ready [OF s(2) t(2) no qs] sc eq by (simp add: m mr ms)
  next
    case False
    have ok: "item_task (EventItem t) \<in> T" "is_state (EventItem t) = holds_state PendingReady" using t(2) by simp_all
    note r = sched_insert_end [OF st1(2) none ok]
    have mv: "moved (EventItem t) (Some PendingReady) st1 st2" using r(2) False by (simp add: st2_def)
    note mr = moved_fields [OF mv]
    have eq: "st2 = on_lists (vListInsertEnd PendingReady (EventItem t)) st1" using False by (simp add: st2_def)
    have sc: "same_ctl st st2" using same_ctl_trans [OF moved_same_ctl [OF st1(3)] moved_same_ctl [OF mv]] .
    have "?sch st2" using r(1) eq by simp
    moreover have "waits E st2 (Q(e := is))" unfolding eq by (rule waits_insert_end [OF st1(2) none _ q1]) simp
    moreover have "value_of st2 = value_of st" "container (EventItem t) st2 = Some PendingReady"
      "\<forall>j. j \<noteq> EventItem t \<longrightarrow> container j st2 = container j st"
      by (simp_all add: m(15,16) mr(15,16) t)
    ultimately show ?thesis unfolding m(8) using False sc eq [symmetric] by simp
  qed
  define b where "b \<longleftrightarrow> uxPriority (tcb st t) > uxPriority (tcb st cur)"
  let ?st' = "if b then st2\<lparr>xYieldPending := True\<rparr> else st2"
  have sc2: "same_ctl st st2" using run2 by blast
  note f = same_ctl_D [OF sc2]
  have run: "xTaskRemoveFromEventList (Event e) st = Some (b, ?st')"
    using run2 own st1(1) t(1) cur f(1,2) by (simp add: xTaskRemoveFromEventList_def b_def Let_def)
  have "kernel T E idle st2"
  proof (cases "uxSchedulerSuspended st = 0")
    case True
    then show ?thesis using kernel_wakes [OF k, where W = "{t}" and st' = st2] run2 t(2) f(5) by simp
  next
    case False
    have "container (StateItem t) st \<in> {Some DelayedTaskList1, Some DelayedTaskList2, Some Suspended}"
      using kd(5) [of t] ce by simp
    moreover have "container j st2 = container j st" if "j \<noteq> EventItem t" for j using run2 False that by blast
    ultimately have "container (StateItem u) st2 \<in> {Some DelayedTaskList1, Some DelayedTaskList2, Some Suspended}"
      if "container (EventItem u) st2 \<noteq> None" for u
      using that kd(5) [of u] by (cases "u = t") simp_all
    then show ?thesis unfolding kernel_def using run2 False kd f cur by simp
  qed
  then have "kernel T E idle ?st'" by simp
  moreover have "waits E ?st' (Q(e := is))" using run2 waits_cong [of E st2 "Q(e := is)" ?st'] by simp
  moreover have "same_ctl (st\<lparr>xYieldPending := True\<rparr>) (?st'\<lparr>xYieldPending := True\<rparr>)"
    using sc2 by (simp add: same_ctl_def)
  moreover have "value_of ?st' = value_of st" "uxSchedulerSuspended st = 0 \<longrightarrow> wakes {t} st ?st'"
    "uxSchedulerSuspended st \<noteq> 0 \<longrightarrow> container (EventItem t) ?st' = Some PendingReady \<and>
       (\<forall>j. j \<noteq> EventItem t \<longrightarrow> container j ?st' = container j st)"
    using run2 by simp_all
  moreover have "\<exists>cur. pxCurrentTCB st = Some cur \<and> (b \<longleftrightarrow> uxPriority (tcb st t) > uxPriority (tcb st cur))"
    using cur b_def by blast
  moreover have "xYieldPending ?st' \<longleftrightarrow> b \<or> xYieldPending st" using f(12) by auto
  ultimately show ?thesis using t(1) run by blast
qed

subsection \<open>The properties\<close>

text \<open>A state with an event list, 7, on which nobody waits.\<close>

definition event_w :: ktask where
  "event_w = on_lists (vListInitialise (Event 7)) tasks_w"

lemma event_w:
  "kernel {0, 3, 5} {7} 0 event_w" "pxCurrentTCB event_w = Some 5" "uxSchedulerSuspended event_w = 0"
  "settled event_w" "container (EventItem t) event_w = None" "waits {7} event_w (\<lambda>_. [])"
  "uxPriority (tcb event_w 5) = 5"
proof -
  note s = sched_new_event_list [OF kernel_D(1) [OF tasks_w(1)], of 7, folded event_w_def]
  have f: "tcb event_w = tcb tasks_w" "pxCurrentTCB event_w = pxCurrentTCB tasks_w" "xTickCount event_w = xTickCount tasks_w"
    "uxSchedulerSuspended event_w = uxSchedulerSuspended tasks_w" "xPendedTicks event_w = xPendedTicks tasks_w"
    "uxCurrentNumberOfTasks event_w = uxCurrentNumberOfTasks tasks_w"
    by (simp_all add: event_w_def on_lists_def)
  have s1: "sched_at {0, 3, 5} {7} (Suc (unat (xTickCount tasks_w))) (unat (xTickCount tasks_w)) event_w"
    using s(1) by simp
  show k: "kernel {0, 3, 5} {7} 0 event_w" using tasks_w(1) s1 unfolding kernel_def f s(2) [simplified] by simp
  show "pxCurrentTCB event_w = Some 5" "uxSchedulerSuspended event_w = 0" "uxPriority (tcb event_w 5) = 5"
    using tasks_w by (simp_all add: f)
  show none: "container (EventItem t) event_w = None" for t using s(2) tasks_w(13) by simp
  show "settled event_w" using tasks_w(8) none by (simp add: settled_def pending_def f)
  obtain Q where Q: "waits {7} event_w Q" using sched_waits [OF s1] by blast
  have "Q 7 = []"
  proof (rule ccontr)
    assume "Q 7 \<noteq> []"
    then obtain i where i: "i \<in> set (Q 7)" by (cases "Q 7") auto
    then have c: "container i event_w = Some (Event 7)" using kernel_waits_container [OF Q] by simp
    then have "\<not> is_state i" using kernel_tasks(2) [OF k c] by simp
    then show False using c none by (cases i) auto
  qed
  then show "waits {7} event_w (\<lambda>_. [])" using Q by (auto simp: waits_def)
qed

text \<open>C34: a task that waits on an event list is entered behind the waiters whose value is not larger,
  so that a list in the order of values stays so; the other event lists keep their waiters, the
  caller is on the delayed list for exactly its ticks (or on the suspended list when it waits
  without limit), and nobody else is affected.\<close>

theorem vTaskPlaceOnEventList_queues:
  assumes "kernel T E idle st" and "pxCurrentTCB st = Some cur" "cur \<noteq> idle" and "e \<in> E"
    and "container (EventItem cur) st = None" and "0 < n" and "waits E st Q"
  shows "\<exists>st'. vTaskPlaceOnEventList (Event e) n st = Some st' \<and> kernel T E idle st' \<and>
    waits E st' (Q(e := queue_insert (value_of st) (EventItem cur) (Q e))) \<and>
    (sorted (map (value_of st) (Q e)) \<longrightarrow>
       sorted (map (value_of st') (queue_insert (value_of st) (EventItem cur) (Q e)))) \<and>
    (if n = portMAX_DELAY then container (StateItem cur) st' = Some Suspended
     else time_left st' cur = Some (unat n)) \<and>
    (\<forall>t. t \<noteq> cur \<longrightarrow> container (StateItem t) st' = container (StateItem t) st \<and>
       container (EventItem t) st' = container (EventItem t) st \<and> time_left st' t = time_left st t)"
proof -
  obtain st' where st': "vTaskPlaceOnEventList (Event e) n st = Some st'" "kernel T E idle st'"
    "waits E st' (Q(e := queue_insert (value_of st) (EventItem cur) (Q e)))"
    "container (StateItem cur) st' = Some (delay_list n True st)"
    "\<forall>j. item_task j \<noteq> cur \<longrightarrow> container j st' = container j st"
    "\<forall>j. j \<noteq> StateItem cur \<longrightarrow> value_of st' j = value_of st j"
    "n \<noteq> portMAX_DELAY \<longrightarrow> time_left st' cur = Some (unat n)"
    "\<forall>t. t \<noteq> cur \<longrightarrow> time_left st' t = time_left st t"
    using place_on_event_list [OF assms] by blast
  let ?q = "queue_insert (value_of st) (EventItem cur) (Q e)"
  have "j \<noteq> StateItem cur" if "j \<in> set ?q" for j
  proof -
    have "j = EventItem cur \<or> container j st = Some (Event e)"
      using that kernel_waits_container [OF assms(7,4)] by auto
    then show ?thesis using kernel_tasks(2) [OF assms(1), of j "Event e"] by auto
  qed
  then have "map (value_of st') ?q = map (value_of st) ?q" using st'(6) by simp
  then have "sorted (map (value_of st) (Q e)) \<longrightarrow> sorted (map (value_of st') ?q)"
    using queue_insert_sorted [of "value_of st" "Q e" "EventItem cur"] by metis
  moreover have "n = portMAX_DELAY \<longrightarrow> container (StateItem cur) st' = Some Suspended"
    using st'(4) by (simp add: delay_list_def)
  ultimately show ?thesis using st' by (intro exI [of _ st']) simp
qed

theorem vTaskPlaceOnEventList_queues_witness:
  "\<exists>st'. vTaskPlaceOnEventList (Event 7) 20 event_w = Some st' \<and> waits {7} st' ((\<lambda>_. [])(7 := [EventItem 5])) \<and>
     time_left st' 5 = Some 20"
proof -
  have ne: "(5 :: nat) \<noteq> 0" "(7 :: nat) \<in> {7}" "(0 :: u32) < 20" by simp_all
  show ?thesis
    using vTaskPlaceOnEventList_queues [OF event_w(1,2) ne(1,2) event_w(5) ne(3) event_w(6)]
    by (auto simp: portMAX_DELAY_def queue_insert_def)
qed

text \<open>An event wakes the first waiter of its list and only that one: with the scheduler running
  it becomes ready and waits on nothing, with the scheduler suspended it goes to the pending list
  and its state list is left alone.  The result says whether it has a higher priority than the
  running task, and then a yield is pending.  If the waiters carry their priorities as values and
  are in order, no waiter has a higher priority than the one woken.\<close>

lemma xTaskRemoveFromEventList_wakes_first:
  assumes "kernel T E idle st" and "e \<in> E" and "waits E st Q" "Q e = i # is"
  shows "\<exists>t b st'. i = EventItem t \<and> xTaskRemoveFromEventList (Event e) st = Some (b, st') \<and>
    kernel T E idle st' \<and> waits E st' (Q(e := is)) \<and>
    (if uxSchedulerSuspended st = 0
     then container (StateItem t) st' = Some (Ready (uxPriority (tcb st t))) \<and> container (EventItem t) st' = None
     else container (StateItem t) st' = container (StateItem t) st \<and> container (EventItem t) st' = Some PendingReady) \<and>
    (\<forall>u. u \<noteq> t \<longrightarrow> container (StateItem u) st' = container (StateItem u) st \<and>
       container (EventItem u) st' = container (EventItem u) st) \<and>
    (\<exists>cur. pxCurrentTCB st = Some cur \<and> (b \<longleftrightarrow> uxPriority (tcb st t) > uxPriority (tcb st cur))) \<and>
    (b \<longrightarrow> xYieldPending st') \<and>
    (sorted (map (value_of st) (Q e)) \<and> (\<forall>j \<in> set (Q e). value_of st j = configMAX_PRIORITIES - uxPriority (tcb st (item_task j))) \<longrightarrow>
       (\<forall>j \<in> set (Q e). uxPriority (tcb st (item_task j)) \<le> uxPriority (tcb st t)))"
proof -
  obtain t b st' where r: "i = EventItem t" "xTaskRemoveFromEventList (Event e) st = Some (b, st')"
    "kernel T E idle st'" "waits E st' (Q(e := is))" "uxSchedulerSuspended st = 0 \<longrightarrow> wakes {t} st st'"
    "uxSchedulerSuspended st \<noteq> 0 \<longrightarrow> container (EventItem t) st' = Some PendingReady \<and>
       (\<forall>j. j \<noteq> EventItem t \<longrightarrow> container j st' = container j st)"
    "\<exists>cur. pxCurrentTCB st = Some cur \<and> (b \<longleftrightarrow> uxPriority (tcb st t) > uxPriority (tcb st cur))"
    "xYieldPending st' \<longleftrightarrow> b \<or> xYieldPending st"
    using remove_from_event_list [OF assms] by blast
  have "uxPriority (tcb st (item_task j)) \<le> uxPriority (tcb st t)"
    if o: "sorted (map (value_of st) (Q e))" "\<forall>j \<in> set (Q e). value_of st j = configMAX_PRIORITIES - uxPriority (tcb st (item_task j))"
      and j: "j \<in> set (Q e)" for j
  proof -
    have prio: "uxPriority (tcb st (item_task k)) < 7" if "k \<in> set (Q e)" for k
    proof -
      have "container k st = Some (Event e)" using that kernel_waits_container [OF assms(3,2)] by simp
      then have "item_task k \<in> T" by (rule kernel_tasks(1) [OF assms(1)])
      then show ?thesis using kernel_D(1) [OF assms(1)] by (simp add: sched_at_def tasks_at_def)
    qed
    have "value_of st i \<le> value_of st j" using o(1) j assms(4) by auto
    then have le: "7 - uxPriority (tcb st t) \<le> 7 - uxPriority (tcb st (item_task j))"
      using bspec [OF o(2), of i] bspec [OF o(2) j] assms(4) r(1) by (simp add: configMAX_PRIORITIES_def)
    have "uxPriority (tcb st t) \<le> 7" "uxPriority (tcb st (item_task j)) \<le> 7"
      using prio [of i] prio [OF j] assms(4) r(1) by (simp_all add: less_imp_le)
    then show ?thesis using le by (simp add: word_le_nat_alt unat_sub)
  qed
  moreover have "if uxSchedulerSuspended st = 0
     then container (StateItem t) st' = Some (Ready (uxPriority (tcb st t))) \<and> container (EventItem t) st' = None
     else container (StateItem t) st' = container (StateItem t) st \<and> container (EventItem t) st' = Some PendingReady"
    using r(5,6) wakes_D(14,15) [of "{t}" st st' t] by simp
  moreover have "container (StateItem u) st' = container (StateItem u) st \<and>
      container (EventItem u) st' = container (EventItem u) st" if "u \<noteq> t" for u
    using r(5,6) wakes_D(14,15) [of "{t}" st st' u] that by (cases "uxSchedulerSuspended st = 0") simp_all
  ultimately show ?thesis using r(1-4,7,8) by blast
qed

lemma xTaskRemoveFromEventList_wakes_first_witness:
  "\<exists>st b st'. vTaskPlaceOnEventList (Event 7) 20 event_w = Some st \<and>
     xTaskRemoveFromEventList (Event 7) st = Some (b, st') \<and> container (StateItem 5) st' = Some (Ready 5)"
proof -
  have ne: "(5 :: nat) \<noteq> 0" "(7 :: nat) \<in> {7}" "(0 :: u32) < 20" by simp_all
  obtain st where st: "vTaskPlaceOnEventList (Event 7) 20 event_w = Some st" "kernel {0, 3, 5} {7} 0 st"
    "waits {7} st ((\<lambda>_. [])(7 := [EventItem 5]))" "same_ctl event_w st"
    using place_on_event_list [OF event_w(1,2) ne(1,2) event_w(5) ne(3) event_w(6)] by (auto simp: queue_insert_def)
  note f = same_ctl_D [OF st(4)]
  obtain t b st' where r: "EventItem 5 = EventItem t" "xTaskRemoveFromEventList (Event 7) st = Some (b, st')"
    "if uxSchedulerSuspended st = 0
     then container (StateItem t) st' = Some (Ready (uxPriority (tcb st t))) \<and> container (EventItem t) st' = None
     else container (StateItem t) st' = container (StateItem t) st \<and> container (EventItem t) st' = Some PendingReady"
    using xTaskRemoveFromEventList_wakes_first [OF st(2) ne(2) st(3), of "EventItem 5" "[]"] by auto
  then show ?thesis using st(1) f(1,6) event_w(3,7) by auto
qed

end
