(* ===== verification/TasksPrio.thy ===== *)
theory TasksPrio
  imports TasksEvents
begin

text \<open>
  Priority changes: inheritance through a mutex and its end.  A ready task moves to the ready list
  of its new priority, a blocked one keeps its place.
\<close>

subsection \<open>Changing a priority\<close>

lemma sched_set_priority:
  assumes "sched_at T E c d st" and "p < 7" and "\<And>q. container (StateItem t) st \<noteq> Some (Ready q)"
  shows "sched_at T E c d (set_priority t p st)"
proof -
  obtain A where A: "tasks_at T c d st" "lists_ok E st A" using assms(1) by (auto simp: sched_at_def)
  have obs: "value_of (set_priority t p st) = value_of st" "owner_of (set_priority t p st) = owner_of st"
    "container i (set_priority t p st) = container i st" for i
    by (simp_all add: set_priority_def)
  have "lists_ok E (set_priority t p st) A"
    using A(2) unfolding lists_ok_def obs by (simp add: set_priority_def set_tcb_def)
  moreover have "tasks_at T c d (set_priority t p st)"
    using A(1) assms(2,3) unfolding tasks_at_def obs by (auto simp: set_priority_def set_tcb_def)
  ultimately show ?thesis by (auto simp: sched_at_def)
qed

lemma set_priority_fields [simp]:
  "container i (set_priority t p st) = container i st" "value_of (set_priority t p st) = value_of st"
  "owner_of (set_priority t p st) = owner_of st"
  "tcb (set_priority t p st) = (tcb st)(t := (tcb st t)\<lparr>uxPriority := p\<rparr>)"
  "pxCurrentTCB (set_priority t p st) = pxCurrentTCB st" "xTickCount (set_priority t p st) = xTickCount st"
  "pxDelayedTaskList (set_priority t p st) = pxDelayedTaskList st"
  "pxOverflowDelayedTaskList (set_priority t p st) = pxOverflowDelayedTaskList st"
  "uxSchedulerSuspended (set_priority t p st) = uxSchedulerSuspended st"
  "xPendedTicks (set_priority t p st) = xPendedTicks st" "yields (set_priority t p st) = yields st"
  "uxCurrentNumberOfTasks (set_priority t p st) = uxCurrentNumberOfTasks st"
  "xSchedulerRunning (set_priority t p st) = xSchedulerRunning st"
  "xYieldPending (set_priority t p st) = xYieldPending st" "xNumOfOverflows (set_priority t p st) = xNumOfOverflows st"
  by (simp_all add: set_priority_def) (simp_all add: set_tcb_def)

text \<open>Two states that differ in the priority of \<open>t\<close> and, if it is ready, in its list.\<close>

definition reprioritised :: "task \<Rightarrow> u32 \<Rightarrow> ktask \<Rightarrow> ktask \<Rightarrow> bool" where
  "reprioritised t p st st' \<longleftrightarrow>
     tcb st' = (tcb st)(t := (tcb st t)\<lparr>uxPriority := p\<rparr>) \<and>
     (\<forall>j. container j st' = (if j = StateItem t \<and> container j st = Some (Ready (uxPriority (tcb st t)))
        then Some (Ready p) else container j st)) \<and>
     (\<forall>j. j \<noteq> EventItem t \<longrightarrow> value_of st' j = value_of st j) \<and>
     pxCurrentTCB st' = pxCurrentTCB st \<and> xTickCount st' = xTickCount st \<and>
     pxDelayedTaskList st' = pxDelayedTaskList st \<and> pxOverflowDelayedTaskList st' = pxOverflowDelayedTaskList st \<and>
     uxSchedulerSuspended st' = uxSchedulerSuspended st \<and> xPendedTicks st' = xPendedTicks st \<and>
     uxCurrentNumberOfTasks st' = uxCurrentNumberOfTasks st \<and> xSchedulerRunning st' = xSchedulerRunning st \<and>
     xYieldPending st' = xYieldPending st \<and> yields st' = yields st"

lemma reprioritised_D:
  assumes "reprioritised t p st st'"
  shows "tcb st' = (tcb st)(t := (tcb st t)\<lparr>uxPriority := p\<rparr>)"
    "container j st' = (if j = StateItem t \<and> container j st = Some (Ready (uxPriority (tcb st t)))
        then Some (Ready p) else container j st)"
    "pxCurrentTCB st' = pxCurrentTCB st" "xTickCount st' = xTickCount st"
    "pxDelayedTaskList st' = pxDelayedTaskList st" "pxOverflowDelayedTaskList st' = pxOverflowDelayedTaskList st"
    "uxSchedulerSuspended st' = uxSchedulerSuspended st" "xPendedTicks st' = xPendedTicks st"
    "uxCurrentNumberOfTasks st' = uxCurrentNumberOfTasks st"
  using assms by (simp_all add: reprioritised_def)

lemma kernel_reprioritised:
  assumes "kernel T E idle st" and "reprioritised t p st st'" and "sched T E st'"
  shows "kernel T E idle st'"
proof -
  note kd = kernel_D [OF assms(1)] and f = reprioritised_D [OF assms(2)]
  have "container (EventItem u) st' = container (EventItem u) st" for u by (simp add: f(2))
  moreover have "container (StateItem u) st' \<in> {Some DelayedTaskList1, Some DelayedTaskList2, Some Suspended}"
    if "container (EventItem u) st \<noteq> None" for u
    using kd(5) [OF that] by (auto simp: f(2))
  moreover have "container (StateItem u) st' \<noteq> None" if "u \<in> T" for u using kd(4) [OF that] by (auto simp: f(2))
  moreover have "container (StateItem idle) st' = Some (Ready (uxPriority (tcb st' idle)))"
    using kd(3) by (auto simp: f(1,2))
  ultimately show ?thesis using assms(3) kd(2,6,8) unfolding kernel_def f(3,9) by auto
qed

lemma event_item_set:
  assumes "sched_at T E c d st"
  shows "sched_at T E c d (on_lists (listSET_LIST_ITEM_VALUE (EventItem t) v) st)"
proof (rule sched_set_value [OF assms])
  have "\<not> holds_state l" if "container (EventItem t) st = Some l" for l
    using assms tasks_at_D(3) [OF _ that, of T c d] by (auto simp: sched_at_def)
  then show "container (EventItem t) st \<notin> {Some DelayedTaskList1, Some DelayedTaskList2}" by fastforce
qed

lemma set_event_priority_obs:
  "container j (set_event_priority t p st) = container j st"
  "j \<noteq> EventItem t \<Longrightarrow> value_of (set_event_priority t p st) j = value_of st j"
  "same_ctl st (set_event_priority t p st)"
  "sched_at T E c d st \<Longrightarrow> sched_at T E c d (set_event_priority t p st)"
  by (simp_all add: set_event_priority_def set_value_obs(1-3) set_value_same_ctl event_item_set)

text \<open>Taking a task off its ready list, changing its priority and entering it again.\<close>

lemma move_priority:
  assumes s: "sched_at T E c d st" and l: "container (StateItem t) st = Some l" and p: "p < 7"
  shows "\<exists>n st1. list_remove (StateItem t) st = Some (n, st1) \<and> moved (StateItem t) None st st1 \<and>
    (\<forall>v. let st2 = on_lists (listSET_LIST_ITEM_VALUE (EventItem t) v) (set_priority t p st1)
      in sched_at T E c d (prvAddTaskToReadyList t st2) \<and>
         made_ready t st2 (prvAddTaskToReadyList t st2)) \<and>
    sched_at T E c d (prvAddTaskToReadyList t (set_priority t p st1)) \<and>
    made_ready t (set_priority t p st1) (prvAddTaskToReadyList t (set_priority t p st1))"
proof -
  have t: "t \<in> T" using s l tasks_at_D(2) [of T c d st "StateItem t"] by (auto simp: sched_at_def)
  obtain n st1 where st1: "list_remove (StateItem t) st = Some (n, st1)" "sched_at T E c d st1"
    "moved (StateItem t) None st st1"
    using sched_remove [OF s l] by blast
  have none: "container (StateItem t) st1 = None" using moved_fields(15) [OF st1(3)] by simp
  have s2: "sched_at T E c d (set_priority t p st1)" by (rule sched_set_priority [OF st1(2) p]) (simp add: none)
  have n2: "container (StateItem t) (set_priority t p st1) = None" using none by simp
  have "sched_at T E c d (on_lists (listSET_LIST_ITEM_VALUE (EventItem t) v) (set_priority t p st1))" for v
    by (rule event_item_set [OF s2])
  from sched_add_ready [OF this t] sched_add_ready [OF s2 t n2] show ?thesis
    using st1(1,3) none by (simp add: Let_def set_value_obs(1-3))
qed

lemma inherit_eq:
  assumes k: "kernel T E idle st" and cur: "pxCurrentTCB st = Some cur" and h: "h \<in> T"
    and less: "uxPriority (tcb st h) < uxPriority (tcb st cur)"
  shows "\<exists>st'. xTaskPriorityInherit (Some h) st = Some (True, st') \<and> kernel T E idle st' \<and>
    reprioritised h (uxPriority (tcb st cur)) st st'"
proof -
  note kd = kernel_D [OF k]
  let ?p = "uxPriority (tcb st cur)" and ?q = "uxPriority (tcb st h)"
  let ?sch = "sched_at T E (Suc (unat (xTickCount st))) (unat (xTickCount st))"
  have p: "?p < 7" using kd(1,6) cur by (auto simp: sched_at_def tasks_at_def)
  define st1 where "st1 = set_event_priority h ?p st"
  note o1 = set_event_priority_obs [where t = h and p = ?p and st = st, folded st1_def]
  note f1 = same_ctl_D [OF o1(3)]
  have s1: "?sch st1" using o1(4) kd(1) by blast
  have con: "listIS_CONTAINED_WITHIN (Ready ?q) (StateItem h) (ls st1) \<longleftrightarrow> container (StateItem h) st = Some (Ready ?q)"
    using o1(1) [of "StateItem h"] by (simp add: listIS_CONTAINED_WITHIN_def container_def)
  show ?thesis
  proof (cases "container (StateItem h) st = Some (Ready ?q)")
    case True
    have c1: "container (StateItem h) st1 = Some (Ready ?q)" using True o1(1) by simp
    obtain n st2 where st2: "list_remove (StateItem h) st1 = Some (n, st2)" "moved (StateItem h) None st1 st2"
      "?sch (prvAddTaskToReadyList h (set_priority h ?p st2))"
      "made_ready h (set_priority h ?p st2) (prvAddTaskToReadyList h (set_priority h ?p st2))"
      using move_priority [OF s1 c1 p] by blast
    let ?st' = "prvAddTaskToReadyList h (set_priority h ?p st2)"
    note m2 = moved_fields [OF st2(2)] and m3 = made_ready_fields [OF st2(4)]
    have r: "reprioritised h ?p st ?st'"
      using True by (auto simp: reprioritised_def m3 m2 f1 o1)
    have "sched T E ?st'" using st2(3) reprioritised_D(4) [OF r] by simp
    then have "kernel T E idle ?st'" by (rule kernel_reprioritised [OF k r])
    moreover have "xTaskPriorityInherit (Some h) st = Some (True, ?st')"
      using less cur st2(1) True con f1(1) by (simp add: xTaskPriorityInherit_def Let_def st1_def [symmetric])
    ultimately show ?thesis using r by blast
  next
    case False
    let ?st' = "set_priority h ?p st1"
    have nr: "container (StateItem h) st1 \<noteq> Some (Ready q)" for q
      using False kd(1) tasks_at_D(5) [of T "Suc (unat (xTickCount st))" "unat (xTickCount st)" st h q] o1(1)
      by (auto simp: sched_at_def)
    have r: "reprioritised h ?p st ?st'"
      using False by (auto simp: reprioritised_def f1 o1)
    have "?sch ?st'" by (rule sched_set_priority [OF s1 p nr])
    then have "sched T E ?st'" using reprioritised_D(4) [OF r] by simp
    then have "kernel T E idle ?st'" by (rule kernel_reprioritised [OF k r])
    moreover have "xTaskPriorityInherit (Some h) st = Some (True, ?st')"
      using less cur False con f1(1) by (simp add: xTaskPriorityInherit_def Let_def st1_def [symmetric])
    ultimately show ?thesis using r by blast
  qed
qed

lemma kernel_set_tcb:
  assumes "kernel T E idle st" and "uxPriority cb = uxPriority (tcb st t)"
  shows "kernel T E idle (set_tcb t cb st)"
proof -
  have f: "pxCurrentTCB (set_tcb t cb st) = pxCurrentTCB st" "xTickCount (set_tcb t cb st) = xTickCount st"
    "uxCurrentNumberOfTasks (set_tcb t cb st) = uxCurrentNumberOfTasks st"
    "uxPriority (tcb (set_tcb t cb st) u) = uxPriority (tcb st u)" for u
    using assms(2) by (simp_all add: set_tcb_def)
  have "sched T E (set_tcb t cb st)"
    using sched_set_tcb [OF kernel_D(1) [OF assms(1)] assms(2)] by (simp add: f)
  then show ?thesis using assms(1) by (simp add: kernel_def f)
qed

lemma disinherit_last:
  assumes k: "kernel T E idle st" and t: "container (StateItem t) st = Some (Ready (uxPriority (tcb st t)))"
    and last: "uxMutexesHeld (tcb st t) = 1" and ne: "uxPriority (tcb st t) \<noteq> uxBasePriority (tcb st t)"
    and b: "uxBasePriority (tcb st t) < 7"
  shows "\<exists>st'. xTaskPriorityDisinherit (Some t) st = Some (True, st') \<and> kernel T E idle st' \<and>
    reprioritised t (uxBasePriority (tcb st t)) (set_tcb t ((tcb st t)\<lparr>uxMutexesHeld := 0\<rparr>) st) st'"
proof -
  define st0 where "st0 = set_tcb t ((tcb st t)\<lparr>uxMutexesHeld := 0\<rparr>) st"
  have t0: "tcb st0 = (tcb st)(t := (tcb st t)\<lparr>uxMutexesHeld := 0\<rparr>)" "container j st0 = container j st" for j
    by (simp_all add: st0_def) (simp add: set_tcb_def)
  have k0: "kernel T E idle st0" unfolding st0_def by (rule kernel_set_tcb [OF k]) simp
  have c0: "container (StateItem t) st0 = Some (Ready (uxPriority (tcb st0 t)))" using t by (simp add: t0)
  let ?b = "uxBasePriority (tcb st t)"
  obtain n st1 where st1: "list_remove (StateItem t) st0 = Some (n, st1)" "moved (StateItem t) None st0 st1"
    "\<forall>v. let st2 = on_lists (listSET_LIST_ITEM_VALUE (EventItem t) v) (set_priority t ?b st1)
      in sched_at T E (Suc (unat (xTickCount st0))) (unat (xTickCount st0)) (prvAddTaskToReadyList t st2) \<and>
         made_ready t st2 (prvAddTaskToReadyList t st2)"
    using move_priority [OF kernel_D(1) [OF k0] c0 b] by blast
  let ?v = "configMAX_PRIORITIES - ?b"
  define st2 where "st2 = on_lists (listSET_LIST_ITEM_VALUE (EventItem t) ?v) (set_priority t ?b st1)"
  let ?st' = "prvAddTaskToReadyList t st2"
  have mr: "sched_at T E (Suc (unat (xTickCount st0))) (unat (xTickCount st0)) ?st'" "made_ready t st2 ?st'"
    using st1(3) by (simp_all add: Let_def st2_def)
  note m1 = moved_fields [OF st1(2)] and m3 = made_ready_fields [OF mr(2)]
  have sc: "same_ctl (set_priority t ?b st1) st2" unfolding st2_def by (rule set_value_same_ctl)
  note f2 = same_ctl_D [OF sc]
  have o2: "value_of st2 j = value_of st1 j" if "j \<noteq> EventItem t" for j
    using that by (simp add: st2_def set_value_obs(1))
  have c2: "container j st2 = container j st1" for j by (simp add: st2_def set_value_obs(3))
  have r: "reprioritised t ?b st0 ?st'"
    using c0 by (auto simp: reprioritised_def m3 f2 m1 c2 o2)
  have "sched T E ?st'" using mr(1) reprioritised_D(4) [OF r] by simp
  then have "kernel T E idle ?st'" by (rule kernel_reprioritised [OF k0 r])
  moreover have "xTaskPriorityDisinherit (Some t) st = Some (True, ?st')"
    using st1(1) last ne f2(1) m1(1)
    by (simp add: xTaskPriorityDisinherit_def Let_def st0_def [symmetric] t0 st2_def)
  ultimately show ?thesis using r unfolding st0_def by blast
qed


text \<open>Task 3 holds a mutex while task 5 runs.\<close>

definition mutex_w :: ktask where
  "mutex_w = set_tcb 3 \<lparr>uxPriority = 3, uxBasePriority = 3, uxMutexesHeld = 1, uxTCBNumber = 2,
     ulNotifiedValue = 0, ucNotifyState = NOT_WAITING_NOTIFICATION\<rparr> tasks_w"

lemma mutex_w:
  "kernel {0, 3, 5} {} 0 mutex_w" "pxCurrentTCB mutex_w = Some 5" "uxPriority (tcb mutex_w 3) = 3"
  "uxPriority (tcb mutex_w 5) = 5" "container (StateItem 3) mutex_w = Some (Ready 3)"
  "uxBasePriority (tcb mutex_w 3) = 3" "uxMutexesHeld (tcb mutex_w 3) = 1"
proof -
  show "kernel {0, 3, 5} {} 0 mutex_w"
    unfolding mutex_w_def by (rule kernel_set_tcb [OF tasks_w(1)]) (simp add: tasks_w(4))
  show "pxCurrentTCB mutex_w = Some 5" "uxPriority (tcb mutex_w 5) = 5"
    using tasks_w(2,3) by (simp_all add: mutex_w_def set_tcb_def)
  show "container (StateItem 3) mutex_w = Some (Ready 3)" using tasks_w(11) by (simp add: mutex_w_def)
  show "uxPriority (tcb mutex_w 3) = 3" "uxBasePriority (tcb mutex_w 3) = 3" "uxMutexesHeld (tcb mutex_w 3) = 1"
    by (simp_all add: mutex_w_def set_tcb_def)
qed


end
