(* ===== verification/TasksStep.thy ===== *)
theory TasksStep
  imports TasksPrio
begin

text \<open>
  The scheduler as a transition system: every state the kernel operations can reach from the start
  of the scheduler satisfies the invariant, and in every such state the operations return.
\<close>

subsection \<open>Suspending and resuming one task\<close>

lemma suspend_task:
  assumes k: "kernel T E idle st" and t: "t \<in> T" "t \<noteq> idle" and run: "xSchedulerRunning st"
  shows "\<exists>st'. vTaskSuspend (Some t) st = Some st' \<and> kernel T E idle st' \<and>
    container (StateItem t) st' = Some Suspended \<and> container (EventItem t) st' = None \<and>
    (\<forall>j. item_task j \<noteq> t \<longrightarrow> container j st' = container j st) \<and>
    uxSchedulerSuspended st' = uxSchedulerSuspended st \<and> xPendedTicks st' = xPendedTicks st \<and>
    yields st' = (if pxCurrentTCB st = Some t then yields st + 1 else yields st)"
proof -
  note kd = kernel_D [OF k]
  let ?sch = "sched_at T E (Suc (unat (xTickCount st))) (unat (xTickCount st))"
  obtain l where l: "container (StateItem t) st = Some l" using kd(4) [OF t(1)] by blast
  obtain n st1 where st1: "list_remove (StateItem t) st = Some (n, st1)" "?sch st1" "moved (StateItem t) None st st1"
    using sched_remove [OF kd(1) l] by blast
  obtain st2 where st2: "(if container (EventItem t) st1 \<noteq> None
      then map_option snd (list_remove (EventItem t) st1) else Some st1) = Some st2" "?sch st2"
    "moved (EventItem t) None st1 st2"
    using sched_drop_event [OF st1(2)] by blast
  note m1 = moved_fields [OF st1(3)] and m2 = moved_fields [OF st2(3)]
  have none: "container (StateItem t) st2 = None" by (simp add: m1 m2)
  define st3 where "st3 = on_lists (vListInsertEnd Suspended (StateItem t)) st2"
  have st3: "?sch st3" "moved (StateItem t) (Some Suspended) st2 st3"
    unfolding st3_def using sched_insert_end [OF st2(2) none] t(1) by simp_all
  note m3 = moved_fields [OF st3(2)]
  define st4 where "st4 = (if ucNotifyState (tcb st3 t) = WAITING_NOTIFICATION
    then set_tcb t ((tcb st3 t)\<lparr>ucNotifyState := NOT_WAITING_NOTIFICATION\<rparr>) st3 else st3)"
  have s4: "?sch st4" using st3(1) sched_set_tcb [OF st3(1)] by (simp add: st4_def)
  have f4: "container j st4 = container j st3" "pxCurrentTCB st4 = pxCurrentTCB st3" "xTickCount st4 = xTickCount st3"
    "uxSchedulerSuspended st4 = uxSchedulerSuspended st3" "xPendedTicks st4 = xPendedTicks st3"
    "xSchedulerRunning st4 = xSchedulerRunning st3" "uxCurrentNumberOfTasks st4 = uxCurrentNumberOfTasks st3"
    "yields st4 = yields st3" "uxPriority (tcb st4 u) = uxPriority (tcb st3 u)" for j u
    by (simp_all add: st4_def) (simp_all add: set_tcb_def)
  have s5: "?sch (prvResetNextTaskUnblockTime st4)" by (rule sched_reset(1) [OF sched_unblock_0 [OF s4]])
  obtain u where u: "prvResetNextTaskUnblockTime st4 = st4\<lparr>xNextTaskUnblockTime := u\<rparr>"
    using sched_reset(2) [OF sched_unblock_0 [OF s4]] by blast
  let ?st5 = "prvResetNextTaskUnblockTime st4"
  have c: "container j ?st5 = (if j = StateItem t then Some Suspended else if j = EventItem t then None else container j st)" for j
    unfolding u by (simp add: f4 m3 m2 m1)
  have f5: "pxCurrentTCB ?st5 = pxCurrentTCB st" "xTickCount ?st5 = xTickCount st"
    "uxSchedulerSuspended ?st5 = uxSchedulerSuspended st" "xPendedTicks ?st5 = xPendedTicks st"
    "xSchedulerRunning ?st5" "uxCurrentNumberOfTasks ?st5 = uxCurrentNumberOfTasks st"
    "yields ?st5 = yields st" "uxPriority (tcb ?st5 v) = uxPriority (tcb st v)" for v
    using run unfolding u by (simp_all add: f4 m3 m2 m1)
  have "kernel T E idle ?st5" using k t s5 unfolding kernel_def f5 by (simp add: c)
  moreover have "vTaskSuspend (Some t) st = Some (if pxCurrentTCB st = Some t
      then taskYIELD_IF_USING_PREEMPTION ?st5 else ?st5)"
  proof -
    have "vTaskSuspend (Some t) st = (let st3 = on_lists (vListInsertEnd Suspended (StateItem t)) st2;
        st4 = (if ucNotifyState (tcb st3 t) = WAITING_NOTIFICATION
               then set_tcb t ((tcb st3 t)\<lparr>ucNotifyState := NOT_WAITING_NOTIFICATION\<rparr>) st3 else st3);
        st5 = (if xSchedulerRunning st4 then prvResetNextTaskUnblockTime st4 else st4)
      in if Some t = pxCurrentTCB st5 then
           if xSchedulerRunning st5 then Some (taskYIELD_IF_USING_PREEMPTION st5)
           else if listCURRENT_LIST_LENGTH Suspended (ls st5) = uxCurrentNumberOfTasks st5
           then Some (st5\<lparr>pxCurrentTCB := None\<rparr>) else vTaskSwitchContext st5
         else Some st5)"
      using st1(1) st2(1) by (simp only: vTaskSuspend_def prvGetTCBFromHandle_def option.case Option.bind.simps prod.case)
    then show ?thesis using f5(1,5) run
      unfolding Let_def st3_def [symmetric] st4_def [symmetric] by (simp add: f4(6) m3(12) m2(12) m1(12))
  qed
  ultimately show ?thesis
    by (intro exI [of _ "if pxCurrentTCB st = Some t then taskYIELD_IF_USING_PREEMPTION ?st5 else ?st5"])
      (auto simp: c f5 taskYIELD_IF_USING_PREEMPTION_def)
qed

lemma resume_task:
  assumes k: "kernel T E idle st"
  shows "\<exists>st'. vTaskResume t st = Some st' \<and> kernel T E idle st' \<and>
    wakes (if pxCurrentTCB st \<noteq> Some t \<and> prvTaskIsTaskSuspended t st then {t} else {}) st (st'\<lparr>yields := yields st\<rparr>)"
proof (cases "pxCurrentTCB st \<noteq> Some t \<and> prvTaskIsTaskSuspended t st")
  case True
  then have c: "container (StateItem t) st = Some Suspended" "container (EventItem t) st = None"
    by (auto simp: prvTaskIsTaskSuspended_def listIS_CONTAINED_WITHIN_def container_def)
  obtain cur where cur: "pxCurrentTCB st = Some cur" using kernel_D(6) [OF k] by blast
  obtain n st1 where st1: "list_remove (StateItem t) st = Some (n, st1)"
    "sched_at T E (Suc (unat (xTickCount st))) (unat (xTickCount st)) (prvAddTaskToReadyList t st1)"
    "wakes {t} st (prvAddTaskToReadyList t st1)"
    using wake_one [OF kernel_D(1) [OF k] c] by blast
  let ?st2 = "prvAddTaskToReadyList t st1"
  note w = wakes_D [OF st1(3)]
  have "t \<in> T" using kernel_tasks(1) [OF k c(1)] by simp
  then have k2: "kernel T E idle ?st2" using kernel_wakes [OF k st1(3)] st1(2) w(5) by simp
  have y: "wakes {t} st (?st2\<lparr>yields := y\<rparr>\<lparr>yields := yields st\<rparr>)" for y
    using st1(3) by (simp add: wakes_def same_ctl_def)
  have "vTaskResume t st = Some (if uxPriority (tcb st t) \<ge> uxPriority (tcb st cur)
      then taskYIELD_IF_USING_PREEMPTION ?st2 else ?st2)"
    using True st1(1) w(1,2) cur by (simp add: vTaskResume_def Let_def)
  moreover have "wakes {t} st (?st2\<lparr>yields := yields st\<rparr>)" using y [of 0] by simp
  ultimately show ?thesis using True k2 y
    by (intro exI [of _ "if uxPriority (tcb st t) \<ge> uxPriority (tcb st cur) then taskYIELD_IF_USING_PREEMPTION ?st2 else ?st2"])
      (simp add: taskYIELD_IF_USING_PREEMPTION_def)
next
  case False
  have "st\<lparr>yields := yields st\<rparr> = st" by simp
  then show ?thesis using False k by (intro exI [of _ st]) (auto simp: vTaskResume_def)
qed

subsection \<open>The transition system\<close>

text \<open>\<open>kstep idle (T, E, st) (T', E', st')\<close>: an operation of the kernel, with what its callers
  guarantee: the idle task never blocks, a task blocks only while it runs, and \<^verbatim>\<open>xTaskResumeAll\<close>
  closes a \<^verbatim>\<open>vTaskSuspendAll\<close>.\<close>

inductive kstep :: "task \<Rightarrow> task set \<times> nat set \<times> ktask \<Rightarrow> task set \<times> nat set \<times> ktask \<Rightarrow> bool" for idle where
  tick: "xTaskIncrementTick st = Some (sw, st') \<Longrightarrow> kstep idle (T, E, st) (T, E, st')"
| switch: "vTaskSwitchContext st = Some st' \<Longrightarrow> kstep idle (T, E, st) (T, E, st')"
| suspend_all: "uxSchedulerSuspended st + 1 \<noteq> 0 \<Longrightarrow> kstep idle (T, E, st) (T, E, vTaskSuspendAll st)"
| resume_all: "0 < uxSchedulerSuspended st \<Longrightarrow> xTaskResumeAll st = Some (y, st') \<Longrightarrow> kstep idle (T, E, st) (T, E, st')"
| new_event: "e \<notin> E \<Longrightarrow> kstep idle (T, E, st) (T, insert e E, on_lists (vListInitialise (Event e)) st)"
| create: "t \<notin> T \<Longrightarrow> card T + 1 < 2 ^ 31 \<Longrightarrow> uxCurrentNumberOfTasks st + 1 \<noteq> 0 \<Longrightarrow>
    kstep idle (T, E, st) (insert t T, E, snd (xTaskCreate t prio True True st))"
| delay: "pxCurrentTCB st \<noteq> Some idle \<Longrightarrow> uxSchedulerSuspended st = 0 \<Longrightarrow> 0 < n \<Longrightarrow> vTaskDelay n st = Some st' \<Longrightarrow>
    kstep idle (T, E, st) (T, E, st')"
| wait: "pxCurrentTCB st = Some cur \<Longrightarrow> cur \<noteq> idle \<Longrightarrow> e \<in> E \<Longrightarrow> container (EventItem cur) st = None \<Longrightarrow> 0 < n \<Longrightarrow>
    vTaskPlaceOnEventList (Event e) n st = Some st' \<Longrightarrow> kstep idle (T, E, st) (T, E, st')"
| wake: "e \<in> E \<Longrightarrow> \<not> listLIST_IS_EMPTY (Event e) (ls st) \<Longrightarrow> xTaskRemoveFromEventList (Event e) st = Some (b, st') \<Longrightarrow>
    kstep idle (T, E, st) (T, E, st')"
| suspend: "t \<in> T \<Longrightarrow> t \<noteq> idle \<Longrightarrow> xSchedulerRunning st \<Longrightarrow> vTaskSuspend (Some t) st = Some st' \<Longrightarrow>
    kstep idle (T, E, st) (T, E, st')"
| resume: "vTaskResume t st = Some st' \<Longrightarrow> kstep idle (T, E, st) (T, E, st')"

inductive kernel_reach :: "task \<Rightarrow> task set \<times> nat set \<times> ktask \<Rightarrow> bool" for idle where
  boot: "vTaskStartScheduler idle True True (\<lambda>s. (True, s)) ktask_zero = (True, st) \<Longrightarrow>
    kernel_reach idle ({idle}, {}, st)"
| step: "kernel_reach idle s \<Longrightarrow> kstep idle s s' \<Longrightarrow> kernel_reach idle s'"

definition kernel_ok :: "task \<Rightarrow> task set \<times> nat set \<times> ktask \<Rightarrow> bool" where
  "kernel_ok idle = (\<lambda>(T, E, st). kernel T E idle st \<and> settled st)"

lemma settled_same:
  assumes "settled st" and "uxSchedulerSuspended st' = uxSchedulerSuspended st" and "xPendedTicks st' = xPendedTicks st"
    and "\<And>t. container (EventItem t) st' = Some PendingReady \<Longrightarrow> container (EventItem t) st = Some PendingReady"
  shows "settled st'"
  using assms by (auto simp: settled_def pending_def)

lemma boot_ok:
  assumes "vTaskStartScheduler idle True True (\<lambda>s. (True, s)) ktask_zero = (True, st)"
  shows "kernel_ok idle ({idle}, {}, st)" "xSchedulerRunning st" "pxCurrentTCB st = Some idle"
proof -
  note f = kernel_first [where t = idle and prio = 0]
  let ?s = "snd (xTaskCreate idle 0 True True ktask_zero)"
  have st: "st = ?s\<lparr>xNextTaskUnblockTime := portMAX_DELAY, xSchedulerRunning := True, xTickCount := 0\<rparr>"
    using assms by (auto simp: vTaskStartScheduler_def xTaskCreate_def Let_def)
  have nd: "container (StateItem t) ?s \<notin> {Some DelayedTaskList1, Some DelayedTaskList2}" for t
  proof
    assume c: "container (StateItem t) ?s \<in> {Some DelayedTaskList1, Some DelayedTaskList2}"
    then obtain l where l: "container (StateItem t) ?s = Some l" by auto
    then have "t = idle" using kernel_tasks(1) [OF f(1) l] by simp
    then show False using c kernel_D(3) [OF f(1)] by simp
  qed
  have dl: "pxDelayedTaskList ?s = DelayedTaskList1 \<and> pxOverflowDelayedTaskList ?s = DelayedTaskList2 \<or>
      pxDelayedTaskList ?s = DelayedTaskList2 \<and> pxOverflowDelayedTaskList ?s = DelayedTaskList1"
    using kernel_D(1) [OF f(1)] tasks_at_D(7) unfolding sched_at_def by blast
  have obs: "container i st = container i ?s" "value_of st = value_of ?s" "owner_of st = owner_of ?s" for i
    by (simp_all add: st)
  have "sched {idle} {} st"
    using kernel_D(1) [OF f(1)] nd dl unfolding sched_at_def tasks_at_def lists_ok_def obs
    by (auto simp: st)
  then have "kernel {idle} {} idle st"
    using f(1) unfolding kernel_def obs by (simp add: st)
  moreover have "settled st" by (simp add: settled_def pending_def obs f(9)) (simp add: st f)
  ultimately show "kernel_ok idle ({idle}, {}, st)" by (simp add: kernel_ok_def)
  show "xSchedulerRunning st" "pxCurrentTCB st = Some idle" using f(2) by (simp_all add: st)
qed

text \<open>Each operation in a state that satisfies the invariant: it returns and keeps it.\<close>

lemma tick_ok:
  assumes "kernel T E idle st" and "settled st"
  shows "\<exists>sw st'. xTaskIncrementTick st = Some (sw, st') \<and> kernel T E idle st' \<and> settled st'"
proof (cases "uxSchedulerSuspended st = 0")
  case True
  note kd = kernel_D [OF assms(1)]
  obtain cur where cur: "pxCurrentTCB st = Some cur" "cur \<in> T" using kd(6) by blast
  obtain sw st' where st': "xTaskIncrementTick st = Some (sw, st')" "after_ticks T E 1 st st'" "xPendedTicks st' = xPendedTicks st"
    using after_tick [OF kd(1) cur True] by blast
  have "settled st'"
    by (rule settled_same [OF assms(2)]) (use st'(2,3) in \<open>auto simp: after_ticks_def split: if_splits\<close>)
  then show ?thesis using st'(1) kernel_after_ticks [OF assms(1) st'(2)] by blast
next
  case False
  then show ?thesis using assms by (auto simp: xTaskIncrementTick_def settled_def)
qed

lemma switch_ok:
  assumes k: "kernel T E idle st" and s: "settled st"
  shows "\<exists>st'. vTaskSwitchContext st = Some st' \<and> kernel T E idle st' \<and> settled st'"
proof (cases "uxSchedulerSuspended st = 0")
  case True
  note kd = kernel_D [OF k]
  obtain cur st' where st': "vTaskSwitchContext st = Some st'" "pxCurrentTCB st' = Some cur"
    "container (StateItem cur) st = Some (Ready (uxPriority (tcb st cur)))" "sched T E st'" "same_but_current st st'"
    using switch_context [OF kd(1,3) True] by blast
  note f = same_but_current_fields [OF st'(5)]
  have "cur \<in> T" using kernel_tasks(1) [OF k st'(3)] by simp
  then have "kernel T E idle st'" using k st'(2,4) unfolding kernel_def f by auto
  moreover have "settled st'" by (rule settled_same [OF s]) (simp_all add: f)
  ultimately show ?thesis using st'(1) by blast
next
  case False
  then show ?thesis using assms by (simp add: vTaskSwitchContext_def settled_def)
qed

lemma resume_all_ok:
  assumes k: "kernel T E idle st" and s: "settled st" and susp: "0 < uxSchedulerSuspended st"
  shows "\<exists>y st'. xTaskResumeAll st = Some (y, st') \<and> kernel T E idle st' \<and> settled st'"
proof (cases "uxSchedulerSuspended st = 1")
  case True
  obtain y st1 st' where r: "xTaskResumeAll st = Some (y, st')" "kernel T E idle st'"
    "wakes (pending st) (st\<lparr>uxSchedulerSuspended := 0\<rparr>) st1"
    "after_ticks T E (unat (xPendedTicks st)) st1 (st'\<lparr>yields := yields st\<rparr>)" "xPendedTicks st' = 0"
    using TasksRun.resume_all [OF k True] by blast
  have "container (EventItem t) st1 \<noteq> Some PendingReady" for t
    by (simp add: wakes_D(15) [OF r(3)] pending_def)
  then have "pending st' = {}" using r(4) by (auto simp: after_ticks_def pending_def split: if_splits)
  then show ?thesis using r(1,2,5) by (auto simp: settled_def)
next
  case False
  then have "uxSchedulerSuspended st - 1 \<noteq> 0" by simp
  then show ?thesis using k by (auto simp: xTaskResumeAll_def Let_def settled_def)
qed

lemma wake_ok:
  assumes k: "kernel T E idle st" and s: "settled st" and e: "e \<in> E" "\<not> listLIST_IS_EMPTY (Event e) (ls st)"
  shows "\<exists>b st'. xTaskRemoveFromEventList (Event e) st = Some (b, st') \<and> kernel T E idle st' \<and> settled st'"
proof -
  note kd = kernel_D [OF k]
  have l: "Event e \<in> kernel_lists E" using e(1) by (simp add: kernel_lists_def)
  obtain Q where Q: "waits E st Q" using sched_waits [OF kd(1)] by blast
  have "Q e \<noteq> []"
    using list_empty [OF kd(1) l] e(2) kernel_waits_container [OF Q e(1)] by auto
  then obtain i js where q: "Q e = i # js" by (cases "Q e") auto
  obtain t b st' where r: "xTaskRemoveFromEventList (Event e) st = Some (b, st')" "kernel T E idle st'"
    "uxSchedulerSuspended st = 0 \<longrightarrow> wakes {t} st st'"
    "same_ctl (st\<lparr>xYieldPending := True\<rparr>) (st'\<lparr>xYieldPending := True\<rparr>)"
    using remove_from_event_list [OF k e(1) Q q] by blast
  have f: "uxSchedulerSuspended st' = uxSchedulerSuspended st" "xPendedTicks st' = xPendedTicks st"
    using r(4) by (simp_all add: same_ctl_def)
  have "settled st'"
  proof (cases "uxSchedulerSuspended st = 0")
    case True
    then show ?thesis using settled_same [OF s f] wakes_D(15) r(3) by (metis option.distinct(1))
  next
    case False
    then show ?thesis using f by (simp add: settled_def)
  qed
  then show ?thesis using r by blast
qed

lemma delay_ok:
  assumes "kernel T E idle st" and "settled st" and "pxCurrentTCB st \<noteq> Some idle" and "uxSchedulerSuspended st = 0" and "0 < n"
  shows "\<exists>st'. vTaskDelay n st = Some st' \<and> kernel T E idle st' \<and> settled st'"
proof -
  obtain cur where "pxCurrentTCB st = Some cur" using kernel_D(6) [OF assms(1)] by blast
  then show ?thesis using vTaskDelay_eq [OF assms(1) _ _ assms(4,2,5), of cur] assms(3) by blast
qed

lemma wait_ok:
  assumes "kernel T E idle st" and "settled st" and "pxCurrentTCB st = Some cur" "cur \<noteq> idle" and "e \<in> E"
    and "container (EventItem cur) st = None" and "0 < n"
  shows "\<exists>st'. vTaskPlaceOnEventList (Event e) n st = Some st' \<and> kernel T E idle st' \<and> settled st'"
proof -
  obtain Q where Q: "waits E st Q" using sched_waits [OF kernel_D(1) [OF assms(1)]] by blast
  obtain st' where r: "vTaskPlaceOnEventList (Event e) n st = Some st'" "kernel T E idle st'" "same_ctl st st'"
    "container (EventItem cur) st' = Some (Event e)" "\<forall>j. item_task j \<noteq> cur \<longrightarrow> container j st' = container j st"
    using place_on_event_list [OF assms(1,3-7) Q] by blast
  note f = same_ctl_D [OF r(3)]
  have "settled st'"
    by (rule settled_same [OF assms(2) f(6,7)]) (metis r(4,5) item_task.simps(2) klid.distinct(35) option.inject)
  then show ?thesis using r(1,2) by blast
qed

lemma suspend_ok:
  assumes "kernel T E idle st" and "settled st" and "t \<in> T" "t \<noteq> idle" and "xSchedulerRunning st"
  shows "\<exists>st'. vTaskSuspend (Some t) st = Some st' \<and> kernel T E idle st' \<and> settled st'"
proof -
  obtain st' where r: "vTaskSuspend (Some t) st = Some st'" "kernel T E idle st'" "container (EventItem t) st' = None"
    "\<forall>j. item_task j \<noteq> t \<longrightarrow> container j st' = container j st"
    "uxSchedulerSuspended st' = uxSchedulerSuspended st" "xPendedTicks st' = xPendedTicks st"
    using suspend_task [OF assms(1,3-5)] by blast
  have "settled st'"
    by (rule settled_same [OF assms(2) r(5,6)]) (metis r(3,4) item_task.simps(2) option.distinct(1))
  then show ?thesis using r(1,2) by blast
qed

lemma resume_ok:
  assumes "kernel T E idle st" and "settled st"
  shows "\<exists>st'. vTaskResume t st = Some st' \<and> kernel T E idle st' \<and> settled st'"
proof -
  obtain W st' where r: "vTaskResume t st = Some st'" "kernel T E idle st'" "wakes W st (st'\<lparr>yields := yields st\<rparr>)"
    using resume_task [OF assms(1)] by blast
  have "settled (st'\<lparr>yields := yields st\<rparr>)"
    by (rule settled_same [OF assms(2)]) (use wakes_D [OF r(3)] in \<open>simp_all split: if_splits\<close>)
  then show ?thesis using r(1,2) by (auto simp: settled_def pending_def)
qed

lemma kstep_ok:
  assumes "kstep idle s s'" and "kernel_ok idle s"
  shows "kernel_ok idle s'"
  using assms
proof (induction rule: kstep.induct)
  case (tick st sw st' T E)
  then show ?case using tick_ok [of T E idle st] by (auto simp: kernel_ok_def)
next
  case (switch st st' T E)
  then show ?case using switch_ok [of T E idle st] by (auto simp: kernel_ok_def)
next
  case (suspend_all st T E)
  then show ?case by (simp add: kernel_ok_def settled_def) (simp add: vTaskSuspendAll_def)
next
  case (resume_all st y st' T E)
  then show ?case using resume_all_ok [of T E idle st] by (auto simp: kernel_ok_def)
next
  case (new_event e E T st)
  then have k: "kernel T E idle st" "settled st" by (simp_all add: kernel_ok_def)
  note s = sched_new_event_list [OF kernel_D(1) [OF k(1)] new_event(1)]
  have "kernel T (insert e E) idle (on_lists (vListInitialise (Event e)) st)"
    using k(1) s(1) unfolding kernel_def s(2) by (simp add: on_lists_def)
  moreover have "settled (on_lists (vListInitialise (Event e)) st)"
    by (rule settled_same [OF k(2)]) (simp_all only: s(2), simp_all add: on_lists_def)
  ultimately show ?case by (simp add: kernel_ok_def)
next
  case (create t T st E prio)
  then have k: "kernel T E idle st" "settled st" by (simp_all add: kernel_ok_def)
  note c = created [OF k(1) create(1-3), where prio = prio]
  have "settled (snd (xTaskCreate t prio True True st))"
    by (rule settled_same [OF k(2)]) (simp_all add: c split: if_splits)
  then show ?case using c(1) by (simp add: kernel_ok_def)
next
  case (delay st n st' T E)
  then show ?case using delay_ok [of T E idle st n] by (auto simp: kernel_ok_def)
next
  case (wait st cur e E n st' T)
  then show ?case using wait_ok [of T E idle st cur e n] by (auto simp: kernel_ok_def)
next
  case (wake e E st b st' T)
  then show ?case using wake_ok [of T E idle st e] by (auto simp: kernel_ok_def)
next
  case (suspend t T st st' E)
  then show ?case using suspend_ok [of T E idle st t] by (auto simp: kernel_ok_def)
next
  case (resume t st st' T E)
  then show ?case using resume_ok [of T E idle st t] by (auto simp: kernel_ok_def)
qed

lemma kernel_reach_ok: "kernel_reach idle s \<Longrightarrow> kernel_ok idle s"
  by (induction rule: kernel_reach.induct) (rule boot_ok(1), assumption, rule kstep_ok)

subsection \<open>The properties\<close>


lemma kernel_reach_w:
  "\<exists>st. kernel_reach 0 ({4, 0}, {}, st) \<and> xSchedulerRunning st \<and> uxSchedulerSuspended st = 0 \<and> pxCurrentTCB st = Some 0"
proof -
  let ?b = "snd (vTaskStartScheduler 0 True True (\<lambda>s. (True, s)) ktask_zero)"
  let ?s = "snd (xTaskCreate 0 0 True True ktask_zero)"
  have b: "vTaskStartScheduler 0 True True (\<lambda>s. (True, s)) ktask_zero = (True, ?b)"
    by (simp add: vTaskStartScheduler_def xTaskCreate_def Let_def)
  have r0: "kernel_reach 0 ({0}, {}, ?b)" by (rule kernel_reach.boot [OF b])
  note bo = boot_ok [OF b]
  have k: "kernel {0} {} 0 ?b" using bo(1) by (simp add: kernel_ok_def)
  have f: "uxSchedulerSuspended ?b = 0" "uxCurrentNumberOfTasks ?b = 1"
    using kernel_first(5,7) [where t = 0 and prio = 0]
    by (simp_all add: vTaskStartScheduler_def xTaskCreate_def Let_def)
  have g: "(4 :: nat) \<notin> {0}" "card {0 :: nat} + 1 < 2 ^ 31" "uxCurrentNumberOfTasks ?b + 1 \<noteq> 0" by (simp_all add: f)
  have "kernel_reach 0 (insert 4 {0}, {}, snd (xTaskCreate 4 2 True True ?b))"
    by (rule kernel_reach.step [OF r0 kstep.create [OF g]])
  then show ?thesis using created [OF k g, where prio = 2] bo(2,3) f(1) by auto
qed




text \<open>C40: \<open>vTaskResume\<close> wakes a task that is blocked waiting for a notification without limit, although
  \<open>eTaskGetState\<close> reports that task as blocked and not as suspended.\<close>

theorem vTaskResume_wakes_notification_waiter:
  assumes "kernel T E idle st" and "pxCurrentTCB st = Some cur" and "t \<noteq> cur"
    and "container (StateItem t) st = Some Suspended" and "container (EventItem t) st = None"
    and "ucNotifyState (tcb st t) = WAITING_NOTIFICATION"
  shows "eTaskGetState t st = eBlocked \<and> (\<exists>st'. vTaskResume t st = Some st' \<and>
    container (StateItem t) st' = Some (Ready (uxPriority (tcb st t))) \<and>
    ucNotifyState (tcb st' t) = WAITING_NOTIFICATION)"
proof -
  have s: "prvTaskIsTaskSuspended t st"
    using assms(4,5) by (simp add: prvTaskIsTaskSuspended_def listIS_CONTAINED_WITHIN_def container_def)
  obtain st' where st': "vTaskResume t st = Some st'" "wakes {t} st (st'\<lparr>yields := yields st\<rparr>)"
    using resume_task [OF assms(1), of t] s assms(2,3) by auto
  note w = wakes_D [OF st'(2)]
  have "container (StateItem t) st' = Some (Ready (uxPriority (tcb st t)))" "tcb st' = tcb st"
    using w(1) w(14) [of t] by simp_all
  moreover have "pxDelayedTaskList st \<noteq> Suspended" "pxOverflowDelayedTaskList st \<noteq> Suspended"
    using kernel_D(1) [OF assms(1)] tasks_at_D(7) [of T "Suc (unat (xTickCount st))" "unat (xTickCount st)" st]
    by (auto simp: sched_at_def)
  then have "eTaskGetState t st = eBlocked" using assms(2-6) by (auto simp: eTaskGetState_def)
  ultimately show ?thesis using st'(1) assms(6) by auto
qed

text \<open>Task 5 waits for a notification without limit, then task 3 runs.\<close>

definition waiter_w :: ktask where
  "waiter_w = set_tcb 5 \<lparr>uxPriority = 5, uxBasePriority = 5, uxMutexesHeld = 0, uxTCBNumber = 3,
     ulNotifiedValue = 0, ucNotifyState = NOT_WAITING_NOTIFICATION\<rparr> tasks_w"

lemma waiter_w:
  "\<exists>st1 st2. ulTaskGenericNotifyTake_enter portMAX_DELAY waiter_w = Some st1 \<and> vTaskSwitchContext st1 = Some st2 \<and>
     kernel {0, 3, 5} {} 0 st2 \<and> container (StateItem 5) st2 = Some Suspended \<and>
     container (EventItem 5) st2 = None \<and> ucNotifyState (tcb st2 5) = WAITING_NOTIFICATION \<and>
     (\<exists>cur. pxCurrentTCB st2 = Some cur \<and> cur \<noteq> 5)"
proof -
  let ?cb = "\<lparr>uxPriority = 5, uxBasePriority = 5, uxMutexesHeld = 0, uxTCBNumber = 3,
     ulNotifiedValue = 0, ucNotifyState = WAITING_NOTIFICATION\<rparr>"
  define st0 where "st0 = set_tcb 5 ?cb waiter_w"
  have kw: "kernel {0, 3, 5} {} 0 waiter_w"
    unfolding waiter_w_def by (rule kernel_set_tcb [OF tasks_w(1)]) (simp add: tasks_w(3))
  have k0: "kernel {0, 3, 5} {} 0 st0"
    unfolding st0_def by (rule kernel_set_tcb [OF kw]) (simp add: waiter_w_def set_tcb_def)
  have f0: "pxCurrentTCB st0 = Some 5" "uxSchedulerSuspended st0 = 0" "tcb st0 5 = ?cb" "container i st0 = container i tasks_w" for i
    using tasks_w(2,7) by (simp_all add: st0_def waiter_w_def) (simp_all add: set_tcb_def)
  have n: "(0 :: u32) < portMAX_DELAY" "(5 :: nat) \<noteq> 0" by (simp_all add: portMAX_DELAY_def)
  obtain st1 where st1: "prvAddCurrentTaskToDelayedList portMAX_DELAY True st0 = Some st1" "kernel {0, 3, 5} {} 0 st1"
    "blocks 5 (delay_list portMAX_DELAY True st0) st0 st1"
    using block_current [OF k0 f0(1) n] by blast
  note b = blocks_D [OF st1(3)] and f1 = same_ctl_D [OF blocks_D(1) [OF st1(3)]]
  let ?st1 = "taskYIELD_IF_USING_PREEMPTION st1"
  have k1: "kernel {0, 3, 5} {} 0 ?st1" using st1(2) by (simp add: taskYIELD_IF_USING_PREEMPTION_def)
  have g1: "uxSchedulerSuspended ?st1 = 0" "container i ?st1 = container i st1" "tcb ?st1 = tcb st0" for i
    using f0(2) f1 by (simp_all add: taskYIELD_IF_USING_PREEMPTION_def)
  have enter: "ulTaskGenericNotifyTake_enter portMAX_DELAY waiter_w = Some ?st1"
  proof -
    have w: "pxCurrentTCB waiter_w = Some 5" "tcb waiter_w 5 = ?cb\<lparr>ucNotifyState := NOT_WAITING_NOTIFICATION\<rparr>"
      using tasks_w(2) by (simp_all add: waiter_w_def set_tcb_def)
    then have "set_notify 5 0 WAITING_NOTIFICATION waiter_w = st0" by (simp add: set_notify_def st0_def)
    then show ?thesis using w n(1) st1(1) by (simp add: ulTaskGenericNotifyTake_enter_def notify_block_def)
  qed
  obtain cur st2 where st2: "vTaskSwitchContext ?st1 = Some st2" "pxCurrentTCB st2 = Some cur"
    "container (StateItem cur) ?st1 = Some (Ready (uxPriority (tcb ?st1 cur)))" "sched {0, 3, 5} {} st2"
    "same_but_current ?st1 st2"
    using switch_context [OF kernel_D(1,3) [OF k1] g1(1)] by blast
  have c5: "container (StateItem 5) ?st1 = Some Suspended" using b(2) by (simp add: g1(2) delay_list_def)
  note f2 = same_but_current_fields [OF st2(5)]
  have "cur \<in> {0, 3, 5}" using kernel_tasks(1) [OF k1 st2(3)] by simp
  then have "kernel {0, 3, 5} {} 0 st2" using k1 st2(2,4) unfolding kernel_def f2 by auto
  moreover have "cur \<noteq> 5" using st2(3) c5 by auto
  moreover have "container (EventItem 5) st2 = None" using b(2) f0(4) tasks_w(13) by (simp add: f2(12) g1(2))
  moreover have "ucNotifyState (tcb st2 5) = WAITING_NOTIFICATION" by (simp add: f2(1) g1(3) f0(3))
  moreover have "container (StateItem 5) st2 = Some Suspended" using c5 f2(12) by simp
  ultimately show ?thesis using enter st2(1,2) by blast
qed

theorem vTaskResume_wakes_notification_waiter_witness:
  "\<exists>st1 st2 st3. ulTaskGenericNotifyTake_enter portMAX_DELAY waiter_w = Some st1 \<and> vTaskSwitchContext st1 = Some st2 \<and>
     eTaskGetState 5 st2 = eBlocked \<and> vTaskResume 5 st2 = Some st3 \<and> (\<exists>p. container (StateItem 5) st3 = Some (Ready p))"
proof -
  obtain st1 st2 cur where w: "ulTaskGenericNotifyTake_enter portMAX_DELAY waiter_w = Some st1" "vTaskSwitchContext st1 = Some st2"
     "kernel {0, 3, 5} {} 0 st2" "container (StateItem 5) st2 = Some Suspended"
     "container (EventItem 5) st2 = None" "ucNotifyState (tcb st2 5) = WAITING_NOTIFICATION"
     "pxCurrentTCB st2 = Some cur" "5 \<noteq> cur"
    using waiter_w by metis
  show ?thesis using vTaskResume_wakes_notification_waiter [OF w(3,7,8,4,5,6)] w(1,2) by blast
qed

end
