(* ===== verification/Queue.thy ===== *)
theory Queue
  imports TasksStep
begin

text \<open>
  Queues, semaphores and mutexes, \<^verbatim>\<open>FreeRTOS-Kernel/queue.c\<close>, first part: the queue structure,
  the ring buffer behind it and the copies in and out of it.  Positions are byte offsets from
  \<^verbatim>\<open>pcHead\<close>; a copy that leaves the storage area or the caller's buffer is \<open>None\<close>.  The
  configuration has no static allocation, no queue sets and no co-routines.
\<close>

subsection \<open>The structure\<close>

abbreviation (input) pdPASS :: bool where "pdPASS \<equiv> True"
abbreviation (input) pdFAIL :: bool where "pdFAIL \<equiv> False"
abbreviation (input) errQUEUE_FULL :: bool where "errQUEUE_FULL \<equiv> False"

type_synonym int8 = "8 word"

definition queueUNLOCKED :: int8 where "queueUNLOCKED = - 1"
definition queueLOCKED_UNMODIFIED :: int8 where "queueLOCKED_UNMODIFIED = 0"

datatype queue_position = queueSEND_TO_BACK | queueSEND_TO_FRONT | queueOVERWRITE

text \<open>The union \<^verbatim>\<open>u\<close>: \<^verbatim>\<open>QueuePointers_t\<close> (\<^verbatim>\<open>pcTail\<close>, \<^verbatim>\<open>pcReadFrom\<close>) or \<^verbatim>\<open>SemaphoreData_t\<close>
  (\<^verbatim>\<open>xMutexHolder\<close>, \<^verbatim>\<open>uxRecursiveCallCount\<close>).  Reading the part that was not written last is
  \<open>None\<close>.\<close>

datatype queue_union = QueuePointers int int | SemaphoreData "task option" u32

text \<open>\<open>storage\<close> is the memory behind the structure, \<open>is_mutex\<close> says that \<^verbatim>\<open>pcHead\<close> (alias
  \<^verbatim>\<open>uxQueueType\<close>) is \<^verbatim>\<open>NULL\<close>.\<close>

record xQUEUE =
  storage :: "u8 list"
  is_mutex :: bool
  pcWriteTo :: int
  q_union :: queue_union
  uxMessagesWaiting :: u32
  uxLength :: u32
  uxItemSize :: u32
  cRxLock :: int8
  cTxLock :: int8
  uxQueueNumber :: u32
  ucQueueType :: u8

text \<open>The two event lists of queue \<open>q\<close>, among the event lists of the scheduler.\<close>

definition xTasksWaitingToSend :: "nat \<Rightarrow> klid" where "xTasksWaitingToSend q = Event (3 * q)"
definition xTasksWaitingToReceive :: "nat \<Rightarrow> klid" where "xTasksWaitingToReceive q = Event (3 * q + 1)"

subsection \<open>Copying items\<close>

definition memcpy_to :: "int \<Rightarrow> u8 list \<Rightarrow> nat \<Rightarrow> u8 list \<Rightarrow> u8 list option" where
  "memcpy_to d src n s =
     (if n \<le> length src \<and> 0 \<le> d \<and> nat d + n \<le> length s
      then Some (take (nat d) s @ take n src @ drop (nat d + n) s) else None)"

definition memcpy_from :: "int \<Rightarrow> nat \<Rightarrow> u8 list \<Rightarrow> u8 list option" where
  "memcpy_from d n s = (if 0 \<le> d \<and> nat d + n \<le> length s then Some (take n (drop (nat d) s)) else None)"

text \<open>The three branches of \<^verbatim>\<open>prvCopyDataToQueue\<close> for items of non-zero size.\<close>

definition copy_to_back :: "u8 list \<Rightarrow> xQUEUE \<Rightarrow> xQUEUE option" where
  "copy_to_back item Q =
     (case q_union Q of
        QueuePointers pcTail pcReadFrom \<Rightarrow>
          do {
            s \<leftarrow> memcpy_to (pcWriteTo Q) item (unat (uxItemSize Q)) (storage Q);
            let w = pcWriteTo Q + int (unat (uxItemSize Q));
            Some (Q\<lparr>storage := s, pcWriteTo := if w \<ge> pcTail then 0 else w,
                    uxMessagesWaiting := uxMessagesWaiting Q + 1\<rparr>)
          }
      | SemaphoreData _ _ \<Rightarrow> None)"

definition copy_to_front :: "bool \<Rightarrow> u8 list \<Rightarrow> xQUEUE \<Rightarrow> xQUEUE option" where
  "copy_to_front overwrite item Q =
     (case q_union Q of
        QueuePointers pcTail pcReadFrom \<Rightarrow>
          do {
            s \<leftarrow> memcpy_to pcReadFrom item (unat (uxItemSize Q)) (storage Q);
            let r = pcReadFrom - int (unat (uxItemSize Q));
            let r' = (if r < 0 then pcTail - int (unat (uxItemSize Q)) else r);
            let n = (if overwrite \<and> uxMessagesWaiting Q > 0 then uxMessagesWaiting Q - 1
                     else uxMessagesWaiting Q);
            Some (Q\<lparr>storage := s, q_union := QueuePointers pcTail r', uxMessagesWaiting := n + 1\<rparr>)
          }
      | SemaphoreData _ _ \<Rightarrow> None)"

definition prvCopyDataToQueue ::
  "u8 list \<Rightarrow> queue_position \<Rightarrow> xQUEUE \<Rightarrow> ktask \<Rightarrow> (bool \<times> xQUEUE \<times> ktask) option" where
  "prvCopyDataToQueue item xPosition Q k =
     (if uxItemSize Q = 0 then
        if is_mutex Q then
          (case q_union Q of
             SemaphoreData h n \<Rightarrow>
               do {
                 (xReturn, k1) \<leftarrow> xTaskPriorityDisinherit h k;
                 Some (xReturn, Q\<lparr>q_union := SemaphoreData None n,
                                  uxMessagesWaiting := uxMessagesWaiting Q + 1\<rparr>, k1)
               }
           | QueuePointers _ _ \<Rightarrow> None)
        else Some (False, Q\<lparr>uxMessagesWaiting := uxMessagesWaiting Q + 1\<rparr>, k)
      else
        do {
          Q1 \<leftarrow> (if xPosition = queueSEND_TO_BACK then copy_to_back item Q
                 else copy_to_front (xPosition = queueOVERWRITE) item Q);
          Some (False, Q1, k)
        })"

text \<open>The buffer that is returned is empty when items have no size.\<close>

definition prvCopyDataFromQueue :: "xQUEUE \<Rightarrow> (u8 list \<times> xQUEUE) option" where
  "prvCopyDataFromQueue Q =
     (if uxItemSize Q \<noteq> 0 then
        (case q_union Q of
           QueuePointers pcTail pcReadFrom \<Rightarrow>
             do {
               let r = pcReadFrom + int (unat (uxItemSize Q));
               let r' = (if r \<ge> pcTail then 0 else r);
               item \<leftarrow> memcpy_from r' (unat (uxItemSize Q)) (storage Q);
               Some (item, Q\<lparr>q_union := QueuePointers pcTail r'\<rparr>)
             }
         | SemaphoreData _ _ \<Rightarrow> None)
      else Some ([], Q))"

definition prvIsQueueEmpty :: "xQUEUE \<Rightarrow> bool" where
  "prvIsQueueEmpty Q \<longleftrightarrow> uxMessagesWaiting Q = 0"

definition prvIsQueueFull :: "xQUEUE \<Rightarrow> bool" where
  "prvIsQueueFull Q \<longleftrightarrow> uxMessagesWaiting Q = uxLength Q"

definition xQueueIsQueueEmptyFromISR :: "xQUEUE \<Rightarrow> bool" where
  "xQueueIsQueueEmptyFromISR Q \<longleftrightarrow> uxMessagesWaiting Q = 0"

definition xQueueIsQueueFullFromISR :: "xQUEUE \<Rightarrow> bool" where
  "xQueueIsQueueFullFromISR Q \<longleftrightarrow> uxMessagesWaiting Q = uxLength Q"

definition uxQueueMessagesWaiting :: "xQUEUE \<Rightarrow> u32" where
  "uxQueueMessagesWaiting Q = uxMessagesWaiting Q"

definition uxQueueMessagesWaitingFromISR :: "xQUEUE \<Rightarrow> u32" where
  "uxQueueMessagesWaitingFromISR Q = uxMessagesWaiting Q"

definition uxQueueSpacesAvailable :: "xQUEUE \<Rightarrow> u32" where
  "uxQueueSpacesAvailable Q = uxLength Q - uxMessagesWaiting Q"

definition uxQueueGetQueueNumber :: "xQUEUE \<Rightarrow> u32" where
  "uxQueueGetQueueNumber Q = uxQueueNumber Q"

definition vQueueSetQueueNumber :: "u32 \<Rightarrow> xQUEUE \<Rightarrow> xQUEUE" where
  "vQueueSetQueueNumber n Q = Q\<lparr>uxQueueNumber := n\<rparr>"

definition ucQueueGetQueueType :: "xQUEUE \<Rightarrow> u8" where
  "ucQueueGetQueueType Q = ucQueueType Q"

subsection \<open>Locks\<close>

definition prvLockQueue :: "xQUEUE \<Rightarrow> xQUEUE" where
  "prvLockQueue Q =
     (let Q1 = (if cRxLock Q = queueUNLOCKED then Q\<lparr>cRxLock := queueLOCKED_UNMODIFIED\<rparr> else Q)
      in if cTxLock Q1 = queueUNLOCKED then Q1\<lparr>cTxLock := queueLOCKED_UNMODIFIED\<rparr> else Q1)"

definition prvIncrementQueueTxLock :: "int8 \<Rightarrow> ktask \<Rightarrow> xQUEUE \<Rightarrow> xQUEUE" where
  "prvIncrementQueueTxLock c k Q =
     (if (scast c :: u32) < uxTaskGetNumberOfTasks k then Q\<lparr>cTxLock := c + 1\<rparr> else Q)"

definition prvIncrementQueueRxLock :: "int8 \<Rightarrow> ktask \<Rightarrow> xQUEUE \<Rightarrow> xQUEUE" where
  "prvIncrementQueueRxLock c k Q =
     (if (scast c :: u32) < uxTaskGetNumberOfTasks k then Q\<lparr>cRxLock := c + 1\<rparr> else Q)"

text \<open>\<^verbatim>\<open>if( listLIST_IS_EMPTY( l ) == pdFALSE ) xTaskRemoveFromEventList( l )\<close>, with the result of
  the call, false when nobody waits.\<close>

definition wake_first :: "klid \<Rightarrow> ktask \<Rightarrow> (bool \<times> ktask) option" where
  "wake_first l k = (if listLIST_IS_EMPTY l (ls k) then Some (False, k) else xTaskRemoveFromEventList l k)"

text \<open>One loop of \<^verbatim>\<open>prvUnlockQueue\<close>, counting the lock down.\<close>

fun unlock_loop :: "nat \<Rightarrow> klid \<Rightarrow> ktask \<Rightarrow> ktask option" where
  "unlock_loop 0 l k = Some k"
| "unlock_loop (Suc n) l k =
     (if listLIST_IS_EMPTY l (ls k) then Some k
      else
        do {
          (woken, k1) \<leftarrow> xTaskRemoveFromEventList l k;
          unlock_loop n l (if woken then vTaskMissedYield k1 else k1)
        })"

text \<open>\<open>q\<close> is the number of the queue whose structure is \<open>Q\<close>.\<close>

definition prvUnlockQueue :: "nat \<Rightarrow> xQUEUE \<Rightarrow> ktask \<Rightarrow> (xQUEUE \<times> ktask) option" where
  "prvUnlockQueue q Q k =
     do {
       k1 \<leftarrow> unlock_loop (nat (sint (cTxLock Q))) (xTasksWaitingToReceive q) k;
       let Q1 = Q\<lparr>cTxLock := queueUNLOCKED\<rparr>;
       k2 \<leftarrow> unlock_loop (nat (sint (cRxLock Q1))) (xTasksWaitingToSend q) k1;
       Some (Q1\<lparr>cRxLock := queueUNLOCKED\<rparr>, k2)
     }"

definition prvGetDisinheritPriorityAfterTimeout :: "nat \<Rightarrow> ktask \<Rightarrow> u32" where
  "prvGetDisinheritPriorityAfterTimeout q k =
     (if listCURRENT_LIST_LENGTH (xTasksWaitingToReceive q) (ls k) > 0
      then configMAX_PRIORITIES - listGET_ITEM_VALUE_OF_HEAD_ENTRY (xTasksWaitingToReceive q) (ls k)
      else 0)"

end
