(* ===== verification/QueueApi.thy ===== *)
theory QueueApi
  imports Queue
begin

text \<open>
  The queue functions of \<^verbatim>\<open>queue.c\<close> on the state of the kernel and of all queues.  A call that can
  block is a loop over two sections: the critical section (\<open>_enter\<close>) and the section with the
  scheduler suspended and the queue locked (\<open>_block\<close>).  What interrupts and other tasks do between the
  atomic parts is the parameter \<open>world\<close>: point 0 is before the scheduler is suspended, 1 to 3 are
  the interrupts before the time-out test, between the queue test and the blocking, and before the queue
  is unlocked, and 4 is after the section, where other tasks may run until this one runs again.
\<close>

subsection \<open>State\<close>

record QueueRegistryItem_t =
  pcQueueName :: "string option"
  xHandle :: "nat option"

record qsys =
  ks :: ktask
  qs :: "nat \<Rightarrow> xQUEUE"
  xQueueRegistry :: "QueueRegistryItem_t list"

datatype 'a flow = Return 'a | Loop

definition set_queue :: "nat \<Rightarrow> xQUEUE \<Rightarrow> ktask \<Rightarrow> qsys \<Rightarrow> qsys" where
  "set_queue q Q k st = st\<lparr>qs := (qs st)(q := Q), ks := k\<rparr>"

definition yield_if :: "bool \<Rightarrow> ktask \<Rightarrow> ktask" where
  "yield_if b k = (if b then taskYIELD_IF_USING_PREEMPTION k else k)"

subsection \<open>Creation and reset\<close>

definition SIZE_MAX :: u32 where "SIZE_MAX = 0xFFFFFFFF"
definition sizeof_Queue_t :: u32 where "sizeof_Queue_t = 80"

definition xQueueGenericReset :: "nat \<Rightarrow> bool \<Rightarrow> qsys \<Rightarrow> (bool \<times> qsys) option" where
  "xQueueGenericReset q xNewQueue st =
     (let Q = qs st q in
      if uxLength Q \<ge> 1 \<and> SIZE_MAX div uxLength Q \<ge> uxItemSize Q then
        do {
          let Q1 = Q\<lparr>q_union := QueuePointers (int (unat (uxLength Q * uxItemSize Q)))
                                              (int (unat ((uxLength Q - 1) * uxItemSize Q))),
                     uxMessagesWaiting := 0, pcWriteTo := 0,
                     cRxLock := queueUNLOCKED, cTxLock := queueUNLOCKED\<rparr>;
          if \<not> xNewQueue then
            do {
              (woken, k) \<leftarrow> wake_first (xTasksWaitingToSend q) (ks st);
              Some (pdPASS, set_queue q Q1 (yield_if woken k) st)
            }
          else Some (pdPASS, set_queue q Q1
                 (on_lists (vListInitialise (xTasksWaitingToReceive q))
                    (on_lists (vListInitialise (xTasksWaitingToSend q)) (ks st))) st)
        }
      else Some (pdFAIL, st))"

definition prvInitialiseNewQueue ::
  "u32 \<Rightarrow> u32 \<Rightarrow> u8 list \<Rightarrow> u8 \<Rightarrow> nat \<Rightarrow> qsys \<Rightarrow> qsys option" where
  "prvInitialiseNewQueue uxQueueLength itemSize pucQueueStorage type q st =
     do {
       let Q = (qs st q)\<lparr>storage := pucQueueStorage, is_mutex := False,
                         uxLength := uxQueueLength, uxItemSize := itemSize\<rparr>;
       (_, st1) \<leftarrow> xQueueGenericReset q True (set_queue q Q (ks st) st);
       Some (set_queue q ((qs st1 q)\<lparr>ucQueueType := type\<rparr>) (ks st1) st1)
     }"

text \<open>\<open>malloc\<close> returns the bytes of a new block, \<open>q\<close> is the number the new queue gets.  The result says
  whether it was created.\<close>

definition xQueueGenericCreate ::
  "(u32 \<Rightarrow> u8 list option) \<Rightarrow> u32 \<Rightarrow> u32 \<Rightarrow> u8 \<Rightarrow> nat \<Rightarrow> qsys \<Rightarrow> (bool \<times> qsys) option" where
  "xQueueGenericCreate malloc uxQueueLength itemSize type q st =
     (if uxQueueLength > 0 \<and> SIZE_MAX div uxQueueLength \<ge> itemSize \<and>
         SIZE_MAX - sizeof_Queue_t \<ge> uxQueueLength * itemSize
      then
        (case malloc (sizeof_Queue_t + uxQueueLength * itemSize) of
           None \<Rightarrow> Some (False, st)
         | Some block \<Rightarrow>
             map_option (Pair True)
               (prvInitialiseNewQueue uxQueueLength itemSize (drop (unat sizeof_Queue_t) block) type q st))
      else Some (False, st))"

definition xQueueCreateCountingSemaphore ::
  "(u32 \<Rightarrow> u8 list option) \<Rightarrow> u32 \<Rightarrow> u32 \<Rightarrow> nat \<Rightarrow> qsys \<Rightarrow> (bool \<times> qsys) option" where
  "xQueueCreateCountingSemaphore malloc uxMaxCount uxInitialCount q st =
     (if uxMaxCount \<noteq> 0 \<and> uxInitialCount \<le> uxMaxCount then
        do {
          (made, st1) \<leftarrow> xQueueGenericCreate malloc uxMaxCount 0 2 q st;
          Some (made, if made then set_queue q ((qs st1 q)\<lparr>uxMessagesWaiting := uxInitialCount\<rparr>) (ks st1) st1
                      else st1)
        }
      else Some (False, st))"

subsection \<open>Blocking on a queue\<close>

text \<open>The time-out of a call: set at its first pass, kept at the later ones.\<close>

definition entry_time :: "TimeOut_t option \<Rightarrow> ktask \<Rightarrow> TimeOut_t" where
  "entry_time xTimeOut k = (case xTimeOut of None \<Rightarrow> vTaskInternalSetTimeOutState k | Some t \<Rightarrow> t)"

definition lock_queue :: "nat \<Rightarrow> qsys \<Rightarrow> qsys" where
  "lock_queue q st = set_queue q (prvLockQueue (qs st q)) (ks st) st"

text \<open>\<^verbatim>\<open>prvUnlockQueue( pxQueue ); xTaskResumeAll()\<close>; the result is that of the second call.\<close>

definition unlock_and_resume :: "nat \<Rightarrow> qsys \<Rightarrow> (bool \<times> qsys) option" where
  "unlock_and_resume q st =
     do {
       (Q, k) \<leftarrow> prvUnlockQueue q (qs st q) (ks st);
       (xAlreadyYielded, k1) \<leftarrow> xTaskResumeAll k;
       Some (xAlreadyYielded, set_queue q Q k1 st)
     }"

text \<open>The task blocks: \<open>l\<close> is the event list it waits on.\<close>

definition block_on ::
  "(nat \<Rightarrow> qsys \<Rightarrow> qsys option) \<Rightarrow> klid \<Rightarrow> nat \<Rightarrow> u32 \<Rightarrow> qsys \<Rightarrow> qsys option" where
  "block_on world l q xTicksToWait st =
     do {
       st1 \<leftarrow> world 2 st;
       k \<leftarrow> vTaskPlaceOnEventList l xTicksToWait (ks st1);
       st2 \<leftarrow> world 3 (st1\<lparr>ks := k\<rparr>);
       (xAlreadyYielded, st3) \<leftarrow> unlock_and_resume q st2;
       Some (st3\<lparr>ks := yield_if (\<not> xAlreadyYielded) (ks st3)\<rparr>)
     }"

text \<open>The section with the scheduler suspended: \<open>busy\<close> is the test of the queue that makes the task
  block on \<open>l\<close>, \<open>prepare\<close> what is done first (priority inheritance, whose result replaces the flag
  \<open>inherited\<close>), \<open>expired\<close> the code after a time-out.\<close>

definition suspended_section ::
  "(nat \<Rightarrow> qsys \<Rightarrow> qsys option) \<Rightarrow> klid \<Rightarrow> (xQUEUE \<Rightarrow> bool) \<Rightarrow> (qsys \<Rightarrow> (bool \<times> qsys) option) \<Rightarrow>
   (qsys \<Rightarrow> ('a flow \<times> qsys) option) \<Rightarrow> nat \<Rightarrow> bool \<Rightarrow> TimeOut_t \<Rightarrow> u32 \<Rightarrow> qsys \<Rightarrow>
   ('a flow \<times> bool \<times> TimeOut_t \<times> u32 \<times> qsys) option" where
  "suspended_section world l busy prepare expired q inherited xTimeOut xTicksToWait st =
     do {
       let st1 = lock_queue q (st\<lparr>ks := vTaskSuspendAll (ks st)\<rparr>);
       st2 \<leftarrow> world 1 st1;
       let (timed_out, t, n) = xTaskCheckForTimeOut xTimeOut xTicksToWait (ks st2);
       if \<not> timed_out then
         if busy (qs st2 q) then
           do {
             (inherited', st3) \<leftarrow> prepare st2;
             st4 \<leftarrow> block_on world l q n st3;
             Some (Loop, inherited', t, n, st4)
           }
         else do { (_, st3) \<leftarrow> unlock_and_resume q st2; Some (Loop, inherited, t, n, st3) }
       else
         do {
           (_, st3) \<leftarrow> unlock_and_resume q st2;
           (r, st4) \<leftarrow> expired st3;
           Some (r, inherited, t, n, st4)
         }
     }"

subsection \<open>Sending\<close>

definition xQueueGenericSend_enter ::
  "nat \<Rightarrow> u8 list \<Rightarrow> u32 \<Rightarrow> queue_position \<Rightarrow> qsys \<Rightarrow> (bool flow \<times> qsys) option" where
  "xQueueGenericSend_enter q item xTicksToWait xCopyPosition st =
     (if uxMessagesWaiting (qs st q) < uxLength (qs st q) \<or> xCopyPosition = queueOVERWRITE then
        do {
          (xYieldRequired, Q, k) \<leftarrow> prvCopyDataToQueue item xCopyPosition (qs st q) (ks st);
          let nobody = listLIST_IS_EMPTY (xTasksWaitingToReceive q) (ls k);
          (woken, k1) \<leftarrow> wake_first (xTasksWaitingToReceive q) k;
          Some (Return pdPASS, set_queue q Q (yield_if (if nobody then xYieldRequired else woken) k1) st)
        }
      else if xTicksToWait = 0 then Some (Return errQUEUE_FULL, st)
      else Some (Loop, st))"

definition xQueueGenericSend_block ::
  "(nat \<Rightarrow> qsys \<Rightarrow> qsys option) \<Rightarrow> nat \<Rightarrow> TimeOut_t \<Rightarrow> u32 \<Rightarrow> qsys \<Rightarrow>
   (bool flow \<times> bool \<times> TimeOut_t \<times> u32 \<times> qsys) option" where
  "xQueueGenericSend_block world q =
     suspended_section world (xTasksWaitingToSend q) prvIsQueueFull (\<lambda>st. Some (False, st))
       (\<lambda>st. Some (Return errQUEUE_FULL, st)) q False"

text \<open>The loop; the time-out is \<open>None\<close> while \<^verbatim>\<open>xEntryTimeSet\<close> is false.\<close>

partial_function (option) send_loop ::
  "(nat \<Rightarrow> qsys \<Rightarrow> qsys option) \<Rightarrow> nat \<Rightarrow> u8 list \<Rightarrow> queue_position \<Rightarrow> TimeOut_t option \<Rightarrow> u32 \<Rightarrow> qsys \<Rightarrow>
   (bool \<times> qsys) option" where
  "send_loop world q item xCopyPosition xTimeOut xTicksToWait st =
     do {
       (r, st1) \<leftarrow> xQueueGenericSend_enter q item xTicksToWait xCopyPosition st;
       case r of
         Return b \<Rightarrow> Some (b, st1)
       | Loop \<Rightarrow>
           do {
             let t = entry_time xTimeOut (ks st1);
             st2 \<leftarrow> world 0 st1;
             (r2, _, t2, n, st3) \<leftarrow> xQueueGenericSend_block world q t xTicksToWait st2;
             case r2 of
               Return b \<Rightarrow> Some (b, st3)
             | Loop \<Rightarrow> do { st4 \<leftarrow> world 4 st3; send_loop world q item xCopyPosition (Some t2) n st4 }
           }
     }"

definition xQueueGenericSend ::
  "(nat \<Rightarrow> qsys \<Rightarrow> qsys option) \<Rightarrow> nat \<Rightarrow> u8 list \<Rightarrow> u32 \<Rightarrow> queue_position \<Rightarrow> qsys \<Rightarrow> (bool \<times> qsys) option" where
  "xQueueGenericSend world q item xTicksToWait xCopyPosition st =
     send_loop world q item xCopyPosition None xTicksToWait st"

end
