(* ===== verification/QueueTake.thy ===== *)
theory QueueTake
  imports QueueApi
begin

text \<open>
  The rest of \<^verbatim>\<open>queue.c\<close>: receiving, peeking, semaphores and mutexes, the functions for interrupts
  and the queue registry.
\<close>

subsection \<open>Receiving\<close>

text \<open>The result of a receive is the item, or \<open>None\<close> for \<^verbatim>\<open>errQUEUE_EMPTY\<close>.\<close>

definition xQueueReceive_enter :: "nat \<Rightarrow> u32 \<Rightarrow> qsys \<Rightarrow> (u8 list option flow \<times> qsys) option" where
  "xQueueReceive_enter q xTicksToWait st =
     (let n = uxMessagesWaiting (qs st q) in
      if n > 0 then
        do {
          (item, Q) \<leftarrow> prvCopyDataFromQueue (qs st q);
          (woken, k) \<leftarrow> wake_first (xTasksWaitingToSend q) (ks st);
          Some (Return (Some item), set_queue q (Q\<lparr>uxMessagesWaiting := n - 1\<rparr>) (yield_if woken k) st)
        }
      else if xTicksToWait = 0 then Some (Return None, st)
      else Some (Loop, st))"

definition expired_empty :: "nat \<Rightarrow> qsys \<Rightarrow> ('a option flow \<times> qsys) option" where
  "expired_empty q st = Some (if prvIsQueueEmpty (qs st q) then Return None else Loop, st)"

definition xQueueReceive_block ::
  "(nat \<Rightarrow> qsys \<Rightarrow> qsys option) \<Rightarrow> nat \<Rightarrow> TimeOut_t \<Rightarrow> u32 \<Rightarrow> qsys \<Rightarrow>
   (u8 list option flow \<times> bool \<times> TimeOut_t \<times> u32 \<times> qsys) option" where
  "xQueueReceive_block world q =
     suspended_section world (xTasksWaitingToReceive q) prvIsQueueEmpty (\<lambda>st. Some (False, st))
       (expired_empty q) q False"

partial_function (option) receive_loop ::
  "(nat \<Rightarrow> qsys \<Rightarrow> qsys option) \<Rightarrow> nat \<Rightarrow> TimeOut_t option \<Rightarrow> u32 \<Rightarrow> qsys \<Rightarrow> (u8 list option \<times> qsys) option" where
  "receive_loop world q xTimeOut xTicksToWait st =
     do {
       (r, st1) \<leftarrow> xQueueReceive_enter q xTicksToWait st;
       case r of
         Return b \<Rightarrow> Some (b, st1)
       | Loop \<Rightarrow>
           do {
             let t = entry_time xTimeOut (ks st1);
             st2 \<leftarrow> world 0 st1;
             (r2, _, t2, n, st3) \<leftarrow> xQueueReceive_block world q t xTicksToWait st2;
             case r2 of
               Return b \<Rightarrow> Some (b, st3)
             | Loop \<Rightarrow> do { st4 \<leftarrow> world 4 st3; receive_loop world q (Some t2) n st4 }
           }
     }"

definition xQueueReceive ::
  "(nat \<Rightarrow> qsys \<Rightarrow> qsys option) \<Rightarrow> nat \<Rightarrow> u32 \<Rightarrow> qsys \<Rightarrow> (u8 list option \<times> qsys) option" where
  "xQueueReceive world q xTicksToWait st = receive_loop world q None xTicksToWait st"

text \<open>\<^verbatim>\<open>pcReadFrom\<close> is put back after the copy.\<close>

definition xQueuePeek_enter :: "nat \<Rightarrow> u32 \<Rightarrow> qsys \<Rightarrow> (u8 list option flow \<times> qsys) option" where
  "xQueuePeek_enter q xTicksToWait st =
     (if uxMessagesWaiting (qs st q) > 0 then
        do {
          (item, Q) \<leftarrow> prvCopyDataFromQueue (qs st q);
          (woken, k) \<leftarrow> wake_first (xTasksWaitingToReceive q) (ks st);
          Some (Return (Some item), set_queue q (Q\<lparr>q_union := q_union (qs st q)\<rparr>) (yield_if woken k) st)
        }
      else if xTicksToWait = 0 then Some (Return None, st)
      else Some (Loop, st))"

text \<open>The second section of \<^verbatim>\<open>xQueuePeek\<close> is that of \<^verbatim>\<open>xQueueReceive\<close>.\<close>

partial_function (option) peek_loop ::
  "(nat \<Rightarrow> qsys \<Rightarrow> qsys option) \<Rightarrow> nat \<Rightarrow> TimeOut_t option \<Rightarrow> u32 \<Rightarrow> qsys \<Rightarrow> (u8 list option \<times> qsys) option" where
  "peek_loop world q xTimeOut xTicksToWait st =
     do {
       (r, st1) \<leftarrow> xQueuePeek_enter q xTicksToWait st;
       case r of
         Return b \<Rightarrow> Some (b, st1)
       | Loop \<Rightarrow>
           do {
             let t = entry_time xTimeOut (ks st1);
             st2 \<leftarrow> world 0 st1;
             (r2, _, t2, n, st3) \<leftarrow> xQueueReceive_block world q t xTicksToWait st2;
             case r2 of
               Return b \<Rightarrow> Some (b, st3)
             | Loop \<Rightarrow> do { st4 \<leftarrow> world 4 st3; peek_loop world q (Some t2) n st4 }
           }
     }"

definition xQueuePeek ::
  "(nat \<Rightarrow> qsys \<Rightarrow> qsys option) \<Rightarrow> nat \<Rightarrow> u32 \<Rightarrow> qsys \<Rightarrow> (u8 list option \<times> qsys) option" where
  "xQueuePeek world q xTicksToWait st = peek_loop world q None xTicksToWait st"

subsection \<open>Interrupts\<close>

text \<open>The second component of the result says whether \<^verbatim>\<open>*pxHigherPriorityTaskWoken\<close> was set.\<close>

definition xQueueGenericSendFromISR ::
  "nat \<Rightarrow> u8 list \<Rightarrow> queue_position \<Rightarrow> qsys \<Rightarrow> (bool \<times> bool \<times> qsys) option" where
  "xQueueGenericSendFromISR q item xCopyPosition st =
     (if uxMessagesWaiting (qs st q) < uxLength (qs st q) \<or> xCopyPosition = queueOVERWRITE then
        do {
          let lock = cTxLock (qs st q);
          (_, Q, k) \<leftarrow> prvCopyDataToQueue item xCopyPosition (qs st q) (ks st);
          if lock = queueUNLOCKED then
            do {
              (woken, k1) \<leftarrow> wake_first (xTasksWaitingToReceive q) k;
              Some (pdPASS, woken, set_queue q Q k1 st)
            }
          else Some (pdPASS, False, set_queue q (prvIncrementQueueTxLock lock k Q) k st)
        }
      else Some (errQUEUE_FULL, False, st))"

definition xQueueGiveFromISR :: "nat \<Rightarrow> qsys \<Rightarrow> (bool \<times> bool \<times> qsys) option" where
  "xQueueGiveFromISR q st =
     (if uxMessagesWaiting (qs st q) < uxLength (qs st q) then
        do {
          let lock = cTxLock (qs st q);
          let Q = (qs st q)\<lparr>uxMessagesWaiting := uxMessagesWaiting (qs st q) + 1\<rparr>;
          if lock = queueUNLOCKED then
            do {
              (woken, k1) \<leftarrow> wake_first (xTasksWaitingToReceive q) (ks st);
              Some (pdPASS, woken, set_queue q Q k1 st)
            }
          else Some (pdPASS, False, set_queue q (prvIncrementQueueTxLock lock (ks st) Q) (ks st) st)
        }
      else Some (errQUEUE_FULL, False, st))"

definition xQueueReceiveFromISR :: "nat \<Rightarrow> qsys \<Rightarrow> (u8 list option \<times> bool \<times> qsys) option" where
  "xQueueReceiveFromISR q st =
     (let n = uxMessagesWaiting (qs st q) in
      if n > 0 then
        do {
          let lock = cRxLock (qs st q);
          (item, Q) \<leftarrow> prvCopyDataFromQueue (qs st q);
          let Q1 = Q\<lparr>uxMessagesWaiting := n - 1\<rparr>;
          if lock = queueUNLOCKED then
            do {
              (woken, k) \<leftarrow> wake_first (xTasksWaitingToSend q) (ks st);
              Some (Some item, woken, set_queue q Q1 k st)
            }
          else Some (Some item, False, set_queue q (prvIncrementQueueRxLock lock (ks st) Q1) (ks st) st)
        }
      else Some (None, False, st))"

definition xQueuePeekFromISR :: "nat \<Rightarrow> qsys \<Rightarrow> (u8 list option \<times> qsys) option" where
  "xQueuePeekFromISR q st =
     (if uxMessagesWaiting (qs st q) > 0 then
        do {
          (item, Q) \<leftarrow> prvCopyDataFromQueue (qs st q);
          Some (Some item, set_queue q (Q\<lparr>q_union := q_union (qs st q)\<rparr>) (ks st) st)
        }
      else Some (None, st))"

subsection \<open>Semaphores and mutexes\<close>

definition xQueueSemaphoreTake_enter :: "nat \<Rightarrow> u32 \<Rightarrow> qsys \<Rightarrow> (bool flow \<times> qsys) option" where
  "xQueueSemaphoreTake_enter q xTicksToWait st =
     (let n = uxMessagesWaiting (qs st q) in
      if n > 0 then
        do {
          let Q = (qs st q)\<lparr>uxMessagesWaiting := n - 1\<rparr>;
          (Q1, k) \<leftarrow>
            (if is_mutex Q then
               (case q_union Q of
                  SemaphoreData _ c \<Rightarrow>
                    (let (h, k) = pvTaskIncrementMutexHeldCount (ks st)
                     in Some (Q\<lparr>q_union := SemaphoreData h c\<rparr>, k))
                | QueuePointers _ _ \<Rightarrow> None)
             else Some (Q, ks st));
          (woken, k1) \<leftarrow> wake_first (xTasksWaitingToSend q) k;
          Some (Return True, set_queue q Q1 (yield_if woken k1) st)
        }
      else if xTicksToWait = 0 then Some (Return False, st)
      else Some (Loop, st))"

text \<open>Before the task blocks on a mutex its holder inherits the priority.\<close>

definition inherit_priority :: "nat \<Rightarrow> bool \<Rightarrow> qsys \<Rightarrow> (bool \<times> qsys) option" where
  "inherit_priority q xInheritanceOccurred st =
     (if is_mutex (qs st q) then
        (case q_union (qs st q) of
           SemaphoreData h _ \<Rightarrow> map_option (\<lambda>(b, k). (b, st\<lparr>ks := k\<rparr>)) (xTaskPriorityInherit h (ks st))
         | QueuePointers _ _ \<Rightarrow> None)
      else Some (xInheritanceOccurred, st))"

text \<open>After a time-out the inherited priority is given back.\<close>

definition expired_take :: "nat \<Rightarrow> bool \<Rightarrow> qsys \<Rightarrow> (bool flow \<times> qsys) option" where
  "expired_take q xInheritanceOccurred st =
     (if prvIsQueueEmpty (qs st q) then
        if xInheritanceOccurred then
          (case q_union (qs st q) of
             SemaphoreData h _ \<Rightarrow>
               map_option (\<lambda>k. (Return False, st\<lparr>ks := k\<rparr>))
                 (vTaskPriorityDisinheritAfterTimeout h (prvGetDisinheritPriorityAfterTimeout q (ks st)) (ks st))
           | QueuePointers _ _ \<Rightarrow> None)
        else Some (Return False, st)
      else Some (Loop, st))"

definition xQueueSemaphoreTake_block ::
  "(nat \<Rightarrow> qsys \<Rightarrow> qsys option) \<Rightarrow> nat \<Rightarrow> bool \<Rightarrow> TimeOut_t \<Rightarrow> u32 \<Rightarrow> qsys \<Rightarrow>
   (bool flow \<times> bool \<times> TimeOut_t \<times> u32 \<times> qsys) option" where
  "xQueueSemaphoreTake_block world q xInheritanceOccurred =
     suspended_section world (xTasksWaitingToReceive q) prvIsQueueEmpty
       (inherit_priority q xInheritanceOccurred) (expired_take q xInheritanceOccurred) q xInheritanceOccurred"

partial_function (option) take_loop ::
  "(nat \<Rightarrow> qsys \<Rightarrow> qsys option) \<Rightarrow> nat \<Rightarrow> bool \<Rightarrow> TimeOut_t option \<Rightarrow> u32 \<Rightarrow> qsys \<Rightarrow> (bool \<times> qsys) option" where
  "take_loop world q inherited xTimeOut xTicksToWait st =
     do {
       (r, st1) \<leftarrow> xQueueSemaphoreTake_enter q xTicksToWait st;
       case r of
         Return b \<Rightarrow> Some (b, st1)
       | Loop \<Rightarrow>
           do {
             let t = entry_time xTimeOut (ks st1);
             st2 \<leftarrow> world 0 st1;
             (r2, inherited', t2, n, st3) \<leftarrow> xQueueSemaphoreTake_block world q inherited t xTicksToWait st2;
             case r2 of
               Return b \<Rightarrow> Some (b, st3)
             | Loop \<Rightarrow> do { st4 \<leftarrow> world 4 st3; take_loop world q inherited' (Some t2) n st4 }
           }
     }"

definition xQueueSemaphoreTake ::
  "(nat \<Rightarrow> qsys \<Rightarrow> qsys option) \<Rightarrow> nat \<Rightarrow> u32 \<Rightarrow> qsys \<Rightarrow> (bool \<times> qsys) option" where
  "xQueueSemaphoreTake world q xTicksToWait st = take_loop world q False None xTicksToWait st"

text \<open>A call with block time 0 is one critical section, which the world does not enter.\<close>

definition prvInitialiseMutex :: "nat \<Rightarrow> qsys \<Rightarrow> qsys option" where
  "prvInitialiseMutex q st =
     map_option snd
       (xQueueGenericSend (\<lambda>_. Some) q [] 0 queueSEND_TO_BACK
          (set_queue q ((qs st q)\<lparr>is_mutex := True, q_union := SemaphoreData None 0\<rparr>) (ks st) st))"

definition xQueueCreateMutex :: "(u32 \<Rightarrow> u8 list option) \<Rightarrow> u8 \<Rightarrow> nat \<Rightarrow> qsys \<Rightarrow> (bool \<times> qsys) option" where
  "xQueueCreateMutex malloc type q st =
     do {
       (made, st1) \<leftarrow> xQueueGenericCreate malloc 1 0 type q st;
       if made then map_option (Pair True) (prvInitialiseMutex q st1) else Some (False, st1)
     }"

definition xQueueGetMutexHolder :: "nat \<Rightarrow> qsys \<Rightarrow> task option" where
  "xQueueGetMutexHolder q st =
     (if is_mutex (qs st q) then (case q_union (qs st q) of SemaphoreData h _ \<Rightarrow> h | QueuePointers _ _ \<Rightarrow> None)
      else None)"

definition xTaskGetCurrentTaskHandle :: "ktask \<Rightarrow> task option" where
  "xTaskGetCurrentTaskHandle k = pxCurrentTCB k"

definition xQueueGiveMutexRecursive :: "nat \<Rightarrow> qsys \<Rightarrow> (bool \<times> qsys) option" where
  "xQueueGiveMutexRecursive q st =
     (case q_union (qs st q) of
        SemaphoreData h c \<Rightarrow>
          if h = xTaskGetCurrentTaskHandle (ks st) then
            do {
              let st1 = set_queue q ((qs st q)\<lparr>q_union := SemaphoreData h (c - 1)\<rparr>) (ks st) st;
              st2 \<leftarrow> (if c - 1 = 0
                      then map_option snd (xQueueGenericSend (\<lambda>_. Some) q [] 0 queueSEND_TO_BACK st1)
                      else Some st1);
              Some (pdPASS, st2)
            }
          else Some (pdFAIL, st)
      | QueuePointers _ _ \<Rightarrow> None)"

definition count_recursive_call :: "nat \<Rightarrow> qsys \<Rightarrow> qsys option" where
  "count_recursive_call q st =
     (case q_union (qs st q) of
        SemaphoreData h c \<Rightarrow> Some (set_queue q ((qs st q)\<lparr>q_union := SemaphoreData h (c + 1)\<rparr>) (ks st) st)
      | QueuePointers _ _ \<Rightarrow> None)"

definition xQueueTakeMutexRecursive ::
  "(nat \<Rightarrow> qsys \<Rightarrow> qsys option) \<Rightarrow> nat \<Rightarrow> u32 \<Rightarrow> qsys \<Rightarrow> (bool \<times> qsys) option" where
  "xQueueTakeMutexRecursive world q xTicksToWait st =
     (case q_union (qs st q) of
        SemaphoreData h c \<Rightarrow>
          if h = xTaskGetCurrentTaskHandle (ks st)
          then map_option (Pair pdPASS) (count_recursive_call q st)
          else
            do {
              (xReturn, st1) \<leftarrow> xQueueSemaphoreTake world q xTicksToWait st;
              if xReturn then map_option (Pair True) (count_recursive_call q st1) else Some (False, st1)
            }
      | QueuePointers _ _ \<Rightarrow> None)"

subsection \<open>The timer task's wait, the registry and deletion\<close>

text \<open>Called with the scheduler suspended.\<close>

definition vQueueWaitForMessageRestricted :: "nat \<Rightarrow> u32 \<Rightarrow> bool \<Rightarrow> qsys \<Rightarrow> qsys option" where
  "vQueueWaitForMessageRestricted q xTicksToWait xWaitIndefinitely st =
     do {
       let st1 = lock_queue q st;
       k \<leftarrow> (if uxMessagesWaiting (qs st1 q) = 0
             then vTaskPlaceOnEventListRestricted (xTasksWaitingToReceive q) xTicksToWait xWaitIndefinitely (ks st1)
             else Some (ks st1));
       (Q, k1) \<leftarrow> prvUnlockQueue q (qs st1 q) k;
       Some (set_queue q Q k1 st1)
     }"

text \<open>The entry that \<^verbatim>\<open>vQueueAddToRegistry\<close> writes: that of the queue, or the first free one.\<close>

fun registry_slot :: "nat \<Rightarrow> nat option \<Rightarrow> nat \<Rightarrow> QueueRegistryItem_t list \<Rightarrow> nat option" where
  "registry_slot q found i [] = found"
| "registry_slot q found i (e # es) =
     (if xHandle e = Some q then Some i
      else registry_slot q (if found = None \<and> pcQueueName e = None then Some i else found) (Suc i) es)"

definition vQueueAddToRegistry :: "nat \<Rightarrow> string option \<Rightarrow> qsys \<Rightarrow> qsys" where
  "vQueueAddToRegistry q name st =
     (case (if name = None then None else registry_slot q None 0 (xQueueRegistry st)) of
        None \<Rightarrow> st
      | Some i \<Rightarrow> st\<lparr>xQueueRegistry := (xQueueRegistry st)[i := \<lparr>pcQueueName = name, xHandle = Some q\<rparr>]\<rparr>)"

fun registry_name :: "nat \<Rightarrow> QueueRegistryItem_t list \<Rightarrow> string option" where
  "registry_name q [] = None"
| "registry_name q (e # es) = (if xHandle e = Some q then pcQueueName e else registry_name q es)"

definition pcQueueGetName :: "nat \<Rightarrow> qsys \<Rightarrow> string option" where
  "pcQueueGetName q st = registry_name q (xQueueRegistry st)"

fun registry_clear :: "nat \<Rightarrow> QueueRegistryItem_t list \<Rightarrow> QueueRegistryItem_t list" where
  "registry_clear q [] = []"
| "registry_clear q (e # es) =
     (if xHandle e = Some q then \<lparr>pcQueueName = None, xHandle = None\<rparr> # es else e # registry_clear q es)"

definition vQueueUnregisterQueue :: "nat \<Rightarrow> qsys \<Rightarrow> qsys" where
  "vQueueUnregisterQueue q st = st\<lparr>xQueueRegistry := registry_clear q (xQueueRegistry st)\<rparr>"

text \<open>The first component is the block passed to \<^verbatim>\<open>vPortFree\<close>.\<close>

definition vQueueDelete :: "nat \<Rightarrow> qsys \<Rightarrow> nat \<times> qsys" where
  "vQueueDelete q st = (q, vQueueUnregisterQueue q st)"

end
