(* ===== verification/QueueRing.thy ===== *)
theory QueueRing
  imports QueueTake
begin

text \<open>
  The ring buffer of a queue: \<open>contents Q\<close> lists its items in the order they will be received, and
  the copies in and out of the storage area are the list operations on it.  A semaphore is a queue
  of empty items.
\<close>

subsection \<open>Contents and invariant\<close>

abbreviation qlen :: "xQUEUE \<Rightarrow> nat" where "qlen Q \<equiv> unat (uxLength Q)"
abbreviation qsz :: "xQUEUE \<Rightarrow> nat" where "qsz Q \<equiv> unat (uxItemSize Q)"
abbreviation qn :: "xQUEUE \<Rightarrow> nat" where "qn Q \<equiv> unat (uxMessagesWaiting Q)"

definition read_pos :: "xQUEUE \<Rightarrow> nat" where
  "read_pos Q = (case q_union Q of QueuePointers _ r \<Rightarrow> nat r div qsz Q | SemaphoreData _ _ \<Rightarrow> 0)"

definition slot :: "nat \<Rightarrow> nat \<Rightarrow> 'a list \<Rightarrow> 'a list" where
  "slot k j s = take k (drop (j * k) s)"

definition contents :: "xQUEUE \<Rightarrow> u8 list list" where
  "contents Q = map (\<lambda>i. slot (qsz Q) ((read_pos Q + 1 + i) mod qlen Q) (storage Q)) [0..<qn Q]"

definition queue_ok :: "xQUEUE \<Rightarrow> bool" where
  "queue_ok Q \<longleftrightarrow> \<not> is_mutex Q \<and> 0 < qlen Q \<and> qn Q \<le> qlen Q \<and>
     (0 < qsz Q \<longrightarrow>
        length (storage Q) = qlen Q * qsz Q \<and> read_pos Q < qlen Q \<and>
        q_union Q = QueuePointers (int (qlen Q * qsz Q)) (int (read_pos Q * qsz Q)) \<and>
        pcWriteTo Q = int ((read_pos Q + 1 + qn Q) mod qlen Q * qsz Q))"

lemma length_contents [simp]: "length (contents Q) = qn Q"
  by (simp add: contents_def)

lemma slot_0 [simp]: "slot 0 j s = []"
  by (simp add: slot_def)

lemma length_slot: "j < L \<Longrightarrow> length s = L * k \<Longrightarrow> length (slot k j s) = k"
proof -
  assume "j < L" "length s = L * k"
  then have "Suc j * k \<le> length s" using mult_le_mono1 [of "Suc j" L k] by simp
  then show ?thesis by (simp add: slot_def)
qed

lemma contents_semaphore: "qsz Q = 0 \<Longrightarrow> contents Q = replicate (qn Q) []"
  unfolding contents_def by (rule nth_equalityI) simp_all

lemma mult_step_le: "j < L \<Longrightarrow> j * k + k \<le> L * (k :: nat)"
  using mult_le_mono1 [of "Suc j" L k] by simp

lemma memcpy_to_slot:
  assumes "j < L" and "length s = L * k" and "length x = k"
  shows "memcpy_to (int (j * k)) x k s = Some (take (j * k) s @ x @ drop (j * k + k) s)"
  using assms mult_step_le [OF assms(1), of k] by (simp add: memcpy_to_def nat_mult_distrib)

lemma memcpy_from_slot:
  assumes "j < L" and "length s = L * k"
  shows "memcpy_from (int (j * k)) k s = Some (slot k j s)"
  using assms mult_step_le [OF assms(1), of k] by (simp add: memcpy_from_def nat_mult_distrib slot_def)

lemma nth_slot: "j < L \<Longrightarrow> length s = L * k \<Longrightarrow> m < k \<Longrightarrow> slot k j s ! m = s ! (j * k + m)"
  using mult_step_le [of j L k] by (simp add: slot_def)

lemma slot_write:
  assumes "i < L" "j < L" and "length s = L * k" and "length x = k"
  shows "slot k i (take (j * k) s @ x @ drop (j * k + k) s) = (if i = j then x else slot k i s)"
proof -
  let ?s = "take (j * k) s @ x @ drop (j * k + k) s"
  note b = mult_step_le [OF assms(1), of k] mult_step_le [OF assms(2), of k]
  have l: "length ?s = L * k" using b assms(3,4) by simp
  have "slot k i ?s ! m = (if i = j then x else slot k i s) ! m" if m: "m < k" for m
  proof -
    have "i \<noteq> j \<Longrightarrow> i * k + m < j * k \<or> j * k + k \<le> i * k + m"
      using mult_step_le [of i j k] mult_step_le [of j i k] m by linarith
    then show ?thesis
      using m b assms by (auto simp: nth_slot [OF assms(1) l] nth_slot [OF assms(1,3)] nth_append)
  qed
  then show ?thesis using length_slot [OF assms(1) l] length_slot [OF assms(1,3)] assms(4)
    by (intro nth_equalityI) auto
qed

subsection \<open>The ring as a list\<close>

definition ring_list :: "nat \<Rightarrow> nat \<Rightarrow> nat \<Rightarrow> nat \<Rightarrow> 'a list \<Rightarrow> 'a list list" where
  "ring_list k L r n s = map (\<lambda>i. slot k ((r + 1 + i) mod L) s) [0..<n]"

lemma ring_index_neq: "i < n \<Longrightarrow> n < L \<Longrightarrow> (r + i) mod L \<noteq> (r + n) mod (L :: nat)"
proof
  assume "i < n" "n < L" and eq: "(r + i) mod L = (r + n) mod L"
  then have "L dvd n - i" using mod_eq_dvd_iff_nat [of "r + i" "r + n" L] by simp
  then show False using \<open>i < n\<close> \<open>n < L\<close> by (auto dest: dvd_imp_le)
qed

lemma ring_push_back:
  assumes "n < L" and "length s = L * k" and "length x = k" and j_def: "j = (r + 1 + n) mod L"
  shows "ring_list k L r (Suc n) (take (j * k) s @ x @ drop (j * k + k) s) = ring_list k L r n s @ [x]"
proof -
  have j: "j < L" using assms(1) by (simp add: j_def)
  have "slot k ((r + 1 + i) mod L) (take (j * k) s @ x @ drop (j * k + k) s) =
      (if i = n then x else slot k ((r + 1 + i) mod L) s)" if "i < Suc n" for i
    using slot_write [OF _ j assms(2,3), of "(r + 1 + i) mod L"] ring_index_neq [of i n L "r + 1"] that assms(1)
    by (cases "i = n") (auto simp: j_def)
  then show ?thesis by (simp add: ring_list_def)
qed

definition ring_prev :: "nat \<Rightarrow> nat \<Rightarrow> nat" where "ring_prev L r = (if r = 0 then L - 1 else r - 1)"
definition ring_next :: "nat \<Rightarrow> nat \<Rightarrow> nat" where "ring_next L r = (if r + 1 \<ge> L then 0 else r + 1)"

lemma ring_next_mod: "r < L \<Longrightarrow> ring_next L r = (r + 1) mod L"
  by (cases "Suc r = L") (auto simp: ring_next_def)

lemma ring_prev_less: "r < L \<Longrightarrow> ring_prev L r < L"
  by (auto simp: ring_prev_def)

lemma ring_prev_mod: "r < L \<Longrightarrow> (ring_prev L r + 1 + i) mod L = (r + i) mod L"
proof (cases "r = 0")
  case True
  moreover assume "r < L"
  moreover have "(L + i) mod L = i mod L" by simp
  ultimately show ?thesis by (simp add: ring_prev_def del: mod_add_self1)
qed (simp add: ring_prev_def)

lemma ring_push_front:
  assumes "r < L" and "n < L" and "length s = L * k" and "length x = k"
  shows "ring_list k L (ring_prev L r) (Suc n) (take (r * k) s @ x @ drop (r * k + k) s) = x # ring_list k L r n s"
proof -
  have f: "slot k ((r + i) mod L) (take (r * k) s @ x @ drop (r * k + k) s) =
      (if i = 0 then x else slot k ((r + i) mod L) s)" if "i < Suc n" for i
    using slot_write [OF _ assms(1,3,4), of "(r + i) mod L"] ring_index_neq [of 0 i L r] that assms(1,2)
    by (cases "i = 0") auto
  show ?thesis
    unfolding ring_list_def ring_prev_mod [OF assms(1)]
    using f [of 0] f [of "Suc i" for i] by (simp del: upt_Suc add: upt_conv_Cons map_Suc_upt [symmetric])
qed

lemma ring_pop:
  assumes "r < L" and "0 < n"
  shows "ring_list k L r n s = slot k (ring_next L r) s # ring_list k L (ring_next L r) (n - 1) s"
proof -
  have "(ring_next L r + 1 + i) mod L = (r + 1 + Suc i) mod L" for i
    unfolding ring_next_mod [OF assms(1)] using mod_add_left_eq [of "r + 1" L "1 + i"] by (simp add: add.assoc)
  moreover have "ring_next L r = (r + 1 + 0) mod L" using ring_next_mod [OF assms(1)] by simp
  ultimately show ?thesis using assms(2) unfolding ring_list_def
    by (cases n) (simp_all del: upt_Suc add: upt_conv_Cons map_Suc_upt [symmetric])
qed

subsection \<open>The operations on the ring\<close>

definition ring_ok :: "nat \<Rightarrow> nat \<Rightarrow> nat \<Rightarrow> nat \<Rightarrow> xQUEUE \<Rightarrow> bool" where
  "ring_ok k L r n Q \<longleftrightarrow> 0 < k \<and> k < 2 ^ 32 \<and> r < L \<and> n \<le> L \<and> L < 2 ^ 32 \<and> length (storage Q) = L * k \<and>
     \<not> is_mutex Q \<and> uxItemSize Q = w32 k \<and> uxLength Q = w32 L \<and> uxMessagesWaiting Q = w32 n \<and>
     q_union Q = QueuePointers (int (L * k)) (int (r * k)) \<and> pcWriteTo Q = int ((r + 1 + n) mod L * k)"

lemma ring_ok_D:
  assumes "ring_ok k L r n Q"
  shows "0 < k" "r < L" "n \<le> L" "k < 2 ^ 32" "L < 2 ^ 32" "n < 2 ^ 32" "length (storage Q) = L * k" "qsz Q = k" "qlen Q = L" "qn Q = n"
    "uxItemSize Q = w32 k" "uxMessagesWaiting Q = w32 n" "q_union Q = QueuePointers (int (L * k)) (int (r * k))"
    "pcWriteTo Q = int ((r + 1 + n) mod L * k)" "read_pos Q = r"
  using assms unfolding ring_ok_def by (simp_all add: read_pos_def nat_mult_distrib)

lemma ring_ok_contents:
  assumes "ring_ok k L r n Q"
  shows "contents Q = ring_list k L r n (storage Q)"
  unfolding contents_def ring_list_def ring_ok_D(8,9,10,15) [OF assms] ..

lemma ring_ok_queue:
  assumes "ring_ok k L r n Q"
  shows "queue_ok Q"
proof -
  have "\<not> is_mutex Q" "0 < L" using assms by (auto simp: ring_ok_def)
  then show ?thesis unfolding queue_ok_def ring_ok_D(8,9,10,15) [OF assms]
    using ring_ok_D [OF assms] by simp
qed

lemma queue_ok_ring:
  assumes "queue_ok Q" and "uxItemSize Q \<noteq> 0"
  shows "ring_ok (qsz Q) (qlen Q) (read_pos Q) (qn Q) Q"
proof -
  have k: "0 < qsz Q" using assms(2) by (simp add: unat_gt_0)
  show ?thesis unfolding ring_ok_def w32_unat
    using assms(1) k unat_u32_less [of "uxItemSize Q"] unat_u32_less [of "uxLength Q"] unfolding queue_ok_def by blast
qed

definition same_shape :: "xQUEUE \<Rightarrow> xQUEUE \<Rightarrow> bool" where
  "same_shape Q Q' \<longleftrightarrow> uxLength Q' = uxLength Q \<and> uxItemSize Q' = uxItemSize Q \<and> is_mutex Q' = is_mutex Q \<and>
     cRxLock Q' = cRxLock Q \<and> cTxLock Q' = cTxLock Q \<and>
     uxQueueNumber Q' = uxQueueNumber Q \<and> ucQueueType Q' = ucQueueType Q"

lemma wrap_forward: "j < L \<Longrightarrow> (if int (j * k) + int k \<ge> int (L * k) then 0 else int (j * k) + int k) = int ((j + 1) mod L * k)"
  if "0 < k" for k :: nat
proof -
  assume j: "j < L"
  have "int (j * k) + int k = int ((j + 1) * k)" by simp
  then have "int (j * k) + int k \<ge> int (L * k) \<longleftrightarrow> L \<le> j + 1"
    using that by (metis mult_le_cancel2 of_nat_le_iff)
  then show ?thesis using j by (cases "j + 1 = L") (auto simp: algebra_simps)
qed

lemma wrap_backward: "r < L \<Longrightarrow> (if int (r * k) - int k < 0 then int (L * k) - int k else int (r * k) - int k) = int (ring_prev L r * k)"
  if "0 < k" for k :: nat
proof -
  assume r: "r < L"
  then obtain L' where "L = Suc L'" by (cases L) auto
  moreover have "int r' * int k \<ge> 0" for r' by simp
  ultimately show ?thesis using that r by (cases r) (auto simp: ring_prev_def simp del: of_nat_mult of_nat_0_le_iff simp add: not_less)
qed

lemma w32_pos: "n < 2 ^ 32 \<Longrightarrow> (0 < w32 n) = (0 < n)"
  by (simp add: word_less_nat_alt)

lemma copy_to_back_ring:
  assumes r: "ring_ok k L r n Q" and n: "n < L" and x: "length x = k"
  shows "\<exists>Q'. copy_to_back x Q = Some Q' \<and> ring_ok k L r (Suc n) Q' \<and> contents Q' = contents Q @ [x] \<and> same_shape Q Q'"
proof -
  note d = ring_ok_D [OF r]
  let ?j = "(r + 1 + n) mod L"
  let ?s = "take (?j * k) (storage Q) @ x @ drop (?j * k + k) (storage Q)"
  let ?Q = "Q\<lparr>storage := ?s, pcWriteTo := int ((?j + 1) mod L * k), uxMessagesWaiting := w32 (Suc n)\<rparr>"
  have j: "?j < L" using n by simp
  have w: "w32 n + 1 = w32 (Suc n)" by (metis Suc_eq_plus1 w32_add w32_def of_nat_1)
  have run: "copy_to_back x Q = Some ?Q"
    unfolding copy_to_back_def d(8,12,13,14) queue_union.case memcpy_to_slot [OF j d(7) x] Option.bind.simps Let_def
      wrap_forward [OF d(1) j] w ..
  have "(?j + 1) mod L = (r + 1 + Suc n) mod L" by (simp add: mod_simps)
  moreover have "length ?s = L * k" using mult_step_le [OF j, of k] d(7) x by simp
  ultimately have ok: "ring_ok k L r (Suc n) ?Q" using r n unfolding ring_ok_def by simp
  have "contents ?Q = contents Q @ [x]"
    unfolding ring_ok_contents [OF ok] ring_ok_contents [OF r] using ring_push_back [OF n d(7) x refl, of r] by simp
  then show ?thesis using run ok by (auto simp: same_shape_def)
qed

lemma copy_to_front_ring:
  assumes r: "ring_ok k L r n Q" and n: "n < L" and x: "length x = k"
  shows "\<exists>Q'. copy_to_front False x Q = Some Q' \<and> ring_ok k L (ring_prev L r) (Suc n) Q' \<and>
    contents Q' = x # contents Q \<and> same_shape Q Q'"
proof -
  note d = ring_ok_D [OF r]
  let ?s = "take (r * k) (storage Q) @ x @ drop (r * k + k) (storage Q)"
  let ?Q = "Q\<lparr>storage := ?s, q_union := QueuePointers (int (L * k)) (int (ring_prev L r * k)), uxMessagesWaiting := w32 (Suc n)\<rparr>"
  have w: "w32 n + 1 = w32 (Suc n)" by (metis Suc_eq_plus1 w32_add w32_def of_nat_1)
  have f: "(if False \<and> w32 n > 0 then w32 n - 1 else w32 n) = w32 n" by simp
  have run: "copy_to_front False x Q = Some ?Q"
    unfolding copy_to_front_def d(8,12,13,14) queue_union.case memcpy_to_slot [OF d(2,7) x] Option.bind.simps Let_def
      wrap_backward [OF d(1,2)] f w ..
  have "(r + 1 + n) mod L = (ring_prev L r + 1 + Suc n) mod L" unfolding ring_prev_mod [OF d(2)] by simp
  moreover have "length ?s = L * k" using mult_step_le [OF d(2), of k] d(7) x by simp
  ultimately have ok: "ring_ok k L (ring_prev L r) (Suc n) ?Q"
    using r n ring_prev_less [OF d(2)] unfolding ring_ok_def by simp
  have "contents ?Q = x # contents Q"
    unfolding ring_ok_contents [OF ok] ring_ok_contents [OF r] using ring_push_front [OF d(2) n d(7) x] by simp
  then show ?thesis using run ok by (auto simp: same_shape_def)
qed

lemma copy_from_ring:
  assumes r: "ring_ok k L r n Q" and n: "0 < n"
  shows "\<exists>Q'. prvCopyDataFromQueue Q = Some (hd (contents Q), Q') \<and>
    ring_ok k L (ring_next L r) (n - 1) (Q'\<lparr>uxMessagesWaiting := uxMessagesWaiting Q - 1\<rparr>) \<and>
    contents (Q'\<lparr>uxMessagesWaiting := uxMessagesWaiting Q - 1\<rparr>) = tl (contents Q) \<and>
    Q' = Q\<lparr>q_union := q_union Q'\<rparr>"
proof -
  note d = ring_ok_D [OF r]
  have le: "n - 1 \<le> L" using d(3) by linarith
  have w: "w32 n - 1 = w32 (n - 1)" using n w32_diff [of 1 n] by (simp add: w32_def)
  have nxt: "(if int (r * k) + int k \<ge> int (L * k) then 0 else int (r * k) + int k) = int (ring_next L r * k)"
    unfolding wrap_forward [OF d(1,2)] ring_next_mod [OF d(2)] ..
  have j: "ring_next L r < L" using d(2) by (auto simp: ring_next_def)
  let ?Q = "Q\<lparr>q_union := QueuePointers (int (L * k)) (int (ring_next L r * k))\<rparr>"
  have "(r + 1 + n) mod L = (ring_next L r + 1 + (n - 1)) mod L"
    unfolding ring_next_mod [OF d(2)] using n mod_add_left_eq [of "r + 1" L n] by simp
  then have ok: "ring_ok k L (ring_next L r) (n - 1) (?Q\<lparr>uxMessagesWaiting := uxMessagesWaiting Q - 1\<rparr>)"
    using r j le unfolding ring_ok_def d(12) w by simp
  have pop: "contents Q = slot k (ring_next L r) (storage Q) # ring_list k L (ring_next L r) (n - 1) (storage Q)"
    unfolding ring_ok_contents [OF r] by (rule ring_pop [OF d(2) n])
  have nz: "uxItemSize Q \<noteq> 0" using d(1,8) by auto
  have "prvCopyDataFromQueue Q = Some (slot k (ring_next L r) (storage Q), ?Q)"
    unfolding prvCopyDataFromQueue_def d(8,13) queue_union.case Let_def nxt memcpy_from_slot [OF j d(7)] Option.bind.simps
    using nz by simp
  then show ?thesis using ok ring_ok_contents [OF ok] pop by simp
qed

subsection \<open>The copies on any queue\<close>

text \<open>What a send does to the list of items.\<close>

definition enqueue :: "queue_position \<Rightarrow> 'a \<Rightarrow> 'a list \<Rightarrow> 'a list" where
  "enqueue pos x xs = (case pos of queueSEND_TO_BACK \<Rightarrow> xs @ [x] | queueSEND_TO_FRONT \<Rightarrow> x # xs
     | queueOVERWRITE \<Rightarrow> [x])"

lemma copy_overwrite_ring:
  assumes r: "ring_ok k 1 r n Q" and x: "length x = k"
  shows "\<exists>Q'. copy_to_front True x Q = Some Q' \<and> queue_ok Q' \<and> contents Q' = [x] \<and> same_shape Q Q'"
proof -
  note d = ring_ok_D [OF r]
  have r0: "r = 0" and n: "n = 0 \<or> n = 1" using d(2,3) by auto
  let ?s = "take (0 * k) (storage Q) @ x @ drop (0 * k + k) (storage Q)"
  let ?Q = "Q\<lparr>storage := ?s, q_union := QueuePointers (int (1 * k)) (int (ring_prev 1 0 * k)), uxMessagesWaiting := w32 (Suc 0)\<rparr>"
  have w: "(if True \<and> w32 n > 0 then w32 n - 1 else w32 n) + 1 = w32 (Suc 0)"
    using n by (auto simp: w32_def)
  have run: "copy_to_front True x Q = Some ?Q"
    unfolding copy_to_front_def d(8,12,13,14) queue_union.case r0
      memcpy_to_slot [OF d(2,7) x, unfolded r0] Option.bind.simps Let_def wrap_backward [OF d(1,2), unfolded r0] w ..
  have l: "length ?s = 1 * k" using d(7) x by simp
  have ok: "ring_ok k 1 0 (Suc 0) ?Q" using r d(7) x unfolding ring_ok_def by (simp add: ring_prev_def)
  have "contents ?Q = [x]" unfolding ring_ok_contents [OF ok] using d(7) x by (simp add: ring_list_def slot_def)
  then show ?thesis using run ring_ok_queue [OF ok] by (auto simp: same_shape_def)
qed

lemma replicate_snoc: "replicate n x @ [x] = x # replicate n x"
  by (metis replicate_Suc replicate_append_same)

lemma copy_to_semaphore:
  assumes "queue_ok Q" and "uxItemSize Q = 0" and "qn Q < qlen Q"
  shows "queue_ok (Q\<lparr>uxMessagesWaiting := uxMessagesWaiting Q + 1\<rparr>)"
    "contents (Q\<lparr>uxMessagesWaiting := uxMessagesWaiting Q + 1\<rparr>) = contents Q @ [[]]"
    "contents (Q\<lparr>uxMessagesWaiting := uxMessagesWaiting Q + 1\<rparr>) = [] # contents Q"
proof -
  have n: "unat (uxMessagesWaiting Q + 1) = Suc (qn Q)"
    using assms(3) unat_u32_less [of "uxLength Q"] by (simp add: unat_add_u32)
  show "queue_ok (Q\<lparr>uxMessagesWaiting := uxMessagesWaiting Q + 1\<rparr>)"
    using assms n unfolding queue_ok_def by simp
  show "contents (Q\<lparr>uxMessagesWaiting := uxMessagesWaiting Q + 1\<rparr>) = [] # contents Q"
    using assms(2) n by (simp add: contents_semaphore)
  then show "contents (Q\<lparr>uxMessagesWaiting := uxMessagesWaiting Q + 1\<rparr>) = contents Q @ [[]]"
    using assms(2) by (simp add: contents_semaphore replicate_snoc)
qed

text \<open>Sending an item: \<open>pos\<close> may be \<open>queueOVERWRITE\<close> only on a queue of one item.\<close>

lemma copy_in:
  assumes q: "queue_ok Q" and room: "qn Q < qlen Q \<and> pos \<noteq> queueOVERWRITE \<or> qlen Q = 1 \<and> pos = queueOVERWRITE \<and> uxItemSize Q \<noteq> 0"
    and x: "length x = qsz Q"
  shows "\<exists>Q'. prvCopyDataToQueue x pos Q k = Some (False, Q', k) \<and> queue_ok Q' \<and>
    contents Q' = enqueue pos x (contents Q) \<and> same_shape Q Q'"
proof (cases "uxItemSize Q = 0")
  case True
  then have "x = []" "pos \<noteq> queueOVERWRITE" "qn Q < qlen Q" using x room by auto
  then show ?thesis
    using True q copy_to_semaphore [OF q True]
    by (cases pos) (auto simp: prvCopyDataToQueue_def queue_ok_def enqueue_def same_shape_def)
next
  case False
  note r = queue_ok_ring [OF q False]
  show ?thesis
  proof (cases pos)
    case queueSEND_TO_BACK
    then show ?thesis using copy_to_back_ring [OF r _ x] room False ring_ok_queue
      by (auto simp: prvCopyDataToQueue_def enqueue_def)
  next
    case queueSEND_TO_FRONT
    then show ?thesis using copy_to_front_ring [OF r _ x] room False ring_ok_queue
      by (auto simp: prvCopyDataToQueue_def enqueue_def)
  next
    case queueOVERWRITE
    then have "qlen Q = 1" using room by auto
    then show ?thesis using copy_overwrite_ring [of "qsz Q" "read_pos Q" "qn Q" Q x] r x queueOVERWRITE False
      by (auto simp: prvCopyDataToQueue_def enqueue_def)
  qed
qed

lemma copy_out:
  assumes q: "queue_ok Q" and n: "0 < uxMessagesWaiting Q"
  shows "\<exists>Q'. prvCopyDataFromQueue Q = Some (hd (contents Q), Q') \<and> Q' = Q\<lparr>q_union := q_union Q'\<rparr> \<and>
    queue_ok (Q'\<lparr>uxMessagesWaiting := uxMessagesWaiting Q - 1\<rparr>) \<and>
    contents (Q'\<lparr>uxMessagesWaiting := uxMessagesWaiting Q - 1\<rparr>) = tl (contents Q)"
proof -
  have n0: "0 < qn Q" using n by (simp add: word_less_nat_alt)
  then have m: "unat (uxMessagesWaiting Q - 1) = qn Q - 1"
    using n by (simp add: unat_minus_one word_less_nat_alt unat_gt_0)
  show ?thesis
  proof (cases "uxItemSize Q = 0")
    case True
    obtain l where "qn Q = Suc l" using n0 by (cases "qn Q") auto
    then show ?thesis using True q m
      by (auto simp: prvCopyDataFromQueue_def contents_semaphore queue_ok_def)
  next
    case False
    then show ?thesis using copy_from_ring [OF queue_ok_ring [OF q False] n0] ring_ok_queue by blast
  qed
qed

end
