(* ===== verification/QueueWake.thy ===== *)
theory QueueWake
  imports QueueRing
begin

text \<open>
  The kernel side of a queue operation: the first waiter of an event list is woken, directly or
  through the list of pending tasks, and the rest of the kernel is left alone.
\<close>

subsection \<open>Waking the first waiter\<close>

definition first_woken :: "kitem list \<Rightarrow> ktask \<Rightarrow> ktask \<Rightarrow> bool" where
  "first_woken W k k' \<longleftrightarrow>
     (case W of
        [] \<Rightarrow> k' = k
      | i # _ \<Rightarrow>
          (if uxSchedulerSuspended k = 0 then wakes {item_task i} k (k'\<lparr>yields := yields k\<rparr>)
           else container i k' = Some PendingReady \<and> (\<forall>j. j \<noteq> i \<longrightarrow> container j k' = container j k)))"

lemma waits_ls: "ls st' = ls st \<Longrightarrow> waits E st' Q = waits E st Q"
  using waits_cong [of E st Q st'] waits_cong [of E st' Q st] by auto

lemma waits_yields [simp]:
  "waits E (st\<lparr>yields := y\<rparr>) Q = waits E st Q" "waits E (st\<lparr>xYieldPending := b\<rparr>) Q = waits E st Q"
  "waits E (taskYIELD_IF_USING_PREEMPTION st) Q = waits E st Q"
  by (rule waits_ls, simp add: taskYIELD_IF_USING_PREEMPTION_def)+

lemma wake_first_ok:
  assumes k: "kernel T E idle k" and s: "settled k" and e: "e \<in> E" and w: "waits E k W"
  shows "\<exists>b k'. wake_first (Event e) k = Some (b, k') \<and> kernel T E idle k' \<and> settled k' \<and>
    waits E k' (W(e := tl (W e))) \<and> first_woken (W e) k k' \<and> value_of k' = value_of k \<and>
    same_ctl (k\<lparr>xYieldPending := True\<rparr>) (k'\<lparr>xYieldPending := True\<rparr>) \<and>
    (listLIST_IS_EMPTY (Event e) (ls k) \<longleftrightarrow> W e = []) \<and>
    (b \<longleftrightarrow> (\<exists>cur. pxCurrentTCB k = Some cur \<and> W e \<noteq> [] \<and>
               uxPriority (tcb k (item_task (hd (W e)))) > uxPriority (tcb k cur)))"
proof -
  have l: "Event e \<in> kernel_lists E" using e by (simp add: kernel_lists_def)
  have emp: "listLIST_IS_EMPTY (Event e) (ls k) \<longleftrightarrow> W e = []"
    using list_empty [OF kernel_D(1) [OF k] l] kernel_waits_container [OF w e] by auto
  show ?thesis
  proof (cases "W e")
    case Nil
    then have "W(e := tl (W e)) = W" by (auto simp: fun_eq_iff)
    then show ?thesis using Nil emp k s w
      by (intro exI [of _ False] exI [of _ k]) (simp add: wake_first_def first_woken_def same_ctl_def)
  next
    case (Cons i js)
    obtain t b k' where r: "i = EventItem t" "xTaskRemoveFromEventList (Event e) k = Some (b, k')"
      "kernel T E idle k'" "waits E k' (W(e := js))" "value_of k' = value_of k"
      "uxSchedulerSuspended k = 0 \<longrightarrow> wakes {t} k k'"
      "uxSchedulerSuspended k \<noteq> 0 \<longrightarrow> container (EventItem t) k' = Some PendingReady \<and>
         (\<forall>j. j \<noteq> EventItem t \<longrightarrow> container j k' = container j k)"
      "same_ctl (k\<lparr>xYieldPending := True\<rparr>) (k'\<lparr>xYieldPending := True\<rparr>)"
      "\<exists>cur. pxCurrentTCB k = Some cur \<and> (b \<longleftrightarrow> uxPriority (tcb k t) > uxPriority (tcb k cur))"
      using remove_from_event_list [OF k e w Cons] by blast
    have y: "k'\<lparr>yields := yields k\<rparr> = k'" using r(8) by (simp add: same_ctl_def)
    have "first_woken (W e) k k'" using r(1,6,7) y by (simp add: first_woken_def Cons)
    moreover have "settled k'"
      using wake_ok [OF k s e] emp Cons r(2) by auto
    ultimately show ?thesis using r emp Cons
      by (intro exI [of _ b] exI [of _ k']) (auto simp: wake_first_def)
  qed
qed

lemma settled_yield [simp]: "settled (taskYIELD_IF_USING_PREEMPTION st) = settled st" "settled (st\<lparr>xYieldPending := b\<rparr>) = settled st"
  by (simp_all add: settled_def pending_def taskYIELD_IF_USING_PREEMPTION_def)

lemma kernel_yield_if [simp]:
  "kernel T E idle (yield_if b k) = kernel T E idle k" "settled (yield_if b k) = settled k"
  "waits E (yield_if b k) W = waits E k W" "container j (yield_if b k) = container j k"
  "value_of (yield_if b k) = value_of k" "tcb (yield_if b k) = tcb k" "pxCurrentTCB (yield_if b k) = pxCurrentTCB k"
  "uxSchedulerSuspended (yield_if b k) = uxSchedulerSuspended k" "xTickCount (yield_if b k) = xTickCount k"
  by (simp_all add: yield_if_def) (simp_all add: taskYIELD_IF_USING_PREEMPTION_def)

lemma first_woken_yield:
  assumes "first_woken W k k'" and "b \<longrightarrow> W \<noteq> []"
  shows "first_woken W k (yield_if b k')"
  using assms by (cases W) (auto simp: first_woken_def yield_if_def taskYIELD_IF_USING_PREEMPTION_def)

subsection \<open>The state of all queues\<close>

text \<open>What the operations on a queue assume and keep: the kernel invariant, a settled scheduler, and the
  waiting lists \<open>W\<close>, two for each queue in use (\<open>D\<close>).\<close>

definition queues_ok :: "task set \<Rightarrow> nat set \<Rightarrow> task \<Rightarrow> nat set \<Rightarrow> (nat \<Rightarrow> kitem list) \<Rightarrow> qsys \<Rightarrow> bool" where
  "queues_ok T E idle D W st \<longleftrightarrow> kernel T E idle (ks st) \<and> settled (ks st) \<and> waits E (ks st) W \<and>
     (\<forall>q \<in> D. 3 * q \<in> E \<and> 3 * q + 1 \<in> E \<and> (is_mutex (qs st q) \<or> queue_ok (qs st q)))"

abbreviation senders :: "nat \<Rightarrow> nat" where "senders q \<equiv> 3 * q"
abbreviation receivers :: "nat \<Rightarrow> nat" where "receivers q \<equiv> 3 * q + 1"

lemma set_queue_simps [simp]:
  "ks (set_queue q Q k st) = k" "qs (set_queue q Q k st) q = Q" "p \<noteq> q \<Longrightarrow> qs (set_queue q Q k st) p = qs st p"
  "xQueueRegistry (set_queue q Q k st) = xQueueRegistry st"
  by (simp_all add: set_queue_def)

lemma queues_ok_D:
  assumes "queues_ok T E idle D W st"
  shows "kernel T E idle (ks st)" "settled (ks st)" "waits E (ks st) W"
    "q \<in> D \<Longrightarrow> senders q \<in> E" "q \<in> D \<Longrightarrow> receivers q \<in> E"
    "q \<in> D \<Longrightarrow> \<not> is_mutex (qs st q) \<Longrightarrow> queue_ok (qs st q)"
  using assms by (auto simp: queues_ok_def)

lemma queues_ok_set:
  assumes "queues_ok T E idle D W st" and "kernel T E idle k" and "settled k" and "waits E k W'"
    and "q \<in> D \<Longrightarrow> is_mutex Q \<or> queue_ok Q"
  shows "queues_ok T E idle D W' (set_queue q Q k st)"
  using assms by (auto simp: queues_ok_def set_queue_def)

lemma queue_ok_cong:
  assumes "queue_ok Q" and "storage Q' = storage Q" "is_mutex Q' = is_mutex Q" "pcWriteTo Q' = pcWriteTo Q"
    "q_union Q' = q_union Q" "uxMessagesWaiting Q' = uxMessagesWaiting Q" "uxLength Q' = uxLength Q" "uxItemSize Q' = uxItemSize Q"
  shows "queue_ok Q'" "contents Q' = contents Q"
proof -
  have r: "read_pos Q' = read_pos Q" unfolding read_pos_def assms ..
  show "queue_ok Q'" using assms(1) unfolding queue_ok_def r assms(2-8) .
  show "contents Q' = contents Q" unfolding contents_def r assms(2-8) ..
qed

end
