(* ===== verification/QueueProps.thy ===== *)
theory QueueProps
  imports QueueWake
begin

text \<open>
  The calls that do not block: sending to a queue with room and receiving from one with items, as
  operations on the list of items.
\<close>

subsection \<open>Sending\<close>

definition has_room :: "queue_position \<Rightarrow> xQUEUE \<Rightarrow> bool" where
  "has_room pos Q \<longleftrightarrow> qn Q < qlen Q \<and> pos \<noteq> queueOVERWRITE \<or> qlen Q = 1 \<and> pos = queueOVERWRITE \<and> uxItemSize Q \<noteq> 0"

lemma send_room:
  assumes s: "queues_ok T E idle D W st" and q: "q \<in> D" "\<not> is_mutex (qs st q)"
    and room: "has_room pos (qs st q)" and x: "length x = qsz (qs st q)"
  shows "\<exists>st'. xQueueGenericSend_enter q x n pos st = Some (Return True, st') \<and>
    queues_ok T E idle D (W(receivers q := tl (W (receivers q)))) st' \<and>
    contents (qs st' q) = enqueue pos x (contents (qs st q)) \<and> same_shape (qs st q) (qs st' q) \<and>
    (\<forall>p. p \<noteq> q \<longrightarrow> qs st' p = qs st p) \<and> first_woken (W (receivers q)) (ks st) (ks st')"
proof -
  note d = queues_ok_D [OF s]
  obtain Q' where Q': "prvCopyDataToQueue x pos (qs st q) (ks st) = Some (False, Q', ks st)" "queue_ok Q'"
    "contents Q' = enqueue pos x (contents (qs st q))" "same_shape (qs st q) Q'"
    using copy_in [OF d(6) [OF q] room [unfolded has_room_def] x] by blast
  obtain b k' where k': "wake_first (Event (receivers q)) (ks st) = Some (b, k')" "kernel T E idle k'" "settled k'"
    "waits E k' (W(receivers q := tl (W (receivers q))))" "first_woken (W (receivers q)) (ks st) k'"
    "listLIST_IS_EMPTY (Event (receivers q)) (ls (ks st)) \<longleftrightarrow> W (receivers q) = []"
    "b \<longleftrightarrow> (\<exists>cur. pxCurrentTCB (ks st) = Some cur \<and> W (receivers q) \<noteq> [] \<and>
       uxPriority (tcb (ks st) (item_task (hd (W (receivers q))))) > uxPriority (tcb (ks st) cur))"
    using wake_first_ok [OF d(1,2) d(5) [OF q(1)] d(3)] by blast
  let ?y = "if listLIST_IS_EMPTY (xTasksWaitingToReceive q) (ls (ks st)) then False else b"
  let ?st' = "set_queue q Q' (yield_if ?y k') st"
  have "uxMessagesWaiting (qs st q) < uxLength (qs st q) \<or> pos = queueOVERWRITE"
    using room by (auto simp: has_room_def word_less_nat_alt)
  then have "xQueueGenericSend_enter q x n pos st = Some (Return True, ?st')"
    using Q'(1) k'(1) by (simp add: xQueueGenericSend_enter_def xTasksWaitingToReceive_def Let_def)
  moreover have "queues_ok T E idle D (W(receivers q := tl (W (receivers q)))) ?st'"
    using queues_ok_set [OF s, of "yield_if ?y k'" _ q Q'] k'(2-4) Q'(2) by simp
  moreover have "first_woken (W (receivers q)) (ks st) (ks ?st')"
    using first_woken_yield [OF k'(5), of ?y] k'(6) by (simp add: xTasksWaitingToReceive_def)
  ultimately show ?thesis using Q'(3,4) by (intro exI [of _ ?st']) simp
qed

lemma send_full:
  assumes "\<not> uxMessagesWaiting (qs st q) < uxLength (qs st q)" and "pos \<noteq> queueOVERWRITE"
  shows "xQueueGenericSend_enter q x n pos st = Some (if n = 0 then Return False else Loop, st)"
  using assms by (simp add: xQueueGenericSend_enter_def)

lemma send_returns:
  assumes "xQueueGenericSend_enter q x n pos st = Some (Return b, st')"
  shows "xQueueGenericSend world q x n pos st = Some (b, st')"
  using assms by (simp add: xQueueGenericSend_def send_loop.simps)

subsection \<open>Receiving\<close>

lemma receive_item:
  assumes s: "queues_ok T E idle D W st" and q: "q \<in> D" "\<not> is_mutex (qs st q)"
    and ne: "contents (qs st q) = x # xs"
  shows "\<exists>st'. xQueueReceive_enter q n st = Some (Return (Some x), st') \<and>
    queues_ok T E idle D (W(senders q := tl (W (senders q)))) st' \<and>
    contents (qs st' q) = xs \<and> same_shape (qs st q) (qs st' q) \<and>
    (\<forall>p. p \<noteq> q \<longrightarrow> qs st' p = qs st p) \<and> first_woken (W (senders q)) (ks st) (ks st')"
proof -
  note d = queues_ok_D [OF s]
  have n: "0 < uxMessagesWaiting (qs st q)"
    using length_contents [of "qs st q"] ne by (simp add: word_less_nat_alt)
  obtain Q' where Q': "prvCopyDataFromQueue (qs st q) = Some (x, Q')" "Q' = (qs st q)\<lparr>q_union := q_union Q'\<rparr>"
    "queue_ok (Q'\<lparr>uxMessagesWaiting := uxMessagesWaiting (qs st q) - 1\<rparr>)"
    "contents (Q'\<lparr>uxMessagesWaiting := uxMessagesWaiting (qs st q) - 1\<rparr>) = xs"
    using copy_out [OF d(6) [OF q] n] ne by auto
  obtain b k' where k': "wake_first (Event (senders q)) (ks st) = Some (b, k')" "kernel T E idle k'" "settled k'"
    "waits E k' (W(senders q := tl (W (senders q))))" "first_woken (W (senders q)) (ks st) k'"
    "listLIST_IS_EMPTY (Event (senders q)) (ls (ks st)) \<longleftrightarrow> W (senders q) = []"
    "b \<longleftrightarrow> (\<exists>cur. pxCurrentTCB (ks st) = Some cur \<and> W (senders q) \<noteq> [] \<and>
       uxPriority (tcb (ks st) (item_task (hd (W (senders q))))) > uxPriority (tcb (ks st) cur))"
    using wake_first_ok [OF d(1,2) d(4) [OF q(1)] d(3)] by blast
  have b: "b \<longrightarrow> W (senders q) \<noteq> []" using k'(7) by blast
  let ?Q = "Q'\<lparr>uxMessagesWaiting := uxMessagesWaiting (qs st q) - 1\<rparr>"
  let ?st' = "set_queue q ?Q (yield_if b k') st"
  have "xQueueReceive_enter q n st = Some (Return (Some x), ?st')"
    using Q'(1) k'(1) n by (simp add: xQueueReceive_enter_def xTasksWaitingToSend_def Let_def)
  moreover have "queues_ok T E idle D (W(senders q := tl (W (senders q)))) ?st'"
    using queues_ok_set [OF s, of "yield_if b k'" _ q ?Q] k'(2-4) Q'(3) by simp
  moreover have "first_woken (W (senders q)) (ks st) (ks ?st')"
    using first_woken_yield [OF k'(5), of b] b by simp
  moreover have "same_shape (qs st q) ?Q" by (subst Q'(2)) (simp add: same_shape_def)
  ultimately show ?thesis using Q'(4) by (intro exI [of _ ?st']) simp
qed

lemma receive_returns:
  assumes "xQueueReceive_enter q n st = Some (Return b, st')"
  shows "xQueueReceive world q n st = Some (b, st')"
  using assms by (simp add: xQueueReceive_def receive_loop.simps)

lemma receive_empty:
  assumes "uxMessagesWaiting (qs st q) = 0"
  shows "xQueueReceive_enter q n st = Some (if n = 0 then Return None else Loop, st)"
    "xQueuePeek_enter q n st = Some (if n = 0 then Return None else Loop, st)"
  using assms by (simp_all add: xQueueReceive_enter_def xQueuePeek_enter_def)

subsection \<open>The contract of a bounded queue\<close>

text \<open>Requests to a queue and its answers; \<open>fifo_run\<close> is the reference: a list of at most \<open>cap\<close>
  items.\<close>

datatype 'a qop = Put 'a | Get
datatype 'a qanswer = Sent bool | Got "'a option"

fun fifo_run :: "nat \<Rightarrow> 'a qop list \<Rightarrow> 'a list \<Rightarrow> 'a qanswer list \<times> 'a list" where
  "fifo_run cap [] xs = ([], xs)"
| "fifo_run cap (Put x # ops) xs =
     (if length xs < cap then (let (as, ys) = fifo_run cap ops (xs @ [x]) in (Sent True # as, ys))
      else (let (as, ys) = fifo_run cap ops xs in (Sent False # as, ys)))"
| "fifo_run cap (Get # ops) xs =
     (case xs of
        [] \<Rightarrow> (let (as, ys) = fifo_run cap ops [] in (Got None # as, ys))
      | x # xs' \<Rightarrow> (let (as, ys) = fifo_run cap ops xs' in (Got (Some x) # as, ys)))"

text \<open>The same requests to an implementation.\<close>

fun impl_run :: "('a \<Rightarrow> 's \<Rightarrow> (bool \<times> 's) option) \<Rightarrow> ('s \<Rightarrow> ('a option \<times> 's) option) \<Rightarrow>
    'a qop list \<Rightarrow> 's \<Rightarrow> ('a qanswer list \<times> 's) option" where
  "impl_run put get [] s = Some ([], s)"
| "impl_run put get (Put x # ops) s =
     do { (b, s1) \<leftarrow> put x s; (as, s2) \<leftarrow> impl_run put get ops s1; Some (Sent b # as, s2) }"
| "impl_run put get (Get # ops) s =
     do { (r, s1) \<leftarrow> get s; (as, s2) \<leftarrow> impl_run put get ops s1; Some (Got r # as, s2) }"

text \<open>What was received, with what is still there, is what was there with what was accepted, in order.\<close>

fun accepted :: "'a qop list \<Rightarrow> 'a qanswer list \<Rightarrow> 'a list" where
  "accepted (Put x # ops) (Sent True # as) = x # accepted ops as"
| "accepted (_ # ops) (_ # as) = accepted ops as"
| "accepted _ _ = []"

fun received :: "'a qanswer list \<Rightarrow> 'a list" where
  "received (Got (Some x) # as) = x # received as"
| "received (_ # as) = received as"
| "received [] = []"

lemma fifo_run_order: "fifo_run cap ops xs = (as, ys) \<Longrightarrow> received as @ ys = xs @ accepted ops as"
proof (induction cap ops xs arbitrary: as ys rule: fifo_run.induct)
  case (2 cap x ops xs)
  then show ?case by (fastforce simp: Let_def split: prod.splits if_splits)
next
  case (3 cap ops xs)
  then show ?case by (fastforce simp: Let_def split: prod.splits list.splits)
qed simp

lemma fifo_run_bound: "fifo_run cap ops xs = (as, ys) \<Longrightarrow> length xs \<le> cap \<Longrightarrow> length ys \<le> cap"
proof (induction cap ops xs arbitrary: as ys rule: fifo_run.induct)
  case (2 cap x ops xs)
  then show ?case by (fastforce simp: Let_def split: prod.splits if_splits)
next
  case (3 cap ops xs)
  then show ?case by (fastforce simp: Let_def split: prod.splits list.splits)
qed simp

locale bounded_queue =
  fixes put :: "'a \<Rightarrow> 's \<Rightarrow> (bool \<times> 's) option"
    and get :: "'s \<Rightarrow> ('a option \<times> 's) option"
    and items :: "'s \<Rightarrow> 'a list"
    and inv :: "'s \<Rightarrow> bool"
    and item_ok :: "'s \<Rightarrow> 'a \<Rightarrow> bool"
    and capacity :: "'s \<Rightarrow> nat"
  assumes put_room: "inv s \<Longrightarrow> item_ok s x \<Longrightarrow> length (items s) < capacity s \<Longrightarrow>
      \<exists>s'. put x s = Some (True, s') \<and> inv s' \<and> items s' = items s @ [x] \<and>
        item_ok s' = item_ok s \<and> capacity s' = capacity s"
    and put_full: "inv s \<Longrightarrow> \<not> length (items s) < capacity s \<Longrightarrow> put x s = Some (False, s)"
    and get_item: "inv s \<Longrightarrow> items s = x # xs \<Longrightarrow>
      \<exists>s'. get s = Some (Some x, s') \<and> inv s' \<and> items s' = xs \<and> item_ok s' = item_ok s \<and> capacity s' = capacity s"
    and get_empty: "inv s \<Longrightarrow> items s = [] \<Longrightarrow> get s = Some (None, s)"
begin

lemma run_refines:
  assumes "inv s" and "\<forall>x. Put x \<in> set ops \<longrightarrow> item_ok s x" and "fifo_run (capacity s) ops (items s) = (as, ys)"
  shows "\<exists>s'. impl_run put get ops s = Some (as, s') \<and> inv s' \<and> items s' = ys \<and> capacity s' = capacity s"
  using assms
proof (induction ops arbitrary: s as ys)
  case (Cons op ops)
  show ?case
  proof (cases op)
    case (Put x)
    show ?thesis
    proof (cases "length (items s) < capacity s")
      case True
      obtain s1 where s1: "put x s = Some (True, s1)" "inv s1" "items s1 = items s @ [x]"
        "item_ok s1 = item_ok s" "capacity s1 = capacity s"
        using put_room [OF Cons.prems(1) _ True, of x] Cons.prems(2) Put by auto
      obtain bs where "fifo_run (capacity s1) ops (items s1) = (bs, ys)" "as = Sent True # bs"
        using Cons.prems(3) Put True s1 by (auto split: prod.splits)
      then show ?thesis using Cons.IH [OF s1(2), of bs ys] s1 Cons.prems(2) Put by auto
    next
      case False
      obtain bs where "fifo_run (capacity s) ops (items s) = (bs, ys)" "as = Sent False # bs"
        using Cons.prems(3) Put False by (auto split: prod.splits)
      then show ?thesis using Cons.IH [OF Cons.prems(1), of bs ys] put_full [OF Cons.prems(1) False] Cons.prems(2) Put by auto
    qed
  next
    case Get
    show ?thesis
    proof (cases "items s")
      case Nil
      obtain bs where "fifo_run (capacity s) ops (items s) = (bs, ys)" "as = Got None # bs"
        using Cons.prems(3) Get Nil by (auto split: prod.splits)
      then show ?thesis using Cons.IH [OF Cons.prems(1), of bs ys] get_empty [OF Cons.prems(1) Nil] Cons.prems(2) Get by auto
    next
      case (Cons x xs)
      obtain s1 where s1: "get s = Some (Some x, s1)" "inv s1" "items s1 = xs" "item_ok s1 = item_ok s" "capacity s1 = capacity s"
        using get_item [OF Cons.prems(1) Cons] by auto
      obtain bs where "fifo_run (capacity s1) ops (items s1) = (bs, ys)" "as = Got (Some x) # bs"
        using Cons.prems(3) Get Cons s1 by (auto split: prod.splits)
      then show ?thesis using Cons.IH [OF s1(2), of bs ys] s1 Cons.prems(2) Get by auto
    qed
  qed
qed simp

end

subsection \<open>The queue keeps the contract\<close>

definition fifo_ok :: "task set \<Rightarrow> nat set \<Rightarrow> task \<Rightarrow> nat set \<Rightarrow> nat \<Rightarrow> qsys \<Rightarrow> bool" where
  "fifo_ok T E idle D q st \<longleftrightarrow> (\<exists>W. queues_ok T E idle D W st) \<and> q \<in> D \<and> \<not> is_mutex (qs st q)"

lemma fifo_ok_I: "queues_ok T E idle D W st \<Longrightarrow> q \<in> D \<Longrightarrow> \<not> is_mutex (qs st q) \<Longrightarrow> fifo_ok T E idle D q st"
  by (auto simp: fifo_ok_def)

interpretation kq: bounded_queue
  "\<lambda>x. xQueueGenericSend world q x 0 queueSEND_TO_BACK" "xQueueReceive world q 0"
  "\<lambda>st. contents (qs st q)" "fifo_ok T E idle D q" "\<lambda>st x. length x = qsz (qs st q)" "\<lambda>st. qlen (qs st q)"
  for world T E idle D q
proof
  fix st :: qsys and x :: "u8 list"
  assume a: "fifo_ok T E idle D q st" "length x = qsz (qs st q)" "length (contents (qs st q)) < qlen (qs st q)"
  then obtain W where W: "queues_ok T E idle D W st" "q \<in> D" "\<not> is_mutex (qs st q)" by (auto simp: fifo_ok_def)
  have r: "has_room queueSEND_TO_BACK (qs st q)" using a(3) by (simp add: has_room_def)
  from send_room [OF W r a(2), of 0] send_returns W(2,3) fifo_ok_I
  show "\<exists>s'. xQueueGenericSend world q x 0 queueSEND_TO_BACK st = Some (True, s') \<and> fifo_ok T E idle D q s' \<and>
      contents (qs s' q) = contents (qs st q) @ [x] \<and>
      (\<lambda>x. length x = qsz (qs s' q)) = (\<lambda>x. length x = qsz (qs st q)) \<and> qlen (qs s' q) = qlen (qs st q)"
    by (fastforce simp: same_shape_def enqueue_def)
next
  fix st :: qsys and x :: "u8 list"
  assume "\<not> length (contents (qs st q)) < qlen (qs st q)"
  then show "xQueueGenericSend world q x 0 queueSEND_TO_BACK st = Some (False, st)"
    using send_full [of st q queueSEND_TO_BACK x 0] by (intro send_returns) (simp add: word_less_nat_alt)
next
  fix st :: qsys and x :: "u8 list" and xs
  assume a: "fifo_ok T E idle D q st" "contents (qs st q) = x # xs"
  then obtain W where W: "queues_ok T E idle D W st" "q \<in> D" "\<not> is_mutex (qs st q)" by (auto simp: fifo_ok_def)
  from receive_item [OF W a(2), of 0] receive_returns W(2,3) fifo_ok_I
  show "\<exists>s'. xQueueReceive world q 0 st = Some (Some x, s') \<and> fifo_ok T E idle D q s' \<and> contents (qs s' q) = xs \<and>
      (\<lambda>x. length x = qsz (qs s' q)) = (\<lambda>x. length x = qsz (qs st q)) \<and> qlen (qs s' q) = qlen (qs st q)"
    by (fastforce simp: same_shape_def)
next
  fix st :: qsys
  assume "contents (qs st q) = []"
  then have "qn (qs st q) = 0" using length_contents [of "qs st q"] by simp
  then have "uxMessagesWaiting (qs st q) = 0" by (simp add: unat_eq_0)
  then show "xQueueReceive world q 0 st = Some (None, st)"
    using receive_empty(1) [of st q 0] by (intro receive_returns) simp
qed

end
