(* ===== verification/QueueStart.thy ===== *)
theory QueueStart
  imports QueueProps
begin

text \<open>
  Creating queues: which sizes are refused, and that a new queue is empty and well formed.  The
  witness state of the queue properties is built with it.
\<close>

lemma kernel_new_event:
  assumes "kernel T E idle k" and "settled k" and "waits E k W" and "e \<notin> E"
  defines "k' \<equiv> on_lists (vListInitialise (Event e)) k"
  shows "kernel T (insert e E) idle k'" "settled k'" "waits (insert e E) k' (W(e := []))"
    "k' = k\<lparr>ls := ls k'\<rparr>"
proof -
  show f: "k' = k\<lparr>ls := ls k'\<rparr>" by (simp add: k'_def on_lists_def)
  note s = sched_new_event_list [OF kernel_D(1) [OF assms(1)] assms(4), folded k'_def]
  have c: "uxSchedulerSuspended k' = uxSchedulerSuspended k" "xPendedTicks k' = xPendedTicks k"
    "pxCurrentTCB k' = pxCurrentTCB k" "tcb k' = tcb k" "uxCurrentNumberOfTasks k' = uxCurrentNumberOfTasks k"
    "xTickCount k' = xTickCount k"
    by (simp_all add: k'_def on_lists_def)
  show "kernel T (insert e E) idle k'" using assms(1) s(1) unfolding kernel_def s(2) c by simp
  show "settled k'" using assms(2) unfolding settled_def pending_def s(2) c .
  obtain A where A: "lists_ok E k A" "\<forall>e \<in> E. W e = fst (A (Event e))" using assms(3) by (auto simp: waits_def)
  have "\<forall>x \<in> insert e E. (W(e := [])) x = fst ((A(Event e := ([], 0))) (Event x))" using A(2) assms(4) by auto
  then show "waits (insert e E) k' (W(e := []))"
    using lists_ok_new_event [OF A(1) assms(4)] unfolding waits_def k'_def by blast
qed

lemma waits_fun_cong: "waits E k W \<Longrightarrow> (\<forall>e \<in> E. W e = W' e) \<Longrightarrow> waits E k W'"
  by (auto simp: waits_def)

text \<open>The size tests of \<^verbatim>\<open>xQueueGenericCreate\<close> say that the block size does not overflow.\<close>

lemma size_ok_iff:
  assumes "0 < (L :: u32)"
  shows "z \<le> SIZE_MAX div L \<longleftrightarrow> unat L * unat z < 2 ^ 32"
proof -
  have m: "unat SIZE_MAX = 2 ^ 32 - 1" by (simp add: SIZE_MAX_def)
  have "0 < unat L" using assms by (simp add: unat_gt_0)
  then have "unat z \<le> (2 ^ 32 - 1) div unat L \<longleftrightarrow> unat z * unat L \<le> 2 ^ 32 - 1"
    by (simp add: less_eq_div_iff_mult_less_eq)
  then show ?thesis unfolding word_le_nat_alt unat_div m by (simp add: mult.commute less_eq_Suc_le)
qed

lemma create_guard:
  "uxQueueLength > 0 \<and> SIZE_MAX div uxQueueLength \<ge> z \<and> SIZE_MAX - sizeof_Queue_t \<ge> uxQueueLength * z \<longleftrightarrow>
   0 < unat uxQueueLength \<and> unat uxQueueLength * unat z + 80 < 2 ^ 32"
proof (cases "uxQueueLength > 0 \<and> SIZE_MAX div uxQueueLength \<ge> z")
  case True
  then have l: "unat uxQueueLength * unat z < 2 ^ 32" using size_ok_iff by blast
  then have u: "unat (uxQueueLength * z) = unat uxQueueLength * unat z" by (simp add: unat_word_ariths)
  have "unat (SIZE_MAX - sizeof_Queue_t) = 2 ^ 32 - 81" by (simp add: SIZE_MAX_def sizeof_Queue_t_def)
  then show ?thesis using True l unfolding word_le_nat_alt u by (auto simp: unat_gt_0)
next
  case False
  then show ?thesis using size_ok_iff [of uxQueueLength z] by (auto simp: unat_gt_0 word_gt_0)
qed

lemma reset_new:
  assumes L: "0 < uxLength (qs st q)" and sz: "qlen (qs st q) * qsz (qs st q) < 2 ^ 32"
    and len: "length (storage (qs st q)) = qlen (qs st q) * qsz (qs st q)" and m: "\<not> is_mutex (qs st q)"
  shows "\<exists>st'. xQueueGenericReset q True st = Some (True, st') \<and>
    ks st' = on_lists (vListInitialise (Event (receivers q))) (on_lists (vListInitialise (Event (senders q))) (ks st)) \<and>
    queue_ok (qs st' q) \<and> contents (qs st' q) = [] \<and> uxLength (qs st' q) = uxLength (qs st q) \<and>
    uxItemSize (qs st' q) = uxItemSize (qs st q) \<and> (\<forall>p. p \<noteq> q \<longrightarrow> qs st' p = qs st p) \<and>
    cRxLock (qs st' q) = queueUNLOCKED \<and> cTxLock (qs st' q) = queueUNLOCKED"
proof -
  let ?Q = "qs st q"
  let ?L = "qlen ?Q" and ?k = "qsz ?Q"
  have L0: "0 < ?L" using L by (simp add: unat_gt_0)
  have "uxLength ?Q \<ge> 1 \<and> SIZE_MAX div uxLength ?Q \<ge> uxItemSize ?Q"
    using L sz size_ok_iff [OF L] by (simp add: word_le_nat_alt unat_gt_0 Suc_leI)
  moreover have "unat (uxLength ?Q * uxItemSize ?Q) = ?L * ?k" using sz by (simp add: unat_word_ariths)
  moreover have "unat ((uxLength ?Q - 1) * uxItemSize ?Q) = (?L - 1) * ?k"
  proof -
    have "(?L - 1) * ?k < 2 ^ 32" using sz mult_le_mono1 [of "?L - 1" ?L ?k] by linarith
    moreover have "unat (uxLength ?Q - 1) = ?L - 1" using L by (simp add: unat_minus_one word_gt_0)
    ultimately show ?thesis by (simp add: unat_word_ariths)
  qed
  moreover have "queue_ok (?Q\<lparr>q_union := QueuePointers (int (?L * ?k)) (int ((?L - 1) * ?k)),
      uxMessagesWaiting := 0, pcWriteTo := 0, cRxLock := queueUNLOCKED, cTxLock := queueUNLOCKED\<rparr>)" (is "queue_ok ?Q'")
  proof (cases "?k = 0")
    case True
    then show ?thesis using m L0 by (simp add: queue_ok_def)
  next
    case False
    have r: "?L - 1 + 1 + 0 = ?L" using L0 by simp
    have "ring_ok ?k ?L (?L - 1) 0 ?Q'"
      unfolding ring_ok_def w32_unat r using False L0 m len unat_u32_less [of "uxItemSize ?Q"] unat_u32_less [of "uxLength ?Q"]
      by (simp del: of_nat_mult)
    then show ?thesis by (rule ring_ok_queue)
  qed
  moreover have "contents ?Q' = []" by (simp add: contents_def)
  ultimately show ?thesis
    by (simp add: xQueueGenericReset_def Let_def xTasksWaitingToSend_def xTasksWaitingToReceive_def del: of_nat_mult)
qed

lemma create_queue:
  assumes s: "queues_ok T E idle D W st" and new: "senders q \<notin> E" "receivers q \<notin> E"
    and malloc: "malloc (sizeof_Queue_t + len * sz) = Some block" "length block = unat (sizeof_Queue_t + len * sz)"
    and ok: "0 < unat len" "unat len * unat sz + 80 < 2 ^ 32"
  shows "\<exists>st'. xQueueGenericCreate malloc len sz type q st = Some (True, st') \<and>
    queues_ok T (insert (receivers q) (insert (senders q) E)) idle (insert q D) (W(senders q := [], receivers q := [])) st' \<and>
    \<not> is_mutex (qs st' q) \<and> contents (qs st' q) = [] \<and> uxLength (qs st' q) = len \<and> uxItemSize (qs st' q) = sz \<and>
    ucQueueType (qs st' q) = type \<and> (\<forall>p. p \<noteq> q \<longrightarrow> qs st' p = qs st p) \<and>
    cRxLock (qs st' q) = queueUNLOCKED \<and> cTxLock (qs st' q) = queueUNLOCKED \<and>
    ks st' = on_lists (vListInitialise (Event (receivers q))) (on_lists (vListInitialise (Event (senders q))) (ks st))"
proof -
  note d = queues_ok_D [OF s]
  have prod: "unat (len * sz) = unat len * unat sz" using ok(2) by (simp add: unat_word_ariths)
  have "unat (sizeof_Queue_t + len * sz) = 80 + unat len * unat sz"
    using ok(2) by (simp add: unat_add_u32 prod sizeof_Queue_t_def)
  then have len: "length (drop (unat sizeof_Queue_t) block) = unat len * unat sz"
    using malloc(2) by (simp add: sizeof_Queue_t_def)
  define Q where "Q = (qs st q)\<lparr>storage := drop (unat sizeof_Queue_t) block, is_mutex := False, uxLength := len, uxItemSize := sz\<rparr>"
  obtain st1 where st1: "xQueueGenericReset q True (set_queue q Q (ks st) st) = Some (True, st1)"
    "ks st1 = on_lists (vListInitialise (Event (receivers q))) (on_lists (vListInitialise (Event (senders q))) (ks st))"
    "queue_ok (qs st1 q)" "contents (qs st1 q) = []" "uxLength (qs st1 q) = len" "uxItemSize (qs st1 q) = sz"
    "\<forall>p. p \<noteq> q \<longrightarrow> qs st1 p = qs st p" "cRxLock (qs st1 q) = queueUNLOCKED" "cTxLock (qs st1 q) = queueUNLOCKED"
    using reset_new [of "set_queue q Q (ks st) st" q] ok len
    by (auto simp: Q_def unat_gt_0 word_gt_0)
  define st' where "st' = set_queue q ((qs st1 q)\<lparr>ucQueueType := type\<rparr>) (ks st1) st1"
  have run: "xQueueGenericCreate malloc len sz type q st = Some (True, st')"
    using create_guard [of len sz] ok malloc(1) st1(1)
    by (simp add: xQueueGenericCreate_def prvInitialiseNewQueue_def st'_def Q_def)
  note c = queue_ok_cong [OF st1(3), where Q' = "(qs st1 q)\<lparr>ucQueueType := type\<rparr>", simplified]
  have nm: "\<not> is_mutex (qs st1 q)" using st1(3) by (simp add: queue_ok_def)
  note n1 = kernel_new_event [OF d(1,2,3) new(1)]
  have new2: "receivers q \<notin> insert (senders q) E" using new(2) by simp
  note n2 = kernel_new_event [OF n1(1-3) new2, folded st1(2)]
  have q0: "qs st' p = qs st p" if "p \<in> D" for p
  proof -
    have "p \<noteq> q" using that new(1) d(4) by auto
    then show ?thesis using st1(7) by (simp add: st'_def)
  qed
  have "is_mutex (qs st' p) \<or> queue_ok (qs st' p)" if "p \<in> insert q D" for p
  proof (cases "p = q")
    case True
    then show ?thesis using c(1) by (simp add: st'_def)
  next
    case False
    then show ?thesis using that d(6) [of p] q0 [of p] by auto
  qed
  then have "queues_ok T (insert (receivers q) (insert (senders q) E)) idle (insert q D) (W(senders q := [], receivers q := [])) st'"
    using n2(1-3) d(4,5) unfolding queues_ok_def by (auto simp: st'_def)
  then show ?thesis using run c(2) st1 nm by (intro exI [of _ st']) (simp add: st'_def)
qed

lemma create_refused:
  assumes "unat len = 0 \<or> 2 ^ 32 \<le> unat len * unat sz + 80 \<or> malloc (sizeof_Queue_t + len * sz) = None"
  shows "xQueueGenericCreate malloc len sz type q st = Some (False, st)"
proof (cases "0 < unat len \<and> unat len * unat sz + 80 < 2 ^ 32")
  case True
  then show ?thesis using create_guard [of len sz] assms by (simp add: xQueueGenericCreate_def)
next
  case False
  then have "\<not> (len > 0 \<and> SIZE_MAX div len \<ge> sz \<and> SIZE_MAX - sizeof_Queue_t \<ge> len * sz)"
    unfolding create_guard by blast
  then show ?thesis unfolding xQueueGenericCreate_def by (simp only: if_False)
qed

end
