(* ===== verification/QueueBlock.thy ===== *)
theory QueueBlock
  imports QueueStart
begin

text \<open>
  Blocking on a queue: the section in which a task tests the queue with the scheduler suspended and
  goes to sleep, and what happens when the time is up.
\<close>

subsection \<open>Unlocking an untouched queue\<close>

definition untouched :: "xQUEUE \<Rightarrow> bool" where
  "untouched Q \<longleftrightarrow> cRxLock Q \<in> {queueUNLOCKED, queueLOCKED_UNMODIFIED} \<and> cTxLock Q \<in> {queueUNLOCKED, queueLOCKED_UNMODIFIED}"

definition unlocked :: "xQUEUE \<Rightarrow> xQUEUE" where
  "unlocked Q = Q\<lparr>cTxLock := queueUNLOCKED, cRxLock := queueUNLOCKED\<rparr>"

lemma lock_values [simp]:
  "nat (sint queueUNLOCKED) = 0" "nat (sint queueLOCKED_UNMODIFIED) = 0" "queueUNLOCKED \<noteq> queueLOCKED_UNMODIFIED"
  by (simp_all add: queueUNLOCKED_def queueLOCKED_UNMODIFIED_def)

lemma unlock_untouched: "untouched Q \<Longrightarrow> prvUnlockQueue q Q k = Some (unlocked Q, k)"
  by (auto simp: prvUnlockQueue_def untouched_def unlocked_def Let_def)

lemma lock_untouched: "untouched Q \<Longrightarrow> untouched (prvLockQueue Q)" "unlocked (prvLockQueue Q) = unlocked Q"
  "uxMessagesWaiting (prvLockQueue Q) = uxMessagesWaiting Q" "uxLength (prvLockQueue Q) = uxLength Q"
  "is_mutex (prvLockQueue Q) = is_mutex Q" "q_union (prvLockQueue Q) = q_union Q"
  by (auto simp: untouched_def prvLockQueue_def unlocked_def Let_def)

lemma unlocked_fields [simp]:
  "uxMessagesWaiting (unlocked Q) = uxMessagesWaiting Q" "uxLength (unlocked Q) = uxLength Q"
  "is_mutex (unlocked Q) = is_mutex Q" "q_union (unlocked Q) = q_union Q" "untouched (unlocked Q)"
  "unlocked (unlocked Q) = unlocked Q"
  by (simp_all add: unlocked_def untouched_def)

lemma settled_quiet: "settled k \<Longrightarrow> uxSchedulerSuspended k = 0 \<Longrightarrow> xPendedTicks k = 0 \<and> pending k = {}"
  by (simp add: settled_def)

lemma lock_queue_simps [simp]:
  "ks (lock_queue q st) = ks st" "qs (lock_queue q st) q = prvLockQueue (qs st q)"
  "p \<noteq> q \<Longrightarrow> qs (lock_queue q st) p = qs st p" "xQueueRegistry (lock_queue q st) = xQueueRegistry st"
  by (simp_all add: lock_queue_def)

lemma qsys_eqI:
  "ks (s :: qsys) = ks s' \<Longrightarrow> (\<And>p. qs s p = qs s' p) \<Longrightarrow> xQueueRegistry s = xQueueRegistry s' \<Longrightarrow> s = s'"
  by (cases s; cases s') (auto simp: fun_eq_iff)

lemma unlock_and_resume_quiet:
  assumes k: "kernel T E idle (ks st)" and one: "uxSchedulerSuspended (ks st) = 1"
    and quiet: "xPendedTicks (ks st) = 0" "pending (ks st) = {}" and u: "untouched (qs st q)"
  shows "\<exists>y k'. unlock_and_resume q st = Some (y, set_queue q (unlocked (qs st q)) k' st) \<and> kernel T E idle k' \<and>
    (\<forall>t. time_left (ks st) t = None \<longrightarrow> container (StateItem t) k' = container (StateItem t) (ks st)) \<and>
    (\<forall>t. container (EventItem t) k' = container (EventItem t) (ks st)) \<and>
    tcb k' = tcb (ks st) \<and> time_left k' = time_left (ks st) \<and> clock k' = clock (ks st) \<and>
    pxCurrentTCB k' = pxCurrentTCB (ks st) \<and> uxSchedulerSuspended k' = 0 \<and> settled k'"
proof -
  obtain y k' where r: "xTaskResumeAll (ks st) = Some (y, k')" "kernel T E idle k'"
    "\<forall>t. time_left (ks st) t = None \<longrightarrow> container (StateItem t) k' = container (StateItem t) (ks st)"
    "\<forall>t. container (EventItem t) k' = container (EventItem t) (ks st)"
    "tcb k' = tcb (ks st)" "time_left k' = time_left (ks st)" "clock k' = clock (ks st)"
    "pxCurrentTCB k' = pxCurrentTCB (ks st)" "uxSchedulerSuspended k' = 0" "xPendedTicks k' = 0"
    using resume_all_quiet [OF k one quiet] by blast
  have "settled k'" using r(4,10) quiet(2) by (simp add: settled_def pending_def)
  then show ?thesis using r unlock_untouched [OF u]
    by (intro exI [of _ y] exI [of _ k']) (simp add: unlock_and_resume_def)
qed

lemma check_suspended [simp]: "xTaskCheckForTimeOut t n (vTaskSuspendAll k) = xTaskCheckForTimeOut t n k"
  by (simp add: xTaskCheckForTimeOut_def vTaskSuspendAll_def vTaskInternalSetTimeOutState_def Let_def)

lemma suspend_all_fields [simp]:
  "tcb (vTaskSuspendAll k) = tcb k" "pxCurrentTCB (vTaskSuspendAll k) = pxCurrentTCB k"
  "xPendedTicks (vTaskSuspendAll k) = xPendedTicks k" "uxSchedulerSuspended (vTaskSuspendAll k) = uxSchedulerSuspended k + 1"
  "uxCurrentNumberOfTasks (vTaskSuspendAll k) = uxCurrentNumberOfTasks k"
  by (simp_all add: vTaskSuspendAll_def)

lemma waits_suspend_all [simp]: "waits E (vTaskSuspendAll k) W = waits E k W"
  by (rule waits_ls) (simp add: vTaskSuspendAll_def)

subsection \<open>Going to sleep\<close>

lemma block_on_quiet:
  assumes k: "kernel T E idle (ks st)" and one: "uxSchedulerSuspended (ks st) = 1"
    and quiet: "xPendedTicks (ks st) = 0" "pending (ks st) = {}" and u: "untouched (qs st q)"
    and cur: "pxCurrentTCB (ks st) = Some cur" "cur \<noteq> idle" and e: "e \<in> E"
    and free: "container (EventItem cur) (ks st) = None" and n: "0 < n" "n \<noteq> portMAX_DELAY"
    and w: "world 2 = Some" "world 3 = Some"
  shows "\<exists>k'. block_on world (Event e) q n st = Some (set_queue q (unlocked (qs st q)) k' st) \<and> kernel T E idle k' \<and>
    settled k' \<and> uxSchedulerSuspended k' = 0 \<and> pxCurrentTCB k' = Some cur \<and> tcb k' = tcb (ks st) \<and>
    clock k' = clock (ks st) \<and> time_left k' cur = Some (unat n) \<and> container (EventItem cur) k' = Some (Event e) \<and>
    (\<forall>t. t \<noteq> cur \<longrightarrow> time_left k' t = time_left (ks st) t \<and> container (EventItem t) k' = container (EventItem t) (ks st) \<and>
      (time_left (ks st) t = None \<longrightarrow> container (StateItem t) k' = container (StateItem t) (ks st)))"
proof -
  obtain W where W: "waits E (ks st) W" using sched_waits [OF kernel_D(1) [OF k]] by blast
  obtain k1 where p: "vTaskPlaceOnEventList (Event e) n (ks st) = Some k1" "kernel T E idle k1" "same_ctl (ks st) k1"
    "container (EventItem cur) k1 = Some (Event e)" "\<forall>j. item_task j \<noteq> cur \<longrightarrow> container j k1 = container j (ks st)"
    "n \<noteq> portMAX_DELAY \<longrightarrow> time_left k1 cur = Some (unat n)"
    "\<forall>t. t \<noteq> cur \<longrightarrow> time_left k1 t = time_left (ks st) t" "clock k1 = clock (ks st)"
    using place_on_event_list [OF k cur e free n(1) W] by blast
  note f = same_ctl_D [OF p(3)]
  let ?s = "st\<lparr>ks := k1\<rparr>"
  have pend: "pending k1 = {}"
  proof -
    have "container (EventItem t) k1 \<noteq> Some PendingReady" for t
      using p(4,5) quiet(2) by (cases "t = cur") (auto simp: pending_def)
    then show ?thesis by (simp add: pending_def)
  qed
  have q1: "kernel T E idle (ks ?s)" "uxSchedulerSuspended (ks ?s) = 1" "xPendedTicks (ks ?s) = 0" "pending (ks ?s) = {}"
    "untouched (qs ?s q)"
    using p(2) one quiet(1) f u pend by simp_all
  obtain y k' where r: "unlock_and_resume q ?s = Some (y, set_queue q (unlocked (qs ?s q)) k' ?s)" "kernel T E idle k'"
    "\<forall>t. time_left (ks ?s) t = None \<longrightarrow> container (StateItem t) k' = container (StateItem t) (ks ?s)"
    "\<forall>t. container (EventItem t) k' = container (EventItem t) (ks ?s)"
    "tcb k' = tcb (ks ?s)" "time_left k' = time_left (ks ?s)" "clock k' = clock (ks ?s)"
    "pxCurrentTCB k' = pxCurrentTCB (ks ?s)" "uxSchedulerSuspended k' = 0" "settled k'"
    using unlock_and_resume_quiet [OF q1] by blast
  let ?k = "yield_if (\<not> y) k'"
  have yk: "time_left ?k = time_left k'" "clock ?k = clock k'"
    by (simp_all add: yield_if_def taskYIELD_IF_USING_PREEMPTION_def)
  have "block_on world (Event e) q n st = Some (set_queue q (unlocked (qs st q)) ?k st)"
    using p(1) r(1) w by (simp add: block_on_def set_queue_def)
  then show ?thesis using r p n(2) cur(1) f yk
    by (intro exI [of _ ?k]) simp
qed

lemma section_blocks:
  assumes k: "kernel T E idle (ks st)" "settled (ks st)" "uxSchedulerSuspended (ks st) = 0"
    and u: "untouched (qs st q)" and busy: "busy (prvLockQueue (qs st q))"
    and cur: "pxCurrentTCB (ks st) = Some cur" "cur \<noteq> idle" and e: "e \<in> E"
    and free: "container (EventItem cur) (ks st) = None"
    and check: "xTaskCheckForTimeOut t n (ks st) = (False, t', n')" "0 < n'" "n' \<noteq> portMAX_DELAY"
    and w: "world 1 = Some" "world 2 = Some" "world 3 = Some"
  shows "\<exists>k'. suspended_section world (Event e) busy (\<lambda>st. Some (False, st)) expired q inh t n st =
      Some (Loop, False, t', n', set_queue q (unlocked (qs st q)) k' st) \<and> kernel T E idle k' \<and>
    settled k' \<and> uxSchedulerSuspended k' = 0 \<and> pxCurrentTCB k' = Some cur \<and> tcb k' = tcb (ks st) \<and>
    clock k' = clock (ks st) \<and> time_left k' cur = Some (unat n') \<and> container (EventItem cur) k' = Some (Event e) \<and>
    (\<forall>t. t \<noteq> cur \<longrightarrow> time_left k' t = time_left (ks st) t \<and> container (EventItem t) k' = container (EventItem t) (ks st) \<and>
      (time_left (ks st) t = None \<longrightarrow> container (StateItem t) k' = container (StateItem t) (ks st)))"
proof -
  let ?s = "lock_queue q (st\<lparr>ks := vTaskSuspendAll (ks st)\<rparr>)"
  have s: "kernel T E idle (ks ?s)" "uxSchedulerSuspended (ks ?s) = 1" "xPendedTicks (ks ?s) = 0" "pending (ks ?s) = {}"
    "untouched (qs ?s q)" "pxCurrentTCB (ks ?s) = Some cur" "container (EventItem cur) (ks ?s) = None"
    using k settled_quiet [OF k(2,3)] lock_untouched(1) [OF u] cur(1) free by simp_all
  obtain k' where r: "block_on world (Event e) q n' ?s = Some (set_queue q (unlocked (qs ?s q)) k' ?s)" "kernel T E idle k'"
    "settled k'" "uxSchedulerSuspended k' = 0" "pxCurrentTCB k' = Some cur" "tcb k' = tcb (ks ?s)"
    "clock k' = clock (ks ?s)" "time_left k' cur = Some (unat n')" "container (EventItem cur) k' = Some (Event e)"
    "\<forall>t. t \<noteq> cur \<longrightarrow> time_left k' t = time_left (ks ?s) t \<and> container (EventItem t) k' = container (EventItem t) (ks ?s) \<and>
      (time_left (ks ?s) t = None \<longrightarrow> container (StateItem t) k' = container (StateItem t) (ks ?s))"
    using block_on_quiet [where world = world, OF s(1-6) cur(2) e s(7) check(2,3) w(2,3)] by blast
  have "set_queue q (unlocked (qs ?s q)) k' ?s = set_queue q (unlocked (qs st q)) k' st"
    by (simp add: lock_untouched(2)) (simp add: set_queue_def lock_queue_def)
  moreover have "suspended_section world (Event e) busy (\<lambda>st. Some (False, st)) expired q inh t n st =
      Some (Loop, False, t', n', set_queue q (unlocked (qs ?s q)) k' ?s)"
    using busy check(1) r(1) w(1) by (simp add: suspended_section_def Let_def)
  ultimately show ?thesis using r(2-10) by (intro exI [of _ k']) simp
qed

lemma section_expires:
  assumes k: "kernel T E idle (ks st)" "settled (ks st)" "uxSchedulerSuspended (ks st) = 0"
    and u: "untouched (qs st q)" and check: "xTaskCheckForTimeOut t n (ks st) = (True, t', n')" and w: "world 1 = Some"
  shows "\<exists>k'. suspended_section world l busy prepare expired q inh t n st =
      map_option (\<lambda>(r, s). (r, inh, t', n', s)) (expired (set_queue q (unlocked (qs st q)) k' st)) \<and> kernel T E idle k' \<and>
    settled k' \<and> uxSchedulerSuspended k' = 0 \<and> pxCurrentTCB k' = pxCurrentTCB (ks st) \<and> tcb k' = tcb (ks st) \<and>
    clock k' = clock (ks st) \<and> time_left k' = time_left (ks st) \<and>
    (\<forall>t. container (EventItem t) k' = container (EventItem t) (ks st)) \<and>
    (\<forall>t. time_left (ks st) t = None \<longrightarrow> container (StateItem t) k' = container (StateItem t) (ks st))"
proof -
  let ?s = "lock_queue q (st\<lparr>ks := vTaskSuspendAll (ks st)\<rparr>)"
  have s: "kernel T E idle (ks ?s)" "uxSchedulerSuspended (ks ?s) = 1" "xPendedTicks (ks ?s) = 0" "pending (ks ?s) = {}"
    "untouched (qs ?s q)"
    using k settled_quiet [OF k(2,3)] lock_untouched(1) [OF u] by simp_all
  obtain y k' where r: "unlock_and_resume q ?s = Some (y, set_queue q (unlocked (qs ?s q)) k' ?s)" "kernel T E idle k'"
    "\<forall>t. time_left (ks ?s) t = None \<longrightarrow> container (StateItem t) k' = container (StateItem t) (ks ?s)"
    "\<forall>t. container (EventItem t) k' = container (EventItem t) (ks ?s)"
    "tcb k' = tcb (ks ?s)" "time_left k' = time_left (ks ?s)" "clock k' = clock (ks ?s)"
    "pxCurrentTCB k' = pxCurrentTCB (ks ?s)" "uxSchedulerSuspended k' = 0" "settled k'"
    using unlock_and_resume_quiet [OF s] by blast
  have "set_queue q (unlocked (qs ?s q)) k' ?s = set_queue q (unlocked (qs st q)) k' st"
    by (simp add: lock_untouched(2)) (simp add: set_queue_def lock_queue_def)
  then have "suspended_section world l busy prepare expired q inh t n st =
      map_option (\<lambda>(r, s). (r, inh, t', n', s)) (expired (set_queue q (unlocked (qs st q)) k' st))"
    using check r(1) w by (simp add: suspended_section_def Let_def)
      (cases "expired (set_queue q (unlocked (qs st q)) k' st)"; auto)
  then show ?thesis using r(2-10) by (intro exI [of _ k']) simp
qed

subsection \<open>Sleeping until the time is up\<close>

lemma ticks_ok:
  assumes "kernel T E idle k" and "settled k" and "uxSchedulerSuspended k = 0"
  shows "\<exists>k'. ticks n k = Some k' \<and> kernel T E idle k' \<and> settled k' \<and> after_ticks T E n k k'"
  using assms
proof (induction n arbitrary: k)
  case 0
  then show ?case using after_ticks_0 [OF kernel_D(1)] by auto
next
  case (Suc n)
  obtain cur where cur: "pxCurrentTCB k = Some cur" "cur \<in> T" using kernel_D(6) [OF Suc.prems(1)] by blast
  obtain sw k1 where k1: "xTaskIncrementTick k = Some (sw, k1)" "kernel T E idle k1" "settled k1"
    using tick_ok [OF Suc.prems(1,2)] by blast
  have a: "after_ticks T E 1 k k1" using after_tick [OF kernel_D(1) [OF Suc.prems(1)] cur Suc.prems(3)] k1(1) by auto
  then have "uxSchedulerSuspended k1 = 0" using Suc.prems(3) by (simp add: after_ticks_def)
  from Suc.IH [OF k1(2,3) this] obtain k' where k': "ticks n k1 = Some k'" "kernel T E idle k'" "settled k'"
    "after_ticks T E n k1 k'" by blast
  have "after_ticks T E (1 + n) k k'" using after_ticks_trans [OF a k'(4)] by simp
  then show ?case using k1(1) k'(1-3) by simp
qed

lemma sleep_then_expire:
  assumes k: "kernel T E idle (ks st)" "settled (ks st)" "uxSchedulerSuspended (ks st) = 0"
    and u: "untouched (qs st q)" and busy: "busy (prvLockQueue (qs st q))"
    and cur: "pxCurrentTCB (ks st) = Some cur" "cur \<noteq> idle" and e: "e \<in> E"
    and free: "container (EventItem cur) (ks st) = None" and n: "0 < n" "n \<noteq> portMAX_DELAY"
    and w: "world 1 = Some" "world 2 = Some" "world 3 = Some"
    and Q: "Q = unlocked (qs st q)" and t: "t = vTaskInternalSetTimeOutState (ks st)"
    and sec: "sec = suspended_section world (Event e) busy (\<lambda>st. Some (False, st)) expired q False t n"
  shows "\<exists>k1 k2 k3. sec st = Some (Loop, False, t, n, set_queue q Q k1 st) \<and> ticks (unat n) k1 = Some k2 \<and>
    sec (set_queue q Q k2 st) = map_option (\<lambda>(r, s). (r, False, t, 0, s)) (expired (set_queue q Q k3 st)) \<and>
    kernel T E idle k3 \<and> settled k3 \<and> uxSchedulerSuspended k3 = 0 \<and> pxCurrentTCB k3 = Some cur \<and> tcb k3 = tcb (ks st) \<and>
    clock k3 = (clock (ks st) + unat n) mod 2 ^ 64 \<and> container (EventItem cur) k3 = None \<and>
    container (StateItem cur) k3 = Some (Ready (uxPriority (tcb (ks st) cur))) \<and>
    (\<forall>u. u \<noteq> cur \<longrightarrow> time_left k3 u = count_down (unat n) (time_left (ks st) u))"
proof -
  have c1: "xTaskCheckForTimeOut t n (ks st) = (False, t, n)"
    using check_time_out [of "ks st" "ks st" 0 n] clock_less [of "ks st"] n by (simp add: t unat_gt_0)
  obtain k1 where k1: "sec st = Some (Loop, False, t, n, set_queue q Q k1 st)" "kernel T E idle k1" "settled k1"
    "uxSchedulerSuspended k1 = 0" "pxCurrentTCB k1 = Some cur" "tcb k1 = tcb (ks st)" "clock k1 = clock (ks st)"
    "time_left k1 cur = Some (unat n)" "\<forall>u. u \<noteq> cur \<longrightarrow> time_left k1 u = time_left (ks st) u"
    using section_blocks [where world = world and expired = expired and inh = False and busy = busy, OF k u busy cur e free c1 n w]
    unfolding sec Q by blast
  obtain k2 where k2: "ticks (unat n) k1 = Some k2" "kernel T E idle k2" "settled k2" "after_ticks T E (unat n) k1 k2"
    using ticks_ok [OF k1(2,3,4)] by blast
  have f: "clock k2 = (clock (ks st) + unat n) mod 2 ^ 64" "uxSchedulerSuspended k2 = 0" "pxCurrentTCB k2 = Some cur"
    "tcb k2 = tcb (ks st)"
    using k2(4) k1 by (simp_all add: after_ticks_def)
  have wk: "cur \<in> woken (unat n) k1" using k1(8) by (simp add: woken_def)
  then have r: "container (StateItem cur) k2 = Some (Ready (uxPriority (tcb (ks st) cur)))" "container (EventItem cur) k2 = None"
    using k2(4) k1(6) by (simp_all add: after_ticks_def)
  let ?s = "set_queue q Q k2 st"
  have s: "kernel T E idle (ks ?s)" "settled (ks ?s)" "uxSchedulerSuspended (ks ?s) = 0" "untouched (qs ?s q)"
    using k2 f(2) by (simp_all add: Q)
  have c2: "xTaskCheckForTimeOut t n (ks ?s) = (True, t, 0)"
    using check_time_out [OF f(1) unat_u32_less n(2)] by (simp add: t)
  obtain k3 where k3: "sec ?s = map_option (\<lambda>(r, s). (r, False, t, 0, s)) (expired (set_queue q (unlocked (qs ?s q)) k3 ?s))"
    "kernel T E idle k3" "settled k3" "uxSchedulerSuspended k3 = 0" "pxCurrentTCB k3 = pxCurrentTCB (ks ?s)"
    "tcb k3 = tcb (ks ?s)" "clock k3 = clock (ks ?s)" "time_left k3 = time_left (ks ?s)"
    "\<forall>t. container (EventItem t) k3 = container (EventItem t) (ks ?s)"
    "\<forall>t. time_left (ks ?s) t = None \<longrightarrow> container (StateItem t) k3 = container (StateItem t) (ks ?s)"
    using section_expires [where world = world and expired = expired and inh = False, OF s c2 w(1)]
    unfolding sec by blast
  have "set_queue q (unlocked (qs ?s q)) k3 ?s = set_queue q Q k3 st" by (simp add: Q) (simp add: set_queue_def)
  moreover have "time_left k2 u = count_down (unat n) (time_left k1 u)" for u using k2(4) by (simp add: after_ticks_def)
  moreover have "time_left k2 cur = None" using calculation(2) [of cur] k1(8) by simp
  ultimately show ?thesis using k1(1,9) k2(1) k3 f r by (intro exI [of _ k1] exI [of _ k2] exI [of _ k3]) simp
qed

subsection \<open>An interrupt while the queue is locked\<close>

lemma lock_queue_ok:
  assumes "queue_ok Q"
  shows "queue_ok (prvLockQueue Q)" "contents (prvLockQueue Q) = contents Q"
  by (rule queue_ok_cong [OF assms]; simp add: prvLockQueue_def Let_def)+

lemma send_from_isr_locked:
  assumes q: "queue_ok (qs st q)" and room: "has_room pos (qs st q)" and x: "length x = qsz (qs st q)"
    and lock: "cTxLock (qs st q) = queueLOCKED_UNMODIFIED" and n: "0 < uxCurrentNumberOfTasks (ks st)"
  shows "\<exists>Q'. xQueueGenericSendFromISR q x pos st = Some (True, False, set_queue q Q' (ks st) st) \<and>
    queue_ok Q' \<and> contents Q' = enqueue pos x (contents (qs st q)) \<and> cTxLock Q' = 1 \<and> cRxLock Q' = cRxLock (qs st q)"
proof -
  obtain Q1 where Q1: "prvCopyDataToQueue x pos (qs st q) (ks st) = Some (False, Q1, ks st)" "queue_ok Q1"
    "contents Q1 = enqueue pos x (contents (qs st q))" "same_shape (qs st q) Q1"
    using copy_in [OF q room [unfolded has_room_def] x] by blast
  have r: "uxMessagesWaiting (qs st q) < uxLength (qs st q) \<or> pos = queueOVERWRITE"
    using room by (auto simp: has_room_def word_less_nat_alt)
  have i: "prvIncrementQueueTxLock queueLOCKED_UNMODIFIED (ks st) Q1 = Q1\<lparr>cTxLock := 1\<rparr>"
    using n by (simp add: prvIncrementQueueTxLock_def queueLOCKED_UNMODIFIED_def uxTaskGetNumberOfTasks_def)
  note c = queue_ok_cong [OF Q1(2), where Q' = "Q1\<lparr>cTxLock := 1\<rparr>", simplified]
  have "xQueueGenericSendFromISR q x pos st = Some (True, False, set_queue q (Q1\<lparr>cTxLock := 1\<rparr>) (ks st) st)"
    using Q1(1) r lock i lock_values(3) [symmetric] by (simp add: xQueueGenericSendFromISR_def)
  then show ?thesis using Q1(3,4) c by (intro exI [of _ "Q1\<lparr>cTxLock := 1\<rparr>"]) (simp add: same_shape_def)
qed

text \<open>Unlocking after one item arrived: the first waiter is woken.\<close>

lemma unlock_and_resume_one:
  assumes k: "kernel T E idle (ks st)" and one: "uxSchedulerSuspended (ks st) = 1"
    and quiet: "xPendedTicks (ks st) = 0" "pending (ks st) = {}" and e: "receivers q \<in> E"
    and w: "waits E (ks st) W" "W (receivers q) = i # is"
    and lock: "cTxLock (qs st q) = 1" "nat (sint (cRxLock (qs st q))) = 0"
  shows "\<exists>t y k'. i = EventItem t \<and> unlock_and_resume q st = Some (y, set_queue q (unlocked (qs st q)) k' st) \<and>
    kernel T E idle k' \<and> settled k' \<and> container (StateItem t) k' = Some (Ready (uxPriority (tcb (ks st) t))) \<and>
    container (EventItem t) k' = None \<and> uxSchedulerSuspended k' = 0"
proof -
  obtain t b k1 where r: "i = EventItem t" "xTaskRemoveFromEventList (Event (receivers q)) (ks st) = Some (b, k1)"
    "kernel T E idle k1" "container (EventItem t) k1 = Some PendingReady"
    "\<forall>j. j \<noteq> EventItem t \<longrightarrow> container j k1 = container j (ks st)"
    "same_ctl ((ks st)\<lparr>xYieldPending := True\<rparr>) (k1\<lparr>xYieldPending := True\<rparr>)"
    using remove_from_event_list [OF k e w] one by auto
  have f: "uxSchedulerSuspended k1 = 1" "xPendedTicks k1 = 0" "tcb k1 = tcb (ks st)"
    using r(6) one quiet(1) by (simp_all add: same_ctl_def)
  let ?k = "if b then vTaskMissedYield k1 else k1"
  have k2: "kernel T E idle ?k" "uxSchedulerSuspended ?k = 1" "pending ?k = {t}" "unat (xPendedTicks ?k) = 0" "tcb ?k = tcb (ks st)"
    using r(3-5) f quiet(2) by (auto simp: vTaskMissedYield_def pending_def)
  have ne: "\<not> listLIST_IS_EMPTY (Event (receivers q)) (ls (ks st))"
    using list_empty [OF kernel_D(1) [OF k], of "Event (receivers q)"] kernel_waits_container [OF w(1) e, of i] w(2) e
    by (auto simp: kernel_lists_def)
  have "prvUnlockQueue q (qs st q) (ks st) = Some (unlocked (qs st q), ?k)"
    using ne r(2) lock by (simp add: prvUnlockQueue_def xTasksWaitingToReceive_def Let_def unlocked_def)
  moreover obtain y k' where "xTaskResumeAll ?k = Some (y, k')" "kernel T E idle k'" "uxSchedulerSuspended k' = 0" "settled k'"
    "container (StateItem t) k' = Some (Ready (uxPriority (tcb (ks st) t)))" "container (EventItem t) k' = None"
    using resume_all_catches_up [OF k2(1,2)] unfolding k2(3,5) by blast
  ultimately show ?thesis using r(1) by (intro exI [of _ t] exI [of _ y] exI [of _ k']) (simp add: unlock_and_resume_def)
qed

text \<open>A world in which one interrupt, at point \<open>p\<close>, sends an item.\<close>

definition isr_sends :: "nat \<Rightarrow> nat \<Rightarrow> u8 list \<Rightarrow> nat \<Rightarrow> qsys \<Rightarrow> qsys option" where
  "isr_sends p q x i st =
     (if i = p then map_option (\<lambda>(_, _, s). s) (xQueueGenericSendFromISR q x queueSEND_TO_BACK st) else Some st)"

lemma block_on_isr:
  assumes q: "queue_ok (qs st q)" and e: "contents (qs st q) = []" and x: "length x = qsz (qs st q)"
    and l: "cTxLock (qs st q) = queueUNLOCKED" "cRxLock (qs st q) = queueUNLOCKED"
    and s: "qs s q = prvLockQueue (qs st q)" and p: "p = 2 \<or> p = 3"
    and k1: "vTaskPlaceOnEventList l' n (ks s) = Some k1"
    and num: "0 < uxCurrentNumberOfTasks (ks s)" "0 < uxCurrentNumberOfTasks k1"
  shows "\<exists>s3. ks s3 = k1 \<and> queue_ok (qs s3 q) \<and> contents (qs s3 q) = [x] \<and> cTxLock (qs s3 q) = 1 \<and>
      nat (sint (cRxLock (qs s3 q))) = 0 \<and> block_on (isr_sends p q x) l' q n s =
        unlock_and_resume q s3 \<bind> (\<lambda>(y, s). Some (s\<lparr>ks := yield_if (\<not> y) (ks s)\<rparr>))"
proof -
  have qok: "queue_ok (prvLockQueue (qs st q))" "contents (prvLockQueue (qs st q)) = []"
    using lock_queue_ok [OF q] e by simp_all
  have lk: "cTxLock (prvLockQueue (qs st q)) = queueLOCKED_UNMODIFIED" "cRxLock (prvLockQueue (qs st q)) = queueLOCKED_UNMODIFIED"
    "uxItemSize (prvLockQueue (qs st q)) = uxItemSize (qs st q)"
    using l by (simp_all add: prvLockQueue_def Let_def)
  have room: "has_room queueSEND_TO_BACK (prvLockQueue (qs st q))"
    using qok length_contents [of "prvLockQueue (qs st q)"] by (simp add: has_room_def queue_ok_def)
  have isr: "\<exists>Q'. isr_sends p q x p s = Some (set_queue q Q' (ks s) s) \<and> queue_ok Q' \<and> contents Q' = [x] \<and>
      cTxLock Q' = 1 \<and> nat (sint (cRxLock Q')) = 0"
    if sq: "qs s q = prvLockQueue (qs st q)" "0 < uxCurrentNumberOfTasks (ks s)" for s
  proof -
    obtain Q' where Q': "xQueueGenericSendFromISR q x queueSEND_TO_BACK s = Some (True, False, set_queue q Q' (ks s) s)"
      "queue_ok Q'" "contents Q' = [x]" "cTxLock Q' = 1" "cRxLock Q' = queueLOCKED_UNMODIFIED"
      using send_from_isr_locked [of s q queueSEND_TO_BACK x, unfolded sq(1) lk, OF qok(1) room x refl sq(2)] qok(2)
      by (auto simp: enqueue_def)
    then show ?thesis by (intro exI [of _ Q']) (simp add: isr_sends_def queueLOCKED_UNMODIFIED_def)
  qed
  show ?thesis
    using p
  proof
    assume p: "p = 2"
    obtain Q' where "isr_sends p q x 2 s = Some (set_queue q Q' (ks s) s)" "queue_ok Q'" "contents Q' = [x]" "cTxLock Q' = 1"
      "nat (sint (cRxLock Q')) = 0"
      using isr [of s] num(1) p s by auto
    then show ?thesis using k1 p s
      by (intro exI [of _ "(set_queue q Q' (ks s) s)\<lparr>ks := k1\<rparr>"]) (simp add: block_on_def isr_sends_def [of 2 q x 3])
  next
    assume p: "p = 3"
    obtain Q' where "isr_sends p q x 3 (s\<lparr>ks := k1\<rparr>) = Some (set_queue q Q' k1 (s\<lparr>ks := k1\<rparr>))" "queue_ok Q'" "contents Q' = [x]" "cTxLock Q' = 1"
      "nat (sint (cRxLock Q')) = 0"
      using isr [of "s\<lparr>ks := k1\<rparr>"] num(1) p num(2) s by auto
    then show ?thesis using k1 p s
      by (intro exI [of _ "set_queue q Q' k1 (s\<lparr>ks := k1\<rparr>)"]) (simp add: block_on_def isr_sends_def [of 3 q x 2])
  qed
qed

end
