(* ===== verification/QueueSpec.thy ===== *)
theory QueueSpec
  imports QueueBlock
begin

text \<open>
  The properties of queues: a queue is a bounded list, creation, waking, blocking and time-outs.
\<close>

subsection \<open>A system with a queue\<close>

text \<open>The tasks 0, 3 and 5 (running) and queue 2, of three items of two bytes.\<close>

definition qsys_0 :: qsys where
  "qsys_0 = \<lparr>ks = tasks_w,
     qs = \<lambda>_. \<lparr>storage = [], is_mutex = False, pcWriteTo = 0, q_union = QueuePointers 0 0, uxMessagesWaiting = 0,
                uxLength = 0, uxItemSize = 0, cRxLock = 0, cTxLock = 0, uxQueueNumber = 0, ucQueueType = 0\<rparr>,
     xQueueRegistry = replicate 8 \<lparr>pcQueueName = None, xHandle = None\<rparr>\<rparr>"

definition zeros :: "u32 \<Rightarrow> u8 list option" where "zeros n = Some (replicate (unat n) 0)"

definition queue_w :: qsys where
  "queue_w = snd (the (xQueueGenericCreate zeros 3 2 0 2 qsys_0))"

lemma queues_0: "queues_ok {0, 3, 5} {} 0 {} W qsys_0"
proof -
  obtain Q where "waits {} tasks_w Q" using sched_waits [OF kernel_D(1) [OF tasks_w(1)]] by blast
  then have "waits {} tasks_w W" by (auto simp: waits_def)
  then show ?thesis using tasks_w(1,9) by (simp add: queues_ok_def qsys_0_def)
qed

lemma queue_w:
  "xQueueGenericCreate zeros 3 2 0 2 qsys_0 = Some (True, queue_w)"
  "queues_ok {0, 3, 5} {6, 7} 0 {2} (\<lambda>_. []) queue_w"
  "\<not> is_mutex (qs queue_w 2)" "contents (qs queue_w 2) = []" "uxLength (qs queue_w 2) = 3" "uxItemSize (qs queue_w 2) = 2"
  "pxCurrentTCB (ks queue_w) = Some 5" "uxSchedulerSuspended (ks queue_w) = 0" "container (EventItem t) (ks queue_w) = None"
  "cRxLock (qs queue_w 2) = queueUNLOCKED" "cTxLock (qs queue_w 2) = queueUNLOCKED"
  "xTickCount (ks queue_w) = 0"
proof -
  have z: "zeros (sizeof_Queue_t + 3 * 2) = Some (replicate 86 0)" "length (replicate 86 (0 :: u8)) = unat (sizeof_Queue_t + 3 * 2)"
    by (simp_all add: zeros_def sizeof_Queue_t_def)
  obtain st' where st': "xQueueGenericCreate zeros 3 2 0 2 qsys_0 = Some (True, st')"
    "queues_ok {0, 3, 5} {7, 6} 0 {2} ((\<lambda>_. [])(6 := [], 7 := [])) st'" "\<not> is_mutex (qs st' 2)"
    "contents (qs st' 2) = []" "uxLength (qs st' 2) = 3" "uxItemSize (qs st' 2) = 2"
    "cRxLock (qs st' 2) = queueUNLOCKED" "cTxLock (qs st' 2) = queueUNLOCKED"
    "ks st' = on_lists (vListInitialise (Event 7)) (on_lists (vListInitialise (Event 6)) tasks_w)"
    using create_queue [where malloc = zeros and len = 3 and sz = 2 and q = 2 and type = 0 and E = "{}" and D = "{}", OF queues_0 _ _ z, of "\<lambda>_. []"]
    by (auto simp: qsys_0_def)
  then have w: "queue_w = st'" by (simp add: queue_w_def)
  have f: "(\<lambda>_. [])(6 := [], 7 := []) = (\<lambda>_ :: nat. [] :: kitem list)" by (simp add: fun_eq_iff)
  show "xQueueGenericCreate zeros 3 2 0 2 qsys_0 = Some (True, queue_w)"
    "queues_ok {0, 3, 5} {6, 7} 0 {2} (\<lambda>_. []) queue_w"
    "\<not> is_mutex (qs queue_w 2)" "contents (qs queue_w 2) = []" "uxLength (qs queue_w 2) = 3" "uxItemSize (qs queue_w 2) = 2"
    "cRxLock (qs queue_w 2) = queueUNLOCKED" "cTxLock (qs queue_w 2) = queueUNLOCKED"
    using st'(1-8) f by (simp_all add: w insert_commute)
  show "pxCurrentTCB (ks queue_w) = Some 5" "uxSchedulerSuspended (ks queue_w) = 0" "xTickCount (ks queue_w) = 0"
    unfolding w st'(9) using tasks_w by (simp_all add: on_lists_def)
  show "container (EventItem t) (ks queue_w) = None" unfolding w st'(9) using tasks_w(13) by simp
qed

subsection \<open>The properties\<close>

text \<open>C6: a queue is a bounded list.  Any sequence of sends and receives that do not wait gives the
  answers of a list of at most \<^verbatim>\<open>uxLength\<close> items, leaves the items of that list in the queue, and
  what was received followed by what is left is what was there followed by what was accepted, in
  the order it was sent.\<close>

theorem queue_is_bounded_fifo:
  assumes "queues_ok T E idle D W st" and "q \<in> D" and "\<not> is_mutex (qs st q)"
    and "\<forall>x. Put x \<in> set ops \<longrightarrow> length x = qsz (qs st q)"
    and "fifo_run (qlen (qs st q)) ops (contents (qs st q)) = (as, ys)"
  shows "\<exists>st' W'. impl_run (\<lambda>x. xQueueGenericSend world q x 0 queueSEND_TO_BACK) (xQueueReceive world q 0) ops st = Some (as, st') \<and>
    queues_ok T E idle D W' st' \<and> contents (qs st' q) = ys \<and> length ys \<le> qlen (qs st' q) \<and>
    received as @ contents (qs st' q) = contents (qs st q) @ accepted ops as"
proof -
  obtain st' where st': "impl_run (\<lambda>x. xQueueGenericSend world q x 0 queueSEND_TO_BACK) (xQueueReceive world q 0) ops st = Some (as, st')"
    "fifo_ok T E idle D q st'" "contents (qs st' q) = ys" "qlen (qs st' q) = qlen (qs st q)"
    using kq.run_refines [OF fifo_ok_I [OF assms(1-3)] assms(4,5), of world] by blast
  have "length (contents (qs st q)) \<le> qlen (qs st q)"
    using queues_ok_D(6) [OF assms(1-3)] by (simp add: queue_ok_def)
  then show ?thesis
    using st' fifo_run_order [OF assms(5)] fifo_run_bound [OF assms(5)] by (auto simp: fifo_ok_def)
qed

theorem queue_is_bounded_fifo_witness:
  "\<exists>st'. impl_run (\<lambda>x. xQueueGenericSend (\<lambda>_. Some) 2 x 0 queueSEND_TO_BACK) (xQueueReceive (\<lambda>_. Some) 2 0)
      [Put [1, 2], Get, Get, Put [3, 4], Put [5, 6], Put [7, 8], Put [9, 9], Get] queue_w =
    Some ([Sent True, Got (Some [1, 2]), Got None, Sent True, Sent True, Sent True, Sent False, Got (Some [3, 4])], st') \<and>
    contents (qs st' 2) = [[5, 6], [7, 8]]"
proof -
  have l: "\<forall>x. Put x \<in> set [Put [1, 2 :: u8], Get, Get, Put [3, 4], Put [5, 6], Put [7, 8], Put [9, 9], Get] \<longrightarrow>
      length x = qsz (qs queue_w 2)"
    by (auto simp: queue_w(6))
  have r: "fifo_run (qlen (qs queue_w 2)) [Put [1, 2], Get, Get, Put [3, 4], Put [5, 6], Put [7, 8], Put [9, 9], Get]
      (contents (qs queue_w 2)) =
    ([Sent True, Got (Some [1, 2]), Got None, Sent True, Sent True, Sent True, Sent False, Got (Some [3, 4])], [[5, 6], [7, 8]])"
    by (simp add: queue_w(4,5))
  have d: "(2 :: nat) \<in> {2}" by simp
  show ?thesis using queue_is_bounded_fifo [OF queue_w(2) d queue_w(3) l r, of "\<lambda>_. Some"] by blast
qed

text \<open>A queue is created exactly when its length is not zero, its block fits in 32 bits and the
  memory is there; it is then empty, of the size asked for and well formed, its waiting lists are
  empty and all other queues and tasks are as before.  Otherwise nothing changes.\<close>

lemma xQueueGenericCreate_sizes:
  assumes "queues_ok T E idle D W st" and "senders q \<notin> E" "receivers q \<notin> E"
    and "\<And>n block. malloc n = Some block \<Longrightarrow> length block = unat n"
  shows "if unat len = 0 \<or> 2 ^ 32 \<le> unat len * unat sz + 80 \<or> malloc (80 + len * sz) = None
    then xQueueGenericCreate malloc len sz type q st = Some (False, st)
    else \<exists>st'. xQueueGenericCreate malloc len sz type q st = Some (True, st') \<and>
      queues_ok T ({senders q, receivers q} \<union> E) idle ({q} \<union> D) (W(senders q := [], receivers q := [])) st' \<and>
      contents (qs st' q) = [] \<and> uxLength (qs st' q) = len \<and> uxItemSize (qs st' q) = sz \<and>
      (\<forall>p. p \<noteq> q \<longrightarrow> qs st' p = qs st p)"
proof -
  have s: "malloc (80 + len * sz) = malloc (sizeof_Queue_t + len * sz)" by (simp add: sizeof_Queue_t_def)
  show ?thesis
  proof (cases "unat len = 0 \<or> 2 ^ 32 \<le> unat len * unat sz + 80 \<or> malloc (sizeof_Queue_t + len * sz) = None")
    case True
    show ?thesis unfolding s using True create_refused [where malloc = malloc and len = len and sz = sz, OF True]
      by (simp only: if_True)
  next
    case False
    then obtain block where b: "malloc (sizeof_Queue_t + len * sz) = Some block" by blast
    have "insert (receivers q) (insert (senders q) E) = {senders q, receivers q} \<union> E" by blast
    then show ?thesis unfolding s using False create_queue [where malloc = malloc and len = len and sz = sz and type = type, OF assms(1-3) b assms(4) [OF b]]
      by (simp only: if_False insert_is_Un [of q D, symmetric]) auto
  qed
qed

lemma xQueueGenericCreate_sizes_witness:
  "(\<exists>st'. xQueueGenericCreate zeros 3 2 0 2 qsys_0 = Some (True, st') \<and> contents (qs st' 2) = []) \<and>
   xQueueGenericCreate zeros 0x10000 0x10000 0 2 qsys_0 = Some (False, qsys_0)"
proof -
  have z: "zeros n = Some block \<Longrightarrow> length block = unat n" for n block by (auto simp: zeros_def)
  show ?thesis
    using xQueueGenericCreate_sizes [where malloc = zeros and q = 2 and len = 3 and sz = 2 and type = 0 and W = "\<lambda>_. []", OF queues_0 _ _ z]
      xQueueGenericCreate_sizes [where malloc = zeros and q = 2 and len = "0x10000" and sz = "0x10000" and type = 0 and W = "\<lambda>_. []", OF queues_0 _ _ z]
    by (auto simp: zeros_def)
qed

text \<open>A send puts the item where it is asked to (at the back, at the front, or in place of the only
  one) and wakes the first task waiting to receive; a receive that follows takes the first item and wakes the
  first task waiting to send.  No other queue and no other task is affected.\<close>

lemma queue_operations_wake_first:
  assumes "queues_ok T E idle D W st" and "q \<in> D" and "\<not> is_mutex (qs st q)"
    and "has_room pos (qs st q)" and "length x = qsz (qs st q)"
  shows "\<exists>st'. xQueueGenericSend world q x n pos st = Some (True, st') \<and>
    queues_ok T E idle D (W(receivers q := tl (W (receivers q)))) st' \<and>
    contents (qs st' q) = enqueue pos x (contents (qs st q)) \<and>
    (\<forall>p. p \<noteq> q \<longrightarrow> qs st' p = qs st p) \<and> first_woken (W (receivers q)) (ks st) (ks st') \<and>
    (\<exists>st''. xQueueReceive world q n st' = Some (Some (hd (enqueue pos x (contents (qs st q)))), st'') \<and>
       contents (qs st'' q) = tl (enqueue pos x (contents (qs st q))) \<and>
       first_woken (W (senders q)) (ks st') (ks st''))"
proof -
  obtain st' where st': "xQueueGenericSend_enter q x n pos st = Some (Return True, st')"
    "queues_ok T E idle D (W(receivers q := tl (W (receivers q)))) st'"
    "contents (qs st' q) = enqueue pos x (contents (qs st q))" "same_shape (qs st q) (qs st' q)"
    "\<forall>p. p \<noteq> q \<longrightarrow> qs st' p = qs st p" "first_woken (W (receivers q)) (ks st) (ks st')"
    using send_room [OF assms] by blast
  have nm: "\<not> is_mutex (qs st' q)" using st'(4) assms(3) by (simp add: same_shape_def)
  have "enqueue pos x (contents (qs st q)) \<noteq> []" by (cases pos) (simp_all add: enqueue_def)
  then have c: "contents (qs st' q) = hd (enqueue pos x (contents (qs st q))) # tl (enqueue pos x (contents (qs st q)))"
    using st'(3) by simp
  have "senders q \<noteq> receivers q" by simp
  then show ?thesis
    using st' send_returns [OF st'(1)] receive_item [OF st'(2) assms(2) nm c, of n] receive_returns
    by (intro exI [of _ st']) fastforce
qed

lemma queue_operations_wake_first_witness:
  "\<exists>st'. xQueueGenericSend (\<lambda>_. Some) 2 [1, 2] 10 queueSEND_TO_FRONT queue_w = Some (True, st') \<and>
     contents (qs st' 2) = [[1, 2]]"
proof -
  have d: "(2 :: nat) \<in> {2}" and r: "has_room queueSEND_TO_FRONT (qs queue_w 2)" and l: "length [1, 2 :: u8] = qsz (qs queue_w 2)"
    using queue_w(4) length_contents [of "qs queue_w 2"] by (simp_all add: has_room_def queue_w(5,6))
  show ?thesis using queue_operations_wake_first [OF queue_w(2) d queue_w(3) r l, of "\<lambda>_. Some" 10]
    by (auto simp: enqueue_def queue_w(4))
qed

text \<open>A world in which nobody uses the queue while \<open>n\<close> ticks pass.\<close>

definition time_passes :: "nat \<Rightarrow> nat \<Rightarrow> qsys \<Rightarrow> qsys option" where
  "time_passes n i st = (if i = 4 then map_option (\<lambda>k. st\<lparr>ks := k\<rparr>) (ticks n (ks st)) else Some st)"

lemma time_passes_simps:
  "time_passes n 0 = Some" "time_passes n 1 = Some" "time_passes n 2 = Some" "time_passes n 3 = Some"
  "time_passes n 4 st = map_option (\<lambda>k. st\<lparr>ks := k\<rparr>) (ticks n (ks st))"
  by (simp_all add: time_passes_def fun_eq_iff)

text \<open>The caller gave up after \<open>n\<close> ticks: the queue is as it was, the caller is ready and waits for
  nothing.\<close>

definition gave_up :: "nat \<Rightarrow> task \<Rightarrow> u32 \<Rightarrow> qsys \<Rightarrow> qsys \<Rightarrow> bool" where
  "gave_up q cur n st st' \<longleftrightarrow> qs st' = (qs st)(q := unlocked (qs st q)) \<and>
     clock (ks st') = (clock (ks st) + unat n) mod 2 ^ 64 \<and> pxCurrentTCB (ks st') = Some cur \<and>
     container (StateItem cur) (ks st') = Some (Ready (uxPriority (tcb (ks st) cur))) \<and>
     container (EventItem cur) (ks st') = None \<and>
     (\<forall>u. u \<noteq> cur \<longrightarrow> time_left (ks st') u = count_down (unat n) (time_left (ks st) u))"

lemma receive_times_out:
  assumes "kernel T E idle (ks st)" and "settled (ks st)" and "uxSchedulerSuspended (ks st) = 0"
    and "senders q \<in> E" "receivers q \<in> E" and "untouched (qs st q)"
    and "pxCurrentTCB (ks st) = Some cur" "cur \<noteq> idle" and "container (EventItem cur) (ks st) = None"
    and "0 < n" "n \<noteq> portMAX_DELAY"
    and "uxMessagesWaiting (qs st q) = 0"
  shows "\<exists>st'. xQueueReceive (time_passes (unat n)) q n st = Some (None, st') \<and>
    kernel T E idle (ks st') \<and> settled (ks st') \<and> gave_up q cur n st st'"
proof -
  let ?Q = "unlocked (qs st q)" and ?t = "vTaskInternalSetTimeOutState (ks st)" and ?w = "time_passes (unat n)"
  have ks: "(set_queue q ?Q k st)\<lparr>ks := k'\<rparr> = set_queue q ?Q k' st" for k k' by (simp add: set_queue_def)
  have nz: "n \<noteq> 0" using assms(10) by auto
  have e: "uxMessagesWaiting (qs st q) = 0" by (rule assms(12))
  then have b: "prvIsQueueEmpty (prvLockQueue (qs st q))" by (simp add: prvIsQueueEmpty_def lock_untouched(3))
  obtain k1 k2 k3 where s: "xQueueReceive_block (time_passes (unat n)) q ?t n st = Some (Loop, False, ?t, n, set_queue q ?Q k1 st)"
    "ticks (unat n) k1 = Some k2"
    "xQueueReceive_block (time_passes (unat n)) q ?t n (set_queue q ?Q k2 st) =
       map_option (\<lambda>(r, s). (r, False, ?t, 0, s)) (expired_empty q (set_queue q ?Q k3 st))"
    and f: "kernel T E idle k3" "settled k3" "uxSchedulerSuspended k3 = 0" "pxCurrentTCB k3 = Some cur"
    "clock k3 = (clock (ks st) + unat n) mod 2 ^ 64" "container (EventItem cur) k3 = None"
    "container (StateItem cur) k3 = Some (Ready (uxPriority (tcb (ks st) cur)))"
    "\<forall>u. u \<noteq> cur \<longrightarrow> time_left k3 u = count_down (unat n) (time_left (ks st) u)"
    using sleep_then_expire [where busy = prvIsQueueEmpty and expired = "expired_empty q" and world = "time_passes (unat n)",
        OF assms(1-3,6) b assms(7,8,5,9-11) time_passes_simps(2-4) refl refl
          xQueueReceive_block_def [of "time_passes (unat n)" q, unfolded xTasksWaitingToReceive_def, THEN fun_cong, THEN fun_cong]]
    by blast
  let ?st = "set_queue q ?Q k3 st"
  have "xQueueReceive ?w q n st = receive_loop ?w q (Some ?t) n (set_queue q ?Q k2 st)"
    using e nz by (simp add: xQueueReceive_def receive_loop.simps [of ?w q None n st] receive_empty(1) s(1,2)
        time_passes_simps ks entry_time_def)
  also have "\<dots> = Some (None, ?st)"
    using e nz s(3) by (simp add: receive_loop.simps [of ?w q "Some ?t" n "set_queue q ?Q k2 st"] receive_empty(1)
        time_passes_simps entry_time_def expired_empty_def prvIsQueueEmpty_def)
  finally have "xQueueReceive ?w q n st = Some (None, ?st)" .
  then show ?thesis
    using f by (intro exI [of _ ?st]) (simp add: gave_up_def set_queue_def)
qed

lemma send_times_out:
  assumes "kernel T E idle (ks st)" and "settled (ks st)" and "uxSchedulerSuspended (ks st) = 0"
    and "senders q \<in> E" "receivers q \<in> E" and "untouched (qs st q)"
    and "pxCurrentTCB (ks st) = Some cur" "cur \<noteq> idle" and "container (EventItem cur) (ks st) = None"
    and "0 < n" "n \<noteq> portMAX_DELAY"
    and "uxMessagesWaiting (qs st q) = uxLength (qs st q)" and "pos \<noteq> queueOVERWRITE"
  shows "\<exists>st'. xQueueGenericSend (time_passes (unat n)) q x n pos st = Some (False, st') \<and>
    kernel T E idle (ks st') \<and> settled (ks st') \<and> gave_up q cur n st st'"
proof -
  let ?Q = "unlocked (qs st q)" and ?t = "vTaskInternalSetTimeOutState (ks st)" and ?w = "time_passes (unat n)"
  have ks: "(set_queue q ?Q k st)\<lparr>ks := k'\<rparr> = set_queue q ?Q k' st" for k k' by (simp add: set_queue_def)
  have nz: "n \<noteq> 0" using assms(10) by auto
  have e: "uxMessagesWaiting (qs st q) = uxLength (qs st q) \<and> pos \<noteq> queueOVERWRITE" using assms(12,13) by simp
  then have b: "prvIsQueueFull (prvLockQueue (qs st q))" by (simp add: prvIsQueueFull_def lock_untouched(3,4))
  obtain k1 k2 k3 where s: "xQueueGenericSend_block (time_passes (unat n)) q ?t n st = Some (Loop, False, ?t, n, set_queue q ?Q k1 st)"
    "ticks (unat n) k1 = Some k2"
    "xQueueGenericSend_block (time_passes (unat n)) q ?t n (set_queue q ?Q k2 st) =
       map_option (\<lambda>(r, s). (r, False, ?t, 0, s)) (Some (Return False, set_queue q ?Q k3 st))"
    and f: "kernel T E idle k3" "settled k3" "uxSchedulerSuspended k3 = 0" "pxCurrentTCB k3 = Some cur"
    "clock k3 = (clock (ks st) + unat n) mod 2 ^ 64" "container (EventItem cur) k3 = None"
    "container (StateItem cur) k3 = Some (Ready (uxPriority (tcb (ks st) cur)))"
    "\<forall>u. u \<noteq> cur \<longrightarrow> time_left k3 u = count_down (unat n) (time_left (ks st) u)"
    using sleep_then_expire [where busy = prvIsQueueFull and expired = "\<lambda>st. Some (Return False, st)" and world = "time_passes (unat n)",
        OF assms(1-3,6) b assms(7,8,4,9-11) time_passes_simps(2-4) refl refl
          xQueueGenericSend_block_def [of "time_passes (unat n)" q, unfolded xTasksWaitingToSend_def, THEN fun_cong, THEN fun_cong]]
    by blast
  let ?st = "set_queue q ?Q k3 st"
  have "xQueueGenericSend ?w q x n pos st = send_loop ?w q x pos (Some ?t) n (set_queue q ?Q k2 st)"
    using e nz by (simp add: xQueueGenericSend_def send_loop.simps [of ?w q x pos None n st] send_full s(1,2)
        time_passes_simps ks entry_time_def)
  also have "\<dots> = Some (False, ?st)"
    using e nz s(3) by (simp add: send_loop.simps [of ?w q x pos "Some ?t" n "set_queue q ?Q k2 st"] send_full
        time_passes_simps entry_time_def)
  finally have "xQueueGenericSend ?w q x n pos st = Some (False, ?st)" .
  then show ?thesis
    using f by (intro exI [of _ ?st]) (simp add: gave_up_def set_queue_def)
qed


text \<open>C7: no wake-up is lost.  If an interrupt sends an item after a receiver has found the queue
  empty, before or after it was entered in the waiting list, the item is in the queue and the
  first waiter (the receiver itself when no other task waits before it) is ready when the section
  ends.\<close>

theorem queue_no_lost_wakeup:
  assumes "queues_ok T E idle D W st" and "q \<in> D" and "\<not> is_mutex (qs st q)" and "contents (qs st q) = []"
    and "uxSchedulerSuspended (ks st) = 0" and "cTxLock (qs st q) = queueUNLOCKED" "cRxLock (qs st q) = queueUNLOCKED"
    and "pxCurrentTCB (ks st) = Some cur" "cur \<noteq> idle" and "container (EventItem cur) (ks st) = None"
    and "0 < n" "n \<noteq> portMAX_DELAY" and "length x = qsz (qs st q)" and "p = 2 \<or> p = 3"
  shows "\<exists>t t' st'. hd (queue_insert (value_of (ks st)) (EventItem cur) (W (receivers q))) = EventItem t \<and>
    xQueueReceive_block (isr_sends p q x) q (vTaskInternalSetTimeOutState (ks st)) n st = Some (Loop, False, t', n, st') \<and>
    kernel T E idle (ks st') \<and> settled (ks st') \<and> contents (qs st' q) = [x] \<and>
    cTxLock (qs st' q) = queueUNLOCKED \<and> cRxLock (qs st' q) = queueUNLOCKED \<and>
    container (StateItem t) (ks st') = Some (Ready (uxPriority (tcb (ks st) t))) \<and> container (EventItem t) (ks st') = None"
proof -
  note d = queues_ok_D [OF assms(1)]
  let ?s = "lock_queue q (st\<lparr>ks := vTaskSuspendAll (ks st)\<rparr>)" and ?t = "vTaskInternalSetTimeOutState (ks st)"
  let ?w = "isr_sends p q x" and ?W = "queue_insert (value_of (ks st)) (EventItem cur) (W (receivers q))"
  have v: "value_of (vTaskSuspendAll (ks st)) = value_of (ks st)" by simp
  obtain k1 where k1: "vTaskPlaceOnEventList (Event (receivers q)) n (vTaskSuspendAll (ks st)) = Some k1" "kernel T E idle k1"
    "waits E k1 (W(receivers q := ?W))" "same_ctl (vTaskSuspendAll (ks st)) k1"
    "container (EventItem cur) k1 = Some (Event (receivers q))"
    "\<forall>j. item_task j \<noteq> cur \<longrightarrow> container j k1 = container j (ks st)"
    using place_on_event_list [of T E idle "vTaskSuspendAll (ks st)" cur "receivers q" n W]
      d(1,3) d(5) [OF assms(2)] assms(8-11) unfolding v by auto
  note f = same_ctl_D [OF k1(4)]
  have num: "0 < uxCurrentNumberOfTasks (ks st)" by (rule kernel_D(8) [OF d(1)])
  obtain s3 where s3: "ks s3 = k1" "queue_ok (qs s3 q)" "contents (qs s3 q) = [x]" "cTxLock (qs s3 q) = 1"
    "nat (sint (cRxLock (qs s3 q))) = 0" "block_on ?w (Event (receivers q)) q n ?s =
       unlock_and_resume q s3 \<bind> (\<lambda>(y, s). Some (s\<lparr>ks := yield_if (\<not> y) (ks s)\<rparr>))"
    using block_on_isr [of st q x ?s p "Event (receivers q)" n k1] d(6) [OF assms(2,3)] assms(4,6,7,13,14) num k1(1) f by auto
  have pend: "pending k1 = {}"
  proof -
    have "container (EventItem t) k1 \<noteq> Some PendingReady" for t
      using k1(5,6) settled_quiet [OF d(2) assms(5)] by (cases "t = cur") (auto simp: pending_def)
    then show ?thesis by (simp add: pending_def)
  qed
  have "?W \<noteq> []" by (simp add: queue_insert_def)
  then have W: "(W(receivers q := ?W)) (receivers q) = hd ?W # tl ?W" by simp
  have k3: "kernel T E idle (ks s3)" "uxSchedulerSuspended (ks s3) = 1" "xPendedTicks (ks s3) = 0" "pending (ks s3) = {}"
    "waits E (ks s3) (W(receivers q := ?W))"
    using k1(2,3) f(6,7) settled_quiet [OF d(2) assms(5)] assms(5) pend unfolding s3(1) by simp_all
  obtain t y k' where r: "hd ?W = EventItem t"
    "unlock_and_resume q s3 = Some (y, set_queue q (unlocked (qs s3 q)) k' s3)" "kernel T E idle k'" "settled k'"
    "container (StateItem t) k' = Some (Ready (uxPriority (tcb (ks s3) t)))" "container (EventItem t) k' = None"
    using unlock_and_resume_one [OF k3(1-4) d(5) [OF assms(2)] k3(5) W s3(4,5)] by blast
  have c: "xTaskCheckForTimeOut ?t n (ks st) = (False, ?t, n)"
    using check_time_out [of "ks st" "ks st" 0 n] clock_less [of "ks st"] assms(11,12) by (simp add: unat_gt_0)
  have w1: "?w 1 = Some" using assms(14) by (auto simp: isr_sends_def fun_eq_iff)
  have "uxMessagesWaiting (prvLockQueue (qs st q)) = 0"
    using assms(4) length_contents [of "qs st q"] by (simp add: lock_untouched(3) unat_eq_0)
  then have b: "prvIsQueueEmpty (prvLockQueue (qs st q))" by (simp add: prvIsQueueEmpty_def)
  let ?st' = "(set_queue q (unlocked (qs s3 q)) k' s3)\<lparr>ks := yield_if (\<not> y) k'\<rparr>"
  have run: "xQueueReceive_block ?w q ?t n st = Some (Loop, False, ?t, n, ?st')"
    using b c w1 s3(6) r(2) by (simp add: xQueueReceive_block_def suspended_section_def xTasksWaitingToReceive_def)
  note u = queue_ok_cong [OF s3(2), where Q' = "unlocked (qs s3 q)", simplified]
  have "contents (unlocked (qs s3 q)) = [x]" using u(2) s3(3) by (simp add: unlocked_def)
  then show ?thesis using run r s3(1) f(1)
    by (intro exI [of _ t] exI [of _ ?t] exI [of _ ?st']) (simp add: unlocked_def)
qed

subsection \<open>Witnesses\<close>

lemma queue_w_untouched: "untouched (qs queue_w 2)"
  by (simp add: untouched_def queue_w(10,11))


theorem queue_no_lost_wakeup_witness:
  "\<exists>t' st'. xQueueReceive_block (isr_sends 2 2 [7, 9]) 2 (vTaskInternalSetTimeOutState (ks queue_w)) 20 queue_w =
      Some (Loop, False, t', 20, st') \<and> contents (qs st' 2) = [[7, 9]] \<and> container (EventItem 5) (ks st') = None"
proof -
  have e: "(2 :: nat) \<in> {2}" "(5 :: nat) \<noteq> 0" "(0 :: u32) < 20" "(20 :: u32) \<noteq> portMAX_DELAY"
    "length [7, 9 :: u8] = qsz (qs queue_w 2)" "(2 :: nat) = 2 \<or> (2 :: nat) = 3"
    by (simp_all add: portMAX_DELAY_def queue_w(6))
  show ?thesis
    using queue_no_lost_wakeup [OF queue_w(2) e(1) queue_w(3,4,8,11,10,7) e(2) queue_w(9) e(3-6)]
    by (auto simp: queue_insert_def)
qed

end
