(* ===== verification/QueueMutex.thy ===== *)
theory QueueMutex
  imports QueueSpec
begin

text \<open>
  Mutexes: the recursive mutex of \<^verbatim>\<open>queue.c\<close> is a re-entrant lock.
\<close>

subsection \<open>The contract of a re-entrant lock\<close>

datatype lock_op = Lock | Unlock

text \<open>The owner and how often it has locked.\<close>

fun lock_step :: "task \<Rightarrow> lock_op \<Rightarrow> task option \<times> nat \<Rightarrow> bool \<times> task option \<times> nat" where
  "lock_step t Lock (None, d) = (True, Some t, 1)"
| "lock_step t Lock (Some u, d) = (if u = t then (True, Some t, d + 1) else (False, Some u, d))"
| "lock_step t Unlock (None, d) = (False, None, d)"
| "lock_step t Unlock (Some u, d) =
     (if u = t then (True, if d \<le> 1 then (None, 0) else (Some t, d - 1)) else (False, Some u, d))"

fun lock_run :: "(task \<times> lock_op) list \<Rightarrow> task option \<times> nat \<Rightarrow> bool list \<times> task option \<times> nat" where
  "lock_run [] s = ([], s)"
| "lock_run ((t, op) # ops) s =
     (let (r, s1) = lock_step t op s; (rs, s2) = lock_run ops s1 in (r # rs, s2))"

fun impl_lock_run :: "(task \<Rightarrow> lock_op \<Rightarrow> 's \<Rightarrow> (bool \<times> 's) option) \<Rightarrow> (task \<times> lock_op) list \<Rightarrow> 's \<Rightarrow>
    (bool list \<times> 's) option" where
  "impl_lock_run f [] s = Some ([], s)"
| "impl_lock_run f ((t, op) # ops) s =
     do { (r, s1) \<leftarrow> f t op s; (rs, s2) \<leftarrow> impl_lock_run f ops s1; Some (r # rs, s2) }"

text \<open>How often \<open>t\<close> has locked more than unlocked.\<close>

fun balance :: "task \<Rightarrow> (task \<times> lock_op) list \<Rightarrow> bool list \<Rightarrow> int" where
  "balance t ((u, op) # ops) (r # rs) =
     (if u = t \<and> r then (case op of Lock \<Rightarrow> 1 | Unlock \<Rightarrow> - 1) else 0) + balance t ops rs"
| "balance t _ _ = 0"

definition held_by :: "task \<Rightarrow> task option \<times> nat \<Rightarrow> int" where
  "held_by t s = (if fst s = Some t then int (snd s) else 0)"

definition lock_ok :: "task option \<times> nat \<Rightarrow> bool" where
  "lock_ok s \<longleftrightarrow> (fst s = None \<longleftrightarrow> snd s = 0)"

lemma lock_step_held:
  assumes "lock_ok s" and "lock_step u op s = (r, s')"
  shows "lock_ok s'" "held_by t s' = held_by t s + (if u = t \<and> r then (case op of Lock \<Rightarrow> 1 | Unlock \<Rightarrow> - 1) else 0)"
    "snd s' \<le> Suc (snd s)"
  using assms by (cases "(u, op, s)" rule: lock_step.cases; auto simp: lock_ok_def held_by_def split: if_splits)+

lemma lock_run_held:
  "lock_ok s \<Longrightarrow> lock_run ops s = (rs, s') \<Longrightarrow> lock_ok s' \<and> held_by t s' = held_by t s + balance t ops rs"
proof (induction ops s arbitrary: rs rule: lock_run.induct)
  case (2 u op ops s)
  obtain r s1 where s1: "lock_step u op s = (r, s1)" by (cases "lock_step u op s")
  obtain rs1 where rs1: "lock_run ops s1 = (rs1, s')" "rs = r # rs1"
    using 2(3) s1 by (auto split: prod.splits)
  note h = lock_step_held [OF 2(2) s1]
  have "lock_ok s' \<and> held_by t s' = held_by t s1 + balance t ops rs1"
    using 2(1) [OF s1 [symmetric] refl h(1) rs1(1)] s1 by simp
  then show ?case using h(2) [of t] rs1(2) by simp
qed simp

text \<open>At most one task holds the lock.\<close>

lemma lock_run_exclusive:
  assumes "lock_run ops (None, 0) = (rs, s')" and "0 < balance t ops rs" and "0 < balance u ops rs"
  shows "t = u"
proof -
  have "lock_ok (None, 0)" by (simp add: lock_ok_def)
  note h = lock_run_held [OF this assms(1)]
  have "held_by t s' > 0" "held_by u s' > 0" using h [of t] h [of u] assms(2,3) by (simp_all add: held_by_def [of _ "(None, 0)"])
  then show ?thesis by (auto simp: held_by_def split: if_splits)
qed

locale reentrant_lock =
  fixes step :: "task \<Rightarrow> lock_op \<Rightarrow> 's \<Rightarrow> (bool \<times> 's) option"
    and owner :: "'s \<Rightarrow> task option \<times> nat"
    and inv :: "'s \<Rightarrow> bool"
    and tasks :: "task set"
    and bound :: nat
  assumes owner_ok: "inv s \<Longrightarrow> lock_ok (owner s)"
    and step_refines: "inv s \<Longrightarrow> t \<in> tasks \<Longrightarrow> Suc (snd (owner s)) < bound \<Longrightarrow>
      \<exists>r s'. step t op s = Some (r, s') \<and> inv s' \<and> lock_step t op (owner s) = (r, owner s')"
begin

lemma run_refines:
  assumes "inv s" and "\<forall>(t, op) \<in> set ops. t \<in> tasks" and "snd (owner s) + length ops < bound"
    and "lock_run ops (owner s) = (rs, o')"
  shows "\<exists>s'. impl_lock_run step ops s = Some (rs, s') \<and> inv s' \<and> owner s' = o'"
  using assms
proof (induction ops arbitrary: s rs)
  case (Cons a ops)
  obtain t op where a: "a = (t, op)" by (cases a)
  obtain r s1 where s1: "step t op s = Some (r, s1)" "inv s1" "lock_step t op (owner s) = (r, owner s1)"
    using step_refines [OF Cons.prems(1), of t op] Cons.prems(2,3) a by auto
  obtain rs1 where rs1: "lock_run ops (owner s1) = (rs1, o')" "rs = r # rs1"
    using Cons.prems(4) a s1(3) by (auto split: prod.splits)
  have "snd (owner s1) \<le> Suc (snd (owner s))" by (rule lock_step_held(3) [OF owner_ok [OF Cons.prems(1)] s1(3)])
  then obtain s' where "impl_lock_run step ops s1 = Some (rs1, s')" "inv s'" "owner s' = o'"
    using Cons.IH [OF s1(2) _ _ rs1(1)] Cons.prems(2,3) by auto
  then show ?case using s1(1) a rs1(2) by simp
qed simp

end

subsection \<open>The mutex\<close>

definition mutex_ok :: "xQUEUE \<Rightarrow> task option \<Rightarrow> u32 \<Rightarrow> bool" where
  "mutex_ok Q h c \<longleftrightarrow> is_mutex Q \<and> uxItemSize Q = 0 \<and> uxLength Q = 1 \<and> q_union Q = SemaphoreData h c \<and>
     uxMessagesWaiting Q = (if h = None then 1 else 0) \<and> (h = None \<longleftrightarrow> c = 0)"

lemma mutex_ok_D:
  assumes "mutex_ok Q h c"
  shows "is_mutex Q" "uxItemSize Q = 0" "uxLength Q = 1" "q_union Q = SemaphoreData h c"
    "uxMessagesWaiting Q = (if h = None then 1 else 0)" "(h = None) = (c = 0)"
  using assms by (auto simp: mutex_ok_def)

text \<open>The state in which no task waits for the mutex \<open>q\<close> and no task has an inherited priority.\<close>

definition mutex_free_of_waiters :: "task set \<Rightarrow> nat set \<Rightarrow> task \<Rightarrow> nat set \<Rightarrow> nat \<Rightarrow> qsys \<Rightarrow> bool" where
  "mutex_free_of_waiters T E idle D q st \<longleftrightarrow>
     (\<exists>W. queues_ok T E idle D W st \<and> W (senders q) = [] \<and> W (receivers q) = []) \<and> q \<in> D \<and>
     (\<exists>h c. mutex_ok (qs st q) h c) \<and>
     (\<forall>t. uxPriority (tcb (ks st) t) = uxBasePriority (tcb (ks st) t))"

definition mutex_owner :: "nat \<Rightarrow> qsys \<Rightarrow> task option \<times> nat" where
  "mutex_owner q st = (case q_union (qs st q) of SemaphoreData h c \<Rightarrow> (h, unat c) | QueuePointers _ _ \<Rightarrow> (None, 0))"

lemma mutex_owner_eq: "mutex_ok (qs st q) h c \<Longrightarrow> mutex_owner q st = (h, unat c)"
  by (simp add: mutex_owner_def mutex_ok_D(4))

text \<open>Task \<open>t\<close>, while it runs, locks or unlocks the mutex without waiting.\<close>

definition mutex_step :: "(nat \<Rightarrow> qsys \<Rightarrow> qsys option) \<Rightarrow> nat \<Rightarrow> task \<Rightarrow> lock_op \<Rightarrow> qsys \<Rightarrow> (bool \<times> qsys) option" where
  "mutex_step world q t op st =
     (let st1 = st\<lparr>ks := (ks st)\<lparr>pxCurrentTCB := Some t\<rparr>\<rparr>
      in case op of Lock \<Rightarrow> xQueueTakeMutexRecursive world q 0 st1 | Unlock \<Rightarrow> xQueueGiveMutexRecursive q st1)"

lemma waiters_I:
  assumes "queues_ok T E idle D W st" and "W (senders q) = []" "W (receivers q) = []" and "q \<in> D"
    and "mutex_ok (qs st q) h c" and "\<And>t. uxPriority (tcb (ks st) t) = uxBasePriority (tcb (ks st) t)"
  shows "mutex_free_of_waiters T E idle D q st"
  using assms unfolding mutex_free_of_waiters_def by blast

lemma queues_ok_switch:
  assumes "queues_ok T E idle D W st" and "t \<in> T"
  shows "queues_ok T E idle D W (st\<lparr>ks := (ks st)\<lparr>pxCurrentTCB := Some t\<rparr>\<rparr>)"
proof -
  note d = queues_ok_D [OF assms(1)]
  let ?k = "(ks st)\<lparr>pxCurrentTCB := Some t\<rparr>"
  have ls: "ls ?k = ls (ks st)" by simp
  have o: "container j ?k = container j (ks st)" "value_of ?k = value_of (ks st)" "owner_of ?k = owner_of (ks st)" for j
    by (simp_all add: container_def value_of_def owner_of_def fun_eq_iff)
  have "sched T E ?k"
    using kernel_D(1) [OF d(1)] unfolding sched_at_def tasks_at_def lists_ok_def o by simp
  then have "kernel T E idle ?k" using d(1) assms(2) unfolding kernel_def o by simp
  moreover have "settled ?k" using d(2) unfolding settled_def pending_def o by simp
  moreover have "waits E ?k W" using d(3) waits_ls [OF ls] by simp
  ultimately show ?thesis using assms(1) by (simp add: queues_ok_def)
qed

lemma wake_nobody:
  assumes "queues_ok T E idle D W st" and "e \<in> E" "W e = []" and k: "ls k = ls (ks st)"
  shows "wake_first (Event e) k = Some (False, k)" "listLIST_IS_EMPTY (Event e) (ls k)"
proof -
  note d = queues_ok_D [OF assms(1)]
  have "listLIST_IS_EMPTY (Event e) (ls (ks st))"
    using list_empty [OF kernel_D(1) [OF d(1)], of "Event e"] kernel_waits_container [OF d(3) assms(2)] assms(2,3)
    by (auto simp: kernel_lists_def)
  then show "listLIST_IS_EMPTY (Event e) (ls k)" "wake_first (Event e) k = Some (False, k)"
    by (simp_all add: wake_first_def k)
qed

text \<open>Changing the mutex count of a task and the structure of a mutex.\<close>

lemma queues_ok_mutex:
  assumes s: "queues_ok T E idle D W st" and p: "uxPriority cb = uxPriority (tcb (ks st) t)" and m: "is_mutex Q"
  shows "queues_ok T E idle D W (set_queue q Q (set_tcb t cb (ks st)) st)"
proof -
  note d = queues_ok_D [OF s]
  have ls: "ls (set_tcb t cb (ks st)) = ls (ks st)" by (simp add: set_tcb_def)
  have "settled (set_tcb t cb (ks st))" using d(2) by (simp add: settled_def pending_def) (simp add: set_tcb_def)
  then show ?thesis
    using queues_ok_set [OF s kernel_set_tcb [where t = t, OF d(1) p]] waits_ls [OF ls] d(3) m by simp
qed

lemma set_queue_id [simp]: "(set_queue q Q k st)\<lparr>ks := k'\<rparr> = set_queue q Q k' st"
  "set_queue q Q k (set_queue q Q' k' st) = set_queue q Q k st"
  by (simp_all add: set_queue_def)

lemma take_free_mutex:
  assumes m: "mutex_ok (qs st q) None 0" and cur: "pxCurrentTCB (ks st) = Some t"
    and w: "\<forall>k. ls k = ls (ks st) \<longrightarrow> wake_first (xTasksWaitingToSend q) k = Some (False, k)"
  shows "xQueueTakeMutexRecursive world q n st =
    Some (True, set_queue q ((qs st q)\<lparr>uxMessagesWaiting := 0, q_union := SemaphoreData (Some t) 1\<rparr>)
      (set_tcb t ((tcb (ks st) t)\<lparr>uxMutexesHeld := uxMutexesHeld (tcb (ks st) t) + 1\<rparr>) (ks st)) st)"
proof -
  let ?k = "set_tcb t ((tcb (ks st) t)\<lparr>uxMutexesHeld := uxMutexesHeld (tcb (ks st) t) + 1\<rparr>) (ks st)"
  have ls: "ls ?k = ls (ks st)" by (simp add: set_tcb_def)
  show ?thesis
    using mutex_ok_D [OF m] cur w ls
    by (simp add: xQueueTakeMutexRecursive_def xQueueSemaphoreTake_def take_loop.simps xQueueSemaphoreTake_enter_def
        xTaskGetCurrentTaskHandle_def count_recursive_call_def pvTaskIncrementMutexHeldCount_def yield_if_def Let_def)
qed

lemma give_mutex:
  assumes m: "mutex_ok (qs st q) (Some t) 1" and cur: "pxCurrentTCB (ks st) = Some t"
    and base: "uxPriority (tcb (ks st) t) = uxBasePriority (tcb (ks st) t)"
    and w: "\<forall>k. ls k = ls (ks st) \<longrightarrow> wake_first (xTasksWaitingToReceive q) k = Some (False, k) \<and>
      listLIST_IS_EMPTY (xTasksWaitingToReceive q) (ls k)"
  shows "xQueueGiveMutexRecursive q st =
    Some (True, set_queue q ((qs st q)\<lparr>q_union := SemaphoreData None 0, uxMessagesWaiting := 1\<rparr>)
      (set_tcb t ((tcb (ks st) t)\<lparr>uxMutexesHeld := uxMutexesHeld (tcb (ks st) t) - 1\<rparr>) (ks st)) st)"
proof -
  let ?k = "set_tcb t ((tcb (ks st) t)\<lparr>uxMutexesHeld := uxMutexesHeld (tcb (ks st) t) - 1\<rparr>) (ks st)"
  have ls: "ls ?k = ls (ks st)" "tcb ?k t = (tcb (ks st) t)\<lparr>uxMutexesHeld := uxMutexesHeld (tcb (ks st) t) - 1\<rparr>"
    by (simp_all add: set_tcb_def)
  have dis: "xTaskPriorityDisinherit (Some t) (ks st) = Some (False, ?k)"
    using base ls(2) by (simp add: xTaskPriorityDisinherit_def Let_def)
  show ?thesis
    using mutex_ok_D [OF m] cur w ls(1) dis
    by (simp add: xQueueGiveMutexRecursive_def xTaskGetCurrentTaskHandle_def xQueueGenericSend_def send_loop.simps
        xQueueGenericSend_enter_def prvCopyDataToQueue_def yield_if_def Let_def)
qed

lemma word_count:
  fixes c :: u32
  shows "Suc (unat c) < 2 ^ 32 \<Longrightarrow> unat (c + 1) = Suc (unat c) \<and> c + 1 \<noteq> 0"
    "c \<noteq> 0 \<Longrightarrow> unat (c - 1) = unat c - 1"
proof -
  assume a: "Suc (unat c) < 2 ^ 32"
  then have "unat (c + 1) = Suc (unat c)" by (simp add: unat_add_u32)
  then show "unat (c + 1) = Suc (unat c) \<and> c + 1 \<noteq> 0" by (metis Zero_not_Suc unat_0)
qed (simp add: unat_minus_one)

lemma mutex_step_refines:
  assumes i: "mutex_free_of_waiters T E idle D q st" and t: "t \<in> T" and b: "Suc (snd (mutex_owner q st)) < 2 ^ 32"
  shows "\<exists>r st'. mutex_step world q t op st = Some (r, st') \<and> mutex_free_of_waiters T E idle D q st' \<and>
    lock_step t op (mutex_owner q st) = (r, mutex_owner q st')"
proof -
  obtain W h c where W: "queues_ok T E idle D W st" "W (senders q) = []" "W (receivers q) = []" "q \<in> D"
    and m: "mutex_ok (qs st q) h c" and base: "\<And>u. uxPriority (tcb (ks st) u) = uxBasePriority (tcb (ks st) u)"
    using i unfolding mutex_free_of_waiters_def by blast
  define st1 where "st1 = st\<lparr>ks := (ks st)\<lparr>pxCurrentTCB := Some t\<rparr>\<rparr>"
  have q1: "queues_ok T E idle D W st1" unfolding st1_def by (rule queues_ok_switch [OF W(1) t])
  have f: "qs st1 = qs st" "pxCurrentTCB (ks st1) = Some t" "tcb (ks st1) = tcb (ks st)"
    by (simp_all add: st1_def)
  have m1: "mutex_ok (qs st1 q) h c" using m by (simp add: f)
  note md = mutex_ok_D [OF m1]
  have ow: "mutex_owner q st = (h, unat c)" by (rule mutex_owner_eq [OF m])
  have cb: "Suc (unat c) < 2 ^ 32" using b by (simp add: ow)
  have wk: "\<forall>k. ls k = ls (ks st1) \<longrightarrow> wake_first (xTasksWaitingToSend q) k = Some (False, k)"
    using wake_nobody(1) [OF q1 queues_ok_D(4) [OF q1 W(4)] W(2)] by (simp add: xTasksWaitingToSend_def)
  have wr: "\<forall>k. ls k = ls (ks st1) \<longrightarrow> wake_first (xTasksWaitingToReceive q) k = Some (False, k) \<and>
      listLIST_IS_EMPTY (xTasksWaitingToReceive q) (ls k)"
    using wake_nobody [OF q1 queues_ok_D(5) [OF q1 W(4)] W(3)] by (simp add: xTasksWaitingToReceive_def)
  have keep: "mutex_free_of_waiters T E idle D q (set_queue q Q (set_tcb t cb (ks st1)) st1) \<and>
      mutex_owner q (set_queue q Q (set_tcb t cb (ks st1)) st1) = (h', unat c')"
    if "mutex_ok Q h' c'" "uxPriority cb = uxPriority (tcb (ks st1) t)" "uxBasePriority cb = uxBasePriority (tcb (ks st1) t)" for Q h' c' cb
  proof -
    let ?s = "set_queue q Q (set_tcb t cb (ks st1)) st1"
    have "uxPriority (tcb (ks ?s) u) = uxBasePriority (tcb (ks ?s) u)" for u
      using base that(2,3) by (simp add: set_tcb_def f)
    then show ?thesis
      using waiters_I [OF queues_ok_mutex [OF q1 that(2) mutex_ok_D(1) [OF that(1)]] W(2,3,4)] that(1)
        mutex_owner_eq [of ?s q h' c'] by simp
  qed
  have same: "mutex_free_of_waiters T E idle D q st1 \<and> mutex_owner q st1 = (h, unat c)"
    using waiters_I [OF q1 W(2,3,4) m1] base mutex_owner_eq [OF m1] by (simp add: f)
  have id: "set_tcb t (tcb (ks st1) t) (ks st1) = ks st1" by (simp add: set_tcb_def)
  have m0: "h = None \<longleftrightarrow> c = 0" using md(6) .
  show ?thesis
  proof (cases op)
    case Lock
    have step: "mutex_step world q t op st = xQueueTakeMutexRecursive world q 0 st1"
      by (simp add: mutex_step_def Lock st1_def Let_def)
    consider "h = None" | "h = Some t" | u where "h = Some u" "u \<noteq> t" by (cases h) auto
    then show ?thesis
    proof cases
      case 1
      have m2: "mutex_ok (qs st1 q) None 0" using m1 1 m0 by simp
      have mo: "mutex_ok ((qs st1 q)\<lparr>uxMessagesWaiting := 0, q_union := SemaphoreData (Some t) 1\<rparr>) (Some t) 1"
        using md by (simp add: mutex_ok_def)
      show ?thesis unfolding step take_free_mutex [OF m2 f(2) wk]
        using keep [OF mo, of "(tcb (ks st1) t)\<lparr>uxMutexesHeld := uxMutexesHeld (tcb (ks st1) t) + 1\<rparr>"] 1
        by (intro exI [of _ True]) (simp add: ow Lock)
    next
      case 2
      have mo: "mutex_ok ((qs st1 q)\<lparr>q_union := SemaphoreData h (c + 1)\<rparr>) h (c + 1)"
        using md 2 word_count(1) [OF cb] by (simp add: mutex_ok_def)
      have "xQueueTakeMutexRecursive world q 0 st1 =
          Some (True, set_queue q ((qs st1 q)\<lparr>q_union := SemaphoreData h (c + 1)\<rparr>) (ks st1) st1)"
        using md(4) 2 f(2) by (simp add: xQueueTakeMutexRecursive_def xTaskGetCurrentTaskHandle_def count_recursive_call_def)
      then show ?thesis unfolding step using keep [OF mo refl refl] word_count(1) [OF cb] 2
        by (intro exI [of _ True]) (simp add: ow Lock id)
    next
      case 3
      have "xQueueTakeMutexRecursive world q 0 st1 = Some (False, st1)"
        using md 3 f(2) by (simp add: xQueueTakeMutexRecursive_def xTaskGetCurrentTaskHandle_def xQueueSemaphoreTake_def
            take_loop.simps xQueueSemaphoreTake_enter_def)
      then show ?thesis unfolding step using same 3 by (intro exI [of _ False]) (simp add: ow Lock)
    qed
  next
    case Unlock
    have step: "mutex_step world q t op st = xQueueGiveMutexRecursive q st1"
      by (simp add: mutex_step_def Unlock st1_def Let_def)
    show ?thesis
    proof (cases "h = Some t")
      case True
      then have nz: "c \<noteq> 0" using m0 by auto
      show ?thesis
      proof (cases "c = 1")
        case True2: True
        have m2: "mutex_ok (qs st1 q) (Some t) 1" using m1 True True2 by simp
        have mo: "mutex_ok ((qs st1 q)\<lparr>q_union := SemaphoreData None 0, uxMessagesWaiting := 1\<rparr>) None 0"
          using md by (simp add: mutex_ok_def)
        have bs: "uxPriority (tcb (ks st1) t) = uxBasePriority (tcb (ks st1) t)" using base by (simp add: f)
        show ?thesis unfolding step give_mutex [OF m2 f(2) bs wr]
          using keep [OF mo, of "(tcb (ks st1) t)\<lparr>uxMutexesHeld := uxMutexesHeld (tcb (ks st1) t) - 1\<rparr>"] True True2
          by (intro exI [of _ True]) (simp add: ow Unlock)
      next
        case False
        then have "unat c \<noteq> unat (1 :: u32)" unfolding word_unat_eq_iff .
        then have c1: "c - 1 \<noteq> 0" "\<not> unat c \<le> 1" using nz False by (auto simp: le_Suc_eq unat_eq_0)
        have mo: "mutex_ok ((qs st1 q)\<lparr>q_union := SemaphoreData h (c - 1)\<rparr>) h (c - 1)"
          using md True c1 by (simp add: mutex_ok_def)
        have "xQueueGiveMutexRecursive q st1 =
            Some (True, set_queue q ((qs st1 q)\<lparr>q_union := SemaphoreData h (c - 1)\<rparr>) (ks st1) st1)"
          using md(4) True f(2) c1 by (simp add: xQueueGiveMutexRecursive_def xTaskGetCurrentTaskHandle_def Let_def)
        then show ?thesis unfolding step using keep [OF mo refl refl] word_count(2) [OF nz] True c1
          by (intro exI [of _ True]) (simp add: ow Unlock id)
      qed
    next
      case False
      have "xQueueGiveMutexRecursive q st1 = Some (False, st1)"
        using md(4) False f(2) by (simp add: xQueueGiveMutexRecursive_def xTaskGetCurrentTaskHandle_def)
      then show ?thesis unfolding step using same False by (intro exI [of _ False], cases h) (auto simp: ow Unlock)
    qed
  qed
qed

lemma mutex_owner_ok:
  assumes "mutex_free_of_waiters T E idle D q st"
  shows "lock_ok (mutex_owner q st)"
proof -
  obtain h c where m: "mutex_ok (qs st q) h c" using assms by (auto simp: mutex_free_of_waiters_def)
  show ?thesis unfolding mutex_owner_eq [OF m] using mutex_ok_D(6) [OF m] by (auto simp: lock_ok_def unat_eq_0)
qed

interpretation mx: reentrant_lock "mutex_step world q" "mutex_owner q" "mutex_free_of_waiters T E idle D q" T "2 ^ 32"
  for world T E idle D q
  by unfold_locales (erule mutex_owner_ok, rule mutex_step_refines)

subsection \<open>The property\<close>

text \<open>C9: the recursive mutex is a re-entrant lock.  Whichever tasks run and lock or unlock a mutex that
  was created free, the answers are those of the lock: taking succeeds for the owner and when
  nobody owns it, giving for the owner only, and it is free again after as many gives as takes.
  At most one task has taken it more often than it has given it.\<close>

theorem recursive_mutex_is_lock:
  assumes "mutex_free_of_waiters T E idle D q st" and "mutex_owner q st = (None, 0)"
    and "\<forall>(t, op) \<in> set ops. t \<in> T" and "length ops < 2 ^ 32" and "lock_run ops (None, 0) = (rs, h, d)"
  shows "\<exists>st'. impl_lock_run (mutex_step world q) ops st = Some (rs, st') \<and>
    mutex_free_of_waiters T E idle D q st' \<and> mutex_owner q st' = (h, d) \<and>
    (\<forall>t. balance t ops rs = (if h = Some t then int d else 0)) \<and>
    (\<forall>t u. 0 < balance t ops rs \<and> 0 < balance u ops rs \<longrightarrow> t = u)"
proof -
  obtain st' where st': "impl_lock_run (mutex_step world q) ops st = Some (rs, st')"
    "mutex_free_of_waiters T E idle D q st'" "mutex_owner q st' = (h, d)"
    using mx.run_refines [OF assms(1,3), of rs "(h, d)" world] assms(2,4,5) by auto
  have "lock_ok (None, 0)" by (simp add: lock_ok_def)
  then have "balance t ops rs = (if h = Some t then int d else 0)" for t
    using lock_run_held [OF _ assms(5), of t] by (simp add: held_by_def split: if_splits)
  then show ?thesis using st' lock_run_exclusive [OF assms(5)] by blast
qed

subsection \<open>A system with a mutex\<close>

lemma create_mutex:
  assumes s: "queues_ok T E idle D W st" and new: "senders q \<notin> E" "receivers q \<notin> E"
    and malloc: "malloc (sizeof_Queue_t + 1 * 0) = Some block" "length block = unat (sizeof_Queue_t + 1 * 0)"
    and base: "\<And>t. uxPriority (tcb (ks st) t) = uxBasePriority (tcb (ks st) t)"
  shows "\<exists>st'. xQueueCreateMutex malloc type q st = Some (True, st') \<and> mutex_owner q st' = (None, 0) \<and>
    mutex_free_of_waiters T (insert (receivers q) (insert (senders q) E)) idle (insert q D) q st'"
proof -
  obtain st1 where st1: "xQueueGenericCreate malloc 1 0 type q st = Some (True, st1)"
    "queues_ok T (insert (receivers q) (insert (senders q) E)) idle (insert q D) (W(senders q := [], receivers q := [])) st1"
    "contents (qs st1 q) = []" "uxLength (qs st1 q) = 1" "uxItemSize (qs st1 q) = 0"
    "ks st1 = on_lists (vListInitialise (Event (receivers q))) (on_lists (vListInitialise (Event (senders q))) (ks st))"
    using create_queue [where malloc = malloc and len = 1 and sz = 0 and type = type, OF s new malloc] by auto
  let ?E = "insert (receivers q) (insert (senders q) E)" and ?W = "W(senders q := [], receivers q := [])"
  have n0: "uxMessagesWaiting (qs st1 q) = 0" using st1(3) length_contents [of "qs st1 q"] by (simp add: unat_eq_0)
  have tc: "tcb (ks st1) = tcb (ks st)" unfolding st1(6) by (simp add: on_lists_def)
  have w: "wake_first (xTasksWaitingToReceive q) (ks st1) = Some (False, ks st1)"
    "listLIST_IS_EMPTY (xTasksWaitingToReceive q) (ls (ks st1))"
    using wake_nobody [OF st1(2), of "receivers q" "ks st1"] by (simp_all add: xTasksWaitingToReceive_def)
  let ?Q = "(qs st1 q)\<lparr>is_mutex := True, q_union := SemaphoreData None 0, uxMessagesWaiting := 1\<rparr>"
  let ?st' = "set_queue q ?Q (ks st1) st1"
  have run: "xQueueCreateMutex malloc type q st = Some (True, ?st')"
    using st1(1,4,5) n0 w
    by (simp add: xQueueCreateMutex_def prvInitialiseMutex_def xQueueGenericSend_def send_loop.simps
        xQueueGenericSend_enter_def prvCopyDataToQueue_def xTaskPriorityDisinherit_def yield_if_def Let_def)
  have m: "mutex_ok ?Q None 0" using st1(4,5) by (simp add: mutex_ok_def)
  have q1: "queues_ok T ?E idle (insert q D) ?W ?st'"
    using queues_ok_set [OF st1(2) queues_ok_D(1,2,3) [OF st1(2)], of q ?Q] by simp
  have "mutex_free_of_waiters T ?E idle (insert q D) q ?st'"
    using waiters_I [OF q1, of q None 0] m base by (simp add: tc)
  then show ?thesis using run mutex_owner_eq [of ?st' q None 0] m by auto
qed

text \<open>A new task has its base priority, and no other task changes priority.\<close>

lemma add_ready_tcb: "tcb (prvAddTaskToReadyList t st) = tcb st"
  by (simp add: prvAddTaskToReadyList_def taskRECORD_READY_PRIORITY_def on_lists_def Let_def)

lemma add_new_task_tcb:
  "\<exists>n. tcb (prvAddNewTaskToReadyList t st) = (tcb st)(t := (tcb st t)\<lparr>uxTCBNumber := n\<rparr>)"
proof (intro exI)
  show "tcb (prvAddNewTaskToReadyList t st) = (tcb st)(t := (tcb st t)\<lparr>uxTCBNumber := uxTaskNumber st + 1\<rparr>)"
    by (simp add: prvAddNewTaskToReadyList_def Let_def add_ready_tcb set_tcb_def prvInitialiseTaskLists_def
        taskYIELD_IF_USING_PREEMPTION_def split: option.split)
qed

lemma created_base:
  assumes "\<And>u. uxPriority (tcb st u) = uxBasePriority (tcb st u)"
  shows "uxPriority (tcb (snd (xTaskCreate t prio b c st)) u) = uxBasePriority (tcb (snd (xTaskCreate t prio b c st)) u)"
proof -
  obtain n where "tcb (prvAddNewTaskToReadyList t (prvInitialiseNewTask t prio st)) =
      (tcb (prvInitialiseNewTask t prio st))(t := (tcb (prvInitialiseNewTask t prio st) t)\<lparr>uxTCBNumber := n\<rparr>)"
    using add_new_task_tcb by blast
  then show ?thesis using assms new_task_fields(6) [of t prio st] by (simp add: xTaskCreate_def)
qed

lemma tasks_w_base: "uxPriority (tcb tasks_w t) = uxBasePriority (tcb tasks_w t)"
  unfolding tasks_w_def by (intro created_base) (simp add: ktask_zero_def)

definition mutex_sys :: qsys where
  "mutex_sys = snd (the (xQueueCreateMutex zeros 1 4 qsys_0))"

lemma mutex_sys:
  "mutex_owner 4 mutex_sys = (None, 0)" "mutex_free_of_waiters {0, 3, 5} {receivers 4, senders 4} 0 {4} 4 mutex_sys"
proof -
  have z: "zeros (sizeof_Queue_t + 1 * 0) = Some (replicate 80 0)" "length (replicate 80 (0 :: u8)) = unat (sizeof_Queue_t + 1 * 0)"
    by (simp_all add: zeros_def sizeof_Queue_t_def)
  have b: "uxPriority (tcb (ks qsys_0) t) = uxBasePriority (tcb (ks qsys_0) t)" for t
    by (simp add: qsys_0_def tasks_w_base)
  have n: "senders 4 \<notin> {}" "receivers 4 \<notin> {}" by simp_all
  show "mutex_owner 4 mutex_sys = (None, 0)" "mutex_free_of_waiters {0, 3, 5} {receivers 4, senders 4} 0 {4} 4 mutex_sys"
    using create_mutex [where malloc = zeros and q = 4 and type = 1, OF queues_0 n z b]
    by (auto simp: mutex_sys_def)
qed

theorem recursive_mutex_is_lock_witness:
  "\<exists>st'. impl_lock_run (mutex_step (\<lambda>_. Some) 4)
      [(3, Lock), (5, Lock), (3, Lock), (3, Unlock), (5, Unlock), (3, Unlock), (5, Lock)] mutex_sys =
    Some ([True, False, True, True, False, True, True], st') \<and> mutex_owner 4 st' = (Some 5, 1)"
  using recursive_mutex_is_lock [OF mutex_sys(2,1), of "[(3, Lock), (5, Lock), (3, Lock), (3, Unlock), (5, Unlock), (3, Unlock), (5, Lock)]"
      "[True, False, True, True, False, True, True]" "Some 5" 1 "\<lambda>_. Some"] by auto

end
