(* ===== verification/StreamBuffer.thy ===== *)
theory StreamBuffer
  imports QueueTake
begin

text \<open>
  Stream and message buffers, \<^verbatim>\<open>FreeRTOS-Kernel/stream_buffer.c\<close>: a ring of bytes between one sender
  and one receiver, in which a message is its length followed by its bytes.  The waits use task
  notifications.  A copy that leaves the storage area or the caller's buffer is \<open>None\<close>.  As in
  \<open>QueueApi\<close>, \<open>world\<close> is what interrupts and other tasks do between the atomic parts: point 0 is between
  the critical section and the wait, point 1 while the task waits.  The default configuration has no
  callbacks and no static allocation.  \<open>big\<close> is the byte order of the target.
\<close>

subsection \<open>The structure\<close>

record StreamBuffer_t =
  xTail :: u32
  xHead :: u32
  xLength :: u32
  xTriggerLevelBytes :: u32
  xTaskWaitingToReceive :: "task option"
  xTaskWaitingToSend :: "task option"
  pucBuffer :: "u8 list"
  ucFlags :: u8
  uxStreamBufferNumber :: u32

text \<open>The buffer with the kernel.\<close>

record sbsys =
  sb_kernel :: ktask
  sb_buffer :: StreamBuffer_t

definition sbBYTES_TO_STORE_MESSAGE_LENGTH :: u32 where "sbBYTES_TO_STORE_MESSAGE_LENGTH = 4"
definition sbFLAGS_IS_MESSAGE_BUFFER :: u8 where "sbFLAGS_IS_MESSAGE_BUFFER = 1"
definition sbFLAGS_IS_STATICALLY_ALLOCATED :: u8 where "sbFLAGS_IS_STATICALLY_ALLOCATED = 2"
definition sizeof_StreamBuffer_t :: u32 where "sizeof_StreamBuffer_t = 36"

definition is_message_buffer :: "StreamBuffer_t \<Rightarrow> bool" where
  "is_message_buffer B \<longleftrightarrow> ucFlags B AND sbFLAGS_IS_MESSAGE_BUFFER \<noteq> 0"

text \<open>The bytes of a message length in memory, and back.\<close>

definition length_bytes :: "bool \<Rightarrow> u32 \<Rightarrow> u8 list" where
  "length_bytes big v =
     (let bs = [ucast v, ucast (drop_bit 8 v), ucast (drop_bit 16 v), ucast (drop_bit 24 v)]
      in if big then rev bs else bs)"

definition bytes_length :: "bool \<Rightarrow> u8 list \<Rightarrow> u32" where
  "bytes_length big bs = foldr (\<lambda>b v. push_bit 8 v OR ucast b) (if big then rev bs else bs) 0"

subsection \<open>Creation and deletion\<close>

definition prvInitialiseNewStreamBuffer :: "u8 list \<Rightarrow> u32 \<Rightarrow> u32 \<Rightarrow> u8 \<Rightarrow> StreamBuffer_t" where
  "prvInitialiseNewStreamBuffer buf xBufferSizeBytes xTriggerLevel flags =
     \<lparr>xTail = 0, xHead = 0, xLength = xBufferSizeBytes, xTriggerLevelBytes = xTriggerLevel,
      xTaskWaitingToReceive = None, xTaskWaitingToSend = None, pucBuffer = buf, ucFlags = flags,
      uxStreamBufferNumber = 0\<rparr>"

text \<open>\<open>malloc\<close> returns the bytes of a new block; \<open>None\<close> is the result \<^verbatim>\<open>NULL\<close>.\<close>

definition xStreamBufferGenericCreate ::
  "(u32 \<Rightarrow> u8 list option) \<Rightarrow> u32 \<Rightarrow> u32 \<Rightarrow> bool \<Rightarrow> StreamBuffer_t option" where
  "xStreamBufferGenericCreate malloc xBufferSizeBytes xTriggerLevel xIsMessageBuffer =
     (let flags = (if xIsMessageBuffer then sbFLAGS_IS_MESSAGE_BUFFER else 0);
          trigger = (if xTriggerLevel = 0 then 1 else xTriggerLevel)
      in if xBufferSizeBytes < xBufferSizeBytes + 1 + sizeof_StreamBuffer_t
         then
           (case malloc (xBufferSizeBytes + 1 + sizeof_StreamBuffer_t) of
              None \<Rightarrow> None
            | Some block \<Rightarrow>
                Some (prvInitialiseNewStreamBuffer (drop (unat sizeof_StreamBuffer_t) block)
                        (xBufferSizeBytes + 1) trigger flags))
         else None)"

text \<open>\<open>None\<close>: the memory is given back.  A static buffer is cleared instead.\<close>

definition vStreamBufferDelete :: "StreamBuffer_t \<Rightarrow> StreamBuffer_t option" where
  "vStreamBufferDelete B =
     (if ucFlags B AND sbFLAGS_IS_STATICALLY_ALLOCATED = 0 then None
      else Some \<lparr>xTail = 0, xHead = 0, xLength = 0, xTriggerLevelBytes = 0,
        xTaskWaitingToReceive = None, xTaskWaitingToSend = None, pucBuffer = [], ucFlags = 0,
        uxStreamBufferNumber = 0\<rparr>)"

definition xStreamBufferReset :: "StreamBuffer_t \<Rightarrow> bool \<times> StreamBuffer_t" where
  "xStreamBufferReset B =
     (if xTaskWaitingToReceive B = None \<and> xTaskWaitingToSend B = None
      then (pdPASS, (prvInitialiseNewStreamBuffer (pucBuffer B) (xLength B) (xTriggerLevelBytes B) (ucFlags B))
                      \<lparr>uxStreamBufferNumber := uxStreamBufferNumber B\<rparr>)
      else (pdFAIL, B))"

definition xStreamBufferSetTriggerLevel :: "u32 \<Rightarrow> StreamBuffer_t \<Rightarrow> bool \<times> StreamBuffer_t" where
  "xStreamBufferSetTriggerLevel xTriggerLevel B =
     (let trigger = (if xTriggerLevel = 0 then 1 else xTriggerLevel)
      in if trigger < xLength B then (pdPASS, B\<lparr>xTriggerLevelBytes := trigger\<rparr>) else (pdFAIL, B))"

definition uxStreamBufferGetStreamBufferNumber :: "StreamBuffer_t \<Rightarrow> u32" where
  "uxStreamBufferGetStreamBufferNumber B = uxStreamBufferNumber B"

definition vStreamBufferSetStreamBufferNumber :: "u32 \<Rightarrow> StreamBuffer_t \<Rightarrow> StreamBuffer_t" where
  "vStreamBufferSetStreamBufferNumber n B = B\<lparr>uxStreamBufferNumber := n\<rparr>"

definition ucStreamBufferGetStreamBufferType :: "StreamBuffer_t \<Rightarrow> u8" where
  "ucStreamBufferGetStreamBufferType B = ucFlags B AND sbFLAGS_IS_MESSAGE_BUFFER"

subsection \<open>The ring\<close>

text \<open>All sizes are \<^verbatim>\<open>size_t\<close>, so the sums and differences wrap around.\<close>

definition prvBytesInBuffer :: "StreamBuffer_t \<Rightarrow> u32" where
  "prvBytesInBuffer B =
     (let xCount = xLength B + xHead B - xTail B
      in if xCount \<ge> xLength B then xCount - xLength B else xCount)"

text \<open>The loop that reads \<^verbatim>\<open>xTail\<close> again ends at the first pass, since nothing comes between.\<close>

definition xStreamBufferSpacesAvailable :: "StreamBuffer_t \<Rightarrow> u32" where
  "xStreamBufferSpacesAvailable B =
     (let xSpace = xLength B + xTail B - xHead B - 1
      in if xSpace \<ge> xLength B then xSpace - xLength B else xSpace)"

definition xStreamBufferBytesAvailable :: "StreamBuffer_t \<Rightarrow> u32" where
  "xStreamBufferBytesAvailable B = prvBytesInBuffer B"

definition xStreamBufferIsEmpty :: "StreamBuffer_t \<Rightarrow> bool" where
  "xStreamBufferIsEmpty B \<longleftrightarrow> xHead B = xTail B"

definition xStreamBufferIsFull :: "StreamBuffer_t \<Rightarrow> bool" where
  "xStreamBufferIsFull B \<longleftrightarrow>
     xStreamBufferSpacesAvailable B \<le> (if is_message_buffer B then sbBYTES_TO_STORE_MESSAGE_LENGTH else 0)"

text \<open>The results: the new position, with the buffer or the bytes.\<close>

definition prvWriteBytesToBuffer :: "u8 list \<Rightarrow> u32 \<Rightarrow> u32 \<Rightarrow> StreamBuffer_t \<Rightarrow> (u32 \<times> StreamBuffer_t) option" where
  "prvWriteBytesToBuffer pucData xCount head B =
     do {
       let xFirstLength = min (xLength B - head) xCount;
       s1 \<leftarrow> memcpy_to (int (unat head)) pucData (unat xFirstLength) (pucBuffer B);
       s2 \<leftarrow> (if xCount > xFirstLength
              then memcpy_to 0 (drop (unat xFirstLength) pucData) (unat (xCount - xFirstLength)) s1
              else Some s1);
       let h = head + xCount;
       Some (if h \<ge> xLength B then h - xLength B else h, B\<lparr>pucBuffer := s2\<rparr>)
     }"

definition prvReadBytesFromBuffer :: "u32 \<Rightarrow> u32 \<Rightarrow> StreamBuffer_t \<Rightarrow> (u32 \<times> u8 list) option" where
  "prvReadBytesFromBuffer xCount tail B =
     do {
       let xFirstLength = min (xLength B - tail) xCount;
       d1 \<leftarrow> memcpy_from (int (unat tail)) (unat xFirstLength) (pucBuffer B);
       d2 \<leftarrow> (if xCount > xFirstLength then memcpy_from 0 (unat (xCount - xFirstLength)) (pucBuffer B)
              else Some []);
       let t = tail + xCount;
       Some (if t \<ge> xLength B then t - xLength B else t, d1 @ d2)
     }"

text \<open>The result: the number of bytes written.\<close>

definition prvWriteMessageToBuffer ::
  "bool \<Rightarrow> u8 list \<Rightarrow> u32 \<Rightarrow> u32 \<Rightarrow> u32 \<Rightarrow> StreamBuffer_t \<Rightarrow> (u32 \<times> StreamBuffer_t) option" where
  "prvWriteMessageToBuffer big pvTxData xDataLengthBytes xSpace xRequiredSpace B =
     do {
       (n, head, B1) \<leftarrow>
         (if is_message_buffer B then
            if xSpace \<ge> xRequiredSpace then
              do {
                (h, B') \<leftarrow> prvWriteBytesToBuffer (length_bytes big xDataLengthBytes)
                            sbBYTES_TO_STORE_MESSAGE_LENGTH (xHead B) B;
                Some (xDataLengthBytes, h, B')
              }
            else Some (0, xHead B, B)
          else Some (min xDataLengthBytes xSpace, xHead B, B));
       if n \<noteq> 0 then
         do {
           (h, B2) \<leftarrow> prvWriteBytesToBuffer pvTxData n head B1;
           Some (n, B2\<lparr>xHead := h\<rparr>)
         }
       else Some (n, B1)
     }"

text \<open>The result: the bytes read; their number is \<^verbatim>\<open>xCount\<close>.\<close>

definition prvReadMessageFromBuffer ::
  "bool \<Rightarrow> u32 \<Rightarrow> u32 \<Rightarrow> StreamBuffer_t \<Rightarrow> (u8 list \<times> StreamBuffer_t) option" where
  "prvReadMessageFromBuffer big xBufferLengthBytes xBytesAvailable B =
     do {
       (n, tail, avail) \<leftarrow>
         (if is_message_buffer B then
            do {
              (t, bs) \<leftarrow> prvReadBytesFromBuffer sbBYTES_TO_STORE_MESSAGE_LENGTH (xTail B) B;
              let m = bytes_length big bs;
              Some (if m > xBufferLengthBytes then 0 else m, t, xBytesAvailable - sbBYTES_TO_STORE_MESSAGE_LENGTH)
            }
          else Some (xBufferLengthBytes, xTail B, xBytesAvailable));
       let xCount = min n avail;
       if xCount \<noteq> 0 then
         do { (t, data) \<leftarrow> prvReadBytesFromBuffer xCount tail B; Some (data, B\<lparr>xTail := t\<rparr>) }
       else Some ([], B)
     }"

definition xStreamBufferNextMessageLengthBytes :: "bool \<Rightarrow> StreamBuffer_t \<Rightarrow> u32 option" where
  "xStreamBufferNextMessageLengthBytes big B =
     (if is_message_buffer B then
        if prvBytesInBuffer B > sbBYTES_TO_STORE_MESSAGE_LENGTH
        then map_option (\<lambda>(_, bs). bytes_length big bs)
               (prvReadBytesFromBuffer sbBYTES_TO_STORE_MESSAGE_LENGTH (xTail B) B)
        else Some 0
      else Some 0)"

subsection \<open>Waking the other side\<close>

text \<open>\<^verbatim>\<open>sbSEND_COMPLETED\<close>, \<^verbatim>\<open>sbRECEIVE_COMPLETED\<close>: the task that waits is notified, with the scheduler
  suspended.\<close>

definition notify_waiting :: "task option \<Rightarrow> ktask \<Rightarrow> ktask option" where
  "notify_waiting waiting k =
     do {
       let k1 = vTaskSuspendAll k;
       k2 \<leftarrow> (case waiting of
                None \<Rightarrow> Some k1
              | Some t \<Rightarrow> map_option (\<lambda>(_, _, k'). k') (xTaskGenericNotify t 0 eNoAction k1));
       map_option snd (xTaskResumeAll k2)
     }"

definition sbSEND_COMPLETED :: "sbsys \<Rightarrow> sbsys option" where
  "sbSEND_COMPLETED st =
     do {
       k \<leftarrow> notify_waiting (xTaskWaitingToReceive (sb_buffer st)) (sb_kernel st);
       Some \<lparr>sb_kernel = k, sb_buffer = (sb_buffer st)\<lparr>xTaskWaitingToReceive := None\<rparr>\<rparr>
     }"

definition sbRECEIVE_COMPLETED :: "sbsys \<Rightarrow> sbsys option" where
  "sbRECEIVE_COMPLETED st =
     do {
       k \<leftarrow> notify_waiting (xTaskWaitingToSend (sb_buffer st)) (sb_kernel st);
       Some \<lparr>sb_kernel = k, sb_buffer = (sb_buffer st)\<lparr>xTaskWaitingToSend := None\<rparr>\<rparr>
     }"

text \<open>In an interrupt; the results: whether a task waited, and whether a task of higher priority was woken.\<close>

definition notify_waiting_from_isr :: "task option \<Rightarrow> ktask \<Rightarrow> (bool \<times> bool \<times> ktask) option" where
  "notify_waiting_from_isr waiting k =
     (case waiting of
        None \<Rightarrow> Some (False, False, k)
      | Some t \<Rightarrow> map_option (\<lambda>(_, _, woken, k'). (True, woken, k')) (xTaskGenericNotifyFromISR t 0 eNoAction k))"

definition xStreamBufferSendCompletedFromISR :: "sbsys \<Rightarrow> (bool \<times> bool \<times> sbsys) option" where
  "xStreamBufferSendCompletedFromISR st =
     do {
       (r, woken, k) \<leftarrow> notify_waiting_from_isr (xTaskWaitingToReceive (sb_buffer st)) (sb_kernel st);
       Some (r, woken, \<lparr>sb_kernel = k, sb_buffer = (sb_buffer st)\<lparr>xTaskWaitingToReceive := None\<rparr>\<rparr>)
     }"

definition xStreamBufferReceiveCompletedFromISR :: "sbsys \<Rightarrow> (bool \<times> bool \<times> sbsys) option" where
  "xStreamBufferReceiveCompletedFromISR st =
     do {
       (r, woken, k) \<leftarrow> notify_waiting_from_isr (xTaskWaitingToSend (sb_buffer st)) (sb_kernel st);
       Some (r, woken, \<lparr>sb_kernel = k, sb_buffer = (sb_buffer st)\<lparr>xTaskWaitingToSend := None\<rparr>\<rparr>)
     }"

subsection \<open>Sending\<close>

text \<open>\<^verbatim>\<open>xTaskNotifyWait( 0, 0, NULL, xTicksToWait )\<close>.\<close>

definition sb_notify_wait :: "(nat \<Rightarrow> sbsys \<Rightarrow> sbsys option) \<Rightarrow> u32 \<Rightarrow> sbsys \<Rightarrow> sbsys option" where
  "sb_notify_wait world xTicksToWait st =
     do {
       k \<leftarrow> xTaskGenericNotifyWait_enter 0 xTicksToWait (sb_kernel st);
       st1 \<leftarrow> world 1 (st\<lparr>sb_kernel := k\<rparr>);
       (_, _, k1) \<leftarrow> xTaskGenericNotifyWait_leave 0 (sb_kernel st1);
       Some (st1\<lparr>sb_kernel := k1\<rparr>)
     }"

text \<open>The loop that waits for room; the result is \<^verbatim>\<open>xSpace\<close>.\<close>

partial_function (option) send_wait ::
  "(nat \<Rightarrow> sbsys \<Rightarrow> sbsys option) \<Rightarrow> u32 \<Rightarrow> TimeOut_t \<Rightarrow> u32 \<Rightarrow> sbsys \<Rightarrow> (u32 \<times> sbsys) option" where
  "send_wait world xRequiredSpace xTimeOut xTicksToWait st =
     (let xSpace = xStreamBufferSpacesAvailable (sb_buffer st) in
      if xSpace < xRequiredSpace then
        do {
          (_, k) \<leftarrow> xTaskGenericNotifyStateClear None (sb_kernel st);
          st1 \<leftarrow> world 0 \<lparr>sb_kernel = k,
                    sb_buffer = (sb_buffer st)\<lparr>xTaskWaitingToSend := xTaskGetCurrentTaskHandle k\<rparr>\<rparr>;
          st2 \<leftarrow> sb_notify_wait world xTicksToWait st1;
          let st3 = st2\<lparr>sb_buffer := (sb_buffer st2)\<lparr>xTaskWaitingToSend := None\<rparr>\<rparr>;
          let (timed_out, t, n) = xTaskCheckForTimeOut xTimeOut xTicksToWait (sb_kernel st3);
          if timed_out then Some (xSpace, st3) else send_wait world xRequiredSpace t n st3
        }
      else Some (xSpace, st))"

definition send_completed :: "u32 \<Rightarrow> sbsys \<Rightarrow> sbsys option" where
  "send_completed xReturn st =
     (if xReturn > 0 \<and> prvBytesInBuffer (sb_buffer st) \<ge> xTriggerLevelBytes (sb_buffer st)
      then sbSEND_COMPLETED st else Some st)"

definition xStreamBufferSend ::
  "bool \<Rightarrow> (nat \<Rightarrow> sbsys \<Rightarrow> sbsys option) \<Rightarrow> u8 list \<Rightarrow> u32 \<Rightarrow> u32 \<Rightarrow> sbsys \<Rightarrow> (u32 \<times> sbsys) option" where
  "xStreamBufferSend big world pvTxData xDataLengthBytes xTicksToWait st =
     do {
       let xMaxReportedSpace = xLength (sb_buffer st) - 1;
       let (xRequiredSpace, ticks_to_wait) =
         (if is_message_buffer (sb_buffer st)
          then let r = xDataLengthBytes + sbBYTES_TO_STORE_MESSAGE_LENGTH
               in (r, if r > xMaxReportedSpace then 0 else xTicksToWait)
          else (if xDataLengthBytes > xMaxReportedSpace then xMaxReportedSpace else xDataLengthBytes, xTicksToWait));
       (xSpace, st1) \<leftarrow>
         (if ticks_to_wait \<noteq> 0
          then send_wait world xRequiredSpace (vTaskSetTimeOutState (sb_kernel st)) ticks_to_wait st
          else Some (0, st));
       let xSpace' = (if xSpace = 0 then xStreamBufferSpacesAvailable (sb_buffer st1) else xSpace);
       (xReturn, B) \<leftarrow> prvWriteMessageToBuffer big pvTxData xDataLengthBytes xSpace' xRequiredSpace (sb_buffer st1);
       st2 \<leftarrow> send_completed xReturn (st1\<lparr>sb_buffer := B\<rparr>);
       Some (xReturn, st2)
     }"

text \<open>The second component of the result says whether a task of higher priority was woken.\<close>

definition xStreamBufferSendFromISR ::
  "bool \<Rightarrow> u8 list \<Rightarrow> u32 \<Rightarrow> sbsys \<Rightarrow> (u32 \<times> bool \<times> sbsys) option" where
  "xStreamBufferSendFromISR big pvTxData xDataLengthBytes st =
     do {
       let xRequiredSpace = (if is_message_buffer (sb_buffer st)
                             then xDataLengthBytes + sbBYTES_TO_STORE_MESSAGE_LENGTH else xDataLengthBytes);
       let xSpace = xStreamBufferSpacesAvailable (sb_buffer st);
       (xReturn, B) \<leftarrow> prvWriteMessageToBuffer big pvTxData xDataLengthBytes xSpace xRequiredSpace (sb_buffer st);
       let st1 = st\<lparr>sb_buffer := B\<rparr>;
       if xReturn > 0 \<and> prvBytesInBuffer B \<ge> xTriggerLevelBytes B
       then do { (_, woken, st2) \<leftarrow> xStreamBufferSendCompletedFromISR st1; Some (xReturn, woken, st2) }
       else Some (xReturn, False, st1)
     }"

subsection \<open>Receiving\<close>

text \<open>The wait of the receiver; the result is \<^verbatim>\<open>xBytesAvailable\<close>.\<close>

definition receive_wait ::
  "(nat \<Rightarrow> sbsys \<Rightarrow> sbsys option) \<Rightarrow> u32 \<Rightarrow> u32 \<Rightarrow> sbsys \<Rightarrow> (u32 \<times> sbsys) option" where
  "receive_wait world xBytesToStoreMessageLength xTicksToWait st =
     (let xBytesAvailable = prvBytesInBuffer (sb_buffer st) in
      if xBytesAvailable \<le> xBytesToStoreMessageLength then
        do {
          (_, k) \<leftarrow> xTaskGenericNotifyStateClear None (sb_kernel st);
          st1 \<leftarrow> world 0 \<lparr>sb_kernel = k,
                    sb_buffer = (sb_buffer st)\<lparr>xTaskWaitingToReceive := xTaskGetCurrentTaskHandle k\<rparr>\<rparr>;
          st2 \<leftarrow> sb_notify_wait world xTicksToWait st1;
          let st3 = st2\<lparr>sb_buffer := (sb_buffer st2)\<lparr>xTaskWaitingToReceive := None\<rparr>\<rparr>;
          Some (prvBytesInBuffer (sb_buffer st3), st3)
        }
      else Some (xBytesAvailable, st))"

definition xStreamBufferReceive ::
  "bool \<Rightarrow> (nat \<Rightarrow> sbsys \<Rightarrow> sbsys option) \<Rightarrow> u32 \<Rightarrow> u32 \<Rightarrow> sbsys \<Rightarrow> (u8 list \<times> sbsys) option" where
  "xStreamBufferReceive big world xBufferLengthBytes xTicksToWait st =
     do {
       let xBytesToStoreMessageLength =
         (if is_message_buffer (sb_buffer st) then sbBYTES_TO_STORE_MESSAGE_LENGTH else 0);
       (xBytesAvailable, st1) \<leftarrow>
         (if xTicksToWait \<noteq> 0 then receive_wait world xBytesToStoreMessageLength xTicksToWait st
          else Some (prvBytesInBuffer (sb_buffer st), st));
       if xBytesAvailable > xBytesToStoreMessageLength then
         do {
           (data, B) \<leftarrow> prvReadMessageFromBuffer big xBufferLengthBytes xBytesAvailable (sb_buffer st1);
           let st2 = st1\<lparr>sb_buffer := B\<rparr>;
           st3 \<leftarrow> (if data \<noteq> [] then sbRECEIVE_COMPLETED st2 else Some st2);
           Some (data, st3)
         }
       else Some ([], st1)
     }"

definition xStreamBufferReceiveFromISR ::
  "bool \<Rightarrow> u32 \<Rightarrow> sbsys \<Rightarrow> (u8 list \<times> bool \<times> sbsys) option" where
  "xStreamBufferReceiveFromISR big xBufferLengthBytes st =
     do {
       let xBytesToStoreMessageLength =
         (if is_message_buffer (sb_buffer st) then sbBYTES_TO_STORE_MESSAGE_LENGTH else 0);
       let xBytesAvailable = prvBytesInBuffer (sb_buffer st);
       if xBytesAvailable > xBytesToStoreMessageLength then
         do {
           (data, B) \<leftarrow> prvReadMessageFromBuffer big xBufferLengthBytes xBytesAvailable (sb_buffer st);
           let st1 = st\<lparr>sb_buffer := B\<rparr>;
           if data \<noteq> []
           then do { (_, woken, st2) \<leftarrow> xStreamBufferReceiveCompletedFromISR st1; Some (data, woken, st2) }
           else Some (data, False, st1)
         }
       else Some ([], False, st)
     }"

end
