(* ===== verification/StreamRing.thy ===== *)
theory StreamRing
  imports StreamBuffer QueueBlock
begin

text \<open>
  The ring of a stream buffer as a list of bytes: \<open>sb_bytes B\<close> is what has been written and not yet
  read, in order.  Writing appends to it and reading takes from its front; a message buffer holds
  the frames of its messages.
\<close>

subsection \<open>Contents and invariant\<close>

abbreviation sb_len :: "StreamBuffer_t \<Rightarrow> nat" where "sb_len B \<equiv> unat (xLength B)"

definition ring_bytes :: "'a list \<Rightarrow> nat \<Rightarrow> nat \<Rightarrow> 'a list" where
  "ring_bytes s p n = take n (rotate p s)"

definition sb_count :: "StreamBuffer_t \<Rightarrow> nat" where
  "sb_count B = (sb_len B + unat (xHead B) - unat (xTail B)) mod sb_len B"

definition sb_bytes :: "StreamBuffer_t \<Rightarrow> u8 list" where
  "sb_bytes B = ring_bytes (pucBuffer B) (unat (xTail B)) (sb_count B)"

text \<open>The storage area of 2 GB at most keeps the sums of two positions below the wrap-around.\<close>

definition sb_ok :: "StreamBuffer_t \<Rightarrow> bool" where
  "sb_ok B \<longleftrightarrow> length (pucBuffer B) = sb_len B \<and> 0 < sb_len B \<and> sb_len B \<le> 2 ^ 31 \<and>
     xHead B < xLength B \<and> xTail B < xLength B"

lemma sb_ok_D:
  assumes "sb_ok B"
  shows "length (pucBuffer B) = sb_len B" "0 < sb_len B" "sb_len B \<le> 2 ^ 31"
    "unat (xHead B) < sb_len B" "unat (xTail B) < sb_len B"
  using assms by (simp_all add: sb_ok_def word_less_nat_alt)

lemma sb_count_less: "sb_ok B \<Longrightarrow> sb_count B < sb_len B"
  by (simp add: sb_count_def sb_ok_D)

lemma length_ring_bytes: "n \<le> length s \<Longrightarrow> length (ring_bytes s p n) = n"
  by (simp add: ring_bytes_def)

lemma length_sb_bytes: "sb_ok B \<Longrightarrow> length (sb_bytes B) = sb_count B"
  using sb_count_less [of B] by (simp add: sb_bytes_def length_ring_bytes sb_ok_D)

lemma wrap_once: "(x :: nat) < 2 * L \<Longrightarrow> x mod L = (if L \<le> x then x - L else x)"
  by (simp add: mod_if)

lemma count_head: "sb_ok B \<Longrightarrow> (unat (xTail B) + sb_count B) mod sb_len B = unat (xHead B)"
  using sb_ok_D [of B] by (simp add: sb_count_def mod_add_right_eq)

text \<open>A sum or difference of positions, as the code wraps it once.\<close>

lemma unat_wrap_once:
  fixes x L :: u32
  assumes "unat x < 2 * unat L"
  shows "unat (if x \<ge> L then x - L else x) = unat x mod unat L"
  using assms by (auto simp: wrap_once word_le_nat_alt unat_sub)

lemma unat_sum_diff:
  fixes a b c :: u32
  assumes "unat c \<le> unat a + unat b" and "unat a + unat b < 2 ^ 32"
  shows "unat (a + b - c) = unat a + unat b - unat c"
proof -
  have s: "unat (a + b) = unat a + unat b" using assms(2) by (simp add: unat_word_ariths)
  then have "c \<le> a + b" using assms(1) by (simp add: word_le_nat_alt)
  then show ?thesis using s by (simp add: unat_sub)
qed

lemma bytes_in_buffer:
  assumes "sb_ok B"
  shows "unat (prvBytesInBuffer B) = sb_count B"
proof -
  note d = sb_ok_D [OF assms]
  have "unat (xLength B + xHead B - xTail B) = sb_len B + unat (xHead B) - unat (xTail B)"
    using d by (subst unat_sum_diff) simp_all
  then show ?thesis
    using d unat_wrap_once [of "xLength B + xHead B - xTail B" "xLength B"]
    by (simp add: prvBytesInBuffer_def Let_def sb_count_def)
qed

lemma spaces_available:
  assumes "sb_ok B"
  shows "unat (xStreamBufferSpacesAvailable B) = sb_len B - 1 - sb_count B"
proof -
  note d = sb_ok_D [OF assms]
  have "unat (xLength B + xTail B - xHead B) = sb_len B + unat (xTail B) - unat (xHead B)"
    using d by (subst unat_sum_diff) simp_all
  then have n: "unat (xLength B + xTail B - xHead B - 1) = sb_len B + unat (xTail B) - unat (xHead B) - 1"
    using d by (subst unat_sub) (simp_all add: word_le_nat_alt)
  have "(sb_len B + unat (xTail B) - unat (xHead B) - 1) mod sb_len B = sb_len B - 1 - sb_count B"
    using d by (auto simp: sb_count_def wrap_once)
  then show ?thesis
    using n d unat_wrap_once [of "xLength B + xTail B - xHead B - 1" "xLength B"]
    by (simp add: xStreamBufferSpacesAvailable_def Let_def)
qed

subsection \<open>Copies around the end of the storage area\<close>

lemma rotate_split: "p < length s \<Longrightarrow> rotate p s = drop p s @ take p s"
  by (simp add: rotate_drop_take)

text \<open>The position after \<open>n\<close> bytes, and the length of the first of the two copies.\<close>

lemma wrap_pos:
  fixes t n L :: u32
  assumes "unat t < unat L" and "unat n \<le> unat L" and "unat L \<le> 2 ^ 31"
  shows "(if t + n \<ge> L then t + n - L else t + n) = w32 ((unat t + unat n) mod unat L)"
proof -
  have small: "unat t + unat n < 2 ^ 32" using assms by simp
  have sum: "unat (t + n) = unat t + unat n" using unat_sum_diff [of 0 t n] small by simp
  have less: "unat (t + n) < 2 * unat L" unfolding sum using assms(1,2) by linarith
  have "unat (if t + n \<ge> L then t + n - L else t + n) = (unat t + unat n) mod unat L"
    using unat_wrap_once [OF less] by (simp only: sum)
  then have "w32 (unat (if t + n \<ge> L then t + n - L else t + n)) = w32 ((unat t + unat n) mod unat L)"
    by (simp only:)
  then show ?thesis by (simp only: w32_unat)
qed

lemma first_copy:
  fixes t n L :: u32
  assumes "unat t < unat L"
  shows "unat n \<le> unat L - unat t \<Longrightarrow> min (L - t) n = n"
    "\<not> unat n \<le> unat L - unat t \<Longrightarrow> min (L - t) n = L - t" "unat (L - t) = unat L - unat t"
    "\<not> unat n \<le> unat L - unat t \<Longrightarrow> L - t < n \<and> unat (n - (L - t)) = unat n - (unat L - unat t)"
proof -
  show room: "unat (L - t) = unat L - unat t"
    using assms by (simp add: unat_sub word_le_nat_alt)
  then show "unat n \<le> unat L - unat t \<Longrightarrow> min (L - t) n = n"
    "\<not> unat n \<le> unat L - unat t \<Longrightarrow> min (L - t) n = L - t"
    by (auto simp: min_def word_le_nat_alt word_unat_eq_iff)
  show "\<not> unat n \<le> unat L - unat t \<Longrightarrow> L - t < n \<and> unat (n - (L - t)) = unat n - (unat L - unat t)"
    using room by (simp add: word_less_nat_alt unat_sub word_le_nat_alt)
qed

lemma read_bytes:
  assumes "sb_ok B" and "unat t < sb_len B" and "unat n \<le> sb_len B"
  shows "prvReadBytesFromBuffer n t B =
    Some (w32 ((unat t + unat n) mod sb_len B), ring_bytes (pucBuffer B) (unat t) (unat n))"
proof -
  note d = sb_ok_D [OF assms(1)] and pos = wrap_pos [OF assms(2,3)]
  show ?thesis
  proof (cases "unat n \<le> sb_len B - unat t")
    case True
    have "memcpy_from (int (unat t)) (unat n) (pucBuffer B) = Some (take (unat n) (drop (unat t) (pucBuffer B)))"
      using True d assms(2) by (simp add: memcpy_from_def)
    then show ?thesis
      using True pos d assms(2) first_copy(1) [OF assms(2) True]
      by (simp add: prvReadBytesFromBuffer_def ring_bytes_def rotate_split del: of_nat_unat)
  next
    case False
    let ?m = "sb_len B - unat t"
    have "memcpy_from (int (unat t)) ?m (pucBuffer B) = Some (take ?m (drop (unat t) (pucBuffer B)))"
      "memcpy_from 0 (unat n - ?m) (pucBuffer B) = Some (take (unat n - ?m) (pucBuffer B))"
      using d assms by (simp_all add: memcpy_from_def)
    moreover have "take (unat n - ?m) (take (unat t) (pucBuffer B)) = take (unat n - ?m) (pucBuffer B)"
      using assms(3) by (simp add: min_def)
    ultimately show ?thesis
      using False pos d assms(2) first_copy(2,4) [OF assms(2), of n] first_copy(3) [OF assms(2)]
      by (simp add: prvReadBytesFromBuffer_def ring_bytes_def rotate_split del: of_nat_unat)
  qed
qed

lemma write_bytes:
  assumes "sb_ok B" and "unat h < sb_len B" and "unat n \<le> sb_len B" and "unat n \<le> length x"
  shows "\<exists>s. prvWriteBytesToBuffer x n h B = Some (w32 ((unat h + unat n) mod sb_len B), B\<lparr>pucBuffer := s\<rparr>) \<and>
    length s = sb_len B \<and> rotate (unat h) s = take (unat n) x @ drop (unat n) (rotate (unat h) (pucBuffer B))"
proof -
  note d = sb_ok_D [OF assms(1)] and pos = wrap_pos [OF assms(2,3)]
  show ?thesis
  proof (cases "unat n \<le> sb_len B - unat h")
    case True
    let ?s = "take (unat h) (pucBuffer B) @ take (unat n) x @ drop (unat h + unat n) (pucBuffer B)"
    have "memcpy_to (int (unat h)) x (unat n) (pucBuffer B) = Some ?s"
      using True d assms by (simp add: memcpy_to_def)
    then have "prvWriteBytesToBuffer x n h B = Some (w32 ((unat h + unat n) mod sb_len B), B\<lparr>pucBuffer := ?s\<rparr>)"
      using pos d first_copy(1) [OF assms(2) True] by (simp add: prvWriteBytesToBuffer_def del: of_nat_unat)
    moreover have "length ?s = sb_len B" using True assms d by simp
    moreover have "rotate (unat h) ?s = take (unat n) x @ drop (unat n) (rotate (unat h) (pucBuffer B))"
      using True assms d by (simp add: rotate_split add.commute)
    ultimately show ?thesis by blast
  next
    case False
    let ?m = "sb_len B - unat h"
    let ?s1 = "take (unat h) (pucBuffer B) @ take ?m x"
    let ?s = "take (unat n - ?m) (drop ?m x) @ drop (unat n - ?m) ?s1"
    have l: "length ?s1 = sb_len B" "unat n - ?m \<le> sb_len B" "unat n - ?m \<le> length x - ?m"
      using False d assms by auto
    have "memcpy_to (int (unat h)) x ?m (pucBuffer B) = Some ?s1"
      using False d assms by (simp add: memcpy_to_def)
    moreover have "memcpy_to 0 (drop ?m x) (unat n - ?m) ?s1 = Some ?s"
      unfolding memcpy_to_def using l by (simp del: take_append drop_append length_append)
    ultimately have "prvWriteBytesToBuffer x n h B = Some (w32 ((unat h + unat n) mod sb_len B), B\<lparr>pucBuffer := ?s\<rparr>)"
      using False pos d first_copy(2,4) [OF assms(2), of n] first_copy(3) [OF assms(2)]
      by (simp add: prvWriteBytesToBuffer_def del: of_nat_unat)
    moreover have "length ?s = sb_len B" using False assms d by simp
    moreover have "rotate (unat h) ?s = take (unat n) x @ drop (unat n) (rotate (unat h) (pucBuffer B))"
    proof -
      have "take ?m x @ take (unat n - ?m) (drop ?m x) = take (unat n) x"
        using False by (simp add: take_add [symmetric])
      then show ?thesis using False assms d by (simp add: rotate_split)
    qed
    ultimately show ?thesis by blast
  qed
qed

subsection \<open>Writing and reading on the contents\<close>

lemma ring_put:
  assumes "length s' = length s" and "c + length x \<le> length s" and "c < length s"
    and w: "rotate ((p + c) mod length s) s' = x @ drop (length x) (rotate ((p + c) mod length s) s)"
  shows "ring_bytes s' p (c + length x) = ring_bytes s p c @ x"
proof -
  let ?R = "rotate p s" and ?R' = "rotate p s'"
  have r: "rotate ((p + c) mod length s) t = drop c (rotate p t) @ take c (rotate p t)" if "length t = length s" for t :: "'a list"
  proof -
    have "rotate ((p + c) mod length s) t = rotate c (rotate p t)"
      using rotate_conv_mod [of "p + c" t] that by (simp add: rotate_rotate add.commute)
    then show ?thesis using assms(3) that by (simp add: rotate_split)
  qed
  have "drop c ?R' @ take c ?R' = (x @ drop (length x) (drop c ?R)) @ take c ?R"
    using w r [of s] r [OF assms(1)] assms(2) by simp
  moreover have "length (drop c ?R') = length (x @ drop (length x) (drop c ?R))"
    using assms(1,2) by simp
  ultimately have "drop c ?R' = x @ drop (length x) (drop c ?R)" "take c ?R' = take c ?R"
    by (metis append_eq_append_conv)+
  then show ?thesis by (simp add: ring_bytes_def take_add)
qed

lemma ring_take:
  assumes "n + m \<le> length s"
  shows "ring_bytes s p (n + m) = ring_bytes s p n @ ring_bytes s ((p + n) mod length s) m"
proof (cases "n < length s")
  case True
  have "rotate ((p + n) mod length s) s = drop n (rotate p s) @ take n (rotate p s)"
    using rotate_conv_mod [of "p + n" s] True rotate_split [of n "rotate p s"]
    by (simp add: rotate_rotate add.commute)
  then show ?thesis using assms by (simp add: ring_bytes_def take_add)
qed (use assms in \<open>simp add: ring_bytes_def\<close>)

lemma pos_mod_small: "sb_ok B \<Longrightarrow> x mod sb_len B < 2 ^ 32"
  using sb_ok_D(2,3) [of B] mod_less_divisor [of "sb_len B" x] by (simp del: mod_less_divisor)

lemma mod_cancel: "(r + i) mod L = (r + n) mod (L :: nat) \<Longrightarrow> i < L \<Longrightarrow> n < L \<Longrightarrow> i = n"
  using ring_index_neq [of i n L r] ring_index_neq [of n i L r] by (metis linorder_neqE_nat)

lemma sb_append:
  assumes "sb_ok B" and "sb_count B + length x < sb_len B" and "length s = sb_len B"
    and "rotate (unat (xHead B)) s = x @ drop (length x) (rotate (unat (xHead B)) (pucBuffer B))"
  defines "B' \<equiv> B\<lparr>pucBuffer := s, xHead := w32 ((unat (xHead B) + length x) mod sb_len B)\<rparr>"
  shows "sb_ok B'" "sb_count B' = sb_count B + length x" "sb_bytes B' = sb_bytes B @ x"
proof -
  note d = sb_ok_D [OF assms(1)]
  have head: "unat (xHead B') = (unat (xHead B) + length x) mod sb_len B"
    using pos_mod_small [OF assms(1)] by (simp add: B'_def)
  show ok: "sb_ok B'"
    using d assms(3) head by (simp add: sb_ok_def word_less_nat_alt B'_def)
  have "(unat (xHead B) + length x) mod sb_len B = (unat (xTail B) + (sb_count B + length x)) mod sb_len B"
    using count_head [OF assms(1)] by (metis add.assoc mod_add_left_eq)
  then have "(unat (xTail B) + sb_count B') mod sb_len B = (unat (xTail B) + (sb_count B + length x)) mod sb_len B"
    using count_head [OF ok] head by (simp add: B'_def)
  moreover have "sb_count B' < sb_len B" using sb_count_less [OF ok] by (simp add: B'_def)
  ultimately show c: "sb_count B' = sb_count B + length x"
    using assms(2) by (rule mod_cancel)
  show "sb_bytes B' = sb_bytes B @ x"
    using ring_put [of s "pucBuffer B" "sb_count B" x "unat (xTail B)"] assms(2-4) d c count_head [OF assms(1)]
    by (simp add: sb_bytes_def B'_def)
qed

lemma sb_consume:
  assumes "sb_ok B" and "n \<le> sb_count B"
  defines "B' \<equiv> B\<lparr>xTail := w32 ((unat (xTail B) + n) mod sb_len B)\<rparr>"
  shows "sb_ok B'" "sb_count B' = sb_count B - n" "sb_bytes B' = drop n (sb_bytes B)"
proof -
  note d = sb_ok_D [OF assms(1)]
  have tail: "unat (xTail B') = (unat (xTail B) + n) mod sb_len B"
    using pos_mod_small [OF assms(1)] by (simp add: B'_def)
  show ok: "sb_ok B'"
    using d tail by (simp add: sb_ok_def word_less_nat_alt B'_def)
  have "((unat (xTail B) + n) mod sb_len B + sb_count B') mod sb_len B = unat (xHead B)"
    using count_head [OF ok] tail by (simp add: B'_def)
  then have "(unat (xTail B) + n + sb_count B') mod sb_len B = (unat (xTail B) + n + (sb_count B - n)) mod sb_len B"
    using count_head [OF assms(1)] assms(2) by (simp add: mod_add_left_eq)
  moreover have "sb_count B' < sb_len B" "sb_count B - n < sb_len B"
    using sb_count_less [OF ok] sb_count_less [OF assms(1)] by (simp_all add: B'_def)
  ultimately show c: "sb_count B' = sb_count B - n" by (rule mod_cancel)
  have "sb_bytes B = ring_bytes (pucBuffer B) (unat (xTail B)) n @ sb_bytes B'"
    using ring_take [of n "sb_count B - n" "pucBuffer B" "unat (xTail B)"] sb_count_less [OF assms(1)] assms(2) d c tail
    by (simp add: sb_bytes_def B'_def)
  moreover have "length (ring_bytes (pucBuffer B) (unat (xTail B)) n) = n"
    using sb_count_less [OF assms(1)] assms(2) d by (simp add: length_ring_bytes)
  ultimately show "sb_bytes B' = drop n (sb_bytes B)" by (metis append_eq_conv_conj)
qed

subsection \<open>Messages in the ring\<close>

lemma length_length_bytes [simp]: "length (length_bytes big v) = 4"
  by (simp add: length_bytes_def Let_def)

lemma bytes_length_roundtrip [simp]: "bytes_length big (length_bytes big v) = v"
proof -
  have "foldr (\<lambda>b v. push_bit 8 v OR ucast b)
      [ucast v :: u8, ucast (drop_bit 8 v), ucast (drop_bit 16 v), ucast (drop_bit 24 v)] 0 = v"
  proof (rule bit_word_eqI)
    fix n assume "n < LENGTH(32)"
    consider "n < 8" | "8 \<le> n" "n < 16" | "16 \<le> n" "n < 24" | "24 \<le> n" by linarith
    then show "bit (foldr (\<lambda>b v. push_bit 8 v OR ucast b)
        [ucast v :: u8, ucast (drop_bit 8 v), ucast (drop_bit 16 v), ucast (drop_bit 24 v)] (0 :: u32)) n = bit v n"
      using \<open>n < LENGTH(32)\<close> by cases (auto simp: bit_simps)
  qed
  then show ?thesis by (simp add: bytes_length_def length_bytes_def Let_def)
qed

text \<open>The fields that copies leave alone.\<close>

definition sb_same :: "StreamBuffer_t \<Rightarrow> StreamBuffer_t \<Rightarrow> bool" where
  "sb_same B B' \<longleftrightarrow> xLength B' = xLength B \<and> xTriggerLevelBytes B' = xTriggerLevelBytes B \<and>
     xTaskWaitingToReceive B' = xTaskWaitingToReceive B \<and> xTaskWaitingToSend B' = xTaskWaitingToSend B \<and>
     ucFlags B' = ucFlags B \<and> uxStreamBufferNumber B' = uxStreamBufferNumber B"

lemma sb_same_refl [simp]: "sb_same B B"
  by (simp add: sb_same_def)

lemma sb_same_message: "sb_same B B' \<Longrightarrow> is_message_buffer B' = is_message_buffer B"
  by (simp add: sb_same_def is_message_buffer_def)

text \<open>Data that fits is appended to the contents by a write at the head.\<close>

lemma write_at_head:
  assumes "sb_ok B" and "unat n \<le> length x" and "sb_count B + unat n < sb_len B"
  shows "\<exists>s. prvWriteBytesToBuffer x n (xHead B) B = Some (w32 ((unat (xHead B) + unat n) mod sb_len B), B\<lparr>pucBuffer := s\<rparr>) \<and>
    (let B' = B\<lparr>pucBuffer := s, xHead := w32 ((unat (xHead B) + unat n) mod sb_len B)\<rparr> in
     sb_ok B' \<and> sb_count B' = sb_count B + unat n \<and> sb_bytes B' = sb_bytes B @ take (unat n) x)"
proof -
  have n: "unat n \<le> sb_len B" using assms(3) by simp
  have len: "length (take (unat n) x) = unat n" using assms(2) by simp
  obtain s where s: "prvWriteBytesToBuffer x n (xHead B) B = Some (w32 ((unat (xHead B) + unat n) mod sb_len B), B\<lparr>pucBuffer := s\<rparr>)"
    "length s = sb_len B" "rotate (unat (xHead B)) s = take (unat n) x @ drop (unat n) (rotate (unat (xHead B)) (pucBuffer B))"
    using write_bytes [OF assms(1) sb_ok_D(4) [OF assms(1)] n assms(2)] by blast
  show ?thesis
    using sb_append [OF assms(1), of "take (unat n) x" s] s assms(3) unfolding len
    by (intro exI [of _ s]) (simp add: Let_def)
qed

lemma read_at_tail:
  assumes "sb_ok B" and "unat n \<le> sb_count B"
  shows "prvReadBytesFromBuffer n (xTail B) B =
    Some (w32 ((unat (xTail B) + unat n) mod sb_len B), take (unat n) (sb_bytes B))"
  using read_bytes [OF assms(1) sb_ok_D(5) [OF assms(1)], of n] sb_count_less [OF assms(1)] assms(2)
  by (simp add: sb_bytes_def ring_bytes_def min_def)

subsection \<open>The two kinds of buffer\<close>

lemma write_stream:
  assumes "sb_ok B" and "\<not> is_message_buffer B" and "unat len \<le> length x" and "unat space \<le> sb_len B - 1 - sb_count B"
  shows "\<exists>B'. prvWriteMessageToBuffer big x len space req B = Some (min len space, B') \<and> sb_ok B' \<and> sb_same B B' \<and>
    sb_bytes B' = sb_bytes B @ take (unat (min len space)) x"
proof (cases "min len space = 0")
  case True
  then show ?thesis using assms(1,2) by (simp add: prvWriteMessageToBuffer_def)
next
  case False
  let ?n = "min len space"
  have n: "unat ?n \<le> length x" "sb_count B + unat ?n < sb_len B"
    using assms(3,4) sb_count_less [OF assms(1)] by (auto simp: min_def word_le_nat_alt)
  obtain s where s: "prvWriteBytesToBuffer x ?n (xHead B) B = Some (w32 ((unat (xHead B) + unat ?n) mod sb_len B), B\<lparr>pucBuffer := s\<rparr>)"
    "sb_ok (B\<lparr>pucBuffer := s, xHead := w32 ((unat (xHead B) + unat ?n) mod sb_len B)\<rparr>)"
    "sb_bytes (B\<lparr>pucBuffer := s, xHead := w32 ((unat (xHead B) + unat ?n) mod sb_len B)\<rparr>) = sb_bytes B @ take (unat ?n) x"
    using write_at_head [OF assms(1) n] by (auto simp: Let_def)
  show ?thesis
    using s False assms(2) by (simp add: prvWriteMessageToBuffer_def sb_same_def)
qed

lemma write_ignores_head:
  assumes "prvWriteBytesToBuffer x n h (B\<lparr>pucBuffer := s, xHead := k\<rparr>) = Some (p, B\<lparr>pucBuffer := t, xHead := k\<rparr>)"
  shows "prvWriteBytesToBuffer x n h (B\<lparr>pucBuffer := s\<rparr>) = Some (p, B\<lparr>pucBuffer := t\<rparr>)"
  using assms
  by (cases B) (auto simp: prvWriteBytesToBuffer_def Let_def Option.bind_eq_Some_conv cong: if_cong)

lemma write_message:
  assumes "sb_ok B" and "is_message_buffer B" and len: "length x = unat len" "0 < len" and req: "unat req = unat len + 4"
    and space: "unat req \<le> unat space" "unat space \<le> sb_len B - 1 - sb_count B"
  shows "\<exists>B'. prvWriteMessageToBuffer big x len space req B = Some (len, B') \<and> sb_ok B' \<and> sb_same B B' \<and>
    sb_bytes B' = sb_bytes B @ length_bytes big len @ x"
proof -
  have room: "sb_count B + (unat len + 4) < sb_len B"
    using space req sb_count_less [OF assms(1)] by simp
  have four: "unat (4 :: u32) \<le> length (length_bytes big len)" "sb_count B + unat (4 :: u32) < sb_len B"
    using room by simp_all
  let ?h = "w32 ((unat (xHead B) + unat (4 :: u32)) mod sb_len B)"
  obtain s where s: "prvWriteBytesToBuffer (length_bytes big len) 4 (xHead B) B = Some (?h, B\<lparr>pucBuffer := s\<rparr>)"
    "sb_ok (B\<lparr>pucBuffer := s, xHead := ?h\<rparr>)" "sb_count (B\<lparr>pucBuffer := s, xHead := ?h\<rparr>) = sb_count B + unat (4 :: u32)"
    "sb_bytes (B\<lparr>pucBuffer := s, xHead := ?h\<rparr>) = sb_bytes B @ take (unat (4 :: u32)) (length_bytes big len)"
    using write_at_head [OF assms(1) four] by (auto simp: Let_def)
  let ?B = "B\<lparr>pucBuffer := s, xHead := ?h\<rparr>"
  have n: "unat len \<le> length x" "sb_count ?B + unat len < sb_len ?B"
    using len room s(3) by simp_all
  obtain s' where s': "prvWriteBytesToBuffer x len ?h ?B = Some (w32 ((unat (xHead ?B) + unat len) mod sb_len ?B), ?B\<lparr>pucBuffer := s'\<rparr>)"
    "sb_ok (?B\<lparr>pucBuffer := s', xHead := w32 ((unat (xHead ?B) + unat len) mod sb_len ?B)\<rparr>)"
    "sb_bytes (?B\<lparr>pucBuffer := s', xHead := w32 ((unat (xHead ?B) + unat len) mod sb_len ?B)\<rparr>) = sb_bytes ?B @ take (unat len) x"
    using write_at_head [OF s(2) n] by (auto simp: Let_def)
  have s'': "prvWriteBytesToBuffer x len ?h (B\<lparr>pucBuffer := s\<rparr>) =
      Some (w32 ((unat (xHead ?B) + unat len) mod sb_len ?B), B\<lparr>pucBuffer := s'\<rparr>)"
    by (rule write_ignores_head [where k = ?h]) (use s'(1) in simp)
  have "space \<ge> req" using space by (simp add: word_le_nat_alt)
  moreover have "len \<noteq> 0" using len(2) by simp
  ultimately show ?thesis
    using s(1,4) s'(2,3) s'' assms(2) len(1)
    by (simp add: prvWriteMessageToBuffer_def sbBYTES_TO_STORE_MESSAGE_LENGTH_def sb_same_def)
qed

lemma write_message_refused:
  assumes "is_message_buffer B" and "unat space < unat req"
  shows "prvWriteMessageToBuffer big x len space req B = Some (0, B)"
  using assms by (simp add: prvWriteMessageToBuffer_def word_le_nat_alt)

lemma read_stream:
  assumes "sb_ok B" and "\<not> is_message_buffer B" and "unat avail = sb_count B"
  shows "\<exists>B'. prvReadMessageFromBuffer big n avail B = Some (take (unat n) (sb_bytes B), B') \<and> sb_ok B' \<and> sb_same B B' \<and>
    sb_bytes B' = drop (unat n) (sb_bytes B)"
proof (cases "min n avail = 0")
  case True
  then have "unat n = 0 \<or> sb_count B = 0" using assms(3) by (auto simp: min_def split: if_splits)
  then show ?thesis using True assms(1,2) length_sb_bytes [OF assms(1)]
    by (auto simp: prvReadMessageFromBuffer_def)
next
  case False
  let ?n = "min n avail"
  have n: "unat ?n = min (unat n) (sb_count B)" using assms(3) by (simp add: min_def word_le_nat_alt)
  have t: "take (unat ?n) (sb_bytes B) = take (unat n) (sb_bytes B)" "drop (unat ?n) (sb_bytes B) = drop (unat n) (sb_bytes B)"
    using length_sb_bytes [OF assms(1)] n by (simp_all add: min_def)
  show ?thesis
    using read_at_tail [OF assms(1), of ?n] sb_consume [OF assms(1), of "unat ?n"] False assms(2) n t
    by (simp add: prvReadMessageFromBuffer_def sb_same_def)
qed

lemma read_message:
  assumes "sb_ok B" and "is_message_buffer B" and avail: "unat avail = sb_count B"
    and frame: "sb_bytes B = length_bytes big len @ x @ rest" and len: "length x = unat len" "0 < len"
  shows "unat len \<le> unat n \<Longrightarrow> \<exists>B'. prvReadMessageFromBuffer big n avail B = Some (x, B') \<and> sb_ok B' \<and> sb_same B B' \<and>
      sb_bytes B' = rest"
    and "unat n < unat len \<Longrightarrow> prvReadMessageFromBuffer big n avail B = Some ([], B)"
proof -
  have count: "sb_count B = 4 + unat len + length rest"
    using length_sb_bytes [OF assms(1)] frame len by simp
  let ?t = "w32 ((unat (xTail B) + unat (4 :: u32)) mod sb_len B)" and ?B = "B\<lparr>xTail := w32 ((unat (xTail B) + 4) mod sb_len B)\<rparr>"
  have r4: "prvReadBytesFromBuffer 4 (xTail B) B = Some (?t, length_bytes big len)"
    using read_at_tail [OF assms(1), of 4] count frame by simp
  show "prvReadMessageFromBuffer big n avail B = Some ([], B)" if "unat n < unat len"
    using that r4 assms(2) by (simp add: prvReadMessageFromBuffer_def sbBYTES_TO_STORE_MESSAGE_LENGTH_def word_less_nat_alt)
  assume fit: "unat len \<le> unat n"
  have nz: "len \<noteq> 0" using len(2) by simp
  have B: "sb_ok ?B" "sb_count ?B = sb_count B - 4" "sb_bytes ?B = x @ rest"
    using sb_consume [OF assms(1), of 4] count frame by simp_all
  have "4 \<le> avail" using avail count by (simp add: word_le_nat_alt)
  then have "unat (avail - 4) = sb_count B - 4" using avail by (simp add: unat_sub)
  then have m: "min len (avail - 4) = len" using count by (simp add: min_def word_le_nat_alt)
  have "prvReadBytesFromBuffer len ?t B = prvReadBytesFromBuffer len (xTail ?B) ?B"
    by (simp add: prvReadBytesFromBuffer_def cong: if_cong)
  then have r: "prvReadBytesFromBuffer len ?t B = Some (w32 ((unat (xTail ?B) + unat len) mod sb_len ?B), x)"
    using read_at_tail [OF B(1), of len] B count len(1) by simp
  then show "\<exists>B'. prvReadMessageFromBuffer big n avail B = Some (x, B') \<and> sb_ok B' \<and> sb_same B B' \<and> sb_bytes B' = rest"
    using sb_consume [OF B(1), of "unat len"] B(2,3) r4 m nz len assms(2) fit count
    by (simp add: prvReadMessageFromBuffer_def sbBYTES_TO_STORE_MESSAGE_LENGTH_def word_less_nat_alt sb_same_def)
qed

end
