(* ===== verification/SysArch.thy ===== *)
theory SysArch
  imports QueueMutex StreamRing
begin

text \<open>
  The port of lwIP to the kernel, \<^verbatim>\<open>projects/arch/sys_arch.c\<close>, in the configuration of \<^verbatim>\<open>lwipopts.h\<close>.  The structures
  \<^verbatim>\<open>sys_mutex_t\<close>, \<^verbatim>\<open>sys_sem_t\<close> and \<^verbatim>\<open>sys_mbox_t\<close> hold one handle, the number of a queue or \<open>None\<close> for null.  A failed
  assertion is \<open>None\<close>: on the boards it is printed and the call goes on.
\<close>

type_synonym err_t = "8 word"
type_synonym handle = "nat option"

definition ERR_OK :: err_t where "ERR_OK = 0"
definition ERR_MEM :: err_t where "ERR_MEM = - 1"
definition ERR_NEED_SCHED :: err_t where "ERR_NEED_SCHED = 123"
definition SYS_ARCH_TIMEOUT :: u32 where "SYS_ARCH_TIMEOUT = 0xffffffff"
definition SYS_MBOX_EMPTY :: u32 where "SYS_MBOX_EMPTY = SYS_ARCH_TIMEOUT"

definition LWIP_ASSERT :: "bool \<Rightarrow> unit option" where
  "LWIP_ASSERT b = (if b then Some () else None)"

lemma LWIP_ASSERT_bind [simp]: "LWIP_ASSERT b \<bind> f = (if b then f () else None)"
  by (simp add: LWIP_ASSERT_def)

subsection \<open>Time\<close>

definition CONFIG_SYSTICK_MS :: u32 where "CONFIG_SYSTICK_MS = 1"
definition portTICK_PERIOD_MS :: u32 where "portTICK_PERIOD_MS = CONFIG_SYSTICK_MS"

definition sys_now :: "ktask \<Rightarrow> u32" where
  "sys_now k = xTaskGetTickCount k * portTICK_PERIOD_MS"

definition sys_jiffies :: "ktask \<Rightarrow> u32" where
  "sys_jiffies k = xTaskGetTickCount k * portTICK_PERIOD_MS"

definition sys_arch_msleep :: "u32 \<Rightarrow> ktask \<Rightarrow> ktask option" where
  "sys_arch_msleep delay_ms k = vTaskDelay (delay_ms div portTICK_PERIOD_MS) k"

subsection \<open>Mutexes\<close>

text \<open>\<open>q\<close> is the number a new queue gets.\<close>

definition sys_mutex_new :: "(u32 \<Rightarrow> u8 list option) \<Rightarrow> nat \<Rightarrow> qsys \<Rightarrow> (err_t \<times> handle \<times> qsys) option" where
  "sys_mutex_new malloc q st =
     do {
       (made, st1) \<leftarrow> xQueueCreateMutex malloc 4 q st;
       Some (if made then (ERR_OK, Some q, st1) else (ERR_MEM, None, st1))
     }"

definition sys_mutex_lock :: "(nat \<Rightarrow> qsys \<Rightarrow> qsys option) \<Rightarrow> handle \<Rightarrow> qsys \<Rightarrow> qsys option" where
  "sys_mutex_lock world mut st =
     do {
       LWIP_ASSERT (mut \<noteq> None);
       (ret, st1) \<leftarrow> xQueueTakeMutexRecursive world (the mut) portMAX_DELAY st;
       LWIP_ASSERT ret;
       Some st1
     }"

definition sys_mutex_unlock :: "handle \<Rightarrow> qsys \<Rightarrow> qsys option" where
  "sys_mutex_unlock mut st =
     do {
       LWIP_ASSERT (mut \<noteq> None);
       (ret, st1) \<leftarrow> xQueueGiveMutexRecursive (the mut) st;
       LWIP_ASSERT ret;
       Some st1
     }"

definition sys_mutex_free :: "handle \<Rightarrow> qsys \<Rightarrow> (handle \<times> qsys) option" where
  "sys_mutex_free mut st =
     do { LWIP_ASSERT (mut \<noteq> None); Some (None, snd (vQueueDelete (the mut) st)) }"

subsection \<open>Semaphores\<close>

text \<open>\<^verbatim>\<open>xSemaphoreGive\<close>.\<close>

definition xSemaphoreGive :: "nat \<Rightarrow> qsys \<Rightarrow> (bool \<times> qsys) option" where
  "xSemaphoreGive q st = xQueueGenericSend (\<lambda>_. Some) q [] 0 queueSEND_TO_BACK st"

definition sys_sem_new :: "(u32 \<Rightarrow> u8 list option) \<Rightarrow> u8 \<Rightarrow> nat \<Rightarrow> qsys \<Rightarrow> (err_t \<times> handle \<times> qsys) option" where
  "sys_sem_new malloc initial_count q st =
     do {
       LWIP_ASSERT (initial_count = 0 \<or> initial_count = 1);
       (made, st1) \<leftarrow> xQueueGenericCreate malloc 1 0 3 q st;
       if \<not> made then Some (ERR_MEM, None, st1)
       else if initial_count = 1 then
         do {
           (ret, st2) \<leftarrow> xSemaphoreGive q st1;
           LWIP_ASSERT ret;
           Some (ERR_OK, Some q, st2)
         }
       else Some (ERR_OK, Some q, st1)
     }"

definition sys_sem_signal :: "handle \<Rightarrow> qsys \<Rightarrow> qsys option" where
  "sys_sem_signal sem st = do { LWIP_ASSERT (sem \<noteq> None); map_option snd (xSemaphoreGive (the sem) st) }"

definition sys_arch_sem_wait :: "(nat \<Rightarrow> qsys \<Rightarrow> qsys option) \<Rightarrow> handle \<Rightarrow> u32 \<Rightarrow> qsys \<Rightarrow> (u32 \<times> qsys) option" where
  "sys_arch_sem_wait world sem timeout_ms st =
     do {
       LWIP_ASSERT (sem \<noteq> None);
       if timeout_ms = 0 then
         do {
           (ret, st1) \<leftarrow> xQueueSemaphoreTake world (the sem) portMAX_DELAY st;
           LWIP_ASSERT ret;
           Some (1, st1)
         }
       else
         do {
           (ret, st1) \<leftarrow> xQueueSemaphoreTake world (the sem) (timeout_ms div portTICK_PERIOD_MS) st;
           Some (if ret then 1 else SYS_ARCH_TIMEOUT, st1)
         }
     }"

definition sys_sem_free :: "handle \<Rightarrow> qsys \<Rightarrow> (handle \<times> qsys) option" where
  "sys_sem_free sem st =
     do { LWIP_ASSERT (sem \<noteq> None); Some (None, snd (vQueueDelete (the sem) st)) }"

subsection \<open>Mailboxes\<close>

text \<open>A message is a pointer, stored as four bytes; \<open>big\<close> is the byte order of the board.\<close>

definition sys_mbox_new :: "(u32 \<Rightarrow> u8 list option) \<Rightarrow> u32 \<Rightarrow> nat \<Rightarrow> qsys \<Rightarrow> (err_t \<times> handle \<times> qsys) option" where
  "sys_mbox_new malloc sz q st =
     do {
       LWIP_ASSERT (0 <s sz);
       (made, st1) \<leftarrow> xQueueGenericCreate malloc sz 4 0 q st;
       Some (if made then (ERR_OK, Some q, st1) else (ERR_MEM, None, st1))
     }"

definition sys_mbox_post :: "bool \<Rightarrow> (nat \<Rightarrow> qsys \<Rightarrow> qsys option) \<Rightarrow> handle \<Rightarrow> u32 \<Rightarrow> qsys \<Rightarrow> qsys option" where
  "sys_mbox_post big world mbx msg st =
     do {
       LWIP_ASSERT (mbx \<noteq> None);
       (ret, st1) \<leftarrow> xQueueGenericSend world (the mbx) (length_bytes big msg) portMAX_DELAY queueSEND_TO_BACK st;
       LWIP_ASSERT ret;
       Some st1
     }"

definition sys_mbox_trypost :: "bool \<Rightarrow> (nat \<Rightarrow> qsys \<Rightarrow> qsys option) \<Rightarrow> handle \<Rightarrow> u32 \<Rightarrow> qsys \<Rightarrow> (err_t \<times> qsys) option" where
  "sys_mbox_trypost big world mbx msg st =
     do {
       LWIP_ASSERT (mbx \<noteq> None);
       (ret, st1) \<leftarrow> xQueueGenericSend world (the mbx) (length_bytes big msg) 0 queueSEND_TO_BACK st;
       Some (if ret then ERR_OK else ERR_MEM, st1)
     }"

definition sys_mbox_trypost_fromisr :: "bool \<Rightarrow> handle \<Rightarrow> u32 \<Rightarrow> qsys \<Rightarrow> (err_t \<times> qsys) option" where
  "sys_mbox_trypost_fromisr big mbx msg st =
     do {
       LWIP_ASSERT (mbx \<noteq> None);
       (ret, xHigherPriorityTaskWoken, st1) \<leftarrow> xQueueGenericSendFromISR (the mbx) (length_bytes big msg) queueSEND_TO_BACK st;
       Some (if ret then if xHigherPriorityTaskWoken then ERR_NEED_SCHED else ERR_OK else ERR_MEM, st1)
     }"

text \<open>The message is null if none was fetched.\<close>

definition sys_arch_mbox_fetch ::
  "bool \<Rightarrow> (nat \<Rightarrow> qsys \<Rightarrow> qsys option) \<Rightarrow> handle \<Rightarrow> u32 \<Rightarrow> qsys \<Rightarrow> (u32 \<times> u32 \<times> qsys) option" where
  "sys_arch_mbox_fetch big world mbx timeout_ms st =
     do {
       LWIP_ASSERT (mbx \<noteq> None);
       if timeout_ms = 0 then
         do {
           (ret, st1) \<leftarrow> xQueueReceive world (the mbx) portMAX_DELAY st;
           LWIP_ASSERT (ret \<noteq> None);
           Some (1, bytes_length big (the ret), st1)
         }
       else
         do {
           (ret, st1) \<leftarrow> xQueueReceive world (the mbx) (timeout_ms div portTICK_PERIOD_MS) st;
           Some (case ret of None \<Rightarrow> (SYS_ARCH_TIMEOUT, 0, st1) | Some bs \<Rightarrow> (1, bytes_length big bs, st1))
         }
     }"

definition sys_arch_mbox_tryfetch ::
  "bool \<Rightarrow> (nat \<Rightarrow> qsys \<Rightarrow> qsys option) \<Rightarrow> handle \<Rightarrow> qsys \<Rightarrow> (u32 \<times> u32 \<times> qsys) option" where
  "sys_arch_mbox_tryfetch big world mbx st =
     do {
       LWIP_ASSERT (mbx \<noteq> None);
       (ret, st1) \<leftarrow> xQueueReceive world (the mbx) 0 st;
       Some (case ret of None \<Rightarrow> (SYS_MBOX_EMPTY, 0, st1) | Some bs \<Rightarrow> (0, bytes_length big bs, st1))
     }"

definition sys_mbox_free :: "handle \<Rightarrow> qsys \<Rightarrow> qsys option" where
  "sys_mbox_free mbx st = do { LWIP_ASSERT (mbx \<noteq> None); Some (snd (vQueueDelete (the mbx) st)) }"

subsection \<open>Threads and the core lock\<close>

text \<open>\<open>t\<close> is the task made; the two booleans say whether its memory could be allocated.\<close>

definition sys_thread_new :: "int \<Rightarrow> u32 \<Rightarrow> task \<Rightarrow> bool \<Rightarrow> bool \<Rightarrow> qsys \<Rightarrow> (task \<times> qsys) option" where
  "sys_thread_new stacksize prio t pxStack pxNewTCB st =
     do {
       LWIP_ASSERT (stacksize > 0);
       let (ret, k) = xTaskCreate t prio pxStack pxNewTCB (ks st);
       LWIP_ASSERT ret;
       Some (t, st\<lparr>ks := k\<rparr>)
     }"

text \<open>The static variables, with the mutex \<^verbatim>\<open>lock_tcpip_core\<close> of lwIP.\<close>

record lwip_sys =
  sysq :: qsys
  lock_tcpip_core :: handle
  lwip_core_lock_count :: u8
  lwip_core_lock_holder_thread :: "task option"
  lwip_tcpip_thread :: "task option"

definition sys_lock_tcpip_core :: "(nat \<Rightarrow> qsys \<Rightarrow> qsys option) \<Rightarrow> lwip_sys \<Rightarrow> lwip_sys option" where
  "sys_lock_tcpip_core world s =
     do {
       st \<leftarrow> sys_mutex_lock world (lock_tcpip_core s) (sysq s);
       let s1 = s\<lparr>sysq := st\<rparr>;
       let s2 = (if lwip_core_lock_count s1 = 0
                 then s1\<lparr>lwip_core_lock_holder_thread := xTaskGetCurrentTaskHandle (ks (sysq s1))\<rparr> else s1);
       Some (s2\<lparr>lwip_core_lock_count := lwip_core_lock_count s2 + 1\<rparr>)
     }"

definition sys_unlock_tcpip_core :: "lwip_sys \<Rightarrow> lwip_sys option" where
  "sys_unlock_tcpip_core s =
     do {
       let s1 = s\<lparr>lwip_core_lock_count := lwip_core_lock_count s - 1\<rparr>;
       let s2 = (if lwip_core_lock_count s1 = 0 then s1\<lparr>lwip_core_lock_holder_thread := None\<rparr> else s1);
       st \<leftarrow> sys_mutex_unlock (lock_tcpip_core s2) (sysq s2);
       Some (s2\<lparr>sysq := st\<rparr>)
     }"

definition sys_mark_tcpip_thread :: "lwip_sys \<Rightarrow> lwip_sys" where
  "sys_mark_tcpip_thread s = s\<lparr>lwip_tcpip_thread := xTaskGetCurrentTaskHandle (ks (sysq s))\<rparr>"

text \<open>Whether its assertion holds.\<close>

definition sys_check_core_locking :: "lwip_sys \<Rightarrow> bool" where
  "sys_check_core_locking s \<longleftrightarrow>
     (lwip_tcpip_thread s \<noteq> None \<longrightarrow>
        xTaskGetCurrentTaskHandle (ks (sysq s)) = lwip_core_lock_holder_thread s \<and> lwip_core_lock_count s > 0)"

end
