(* ===== verification/SysArchProps.thy ===== *)
theory SysArchProps
  imports SysArch
begin

text \<open>
  What lwIP gets from its port: mailboxes are bounded queues of pointers, and the core lock knows who holds it.
\<close>

subsection \<open>Mailboxes\<close>

definition messages :: "bool \<Rightarrow> nat \<Rightarrow> qsys \<Rightarrow> u32 list" where
  "messages big q st = map (bytes_length big) (contents (qs st q))"

definition mbox_ok :: "task set \<Rightarrow> nat set \<Rightarrow> task \<Rightarrow> nat set \<Rightarrow> bool \<Rightarrow> nat \<Rightarrow> qsys \<Rightarrow> bool" where
  "mbox_ok T E idle D big q st \<longleftrightarrow> fifo_ok T E idle D q st \<and> qsz (qs st q) = 4 \<and>
     contents (qs st q) = map (length_bytes big) (messages big q st)"

text \<open>The answers of a mailbox as the answers of a queue.\<close>

definition post_answer :: "err_t \<times> qsys \<Rightarrow> bool \<times> qsys" where
  "post_answer = (\<lambda>(e, st). (e = ERR_OK, st))"

definition fetch_answer :: "u32 \<times> u32 \<times> qsys \<Rightarrow> u32 option \<times> qsys" where
  "fetch_answer = (\<lambda>(r, msg, st). (if r = SYS_MBOX_EMPTY then None else Some msg, st))"

abbreviation mbox_put :: "bool \<Rightarrow> (nat \<Rightarrow> qsys \<Rightarrow> qsys option) \<Rightarrow> nat \<Rightarrow> u32 \<Rightarrow> qsys \<Rightarrow> (bool \<times> qsys) option" where
  "mbox_put big world q msg st \<equiv> map_option post_answer (sys_mbox_trypost big world (Some q) msg st)"

abbreviation mbox_get :: "bool \<Rightarrow> (nat \<Rightarrow> qsys \<Rightarrow> qsys option) \<Rightarrow> nat \<Rightarrow> qsys \<Rightarrow> (u32 option \<times> qsys) option" where
  "mbox_get big world q st \<equiv> map_option fetch_answer (sys_arch_mbox_tryfetch big world (Some q) st)"

lemma err_codes [simp]: "ERR_OK \<noteq> ERR_MEM" "ERR_MEM \<noteq> ERR_OK" "0 \<noteq> SYS_MBOX_EMPTY"
  by (simp_all add: ERR_OK_def ERR_MEM_def SYS_MBOX_EMPTY_def SYS_ARCH_TIMEOUT_def)

lemma mbox_okI:
  "fifo_ok T E idle D q st \<Longrightarrow> qsz (qs st q) = 4 \<Longrightarrow> contents (qs st q) = map (length_bytes big) ms \<Longrightarrow>
    mbox_ok T E idle D big q st \<and> messages big q st = ms"
  by (simp add: mbox_ok_def messages_def comp_def)

interpretation mb: bounded_queue "mbox_put big world q" "mbox_get big world q" "messages big q"
  "mbox_ok T E idle D big q" "\<lambda>_ _. True" "\<lambda>st. qlen (qs st q)"
  for big world q T E idle D
proof
  fix s x
  assume m: "mbox_ok T E idle D big q s" and room: "length (messages big q s) < qlen (qs s q)"
  then have f: "fifo_ok T E idle D q s" "length (length_bytes big x) = qsz (qs s q)" "length (contents (qs s q)) < qlen (qs s q)"
    "contents (qs s q) = map (length_bytes big) (messages big q s)"
    by (simp_all add: mbox_ok_def messages_def)
  obtain s' where s': "xQueueGenericSend world q (length_bytes big x) 0 queueSEND_TO_BACK s = Some (True, s')" "fifo_ok T E idle D q s'"
    "contents (qs s' q) = contents (qs s q) @ [length_bytes big x]"
    "(\<lambda>x. length x = qsz (qs s' q)) = (\<lambda>x :: u8 list. length x = qsz (qs s q))" "qlen (qs s' q) = qlen (qs s q)"
    using kq.put_room [OF f(1-3), of world] by blast
  have "qsz (qs s' q) = 4" using fun_cong [OF s'(4), of "length_bytes big x"] m by (simp add: mbox_ok_def)
  then show "\<exists>s'. mbox_put big world q x s = Some (True, s') \<and> mbox_ok T E idle D big q s' \<and>
      messages big q s' = messages big q s @ [x] \<and> (\<lambda>_ :: u32. True) = (\<lambda>_. True) \<and> qlen (qs s' q) = qlen (qs s q)"
    using s' mbox_okI [OF s'(2), of big "messages big q s @ [x]"] f(4)
    by (simp add: sys_mbox_trypost_def post_answer_def)
next
  fix s x
  assume "mbox_ok T E idle D big q s" "\<not> length (messages big q s) < qlen (qs s q)"
  then show "mbox_put big world q x s = Some (False, s)"
    using kq.put_full [of T E idle D q s world "length_bytes big x"]
    by (simp add: sys_mbox_trypost_def post_answer_def mbox_ok_def messages_def)
next
  fix s x xs
  assume m: "mbox_ok T E idle D big q s" and c: "messages big q s = x # xs"
  then have f: "fifo_ok T E idle D q s" "contents (qs s q) = length_bytes big x # map (length_bytes big) xs" "qsz (qs s q) = 4"
    by (simp_all add: mbox_ok_def)
  obtain s' where s': "xQueueReceive world q 0 s = Some (Some (length_bytes big x), s')" "fifo_ok T E idle D q s'"
    "contents (qs s' q) = map (length_bytes big) xs"
    "(\<lambda>x. length x = qsz (qs s' q)) = (\<lambda>x :: u8 list. length x = qsz (qs s q))" "qlen (qs s' q) = qlen (qs s q)"
    using kq.get_item [OF f(1,2), of world] by blast
  have "qsz (qs s' q) = 4" using fun_cong [OF s'(4), of "length_bytes big x"] f(3) by simp
  then show "\<exists>s'. mbox_get big world q s = Some (Some x, s') \<and> mbox_ok T E idle D big q s' \<and> messages big q s' = xs \<and>
      (\<lambda>_ :: u32. True) = (\<lambda>_. True) \<and> qlen (qs s' q) = qlen (qs s q)"
    using s' mbox_okI [OF s'(2), of big xs] by (simp add: sys_arch_mbox_tryfetch_def fetch_answer_def)
next
  fix s
  assume "mbox_ok T E idle D big q s" "messages big q s = []"
  then show "mbox_get big world q s = Some (None, s)"
    using kq.get_empty [of T E idle D q s world] by (simp add: sys_arch_mbox_tryfetch_def fetch_answer_def mbox_ok_def)
qed

text \<open>C21: a new mailbox is a bounded queue of pointers.  \<open>sys_mbox_new\<close> fails, and changes nothing, only when there is no memory for it; else any
  sequence of \<open>sys_mbox_trypost\<close> and \<open>sys_arch_mbox_tryfetch\<close> gives the answers of an empty list of at most as many pointers as asked for: a
  pointer comes out unchanged and in the order of posting, a post is refused when it is full and a fetch when it is empty.\<close>

theorem sys_mbox_is_queue:
  assumes "queues_ok T E idle D W st" and "senders q \<notin> E" "receivers q \<notin> E"
    and "\<forall>n block. malloc n = Some block \<longrightarrow> length block = unat n"
    and "0 <s sz" and "unat sz * 4 + 80 < 2 ^ 32" and "fifo_run (unat sz) ops [] = (as, ys)"
  shows "if malloc (80 + sz * 4) = None then sys_mbox_new malloc sz q st = Some (ERR_MEM, None, st)
    else \<exists>st1 st2. sys_mbox_new malloc sz q st = Some (ERR_OK, Some q, st1) \<and>
      impl_run (mbox_put big world q) (mbox_get big world q) ops st1 = Some (as, st2) \<and> messages big q st2 = ys \<and>
      mbox_ok T ({senders q, receivers q} \<union> E) idle ({q} \<union> D) big q st2"
proof (cases "malloc (80 + sz * 4)")
  case None
  then show ?thesis using create_refused [of sz 4 malloc 0 q st] assms(5) by (simp add: sys_mbox_new_def sizeof_Queue_t_def)
next
  case (Some block)
  have m: "malloc (sizeof_Queue_t + sz * 4) = Some block" "length block = unat (sizeof_Queue_t + sz * 4)"
    using Some assms(4) by (simp_all add: sizeof_Queue_t_def)
  have "sz \<noteq> 0" using assms(5) by auto
  then have pos: "0 < unat sz" "unat sz * unat (4 :: u32) + 80 < 2 ^ 32" using assms(6) by (simp_all add: unat_gt_0)
  let ?E = "{senders q, receivers q} \<union> E" and ?D = "{q} \<union> D"
  obtain st1 where st1: "xQueueGenericCreate malloc sz 4 0 q st = Some (True, st1)"
    "queues_ok T ?E idle ?D (W(senders q := [], receivers q := [])) st1" "\<not> is_mutex (qs st1 q)" "contents (qs st1 q) = []"
    "uxLength (qs st1 q) = sz" "uxItemSize (qs st1 q) = 4"
    using create_queue [where malloc = malloc and len = sz and sz = 4 and type = 0, OF assms(1-3) m pos] by (auto simp: insert_commute)
  have ok: "mbox_ok T ?E idle ?D big q st1" and empty: "messages big q st1 = []"
    using mbox_okI [of T ?E idle ?D q st1 big "[]"] fifo_ok_I [OF st1(2) _ st1(3)] st1(4,6) by auto
  have "fifo_run (qlen (qs st1 q)) ops (messages big q st1) = (as, ys)" using assms(7) st1(5) empty by simp
  then obtain st2 where "impl_run (mbox_put big world q) (mbox_get big world q) ops st1 = Some (as, st2)"
    "mbox_ok T ?E idle ?D big q st2" "messages big q st2 = ys"
    using mb.run_refines [OF ok, of ops as ys world] by auto
  then show ?thesis using st1(1) Some assms(5) by (simp add: sys_mbox_new_def)
qed

theorem sys_mbox_is_queue_witness:
  "\<exists>st1 st2. sys_mbox_new zeros 2 7 qsys_0 = Some (ERR_OK, Some 7, st1) \<and>
    impl_run (mbox_put True (\<lambda>_. Some) 7) (mbox_get True (\<lambda>_. Some) 7) [Get, Put 0x80001000, Put 5, Put 6, Get] st1 =
      Some ([Got None, Sent True, Sent True, Sent False, Got (Some 0x80001000)], st2) \<and> messages True 7 st2 = [5]"
proof -
  have z: "\<forall>n block. zeros n = Some block \<longrightarrow> length block = unat n" by (auto simp: zeros_def)
  have n: "zeros (80 + 2 * 4) \<noteq> None" by (simp add: zeros_def)
  have r: "fifo_run (unat (2 :: u32)) [Get, Put (0x80001000 :: u32), Put 5, Put 6, Get] [] =
      ([Got None, Sent True, Sent True, Sent False, Got (Some 0x80001000)], [5])" by simp
  have p: "(0 :: u32) <s 2" "unat (2 :: u32) * 4 + 80 < 2 ^ 32" "senders 7 \<notin> {}" "receivers 7 \<notin> {}"
    by (simp_all add: word_sless_alt)
  show ?thesis
    using sys_mbox_is_queue [OF queues_0 p(3,4) z p(1,2) r, of True "\<lambda>_. Some"] n by auto
qed

text \<open>A fetch from an empty mailbox returns \<^verbatim>\<open>SYS_ARCH_TIMEOUT\<close> and a null pointer after exactly the milliseconds given.\<close>

lemma sys_arch_mbox_fetch_times_out:
  assumes "kernel T E idle (ks st)" and "settled (ks st)" and "uxSchedulerSuspended (ks st) = 0"
    and "senders q \<in> E" "receivers q \<in> E" and "untouched (qs st q)"
    and "pxCurrentTCB (ks st) = Some cur" "cur \<noteq> idle" and "container (EventItem cur) (ks st) = None"
    and "0 < ms" "ms \<noteq> portMAX_DELAY" and "uxMessagesWaiting (qs st q) = 0"
  shows "\<exists>st'. sys_arch_mbox_fetch big (time_passes (unat ms)) (Some q) ms st = Some (SYS_ARCH_TIMEOUT, 0, st') \<and>
    gave_up q cur ms st st'"
proof -
  have "ms div portTICK_PERIOD_MS = ms" by (simp add: portTICK_PERIOD_MS_def CONFIG_SYSTICK_MS_def)
  moreover have "ms \<noteq> 0" using assms(10) by auto
  ultimately show ?thesis using receive_times_out [OF assms] by (auto simp: sys_arch_mbox_fetch_def)
qed

subsection \<open>The core lock\<close>

text \<open>Task \<open>t\<close> runs.\<close>

definition running :: "task \<Rightarrow> lwip_sys \<Rightarrow> lwip_sys" where
  "running t s = s\<lparr>sysq := (sysq s)\<lparr>ks := (ks (sysq s))\<lparr>pxCurrentTCB := Some t\<rparr>\<rparr>\<rparr>"

text \<open>The counter and the holder agree with the mutex, for which no task waits.\<close>

definition core_ok :: "task set \<Rightarrow> nat set \<Rightarrow> task \<Rightarrow> nat set \<Rightarrow> nat \<Rightarrow> lwip_sys \<Rightarrow> bool" where
  "core_ok T E idle D q s \<longleftrightarrow> lock_tcpip_core s = Some q \<and> mutex_free_of_waiters T E idle D q (sysq s) \<and>
     lwip_core_lock_holder_thread s = fst (mutex_owner q (sysq s)) \<and>
     unat (lwip_core_lock_count s) = snd (mutex_owner q (sysq s))"

lemma take_any_time:
  assumes "xQueueTakeMutexRecursive world q 0 st = Some (True, st')"
  shows "xQueueTakeMutexRecursive world q n st = Some (True, st')"
proof -
  have "xQueueSemaphoreTake world q n st = Some (True, st1)" if t: "xQueueSemaphoreTake world q 0 st = Some (True, st1)" for st1
  proof (cases "uxMessagesWaiting (qs st q) > 0")
    case True
    then have "xQueueSemaphoreTake_enter q n st = xQueueSemaphoreTake_enter q 0 st"
      "xQueueSemaphoreTake_enter q 0 st \<noteq> Some (Loop, s)" for s
      by (auto simp: xQueueSemaphoreTake_enter_def Let_def bind_eq_Some_conv split: prod.splits)
    then show ?thesis using t unfolding xQueueSemaphoreTake_def
      by (subst (asm) take_loop.simps, subst take_loop.simps) (auto simp: bind_eq_Some_conv split: flow.splits)
  next
    case False
    then have "xQueueSemaphoreTake_enter q 0 st = Some (Return False, st)" by (simp add: xQueueSemaphoreTake_enter_def)
    then show ?thesis using t unfolding xQueueSemaphoreTake_def by (subst (asm) take_loop.simps) simp
  qed
  then show ?thesis using assms
    by (auto simp: xQueueTakeMutexRecursive_def bind_eq_Some_conv split: queue_union.splits if_splits)
qed

lemma free_mutex_current:
  assumes "mutex_free_of_waiters T E idle D q st" and "t \<in> T" and "fst (mutex_owner q st) = None"
    and "xQueueTakeMutexRecursive world q n (st\<lparr>ks := (ks st)\<lparr>pxCurrentTCB := Some t\<rparr>\<rparr>) = Some (b, st')"
  shows "pxCurrentTCB (ks st') = Some t"
proof -
  let ?st = "st\<lparr>ks := (ks st)\<lparr>pxCurrentTCB := Some t\<rparr>\<rparr>"
  obtain W h c where W: "queues_ok T E idle D W st" "W (senders q) = []" "q \<in> D" and m: "mutex_ok (qs st q) h c"
    using assms(1) unfolding mutex_free_of_waiters_def by blast
  have q1: "queues_ok T E idle D W ?st" by (rule queues_ok_switch [OF W(1) assms(2)])
  have "h = None" using assms(3) mutex_owner_eq [OF m] by simp
  then have m1: "mutex_ok (qs ?st q) None 0" using m by (simp add: mutex_ok_def)
  have "\<forall>k. ls k = ls (ks ?st) \<longrightarrow> wake_first (xTasksWaitingToSend q) k = Some (False, k)"
    using wake_nobody(1) [OF q1 queues_ok_D(4) [OF q1 W(3)] W(2)] by (simp add: xTasksWaitingToSend_def)
  from take_free_mutex [OF m1 _ this, of t world n] assms(4) show ?thesis by (auto simp: set_tcb_def)
qed

lemma running_simps [simp]:
  "lock_tcpip_core (running t s) = lock_tcpip_core s" "lwip_core_lock_count (running t s) = lwip_core_lock_count s"
  "lwip_core_lock_holder_thread (running t s) = lwip_core_lock_holder_thread s" "lwip_tcpip_thread (running t s) = lwip_tcpip_thread s"
  "sysq (running t s) = (sysq s)\<lparr>ks := (ks (sysq s))\<lparr>pxCurrentTCB := Some t\<rparr>\<rparr>"
  by (simp_all add: running_def)

lemma owner_zero:
  assumes "mutex_free_of_waiters T E idle D q st" and "mutex_owner q st = (o', d)"
  shows "o' = None \<longleftrightarrow> d = 0"
proof -
  obtain h c where "mutex_ok (qs st q) h c" using assms(1) unfolding mutex_free_of_waiters_def by blast
  then show ?thesis using mutex_owner_eq [of st q h c] mutex_ok_D(6) [of "qs st q" h c] assms(2) by (auto simp: unat_eq_0)
qed

lemma core_lock:
  assumes c: "core_ok T E idle D q s" and t: "t \<in> T" and h: "fst (mutex_owner q (sysq s)) \<in> {None, Some t}"
    and n: "snd (mutex_owner q (sysq s)) < 255"
  shows "\<exists>s'. sys_lock_tcpip_core world (running t s) = Some s' \<and> core_ok T E idle D q s' \<and>
    mutex_owner q (sysq s') = (Some t, snd (mutex_owner q (sysq s)) + 1) \<and> lwip_tcpip_thread s' = lwip_tcpip_thread s"
proof -
  obtain o' d where o: "mutex_owner q (sysq s) = (o', d)" by fastforce
  have m: "mutex_free_of_waiters T E idle D q (sysq s)" using c by (simp add: core_ok_def)
  have dz: "o' = None \<longleftrightarrow> d = 0" by (rule owner_zero [OF m o])
  obtain r st' where st': "mutex_step world q t Lock (sysq s) = Some (r, st')" "mutex_free_of_waiters T E idle D q st'"
    "lock_step t Lock (o', d) = (r, mutex_owner q st')"
    using mutex_step_refines [OF m t, of world Lock] n o by auto
  have r: "r" "mutex_owner q st' = (Some t, d + 1)" using st'(3) h o dz by (cases o'; auto)+
  have "xQueueTakeMutexRecursive world q portMAX_DELAY (sysq (running t s)) = Some (True, st')"
    using st'(1) r(1) take_any_time [of world q _ st'] by (simp add: mutex_step_def Let_def)
  moreover from this have "d = 0 \<longrightarrow> pxCurrentTCB (ks st') = Some t"
    using free_mutex_current [OF m t, of world portMAX_DELAY True st'] o dz by simp
  moreover have w: "unat (lwip_core_lock_count s) = d" "lwip_core_lock_holder_thread s = o'" "lock_tcpip_core s = Some q"
    using c o by (simp_all add: core_ok_def)
  moreover have "unat (lwip_core_lock_count s + 1) = d + 1" using w(1) n o by (simp add: unat_word_ariths)
  moreover have "lwip_core_lock_count s = 0 \<longleftrightarrow> d = 0" using w(1) by (auto simp: unat_eq_0)
  ultimately show ?thesis using r st'(2) h o dz
    by (auto simp: sys_lock_tcpip_core_def sys_mutex_lock_def core_ok_def xTaskGetCurrentTaskHandle_def Let_def)
qed

lemma core_unlock:
  assumes c: "core_ok T E idle D q s" and t: "t \<in> T" and h: "mutex_owner q (sysq s) = (Some t, d)"
  shows "\<exists>s'. sys_unlock_tcpip_core (running t s) = Some s' \<and> core_ok T E idle D q s' \<and>
    mutex_owner q (sysq s') = (if d \<le> 1 then (None, 0) else (Some t, d - 1)) \<and> lwip_tcpip_thread s' = lwip_tcpip_thread s"
proof -
  have m: "mutex_free_of_waiters T E idle D q (sysq s)" using c by (simp add: core_ok_def)
  have w: "unat (lwip_core_lock_count s) = d" "lwip_core_lock_holder_thread s = Some t" "lock_tcpip_core s = Some q"
    using c h by (simp_all add: core_ok_def)
  have dz: "d \<noteq> 0" "d < 256"
    using owner_zero [OF m h] w(1) unsigned_less [of "lwip_core_lock_count s", where ?'a = nat] by auto
  obtain r st' where st': "mutex_step (\<lambda>_. Some) q t Unlock (sysq s) = Some (r, st')" "mutex_free_of_waiters T E idle D q st'"
    "lock_step t Unlock (Some t, d) = (r, mutex_owner q st')"
    using mutex_step_refines [OF m t, of "\<lambda>_. Some" Unlock] h dz(2) by auto
  have r: "r" "mutex_owner q st' = (if d \<le> 1 then (None, 0) else (Some t, d - 1))" using st'(3) by (auto split: if_splits)
  have "xQueueGiveMutexRecursive q (sysq (running t s)) = Some (True, st')" using st'(1) r(1) by (simp add: mutex_step_def Let_def)
  moreover have "lwip_core_lock_count s \<noteq> 0" using w(1) dz(1) by auto
  then have "unat (lwip_core_lock_count s - 1) = d - 1" using w(1) by (simp add: unat_minus_one)
  moreover from this have "lwip_core_lock_count s - 1 = 0 \<longleftrightarrow> d \<le> 1" by (metis diff_is_0_eq unat_0 unat_eq_0)
  ultimately show ?thesis using r st'(2) w
    by (auto simp: sys_unlock_tcpip_core_def sys_mutex_unlock_def core_ok_def Let_def)
qed

text \<open>The assertion of the stack holds exactly in the task that has the lock.\<close>

lemma core_check:
  assumes "core_ok T E idle D q s"
  shows "sys_check_core_locking (running t s) \<longleftrightarrow> lwip_tcpip_thread s = None \<or> fst (mutex_owner q (sysq s)) = Some t"
proof -
  obtain o' d where o: "mutex_owner q (sysq s) = (o', d)" by fastforce
  have "o' = None \<longleftrightarrow> d = 0" using assms o by (intro owner_zero) (auto simp: core_ok_def)
  moreover have "unat (lwip_core_lock_count s) = d" "lwip_core_lock_holder_thread s = o'" using assms o by (simp_all add: core_ok_def)
  ultimately show ?thesis using o
    by (auto simp: sys_check_core_locking_def xTaskGetCurrentTaskHandle_def word_gt_0 unat_eq_0)
qed

fun core_run :: "(nat \<Rightarrow> qsys \<Rightarrow> qsys option) \<Rightarrow> (task \<times> lock_op) list \<Rightarrow> lwip_sys \<Rightarrow> lwip_sys option" where
  "core_run world [] s = Some s"
| "core_run world ((t, op) # ops) s =
     Option.bind (case op of Lock \<Rightarrow> sys_lock_tcpip_core world (running t s) | Unlock \<Rightarrow> sys_unlock_tcpip_core (running t s))
       (core_run world ops)"

lemma core_run_ok:
  assumes "core_ok T E idle D q s" and "\<forall>(t, op) \<in> set ops. t \<in> T" and "snd (mutex_owner q (sysq s)) + length ops < 256"
    and "lock_run ops (mutex_owner q (sysq s)) = (rs, h, d)" and "False \<notin> set rs"
  shows "\<exists>s'. core_run world ops s = Some s' \<and> core_ok T E idle D q s' \<and> mutex_owner q (sysq s') = (h, d) \<and>
    lwip_tcpip_thread s' = lwip_tcpip_thread s"
  using assms
proof (induction ops arbitrary: s rs)
  case (Cons a ops)
  obtain t op where a: "a = (t, op)" "t \<in> T" using Cons.prems(2) by (cases a) auto
  obtain o' n where o: "mutex_owner q (sysq s) = (o', n)" by fastforce
  obtain o1 where s1: "lock_step t op (o', n) = (True, o1)" "lock_run ops o1 = (tl rs, h, d)" "False \<notin> set (tl rs)"
    using Cons.prems(4,5) o a by (auto split: prod.splits)
  have small: "snd o1 \<le> Suc n" using s1(1) by (cases "(t, op, o', n)" rule: lock_step.cases) (auto split: if_splits)
  have "\<exists>s1. (case op of Lock \<Rightarrow> sys_lock_tcpip_core world (running t s) | Unlock \<Rightarrow> sys_unlock_tcpip_core (running t s)) = Some s1 \<and>
      core_ok T E idle D q s1 \<and> mutex_owner q (sysq s1) = o1 \<and> lwip_tcpip_thread s1 = lwip_tcpip_thread s"
  proof (cases op)
    case Lock
    have m: "mutex_free_of_waiters T E idle D q (sysq s)" using Cons.prems(1) by (simp add: core_ok_def)
    have "o' \<in> {None, Some t}" "o1 = (Some t, n + 1)"
      using s1(1) Lock owner_zero [OF m o] by (cases o'; auto split: if_splits)+
    then show ?thesis using core_lock [OF Cons.prems(1) a(2), of world] o Cons.prems(3) Lock by auto
  next
    case Unlock
    then have "o' = Some t" "o1 = (if n \<le> 1 then (None, 0) else (Some t, n - 1))" using s1(1) by (cases o'; auto split: if_splits)+
    then show ?thesis using core_unlock [OF Cons.prems(1) a(2), of n] o Unlock by auto
  qed
  then obtain s2 where s2: "(case op of Lock \<Rightarrow> sys_lock_tcpip_core world (running t s) | Unlock \<Rightarrow> sys_unlock_tcpip_core (running t s)) = Some s2"
    "core_ok T E idle D q s2" "mutex_owner q (sysq s2) = o1" "lwip_tcpip_thread s2 = lwip_tcpip_thread s" by blast
  have "\<exists>s'. core_run world ops s2 = Some s' \<and> core_ok T E idle D q s' \<and> mutex_owner q (sysq s') = (h, d) \<and>
      lwip_tcpip_thread s' = lwip_tcpip_thread s2"
    using Cons.prems(2,3) o small s1(2,3) s2(3) by (intro Cons.IH [OF s2(2), of "tl rs"]) auto
  then show ?case using s2(1,4) by (simp add: a)
qed auto

text \<open>Whichever tasks lock and unlock the core of the stack, nested up to the range of its counter, the counter and the holder of
  the port agree with the mutex, none of its assertions fails, and its check of the lock holds in exactly the task
  that has it (or in any, before the thread of the stack has registered).\<close>

lemma core_lock_tracks_holder:
  assumes "core_ok T E idle D q s" and "mutex_owner q (sysq s) = (None, 0)"
    and "\<forall>(t, op) \<in> set ops. t \<in> T" and "length ops < 256" and "lock_run ops (None, 0) = (rs, h, d)" and "False \<notin> set rs"
  shows "\<exists>s'. core_run world ops s = Some s' \<and> core_ok T E idle D q s' \<and>
    lwip_core_lock_holder_thread s' = h \<and> unat (lwip_core_lock_count s') = d \<and>
    (\<forall>t. sys_check_core_locking (running t s') \<longleftrightarrow> lwip_tcpip_thread s = None \<or> h = Some t)"
proof -
  obtain s' where s': "core_run world ops s = Some s'" "core_ok T E idle D q s'" "mutex_owner q (sysq s') = (h, d)"
    "lwip_tcpip_thread s' = lwip_tcpip_thread s"
    using core_run_ok [OF assms(1,3) _ _ assms(6), of h d world] assms(2,4,5) by auto
  then show ?thesis using core_check [OF s'(2)] by (auto simp: core_ok_def)
qed

lemma core_lock_tracks_holder_witness:
  "\<exists>s'. core_run (\<lambda>_. Some) [(3, Lock), (3, Lock), (3, Unlock), (3, Unlock), (5, Lock)]
      \<lparr>sysq = mutex_sys, lock_tcpip_core = Some 4, lwip_core_lock_count = 0, lwip_core_lock_holder_thread = None, lwip_tcpip_thread = Some 5\<rparr> =
      Some s' \<and> lwip_core_lock_holder_thread s' = Some 5 \<and> \<not> sys_check_core_locking (running 3 s') \<and> sys_check_core_locking (running 5 s')"
proof -
  let ?s = "\<lparr>sysq = mutex_sys, lock_tcpip_core = Some 4, lwip_core_lock_count = 0, lwip_core_lock_holder_thread = None, lwip_tcpip_thread = Some 5\<rparr>"
  have c: "core_ok {0, 3, 5} {receivers 4, senders 4} 0 {4} 4 ?s" "mutex_owner 4 (sysq ?s) = (None, 0)"
    using mutex_sys by (simp_all add: core_ok_def)
  show ?thesis
    using core_lock_tracks_holder [OF c, of "[(3, Lock), (3, Lock), (3, Unlock), (3, Unlock), (5, Lock)]" "[True, True, True, True, True]" "Some 5" 1 "\<lambda>_. Some"]
    by auto
qed

end
