(* ===== verification/StreamSpec.thy ===== *)
theory StreamSpec
  imports StreamRing QueueSpec
begin

text \<open>
  The properties of stream and message buffers.  The contract of a message buffer is a locale, a
  channel whose items take room of their own size, of which the bounded queue is the case of
  unit size.
\<close>

subsection \<open>A channel with items of different sizes\<close>

fun channel_run :: "('a \<Rightarrow> nat) \<Rightarrow> nat \<Rightarrow> 'a qop list \<Rightarrow> 'a list \<Rightarrow> 'a qanswer list \<times> 'a list" where
  "channel_run cost cap [] xs = ([], xs)"
| "channel_run cost cap (Put x # ops) xs =
     (if sum_list (map cost xs) + cost x \<le> cap
      then (let (as, ys) = channel_run cost cap ops (xs @ [x]) in (Sent True # as, ys))
      else (let (as, ys) = channel_run cost cap ops xs in (Sent False # as, ys)))"
| "channel_run cost cap (Get # ops) xs =
     (case xs of
        [] \<Rightarrow> (let (as, ys) = channel_run cost cap ops [] in (Got None # as, ys))
      | x # xs' \<Rightarrow> (let (as, ys) = channel_run cost cap ops xs' in (Got (Some x) # as, ys)))"

lemma channel_run_unit: "channel_run (\<lambda>_. 1) cap ops xs = fifo_run cap ops xs"
proof (induction ops arbitrary: xs)
  case (Cons op ops)
  have "sum_list (map (\<lambda>_. 1 :: nat) xs) = length xs" by (induction xs) simp_all
  then show ?case using Cons by (cases op) (auto simp: Suc_le_eq split: list.split)
qed simp

lemma channel_run_order: "channel_run cost cap ops xs = (as, ys) \<Longrightarrow> received as @ ys = xs @ accepted ops as"
proof (induction cost cap ops xs arbitrary: as ys rule: channel_run.induct)
  case (2 cost cap x ops xs)
  then show ?case by (fastforce simp: Let_def split: prod.splits if_splits)
next
  case (3 cost cap ops xs)
  then show ?case by (fastforce simp: Let_def split: prod.splits list.splits)
qed simp

locale bounded_channel =
  fixes put :: "'a \<Rightarrow> 's \<Rightarrow> (bool \<times> 's) option"
    and get :: "'s \<Rightarrow> ('a option \<times> 's) option"
    and items :: "'s \<Rightarrow> 'a list"
    and inv :: "'s \<Rightarrow> bool"
    and item_ok :: "'s \<Rightarrow> 'a \<Rightarrow> bool"
    and cost :: "'a \<Rightarrow> nat"
    and capacity :: "'s \<Rightarrow> nat"
  assumes put_room: "inv s \<Longrightarrow> item_ok s x \<Longrightarrow> sum_list (map cost (items s)) + cost x \<le> capacity s \<Longrightarrow>
      \<exists>s'. put x s = Some (True, s') \<and> inv s' \<and> items s' = items s @ [x] \<and>
        item_ok s' = item_ok s \<and> capacity s' = capacity s"
    and put_full: "inv s \<Longrightarrow> item_ok s x \<Longrightarrow> \<not> sum_list (map cost (items s)) + cost x \<le> capacity s \<Longrightarrow>
      put x s = Some (False, s)"
    and get_item: "inv s \<Longrightarrow> items s = x # xs \<Longrightarrow>
      \<exists>s'. get s = Some (Some x, s') \<and> inv s' \<and> items s' = xs \<and> item_ok s' = item_ok s \<and> capacity s' = capacity s"
    and get_empty: "inv s \<Longrightarrow> items s = [] \<Longrightarrow> get s = Some (None, s)"
begin

lemma channel_refines:
  assumes "inv s" and "\<forall>x. Put x \<in> set ops \<longrightarrow> item_ok s x" and "channel_run cost (capacity s) ops (items s) = (as, ys)"
  shows "\<exists>s'. impl_run put get ops s = Some (as, s') \<and> inv s' \<and> items s' = ys \<and> capacity s' = capacity s"
  using assms
proof (induction ops arbitrary: s as ys)
  case (Cons op ops)
  note prems = Cons.prems
  show ?case
  proof (cases op)
    case (Put x)
    have x: "item_ok s x" using prems(2) Put by simp
    show ?thesis
    proof (cases "sum_list (map cost (items s)) + cost x \<le> capacity s")
      case True
      obtain s1 where s1: "put x s = Some (True, s1)" "inv s1" "items s1 = items s @ [x]"
        "item_ok s1 = item_ok s" "capacity s1 = capacity s"
        using put_room [OF prems(1) x True] by auto
      obtain bs where "channel_run cost (capacity s1) ops (items s1) = (bs, ys)" "as = Sent True # bs"
        using prems(3) Put True s1 by (auto split: prod.splits)
      then show ?thesis using Cons.IH [OF s1(2), of bs ys] s1 prems(2) Put by auto
    next
      case False
      obtain bs where "channel_run cost (capacity s) ops (items s) = (bs, ys)" "as = Sent False # bs"
        using prems(3) Put False by (auto split: prod.splits)
      then show ?thesis using Cons.IH [OF prems(1), of bs ys] put_full [OF prems(1) x False] prems(2) Put by auto
    qed
  next
    case Get
    show ?thesis
    proof (cases "items s")
      case Nil
      obtain bs where "channel_run cost (capacity s) ops (items s) = (bs, ys)" "as = Got None # bs"
        using prems(3) Get Nil by (auto split: prod.splits)
      then show ?thesis using Cons.IH [OF prems(1), of bs ys] get_empty [OF prems(1) Nil] prems(2) Get by auto
    next
      case (Cons x xs)
      obtain s1 where s1: "get s = Some (Some x, s1)" "inv s1" "items s1 = xs" "item_ok s1 = item_ok s" "capacity s1 = capacity s"
        using get_item [OF prems(1) Cons] by auto
      obtain bs where "channel_run cost (capacity s1) ops (items s1) = (bs, ys)" "as = Got (Some x) # bs"
        using prems(3) Get Cons s1 by (auto split: prod.splits)
      then show ?thesis using Cons.IH [OF s1(2), of bs ys] s1 prems(2) Get by auto
    qed
  qed
qed simp

end

text \<open>The contract of a queue is the case of items of size one.\<close>

sublocale bounded_queue \<subseteq> unit_items: bounded_channel put get items inv item_ok "\<lambda>_. 1" capacity
proof -
  have "sum_list (map (\<lambda>_. 1 :: nat) xs) = length xs" for xs :: "'a list" by (induction xs) simp_all
  then show "bounded_channel put get items inv item_ok (\<lambda>_. 1) capacity"
    by unfold_locales (auto intro: put_room get_item put_full get_empty simp: Suc_le_eq)
qed

subsection \<open>Sending and receiving without waiting\<close>

text \<open>A well formed buffer nobody waits for, in a kernel whose scheduler runs.\<close>

definition sb_idle :: "task set \<Rightarrow> nat set \<Rightarrow> task \<Rightarrow> sbsys \<Rightarrow> bool" where
  "sb_idle T E idle st \<longleftrightarrow> kernel T E idle (sb_kernel st) \<and> settled (sb_kernel st) \<and>
     uxSchedulerSuspended (sb_kernel st) = 0 \<and> sb_ok (sb_buffer st) \<and>
     xTaskWaitingToReceive (sb_buffer st) = None \<and> xTaskWaitingToSend (sb_buffer st) = None"

lemma notify_nobody:
  assumes "kernel T E idle k" and "settled k" and "uxSchedulerSuspended k = 0"
  shows "\<exists>k'. notify_waiting None k = Some k' \<and> kernel T E idle k' \<and> settled k' \<and> uxSchedulerSuspended k' = 0 \<and>
    pxCurrentTCB k' = pxCurrentTCB k \<and> tcb k' = tcb k"
proof -
  have k1: "kernel T E idle (vTaskSuspendAll k)" "uxSchedulerSuspended (vTaskSuspendAll k) = 1"
    "xPendedTicks (vTaskSuspendAll k) = 0" "pending (vTaskSuspendAll k) = {}"
    using assms settled_quiet [OF assms(2,3)] by simp_all
  obtain y k' where r: "xTaskResumeAll (vTaskSuspendAll k) = Some (y, k')" "kernel T E idle k'"
    "\<forall>t. container (EventItem t) k' = container (EventItem t) (vTaskSuspendAll k)"
    "tcb k' = tcb k" "pxCurrentTCB k' = pxCurrentTCB k" "uxSchedulerSuspended k' = 0" "xPendedTicks k' = 0"
    using resume_all_quiet [OF k1] by auto
  have "settled k'" using r(3,7) k1(4) by (simp add: settled_def pending_def)
  then show ?thesis using r by (simp add: notify_waiting_def)
qed

lemma buffer_eqI: "xTaskWaitingToReceive B = None \<Longrightarrow> B\<lparr>xTaskWaitingToReceive := None\<rparr> = B"
  "xTaskWaitingToSend B = None \<Longrightarrow> B\<lparr>xTaskWaitingToSend := None\<rparr> = B"
  by (cases B; simp)+

lemma completed_nobody:
  assumes "kernel T E idle (sb_kernel st)" and "settled (sb_kernel st)" and "uxSchedulerSuspended (sb_kernel st) = 0"
  shows "xTaskWaitingToReceive (sb_buffer st) = None \<Longrightarrow> \<exists>k. sbSEND_COMPLETED st = Some \<lparr>sb_kernel = k, sb_buffer = sb_buffer st\<rparr> \<and>
      kernel T E idle k \<and> settled k \<and> uxSchedulerSuspended k = 0"
    and "xTaskWaitingToSend (sb_buffer st) = None \<Longrightarrow> \<exists>k. sbRECEIVE_COMPLETED st = Some \<lparr>sb_kernel = k, sb_buffer = sb_buffer st\<rparr> \<and>
      kernel T E idle k \<and> settled k \<and> uxSchedulerSuspended k = 0"
  using notify_nobody [OF assms] buffer_eqI [of "sb_buffer st"]
  by (auto simp: sbSEND_COMPLETED_def sbRECEIVE_COMPLETED_def)

lemma sb_idle_same:
  assumes "sb_idle T E idle st" and "sb_ok B" and "sb_same (sb_buffer st) B"
    and "kernel T E idle k" "settled k" "uxSchedulerSuspended k = 0"
  shows "sb_idle T E idle \<lparr>sb_kernel = k, sb_buffer = B\<rparr>"
  using assms by (simp add: sb_idle_def sb_same_def)

text \<open>The part of a send after the wait, for any bytes written.\<close>

lemma send_completed_idle:
  assumes "sb_idle T E idle st" and "sb_ok B" and "sb_same (sb_buffer st) B"
  shows "\<exists>st'. send_completed n (st\<lparr>sb_buffer := B\<rparr>) = Some st' \<and> sb_idle T E idle st' \<and> sb_buffer st' = B"
proof (cases "n > 0 \<and> prvBytesInBuffer B \<ge> xTriggerLevelBytes B")
  case True
  have w: "xTaskWaitingToReceive B = None" using assms by (simp add: sb_idle_def sb_same_def)
  obtain k where "sbSEND_COMPLETED (st\<lparr>sb_buffer := B\<rparr>) = Some \<lparr>sb_kernel = k, sb_buffer = B\<rparr>"
    "kernel T E idle k" "settled k" "uxSchedulerSuspended k = 0"
    using completed_nobody(1) [of T E idle "st\<lparr>sb_buffer := B\<rparr>"] assms(1) w by (auto simp: sb_idle_def)
  then show ?thesis using True sb_idle_same [OF assms] by (simp add: send_completed_def)
next
  case False
  then show ?thesis using assms by (auto simp: send_completed_def sb_idle_def sb_same_def)
qed

lemma receive_completed_idle:
  assumes "sb_idle T E idle st" and "sb_ok B" and "sb_same (sb_buffer st) B"
  shows "\<exists>st'. (if d \<noteq> [] then sbRECEIVE_COMPLETED (st\<lparr>sb_buffer := B\<rparr>) else Some (st\<lparr>sb_buffer := B\<rparr>)) = Some st' \<and>
    sb_idle T E idle st' \<and> sb_buffer st' = B"
proof (cases "d = []")
  case False
  have w: "xTaskWaitingToSend B = None" using assms by (simp add: sb_idle_def sb_same_def)
  obtain k where "sbRECEIVE_COMPLETED (st\<lparr>sb_buffer := B\<rparr>) = Some \<lparr>sb_kernel = k, sb_buffer = B\<rparr>"
    "kernel T E idle k" "settled k" "uxSchedulerSuspended k = 0"
    using completed_nobody(2) [of T E idle "st\<lparr>sb_buffer := B\<rparr>"] assms(1) w by (auto simp: sb_idle_def)
  then show ?thesis using False sb_idle_same [OF assms] by simp
qed (use assms in \<open>auto simp: sb_idle_def sb_same_def\<close>)

lemma send_stream_now:
  assumes "sb_idle T E idle st" and "\<not> is_message_buffer (sb_buffer st)" and "unat len \<le> length x"
  defines "n \<equiv> min (unat len) (sb_len (sb_buffer st) - 1 - sb_count (sb_buffer st))"
  shows "\<exists>st'. xStreamBufferSend big world x len 0 st = Some (w32 n, st') \<and> sb_idle T E idle st' \<and>
    sb_same (sb_buffer st) (sb_buffer st') \<and> sb_bytes (sb_buffer st') = sb_bytes (sb_buffer st) @ take n x"
proof -
  let ?B = "sb_buffer st" and ?space = "xStreamBufferSpacesAvailable (sb_buffer st)"
  have ok: "sb_ok ?B" using assms(1) by (simp add: sb_idle_def)
  have m: "unat (min len ?space) = n" using spaces_available [OF ok] by (simp add: n_def min_def word_le_nat_alt)
  obtain B where B: "\<And>req. prvWriteMessageToBuffer big x len ?space req ?B = Some (min len ?space, B)" "sb_ok B" "sb_same ?B B"
    "sb_bytes B = sb_bytes ?B @ take n x"
    using write_stream [OF ok assms(2,3), of ?space big] spaces_available [OF ok] m assms(2)
    by (simp add: prvWriteMessageToBuffer_def) blast
  obtain st' where "send_completed (min len ?space) (st\<lparr>sb_buffer := B\<rparr>) = Some st'" "sb_idle T E idle st'" "sb_buffer st' = B"
    using send_completed_idle [OF assms(1) B(2,3)] by blast
  moreover have "min len ?space = w32 n" using m by (metis w32_unat)
  ultimately show ?thesis using B assms(2) by (simp add: xStreamBufferSend_def)
qed

lemma receive_stream_now:
  assumes "sb_idle T E idle st" and "\<not> is_message_buffer (sb_buffer st)"
  shows "\<exists>st'. xStreamBufferReceive big world n 0 st = Some (take (unat n) (sb_bytes (sb_buffer st)), st') \<and> sb_idle T E idle st' \<and>
    sb_same (sb_buffer st) (sb_buffer st') \<and> sb_bytes (sb_buffer st') = drop (unat n) (sb_bytes (sb_buffer st))"
proof -
  let ?B = "sb_buffer st"
  have ok: "sb_ok ?B" using assms(1) by (simp add: sb_idle_def)
  show ?thesis
  proof (cases "prvBytesInBuffer ?B = 0")
    case True
    then have "sb_bytes ?B = []" using bytes_in_buffer [OF ok] length_sb_bytes [OF ok] by simp
    then show ?thesis using True assms by (simp add: xStreamBufferReceive_def)
  next
    case False
    obtain B where B: "prvReadMessageFromBuffer big n (prvBytesInBuffer ?B) ?B = Some (take (unat n) (sb_bytes ?B), B)"
      "sb_ok B" "sb_same ?B B" "sb_bytes B = drop (unat n) (sb_bytes ?B)"
      using read_stream [OF ok assms(2) bytes_in_buffer [OF ok]] by blast
    let ?d = "take (unat n) (sb_bytes ?B)"
    obtain st' where "(if ?d \<noteq> [] then sbRECEIVE_COMPLETED (st\<lparr>sb_buffer := B\<rparr>) else Some (st\<lparr>sb_buffer := B\<rparr>)) = Some st'"
      "sb_idle T E idle st'" "sb_buffer st' = B"
      using receive_completed_idle [OF assms(1) B(2,3)] by blast
    moreover have "prvBytesInBuffer ?B > 0" using False by (simp add: word_gt_0)
    ultimately show ?thesis using B assms(2) by (simp add: xStreamBufferReceive_def Let_def del: take_eq_Nil)
  qed
qed

subsection \<open>Messages\<close>

definition frame :: "bool \<Rightarrow> u8 list \<Rightarrow> u8 list" where
  "frame big m = length_bytes big (w32 (length m)) @ m"

function parse_messages :: "bool \<Rightarrow> u8 list \<Rightarrow> u8 list list" where
  "parse_messages big bs =
     (if length bs > 4
      then let n = unat (bytes_length big (take 4 bs)) in take n (drop 4 bs) # parse_messages big (drop (4 + n) bs)
      else [])"
  by pat_completeness auto
termination by (relation "measure (\<lambda>(_, bs). length bs)") auto

declare parse_messages.simps [simp del]

definition messages_ok :: "nat \<Rightarrow> u8 list list \<Rightarrow> bool" where
  "messages_ok n ms \<longleftrightarrow> (\<forall>m \<in> set ms. 0 < length m \<and> length m \<le> n)"

lemma length_frame [simp]: "length (frame big m) = 4 + length m"
  by (simp add: frame_def)

lemma parse_frames:
  assumes "messages_ok n ms" and "n < 2 ^ 32"
  shows "parse_messages big (concat (map (frame big) ms)) = ms"
  using assms(1)
proof (induction ms)
  case Nil show ?case by (simp add: parse_messages.simps)
next
  case (Cons m ms)
  have m: "0 < length m" "unat (w32 (length m)) = length m" using Cons.prems assms(2) by (auto simp: messages_ok_def)
  have "parse_messages big (frame big m @ bs) = m # parse_messages big bs" for bs
    using m(1) by (subst parse_messages.simps) (simp add: frame_def m(2) Let_def)
  then show ?case using Cons by (simp add: messages_ok_def)
qed

lemma length_frames: "length (concat (map (frame big) ms)) = sum_list (map (\<lambda>m. 4 + length m) ms)"
  by (induction ms) simp_all

text \<open>A message buffer that holds messages its receiver has room for.\<close>

definition messages_idle :: "task set \<Rightarrow> nat set \<Rightarrow> task \<Rightarrow> bool \<Rightarrow> u32 \<Rightarrow> sbsys \<Rightarrow> bool" where
  "messages_idle T E idle big n st \<longleftrightarrow> sb_idle T E idle st \<and> is_message_buffer (sb_buffer st) \<and>
     (\<exists>ms. messages_ok (unat n) ms \<and> sb_bytes (sb_buffer st) = concat (map (frame big) ms))"

abbreviation messages_in :: "bool \<Rightarrow> sbsys \<Rightarrow> u8 list list" where
  "messages_in big st \<equiv> parse_messages big (sb_bytes (sb_buffer st))"

lemma messages_idle_D:
  assumes "messages_idle T E idle big n st"
  shows "sb_idle T E idle st" "is_message_buffer (sb_buffer st)" "messages_ok (unat n) (messages_in big st)"
    "sb_bytes (sb_buffer st) = concat (map (frame big) (messages_in big st))"
proof -
  obtain ms where ms: "messages_ok (unat n) ms" "sb_bytes (sb_buffer st) = concat (map (frame big) ms)"
    using assms by (auto simp: messages_idle_def)
  have "messages_in big st = ms" using parse_frames [OF ms(1)] unat_u32_less ms(2) by simp
  then show "messages_ok (unat n) (messages_in big st)" "sb_bytes (sb_buffer st) = concat (map (frame big) (messages_in big st))"
    using ms by simp_all
qed (use assms in \<open>simp_all add: messages_idle_def\<close>)

lemma messages_idle_I:
  assumes "sb_idle T E idle st" and "is_message_buffer (sb_buffer st)" and "messages_ok (unat n) ms"
    and "sb_bytes (sb_buffer st) = concat (map (frame big) ms)"
  shows "messages_idle T E idle big n st" "messages_in big st = ms"
  using assms parse_frames [OF assms(3)] unat_u32_less by (auto simp: messages_idle_def)

lemma used_bytes:
  assumes "messages_idle T E idle big n st"
  shows "sum_list (map (\<lambda>m. 4 + length m) (messages_in big st)) = sb_count (sb_buffer st)"
  using messages_idle_D(1,4) [OF assms] length_sb_bytes [of "sb_buffer st"] length_frames [of big "messages_in big st"]
  by (simp add: sb_idle_def)

lemma send_message_now:
  assumes "messages_idle T E idle big n st" and x: "0 < length x" "length x \<le> unat n" "length x + 4 < 2 ^ 32"
    and room: "sb_count (sb_buffer st) + (4 + length x) < sb_len (sb_buffer st)"
  shows "\<exists>st'. xStreamBufferSend big world x (w32 (length x)) 0 st = Some (w32 (length x), st') \<and>
    messages_idle T E idle big n st' \<and> messages_in big st' = messages_in big st @ [x] \<and>
    sb_same (sb_buffer st) (sb_buffer st')"
proof -
  let ?B = "sb_buffer st" and ?len = "w32 (length x)"
  note d = messages_idle_D [OF assms(1)]
  have ok: "sb_ok ?B" using d(1) by (simp add: sb_idle_def)
  have len: "length x = unat ?len" "0 < ?len" using x by (simp_all add: word_less_nat_alt)
  have req: "unat (?len + 4) = unat ?len + 4" using x len(1) by (simp add: unat_word_ariths)
  note space = spaces_available [OF ok]
  have fits: "unat (?len + 4) \<le> unat (xStreamBufferSpacesAvailable ?B)"
    using req space room x by simp
  obtain B where B: "prvWriteMessageToBuffer big x ?len (xStreamBufferSpacesAvailable ?B) (?len + 4) ?B = Some (?len, B)"
    "sb_ok B" "sb_same ?B B" "sb_bytes B = sb_bytes ?B @ length_bytes big ?len @ x"
    using write_message [OF ok d(2) len req fits] space by auto
  obtain st' where st': "send_completed ?len (st\<lparr>sb_buffer := B\<rparr>) = Some st'" "sb_idle T E idle st'" "sb_buffer st' = B"
    using send_completed_idle [OF d(1) B(2,3)] by blast
  have "sb_bytes B = concat (map (frame big) (messages_in big st @ [x]))"
    using B(4) d(4) by (simp add: frame_def)
  moreover have "messages_ok (unat n) (messages_in big st @ [x])"
    using d(3) x by (simp add: messages_ok_def)
  ultimately have "messages_idle T E idle big n st'" "messages_in big st' = messages_in big st @ [x]"
    using messages_idle_I [OF st'(2), where ms = "messages_in big st @ [x]"] st'(3) d(2) sb_same_message [OF B(3)] by auto
  then show ?thesis
    using B st' d(2) by (simp add: xStreamBufferSend_def sbBYTES_TO_STORE_MESSAGE_LENGTH_def Let_def)
qed

lemma send_message_full:
  assumes "messages_idle T E idle big n st" and x: "length x + 4 < 2 ^ 32"
    and room: "\<not> sb_count (sb_buffer st) + (4 + length x) < sb_len (sb_buffer st)"
  shows "xStreamBufferSend big world x (w32 (length x)) 0 st = Some (0, st)"
proof -
  let ?B = "sb_buffer st" and ?len = "w32 (length x)"
  note d = messages_idle_D [OF assms(1)]
  have ok: "sb_ok ?B" using d(1) by (simp add: sb_idle_def)
  have req: "unat (?len + 4) = length x + 4" using x by (simp add: unat_word_ariths)
  have "unat (xStreamBufferSpacesAvailable ?B) < unat (?len + 4)"
    using req spaces_available [OF ok] room sb_count_less [OF ok] by simp
  then show ?thesis
    using write_message_refused [OF d(2)] d(2)
    by (simp add: xStreamBufferSend_def sbBYTES_TO_STORE_MESSAGE_LENGTH_def Let_def send_completed_def)
qed

lemma receive_message_now:
  assumes "messages_idle T E idle big n st" and ms: "messages_in big st = m # ms"
  shows "\<exists>st'. xStreamBufferReceive big world n 0 st = Some (m, st') \<and> m \<noteq> [] \<and>
    messages_idle T E idle big n st' \<and> messages_in big st' = ms \<and> sb_same (sb_buffer st) (sb_buffer st')"
proof -
  let ?B = "sb_buffer st"
  note d = messages_idle_D [OF assms(1), unfolded ms]
  have ok: "sb_ok ?B" using d(1) by (simp add: sb_idle_def)
  have m: "0 < length m" "length m \<le> unat n" "messages_ok (unat n) ms" using d(3) by (auto simp: messages_ok_def)
  have len: "length m = unat (w32 (length m))" "0 < w32 (length m)"
    using m unat_u32_less [of n] by (simp_all add: word_less_nat_alt)
  have frame: "sb_bytes ?B = length_bytes big (w32 (length m)) @ m @ concat (map (frame big) ms)"
    using d(4) by (simp add: frame_def)
  obtain B where B: "prvReadMessageFromBuffer big n (prvBytesInBuffer ?B) ?B = Some (m, B)" "sb_ok B" "sb_same ?B B"
    "sb_bytes B = concat (map (frame big) ms)"
    using read_message(1) [OF ok d(2) bytes_in_buffer [OF ok] frame len] m(2) len(1) by auto
  obtain st' where st': "(if m \<noteq> [] then sbRECEIVE_COMPLETED (st\<lparr>sb_buffer := B\<rparr>) else Some (st\<lparr>sb_buffer := B\<rparr>)) = Some st'"
    "sb_idle T E idle st'" "sb_buffer st' = B"
    using receive_completed_idle [OF d(1) B(2,3)] by blast
  have "messages_idle T E idle big n st'" "messages_in big st' = ms"
    using messages_idle_I [OF st'(2) _ m(3)] st'(3) d(2) B(4) sb_same_message [OF B(3)] by auto
  moreover have "prvBytesInBuffer ?B > 4"
  proof -
    have "4 + length m \<le> sb_count ?B" using length_sb_bytes [OF ok] frame by simp
    then have "4 < sb_count ?B" using m(1) by linarith
    then show ?thesis using bytes_in_buffer [OF ok] by (simp add: word_less_nat_alt)
  qed
  moreover have "m \<noteq> []" using m(1) by simp
  ultimately show ?thesis
    using B st' d(2) by (simp add: xStreamBufferReceive_def sbBYTES_TO_STORE_MESSAGE_LENGTH_def Let_def)
qed

lemma receive_message_empty:
  assumes "messages_idle T E idle big n st" and ms: "messages_in big st = []"
  shows "xStreamBufferReceive big world n 0 st = Some ([], st)"
proof -
  note d = messages_idle_D [OF assms(1), unfolded ms]
  have ok: "sb_ok (sb_buffer st)" using d(1) by (simp add: sb_idle_def)
  have "unat (prvBytesInBuffer (sb_buffer st)) = 0"
    using bytes_in_buffer [OF ok] length_sb_bytes [OF ok] d(4) by simp
  then have "prvBytesInBuffer (sb_buffer st) = 0" by (simp add: unat_eq_0)
  then show ?thesis using d(2) by (simp add: xStreamBufferReceive_def sbBYTES_TO_STORE_MESSAGE_LENGTH_def)
qed

text \<open>Sending and receiving as the operations of a channel.\<close>

definition mb_put :: "bool \<Rightarrow> (nat \<Rightarrow> sbsys \<Rightarrow> sbsys option) \<Rightarrow> u8 list \<Rightarrow> sbsys \<Rightarrow> (bool \<times> sbsys) option" where
  "mb_put big world x st =
     map_option (\<lambda>(n, st'). (n = w32 (length x), st')) (xStreamBufferSend big world x (w32 (length x)) 0 st)"

definition mb_get :: "bool \<Rightarrow> (nat \<Rightarrow> sbsys \<Rightarrow> sbsys option) \<Rightarrow> u32 \<Rightarrow> sbsys \<Rightarrow> (u8 list option \<times> sbsys) option" where
  "mb_get big world n st =
     map_option (\<lambda>(m, st'). (if m = [] then None else Some m, st')) (xStreamBufferReceive big world n 0 st)"

definition message_ok :: "u32 \<Rightarrow> u8 list \<Rightarrow> bool" where
  "message_ok n x \<longleftrightarrow> 0 < length x \<and> length x \<le> unat n \<and> length x + 4 < 2 ^ 32"

lemma sb_same_len: "sb_same B B' \<Longrightarrow> xLength B' = xLength B"
  by (simp add: sb_same_def)

interpretation mb: bounded_channel "mb_put big world" "mb_get big world n" "messages_in big" "messages_idle T E idle big n"
  "\<lambda>_. message_ok n" "\<lambda>m. 4 + length m" "\<lambda>st. sb_len (sb_buffer st) - 1"
  for big world n T E idle
proof
  fix st :: sbsys and x :: "u8 list"
  assume a: "messages_idle T E idle big n st" "message_ok n x"
    "sum_list (map (\<lambda>m. 4 + length m) (messages_in big st)) + (4 + length x) \<le> sb_len (sb_buffer st) - 1"
  have x: "0 < length x" "length x \<le> unat n" "length x + 4 < 2 ^ 32" using a(2) by (simp_all add: message_ok_def)
  have "sb_count (sb_buffer st) + (4 + length x) < sb_len (sb_buffer st)"
    using a(3) x(1) unfolding used_bytes [OF a(1)] by simp
  from send_message_now [OF a(1) x this, of world]
  show "\<exists>s'. mb_put big world x st = Some (True, s') \<and> messages_idle T E idle big n s' \<and>
      messages_in big s' = messages_in big st @ [x] \<and> message_ok n = message_ok n \<and>
      sb_len (sb_buffer s') - 1 = sb_len (sb_buffer st) - 1"
    by (auto simp: mb_put_def dest: sb_same_len)
next
  fix st :: sbsys and x :: "u8 list"
  assume a: "messages_idle T E idle big n st" "message_ok n x"
    "\<not> sum_list (map (\<lambda>m. 4 + length m) (messages_in big st)) + (4 + length x) \<le> sb_len (sb_buffer st) - 1"
  have x: "0 < length x" "length x + 4 < 2 ^ 32" using a(2) by (simp_all add: message_ok_def)
  have "\<not> sb_count (sb_buffer st) + (4 + length x) < sb_len (sb_buffer st)"
    using a(3) x(1) unfolding used_bytes [OF a(1)] by simp
  moreover have "w32 (length x) \<noteq> 0" using x by (metis add_lessD1 length_greater_0_conv unat_0 unat_w32 x(1) less_irrefl)
  ultimately show "mb_put big world x st = Some (False, st)"
    using send_message_full [OF a(1) x(2)] by (simp add: mb_put_def)
next
  fix st :: sbsys and m ms
  assume "messages_idle T E idle big n st" "messages_in big st = m # ms"
  from receive_message_now [OF this, of world]
  show "\<exists>s'. mb_get big world n st = Some (Some m, s') \<and> messages_idle T E idle big n s' \<and>
      messages_in big s' = ms \<and> message_ok n = message_ok n \<and> sb_len (sb_buffer s') - 1 = sb_len (sb_buffer st) - 1"
    by (fastforce simp: mb_get_def dest: sb_same_len)
next
  fix st :: sbsys
  assume "messages_idle T E idle big n st" "messages_in big st = []"
  from receive_message_empty [OF this, of world]
  show "mb_get big world n st = Some (None, st)" by (simp add: mb_get_def)
qed

subsection \<open>Waking a blocked receiver\<close>

lemma set_notify_fields [simp]:
  "pxCurrentTCB (set_notify t v n k) = pxCurrentTCB k" "uxSchedulerSuspended (set_notify t v n k) = uxSchedulerSuspended k"
  "container i (set_notify t v n k) = container i k" "ucNotifyState (tcb (set_notify t v n k) t) = n"
  "ulNotifiedValue (tcb (set_notify t v n k) t) = v" "settled (set_notify t v n k) = settled k"
  "kernel T E idle (set_notify t v n k) = kernel T E idle k"
proof -
  show "kernel T E idle (set_notify t v n k) = kernel T E idle k"
  proof
    let ?old = "tcb k t"
    assume "kernel T E idle (set_notify t v n k)"
    moreover have "set_tcb t ?old (set_notify t v n k) = k" by (simp add: set_notify_def set_tcb_def)
    ultimately show "kernel T E idle k"
      using kernel_set_tcb [of T E idle "set_notify t v n k" ?old t] by (simp add: set_notify_def set_tcb_def)
  qed (simp add: set_notify_def kernel_set_tcb)
qed (simp_all add: set_notify_def set_tcb_def container_def settled_def pending_def)

text \<open>An interrupt that sends \<open>x\<close> at one of the points of a receive.\<close>

definition sb_isr_sends :: "nat \<Rightarrow> bool \<Rightarrow> u8 list \<Rightarrow> nat \<Rightarrow> sbsys \<Rightarrow> sbsys option" where
  "sb_isr_sends p big x = (\<lambda>point st.
     if point = p then map_option (\<lambda>(_, _, st'). st') (xStreamBufferSendFromISR big x (w32 (length x)) st) else Some st)"

lemma isr_sends_stream:
  assumes "sb_ok (sb_buffer st)" and "\<not> is_message_buffer (sb_buffer st)" and "sb_bytes (sb_buffer st) = []"
    and x: "0 < length x" "length x < sb_len (sb_buffer st)" "unat (xTriggerLevelBytes (sb_buffer st)) \<le> length x"
    and w: "xTaskWaitingToReceive (sb_buffer st) = Some cur"
    and n: "xTaskGenericNotifyFromISR cur 0 eNoAction (sb_kernel st) = Some (r, v, higher, k)"
  shows "\<exists>B. map_option (\<lambda>(_, _, st'). st') (xStreamBufferSendFromISR big x (w32 (length x)) st) =
      Some \<lparr>sb_kernel = k, sb_buffer = B\<lparr>xTaskWaitingToReceive := None\<rparr>\<rparr> \<and>
    sb_ok B \<and> sb_same (sb_buffer st) B \<and> sb_bytes B = x"
proof -
  let ?B = "sb_buffer st" and ?len = "w32 (length x)" and ?space = "xStreamBufferSpacesAvailable (sb_buffer st)"
  have small: "length x < 2 ^ 32" using x(2) unat_u32_less [of "xLength ?B"] by linarith
  have count: "sb_count ?B = 0" using length_sb_bytes [OF assms(1)] assms(3) by simp
  have "?len \<le> ?space" using spaces_available [OF assms(1)] count x(2) small by (simp add: word_le_nat_alt)
  then have m: "min ?len ?space = ?len" by (simp add: min_def)
  obtain B where B: "\<And>req. prvWriteMessageToBuffer big x ?len ?space req ?B = Some (?len, B)" "sb_ok B" "sb_same ?B B"
    "sb_bytes B = x"
    using write_stream [OF assms(1,2), of ?len x ?space big] spaces_available [OF assms(1)] m small assms(2,3)
    by (simp add: prvWriteMessageToBuffer_def) blast
  have "unat (prvBytesInBuffer B) = length x" using bytes_in_buffer [OF B(2)] length_sb_bytes [OF B(2)] B(4) by simp
  then have "xTriggerLevelBytes B \<le> prvBytesInBuffer B" using x(3) B(3) by (simp add: word_le_nat_alt sb_same_def)
  moreover have "?len > 0" using x(1) small by (simp add: word_less_nat_alt)
  moreover have "xTaskWaitingToReceive B = Some cur" using B(3) w by (simp add: sb_same_def)
  ultimately show ?thesis
    using B n assms(2)
    by (intro exI [of _ B]) (simp add: xStreamBufferSendFromISR_def Let_def xStreamBufferSendCompletedFromISR_def notify_waiting_from_isr_def)
qed

lemma sb_ok_waiting [simp]:
  "sb_ok (B\<lparr>xTaskWaitingToReceive := w\<rparr>) = sb_ok B" "sb_bytes (B\<lparr>xTaskWaitingToReceive := w\<rparr>) = sb_bytes B"
  "is_message_buffer (B\<lparr>xTaskWaitingToReceive := w\<rparr>) = is_message_buffer B"
  "prvBytesInBuffer (B\<lparr>xTaskWaitingToReceive := w\<rparr>) = prvBytesInBuffer B"
  by (simp_all add: sb_ok_def sb_bytes_def sb_count_def is_message_buffer_def prvBytesInBuffer_def Let_def)

text \<open>What the receiver finds when the wait is over.\<close>

lemma receive_after_wait:
  assumes k: "kernel T E idle k" "settled k" "uxSchedulerSuspended k = 0"
    and B: "sb_ok B" "\<not> is_message_buffer B" "sb_bytes B = x" "x \<noteq> []" "xTaskWaitingToReceive B = None" "xTaskWaitingToSend B = None"
    and st: "\<not> is_message_buffer (sb_buffer st)" "tm \<noteq> 0"
    and w: "receive_wait world 0 tm st = Some (prvBytesInBuffer B, \<lparr>sb_kernel = k, sb_buffer = B\<rparr>)"
  shows "\<exists>st'. xStreamBufferReceive big world n tm st = Some (take (unat n) x, st') \<and> sb_idle T E idle st' \<and>
    sb_bytes (sb_buffer st') = drop (unat n) x"
proof -
  have idle: "sb_idle T E idle \<lparr>sb_kernel = k, sb_buffer = B\<rparr>" using k B by (simp add: sb_idle_def)
  obtain st' where "xStreamBufferReceive big world n 0 \<lparr>sb_kernel = k, sb_buffer = B\<rparr> = Some (take (unat n) x, st')"
    "sb_idle T E idle st'" "sb_bytes (sb_buffer st') = drop (unat n) x"
    using receive_stream_now [OF idle, of big world n] B by auto
  moreover have "xStreamBufferReceive big world n tm st = xStreamBufferReceive big world n 0 \<lparr>sb_kernel = k, sb_buffer = B\<rparr>"
    using st B(2) w by (simp add: xStreamBufferReceive_def)
  ultimately show ?thesis by simp
qed

text \<open>The interrupt comes before the wait: the notification is there and the task does not block.\<close>

lemma receive_interrupted_before:
  assumes idle: "sb_idle T E idle st" and "\<not> is_message_buffer (sb_buffer st)" and "sb_bytes (sb_buffer st) = []"
    and x: "0 < length x" "length x < sb_len (sb_buffer st)" "unat (xTriggerLevelBytes (sb_buffer st)) \<le> length x"
    and cur: "pxCurrentTCB (sb_kernel st) = Some cur" "ucNotifyState (tcb (sb_kernel st) cur) \<noteq> WAITING_NOTIFICATION"
  shows "\<exists>k B. receive_wait (sb_isr_sends 0 big x) 0 tm st = Some (prvBytesInBuffer B, \<lparr>sb_kernel = k, sb_buffer = B\<rparr>) \<and>
    kernel T E idle k \<and> settled k \<and> uxSchedulerSuspended k = 0 \<and> sb_ok B \<and> \<not> is_message_buffer B \<and> sb_bytes B = x \<and>
    xTaskWaitingToReceive B = None \<and> xTaskWaitingToSend B = None"
proof -
  let ?k = "sb_kernel st" and ?B = "sb_buffer st" and ?v = "ulNotifiedValue (tcb (sb_kernel st) cur)"
  have ok: "sb_ok ?B" and k: "kernel T E idle ?k" "settled ?k" "uxSchedulerSuspended ?k = 0"
    "xTaskWaitingToSend ?B = None" using idle by (simp_all add: sb_idle_def)
  obtain r k1 where k1: "xTaskGenericNotifyStateClear None ?k = Some (r, k1)" "kernel T E idle k1" "settled k1"
    "uxSchedulerSuspended k1 = 0" "pxCurrentTCB k1 = Some cur" "ucNotifyState (tcb k1 cur) \<noteq> WAITING_NOTIFICATION"
    using k cur by (cases "ucNotifyState (tcb ?k cur) = NOTIFICATION_RECEIVED")
      (auto simp: xTaskGenericNotifyStateClear_def prvGetTCBFromHandle_def)
  let ?st1 = "\<lparr>sb_kernel = k1, sb_buffer = ?B\<lparr>xTaskWaitingToReceive := Some cur\<rparr>\<rparr>"
  let ?w = "ulNotifiedValue (tcb k1 cur)"
  have n: "xTaskGenericNotifyFromISR cur 0 eNoAction (sb_kernel ?st1) =
      Some (True, ?w, False, set_notify cur ?w NOTIFICATION_RECEIVED k1)"
    using k1(6) by (simp add: xTaskGenericNotifyFromISR_def notify_action_def Let_def)
  obtain B where B: "map_option (\<lambda>(_, _, st'). st') (xStreamBufferSendFromISR big x (w32 (length x)) ?st1) =
      Some \<lparr>sb_kernel = set_notify cur ?w NOTIFICATION_RECEIVED k1, sb_buffer = B\<lparr>xTaskWaitingToReceive := None\<rparr>\<rparr>"
    "sb_ok B" "sb_same (sb_buffer ?st1) B" "sb_bytes B = x"
    using isr_sends_stream [where x = x and big = big, OF _ _ _ _ _ _ _ n] ok assms(2,3) x by auto
  let ?k2 = "set_notify cur ?w NOTIFICATION_RECEIVED k1" and ?B2 = "B\<lparr>xTaskWaitingToReceive := None\<rparr>"
  have isr: "sb_isr_sends 0 big x 0 ?st1 = Some \<lparr>sb_kernel = ?k2, sb_buffer = ?B2\<rparr>"
    using B(1) by (simp add: sb_isr_sends_def)
  have wait: "sb_notify_wait (sb_isr_sends 0 big x) tm \<lparr>sb_kernel = ?k2, sb_buffer = ?B2\<rparr> =
      Some \<lparr>sb_kernel = set_notify cur ?w NOT_WAITING_NOTIFICATION ?k2, sb_buffer = ?B2\<rparr>"
    using k1(5) by (simp add: sb_notify_wait_def xTaskGenericNotifyWait_enter_def xTaskGenericNotifyWait_leave_def sb_isr_sends_def Let_def)
  have empty: "prvBytesInBuffer ?B = 0"
    using bytes_in_buffer [OF ok] length_sb_bytes [OF ok] assms(3) by (simp add: unat_eq_0)
  have "receive_wait (sb_isr_sends 0 big x) 0 tm st =
      Some (prvBytesInBuffer ?B2, \<lparr>sb_kernel = set_notify cur ?w NOT_WAITING_NOTIFICATION ?k2, sb_buffer = ?B2\<rparr>)"
    using k1 isr wait empty by (simp add: receive_wait_def xTaskGetCurrentTaskHandle_def)
  moreover have "\<not> is_message_buffer B" "xTaskWaitingToSend B = None"
    using B(3) assms(2) k(4) by (simp_all add: sb_same_def is_message_buffer_def)
  ultimately show ?thesis using k1 B(2,4)
    by (intro exI [of _ "set_notify cur ?w NOT_WAITING_NOTIFICATION ?k2"] exI [of _ ?B2]) simp
qed

text \<open>The interrupt comes while the task is blocked: it is ready again.\<close>

lemma notify_blocked:
  assumes k: "kernel T E idle k" "settled k" "uxSchedulerSuspended k = 0"
    and cur: "pxCurrentTCB k = Some cur" "cur \<noteq> idle" "container (EventItem cur) k = None" and tm: "0 < tm"
  shows "\<exists>k1 k2 r v b. notify_block tm (set_notify cur w WAITING_NOTIFICATION k) = Some k1 \<and>
    xTaskGenericNotifyFromISR cur 0 eNoAction k1 = Some (r, v, b, k2) \<and>
    kernel T E idle k2 \<and> settled k2 \<and> uxSchedulerSuspended k2 = 0 \<and> pxCurrentTCB k2 = Some cur \<and>
    ucNotifyState (tcb k2 cur) = NOTIFICATION_RECEIVED"
proof -
  let ?k0 = "set_notify cur w WAITING_NOTIFICATION k"
  have k0: "kernel T E idle ?k0" "pxCurrentTCB ?k0 = Some cur" using k cur by simp_all
  obtain k1 where k1: "prvAddCurrentTaskToDelayedList tm True ?k0 = Some k1" "kernel T E idle k1"
    "blocks cur (delay_list tm True ?k0) ?k0 k1"
    using block_current [OF k0 tm cur(2)] by blast
  note b = blocks_D [OF k1(3)] and f = same_ctl_D [OF blocks_D(1) [OF k1(3)]]
  let ?k1 = "taskYIELD_IF_USING_PREEMPTION k1"
  have y: "uxSchedulerSuspended ?k1 = 0" "tcb ?k1 = tcb ?k0" "pxCurrentTCB ?k1 = Some cur" "kernel T E idle ?k1"
    "container (StateItem cur) ?k1 = Some (delay_list tm True ?k0)" "container (EventItem cur) ?k1 = None"
    "xPendedTicks ?k1 = 0" "pending ?k1 = {}"
    using k cur f b(2) k1(2) settled_quiet [OF k(2,3)]
    by (simp_all add: taskYIELD_IF_USING_PREEMPTION_def pending_def) (simp add: set_notify_def set_tcb_def)
  let ?k2 = "set_notify cur (ulNotifiedValue (tcb ?k1 cur)) NOTIFICATION_RECEIVED ?k1"
  have k2: "kernel T E idle ?k2" "container (StateItem cur) ?k2 = Some (delay_list tm True ?k0)"
    "container (EventItem cur) ?k2 = None" using y by simp_all
  obtain m s where s: "list_remove (StateItem cur) ?k2 = Some (m, s)"
    "sched_at T E (Suc (unat (xTickCount ?k2))) (unat (xTickCount ?k2)) (prvAddTaskToReadyList cur s)"
    "wakes {cur} ?k2 (prvAddTaskToReadyList cur s)"
    using wake_one [OF kernel_D(1) [OF k2(1)] k2(2,3)] by blast
  note w = wakes_D [OF s(3)]
  have "sched T E (prvAddTaskToReadyList cur s)" using s(2) by (simp add: w)
  moreover have "cur \<in> T" using kernel_D(6) [OF k(1)] cur(1) by auto
  ultimately have "kernel T E idle (prvAddTaskToReadyList cur s)" using kernel_wakes [OF k2(1) s(3)] by simp
  moreover have "settled (prvAddTaskToReadyList cur s)"
    using y(6-8) by (auto simp: settled_def pending_def w) (simp add: set_notify_def set_tcb_def)+
  moreover have "xTaskGenericNotifyFromISR cur 0 eNoAction ?k1 =
      Some (True, ulNotifiedValue (tcb ?k1 cur), False, prvAddTaskToReadyList cur s)"
    using y s(1) w by (simp add: xTaskGenericNotifyFromISR_def notify_action_def notify_wake_from_isr_def Let_def)
  moreover have "notify_block tm ?k0 = Some ?k1" using k1(1) tm by (simp add: notify_block_def)
  ultimately show ?thesis using w y by auto
qed

lemma receive_interrupted_asleep:
  assumes idle: "sb_idle T E idle st" and "\<not> is_message_buffer (sb_buffer st)" and "sb_bytes (sb_buffer st) = []"
    and x: "0 < length x" "length x < sb_len (sb_buffer st)" "unat (xTriggerLevelBytes (sb_buffer st)) \<le> length x"
    and cur: "pxCurrentTCB (sb_kernel st) = Some cur" "cur \<noteq> idle" "container (EventItem cur) (sb_kernel st) = None"
    and tm: "0 < tm"
  shows "\<exists>k B. receive_wait (sb_isr_sends 1 big x) 0 tm st = Some (prvBytesInBuffer B, \<lparr>sb_kernel = k, sb_buffer = B\<rparr>) \<and>
    kernel T E idle k \<and> settled k \<and> uxSchedulerSuspended k = 0 \<and> sb_ok B \<and> \<not> is_message_buffer B \<and> sb_bytes B = x \<and>
    xTaskWaitingToReceive B = None \<and> xTaskWaitingToSend B = None"
proof -
  let ?k = "sb_kernel st" and ?B = "sb_buffer st"
  have ok: "sb_ok ?B" and k: "kernel T E idle ?k" "settled ?k" "uxSchedulerSuspended ?k = 0"
    "xTaskWaitingToSend ?B = None" using idle by (simp_all add: sb_idle_def)
  obtain r k1 where k1: "xTaskGenericNotifyStateClear None ?k = Some (r, k1)" "kernel T E idle k1" "settled k1"
    "uxSchedulerSuspended k1 = 0" "pxCurrentTCB k1 = Some cur" "ucNotifyState (tcb k1 cur) \<noteq> NOTIFICATION_RECEIVED"
    "container (EventItem cur) k1 = None"
    using k cur by (cases "ucNotifyState (tcb ?k cur) = NOTIFICATION_RECEIVED")
      (auto simp: xTaskGenericNotifyStateClear_def prvGetTCBFromHandle_def)
  let ?B1 = "?B\<lparr>xTaskWaitingToReceive := Some cur\<rparr>"
  obtain k2 k3 r' v b where k2: "notify_block tm (set_notify cur (ulNotifiedValue (tcb k1 cur) AND NOT 0) WAITING_NOTIFICATION k1) = Some k2"
    "xTaskGenericNotifyFromISR cur 0 eNoAction k2 = Some (r', v, b, k3)"
    "kernel T E idle k3" "settled k3" "uxSchedulerSuspended k3 = 0" "pxCurrentTCB k3 = Some cur"
    using notify_blocked [OF k1(2-5) cur(2) k1(7) tm] by blast
  have n: "xTaskGenericNotifyFromISR cur 0 eNoAction (sb_kernel \<lparr>sb_kernel = k2, sb_buffer = ?B1\<rparr>) = Some (r', v, b, k3)"
    using k2(2) by simp
  obtain B where B: "map_option (\<lambda>(_, _, st'). st') (xStreamBufferSendFromISR big x (w32 (length x)) \<lparr>sb_kernel = k2, sb_buffer = ?B1\<rparr>) =
      Some \<lparr>sb_kernel = k3, sb_buffer = B\<lparr>xTaskWaitingToReceive := None\<rparr>\<rparr>"
    "sb_ok B" "sb_same ?B1 B" "sb_bytes B = x"
    using isr_sends_stream [where x = x and big = big, OF _ _ _ _ _ _ _ n] ok assms(2,3) x by auto
  let ?B2 = "B\<lparr>xTaskWaitingToReceive := None\<rparr>"
  obtain k4 where k4: "map_option (\<lambda>(_, _, k). k) (xTaskGenericNotifyWait_leave 0 k3) = Some k4"
    "kernel T E idle k4" "settled k4" "uxSchedulerSuspended k4 = 0"
    using k2(3-6) by (simp add: xTaskGenericNotifyWait_leave_def Let_def)
  have enter: "xTaskGenericNotifyWait_enter 0 tm k1 = Some k2"
    using k1(5,6) k2(1) by (simp add: xTaskGenericNotifyWait_enter_def)
  have isr: "sb_isr_sends 1 big x 1 \<lparr>sb_kernel = k2, sb_buffer = ?B1\<rparr> = Some \<lparr>sb_kernel = k3, sb_buffer = ?B2\<rparr>"
    using B(1) by (simp add: sb_isr_sends_def)
  have wait: "sb_notify_wait (sb_isr_sends 1 big x) tm \<lparr>sb_kernel = k1, sb_buffer = ?B1\<rparr> =
      Some \<lparr>sb_kernel = k4, sb_buffer = ?B2\<rparr>"
    using enter isr k4(1) by (auto simp: sb_notify_wait_def)
  have empty: "prvBytesInBuffer ?B = 0"
    using bytes_in_buffer [OF ok] length_sb_bytes [OF ok] assms(3) by (simp add: unat_eq_0)
  have "receive_wait (sb_isr_sends 1 big x) 0 tm st = Some (prvBytesInBuffer ?B2, \<lparr>sb_kernel = k4, sb_buffer = ?B2\<rparr>)"
    using k1 wait empty by (simp add: receive_wait_def sb_isr_sends_def xTaskGetCurrentTaskHandle_def)
  moreover have "\<not> is_message_buffer B" "xTaskWaitingToSend B = None"
    using B(3) assms(2) k(4) by (simp_all add: sb_same_def is_message_buffer_def)
  ultimately show ?thesis using k4 B(2,4) by (intro exI [of _ k4] exI [of _ ?B2]) simp
qed

end
