(* ===== verification/StreamProps.thy ===== *)
theory StreamProps
  imports StreamSpec
begin

text \<open>
  The properties of stream buffers: a stream buffer is a pipe of bytes, a message buffer a channel of
  messages, data sent by an interrupt reaches a receiver that is going to sleep, and creation.
\<close>

subsection \<open>Requests to a pipe\<close>

datatype pipe_op = Write "u8 list" | Read u32
datatype pipe_answer = Wrote nat | Data "u8 list"

text \<open>A pipe of capacity \<open>cap\<close> that holds \<open>bs\<close> takes as much of the data as fits.\<close>

fun pipe_run :: "nat \<Rightarrow> pipe_op list \<Rightarrow> u8 list \<Rightarrow> pipe_answer list \<times> u8 list" where
  "pipe_run cap [] bs = ([], bs)"
| "pipe_run cap (Write x # ops) bs =
     (let n = min (length x) (cap - length bs); (as, ys) = pipe_run cap ops (bs @ take n x)
      in (Wrote n # as, ys))"
| "pipe_run cap (Read n # ops) bs =
     (let (as, ys) = pipe_run cap ops (drop (unat n) bs) in (Data (take (unat n) bs) # as, ys))"

text \<open>The same requests to the code, without waiting.\<close>

fun stream_run :: "bool \<Rightarrow> (nat \<Rightarrow> sbsys \<Rightarrow> sbsys option) \<Rightarrow> pipe_op list \<Rightarrow> sbsys \<Rightarrow> (pipe_answer list \<times> sbsys) option" where
  "stream_run big world [] st = Some ([], st)"
| "stream_run big world (Write x # ops) st =
     do {
       (n, st1) \<leftarrow> xStreamBufferSend big world x (w32 (length x)) 0 st;
       (as, st2) \<leftarrow> stream_run big world ops st1;
       Some (Wrote (unat n) # as, st2)
     }"
| "stream_run big world (Read n # ops) st =
     do {
       (d, st1) \<leftarrow> xStreamBufferReceive big world n 0 st;
       (as, st2) \<leftarrow> stream_run big world ops st1;
       Some (Data d # as, st2)
     }"

fun written :: "pipe_op list \<Rightarrow> pipe_answer list \<Rightarrow> u8 list" where
  "written (Write x # ops) (Wrote n # as) = take n x @ written ops as"
| "written (_ # ops) (_ # as) = written ops as"
| "written _ _ = []"

fun read :: "pipe_answer list \<Rightarrow> u8 list" where
  "read (Data d # as) = d @ read as"
| "read (_ # as) = read as"
| "read [] = []"

lemma pipe_run_order: "pipe_run cap ops bs = (as, ys) \<Longrightarrow> read as @ ys = bs @ written ops as"
proof (induction cap ops bs arbitrary: as ys rule: pipe_run.induct)
  case (2 cap x ops bs)
  obtain as' where r: "pipe_run cap ops (bs @ take (min (length x) (cap - length bs)) x) = (as', ys)"
    "as = Wrote (min (length x) (cap - length bs)) # as'"
    using "2.prems" by (auto simp: Let_def split: prod.splits)
  show ?case using "2.IH" [OF refl r(1)] r(2) by simp
next
  case (3 cap n ops bs)
  obtain as' where r: "pipe_run cap ops (drop (unat n) bs) = (as', ys)" "as = Data (take (unat n) bs) # as'"
    using "3.prems" by (auto simp: Let_def split: prod.splits)
  show ?case using "3.IH" [OF r(1)] r(2) by (metis append.assoc append_take_drop_id read.simps(1) written.simps(2,3))
qed simp

lemma pipe_run_bound: "pipe_run cap ops bs = (as, ys) \<Longrightarrow> length bs \<le> cap \<Longrightarrow> length ys \<le> cap"
proof (induction cap ops bs arbitrary: as ys rule: pipe_run.induct)
  case (2 cap x ops bs)
  then show ?case by (fastforce simp: Let_def split: prod.splits)
next
  case (3 cap n ops bs)
  then show ?case by (fastforce simp: Let_def split: prod.splits)
qed simp

lemma stream_run_pipe:
  assumes "sb_idle T E idle st" and "\<not> is_message_buffer (sb_buffer st)"
    and "\<forall>x. Write x \<in> set ops \<longrightarrow> length x < 2 ^ 32"
    and "pipe_run (sb_len (sb_buffer st) - 1) ops (sb_bytes (sb_buffer st)) = (as, ys)"
  shows "\<exists>st'. stream_run big world ops st = Some (as, st') \<and> sb_idle T E idle st' \<and> sb_bytes (sb_buffer st') = ys"
  using assms
proof (induction ops arbitrary: st as ys)
  case (Cons op ops)
  have ok: "sb_ok (sb_buffer st)" using Cons.prems(1) by (simp add: sb_idle_def)
  note count = length_sb_bytes [OF ok] and less = sb_count_less [OF ok] and lt = unat_u32_less [of "xLength (sb_buffer st)"]
  show ?case
  proof (cases op)
    case (Write x)
    let ?n = "min (length x) (sb_len (sb_buffer st) - 1 - sb_count (sb_buffer st))"
    have x: "unat (w32 (length x)) = length x" using Cons.prems(3) Write by simp
    then obtain st1 where st1: "xStreamBufferSend big world x (w32 (length x)) 0 st = Some (w32 ?n, st1)" "sb_idle T E idle st1"
      "sb_same (sb_buffer st) (sb_buffer st1)" "sb_bytes (sb_buffer st1) = sb_bytes (sb_buffer st) @ take ?n x"
      using send_stream_now [OF Cons.prems(1,2), of "w32 (length x)" x big world] by auto
    have n: "unat (w32 ?n) = ?n" using less lt by (intro unat_w32) linarith
    obtain as' where r: "pipe_run (sb_len (sb_buffer st) - 1) ops (sb_bytes (sb_buffer st) @ take ?n x) = (as', ys)" "as = Wrote ?n # as'"
      using Cons.prems(4) Write count by (auto simp: Let_def split: prod.splits)
    have len: "sb_len (sb_buffer st1) = sb_len (sb_buffer st)" using sb_same_len [OF st1(3)] by simp
    show ?thesis
      using Cons.IH [OF st1(2), of as' ys] st1 r Cons.prems(2,3) Write n sb_same_message [OF st1(3)] unfolding len st1(4) by auto
  next
    case (Read n)
    obtain st1 where st1: "xStreamBufferReceive big world n 0 st = Some (take (unat n) (sb_bytes (sb_buffer st)), st1)"
      "sb_idle T E idle st1" "sb_same (sb_buffer st) (sb_buffer st1)"
      "sb_bytes (sb_buffer st1) = drop (unat n) (sb_bytes (sb_buffer st))"
      using receive_stream_now [OF Cons.prems(1,2), of big world n] by auto
    obtain as' where r: "pipe_run (sb_len (sb_buffer st) - 1) ops (drop (unat n) (sb_bytes (sb_buffer st))) = (as', ys)"
      "as = Data (take (unat n) (sb_bytes (sb_buffer st))) # as'"
      using Cons.prems(4) Read by (auto simp: Let_def split: prod.splits)
    have len: "sb_len (sb_buffer st1) = sb_len (sb_buffer st)" using sb_same_len [OF st1(3)] by simp
    show ?thesis
      using Cons.IH [OF st1(2), of as' ys] st1 r Cons.prems(2,3) Read sb_same_message [OF st1(3)] unfolding len st1(4) by auto
  qed
qed simp

subsection \<open>Creation\<close>

lemma create_buffer:
  assumes "malloc (sz + 1 + 36) = Some block" and "length block = unat (sz + 1 + 36)" and "unat sz < 2 ^ 31"
  shows "\<exists>B. xStreamBufferGenericCreate malloc sz trigger msg = Some B \<and> sb_ok B \<and> sb_bytes B = [] \<and>
    sb_len B = unat sz + 1 \<and> is_message_buffer B = msg \<and> xTriggerLevelBytes B = (if trigger = 0 then 1 else trigger) \<and>
    xTaskWaitingToReceive B = None \<and> xTaskWaitingToSend B = None"
proof -
  have s: "unat (sz + 1 + 36) = unat sz + 37" "unat (sz + 1) = unat sz + 1"
    using assms(3) by (simp_all add: unat_word_ariths)
  let ?B = "prvInitialiseNewStreamBuffer (drop 36 block) (sz + 1) (if trigger = 0 then 1 else trigger)
    (if msg then sbFLAGS_IS_MESSAGE_BUFFER else 0)"
  have "sz < sz + 1 + 36" using s by (simp add: word_less_nat_alt)
  then have "xStreamBufferGenericCreate malloc sz trigger msg = Some ?B"
    using assms(1) by (simp add: xStreamBufferGenericCreate_def sizeof_StreamBuffer_t_def Let_def)
  moreover have "sb_ok ?B" using assms s by (simp add: sb_ok_def prvInitialiseNewStreamBuffer_def word_less_nat_alt)
  moreover have "sb_bytes ?B = []" by (simp add: sb_bytes_def sb_count_def ring_bytes_def prvInitialiseNewStreamBuffer_def)
  moreover have "is_message_buffer ?B = msg"
    by (simp add: is_message_buffer_def prvInitialiseNewStreamBuffer_def sbFLAGS_IS_MESSAGE_BUFFER_def)
  moreover have "sb_len ?B = unat sz + 1" "xTriggerLevelBytes ?B = (if trigger = 0 then 1 else trigger)"
    "xTaskWaitingToReceive ?B = None" "xTaskWaitingToSend ?B = None"
    using s by (simp_all add: prvInitialiseNewStreamBuffer_def)
  ultimately show ?thesis by blast
qed

text \<open>The tasks 0, 3 and 5 (running) with a buffer of 12 bytes.\<close>

definition sb_w :: "bool \<Rightarrow> sbsys" where
  "sb_w msg = \<lparr>sb_kernel = waiter_w, sb_buffer = the (xStreamBufferGenericCreate zeros 12 1 msg)\<rparr>"

lemma kernel_waiter_w:
  "kernel {0, 3, 5} {} 0 waiter_w" "settled waiter_w" "uxSchedulerSuspended waiter_w = 0" "pxCurrentTCB waiter_w = Some 5"
  "container (EventItem t) waiter_w = None" "ucNotifyState (tcb waiter_w 5) = NOT_WAITING_NOTIFICATION"
proof -
  show "kernel {0, 3, 5} {} 0 waiter_w"
    unfolding waiter_w_def by (rule kernel_set_tcb [OF tasks_w(1)]) (simp add: tasks_w(3))
  show "settled waiter_w" "uxSchedulerSuspended waiter_w = 0" "pxCurrentTCB waiter_w = Some 5"
    "container (EventItem t) waiter_w = None" "ucNotifyState (tcb waiter_w 5) = NOT_WAITING_NOTIFICATION"
    using tasks_w(2,7,9,13) by (simp_all add: waiter_w_def) (simp_all add: set_tcb_def settled_def pending_def container_def)
qed

lemma sb_w:
  "sb_idle {0, 3, 5} {} 0 (sb_w msg)" "is_message_buffer (sb_buffer (sb_w msg)) = msg" "sb_bytes (sb_buffer (sb_w msg)) = []"
  "sb_len (sb_buffer (sb_w msg)) = 13" "xTriggerLevelBytes (sb_buffer (sb_w msg)) = 1" "sb_kernel (sb_w msg) = waiter_w"
proof -
  have z: "zeros (12 + 1 + 36) = Some (replicate 49 0)" "length (replicate 49 (0 :: u8)) = unat (12 + 1 + 36 :: u32)"
    by (simp_all add: zeros_def)
  obtain B where B: "xStreamBufferGenericCreate zeros 12 1 msg = Some B" "sb_ok B" "sb_bytes B = []" "sb_len B = unat (12 :: u32) + 1"
    "is_message_buffer B = msg" "xTriggerLevelBytes B = 1" "xTaskWaitingToReceive B = None" "xTaskWaitingToSend B = None"
    using create_buffer [where malloc = zeros and sz = 12 and trigger = 1 and msg = msg, OF z] by auto
  show "sb_idle {0, 3, 5} {} 0 (sb_w msg)" "is_message_buffer (sb_buffer (sb_w msg)) = msg" "sb_bytes (sb_buffer (sb_w msg)) = []"
    "sb_len (sb_buffer (sb_w msg)) = 13" "xTriggerLevelBytes (sb_buffer (sb_w msg)) = 1" "sb_kernel (sb_w msg) = waiter_w"
    using B kernel_waiter_w(1-3) by (simp_all add: sb_w_def sb_idle_def)
qed

subsection \<open>The properties\<close>

text \<open>C10: a stream buffer is a pipe.  Any sequence of sends and receives that do not wait gives the answers
  of a pipe that holds one byte less than the storage area: a send takes as much as fits, a receive
  gives what is there up to its size, and what was read followed by what is left is what was there
  followed by what was written, in order.\<close>

theorem stream_buffer_is_pipe:
  assumes "sb_idle T E idle st" and "\<not> is_message_buffer (sb_buffer st)"
    and "\<forall>x. Write x \<in> set ops \<longrightarrow> length x < 2 ^ 32"
    and "pipe_run (sb_len (sb_buffer st) - 1) ops (sb_bytes (sb_buffer st)) = (as, ys)"
  shows "\<exists>st'. stream_run big world ops st = Some (as, st') \<and> sb_idle T E idle st' \<and> sb_bytes (sb_buffer st') = ys \<and>
    length ys < sb_len (sb_buffer st) \<and> read as @ sb_bytes (sb_buffer st') = sb_bytes (sb_buffer st) @ written ops as"
proof -
  have ok: "sb_ok (sb_buffer st)" using assms(1) by (simp add: sb_idle_def)
  have "length (sb_bytes (sb_buffer st)) \<le> sb_len (sb_buffer st) - 1"
    using length_sb_bytes [OF ok] sb_count_less [OF ok] by simp
  then have "length ys < sb_len (sb_buffer st)"
    using pipe_run_bound [OF assms(4)] sb_ok_D(2) [OF ok] by linarith
  then show ?thesis using stream_run_pipe [OF assms] pipe_run_order [OF assms(4)] by blast
qed

theorem stream_buffer_is_pipe_witness:
  "\<exists>st'. stream_run False (\<lambda>_. Some) [Write [1, 2, 3], Read 2, Write [4, 5, 6, 7, 8, 9, 10, 11, 12, 13, 14, 15], Read 20] (sb_w False) =
     Some ([Wrote 3, Data [1, 2], Wrote 11, Data [3, 4, 5, 6, 7, 8, 9, 10, 11, 12, 13, 14]], st') \<and> sb_bytes (sb_buffer st') = []"
proof -
  have r: "pipe_run (sb_len (sb_buffer (sb_w False)) - 1)
      [Write [1, 2, 3], Read 2, Write [4, 5, 6, 7, 8, 9, 10, 11, 12, 13, 14, 15], Read 20] (sb_bytes (sb_buffer (sb_w False))) =
    ([Wrote 3, Data [1, 2], Wrote 11, Data [3, 4, 5, 6, 7, 8, 9, 10, 11, 12, 13, 14]], [])"
    by (simp add: sb_w)
  show ?thesis
    using stream_buffer_is_pipe [OF sb_w(1) _ _ r, of False "\<lambda>_. Some"] by (auto simp: sb_w(2))
qed

text \<open>C12: a message buffer is a channel of messages.  A send that does not wait takes a message whole or not at
  all, and takes it exactly when its bytes and the four of its length fit; a receive gives the oldest
  message whole; and messages arrive in the order they were sent.\<close>

theorem message_buffer_is_channel:
  assumes "messages_idle T E idle big n st" and "\<forall>x. Put x \<in> set ops \<longrightarrow> message_ok n x"
    and "channel_run (\<lambda>m. 4 + length m) (sb_len (sb_buffer st) - 1) ops (messages_in big st) = (as, ys)"
  shows "\<exists>st'. impl_run (mb_put big world) (mb_get big world n) ops st = Some (as, st') \<and> messages_idle T E idle big n st' \<and>
    messages_in big st' = ys \<and> received as @ messages_in big st' = messages_in big st @ accepted ops as"
  using mb.channel_refines [OF assms, of world] channel_run_order [OF assms(3)] by blast

theorem message_buffer_is_channel_witness:
  "\<exists>st'. impl_run (mb_put True (\<lambda>_. Some)) (mb_get True (\<lambda>_. Some) 8) [Put [1, 2, 3], Put [4], Get, Put [5, 6, 7], Put [8], Get, Get, Get] (sb_w True) =
     Some ([Sent True, Sent True, Got (Some [1, 2, 3]), Sent True, Sent False, Got (Some [4]), Got (Some [5, 6, 7]), Got None], st') \<and>
     messages_in True st' = []"
proof -
  have m: "messages_idle {0, 3, 5} {} 0 True 8 (sb_w True)" "messages_in True (sb_w True) = []"
    using messages_idle_I [OF sb_w(1), of True 8 "[]" True] sb_w(2,3) by (auto simp: messages_ok_def)
  have r: "channel_run (\<lambda>m. 4 + length m) (sb_len (sb_buffer (sb_w True)) - 1)
      [Put [1, 2, 3], Put [4], Get, Put [5, 6, 7], Put [8], Get, Get, Get] (messages_in True (sb_w True)) =
    ([Sent True, Sent True, Got (Some [1, 2, 3]), Sent True, Sent False, Got (Some [4]), Got (Some [5, 6, 7]), Got None], [])"
    by (simp add: m(2) sb_w(4))
  have "\<forall>x. Put x \<in> set [Put [1, 2, 3], Put [4], Get, Put [5, 6, 7], Put [8], Get, Get, Get] \<longrightarrow> message_ok 8 x"
    by (auto simp: message_ok_def)
  from message_buffer_is_channel [OF m(1) this r, of "\<lambda>_. Some"] show ?thesis by blast
qed



end
