(* ===== verification/EventGroups.thy ===== *)
theory EventGroups
  imports StreamSpec
begin

text \<open>
  Event groups, \<^verbatim>\<open>FreeRTOS-Kernel/event_groups.c\<close>: a word of event bits and the list of the tasks that
  wait for some or all of a set of bits.  A waiting task keeps the bits it waits for, with the control
  bits of its call, in the value of its event item.  The group is kept with the state of the kernel;
  \<open>world\<close> is what other tasks and interrupts do while the caller sleeps.  The calls for interrupts that
  go through the timer task are compiled out (\<^verbatim>\<open>INCLUDE_xTimerPendFunctionCall\<close> is 0); the callbacks
  they would use are modelled.
\<close>

subsection \<open>The structure\<close>

definition eventCLEAR_EVENTS_ON_EXIT_BIT :: u32 where "eventCLEAR_EVENTS_ON_EXIT_BIT = 0x01000000"
definition eventUNBLOCKED_DUE_TO_BIT_SET :: u32 where "eventUNBLOCKED_DUE_TO_BIT_SET = 0x02000000"
definition eventWAIT_FOR_ALL_BITS :: u32 where "eventWAIT_FOR_ALL_BITS = 0x04000000"
definition eventEVENT_BITS_CONTROL_BYTES :: u32 where "eventEVENT_BITS_CONTROL_BYTES = 0xff000000"

text \<open>The list of waiters is the event list with that number.\<close>

record EventGroup_t =
  uxEventBits :: u32
  xTasksWaitingForBits :: nat
  uxEventGroupNumber :: u32

record egsys =
  eg_kernel :: ktask
  eg_group :: EventGroup_t

definition set_bits_of :: "u32 \<Rightarrow> egsys \<Rightarrow> egsys" where
  "set_bits_of b st = st\<lparr>eg_group := (eg_group st)\<lparr>uxEventBits := b\<rparr>\<rparr>"

definition waiting_list :: "egsys \<Rightarrow> klid" where
  "waiting_list st = Event (xTasksWaitingForBits (eg_group st))"

text \<open>The macros of \<^verbatim>\<open>list.h\<close> that walk a list.\<close>

definition listGET_HEAD_ENTRY :: "klid \<Rightarrow> klists \<Rightarrow> (klid, kitem) iptr" where
  "listGET_HEAD_ENTRY l s = pxNext (nodes s (ListEnd l))"

definition listGET_NEXT :: "(klid, kitem) iptr \<Rightarrow> klists \<Rightarrow> (klid, kitem) iptr" where
  "listGET_NEXT p s = pxNext (nodes s p)"

subsection \<open>Creation\<close>

text \<open>\<open>malloc\<close> says whether the memory for the structure was available, \<open>e\<close> is the number of the new list;
  the number for trace tools is not set and stays as the memory was.\<close>

definition sizeof_EventGroup_t :: u32 where "sizeof_EventGroup_t = 28"

definition xEventGroupCreate :: "(u32 \<Rightarrow> bool) \<Rightarrow> nat \<Rightarrow> u32 \<Rightarrow> ktask \<Rightarrow> egsys option" where
  "xEventGroupCreate malloc e number k =
     (if malloc sizeof_EventGroup_t
      then Some \<lparr>eg_kernel = on_lists (vListInitialise (Event e)) k,
                 eg_group = \<lparr>uxEventBits = 0, xTasksWaitingForBits = e, uxEventGroupNumber = number\<rparr>\<rparr>
      else None)"

subsection \<open>Setting and clearing bits\<close>

definition prvTestWaitCondition :: "u32 \<Rightarrow> u32 \<Rightarrow> bool \<Rightarrow> bool" where
  "prvTestWaitCondition uxCurrentEventBits uxBitsToWaitFor xWaitForAllBits =
     (if \<not> xWaitForAllBits then uxCurrentEventBits AND uxBitsToWaitFor \<noteq> 0
      else uxCurrentEventBits AND uxBitsToWaitFor = uxBitsToWaitFor)"

text \<open>\<^verbatim>\<open>xMatchFound\<close> for a waiter whose item has value \<open>v\<close>, with the bits it waits for and the control bits.\<close>

definition wait_bits :: "u32 \<Rightarrow> u32" where "wait_bits v = v AND NOT eventEVENT_BITS_CONTROL_BYTES"
definition wait_control :: "u32 \<Rightarrow> u32" where "wait_control v = v AND eventEVENT_BITS_CONTROL_BYTES"

definition match_found :: "u32 \<Rightarrow> u32 \<Rightarrow> bool" where
  "match_found bits v =
     (if wait_control v AND eventWAIT_FOR_ALL_BITS = 0 then wait_bits v AND bits \<noteq> 0
      else wait_bits v AND bits = wait_bits v)"

text \<open>The loop over the waiters; \<^verbatim>\<open>pxNext\<close> is read before the item is moved.  The result holds
  \<^verbatim>\<open>uxBitsToClear\<close>.  \<open>None\<close> is a walk into another list, besides a walk that does not end.\<close>

partial_function (option) set_bits_walk ::
  "klid \<Rightarrow> u32 \<Rightarrow> (klid, kitem) iptr \<Rightarrow> u32 \<Rightarrow> ktask \<Rightarrow> (u32 \<times> ktask) option" where
  "set_bits_walk pxList bits pxListItem uxBitsToClear k =
     (case pxListItem of
        ListEnd l \<Rightarrow> if l = pxList then Some (uxBitsToClear, k) else None
      | Item i \<Rightarrow>
          let nextp = listGET_NEXT pxListItem (ls k);
              v = listGET_LIST_ITEM_VALUE i (ls k)
          in if match_found bits v
             then
               do {
                 k1 \<leftarrow> vTaskRemoveFromUnorderedEventList i (bits OR eventUNBLOCKED_DUE_TO_BIT_SET) k;
                 set_bits_walk pxList bits nextp
                   (if wait_control v AND eventCLEAR_EVENTS_ON_EXIT_BIT \<noteq> 0
                    then uxBitsToClear OR wait_bits v else uxBitsToClear) k1
               }
             else set_bits_walk pxList bits nextp uxBitsToClear k)"

text \<open>When leaving the suspended section yields, other tasks run before the bits are read again.\<close>

definition xEventGroupSetBits :: "(egsys \<Rightarrow> egsys option) \<Rightarrow> u32 \<Rightarrow> egsys \<Rightarrow> (u32 \<times> egsys) option" where
  "xEventGroupSetBits world uxBitsToSet st =
     do {
       let k = vTaskSuspendAll (eg_kernel st);
       let pxListItem = listGET_HEAD_ENTRY (waiting_list st) (ls k);
       let bits = uxEventBits (eg_group st) OR uxBitsToSet;
       (uxBitsToClear, k1) \<leftarrow> set_bits_walk (waiting_list st) bits pxListItem 0 k;
       let st1 = set_bits_of (bits AND NOT uxBitsToClear) st;
       (xAlreadyYielded, k2) \<leftarrow> xTaskResumeAll k1;
       st2 \<leftarrow> (if xAlreadyYielded then world (st1\<lparr>eg_kernel := k2\<rparr>) else Some (st1\<lparr>eg_kernel := k2\<rparr>));
       Some (uxEventBits (eg_group st2), st2)
     }"

definition xEventGroupClearBits :: "u32 \<Rightarrow> egsys \<Rightarrow> u32 \<times> egsys" where
  "xEventGroupClearBits uxBitsToClear st =
     (uxEventBits (eg_group st), set_bits_of (uxEventBits (eg_group st) AND NOT uxBitsToClear) st)"

definition xEventGroupGetBitsFromISR :: "egsys \<Rightarrow> u32" where
  "xEventGroupGetBitsFromISR st = uxEventBits (eg_group st)"

definition vEventGroupSetBitsCallback :: "(egsys \<Rightarrow> egsys option) \<Rightarrow> u32 \<Rightarrow> egsys \<Rightarrow> egsys option" where
  "vEventGroupSetBitsCallback world ulBitsToSet st = map_option snd (xEventGroupSetBits world ulBitsToSet st)"

definition vEventGroupClearBitsCallback :: "u32 \<Rightarrow> egsys \<Rightarrow> egsys" where
  "vEventGroupClearBitsCallback ulBitsToClear st = snd (xEventGroupClearBits ulBitsToClear st)"

definition uxEventGroupGetNumber :: "EventGroup_t option \<Rightarrow> u32" where
  "uxEventGroupGetNumber g = (case g of None \<Rightarrow> 0 | Some G \<Rightarrow> uxEventGroupNumber G)"

definition vEventGroupSetNumber :: "u32 \<Rightarrow> EventGroup_t \<Rightarrow> EventGroup_t" where
  "vEventGroupSetNumber n G = G\<lparr>uxEventGroupNumber := n\<rparr>"

subsection \<open>Waiting\<close>

text \<open>The yield and the sleep after the suspended section.\<close>

definition eg_sleep :: "(egsys \<Rightarrow> egsys option) \<Rightarrow> bool \<Rightarrow> egsys \<Rightarrow> egsys option" where
  "eg_sleep world xAlreadyYielded st =
     world (if \<not> xAlreadyYielded then st\<lparr>eg_kernel := taskYIELD_IF_USING_PREEMPTION (eg_kernel st)\<rparr> else st)"

text \<open>What the caller does when it runs again.\<close>

definition wait_finish :: "u32 \<Rightarrow> bool \<Rightarrow> bool \<Rightarrow> egsys \<Rightarrow> (u32 \<times> egsys) option" where
  "wait_finish uxBitsToWaitFor xClearOnExit xWaitForAllBits st =
     do {
       (v, k) \<leftarrow> uxTaskResetEventItemValue (eg_kernel st);
       let st1 = st\<lparr>eg_kernel := k\<rparr>;
       let (r, st2) =
         (if v AND eventUNBLOCKED_DUE_TO_BIT_SET = 0
          then let b = uxEventBits (eg_group st1) in
            (b, if prvTestWaitCondition b uxBitsToWaitFor xWaitForAllBits
                then if xClearOnExit then set_bits_of (b AND NOT uxBitsToWaitFor) st1 else st1
                else st1)
          else (v, st1));
       Some (r AND NOT eventEVENT_BITS_CONTROL_BYTES, st2)
     }"

definition xEventGroupWaitBits ::
  "(egsys \<Rightarrow> egsys option) \<Rightarrow> u32 \<Rightarrow> bool \<Rightarrow> bool \<Rightarrow> u32 \<Rightarrow> egsys \<Rightarrow> (u32 \<times> egsys) option" where
  "xEventGroupWaitBits world uxBitsToWaitFor xClearOnExit xWaitForAllBits xTicksToWait st0 =
     do {
       let st = st0\<lparr>eg_kernel := vTaskSuspendAll (eg_kernel st0)\<rparr>;
       let uxCurrentEventBits = uxEventBits (eg_group st);
       (uxReturn, n, st1) \<leftarrow>
         (if prvTestWaitCondition uxCurrentEventBits uxBitsToWaitFor xWaitForAllBits
          then Some (uxCurrentEventBits, 0,
                 if xClearOnExit then set_bits_of (uxCurrentEventBits AND NOT uxBitsToWaitFor) st else st)
          else if xTicksToWait = 0 then Some (uxCurrentEventBits, 0, st)
          else
            do {
              let uxControlBits = (if xClearOnExit then eventCLEAR_EVENTS_ON_EXIT_BIT else 0) OR
                                  (if xWaitForAllBits then eventWAIT_FOR_ALL_BITS else 0);
              k \<leftarrow> vTaskPlaceOnUnorderedEventList (waiting_list st) (uxBitsToWaitFor OR uxControlBits)
                    xTicksToWait (eg_kernel st);
              Some (0, xTicksToWait, st\<lparr>eg_kernel := k\<rparr>)
            });
       (xAlreadyYielded, k1) \<leftarrow> xTaskResumeAll (eg_kernel st1);
       let st2 = st1\<lparr>eg_kernel := k1\<rparr>;
       if n \<noteq> 0 then
         do {
           st3 \<leftarrow> eg_sleep world xAlreadyYielded st2;
           wait_finish uxBitsToWaitFor xClearOnExit xWaitForAllBits st3
         }
       else Some (uxReturn, st2)
     }"

text \<open>The end of \<^verbatim>\<open>xEventGroupSync\<close> differs in that the bits are always cleared.\<close>

definition sync_finish :: "u32 \<Rightarrow> egsys \<Rightarrow> (u32 \<times> egsys) option" where
  "sync_finish uxBitsToWaitFor st =
     do {
       (v, k) \<leftarrow> uxTaskResetEventItemValue (eg_kernel st);
       let st1 = st\<lparr>eg_kernel := k\<rparr>;
       let (r, st2) =
         (if v AND eventUNBLOCKED_DUE_TO_BIT_SET = 0
          then let b = uxEventBits (eg_group st1) in
            (b, if b AND uxBitsToWaitFor = uxBitsToWaitFor
                then set_bits_of (b AND NOT uxBitsToWaitFor) st1 else st1)
          else (v, st1));
       Some (r AND NOT eventEVENT_BITS_CONTROL_BYTES, st2)
     }"

definition xEventGroupSync ::
  "(egsys \<Rightarrow> egsys option) \<Rightarrow> u32 \<Rightarrow> u32 \<Rightarrow> u32 \<Rightarrow> egsys \<Rightarrow> (u32 \<times> egsys) option" where
  "xEventGroupSync world uxBitsToSet uxBitsToWaitFor xTicksToWait st0 =
     do {
       let st = st0\<lparr>eg_kernel := vTaskSuspendAll (eg_kernel st0)\<rparr>;
       let uxOriginalBitValue = uxEventBits (eg_group st);
       (_, sta) \<leftarrow> xEventGroupSetBits world uxBitsToSet st;
       (uxReturn, n, st1) \<leftarrow>
         (if (uxOriginalBitValue OR uxBitsToSet) AND uxBitsToWaitFor = uxBitsToWaitFor
          then Some (uxOriginalBitValue OR uxBitsToSet, 0,
                 set_bits_of (uxEventBits (eg_group sta) AND NOT uxBitsToWaitFor) sta)
          else if xTicksToWait \<noteq> 0 then
            do {
              k \<leftarrow> vTaskPlaceOnUnorderedEventList (waiting_list sta)
                    (uxBitsToWaitFor OR eventCLEAR_EVENTS_ON_EXIT_BIT OR eventWAIT_FOR_ALL_BITS)
                    xTicksToWait (eg_kernel sta);
              Some (0, xTicksToWait, sta\<lparr>eg_kernel := k\<rparr>)
            }
          else Some (uxEventBits (eg_group sta), 0, sta));
       (xAlreadyYielded, k1) \<leftarrow> xTaskResumeAll (eg_kernel st1);
       let st2 = st1\<lparr>eg_kernel := k1\<rparr>;
       if n \<noteq> 0 then
         do { st3 \<leftarrow> eg_sleep world xAlreadyYielded st2; sync_finish uxBitsToWaitFor st3 }
       else Some (uxReturn, st2)
     }"

subsection \<open>Deletion\<close>

text \<open>Every waiter is woken; the memory of the group is then released, and the kernel remains.\<close>

partial_function (option) delete_walk :: "klid \<Rightarrow> ktask \<Rightarrow> ktask option" where
  "delete_walk l k =
     (if listCURRENT_LIST_LENGTH l (ls k) > 0 then
        (case listGET_HEAD_ENTRY l (ls k) of
           ListEnd _ \<Rightarrow> None
         | Item i \<Rightarrow>
             do {
               k1 \<leftarrow> vTaskRemoveFromUnorderedEventList i eventUNBLOCKED_DUE_TO_BIT_SET k;
               delete_walk l k1
             })
      else Some k)"

definition vEventGroupDelete :: "egsys \<Rightarrow> ktask option" where
  "vEventGroupDelete st =
     do {
       k \<leftarrow> delete_walk (waiting_list st) (vTaskSuspendAll (eg_kernel st));
       map_option snd (xTaskResumeAll k)
     }"

end
