(* ===== verification/EventGroupsWalk.thy ===== *)
theory EventGroupsWalk
  imports EventGroups
begin

text \<open>
  The walk over the waiters of an event group: it wakes exactly the waiters whose condition holds,
  in one pass, although every woken item leaves the list under the walk.
\<close>

subsection \<open>Waking tasks with a value\<close>

definition released :: "task set \<Rightarrow> u32 \<Rightarrow> ktask \<Rightarrow> ktask \<Rightarrow> bool" where
  "released W v st st' \<longleftrightarrow> same_ctl (st\<lparr>xYieldPending := True\<rparr>) (st'\<lparr>xYieldPending := True\<rparr>) \<and>
     (\<forall>i. value_of st' i = (if i \<in> EventItem ` W then v else value_of st i)) \<and>
     (\<forall>t. container (StateItem t) st' =
        (if t \<in> W then Some (Ready (uxPriority (tcb st t))) else container (StateItem t) st)) \<and>
     (\<forall>t. container (EventItem t) st' = (if t \<in> W then None else container (EventItem t) st))"

lemma released_D:
  assumes "released W v st st'"
  shows "tcb st' = tcb st" "pxCurrentTCB st' = pxCurrentTCB st" "xTickCount st' = xTickCount st"
    "uxSchedulerSuspended st' = uxSchedulerSuspended st" "xPendedTicks st' = xPendedTicks st"
    "uxCurrentNumberOfTasks st' = uxCurrentNumberOfTasks st"
    "value_of st' i = (if i \<in> EventItem ` W then v else value_of st i)"
    "container (StateItem t) st' =
       (if t \<in> W then Some (Ready (uxPriority (tcb st t))) else container (StateItem t) st)"
    "container (EventItem t) st' = (if t \<in> W then None else container (EventItem t) st)"
  using assms by (simp_all add: released_def same_ctl_def)

lemma released_empty [simp]: "released {} v st st"
  by (simp add: released_def same_ctl_def)

lemma released_trans: "released V v st st1 \<Longrightarrow> released W v st1 st2 \<Longrightarrow> released (V \<union> W) v st st2"
  by (simp add: released_def same_ctl_def image_Un)

lemma released_yield [simp]: "released W v st (st'\<lparr>xYieldPending := b\<rparr>) = released W v st st'"
  by (simp add: released_def same_ctl_def)

lemma kernel_released:
  assumes "kernel T E idle st" and "released W v st st'" and "sched T E st'" and "W \<subseteq> T"
  shows "kernel T E idle st'"
  using assms unfolding kernel_def released_D [OF assms(2)] by (auto simp: released_D [OF assms(2)])

text \<open>The item is on the list of event \<open>e\<close>; the value is set first, then both items leave their lists.\<close>

lemma set_value_waits:
  assumes k: "kernel T E idle k" and q: "waits E k Q" and e: "e \<in> E" and t: "EventItem t \<in> set (Q e)"
    and st1: "st1 = on_lists (listSET_LIST_ITEM_VALUE (EventItem t) v) k"
  shows "sched T E st1" "waits E st1 Q" "value_of st1 = (value_of k)(EventItem t := v)"
    "container j st1 = container j k" "same_ctl k st1" "t \<in> T"
    "container (EventItem t) st1 = Some (Event e)" "\<exists>l. container (StateItem t) st1 = Some l"
    "pvOwner (nodes (ls st1) (Item (EventItem t))) = t"
proof -
  note kd = kernel_D [OF k]
  have c: "container (EventItem t) k = Some (Event e)" using kernel_waits_container [OF q e] t by simp
  then have nd: "container (EventItem t) k \<notin> {Some DelayedTaskList1, Some DelayedTaskList2}" by simp
  show o: "value_of st1 = (value_of k)(EventItem t := v)" "container j st1 = container j k" for j
    by (simp_all add: st1 set_value_obs(1-3))
  show sc: "same_ctl k st1" unfolding st1 by (rule set_value_same_ctl)
  show s: "sched T E st1" unfolding same_ctl_D(5) [OF sc] unfolding st1 by (rule sched_set_value [OF kd(1) nd])
  show "waits E st1 Q" unfolding st1 by (rule waits_set_value [OF q nd])
  show tT: "t \<in> T" using kernel_tasks(1) [OF k c] by simp
  show "container (EventItem t) st1 = Some (Event e)" using c o(2) by simp
  show "\<exists>l. container (StateItem t) st1 = Some l" using kd(4) [OF tT] o(2) by simp
  have "owner_of st1 (EventItem t) = t" using s tasks_at_D(1) [of T _ _ st1 "EventItem t"] tT by (auto simp: sched_at_def)
  then show "pvOwner (nodes (ls st1) (Item (EventItem t))) = t" by (simp add: owner_of_def)
qed

lemma wake_event_waits:
  assumes s: "sched_at T E c d st" and "container (StateItem t) st = Some l" and ev: "container (EventItem t) st = Some (Event e)"
    and q: "waits E st Q" and tT: "t \<in> T"
  shows "\<exists>m n st1 st2. list_remove (EventItem t) st = Some (m, st1) \<and> list_remove (StateItem t) st1 = Some (n, st2) \<and>
    sched_at T E c d (prvAddTaskToReadyList t st2) \<and> wakes {t} st (prvAddTaskToReadyList t st2) \<and>
    waits E (prvAddTaskToReadyList t st2) (Q(e := remove1 (EventItem t) (Q e)))"
proof -
  let ?Q = "Q(e := remove1 (EventItem t) (Q e))"
  obtain m n st1 st2 where r: "list_remove (EventItem t) st = Some (m, st1)" "moved (EventItem t) None st st1"
    "list_remove (StateItem t) st1 = Some (n, st2)" "sched_at T E c d st1"
    "sched_at T E c d (prvAddTaskToReadyList t st2)" "wakes {t} st (prvAddTaskToReadyList t st2)"
    using wake_event [OF assms(1-3)] by blast
  have q1: "waits E st1 ?Q" using waits_remove [OF s ev q] r(1) by simp
  have l1: "container (StateItem t) st1 = Some l" using moved_fields(15) [OF r(2)] assms(2) by simp
  have q2: "sched_at T E c d st2" "moved (StateItem t) None st1 st2" "waits E st2 (upd_waits l (remove1 (StateItem t)) ?Q)"
    using waits_remove [OF r(4) l1 q1] r(3) by simp_all
  have "holds_state l" using r(4) tasks_at_D(3) [OF _ l1] by (auto simp: sched_at_def)
  then have "upd_waits l (remove1 (StateItem t)) ?Q = ?Q" by (cases l) simp_all
  then have "waits E (prvAddTaskToReadyList t st2) ?Q"
    using waits_add_ready [OF q2(1) tT] moved_fields(15) [OF q2(2)] q2(3) by simp
  then show ?thesis using r(1,3,5,6) by blast
qed

lemma remove_unordered:
  assumes k: "kernel T E idle k" and q: "waits E k Q" and e: "e \<in> E" and t: "EventItem t \<in> set (Q e)"
  shows "\<exists>k'. vTaskRemoveFromUnorderedEventList (EventItem t) v k = Some k' \<and>
    kernel T E idle k' \<and> waits E k' (Q(e := remove1 (EventItem t) (Q e))) \<and>
    released {t} (v OR taskEVENT_LIST_ITEM_VALUE_IN_USE) k k'"
proof -
  let ?v = "v OR taskEVENT_LIST_ITEM_VALUE_IN_USE"
  define st1 where "st1 = on_lists (listSET_LIST_ITEM_VALUE (EventItem t) ?v) k"
  note s1 = set_value_waits [OF k q e t st1_def]
  obtain l where l: "container (StateItem t) st1 = Some l" using s1(8) by blast
  obtain m n st2 st3 where r: "list_remove (EventItem t) st1 = Some (m, st2)" "list_remove (StateItem t) st2 = Some (n, st3)"
    "sched_at T E (Suc (unat (xTickCount st1))) (unat (xTickCount st1)) (prvAddTaskToReadyList t st3)"
    "wakes {t} st1 (prvAddTaskToReadyList t st3)"
    "waits E (prvAddTaskToReadyList t st3) (Q(e := remove1 (EventItem t) (Q e)))"
    using wake_event_waits [OF s1(1) l s1(7) s1(2) s1(6)] by blast
  define st4 where "st4 = prvAddTaskToReadyList t st3"
  note r = r [folded st4_def]
  note w = wakes_D [OF r(4)]
  have "same_ctl (k\<lparr>xYieldPending := True\<rparr>) (st1\<lparr>xYieldPending := True\<rparr>)" using s1(5) by (simp add: same_ctl_def)
  then have sc4: "same_ctl (k\<lparr>xYieldPending := True\<rparr>) (st4\<lparr>xYieldPending := True\<rparr>)"
    using r(4) same_ctl_trans unfolding wakes_def by blast
  have rel: "released {t} ?v k st4"
    unfolding released_def w(12,14,15) s1(3,4) same_ctl_D(1) [OF s1(5)] using sc4 by simp
  have "sched T E st4" using r(3) unfolding w(5) .
  then have k4: "kernel T E idle st4" using kernel_released [OF k rel] s1(6) by blast
  obtain cur where cur: "pxCurrentTCB st4 = Some cur" using kernel_D(6) [OF k4] by blast
  define k' where "k' = (if uxPriority (tcb st4 t) > uxPriority (tcb st4 cur) then st4\<lparr>xYieldPending := True\<rparr> else st4)"
  have "vTaskRemoveFromUnorderedEventList (EventItem t) v k = Some k'"
    using r(1,2) s1(9) cur
    unfolding vTaskRemoveFromUnorderedEventList_def st1_def [symmetric] by (simp add: k'_def st4_def Let_def)
  moreover have "kernel T E idle k'" using k4 by (simp add: k'_def)
  moreover have "waits E k' (Q(e := remove1 (EventItem t) (Q e)))" by (rule waits_cong [OF r(5)]) (simp add: k'_def)
  moreover have "released {t} ?v k k'" using rel by (cases "uxPriority (tcb st4 t) > uxPriority (tcb st4 cur)") (simp_all add: k'_def)
  ultimately show ?thesis by blast
qed

subsection \<open>Pointers into the list of waiters\<close>

definition eptr :: "nat \<Rightarrow> kitem list \<Rightarrow> (klid, kitem) iptr" where
  "eptr e ys = (case ys of [] \<Rightarrow> ListEnd (Event e) | y # _ \<Rightarrow> Item y)"

lemma eptr_simps [simp]: "eptr e [] = ListEnd (Event e)" "eptr e (y # ys) = Item y"
  by (simp_all add: eptr_def)

lemma linked_next: "linked m (xs @ p # q # ys) \<Longrightarrow> pxNext (m p) = q"
  by (auto simp: linked_def successively_append_iff)

lemma waits_linked:
  assumes "waits E k Q" and "e \<in> E"
  shows "linked (nodes (ls k)) (ListEnd (Event e) # map Item (Q e) @ [ListEnd (Event e)])" "distinct (Q e)"
    "uxNumberOfItems (lists (ls k) (Event e)) = w32 (length (Q e))" "length (Q e) < 2 ^ 32"
proof -
  obtain A where A: "lists_ok E k A" "Q e = fst (A (Event e))" using assms by (auto simp: waits_def)
  have "klist (Event e) (ls k) (A (Event e))"
    using lrel_list [OF lists_ok_lrel [OF A(1)], of "Event e"] assms(2) by (simp add: kernel_lists_def)
  then show "linked (nodes (ls k)) (ListEnd (Event e) # map Item (Q e) @ [ListEnd (Event e)])" "distinct (Q e)"
    "uxNumberOfItems (lists (ls k) (Event e)) = w32 (length (Q e))" "length (Q e) < 2 ^ 32"
    using A(2) by (cases "A (Event e)"; simp add: klist_def ring_def)+
qed

lemma waits_head:
  assumes "waits E k Q" and "e \<in> E"
  shows "listGET_HEAD_ENTRY (Event e) (ls k) = eptr e (Q e)"
  using waits_linked(1) [OF assms] linked_next [of "nodes (ls k)" "[]" "ListEnd (Event e)"]
  by (cases "Q e") (simp_all add: listGET_HEAD_ENTRY_def)

lemma waits_next:
  assumes "waits E k Q" and "e \<in> E" and "Q e = xs @ i # ys"
  shows "listGET_NEXT (Item i) (ls k) = eptr e ys"
  using waits_linked(1) [OF assms(1,2)] linked_next [of "nodes (ls k)" "ListEnd (Event e) # map Item xs" "Item i"]
  unfolding assms(3) by (cases ys) (simp_all add: listGET_NEXT_def)

subsection \<open>The walks\<close>

definition matching :: "u32 \<Rightarrow> (kitem \<Rightarrow> u32) \<Rightarrow> kitem list \<Rightarrow> task set" where
  "matching bits val xs = item_task ` {i \<in> set xs. match_found bits (val i)}"

fun bits_to_clear :: "u32 \<Rightarrow> (kitem \<Rightarrow> u32) \<Rightarrow> kitem list \<Rightarrow> u32" where
  "bits_to_clear bits val [] = 0"
| "bits_to_clear bits val (i # xs) =
     (if match_found bits (val i) \<and> wait_control (val i) AND eventCLEAR_EVENTS_ON_EXIT_BIT \<noteq> 0
      then wait_bits (val i) OR bits_to_clear bits val xs else bits_to_clear bits val xs)"

lemma matching_simps [simp]:
  "matching bits val [] = {}"
  "matching bits val (i # xs) = (if match_found bits (val i) then insert (item_task i) (matching bits val xs) else matching bits val xs)"
  by (auto simp: matching_def)

lemma matching_cong: "(\<And>i. i \<in> set xs \<Longrightarrow> val i = val' i) \<Longrightarrow> matching bits val xs = matching bits val' xs"
  by (induction xs) simp_all

lemma bits_to_clear_cong: "(\<And>i. i \<in> set xs \<Longrightarrow> val i = val' i) \<Longrightarrow> bits_to_clear bits val xs = bits_to_clear bits val' xs"
  by (induction xs) simp_all

lemma waits_items:
  assumes "kernel T E idle k" and "waits E k Q" and "e \<in> E" and "i \<in> set (Q e)"
  shows "i = EventItem (item_task i)"
  using kernel_tasks(2) [OF assms(1), of i "Event e"] kernel_waits_container [OF assms(2,3)] assms(4)
  by (cases i) auto

lemma walk_end: "set_bits_walk (Event e) bits (eptr e []) c k = Some (c, k)"
  by (subst set_bits_walk.simps) simp

lemma walk_skip:
  assumes "waits E k Q" and "e \<in> E" and "Q e = xs @ i # ys" and "\<not> match_found bits (value_of k i)"
  shows "set_bits_walk (Event e) bits (eptr e (i # ys)) c k = set_bits_walk (Event e) bits (eptr e ys) c k"
  using waits_next [OF assms(1-3)] assms(4) unfolding value_of_def
  by (subst set_bits_walk.simps) (simp add: Let_def)

lemma walk_wake:
  assumes "waits E k Q" and "e \<in> E" and "Q e = xs @ i # ys" and "match_found bits (value_of k i)"
    and "vTaskRemoveFromUnorderedEventList i (bits OR eventUNBLOCKED_DUE_TO_BIT_SET) k = Some k1"
  shows "set_bits_walk (Event e) bits (eptr e (i # ys)) c k = set_bits_walk (Event e) bits (eptr e ys)
    (if wait_control (value_of k i) AND eventCLEAR_EVENTS_ON_EXIT_BIT \<noteq> 0 then c OR wait_bits (value_of k i) else c) k1"
  using waits_next [OF assms(1-3)] assms(4,5) unfolding value_of_def
  by (subst set_bits_walk.simps) (simp add: Let_def)

text \<open>What the walk achieves on the waiters \<open>ys\<close>, those before them being kept.\<close>

definition walked :: "task set \<Rightarrow> nat set \<Rightarrow> task \<Rightarrow> nat \<Rightarrow> u32 \<Rightarrow> (nat \<Rightarrow> kitem list) \<Rightarrow> kitem list \<Rightarrow> kitem list \<Rightarrow> ktask \<Rightarrow> ktask \<Rightarrow> bool" where
  "walked T E idle e bits Q kept ys k k' \<longleftrightarrow> kernel T E idle k' \<and>
     waits E k' (Q(e := kept @ filter (\<lambda>i. \<not> match_found bits (value_of k i)) ys)) \<and>
     released (matching bits (value_of k) ys) (bits OR eventUNBLOCKED_DUE_TO_BIT_SET OR taskEVENT_LIST_ITEM_VALUE_IN_USE) k k'"

lemma walked_Nil:
  assumes "kernel T E idle k" and "waits E k Q" and "Q e = kept"
  shows "walked T E idle e bits Q kept [] k k"
proof -
  have "Q(e := kept @ filter (\<lambda>i. \<not> match_found bits (value_of k i)) []) = Q" using assms(3) by (simp add: fun_upd_idem)
  then show ?thesis unfolding walked_def using assms(1,2) by simp
qed

lemma walked_skip:
  assumes "walked T E idle e bits Q (kept @ [i]) ys k k'" and "\<not> match_found bits (value_of k i)"
  shows "walked T E idle e bits Q kept (i # ys) k k'"
proof -
  have "kept @ filter (\<lambda>i. \<not> match_found bits (value_of k i)) (i # ys) = (kept @ [i]) @ filter (\<lambda>i. \<not> match_found bits (value_of k i)) ys"
    "matching bits (value_of k) (i # ys) = matching bits (value_of k) ys" using assms(2) by simp_all
  then show ?thesis using assms(1) unfolding walked_def by simp
qed

lemma walked_wake:
  assumes "walked T E idle e bits (Q(e := zs)) kept ys k1 k'" and "match_found bits (value_of k (EventItem t))"
    and r: "released {t} (bits OR eventUNBLOCKED_DUE_TO_BIT_SET OR taskEVENT_LIST_ITEM_VALUE_IN_USE) k k1"
    and "EventItem t \<notin> set ys"
  shows "walked T E idle e bits Q kept (EventItem t # ys) k k'"
    "bits_to_clear bits (value_of k1) ys = bits_to_clear bits (value_of k) ys"
proof -
  have same: "value_of k1 j = value_of k j" if "j \<in> set ys" for j
    using released_D(7) [OF r, of j] that assms(4) by auto
  show "bits_to_clear bits (value_of k1) ys = bits_to_clear bits (value_of k) ys"
    by (rule bits_to_clear_cong) (rule same)
  have m: "matching bits (value_of k) (EventItem t # ys) = {t} \<union> matching bits (value_of k1) ys"
    using assms(2) matching_cong [of ys "value_of k1" "value_of k" bits] same by simp
  have f: "filter (\<lambda>i. \<not> match_found bits (value_of k i)) (EventItem t # ys) = filter (\<lambda>i. \<not> match_found bits (value_of k1 i)) ys"
    using assms(2) filter_cong [of ys ys "\<lambda>i. \<not> match_found bits (value_of k1 i)" "\<lambda>i. \<not> match_found bits (value_of k i)"]
      same by simp
  show "walked T E idle e bits Q kept (EventItem t # ys) k k'"
    using assms(1) released_trans [OF r] unfolding walked_def m f fun_upd_upd by blast
qed

lemma set_bits_walk_wakes:
  assumes "kernel T E idle k" and "waits E k Q" and "e \<in> E" and "Q e = kept @ ys"
  shows "\<exists>k'. set_bits_walk (Event e) bits (eptr e ys) c k = Some (c OR bits_to_clear bits (value_of k) ys, k') \<and>
    walked T E idle e bits Q kept ys k k'"
  using assms
proof (induction ys arbitrary: kept c k Q)
  case Nil
  then show ?case using walk_end walked_Nil by simp
next
  case (Cons i ys)
  note prems = Cons.prems
  show ?case
  proof (cases "match_found bits (value_of k i)")
    case False
    have "Q e = (kept @ [i]) @ ys" using prems(4) by simp
    from Cons.IH [OF prems(1-3) this, of c] show ?thesis
      unfolding walk_skip [OF prems(2-4) False] using walked_skip False by auto
  next
    case True
    have "i \<in> set (Q e)" using prems(4) by simp
    then have "i = EventItem (item_task i)" by (rule waits_items [OF prems(1-3)])
    then obtain t where t: "i = EventItem t" by blast
    have "EventItem t \<in> set (Q e)" using prems(4) t by simp
    from remove_unordered [OF prems(1-3) this, of "bits OR eventUNBLOCKED_DUE_TO_BIT_SET"]
    obtain k1 where r: "vTaskRemoveFromUnorderedEventList i (bits OR eventUNBLOCKED_DUE_TO_BIT_SET) k = Some k1"
      "kernel T E idle k1" "waits E k1 (Q(e := remove1 i (Q e)))"
      "released {t} (bits OR eventUNBLOCKED_DUE_TO_BIT_SET OR taskEVENT_LIST_ITEM_VALUE_IN_USE) k k1"
      unfolding t or.assoc by blast
    have dist: "distinct (kept @ i # ys)" using waits_linked(2) [OF prems(2,3)] prems(4) by simp
    then have rem: "remove1 i (Q e) = kept @ ys" using prems(4) by (simp add: remove1_append)
    obtain c' where c': "c' = (if wait_control (value_of k i) AND eventCLEAR_EVENTS_ON_EXIT_BIT \<noteq> 0 then c OR wait_bits (value_of k i) else c)"
      by blast
    have "(Q(e := kept @ ys)) e = kept @ ys" by simp
    from Cons.IH [OF r(2) r(3) [unfolded rem] prems(3) this, of c']
    obtain k' where k': "set_bits_walk (Event e) bits (eptr e ys) c' k1 = Some (c' OR bits_to_clear bits (value_of k1) ys, k')"
      "walked T E idle e bits (Q(e := kept @ ys)) kept ys k1 k'" by blast
    have ni: "EventItem t \<notin> set ys" using dist t by simp
    note w = walked_wake [OF k'(2) True [unfolded t] r(4) ni]
    have "c' OR bits_to_clear bits (value_of k1) ys = c OR bits_to_clear bits (value_of k) (i # ys)"
      unfolding w(2) c' using True by (simp add: or.assoc)
    then have "set_bits_walk (Event e) bits (eptr e (i # ys)) c k = Some (c OR bits_to_clear bits (value_of k) (i # ys), k')"
      using walk_wake [OF prems(2-4) True r(1), of c] k'(1) unfolding c' [symmetric] by simp
    then show ?thesis using w(1) unfolding t by blast
  qed
qed

end
