(* ===== verification/EventGroupsProps.thy ===== *)
theory EventGroupsProps
  imports EventGroupsWalk
begin

text \<open>
  The properties of event groups: setting bits wakes exactly the waiters whose condition holds, a
  task that waits gets the bits another task sets, and tasks meet at a rendezvous.
\<close>

subsection \<open>Leaving the suspended section\<close>

definition resumed :: "ktask \<Rightarrow> ktask" where
  "resumed st = (let s = st\<lparr>uxSchedulerSuspended := 0\<rparr> in if xYieldPending st then taskYIELD_IF_USING_PREEMPTION s else s)"

lemma resumed_simps [simp]:
  "ls (resumed st) = ls st" "tcb (resumed st) = tcb st" "pxCurrentTCB (resumed st) = pxCurrentTCB st"
  "uxSchedulerSuspended (resumed st) = 0" "xPendedTicks (resumed st) = xPendedTicks st"
  "value_of (resumed st) = value_of st" "container i (resumed st) = container i st" "xTickCount (resumed st) = xTickCount st"
  "kernel T E idle (resumed st) = kernel T E idle st" "pending (resumed st) = pending st"
  by (simp_all add: resumed_def Let_def taskYIELD_IF_USING_PREEMPTION_def pending_def)

lemma resume_exact:
  assumes k: "kernel T E idle st" and "uxSchedulerSuspended st = 1" and "xPendedTicks st = 0" and "pending st = {}"
  shows "xTaskResumeAll st = Some (xYieldPending st, resumed st)"
proof -
  let ?s = "st\<lparr>uxSchedulerSuspended := 0\<rparr>"
  have k0: "kernel T E idle ?s" using k by simp
  have "listLIST_IS_EMPTY PendingReady (ls ?s)"
  proof -
    have "container i st \<noteq> Some PendingReady" for i
      using kernel_tasks(2) [OF k, of i PendingReady] assms(4) by (cases i) (auto simp: pending_def)
    then show ?thesis using list_empty [OF kernel_D(1) [OF k0], of PendingReady] by (simp add: kernel_lists_def)
  qed
  then have "resume_pending False ?s = Some (False, ?s)" by (subst resume_pending.simps) simp
  then show ?thesis using assms(2,3) kernel_D(8) [OF k] by (simp add: xTaskResumeAll_def resumed_def Let_def)
qed

lemma resume_nested: "uxSchedulerSuspended st - 1 \<noteq> 0 \<Longrightarrow>
    xTaskResumeAll st = Some (False, st\<lparr>uxSchedulerSuspended := uxSchedulerSuspended st - 1\<rparr>)"
  by (simp add: xTaskResumeAll_def Let_def)

subsection \<open>What setting bits does to the kernel\<close>

definition frees :: "task set \<Rightarrow> u32 \<Rightarrow> ktask \<Rightarrow> ktask \<Rightarrow> bool" where
  "frees W v st st' \<longleftrightarrow> tcb st' = tcb st \<and> pxCurrentTCB st' = pxCurrentTCB st \<and>
     xTickCount st' = xTickCount st \<and>
     (\<forall>i. value_of st' i = (if i \<in> EventItem ` W then v else value_of st i)) \<and>
     (\<forall>t. container (StateItem t) st' =
        (if t \<in> W then Some (Ready (uxPriority (tcb st t))) else container (StateItem t) st)) \<and>
     (\<forall>t. container (EventItem t) st' = (if t \<in> W then None else container (EventItem t) st))"

lemma frees_D:
  assumes "frees W v st st'"
  shows "tcb st' = tcb st" "pxCurrentTCB st' = pxCurrentTCB st" "xTickCount st' = xTickCount st"
    "value_of st' i = (if i \<in> EventItem ` W then v else value_of st i)"
    "container (StateItem t) st' =
        (if t \<in> W then Some (Ready (uxPriority (tcb st t))) else container (StateItem t) st)"
    "container (EventItem t) st' = (if t \<in> W then None else container (EventItem t) st)"
  using assms by (simp_all add: frees_def)

definition woken_value :: "u32 \<Rightarrow> u32" where
  "woken_value bits = bits OR eventUNBLOCKED_DUE_TO_BIT_SET OR taskEVENT_LIST_ITEM_VALUE_IN_USE"

definition eg_waits :: "nat set \<Rightarrow> egsys \<Rightarrow> (nat \<Rightarrow> kitem list) \<Rightarrow> bool" where
  "eg_waits E st Q \<longleftrightarrow> waits E (eg_kernel st) Q \<and> xTasksWaitingForBits (eg_group st) \<in> E"

definition waiters :: "egsys \<Rightarrow> (nat \<Rightarrow> kitem list) \<Rightarrow> kitem list" where
  "waiters st Q = Q (xTasksWaitingForBits (eg_group st))"

lemma set_bits_section:
  assumes k: "kernel T E idle (eg_kernel st)" and w: "eg_waits E st Q"
    and bits: "bits = uxEventBits (eg_group st) OR b"
  shows "\<exists>k1. xEventGroupSetBits world b st = (case xTaskResumeAll k1 of None \<Rightarrow> None | Some (y, k2) \<Rightarrow>
        map_option (\<lambda>st2. (uxEventBits (eg_group st2), st2))
          ((if y then world else Some) ((set_bits_of (bits AND NOT (bits_to_clear bits (value_of (eg_kernel st)) (waiters st Q))) st)\<lparr>eg_kernel := k2\<rparr>))) \<and>
    kernel T E idle k1 \<and> uxSchedulerSuspended k1 = uxSchedulerSuspended (eg_kernel st) + 1 \<and>
    xPendedTicks k1 = xPendedTicks (eg_kernel st) \<and>
    (pending (eg_kernel st) = {} \<longrightarrow> pending k1 = {}) \<and>
    frees (matching bits (value_of (eg_kernel st)) (waiters st Q)) (woken_value bits) (eg_kernel st) k1 \<and>
    waits E k1 (Q(xTasksWaitingForBits (eg_group st) := filter (\<lambda>i. \<not> match_found bits (value_of (eg_kernel st) i)) (waiters st Q)))"
proof -
  let ?k0 = "vTaskSuspendAll (eg_kernel st)" and ?e = "xTasksWaitingForBits (eg_group st)"
  have o: "value_of ?k0 = value_of (eg_kernel st)" "container i ?k0 = container i (eg_kernel st)" "kernel T E idle ?k0"
    "waits E ?k0 Q" "tcb ?k0 = tcb (eg_kernel st)" "pxCurrentTCB ?k0 = pxCurrentTCB (eg_kernel st)"
    "xTickCount ?k0 = xTickCount (eg_kernel st)" "xPendedTicks ?k0 = xPendedTicks (eg_kernel st)"
    "uxSchedulerSuspended ?k0 = uxSchedulerSuspended (eg_kernel st) + 1" for i
    using k w waits_cong [of E "eg_kernel st" Q ?k0] by (simp_all add: vTaskSuspendAll_def eg_waits_def)
  have e: "?e \<in> E" using w by (simp add: eg_waits_def)
  have "Q ?e = [] @ waiters st Q" by (simp add: waiters_def)
  from set_bits_walk_wakes [OF o(3,4) e this, of bits 0]
  obtain k1 where k1: "set_bits_walk (Event ?e) bits (eptr ?e (waiters st Q)) 0 ?k0 =
      Some (bits_to_clear bits (value_of (eg_kernel st)) (waiters st Q), k1)"
    "walked T E idle ?e bits Q [] (waiters st Q) ?k0 k1"
    unfolding o(1) by auto
  have h: "listGET_HEAD_ENTRY (Event ?e) (ls ?k0) = eptr ?e (waiters st Q)"
    using waits_head [OF o(4) e] by (simp add: waiters_def)
  have r: "released (matching bits (value_of (eg_kernel st)) (waiters st Q)) (woken_value bits) ?k0 k1"
    using k1(2) unfolding walked_def woken_value_def o(1) by blast
  note rd = released_D [OF r]
  have f: "frees (matching bits (value_of (eg_kernel st)) (waiters st Q)) (woken_value bits) (eg_kernel st) k1"
    unfolding frees_def rd o by simp
  have run: "xEventGroupSetBits world b st = (case xTaskResumeAll k1 of None \<Rightarrow> None | Some (y, k2) \<Rightarrow>
        map_option (\<lambda>st2. (uxEventBits (eg_group st2), st2))
          ((if y then world else Some) ((set_bits_of (bits AND NOT (bits_to_clear bits (value_of (eg_kernel st)) (waiters st Q))) st)\<lparr>eg_kernel := k2\<rparr>)))"
    unfolding xEventGroupSetBits_def waiting_list_def Let_def h bits [symmetric] k1(1)
    by (simp add: map_option_case split: option.split)
  have p: "pending k1 = {}" if "pending (eg_kernel st) = {}"
    using that f by (auto simp: pending_def frees_D(6) split: if_splits)
  show ?thesis
    by (rule exI [of _ k1])
      (use run f p k1(2) rd(4,5) o(8,9) in \<open>simp add: walked_def o(1)\<close>)
qed

text \<open>Between operations: the scheduler runs and nothing is pending.\<close>

definition eg_idle :: "task set \<Rightarrow> nat set \<Rightarrow> task \<Rightarrow> egsys \<Rightarrow> bool" where
  "eg_idle T E idle st \<longleftrightarrow> kernel T E idle (eg_kernel st) \<and> settled (eg_kernel st) \<and> uxSchedulerSuspended (eg_kernel st) = 0"

lemma eg_idle_quiet:
  assumes "eg_idle T E idle st"
  shows "kernel T E idle (eg_kernel st)" "xPendedTicks (eg_kernel st) = 0" "pending (eg_kernel st) = {}"
    "uxSchedulerSuspended (eg_kernel st) = 0"
  using assms settled_quiet [of "eg_kernel st"] by (simp_all add: eg_idle_def)

lemma set_bits_of_simps [simp]:
  "eg_kernel (set_bits_of b st) = eg_kernel st" "uxEventBits (eg_group (set_bits_of b st)) = b"
  "xTasksWaitingForBits (eg_group (set_bits_of b st)) = xTasksWaitingForBits (eg_group st)"
  by (simp_all add: set_bits_of_def)

lemma settled_resumed: "xPendedTicks k = 0 \<Longrightarrow> pending k = {} \<Longrightarrow> settled (resumed k)"
  by (simp add: settled_def)

text \<open>The group after \<open>b\<close> has been set: its bits, and the state with kernel \<open>k\<close>.\<close>

definition bits_after :: "u32 \<Rightarrow> (nat \<Rightarrow> kitem list) \<Rightarrow> egsys \<Rightarrow> u32" where
  "bits_after b Q st = (let new = uxEventBits (eg_group st) OR b
     in new AND NOT (bits_to_clear new (value_of (eg_kernel st)) (waiters st Q)))"

lemma set_bits_idle:
  assumes idle: "eg_idle T E idle st" and w: "eg_waits E st Q" and new: "new = uxEventBits (eg_group st) OR b"
  shows "\<exists>k. xEventGroupSetBits Some b st = Some (bits_after b Q st, (set_bits_of (bits_after b Q st) st)\<lparr>eg_kernel := k\<rparr>) \<and>
    kernel T E idle k \<and> settled k \<and> uxSchedulerSuspended k = 0 \<and>
    frees (matching new (value_of (eg_kernel st)) (waiters st Q)) (woken_value new) (eg_kernel st) k \<and>
    waits E k (Q(xTasksWaitingForBits (eg_group st) := filter (\<lambda>i. \<not> match_found new (value_of (eg_kernel st) i)) (waiters st Q)))"
proof -
  note q = eg_idle_quiet [OF idle]
  obtain k1 where k1: "xEventGroupSetBits Some b st = (case xTaskResumeAll k1 of None \<Rightarrow> None | Some (y, k2) \<Rightarrow>
        map_option (\<lambda>st2. (uxEventBits (eg_group st2), st2))
          ((if y then Some else Some) ((set_bits_of (new AND NOT (bits_to_clear new (value_of (eg_kernel st)) (waiters st Q))) st)\<lparr>eg_kernel := k2\<rparr>)))"
    "kernel T E idle k1" "uxSchedulerSuspended k1 = uxSchedulerSuspended (eg_kernel st) + 1" "xPendedTicks k1 = xPendedTicks (eg_kernel st)"
    "pending (eg_kernel st) = {} \<longrightarrow> pending k1 = {}"
    "frees (matching new (value_of (eg_kernel st)) (waiters st Q)) (woken_value new) (eg_kernel st) k1"
    "waits E k1 (Q(xTasksWaitingForBits (eg_group st) := filter (\<lambda>i. \<not> match_found new (value_of (eg_kernel st) i)) (waiters st Q)))"
    using set_bits_section [OF q(1) w new, of Some] by blast
  have r: "xTaskResumeAll k1 = Some (xYieldPending k1, resumed k1)"
    using resume_exact [OF k1(2)] k1(3-5) q by simp
  have "xEventGroupSetBits Some b st = Some (bits_after b Q st, (set_bits_of (bits_after b Q st) st)\<lparr>eg_kernel := resumed k1\<rparr>)"
    unfolding k1(1) r by (simp add: bits_after_def new Let_def)
  moreover have "settled (resumed k1)" using settled_resumed k1(4,5) q by simp
  moreover have "frees (matching new (value_of (eg_kernel st)) (waiters st Q)) (woken_value new) (eg_kernel st) (resumed k1)"
    using k1(6) by (simp add: frees_def)
  moreover have "waits E (resumed k1) (Q(xTasksWaitingForBits (eg_group st) := filter (\<lambda>i. \<not> match_found new (value_of (eg_kernel st) i)) (waiters st Q)))"
    by (rule waits_cong [OF k1(7)]) simp
  ultimately show ?thesis using k1(2) by (intro exI [of _ "resumed k1"]) simp
qed

subsection \<open>Going to sleep\<close>

lemma waits_insert_event:
  assumes "sched_at T E c d st" and "container i st = None" and e: "e \<in> E" and q: "waits E st Q"
  shows "\<exists>xs ys. Q e = xs @ ys \<and> waits E (on_lists (vListInsertEnd (Event e) i) st) (Q(e := xs @ i # ys))"
proof -
  obtain A where A: "tasks_at T c d st" "lists_ok E st A" using assms(1) by (auto simp: sched_at_def)
  have l: "Event e \<in> kernel_lists E" "Event e \<notin> {DelayedTaskList1, DelayedTaskList2}" using e by (auto simp: kernel_lists_def)
  have ok: "lists_ok E (on_lists (vListInsertEnd (Event e) i) st) (A(Event e := al_insert_end i (A (Event e))))"
    using insert_end_lists [OF A l(1) assms(2) l(2)] by simp
  obtain zs j where z: "A (Event e) = (zs, j)" by (cases "A (Event e)")
  have qe: "Q e = zs" using waits_D [OF q A(2) e] z by simp
  have "\<exists>xs ys. zs = xs @ ys \<and> fst (al_insert_end i (zs, j)) = xs @ i # ys"
  proof (cases "j = 0")
    case True
    then show ?thesis by (intro exI [of _ zs] exI [of _ "[]"]) (simp add: al_insert_end_def)
  next
    case False
    then show ?thesis
      by (intro exI [of _ "take (j - 1) zs"] exI [of _ "drop (j - 1) zs"]) (simp add: al_insert_end_def ins_at_def)
  qed
  then obtain xs ys where xs: "zs = xs @ ys" "fst (al_insert_end i (A (Event e))) = xs @ i # ys" unfolding z by blast
  from waits_upd [OF q A(2) ok, of "\<lambda>_. xs @ i # ys"] xs(2) qe xs(1) show ?thesis by auto
qed

lemma place_unordered:
  assumes k: "kernel T E idle k" and cur: "pxCurrentTCB k = Some cur" "cur \<noteq> idle" and e: "e \<in> E"
    and free: "container (EventItem cur) k = None" and n: "0 < n" and q: "waits E k Q"
  shows "\<exists>k' xs ys. vTaskPlaceOnUnorderedEventList (Event e) v n k = Some k' \<and> kernel T E idle k' \<and> same_ctl k k' \<and>
    Q e = xs @ ys \<and> waits E k' (Q(e := xs @ EventItem cur # ys)) \<and>
    value_of k' (EventItem cur) = v OR taskEVENT_LIST_ITEM_VALUE_IN_USE \<and>
    (\<forall>t. t \<noteq> cur \<longrightarrow> value_of k' (EventItem t) = value_of k (EventItem t)) \<and>
    container (EventItem cur) k' = Some (Event e) \<and>
    (\<forall>t. t \<noteq> cur \<longrightarrow> container (EventItem t) k' = container (EventItem t) k \<and> container (StateItem t) k' = container (StateItem t) k)"
proof -
  note kd = kernel_D [OF k]
  let ?v = "v OR taskEVENT_LIST_ITEM_VALUE_IN_USE"
  have ct: "cur \<in> T" using kd(6) cur by auto
  obtain l where l: "container (StateItem cur) k = Some l" using kd(4) [OF ct] by blast
  define k1 where "k1 = on_lists (listSET_LIST_ITEM_VALUE (EventItem cur) ?v) k"
  have nd: "container (EventItem cur) k \<notin> {Some DelayedTaskList1, Some DelayedTaskList2}" using free by simp
  have o1: "value_of k1 = (value_of k)(EventItem cur := ?v)" "container j k1 = container j k" for j
    by (simp_all add: k1_def set_value_obs(1-3))
  have sc1: "same_ctl k k1" unfolding k1_def by (rule set_value_same_ctl)
  have s1: "sched T E k1" unfolding same_ctl_D(5) [OF sc1] unfolding k1_def by (rule sched_set_value [OF kd(1) nd])
  have q1: "waits E k1 Q" unfolding k1_def by (rule waits_set_value [OF q nd])
  define k2 where "k2 = on_lists (vListInsertEnd (Event e) (EventItem cur)) k1"
  have no1: "container (EventItem cur) k1 = None" using o1(2) free by simp
  have ins: "sched_at T E (Suc (unat (xTickCount k1))) (unat (xTickCount k1)) k2" "moved (EventItem cur) (Some (Event e)) k1 k2"
    unfolding k2_def by (rule sched_insert_end [OF s1 no1]; use ct e in simp)+
  note m2 = moved_fields [OF ins(2)]
  have s2: "sched T E k2" using ins(1) by (simp only: m2(5))
  obtain xs ys where xs: "Q e = xs @ ys" "waits E k2 (Q(e := xs @ EventItem cur # ys))"
    using waits_insert_event [OF s1 no1 e q1] unfolding k2_def by blast
  have c2: "pxCurrentTCB k2 = Some cur" "container (StateItem cur) k2 = Some l"
    using m2(2,15) same_ctl_D(2) [OF sc1] cur(1) l o1(2) by simp_all
  obtain k' where k': "prvAddCurrentTaskToDelayedList n True k2 = Some k'" "sched T E k'"
    "blocks cur (delay_list n True k2) k2 k'"
    using delayed_time [OF s2 c2(1) ct c2(2) n, of True] by blast
  note b = blocks_D [OF k'(3)]
  have q': "waits E k' (Q(e := xs @ EventItem cur # ys))" by (rule waits_add_delayed [OF s2 c2(1) ct c2(2) xs(2) k'(1)])
  have sc: "same_ctl k k'" using same_ctl_trans [OF sc1 same_ctl_trans [OF moved_same_ctl [OF ins(2)] b(1)]] .
  note f = same_ctl_D [OF sc]
  have c: "container j k' = (if j = StateItem cur then Some (delay_list n True k2)
      else if j = EventItem cur then Some (Event e) else container j k)" for j
    using b(2) m2(15) o1(2) by simp
  have v: "value_of k' (EventItem t) = (if t = cur then ?v else value_of k (EventItem t))" for t
    using b(3) [of "EventItem t"] m2(16) o1(1) by simp
  have dl: "delay_list n True k2 \<in> {DelayedTaskList1, DelayedTaskList2, Suspended}" by (rule delay_list_cases [OF s2])
  have "kernel T E idle k'"
    unfolding kernel_def f c using k'(2) kd cur dl by (auto simp: f)
  moreover have "vTaskPlaceOnUnorderedEventList (Event e) v n k = Some k'"
    using k'(1) cur(1) unfolding vTaskPlaceOnUnorderedEventList_def by (simp add: k1_def k2_def Let_def)
  ultimately show ?thesis using sc xs(1) q' c v by (intro exI [of _ k'] exI [of _ xs] exI [of _ ys]) simp
qed

subsection \<open>The value of a waiting item\<close>

definition control_bits :: "bool \<Rightarrow> bool \<Rightarrow> u32" where
  "control_bits clr whole = (if clr then eventCLEAR_EVENTS_ON_EXIT_BIT else 0) OR (if whole then eventWAIT_FOR_ALL_BITS else 0)"

lemma and_not_id:
  fixes b m :: u32
  assumes "b AND m = 0"
  shows "b AND NOT m = b"
proof -
  have "b = b AND (m OR NOT m)" by simp
  also have "\<dots> = (b AND m) OR (b AND NOT m)" by (rule bit.conj_disj_distrib)
  finally show ?thesis using assms by simp
qed

lemma placed_value:
  fixes clr whole :: bool
  assumes "b AND eventEVENT_BITS_CONTROL_BYTES = 0"
  defines "v \<equiv> (b OR control_bits clr whole) OR taskEVENT_LIST_ITEM_VALUE_IN_USE"
  shows "wait_bits v = b" "wait_control v AND eventCLEAR_EVENTS_ON_EXIT_BIT \<noteq> 0 \<longleftrightarrow> clr"
    "match_found bits v \<longleftrightarrow> prvTestWaitCondition bits b whole"
proof -
  note defs = eventEVENT_BITS_CONTROL_BYTES_def eventCLEAR_EVENTS_ON_EXIT_BIT_def eventWAIT_FOR_ALL_BITS_def
    taskEVENT_LIST_ITEM_VALUE_IN_USE_def
  define c where "c = control_bits clr whole OR taskEVENT_LIST_ITEM_VALUE_IN_USE"
  have v: "v = b OR c" by (simp add: v_def c_def or.assoc)
  have c0: "c AND NOT eventEVENT_BITS_CONTROL_BYTES = 0" "c AND eventEVENT_BITS_CONTROL_BYTES = c"
    by (cases clr; cases whole; simp add: c_def control_bits_def defs)+
  show wb: "wait_bits v = b" using and_not_id [OF assms(1)] c0(1) by (simp add: wait_bits_def v bit.conj_disj_distrib2)
  have wc: "wait_control v = c" using assms(1) c0(2) by (simp add: wait_control_def v bit.conj_disj_distrib2)
  show "wait_control v AND eventCLEAR_EVENTS_ON_EXIT_BIT \<noteq> 0 \<longleftrightarrow> clr"
    unfolding wc by (cases clr; cases whole; simp add: c_def control_bits_def defs)
  have "wait_control v AND eventWAIT_FOR_ALL_BITS = 0 \<longleftrightarrow> \<not> whole"
    unfolding wc by (cases clr; cases whole; simp add: c_def control_bits_def defs)
  then show "match_found bits v \<longleftrightarrow> prvTestWaitCondition bits b whole"
    by (simp add: match_found_def wb prvTestWaitCondition_def and.commute)
qed

lemma woken_value:
  "woken_value new AND eventUNBLOCKED_DUE_TO_BIT_SET \<noteq> 0"
  "woken_value new AND NOT eventEVENT_BITS_CONTROL_BYTES = new AND NOT eventEVENT_BITS_CONTROL_BYTES"
proof -
  note defs = eventEVENT_BITS_CONTROL_BYTES_def eventUNBLOCKED_DUE_TO_BIT_SET_def taskEVENT_LIST_ITEM_VALUE_IN_USE_def
  have "bit (woken_value new AND eventUNBLOCKED_DUE_TO_BIT_SET) 25"
    by (simp add: woken_value_def bit_simps defs)
  then show "woken_value new AND eventUNBLOCKED_DUE_TO_BIT_SET \<noteq> 0" by auto
  have "(eventUNBLOCKED_DUE_TO_BIT_SET OR taskEVENT_LIST_ITEM_VALUE_IN_USE) AND NOT eventEVENT_BITS_CONTROL_BYTES = 0"
    by (simp add: defs)
  then show "woken_value new AND NOT eventEVENT_BITS_CONTROL_BYTES = new AND NOT eventEVENT_BITS_CONTROL_BYTES"
    by (simp add: woken_value_def or.assoc bit.conj_disj_distrib2)
qed

lemma bits_to_clear_covers:
  assumes "i \<in> set xs" and "match_found bits (val i)" and "wait_control (val i) AND eventCLEAR_EVENTS_ON_EXIT_BIT \<noteq> 0"
  shows "wait_bits (val i) AND NOT (bits_to_clear bits val xs) = 0"
  using assms
proof (induction xs)
  case (Cons j xs)
  let ?r = "bits_to_clear bits val xs" and ?b = "wait_bits (val i)"
  have swap: "?b AND NOT (wait_bits (val j) OR ?r) = NOT (wait_bits (val j)) AND (?b AND NOT ?r)"
    unfolding bit.de_Morgan_disj by (rule and.left_commute)
  show ?case
  proof (cases "j = i")
    case True
    have "?b AND (NOT ?b AND NOT ?r) = 0" by (simp add: and.assoc [symmetric])
    then show ?thesis using Cons.prems True by (simp add: bit.de_Morgan_disj)
  next
    case False
    then have "?b AND NOT ?r = 0" using Cons by simp
    then show ?thesis using swap by simp
  qed
qed simp

subsection \<open>Sleeping and waking up\<close>

text \<open>Another task runs \<open>f\<close> while the current one sleeps, and the current one runs again.\<close>

definition other_task :: "task \<Rightarrow> (egsys \<Rightarrow> egsys option) \<Rightarrow> egsys \<Rightarrow> egsys option" where
  "other_task u f st = map_option
     (\<lambda>s. s\<lparr>eg_kernel := (eg_kernel s)\<lparr>pxCurrentTCB := pxCurrentTCB (eg_kernel st)\<rparr>\<rparr>)
     (f (st\<lparr>eg_kernel := (eg_kernel st)\<lparr>pxCurrentTCB := Some u\<rparr>\<rparr>))"

lemma kernel_current: "kernel T E idle k \<Longrightarrow> u \<in> T \<Longrightarrow> kernel T E idle (k\<lparr>pxCurrentTCB := Some u\<rparr>)"
  by (simp add: kernel_def)

lemma settled_current [simp]: "settled (k\<lparr>pxCurrentTCB := c\<rparr>) = settled k"
  by (simp add: settled_def pending_def)

lemma fall_asleep:
  assumes k: "kernel T E idle k" and one: "uxSchedulerSuspended k = 1" and quiet: "xPendedTicks k = 0" "pending k = {}"
    and cur: "pxCurrentTCB k = Some cur" "cur \<noteq> idle" and e: "e \<in> E"
    and free: "container (EventItem cur) k = None" and n: "0 < n" and q: "waits E k Q"
  shows "\<exists>k1 y k2 k3 xs ys. vTaskPlaceOnUnorderedEventList (Event e) v n k = Some k1 \<and> xTaskResumeAll k1 = Some (y, k2) \<and>
    k3 = (if \<not> y then taskYIELD_IF_USING_PREEMPTION k2 else k2) \<and>
    kernel T E idle k3 \<and> settled k3 \<and> uxSchedulerSuspended k3 = 0 \<and> pxCurrentTCB k3 = Some cur \<and> tcb k3 = tcb k \<and>
    Q e = xs @ ys \<and> waits E k3 (Q(e := xs @ EventItem cur # ys)) \<and>
    value_of k3 (EventItem cur) = v OR taskEVENT_LIST_ITEM_VALUE_IN_USE"
proof -
  obtain k1 xs ys where k1: "vTaskPlaceOnUnorderedEventList (Event e) v n k = Some k1" "kernel T E idle k1" "same_ctl k k1"
    "Q e = xs @ ys" "waits E k1 (Q(e := xs @ EventItem cur # ys))"
    "value_of k1 (EventItem cur) = v OR taskEVENT_LIST_ITEM_VALUE_IN_USE" "container (EventItem cur) k1 = Some (Event e)"
    "\<forall>t. t \<noteq> cur \<longrightarrow> container (EventItem t) k1 = container (EventItem t) k"
    using place_unordered [OF k cur e free n q, of v] by blast
  note f = same_ctl_D [OF k1(3)]
  have "container (EventItem t) k1 \<noteq> Some PendingReady" for t
    using k1(7,8) quiet(2) by (cases "t = cur") (auto simp: pending_def)
  then have p: "pending k1 = {}" by (simp add: pending_def)
  have "xTaskResumeAll k1 = Some (xYieldPending k1, resumed k1)"
    using resume_exact [OF k1(2)] p one quiet(1) f by simp
  moreover define k3 where "k3 = (if \<not> xYieldPending k1 then taskYIELD_IF_USING_PREEMPTION (resumed k1) else resumed k1)"
  have g: "ls k3 = ls k1" "tcb k3 = tcb k" "pxCurrentTCB k3 = Some cur" "uxSchedulerSuspended k3 = 0" "kernel T E idle k3"
    "settled k3" "value_of k3 = value_of k1"
    using k1(2) p f cur(1) quiet(1) settled_resumed [of k1]
    by (simp_all add: k3_def taskYIELD_IF_USING_PREEMPTION_def settled_def pending_def)
  moreover have "waits E k3 (Q(e := xs @ EventItem cur # ys))" by (rule waits_cong [OF k1(5) g(1)])
  moreover have "value_of k3 (EventItem cur) = v OR taskEVENT_LIST_ITEM_VALUE_IN_USE" using g(7) k1(6) by simp
  ultimately show ?thesis using k1(1,4) k3_def by (intro exI) (rule conjI, assumption)+
qed

end
