(* ===== verification/EventGroupsSpec.thy ===== *)
theory EventGroupsSpec
  imports EventGroupsProps
begin

text \<open>
  Event groups from the point of view of the tasks: what a task that waits is given, and the
  rendezvous of two tasks.
\<close>

subsection \<open>Waking up\<close>

lemma reset_item_value:
  assumes k: "kernel T E idle k" and cur: "pxCurrentTCB k = Some cur" "container (EventItem cur) k = None"
  shows "\<exists>k'. uxTaskResetEventItemValue k = Some (value_of k (EventItem cur), k') \<and> kernel T E idle k' \<and>
    value_of k' (EventItem cur) = configMAX_PRIORITIES - uxPriority (tcb k cur) \<and> same_ctl k k' \<and>
    (\<forall>j. container j k' = container j k)"
proof -
  let ?k' = "on_lists (listSET_LIST_ITEM_VALUE (EventItem cur) (configMAX_PRIORITIES - uxPriority (tcb k cur))) k"
  have nd: "container (EventItem cur) k \<notin> {Some DelayedTaskList1, Some DelayedTaskList2}" using cur(2) by simp
  have c: "container j ?k' = container j k" for j by (rule set_value_obs(3))
  have v: "value_of ?k' (EventItem cur) = configMAX_PRIORITIES - uxPriority (tcb k cur)"
    by (simp add: set_value_obs(1))
  note sc = set_value_same_ctl [of k "EventItem cur" "configMAX_PRIORITIES - uxPriority (tcb k cur)"]
  note f = same_ctl_D [OF sc]
  have "sched T E ?k'" unfolding f(5) by (rule sched_set_value [OF kernel_D(1) [OF k] nd])
  then have "kernel T E idle ?k'" using k unfolding kernel_def f c by blast
  moreover have "uxTaskResetEventItemValue k = Some (value_of k (EventItem cur), ?k')"
    using cur(1) by (simp add: uxTaskResetEventItemValue_def value_of_def Let_def)
  ultimately show ?thesis using v sc c by blast
qed

text \<open>The state of a task whose wait has ended because the bits were set.\<close>

definition woken_up :: "task set \<Rightarrow> nat set \<Rightarrow> task \<Rightarrow> task \<Rightarrow> u32 \<Rightarrow> egsys \<Rightarrow> bool" where
  "woken_up T E idle cur new st \<longleftrightarrow> eg_idle T E idle st \<and> pxCurrentTCB (eg_kernel st) = Some cur \<and>
     container (EventItem cur) (eg_kernel st) = None \<and>
     container (StateItem cur) (eg_kernel st) = Some (Ready (uxPriority (tcb (eg_kernel st) cur))) \<and>
     value_of (eg_kernel st) (EventItem cur) = woken_value new"

text \<open>What the caller of a wait finds afterwards: it is ready, and its event item has its normal value again.\<close>

definition wait_over :: "task set \<Rightarrow> nat set \<Rightarrow> task \<Rightarrow> task \<Rightarrow> egsys \<Rightarrow> bool" where
  "wait_over T E idle cur st \<longleftrightarrow> eg_idle T E idle st \<and> pxCurrentTCB (eg_kernel st) = Some cur \<and>
     container (EventItem cur) (eg_kernel st) = None \<and>
     container (StateItem cur) (eg_kernel st) = Some (Ready (uxPriority (tcb (eg_kernel st) cur))) \<and>
     value_of (eg_kernel st) (EventItem cur) = configMAX_PRIORITIES - uxPriority (tcb (eg_kernel st) cur)"

lemma finish_woken:
  assumes w: "woken_up T E idle cur new st"
  shows "\<exists>st'. wait_finish b clr whole st = Some (new AND NOT eventEVENT_BITS_CONTROL_BYTES, st') \<and>
    sync_finish b st = Some (new AND NOT eventEVENT_BITS_CONTROL_BYTES, st') \<and>
    wait_over T E idle cur st' \<and> eg_group st' = eg_group st"
proof -
  have k: "kernel T E idle (eg_kernel st)" "pxCurrentTCB (eg_kernel st) = Some cur"
    "container (EventItem cur) (eg_kernel st) = None" using w by (simp_all add: woken_up_def eg_idle_def)
  obtain k' where k': "uxTaskResetEventItemValue (eg_kernel st) = Some (value_of (eg_kernel st) (EventItem cur), k')"
    "kernel T E idle k'" "value_of k' (EventItem cur) = configMAX_PRIORITIES - uxPriority (tcb (eg_kernel st) cur)"
    "same_ctl (eg_kernel st) k'" "\<forall>j. container j k' = container j (eg_kernel st)"
    using reset_item_value [OF k] by blast
  note f = same_ctl_D [OF k'(4)]
  have v: "value_of (eg_kernel st) (EventItem cur) = woken_value new" using w by (simp add: woken_up_def)
  have "settled k'" using w f k'(5) by (simp add: woken_up_def eg_idle_def settled_def pending_def)
  then have "wait_over T E idle cur (st\<lparr>eg_kernel := k'\<rparr>)"
    using w k'(2,3,5) f by (simp add: wait_over_def woken_up_def eg_idle_def)
  moreover have "wait_finish b clr whole st = Some (new AND NOT eventEVENT_BITS_CONTROL_BYTES, st\<lparr>eg_kernel := k'\<rparr>)"
    using k'(1) woken_value [of new] by (simp add: wait_finish_def v Let_def)
  moreover have "sync_finish b st = Some (new AND NOT eventEVENT_BITS_CONTROL_BYTES, st\<lparr>eg_kernel := k'\<rparr>)"
    using k'(1) woken_value [of new] by (simp add: sync_finish_def v Let_def)
  ultimately show ?thesis by (intro exI [of _ "st\<lparr>eg_kernel := k'\<rparr>"]) simp
qed

text \<open>A sleeping task and the kernel that frees it.\<close>

lemma freed_woken_up:
  assumes st: "eg_idle T E idle st" "pxCurrentTCB (eg_kernel st) = Some cur"
    and c: "container (EventItem cur) (eg_kernel st) = Some (Event e)"
    and i: "cur \<in> matching new val xs"
    and s: "kernel T E idle k" "settled k" "uxSchedulerSuspended k = 0"
    and f: "frees (matching new val xs) (woken_value new) ((eg_kernel st)\<lparr>pxCurrentTCB := Some u\<rparr>) k"
  shows "woken_up T E idle cur new (s'\<lparr>eg_kernel := k\<lparr>pxCurrentTCB := Some cur\<rparr>\<rparr>)"
proof -
  note fd = frees_D [OF f]
  have "cur \<in> T" using kernel_D(6) [OF eg_idle_quiet(1) [OF st(1)]] st(2) by auto
  then have k': "kernel T E idle (k\<lparr>pxCurrentTCB := Some cur\<rparr>)" using kernel_current s(1) by blast
  then show ?thesis using s(2,3) i fd by (simp add: woken_up_def eg_idle_def)
qed

subsection \<open>A task that sleeps on the group\<close>

text \<open>The current task waits for \<open>b\<close> with the given options, at some place among the other waiters.\<close>

definition asleep :: "task set \<Rightarrow> nat set \<Rightarrow> task \<Rightarrow> task \<Rightarrow> u32 \<Rightarrow> bool \<Rightarrow> bool \<Rightarrow> kitem list \<Rightarrow> (nat \<Rightarrow> kitem list) \<Rightarrow> egsys \<Rightarrow> bool" where
  "asleep T E idle cur b clr whole others Q st \<longleftrightarrow> eg_idle T E idle st \<and> eg_waits E st Q \<and>
     pxCurrentTCB (eg_kernel st) = Some cur \<and> (\<exists>xs ys. others = xs @ ys \<and> waiters st Q = xs @ EventItem cur # ys) \<and>
     value_of (eg_kernel st) (EventItem cur) = (b OR control_bits clr whole) OR taskEVENT_LIST_ITEM_VALUE_IN_USE"

lemma asleep_matching:
  assumes "asleep T E idle cur b clr whole others Q st" and "b AND eventEVENT_BITS_CONTROL_BYTES = 0"
    and "prvTestWaitCondition new b whole"
  shows "cur \<in> matching new (value_of (eg_kernel st)) (waiters st Q)"
    "clr \<Longrightarrow> (new AND NOT (bits_to_clear new (value_of (eg_kernel st)) (waiters st Q))) AND b = 0"
    "others = [] \<Longrightarrow> bits_to_clear new (value_of (eg_kernel st)) (waiters st Q) = (if clr then b else 0)"
proof -
  let ?val = "value_of (eg_kernel st)" and ?c = "bits_to_clear new (value_of (eg_kernel st)) (waiters st Q)"
  have v: "?val (EventItem cur) = (b OR control_bits clr whole) OR taskEVENT_LIST_ITEM_VALUE_IN_USE"
    using assms(1) by (simp add: asleep_def)
  note p = placed_value [where clr = clr and whole = whole, OF assms(2), folded v]
  obtain xs ys where xs: "others = xs @ ys" "waiters st Q = xs @ EventItem cur # ys" using assms(1) by (auto simp: asleep_def)
  have m: "match_found new (?val (EventItem cur))" using p(3) assms(3) by simp
  have i: "EventItem cur \<in> set (waiters st Q)" using xs(2) by simp
  have "item_task (EventItem cur) \<in> matching new ?val (waiters st Q)" unfolding matching_def using i m by blast
  then show "cur \<in> matching new ?val (waiters st Q)" by simp
  show "(new AND NOT ?c) AND b = 0" if clr
  proof -
    have "b AND NOT ?c = 0" using bits_to_clear_covers [where val = ?val and i = "EventItem cur", OF i m] p(1,2) that by simp
    moreover have "(new AND NOT ?c) AND b = new AND (b AND NOT ?c)" by (simp only: and.assoc and.commute [of b])
    ultimately show ?thesis by simp
  qed
  show "?c = (if clr then b else 0)" if "others = []"
    using that xs m p(1,2) by simp
qed

text \<open>How \<^verbatim>\<open>xEventGroupWaitBits\<close> and \<^verbatim>\<open>xEventGroupSync\<close> go to sleep.\<close>

lemma wait_falls_asleep:
  assumes idle: "eg_idle T E idle st" and w: "eg_waits E st Q" and cur: "pxCurrentTCB (eg_kernel st) = Some cur" "cur \<noteq> idle"
    and free: "container (EventItem cur) (eg_kernel st) = None" and n: "0 < tm"
    and no: "\<not> prvTestWaitCondition (uxEventBits (eg_group st)) b whole"
  shows "\<exists>k Q'. asleep T E idle cur b clr whole (waiters st Q) Q' (st\<lparr>eg_kernel := k\<rparr>) \<and>
    xEventGroupWaitBits world b clr whole tm st =
      (case world (st\<lparr>eg_kernel := k\<rparr>) of None \<Rightarrow> None | Some st3 \<Rightarrow> wait_finish b clr whole st3)"
proof -
  let ?k = "vTaskSuspendAll (eg_kernel st)" and ?e = "xTasksWaitingForBits (eg_group st)"
  note q = eg_idle_quiet [OF idle]
  have k: "kernel T E idle ?k" "uxSchedulerSuspended ?k = 1" "xPendedTicks ?k = 0" "pending ?k = {}"
    "pxCurrentTCB ?k = Some cur" "container (EventItem cur) ?k = None" "waits E ?k Q"
    using q cur free w waits_cong [of E "eg_kernel st" Q ?k] by (simp_all add: vTaskSuspendAll_def eg_waits_def pending_def)
  have e: "?e \<in> E" using w by (simp add: eg_waits_def)
  obtain k1 y k2 k3 xs ys where r: "vTaskPlaceOnUnorderedEventList (Event ?e) (b OR control_bits clr whole) tm ?k = Some k1"
    "xTaskResumeAll k1 = Some (y, k2)" "k3 = (if \<not> y then taskYIELD_IF_USING_PREEMPTION k2 else k2)"
    "kernel T E idle k3" "settled k3" "uxSchedulerSuspended k3 = 0" "pxCurrentTCB k3 = Some cur"
    "Q ?e = xs @ ys" "waits E k3 (Q(?e := xs @ EventItem cur # ys))"
    "value_of k3 (EventItem cur) = (b OR control_bits clr whole) OR taskEVENT_LIST_ITEM_VALUE_IN_USE"
    using fall_asleep [OF k(1-5) cur(2) e k(6) n k(7), of "b OR control_bits clr whole"] by blast
  have "asleep T E idle cur b clr whole (waiters st Q) (Q(?e := xs @ EventItem cur # ys)) (st\<lparr>eg_kernel := k3\<rparr>)"
    using r(4-10) e by (auto simp: asleep_def eg_idle_def eg_waits_def waiters_def)
  moreover have "xEventGroupWaitBits world b clr whole tm st =
      (case world (st\<lparr>eg_kernel := k3\<rparr>) of None \<Rightarrow> None | Some st3 \<Rightarrow> wait_finish b clr whole st3)"
    using no n r(1-3) unfolding xEventGroupWaitBits_def waiting_list_def control_bits_def
    by (auto simp: Let_def eg_sleep_def split: option.split)
  ultimately show ?thesis by blast
qed

text \<open>Another task sets bits that end the wait.\<close>

lemma other_sets_bits:
  assumes s: "asleep T E idle cur b clr whole others Q st" and b: "b AND eventEVENT_BITS_CONTROL_BYTES = 0" and u: "u \<in> T"
    and new: "new = uxEventBits (eg_group st) OR n" and met: "prvTestWaitCondition new b whole"
  shows "\<exists>st'. other_task u (vEventGroupSetBitsCallback Some n) st = Some st' \<and> woken_up T E idle cur new st' \<and>
    (clr \<longrightarrow> uxEventBits (eg_group st') AND b = 0) \<and>
    (others = [] \<longrightarrow> uxEventBits (eg_group st') = new AND NOT (if clr then b else 0))"
proof -
  note d = s [unfolded asleep_def]
  let ?st = "st\<lparr>eg_kernel := (eg_kernel st)\<lparr>pxCurrentTCB := Some u\<rparr>\<rparr>" and ?e = "xTasksWaitingForBits (eg_group st)"
  have idle: "eg_idle T E idle ?st" using d kernel_current u by (simp add: eg_idle_def)
  have w: "eg_waits E ?st Q" using d waits_cong [of E "eg_kernel st" Q "eg_kernel ?st"] by (simp add: eg_waits_def)
  have same: "value_of (eg_kernel ?st) = value_of (eg_kernel st)" "waiters ?st Q = waiters st Q" by (simp_all add: waiters_def)
  have ne: "new = uxEventBits (eg_group ?st) OR n" using new by simp
  obtain k where k: "xEventGroupSetBits Some n ?st = Some (bits_after n Q ?st, (set_bits_of (bits_after n Q ?st) ?st)\<lparr>eg_kernel := k\<rparr>)"
    "kernel T E idle k" "settled k" "uxSchedulerSuspended k = 0"
    "frees (matching new (value_of (eg_kernel st)) (waiters st Q)) (woken_value new) (eg_kernel ?st) k"
    using set_bits_idle [OF idle w ne] unfolding same by blast
  note m = asleep_matching [OF s b met]
  have "EventItem cur \<in> set (Q ?e)" using d by (auto simp: waiters_def)
  then have "container (EventItem cur) (eg_kernel st) = Some (Event ?e)"
    using d kernel_waits_container [of E "eg_kernel st" Q ?e] by (simp add: eg_waits_def)
  moreover have "eg_idle T E idle st" "pxCurrentTCB (eg_kernel st) = Some cur" using d by blast+
  ultimately have wu: "woken_up T E idle cur new (s'\<lparr>eg_kernel := k\<lparr>pxCurrentTCB := Some cur\<rparr>\<rparr>)" for s'
    using freed_woken_up [OF _ _ _ m(1) k(2-4)] k(5) by simp
  let ?st' = "(set_bits_of (bits_after n Q ?st) ?st)\<lparr>eg_kernel := k\<lparr>pxCurrentTCB := Some cur\<rparr>\<rparr>"
  have "other_task u (vEventGroupSetBitsCallback Some n) st = Some ?st'"
    using k(1) d by (simp add: other_task_def vEventGroupSetBitsCallback_def)
  moreover have "bits_after n Q ?st = new AND NOT (bits_to_clear new (value_of (eg_kernel st)) (waiters st Q))"
    unfolding bits_after_def Let_def same ne by simp
  ultimately show ?thesis using wu m(2,3) by (intro exI [of _ ?st']) simp
qed

subsection \<open>The rendezvous\<close>

text \<open>Setting bits with the scheduler suspended, as \<^verbatim>\<open>xEventGroupSync\<close> does.\<close>

lemma set_bits_suspended:
  assumes k: "kernel T E idle (eg_kernel st)" and one: "uxSchedulerSuspended (eg_kernel st) = 1"
    and quiet: "xPendedTicks (eg_kernel st) = 0" "pending (eg_kernel st) = {}"
    and w: "eg_waits E st Q" and new: "new = uxEventBits (eg_group st) OR n"
  shows "\<exists>k. xEventGroupSetBits world n st = Some (bits_after n Q st, (set_bits_of (bits_after n Q st) st)\<lparr>eg_kernel := k\<rparr>) \<and>
    kernel T E idle k \<and> uxSchedulerSuspended k = 1 \<and> xPendedTicks k = 0 \<and> pending k = {} \<and>
    frees (matching new (value_of (eg_kernel st)) (waiters st Q)) (woken_value new) (eg_kernel st) k \<and>
    waits E k (Q(xTasksWaitingForBits (eg_group st) := filter (\<lambda>i. \<not> match_found new (value_of (eg_kernel st) i)) (waiters st Q)))"
proof -
  obtain k1 where k1: "xEventGroupSetBits world n st = (case xTaskResumeAll k1 of None \<Rightarrow> None | Some (y, k2) \<Rightarrow>
        map_option (\<lambda>st2. (uxEventBits (eg_group st2), st2))
          ((if y then world else Some) ((set_bits_of (new AND NOT (bits_to_clear new (value_of (eg_kernel st)) (waiters st Q))) st)\<lparr>eg_kernel := k2\<rparr>)))"
    "kernel T E idle k1" "uxSchedulerSuspended k1 = uxSchedulerSuspended (eg_kernel st) + 1" "xPendedTicks k1 = xPendedTicks (eg_kernel st)"
    "pending (eg_kernel st) = {} \<longrightarrow> pending k1 = {}"
    "frees (matching new (value_of (eg_kernel st)) (waiters st Q)) (woken_value new) (eg_kernel st) k1"
    "waits E k1 (Q(xTasksWaitingForBits (eg_group st) := filter (\<lambda>i. \<not> match_found new (value_of (eg_kernel st) i)) (waiters st Q)))"
    using set_bits_section [OF k w new, of world] by blast
  let ?k = "k1\<lparr>uxSchedulerSuspended := 1\<rparr>"
  have r: "xTaskResumeAll k1 = Some (False, ?k)" using resume_nested [of k1] k1(3) one by simp
  have "xEventGroupSetBits world n st = Some (bits_after n Q st, (set_bits_of (bits_after n Q st) st)\<lparr>eg_kernel := ?k\<rparr>)"
    unfolding k1(1) r by (simp add: bits_after_def new Let_def)
  moreover have "frees (matching new (value_of (eg_kernel st)) (waiters st Q)) (woken_value new) (eg_kernel st) ?k"
    using k1(6) by (simp add: frees_def)
  moreover have "waits E ?k (Q(xTasksWaitingForBits (eg_group st) := filter (\<lambda>i. \<not> match_found new (value_of (eg_kernel st) i)) (waiters st Q)))"
    by (rule waits_cong [OF k1(7)]) simp
  moreover have "pending ?k = {}" using k1(5) quiet(2) by (simp add: pending_def)
  ultimately show ?thesis using k1(2,4) quiet(1) by (intro exI [of _ ?k]) simp
qed

lemma suspend_state:
  assumes "eg_idle T E idle st" and "eg_waits E st Q"
  shows "kernel T E idle (vTaskSuspendAll (eg_kernel st))" "uxSchedulerSuspended (vTaskSuspendAll (eg_kernel st)) = 1"
    "xPendedTicks (vTaskSuspendAll (eg_kernel st)) = 0" "pending (vTaskSuspendAll (eg_kernel st)) = {}"
    "eg_waits E (st\<lparr>eg_kernel := vTaskSuspendAll (eg_kernel st)\<rparr>) Q"
    "value_of (vTaskSuspendAll (eg_kernel st)) = value_of (eg_kernel st)"
    "frees {} v (eg_kernel st) (vTaskSuspendAll (eg_kernel st))"
  using eg_idle_quiet [OF assms(1)] assms(2) waits_cong [of E "eg_kernel st" Q "vTaskSuspendAll (eg_kernel st)"]
  by (simp_all add: vTaskSuspendAll_def eg_waits_def pending_def frees_def)

lemma frees_trans_empty: "frees {} v k k1 \<Longrightarrow> frees W v k1 k2 \<Longrightarrow> frees W v k k2"
  by (simp add: frees_def)

lemma sync_meets:
  assumes idle: "eg_idle T E idle st" and w: "eg_waits E st Q" and new: "new = uxEventBits (eg_group st) OR n"
    and met: "new AND b = b"
  shows "\<exists>k. xEventGroupSync world n b tm st =
      Some (new, (set_bits_of (bits_after n Q st AND NOT b) st)\<lparr>eg_kernel := k\<rparr>) \<and>
    kernel T E idle k \<and> settled k \<and> uxSchedulerSuspended k = 0 \<and>
    frees (matching new (value_of (eg_kernel st)) (waiters st Q)) (woken_value new) (eg_kernel st) k"
proof -
  let ?st = "st\<lparr>eg_kernel := vTaskSuspendAll (eg_kernel st)\<rparr>"
  note s = suspend_state [OF idle w]
  have same: "waiters ?st Q = waiters st Q" "eg_group ?st = eg_group st" by (simp_all add: waiters_def)
  have ne: "new = uxEventBits (eg_group ?st) OR n" using new by simp
  have pre: "kernel T E idle (eg_kernel ?st)" "uxSchedulerSuspended (eg_kernel ?st) = 1" "xPendedTicks (eg_kernel ?st) = 0"
    "pending (eg_kernel ?st) = {}" using s by simp_all
  obtain k1 where k1: "xEventGroupSetBits world n ?st = Some (bits_after n Q ?st, (set_bits_of (bits_after n Q ?st) ?st)\<lparr>eg_kernel := k1\<rparr>)"
    "kernel T E idle k1" "uxSchedulerSuspended k1 = 1" "xPendedTicks k1 = 0" "pending k1 = {}"
    "frees (matching new (value_of (eg_kernel ?st)) (waiters ?st Q)) (woken_value new) (eg_kernel ?st) k1"
    using set_bits_suspended [OF pre s(5) ne, of world] by blast
  have ba: "bits_after n Q ?st = bits_after n Q st" unfolding bits_after_def Let_def same by (simp add: s(6))
  have "frees (matching new (value_of (eg_kernel st)) (waiters st Q)) (woken_value new) (vTaskSuspendAll (eg_kernel st)) k1"
    using k1(6) by (simp add: same s(6))
  from frees_trans_empty [OF s(7) this]
  have f: "frees (matching new (value_of (eg_kernel st)) (waiters st Q)) (woken_value new) (eg_kernel st) (resumed k1)"
    by (simp add: frees_def)
  have r: "xTaskResumeAll k1 = Some (xYieldPending k1, resumed k1)" by (rule resume_exact [OF k1(2-5)])
  have "xEventGroupSync world n b tm st = Some (new, (set_bits_of (bits_after n Q st AND NOT b) st)\<lparr>eg_kernel := resumed k1\<rparr>)"
    unfolding xEventGroupSync_def Let_def k1(1) same new [symmetric]
    by (simp add: met ba set_bits_of_def r)
  moreover have "settled (resumed k1)" using settled_resumed k1(4,5) by simp
  ultimately show ?thesis using k1(2) f by (intro exI [of _ "resumed k1"]) simp
qed

lemma sync_falls_asleep:
  assumes idle: "eg_idle T E idle st" and w: "eg_waits E st Q" "waiters st Q = []"
    and cur: "pxCurrentTCB (eg_kernel st) = Some cur" "cur \<noteq> idle"
    and free: "container (EventItem cur) (eg_kernel st) = None" and tm: "0 < tm"
    and new: "new = uxEventBits (eg_group st) OR n" and no: "new AND b \<noteq> b"
  shows "\<exists>k Q'. asleep T E idle cur b True True [] Q' ((set_bits_of new st)\<lparr>eg_kernel := k\<rparr>) \<and>
    xEventGroupSync world n b tm st =
      (case world ((set_bits_of new st)\<lparr>eg_kernel := k\<rparr>) of None \<Rightarrow> None | Some st3 \<Rightarrow> sync_finish b st3)"
proof -
  let ?st = "st\<lparr>eg_kernel := vTaskSuspendAll (eg_kernel st)\<rparr>" and ?e = "xTasksWaitingForBits (eg_group st)"
  note s = suspend_state [OF idle w(1)]
  have ws: "waiters ?st Q = []" using w(2) by (simp add: waiters_def)
  have ne: "new = uxEventBits (eg_group ?st) OR n" using new by simp
  have pre: "kernel T E idle (eg_kernel ?st)" "uxSchedulerSuspended (eg_kernel ?st) = 1" "xPendedTicks (eg_kernel ?st) = 0"
    "pending (eg_kernel ?st) = {}" using s by simp_all
  obtain k1 where k1: "xEventGroupSetBits world n ?st = Some (bits_after n Q ?st, (set_bits_of (bits_after n Q ?st) ?st)\<lparr>eg_kernel := k1\<rparr>)"
    "kernel T E idle k1" "uxSchedulerSuspended k1 = 1" "xPendedTicks k1 = 0" "pending k1 = {}"
    "frees (matching new (value_of (eg_kernel ?st)) (waiters ?st Q)) (woken_value new) (eg_kernel ?st) k1"
    "waits E k1 (Q(?e := filter (\<lambda>i. \<not> match_found new (value_of (eg_kernel ?st) i)) (waiters ?st Q)))"
    using set_bits_suspended [OF pre s(5) ne, of world] by auto
  have ba: "bits_after n Q ?st = new" unfolding bits_after_def Let_def ws using new by simp
  have f: "frees {} (woken_value new) (eg_kernel st) k1"
    using frees_trans_empty [OF s(7)] k1(6) unfolding ws by simp
  note fd = frees_D [OF f]
  have c1: "pxCurrentTCB k1 = Some cur" "container (EventItem cur) k1 = None" using fd cur(1) free by simp_all
  have e: "?e \<in> E" using w(1) by (simp add: eg_waits_def)
  have q1: "waits E k1 (Q(?e := []))" using k1(7) unfolding ws by simp
  obtain k2 y k3 k4 xs ys where r: "vTaskPlaceOnUnorderedEventList (Event ?e) (b OR control_bits True True) tm k1 = Some k2"
    "xTaskResumeAll k2 = Some (y, k3)" "k4 = (if \<not> y then taskYIELD_IF_USING_PREEMPTION k3 else k3)"
    "kernel T E idle k4" "settled k4" "uxSchedulerSuspended k4 = 0" "pxCurrentTCB k4 = Some cur"
    "(Q(?e := [])) ?e = xs @ ys" "waits E k4 ((Q(?e := []))(?e := xs @ EventItem cur # ys))"
    "value_of k4 (EventItem cur) = (b OR control_bits True True) OR taskEVENT_LIST_ITEM_VALUE_IN_USE"
    using fall_asleep [OF k1(2-5) c1(1) cur(2) e c1(2) tm q1, of "b OR control_bits True True"] by blast
  have ctl: "b OR control_bits True True = b OR eventCLEAR_EVENTS_ON_EXIT_BIT OR eventWAIT_FOR_ALL_BITS"
    by (simp add: control_bits_def)
  have "asleep T E idle cur b True True [] (Q(?e := [EventItem cur])) ((set_bits_of new st)\<lparr>eg_kernel := k4\<rparr>)"
    using r(4-10) e by (auto simp: asleep_def eg_idle_def eg_waits_def waiters_def)
  moreover have "xEventGroupSync world n b tm st =
      (case world ((set_bits_of new st)\<lparr>eg_kernel := k4\<rparr>) of None \<Rightarrow> None | Some st3 \<Rightarrow> sync_finish b st3)"
    using no tm new r(1-3) unfolding xEventGroupSync_def Let_def k1(1) ba waiting_list_def ctl
    by (auto simp: eg_sleep_def set_bits_of_def split: option.split)
  ultimately show ?thesis by blast
qed

subsection \<open>The properties\<close>

text \<open>An event group on list 7, with bits \<open>b\<close> set; the tasks are 0, 3 and 5 (running).\<close>

definition eg_w :: "u32 \<Rightarrow> egsys" where
  "eg_w b = set_bits_of b (the (xEventGroupCreate (\<lambda>_. True) 7 0 tasks_w))"

lemma eg_w:
  "eg_idle {0, 3, 5} {7} 0 (eg_w b)" "eg_waits {7} (eg_w b) (\<lambda>_. [])" "waiters (eg_w b) (\<lambda>_. []) = []"
  "pxCurrentTCB (eg_kernel (eg_w b)) = Some 5" "container (EventItem 5) (eg_kernel (eg_w b)) = None"
  "uxEventBits (eg_group (eg_w b)) = b"
proof -
  have w: "eg_w b = set_bits_of b \<lparr>eg_kernel = event_w,
      eg_group = \<lparr>uxEventBits = 0, xTasksWaitingForBits = 7, uxEventGroupNumber = 0\<rparr>\<rparr>"
    by (simp add: eg_w_def xEventGroupCreate_def event_w_def)
  show "eg_idle {0, 3, 5} {7} 0 (eg_w b)" "eg_waits {7} (eg_w b) (\<lambda>_. [])" "waiters (eg_w b) (\<lambda>_. []) = []"
    "pxCurrentTCB (eg_kernel (eg_w b)) = Some 5" "container (EventItem 5) (eg_kernel (eg_w b)) = None"
    "uxEventBits (eg_group (eg_w b)) = b"
    using event_w by (simp_all add: w eg_idle_def eg_waits_def waiters_def)
qed





text \<open>The second task of a rendezvous arrives and is given the bits \<open>r\<close>.\<close>

definition arrives :: "u32 \<Rightarrow> u32 \<Rightarrow> u32 \<Rightarrow> egsys \<Rightarrow> egsys option" where
  "arrives n b r st = (case xEventGroupSync Some n b 0 st of
     None \<Rightarrow> None | Some (r', st') \<Rightarrow> if r' = r then Some st' else None)"



end
