(* ===== verification/Timers.thy ===== *)
theory Timers
  imports StreamSpec
begin

text \<open>
  Software timers, \<^verbatim>\<open>FreeRTOS-Kernel/timers.c\<close>: the two sorted lists of active timers, the timer task
  that serves them, and the queue of commands to it, which is a queue of \<open>QueueApi\<close>.  A timer is its
  address.  \<open>cb\<close> is what the callback functions do, \<open>big\<close> the byte order, \<open>world\<close> what happens while a
  call sleeps.  Pended function calls and static allocation are compiled out.
\<close>

subsection \<open>State\<close>

definition tmrNO_DELAY :: u32 where "tmrNO_DELAY = 0"
definition tmrMAX_TIME_BEFORE_OVERFLOW :: u32 where "tmrMAX_TIME_BEFORE_OVERFLOW = - 1"

definition tmrSTATUS_IS_ACTIVE :: u8 where "tmrSTATUS_IS_ACTIVE = 1"
definition tmrSTATUS_IS_STATICALLY_ALLOCATED :: u8 where "tmrSTATUS_IS_STATICALLY_ALLOCATED = 2"
definition tmrSTATUS_IS_AUTORELOAD :: u8 where "tmrSTATUS_IS_AUTORELOAD = 4"

definition tmrCOMMAND_START :: u32 where "tmrCOMMAND_START = 1"
definition tmrCOMMAND_RESET :: u32 where "tmrCOMMAND_RESET = 2"
definition tmrCOMMAND_STOP :: u32 where "tmrCOMMAND_STOP = 3"
definition tmrCOMMAND_CHANGE_PERIOD :: u32 where "tmrCOMMAND_CHANGE_PERIOD = 4"
definition tmrCOMMAND_DELETE :: u32 where "tmrCOMMAND_DELETE = 5"
definition tmrFIRST_FROM_ISR_COMMAND :: u32 where "tmrFIRST_FROM_ISR_COMMAND = 6"
definition tmrCOMMAND_START_FROM_ISR :: u32 where "tmrCOMMAND_START_FROM_ISR = 6"
definition tmrCOMMAND_RESET_FROM_ISR :: u32 where "tmrCOMMAND_RESET_FROM_ISR = 7"
definition tmrCOMMAND_STOP_FROM_ISR :: u32 where "tmrCOMMAND_STOP_FROM_ISR = 8"
definition tmrCOMMAND_CHANGE_PERIOD_FROM_ISR :: u32 where "tmrCOMMAND_CHANGE_PERIOD_FROM_ISR = 9"

definition configTIMER_QUEUE_LENGTH :: u32 where "configTIMER_QUEUE_LENGTH = 8"

record Timer_t =
  pcTimerName :: string
  xTimerPeriodInTicks :: u32
  pvTimerID :: u32
  pxCallbackFunction :: u32
  uxTimerNumber :: u32
  ucStatus :: u8

datatype tlist = ActiveTimerList1 | ActiveTimerList2

type_synonym tmlists = "(tlist, u32, u32) lstore"

record DaemonTaskMessage_t =
  xMessageID :: u32
  xMessageValue :: u32
  pxTimer :: u32

text \<open>\<open>calls\<close> logs the callbacks made and \<open>freed\<close> the timers whose memory was released.\<close>

record tmsys =
  tm_sys :: qsys
  tmr :: "u32 \<Rightarrow> Timer_t"
  tls :: tmlists
  pxCurrentTimerList :: tlist
  pxOverflowTimerList :: tlist
  xTimerQueue :: "nat option"
  xTimerTaskHandle :: "task option"
  xLastTime :: u32
  calls :: "u32 list"
  freed :: "u32 list"

type_synonym callback = "u32 \<Rightarrow> u32 \<Rightarrow> tmsys \<Rightarrow> tmsys option"

definition set_timer :: "u32 \<Rightarrow> Timer_t \<Rightarrow> tmsys \<Rightarrow> tmsys" where
  "set_timer t T st = st\<lparr>tmr := (tmr st)(t := T)\<rparr>"

definition set_status :: "u32 \<Rightarrow> u8 \<Rightarrow> tmsys \<Rightarrow> tmsys" where
  "set_status t s st = set_timer t ((tmr st t)\<lparr>ucStatus := s\<rparr>) st"

definition on_kernel :: "(ktask \<Rightarrow> ktask) \<Rightarrow> tmsys \<Rightarrow> tmsys" where
  "on_kernel f st = st\<lparr>tm_sys := (tm_sys st)\<lparr>ks := f (ks (tm_sys st))\<rparr>\<rparr>"

definition resume_timers :: "tmsys \<Rightarrow> (bool \<times> tmsys) option" where
  "resume_timers st = map_option (\<lambda>(y, k). (y, on_kernel (\<lambda>_. k) st)) (xTaskResumeAll (ks (tm_sys st)))"

text \<open>\<^verbatim>\<open>pxTimer->pxCallbackFunction( ( TimerHandle_t ) pxTimer )\<close>.\<close>

definition call_timer :: "callback \<Rightarrow> u32 \<Rightarrow> tmsys \<Rightarrow> tmsys option" where
  "call_timer cb t st = cb (pxCallbackFunction (tmr st t)) t (st\<lparr>calls := calls st @ [t]\<rparr>)"

text \<open>The bytes of a message in the queue.\<close>

definition message_bytes :: "bool \<Rightarrow> DaemonTaskMessage_t \<Rightarrow> u8 list" where
  "message_bytes big m = length_bytes big (xMessageID m) @ length_bytes big (xMessageValue m) @ length_bytes big (pxTimer m)"

definition bytes_message :: "bool \<Rightarrow> u8 list \<Rightarrow> DaemonTaskMessage_t" where
  "bytes_message big bs = \<lparr>xMessageID = bytes_length big (take 4 bs), xMessageValue = bytes_length big (take 4 (drop 4 bs)),
     pxTimer = bytes_length big (take 4 (drop 8 bs))\<rparr>"

definition sizeof_DaemonTaskMessage_t :: u32 where "sizeof_DaemonTaskMessage_t = 12"

subsection \<open>Creation\<close>

text \<open>\<open>q\<close> is the number the queue gets when it is created.\<close>

definition prvCheckForValidListAndQueue ::
  "(u32 \<Rightarrow> u8 list option) \<Rightarrow> nat \<Rightarrow> tmsys \<Rightarrow> tmsys option" where
  "prvCheckForValidListAndQueue malloc q st =
     (if xTimerQueue st = None then
        do {
          let s = vListInitialise ActiveTimerList2 (vListInitialise ActiveTimerList1 (tls st));
          let st1 = st\<lparr>tls := s, pxCurrentTimerList := ActiveTimerList1, pxOverflowTimerList := ActiveTimerList2\<rparr>;
          (made, sys) \<leftarrow> xQueueGenericCreate malloc configTIMER_QUEUE_LENGTH sizeof_DaemonTaskMessage_t 0 q (tm_sys st1);
          Some (if made
                then st1\<lparr>tm_sys := vQueueAddToRegistry q (Some ''TmrQ'') sys, xTimerQueue := Some q\<rparr>
                else st1\<lparr>tm_sys := sys\<rparr>)
        }
      else Some st)"

text \<open>\<open>t\<close> is the handle of the timer task; the booleans say whether its memory was available.\<close>

definition xTimerCreateTimerTask ::
  "(u32 \<Rightarrow> u8 list option) \<Rightarrow> nat \<Rightarrow> task \<Rightarrow> bool \<Rightarrow> bool \<Rightarrow> tmsys \<Rightarrow> (bool \<times> tmsys) option" where
  "xTimerCreateTimerTask malloc q t pxStack pxNewTCB st =
     do {
       st1 \<leftarrow> prvCheckForValidListAndQueue malloc q st;
       Some (if xTimerQueue st1 \<noteq> None
             then let (r, k) = xTaskCreate t (configMAX_PRIORITIES - 1) pxStack pxNewTCB (ks (tm_sys st1))
                  in (r, (on_kernel (\<lambda>_. k) st1)\<lparr>xTimerTaskHandle := if r then Some t else xTimerTaskHandle st1\<rparr>)
             else (pdFAIL, st1))
     }"

definition prvInitialiseNewTimer ::
  "(u32 \<Rightarrow> u8 list option) \<Rightarrow> nat \<Rightarrow> string \<Rightarrow> u32 \<Rightarrow> bool \<Rightarrow> u32 \<Rightarrow> u32 \<Rightarrow> u32 \<Rightarrow> tmsys \<Rightarrow> tmsys option" where
  "prvInitialiseNewTimer malloc q name period xAutoReload ident f t st =
     do {
       st1 \<leftarrow> prvCheckForValidListAndQueue malloc q st;
       let T = (tmr st1 t)\<lparr>pcTimerName := name, xTimerPeriodInTicks := period, pvTimerID := ident,
                         pxCallbackFunction := f\<rparr>;
       let st2 = st1\<lparr>tls := vListInitialiseItem t (tls st1)\<rparr>;
       Some (set_timer t (if xAutoReload then T\<lparr>ucStatus := ucStatus T OR tmrSTATUS_IS_AUTORELOAD\<rparr> else T) st2)
     }"

text \<open>\<open>block\<close> is the address that \<^verbatim>\<open>pvPortMalloc\<close> returns, if any.\<close>

definition xTimerCreate ::
  "(u32 \<Rightarrow> u8 list option) \<Rightarrow> nat \<Rightarrow> u32 option \<Rightarrow> string \<Rightarrow> u32 \<Rightarrow> bool \<Rightarrow> u32 \<Rightarrow> u32 \<Rightarrow> tmsys \<Rightarrow>
   (u32 option \<times> tmsys) option" where
  "xTimerCreate malloc q block name period xAutoReload ident f st =
     (case block of
        None \<Rightarrow> Some (None, st)
      | Some t \<Rightarrow> map_option (Pair (Some t))
          (prvInitialiseNewTimer malloc q name period xAutoReload ident f t (set_status t 0 st)))"

subsection \<open>Queries\<close>

definition xTimerGetTimerDaemonTaskHandle :: "tmsys \<Rightarrow> task option" where
  "xTimerGetTimerDaemonTaskHandle st = xTimerTaskHandle st"

definition xTimerGetPeriod :: "u32 \<Rightarrow> tmsys \<Rightarrow> u32" where
  "xTimerGetPeriod t st = xTimerPeriodInTicks (tmr st t)"

definition vTimerSetReloadMode :: "u32 \<Rightarrow> bool \<Rightarrow> tmsys \<Rightarrow> tmsys" where
  "vTimerSetReloadMode t xAutoReload st =
     (if xAutoReload then set_status t (ucStatus (tmr st t) OR tmrSTATUS_IS_AUTORELOAD) st
      else set_status t (ucStatus (tmr st t) AND NOT tmrSTATUS_IS_AUTORELOAD) st)"

definition xTimerGetReloadMode :: "u32 \<Rightarrow> tmsys \<Rightarrow> bool" where
  "xTimerGetReloadMode t st \<longleftrightarrow> \<not> ucStatus (tmr st t) AND tmrSTATUS_IS_AUTORELOAD = 0"

definition uxTimerGetReloadMode :: "u32 \<Rightarrow> tmsys \<Rightarrow> bool" where
  "uxTimerGetReloadMode t st = xTimerGetReloadMode t st"

definition xTimerGetExpiryTime :: "u32 \<Rightarrow> tmsys \<Rightarrow> u32" where
  "xTimerGetExpiryTime t st = listGET_LIST_ITEM_VALUE t (tls st)"

definition pcTimerGetName :: "u32 \<Rightarrow> tmsys \<Rightarrow> string" where
  "pcTimerGetName t st = pcTimerName (tmr st t)"

definition xTimerIsTimerActive :: "u32 \<Rightarrow> tmsys \<Rightarrow> bool" where
  "xTimerIsTimerActive t st \<longleftrightarrow> \<not> ucStatus (tmr st t) AND tmrSTATUS_IS_ACTIVE = 0"

definition pvTimerGetTimerID :: "u32 \<Rightarrow> tmsys \<Rightarrow> u32" where
  "pvTimerGetTimerID t st = pvTimerID (tmr st t)"

definition vTimerSetTimerID :: "u32 \<Rightarrow> u32 \<Rightarrow> tmsys \<Rightarrow> tmsys" where
  "vTimerSetTimerID t v st = set_timer t ((tmr st t)\<lparr>pvTimerID := v\<rparr>) st"

definition uxTimerGetTimerNumber :: "u32 \<Rightarrow> tmsys \<Rightarrow> u32" where
  "uxTimerGetTimerNumber t st = uxTimerNumber (tmr st t)"

definition vTimerSetTimerNumber :: "u32 \<Rightarrow> u32 \<Rightarrow> tmsys \<Rightarrow> tmsys" where
  "vTimerSetTimerNumber t v st = set_timer t ((tmr st t)\<lparr>uxTimerNumber := v\<rparr>) st"

subsection \<open>Commands\<close>

text \<open>The second component of the result is \<^verbatim>\<open>*pxHigherPriorityTaskWoken\<close>.\<close>

definition xTimerGenericCommand ::
  "bool \<Rightarrow> (nat \<Rightarrow> qsys \<Rightarrow> qsys option) \<Rightarrow> u32 \<Rightarrow> u32 \<Rightarrow> u32 \<Rightarrow> u32 \<Rightarrow> tmsys \<Rightarrow> (bool \<times> bool \<times> tmsys) option" where
  "xTimerGenericCommand big world t xCommandID xOptionalValue xTicksToWait st =
     (case xTimerQueue st of
        None \<Rightarrow> Some (pdFAIL, False, st)
      | Some q \<Rightarrow>
          let bs = message_bytes big \<lparr>xMessageID = xCommandID, xMessageValue = xOptionalValue, pxTimer = t\<rparr> in
          if xCommandID <s tmrFIRST_FROM_ISR_COMMAND then
            do {
              (r, sys) \<leftarrow>
                (if xTaskGetSchedulerState (ks (tm_sys st)) = taskSCHEDULER_RUNNING
                 then xQueueGenericSend world q bs xTicksToWait queueSEND_TO_BACK (tm_sys st)
                 else xQueueGenericSend world q bs tmrNO_DELAY queueSEND_TO_BACK (tm_sys st));
              Some (r, False, st\<lparr>tm_sys := sys\<rparr>)
            }
          else
            do {
              (r, woken, sys) \<leftarrow> xQueueGenericSendFromISR q bs queueSEND_TO_BACK (tm_sys st);
              Some (r, woken, st\<lparr>tm_sys := sys\<rparr>)
            })"

subsection \<open>The lists of active timers\<close>

text \<open>The result is \<^verbatim>\<open>xProcessTimerNow\<close>.\<close>

definition prvInsertTimerInActiveList :: "u32 \<Rightarrow> u32 \<Rightarrow> u32 \<Rightarrow> u32 \<Rightarrow> tmsys \<Rightarrow> (bool \<times> tmsys) option" where
  "prvInsertTimerInActiveList t xNextExpiryTime xTimeNow xCommandTime st =
     (let st1 = st\<lparr>tls := listSET_LIST_ITEM_OWNER t t (listSET_LIST_ITEM_VALUE t xNextExpiryTime (tls st))\<rparr> in
      if xNextExpiryTime \<le> xTimeNow then
        if xTimeNow - xCommandTime \<ge> xTimerPeriodInTicks (tmr st1 t) then Some (True, st1)
        else map_option (\<lambda>s. (False, st1\<lparr>tls := s\<rparr>)) (vListInsert (pxOverflowTimerList st1) t (tls st1))
      else
        if xTimeNow < xCommandTime \<and> xNextExpiryTime \<ge> xCommandTime then Some (True, st1)
        else map_option (\<lambda>s. (False, st1\<lparr>tls := s\<rparr>)) (vListInsert (pxCurrentTimerList st1) t (tls st1)))"

text \<open>The loop of \<^verbatim>\<open>prvReloadTimer\<close> need not end when the period is 0.\<close>

partial_function (option) prvReloadTimer :: "callback \<Rightarrow> u32 \<Rightarrow> u32 \<Rightarrow> u32 \<Rightarrow> tmsys \<Rightarrow> tmsys option" where
  "prvReloadTimer cb t xExpiredTime xTimeNow st =
     do {
       (again, st1) \<leftarrow> prvInsertTimerInActiveList t (xExpiredTime + xTimerPeriodInTicks (tmr st t)) xTimeNow xExpiredTime st;
       if again then
         do {
           let x = xExpiredTime + xTimerPeriodInTicks (tmr st1 t);
           st2 \<leftarrow> call_timer cb t st1;
           prvReloadTimer cb t x xTimeNow st2
         }
       else Some st1
     }"

definition prvProcessExpiredTimer :: "callback \<Rightarrow> u32 \<Rightarrow> u32 \<Rightarrow> tmsys \<Rightarrow> tmsys option" where
  "prvProcessExpiredTimer cb xNextExpireTime xTimeNow st =
     do {
       let t = listGET_OWNER_OF_HEAD_ENTRY (pxCurrentTimerList st) (tls st);
       (_, s) \<leftarrow> uxListRemove t (tls st);
       let st1 = st\<lparr>tls := s\<rparr>;
       st2 \<leftarrow> (if ucStatus (tmr st1 t) AND tmrSTATUS_IS_AUTORELOAD \<noteq> 0
               then prvReloadTimer cb t xNextExpireTime xTimeNow st1
               else Some (set_status t (ucStatus (tmr st1 t) AND NOT tmrSTATUS_IS_ACTIVE) st1));
       call_timer cb t st2
     }"

partial_function (option) switch_loop :: "callback \<Rightarrow> tmsys \<Rightarrow> tmsys option" where
  "switch_loop cb st =
     (if \<not> listLIST_IS_EMPTY (pxCurrentTimerList st) (tls st) then
        do {
          let xNextExpireTime = listGET_ITEM_VALUE_OF_HEAD_ENTRY (pxCurrentTimerList st) (tls st);
          st1 \<leftarrow> prvProcessExpiredTimer cb xNextExpireTime tmrMAX_TIME_BEFORE_OVERFLOW st;
          switch_loop cb st1
        }
      else Some st)"

definition prvSwitchTimerLists :: "callback \<Rightarrow> tmsys \<Rightarrow> tmsys option" where
  "prvSwitchTimerLists cb st =
     do {
       st1 \<leftarrow> switch_loop cb st;
       Some (st1\<lparr>pxCurrentTimerList := pxOverflowTimerList st1, pxOverflowTimerList := pxCurrentTimerList st1\<rparr>)
     }"

text \<open>The results: the time and \<^verbatim>\<open>*pxTimerListsWereSwitched\<close>.\<close>

definition prvSampleTimeNow :: "callback \<Rightarrow> tmsys \<Rightarrow> (u32 \<times> bool \<times> tmsys) option" where
  "prvSampleTimeNow cb st =
     do {
       let xTimeNow = xTaskGetTickCount (ks (tm_sys st));
       (switched, st1) \<leftarrow>
         (if xTimeNow < xLastTime st then map_option (Pair True) (prvSwitchTimerLists cb st) else Some (False, st));
       Some (xTimeNow, switched, st1\<lparr>xLastTime := xTimeNow\<rparr>)
     }"

text \<open>The results: the time and \<^verbatim>\<open>*pxListWasEmpty\<close>.\<close>

definition prvGetNextExpireTime :: "tmsys \<Rightarrow> u32 \<times> bool" where
  "prvGetNextExpireTime st =
     (let e = listLIST_IS_EMPTY (pxCurrentTimerList st) (tls st)
      in (if \<not> e then listGET_ITEM_VALUE_OF_HEAD_ENTRY (pxCurrentTimerList st) (tls st) else 0, e))"

subsection \<open>The timer task\<close>

definition start_timer :: "callback \<Rightarrow> u32 \<Rightarrow> u32 \<Rightarrow> u32 \<Rightarrow> tmsys \<Rightarrow> tmsys option" where
  "start_timer cb t xMessageTime xTimeNow st0 =
     do {
       let st = set_status t (ucStatus (tmr st0 t) OR tmrSTATUS_IS_ACTIVE) st0;
       (now, st1) \<leftarrow> prvInsertTimerInActiveList t (xMessageTime + xTimerPeriodInTicks (tmr st t)) xTimeNow xMessageTime st;
       if now then
         do {
           st2 \<leftarrow> (if ucStatus (tmr st1 t) AND tmrSTATUS_IS_AUTORELOAD \<noteq> 0
                   then prvReloadTimer cb t (xMessageTime + xTimerPeriodInTicks (tmr st1 t)) xTimeNow st1
                   else Some (set_status t (ucStatus (tmr st1 t) AND NOT tmrSTATUS_IS_ACTIVE) st1));
           call_timer cb t st2
         }
       else Some st1
     }"

text \<open>One command; a negative identifier is a pended function call, and there are none.\<close>

definition process_command :: "callback \<Rightarrow> DaemonTaskMessage_t \<Rightarrow> tmsys \<Rightarrow> tmsys option" where
  "process_command cb m st =
     (if 0 \<le>s xMessageID m then
        do {
          let t = pxTimer m;
          st1 \<leftarrow> (if pxContainer (nodes (tls st) (Item t)) \<noteq> None
                  then map_option (\<lambda>(_, s). st\<lparr>tls := s\<rparr>) (uxListRemove t (tls st)) else Some st);
          (xTimeNow, _, st2) \<leftarrow> prvSampleTimeNow cb st1;
          if xMessageID m \<in> {tmrCOMMAND_START, tmrCOMMAND_START_FROM_ISR, tmrCOMMAND_RESET, tmrCOMMAND_RESET_FROM_ISR}
          then start_timer cb t (xMessageValue m) xTimeNow st2
          else if xMessageID m \<in> {tmrCOMMAND_STOP, tmrCOMMAND_STOP_FROM_ISR}
          then Some (set_status t (ucStatus (tmr st2 t) AND NOT tmrSTATUS_IS_ACTIVE) st2)
          else if xMessageID m \<in> {tmrCOMMAND_CHANGE_PERIOD, tmrCOMMAND_CHANGE_PERIOD_FROM_ISR}
          then
            do {
              let st3 = set_status t (ucStatus (tmr st2 t) OR tmrSTATUS_IS_ACTIVE) st2;
              let st4 = set_timer t ((tmr st3 t)\<lparr>xTimerPeriodInTicks := xMessageValue m\<rparr>) st3;
              map_option snd (prvInsertTimerInActiveList t (xTimeNow + xTimerPeriodInTicks (tmr st4 t)) xTimeNow xTimeNow st4)
            }
          else if xMessageID m = tmrCOMMAND_DELETE
          then Some (if ucStatus (tmr st2 t) AND tmrSTATUS_IS_STATICALLY_ALLOCATED = 0
                     then st2\<lparr>freed := freed st2 @ [t]\<rparr>
                     else set_status t (ucStatus (tmr st2 t) AND NOT tmrSTATUS_IS_ACTIVE) st2)
          else Some st2
        }
      else Some st)"

partial_function (option) prvProcessReceivedCommands ::
  "bool \<Rightarrow> callback \<Rightarrow> (nat \<Rightarrow> qsys \<Rightarrow> qsys option) \<Rightarrow> tmsys \<Rightarrow> tmsys option" where
  "prvProcessReceivedCommands big cb world st =
     do {
       q \<leftarrow> xTimerQueue st;
       (r, sys) \<leftarrow> xQueueReceive world q tmrNO_DELAY (tm_sys st);
       let st1 = st\<lparr>tm_sys := sys\<rparr>;
       case r of
         None \<Rightarrow> Some st1
       | Some bs \<Rightarrow>
           do {
             st2 \<leftarrow> process_command cb (bytes_message big bs) st1;
             prvProcessReceivedCommands big cb world st2
           }
     }"

text \<open>\<open>sleep\<close> is what other tasks do from the yield until the timer task runs again.\<close>

definition prvProcessTimerOrBlockTask ::
  "callback \<Rightarrow> (tmsys \<Rightarrow> tmsys option) \<Rightarrow> u32 \<Rightarrow> bool \<Rightarrow> tmsys \<Rightarrow> tmsys option" where
  "prvProcessTimerOrBlockTask cb sleep xNextExpireTime xListWasEmpty st =
     do {
       (xTimeNow, switched, st1) \<leftarrow> prvSampleTimeNow cb (on_kernel vTaskSuspendAll st);
       if \<not> switched then
         if \<not> xListWasEmpty \<and> xNextExpireTime \<le> xTimeNow then
           do {
             (_, st2) \<leftarrow> resume_timers st1;
             prvProcessExpiredTimer cb xNextExpireTime xTimeNow st2
           }
         else
           do {
             let wait_forever = (if xListWasEmpty then listLIST_IS_EMPTY (pxOverflowTimerList st1) (tls st1) else xListWasEmpty);
             q \<leftarrow> xTimerQueue st1;
             sys \<leftarrow> vQueueWaitForMessageRestricted q (xNextExpireTime - xTimeNow) wait_forever (tm_sys st1);
             (y, st2) \<leftarrow> resume_timers (st1\<lparr>tm_sys := sys\<rparr>);
             sleep (if \<not> y then on_kernel taskYIELD_IF_USING_PREEMPTION st2 else st2)
           }
       else map_option snd (resume_timers st1)
     }"

text \<open>One pass through the endless loop of the task, and a number of passes.\<close>

definition timer_pass ::
  "bool \<Rightarrow> callback \<Rightarrow> (nat \<Rightarrow> qsys \<Rightarrow> qsys option) \<Rightarrow> (tmsys \<Rightarrow> tmsys option) \<Rightarrow> tmsys \<Rightarrow> tmsys option" where
  "timer_pass big cb world sleep st =
     do {
       let (xNextExpireTime, xListWasEmpty) = prvGetNextExpireTime st;
       st1 \<leftarrow> prvProcessTimerOrBlockTask cb sleep xNextExpireTime xListWasEmpty st;
       prvProcessReceivedCommands big cb world st1
     }"

fun prvTimerTask ::
  "nat \<Rightarrow> bool \<Rightarrow> callback \<Rightarrow> (nat \<Rightarrow> qsys \<Rightarrow> qsys option) \<Rightarrow> (tmsys \<Rightarrow> tmsys option) \<Rightarrow> tmsys \<Rightarrow> tmsys option" where
  "prvTimerTask 0 big cb world sleep st = Some st"
| "prvTimerTask (Suc n) big cb world sleep st =
     do { st1 \<leftarrow> timer_pass big cb world sleep st; prvTimerTask n big cb world sleep st1 }"

end
