(* ===== verification/TimersInv.thy ===== *)
theory TimersInv
  imports Timers
begin

text \<open>
  The lists of active timers as a map from timers to expiry times on a time line without overflow.
  The words of the code are the remainders of these times, and the list a timer is on gives the
  period of the tick count (its epoch) the remainder belongs to.
\<close>

subsection \<open>Times and epochs\<close>

abbreviation epoch_length :: nat where "epoch_length \<equiv> 4294967296"

lemma epoch_le:
  fixes P :: nat
  assumes "a < P" and "b < P"
  shows "x * P + a \<le> y * P + b \<longleftrightarrow> x < y \<or> x = y \<and> a \<le> b"
proof -
  have "x * P + a < y * P" if "x < y"
    using that assms mult_le_mono1 [of "Suc x" y P] by simp
  moreover have "y * P + b < x * P" if "y < x"
    using that assms mult_le_mono1 [of "Suc y" x P] by simp
  ultimately show ?thesis by (cases x y rule: linorder_cases) fastforce+
qed

lemma epoch_less:
  fixes P :: nat
  assumes "a < P" and "b < P"
  shows "x * P + a < y * P + b \<longleftrightarrow> x < y \<or> x = y \<and> a < b"
  using epoch_le [OF assms(2,1), of y x] by (auto simp: not_le [symmetric])

text \<open>When a command given at \<open>c\<close> is served at \<open>n\<close>, less than an epoch later, comparing the remainders as the code
  does tells whether \<open>c + p\<close> has passed.\<close>

lemma expiry_passed:
  fixes P c n p :: nat
  assumes "0 < P" and "c \<le> n" "n < c + P" and "c + p \<le> n" and "\<not> (c + p) mod P \<le> n mod P"
  shows "n mod P < c mod P \<and> c mod P \<le> (c + p) mod P"
proof -
  define a where "a = c + p"
  have lt: "c mod P < P" "n mod P < P" "a mod P < P" using assms(1) by simp_all
  have eq: "c = c div P * P + c mod P" "n = n div P * P + n mod P" "a = a div P * P + a mod P" by simp_all
  have "a div P * P + a mod P \<le> n div P * P + n mod P" using assms(4) eq(2,3) unfolding a_def by linarith
  then have an: "a div P < n div P" using epoch_le [OF lt(3,2)] assms(5) unfolding a_def by blast
  have "c div P * P + c mod P \<le> a div P * P + a mod P" using eq(1,3) unfolding a_def by linarith
  then have ca: "c div P < a div P \<or> c div P = a div P \<and> c mod P \<le> a mod P" using epoch_le [OF lt(1,3)] by blast
  have "n div P * P + n mod P < Suc (c div P) * P + c mod P" using assms(3) eq(1,2) by simp
  then have nc: "n div P < Suc (c div P) \<or> n div P = Suc (c div P) \<and> n mod P < c mod P"
    using epoch_less [OF lt(2,1)] by blast
  show ?thesis using an ca nc unfolding a_def by linarith
qed

lemma expiry_ahead:
  fixes P c n p :: nat
  assumes "0 < P" and "c \<le> n" and "p < P" and "n < c + p"
  shows "(c + p) div P = (if (c + p) mod P \<le> n mod P then Suc (n div P) else n div P)"
    "\<not> (c + p) mod P \<le> n mod P \<Longrightarrow> \<not> (n mod P < c mod P \<and> c mod P \<le> (c + p) mod P)"
proof -
  define a where "a = c + p"
  have lt: "c mod P < P" "n mod P < P" "a mod P < P" using assms(1) by simp_all
  have eq: "c = c div P * P + c mod P" "n = n div P * P + n mod P" "a = a div P * P + a mod P" by simp_all
  have "n div P * P + n mod P < a div P * P + a mod P" using assms(4) eq(2,3) unfolding a_def by linarith
  then have na: "n div P < a div P \<or> n div P = a div P \<and> n mod P < a mod P" using epoch_less [OF lt(2,3)] by blast
  have "a div P * P + a mod P < Suc (n div P) * P + n mod P" using assms(2,3) eq(2,3) unfolding a_def by simp
  then have an: "a div P < Suc (n div P) \<or> a div P = Suc (n div P) \<and> a mod P < n mod P"
    using epoch_less [OF lt(3,2)] by blast
  show "(c + p) div P = (if (c + p) mod P \<le> n mod P then Suc (n div P) else n div P)"
    using na an unfolding a_def [symmetric] by (auto split: if_split)
  show "\<not> (n mod P < c mod P \<and> c mod P \<le> (c + p) mod P)" if "\<not> (c + p) mod P \<le> n mod P"
  proof
    assume s: "n mod P < c mod P \<and> c mod P \<le> (c + p) mod P"
    have ae: "a div P = n div P" using na an that unfolding a_def by linarith
    have "c div P * P + c mod P \<le> n div P * P + n mod P" using assms(2) eq(1,2) by linarith
    then have "c div P < n div P \<or> c div P = n div P \<and> c mod P \<le> n mod P" using epoch_le [OF lt(1,2)] by blast
    then have "c div P < n div P" using s by linarith
    then have "Suc (c div P) * P + c mod P \<le> a div P * P + a mod P"
      using epoch_le [OF lt(1,3), of "Suc (c div P)" "a div P"] ae s unfolding a_def by auto
    then show False using assms(3) eq(1,3) unfolding a_def by simp
  qed
qed

subsection \<open>The lists\<close>

definition tm_cont :: "tmlists \<Rightarrow> u32 \<Rightarrow> tlist option" where "tm_cont s t = pxContainer (nodes s (Item t))"
definition tm_val :: "tmlists \<Rightarrow> u32 \<Rightarrow> u32" where "tm_val s t = listGET_LIST_ITEM_VALUE t s"
definition tm_own :: "tmlists \<Rightarrow> u32 \<Rightarrow> u32" where "tm_own s t = pvOwner (nodes s (Item t))"

definition tmlists_ok :: "u32 set \<Rightarrow> tmlists \<Rightarrow> bool" where
  "tmlists_ok D s \<longleftrightarrow> card D < 2 ^ 31 \<and>
     (\<exists>A. lrel UNIV s A \<and> (\<forall>l. sorted (map (tm_val s) (fst (A l))))) \<and>
     (\<forall>t l. tm_cont s t = Some l \<longrightarrow> t \<in> D \<and> tm_own s t = t)"

lemma frame_lists:
  assumes "list_frame l xs t c s s'"
  shows "tm_cont s' = (tm_cont s)(t := c)" "tm_val s' = tm_val s" "tm_own s' = tm_own s"
  using assms by (auto simp: list_frame_def tm_cont_def tm_val_def tm_own_def listGET_LIST_ITEM_VALUE_def)

lemma tm_length:
  assumes "tmlists_ok D s" and "lrel UNIV s A"
  shows "length (fst (A l)) + 1 < 2 ^ 32"
proof -
  have d: "distinct (fst (A l))" using lrel_list [OF assms(2), of l] unfolding klist_iff by simp
  have "set (fst (A l)) \<subseteq> D"
    using assms(1) lrel_container [OF assms(2), of l] by (auto simp: tmlists_ok_def tm_cont_def)
  then have "card (set (fst (A l))) \<le> card D" by (intro card_mono) simp_all
  then show ?thesis using assms(1) d by (simp add: tmlists_ok_def distinct_card)
qed

lemma tm_remove:
  assumes ok: "tmlists_ok D s" and c: "tm_cont s t = Some l"
  shows "\<exists>n s'. uxListRemove t s = Some (n, s') \<and> tmlists_ok D s' \<and> tm_cont s' = (tm_cont s)(t := None) \<and> tm_val s' = tm_val s"
proof -
  obtain A where A: "lrel UNIV s A" "\<And>l. sorted (map (tm_val s) (fst (A l)))" using ok by (auto simp: tmlists_ok_def)
  obtain n s' where s': "uxListRemove t s = Some (n, s')" "lrel UNIV s' (A(l := al_remove t (A l)))"
    "list_frame l (fst (A l)) t None s s'"
    using uxListRemove_lrel [OF A(1) c [unfolded tm_cont_def]] by blast
  note f = frame_lists [OF s'(3)]
  have "sorted (map (tm_val s') (fst ((A(l := al_remove t (A l))) l')))" for l'
    using A(2) [of l'] sorted_remove [of "tm_val s" "A l" t] A(2) [of l] by (simp add: f)
  then have "tmlists_ok D s'" using ok s'(2) by (auto simp: tmlists_ok_def f split: if_splits)
  then show ?thesis using s'(1) f by blast
qed

lemma tm_insert:
  assumes ok: "tmlists_ok D s" and c: "tm_cont s t = None" and t: "t \<in> D" "tm_own s t = t"
  shows "\<exists>s'. vListInsert l t s = Some s' \<and> tmlists_ok D s' \<and> tm_cont s' = (tm_cont s)(t := Some l) \<and> tm_val s' = tm_val s"
proof -
  obtain A where A: "lrel UNIV s A" "\<And>l. sorted (map (tm_val s) (fst (A l)))" using ok by (auto simp: tmlists_ok_def)
  have v: "(\<lambda>y. listGET_LIST_ITEM_VALUE y s) = tm_val s" by (simp add: fun_eq_iff tm_val_def)
  obtain s' where s': "vListInsert l t s = Some s'" "lrel UNIV s' (A(l := al_insert (tm_val s) t (A l)))"
    "list_frame l (fst (A l)) t (Some l) s s'"
    using vListInsert_lrel [OF A(1) UNIV_I _ tm_length [OF ok A(1)], of t l] c unfolding v by (auto simp: tm_cont_def)
  note f = frame_lists [OF s'(3)]
  have "sorted (map (tm_val s') (fst ((A(l := al_insert (tm_val s) t (A l))) l')))" for l'
    using A(2) [of l'] al_insert_sorted [of "tm_val s" "fst (A l)" t "snd (A l)"] A(2) [of l] by (simp add: f)
  then have "tmlists_ok D s'" using ok s'(2) t by (auto simp: tmlists_ok_def f split: if_splits)
  then show ?thesis using s'(1) f by blast
qed

text \<open>Writing the value and the owner of a timer that is on no list.\<close>

definition stamp :: "u32 \<Rightarrow> u32 \<Rightarrow> tmlists \<Rightarrow> tmlists" where
  "stamp t v s = listSET_LIST_ITEM_OWNER t t (listSET_LIST_ITEM_VALUE t v s)"

lemma stamp_simps [simp]:
  "tm_cont (stamp t v s) = tm_cont s" "tm_val (stamp t v s) = (tm_val s)(t := v)" "tm_own (stamp t v s) = (tm_own s)(t := t)"
  by (auto simp: fun_eq_iff stamp_def tm_cont_def tm_val_def tm_own_def listSET_LIST_ITEM_OWNER_def
      listSET_LIST_ITEM_VALUE_def listGET_LIST_ITEM_VALUE_def)

lemma lrel_set_owner:
  assumes "lrel D s A"
  shows "lrel D (listSET_LIST_ITEM_OWNER x v s) A"
proof -
  have "klist l (listSET_LIST_ITEM_OWNER x v s) (A l)" if "l \<in> D" for l
  proof -
    obtain xs k where L: "A l = (xs, k)" by (cases "A l")
    have "klist l s (A l)" using assms that by (simp add: lrel_def)
    then have kl: "klist l s (xs, k)" using L by simp
    have "linked (nodes (listSET_LIST_ITEM_OWNER x v s)) (ring l xs)"
      by (rule linked_cong [of "nodes s"]) (use kl in \<open>auto simp: klist_iff listSET_LIST_ITEM_OWNER_def\<close>)
    then show ?thesis using kl L by (simp add: klist_iff listSET_LIST_ITEM_OWNER_def)
  qed
  then show ?thesis using assms by (auto simp: lrel_def listSET_LIST_ITEM_OWNER_def split: if_splits)
qed

lemma tm_stamp:
  assumes ok: "tmlists_ok D s" and c: "tm_cont s t = None"
  shows "tmlists_ok D (stamp t v s)"
proof -
  obtain A where A: "lrel UNIV s A" "\<And>l. sorted (map (tm_val s) (fst (A l)))" using ok by (auto simp: tmlists_ok_def)
  have "lrel UNIV (stamp t v s) A" unfolding stamp_def by (intro lrel_set_owner lrel_set_value A(1))
  moreover have "t \<notin> set (fst (A l))" for l using lrel_container [OF A(1), of l t] c by (simp add: tm_cont_def)
  then have "sorted (map (tm_val (stamp t v s)) (fst (A l)))" for l using A(2) by (simp add: sorted_value_upd)
  ultimately show ?thesis using ok by (auto simp: tmlists_ok_def)
qed

lemma tm_empty:
  assumes "tmlists_ok D s"
  shows "listLIST_IS_EMPTY l s \<longleftrightarrow> (\<forall>t. tm_cont s t \<noteq> Some l)"
proof -
  obtain A where A: "lrel UNIV s A" using assms by (auto simp: tmlists_ok_def)
  have "listLIST_IS_EMPTY l s \<longleftrightarrow> fst (A l) = []" by (rule klist_length(1) [OF lrel_list [OF A UNIV_I]])
  then show ?thesis using lrel_container [OF A UNIV_I, of _ l] by (cases "fst (A l)") (auto simp: tm_cont_def)
qed

lemma tm_head:
  assumes ok: "tmlists_ok D s" and "\<not> listLIST_IS_EMPTY l s"
  shows "\<exists>t. tm_cont s t = Some l \<and> listGET_OWNER_OF_HEAD_ENTRY l s = t \<and> listGET_ITEM_VALUE_OF_HEAD_ENTRY l s = tm_val s t \<and>
    (\<forall>u. tm_cont s u = Some l \<longrightarrow> tm_val s t \<le> tm_val s u)"
proof -
  obtain A where A: "lrel UNIV s A" "\<And>l. sorted (map (tm_val s) (fst (A l)))" using ok by (auto simp: tmlists_ok_def)
  note k = lrel_list [OF A(1) UNIV_I, of l]
  have ne: "fst (A l) \<noteq> []" using assms(2) klist_length(1) [OF k] by blast
  let ?t = "hd (fst (A l))"
  have c: "tm_cont s ?t = Some l" using lrel_container [OF A(1) UNIV_I] ne by (simp add: tm_cont_def)
  have "listGET_OWNER_OF_HEAD_ENTRY l s = ?t" using klist_head(1) [OF k ne] ok c by (simp add: tmlists_ok_def tm_own_def)
  moreover have "listGET_ITEM_VALUE_OF_HEAD_ENTRY l s = tm_val s ?t" using klist_head(2) [OF k ne] by (simp add: tm_val_def)
  moreover have "tm_val s ?t \<le> tm_val s u" if "tm_cont s u = Some l" for u
  proof -
    have "u \<in> set (fst (A l))" using lrel_container [OF A(1) UNIV_I] that by (simp add: tm_cont_def)
    then show ?thesis using A(2) [of l] ne by (cases "fst (A l)") auto
  qed
  ultimately show ?thesis using c by blast
qed

end
