(* ===== verification/TimersSpec.thy ===== *)
theory TimersSpec
  imports TimersInv
begin

text \<open>
  The timer service against its specification: every timer has a due time on a time line without
  overflow, and serving it late makes up for the periods that have passed, without drift.
\<close>

subsection \<open>The specification of one timer\<close>

text \<open>A timer with period \<open>p\<close>, \<open>a\<close> if it reloads itself, due at \<open>d\<close>: how often it fires when it is served
  at \<open>n\<close>, and when it is due afterwards.\<close>

definition firings :: "bool \<Rightarrow> nat \<Rightarrow> nat \<Rightarrow> nat option \<Rightarrow> nat" where
  "firings a p n d = (case d of None \<Rightarrow> 0 | Some x \<Rightarrow> if n < x then 0 else if a then Suc ((n - x) div p) else 1)"

definition next_due :: "bool \<Rightarrow> nat \<Rightarrow> nat \<Rightarrow> nat option \<Rightarrow> nat option" where
  "next_due a p n d = (case d of None \<Rightarrow> None
     | Some x \<Rightarrow> if n < x then Some x else if a then Some (x + Suc ((n - x) div p) * p) else None)"

lemma next_due_simps [simp]:
  "next_due a p n None = None" "firings a p n None = 0"
  "n < x \<Longrightarrow> next_due a p n (Some x) = Some x" "n < x \<Longrightarrow> firings a p n (Some x) = 0"
  by (simp_all add: next_due_def firings_def)

lemma next_due_later:
  assumes "0 < p" and "next_due a p n d = Some y"
  shows "n < y"
proof (cases d)
  case (Some x)
  have "n < x + Suc ((n - x) div p) * p" if "x \<le> n"
    using that dividend_less_div_times [OF assms(1), of "n - x"] by simp
  then show ?thesis using assms(2) Some by (auto simp: next_due_def split: if_splits)
qed (use assms in simp)

lemma div_add_periods:
  fixes p :: nat
  assumes "0 < p" and "x \<le> m" and "x + Suc ((m - x) div p) * p \<le> n"
  shows "Suc ((m - x) div p) + Suc ((n - (x + Suc ((m - x) div p) * p)) div p) = Suc ((n - x) div p)"
proof -
  let ?j = "Suc ((m - x) div p)"
  have "n - x = (n - (x + ?j * p)) + ?j * p" using assms(3) by simp
  then have "(n - x) div p = ((n - (x + ?j * p)) + ?j * p) div p" by simp
  also have "\<dots> = ?j + (n - (x + ?j * p)) div p" using assms(1) div_mult_self1 [of p "n - (x + ?j * p)" ?j] by simp
  finally show ?thesis by simp
qed

lemma div_same_period:
  fixes p :: nat
  assumes "0 < p" and "x \<le> m" "m \<le> n" and "n < x + Suc ((m - x) div p) * p"
  shows "(n - x) div p = (m - x) div p"
proof (rule antisym)
  have "n - x < Suc ((m - x) div p) * p" using assms by linarith
  then have "(n - x) div p < Suc ((m - x) div p)" by (rule less_mult_imp_div_less)
  then show "(n - x) div p \<le> (m - x) div p" by simp
  show "(m - x) div p \<le> (n - x) div p" using assms by (intro div_le_mono) simp
qed

text \<open>Serving a timer late or in several steps makes no difference: nothing is lost and nothing drifts.\<close>

lemma next_due_compose:
  assumes "0 < p" and "m \<le> n"
  shows "next_due a p n (next_due a p m d) = next_due a p n d"
    "firings a p m d + firings a p n (next_due a p m d) = firings a p n d"
proof -
  have "next_due a p n (next_due a p m d) = next_due a p n d
    \<and> firings a p m d + firings a p n (next_due a p m d) = firings a p n d"
  proof (cases d)
    case (Some x)
    consider "m < x" | "x \<le> m" "\<not> a" | "x \<le> m" "a" "n < x + Suc ((m - x) div p) * p"
      | "x \<le> m" "a" "x + Suc ((m - x) div p) * p \<le> n" by linarith
    then show ?thesis
    proof cases
      case 3
      then show ?thesis
        using div_same_period [OF assms(1) 3(1) assms(2) 3(3)] assms(2) by (simp add: Some next_due_def firings_def)
    next
      case 4
      let ?y = "x + Suc ((m - x) div p) * p"
      have "(Suc ((m - x) div p) + Suc ((n - ?y) div p)) * p = Suc ((n - x) div p) * p"
        using div_add_periods [OF assms(1) 4(1,3)] by simp
      then have "?y + Suc ((n - ?y) div p) * p = x + Suc ((n - x) div p) * p" by (simp add: distrib_right)
      moreover have "x \<le> n" using 4 assms(2) by simp
      ultimately show ?thesis
        using div_add_periods [OF assms(1) 4(1,3)] 4 by (simp add: Some next_due_def firings_def del: mult_Suc)
    qed (use assms(2) in \<open>simp_all add: Some next_due_def firings_def\<close>)
  qed simp
  then show "next_due a p n (next_due a p m d) = next_due a p n d"
    "firings a p m d + firings a p n (next_due a p m d) = firings a p n d" by simp_all
qed

subsection \<open>The abstraction\<close>

text \<open>\<open>I\<close> is an invariant of the kernel and its queues, \<open>D\<close> the set of existing timers, \<open>X\<close> those of them
  whose status is being changed; a timer is marked active when it is on a list.  \<open>e\<close> is the epoch the current list belongs to; the overflow list belongs to the next one.\<close>

definition due :: "nat \<Rightarrow> tmsys \<Rightarrow> u32 \<Rightarrow> nat option" where
  "due e st t = map_option (\<lambda>l. (if l = pxCurrentTimerList st then e else Suc e) * epoch_length + unat (tm_val (tls st) t))
     (tm_cont (tls st) t)"

abbreviation period :: "tmsys \<Rightarrow> u32 \<Rightarrow> nat" where
  "period st t \<equiv> unat (xTimerPeriodInTicks (tmr st t))"

definition tm_inv :: "(qsys \<Rightarrow> bool) \<Rightarrow> u32 set \<Rightarrow> u32 set \<Rightarrow> tmsys \<Rightarrow> bool" where
  "tm_inv I D X st \<longleftrightarrow> I (tm_sys st) \<and> tmlists_ok D (tls st) \<and> pxCurrentTimerList st \<noteq> pxOverflowTimerList st \<and>
     (\<forall>t\<in>D. 0 < period st t \<and> (t \<notin> X \<longrightarrow> (xTimerIsTimerActive t st \<longleftrightarrow> tm_cont (tls st) t \<noteq> None)))"

abbreviation tm_ok :: "(qsys \<Rightarrow> bool) \<Rightarrow> u32 set \<Rightarrow> tmsys \<Rightarrow> bool" where "tm_ok I D \<equiv> tm_inv I D {}"

lemma tlist_other:
  assumes "pxCurrentTimerList st \<noteq> pxOverflowTimerList st"
  shows "l \<noteq> pxCurrentTimerList st \<longleftrightarrow> l = pxOverflowTimerList st"
  using assms by (cases l; cases "pxCurrentTimerList st"; cases "pxOverflowTimerList st") auto

lemma due_cong:
  assumes "tls st' = tls st" and "pxCurrentTimerList st' = pxCurrentTimerList st"
  shows "due e st' = due e st"
  by (simp add: fun_eq_iff due_def assms)

lemma due_None: "due e st t = None \<longleftrightarrow> tm_cont (tls st) t = None"
  by (simp add: due_def)

lemma due_frame [simp]:
  "due e (st\<lparr>tm_sys := sys\<rparr>) = due e st" "due e (st\<lparr>calls := cs\<rparr>) = due e st"
  "due e (st\<lparr>tm_sys := sys, tls := s\<rparr>) = due e (st\<lparr>tls := s\<rparr>)"
  "due e (st\<lparr>calls := cs, tls := s\<rparr>) = due e (st\<lparr>tls := s\<rparr>)"
  "due e (st\<lparr>calls := cs, tm_sys := sys, tls := s\<rparr>) = due e (st\<lparr>tls := s\<rparr>)"
  "due e (st\<lparr>tmr := T\<rparr>) = due e st" "due e (st\<lparr>xLastTime := v\<rparr>) = due e st"
  "due e (st\<lparr>tls := s, tmr := T\<rparr>) = due e (st\<lparr>tls := s\<rparr>)"
  by (simp_all add: fun_eq_iff due_def)

lemma due_stamp: "tm_cont (tls st) t = None \<Longrightarrow> due e (st\<lparr>tls := stamp t v (tls st)\<rparr>) = due e st"
  by (simp add: fun_eq_iff due_def)

subsection \<open>Inserting a timer\<close>

lemma insert_timer:
  assumes ok: "tmlists_ok D (tls st)" and ne: "pxCurrentTimerList st \<noteq> pxOverflowTimerList st"
    and t: "tm_cont (tls st) t = None" "t \<in> D" and time: "c \<le> n" "n < c + epoch_length"
  defines "p \<equiv> period st t"
  defines "st1 \<equiv> st\<lparr>tls := stamp t (w32 (c + p)) (tls st)\<rparr>"
  shows "c + p \<le> n \<Longrightarrow> prvInsertTimerInActiveList t (w32 (c + p)) (w32 n) (w32 c) st = Some (True, st1)"
    "n < c + p \<Longrightarrow> \<exists>s'. prvInsertTimerInActiveList t (w32 (c + p)) (w32 n) (w32 c) st = Some (False, st\<lparr>tls := s'\<rparr>) \<and>
       tmlists_ok D s' \<and> tm_cont s' t \<noteq> None \<and> due (n div epoch_length) (st\<lparr>tls := s'\<rparr>) = (due (n div epoch_length) st)(t \<mapsto> c + p)"
proof -
  let ?P = epoch_length and ?v = "w32 (c + p)"
  have p: "p < ?P" using unat_u32_less [of "xTimerPeriodInTicks (tmr st t)"] by (simp add: p_def)
  have le: "w32 x \<le> w32 y \<longleftrightarrow> x mod ?P \<le> y mod ?P" for x y by (simp add: word_le_nat_alt unat_w32_mod)
  have lt: "w32 x < w32 y \<longleftrightarrow> x mod ?P < y mod ?P" for x y by (simp add: word_less_nat_alt unat_w32_mod)
  have per: "xTimerPeriodInTicks (tmr st1 t) \<le> w32 n - w32 c \<longleftrightarrow> c + p \<le> n"
    using time by (simp add: w32_diff word_le_nat_alt st1_def p_def) linarith
  note def = prvInsertTimerInActiveList_def [of t ?v "w32 n" "w32 c" st, folded stamp_def, folded st1_def, unfolded Let_def per le lt]
  show "prvInsertTimerInActiveList t ?v (w32 n) (w32 c) st = Some (True, st1)" if "c + p \<le> n"
    using that expiry_passed [of ?P c n p] time by (simp add: def)
  have s1: "tls st1 = stamp t ?v (tls st)" "pxCurrentTimerList st1 = pxCurrentTimerList st"
    "pxOverflowTimerList st1 = pxOverflowTimerList st" by (simp_all add: st1_def)
  show "\<exists>s'. prvInsertTimerInActiveList t ?v (w32 n) (w32 c) st = Some (False, st\<lparr>tls := s'\<rparr>) \<and>
       tmlists_ok D s' \<and> tm_cont s' t \<noteq> None \<and> due (n div ?P) (st\<lparr>tls := s'\<rparr>) = (due (n div ?P) st)(t \<mapsto> c + p)" if a: "n < c + p"
  proof -
    note ahead = expiry_ahead [of ?P c n p, OF _ time(1) p a, simplified]
    let ?l = "if (c + p) mod ?P \<le> n mod ?P then pxOverflowTimerList st else pxCurrentTimerList st"
    obtain s' where s': "vListInsert ?l t (stamp t ?v (tls st)) = Some s'" "tmlists_ok D s'"
      "tm_cont s' = (tm_cont (tls st))(t := Some ?l)" "tm_val s' = (tm_val (tls st))(t := ?v)"
      using tm_insert [OF tm_stamp [OF ok t(1), of ?v], of t ?l] t by auto
    have "prvInsertTimerInActiveList t ?v (w32 n) (w32 c) st = Some (False, st\<lparr>tls := s'\<rparr>)"
      using s'(1) ahead(2) a by (auto simp: def s1 st1_def split: if_splits)
    moreover have "(c + p) div ?P * ?P + (c + p) mod ?P = c + p" by simp
    then have "(if ?l = pxCurrentTimerList st then n div ?P else Suc (n div ?P)) * ?P + unat ?v = c + p"
      using ne unfolding ahead(1) by (simp add: unat_w32_mod split: if_splits)
    then have "due (n div ?P) (st\<lparr>tls := s'\<rparr>) = (due (n div ?P) st)(t \<mapsto> c + p)"
      using ne by (simp add: fun_eq_iff due_def s'(3,4) split: if_splits)
    ultimately show ?thesis using s'(2,3) by (intro exI [of _ s'] conjI) simp_all
  qed
qed

subsection \<open>Callbacks\<close>

text \<open>A callback that leaves the timer service's own data alone: it uses the kernel, and thereby the command
  queue, as the documentation asks, and keeps the invariant \<open>I\<close> of these.\<close>

definition quiet :: "(qsys \<Rightarrow> bool) \<Rightarrow> callback \<Rightarrow> bool" where
  "quiet I cb \<longleftrightarrow> (\<forall>f t st. I (tm_sys st) \<longrightarrow> (\<exists>sys. I sys \<and> cb f t st = Some (st\<lparr>tm_sys := sys\<rparr>)))"

lemma call_timer_quiet:
  assumes "quiet I cb" and "I (tm_sys st)"
  shows "\<exists>sys. I sys \<and> call_timer cb t st = Some (st\<lparr>calls := calls st @ [t], tm_sys := sys\<rparr>)"
  using assms by (simp add: quiet_def call_timer_def)

subsection \<open>Reloading a timer\<close>

lemma reload_timer:
  assumes cb: "quiet I cb" and sys: "I (tm_sys st)" and ok: "tmlists_ok D (tls st)" and ne: "pxCurrentTimerList st \<noteq> pxOverflowTimerList st"
    and t: "tm_cont (tls st) t = None" "t \<in> D" "0 < period st t" and time: "x \<le> n" "n < x + epoch_length"
  shows "\<exists>sys s'. prvReloadTimer cb t (w32 x) (w32 n) st =
      Some (st\<lparr>tm_sys := sys, tls := s', calls := calls st @ replicate ((n - x) div period st t) t\<rparr>) \<and>
    I sys \<and> tmlists_ok D s' \<and> tm_cont s' t \<noteq> None \<and>
    due (n div epoch_length) (st\<lparr>tls := s'\<rparr>) = (due (n div epoch_length) st)(t \<mapsto> x + Suc ((n - x) div period st t) * period st t)"
  using ok ne t time sys
proof (induction "n - x" arbitrary: x st rule: less_induct)
  case less
  let ?p = "period st t" and ?e = "n div epoch_length"
  have v: "w32 x + xTimerPeriodInTicks (tmr st t) = w32 (x + ?p)" by (metis w32_add w32_unat)
  show ?case
  proof (cases "x + ?p \<le> n")
    case True
    let ?st1 = "st\<lparr>tls := stamp t (w32 (x + ?p)) (tls st)\<rparr>"
    obtain sys where sys: "I sys" "call_timer cb t ?st1 = Some (?st1\<lparr>calls := calls st @ [t], tm_sys := sys\<rparr>)"
      using call_timer_quiet [where st = ?st1, OF cb, of t] less.prems(8) by auto
    let ?st2 = "?st1\<lparr>calls := calls st @ [t], tm_sys := sys\<rparr>"
    have step: "prvReloadTimer cb t (w32 x) (w32 n) st = prvReloadTimer cb t (w32 (x + ?p)) (w32 n) ?st2"
      by (subst prvReloadTimer.simps) (simp add: v insert_timer(1) [OF less.prems(1-4,6,7) True] sys(2))
    have le: "n - (x + ?p) < n - x" using True less.prems(5) by simp
    obtain sys' s' where r: "prvReloadTimer cb t (w32 (x + ?p)) (w32 n) ?st2 =
        Some (?st2\<lparr>tm_sys := sys', tls := s', calls := calls ?st2 @ replicate ((n - (x + ?p)) div ?p) t\<rparr>)"
      "I sys'" "tmlists_ok D s'" "tm_cont s' t \<noteq> None"
      "due ?e (?st2\<lparr>tls := s'\<rparr>) = (due ?e ?st2)(t \<mapsto> x + ?p + Suc ((n - (x + ?p)) div ?p) * ?p)"
      using less.hyps [OF le, of ?st2] tm_stamp [OF less.prems(1,3)] less.prems True sys(1) by auto
    have k: "(n - x) div ?p = Suc ((n - (x + ?p)) div ?p)"
      using True less.prems(5) by (simp add: div_if)
    have c: "calls ?st2 @ replicate ((n - (x + ?p)) div ?p) t = calls st @ replicate ((n - x) div ?p) t" by (simp add: k)
    show ?thesis unfolding step r(1) c
      by (intro exI [of _ sys'] exI [of _ s'] conjI) (use r(2-5) in \<open>simp_all add: due_stamp [OF less.prems(3)] k add.assoc\<close>)
  next
    case False
    then have "n < x + ?p" by simp
    from insert_timer(2) [OF less.prems(1-4,6,7) this]
    obtain s' where s': "prvInsertTimerInActiveList t (w32 (x + ?p)) (w32 n) (w32 x) st = Some (False, st\<lparr>tls := s'\<rparr>)"
      "tmlists_ok D s'" "tm_cont s' t \<noteq> None" "due ?e (st\<lparr>tls := s'\<rparr>) = (due ?e st)(t \<mapsto> x + ?p)" by blast
    have "n - x < ?p" using False less.prems(5) by linarith
    then have "(n - x) div ?p = 0" by simp
    moreover have "prvReloadTimer cb t (w32 x) (w32 n) st = Some (st\<lparr>tls := s'\<rparr>)"
      by (subst prvReloadTimer.simps) (simp add: v s'(1))
    ultimately show ?thesis by (intro exI [of _ "tm_sys st"] exI [of _ s'] conjI) (simp_all add: s'(2-4) less.prems(8))
  qed
qed

subsection \<open>Serving the first timer of the list\<close>

lemma status_bits [simp]:
  fixes s :: u8
  shows "(s AND NOT tmrSTATUS_IS_ACTIVE) AND tmrSTATUS_IS_AUTORELOAD = s AND tmrSTATUS_IS_AUTORELOAD"
    "(s OR tmrSTATUS_IS_ACTIVE) AND tmrSTATUS_IS_AUTORELOAD = s AND tmrSTATUS_IS_AUTORELOAD"
    "(s AND NOT tmrSTATUS_IS_ACTIVE) AND tmrSTATUS_IS_ACTIVE = 0"
    "(s OR tmrSTATUS_IS_ACTIVE) AND tmrSTATUS_IS_ACTIVE \<noteq> 0"
proof -
  have b: "NOT 1 AND (4 :: u8) = 4" "NOT 1 AND (1 :: u8) = 0" "(1 :: u8) AND 4 = 0" by simp_all
  show "(s AND NOT tmrSTATUS_IS_ACTIVE) AND tmrSTATUS_IS_AUTORELOAD = s AND tmrSTATUS_IS_AUTORELOAD"
    "(s AND NOT tmrSTATUS_IS_ACTIVE) AND tmrSTATUS_IS_ACTIVE = 0"
    unfolding tmrSTATUS_IS_ACTIVE_def tmrSTATUS_IS_AUTORELOAD_def and.assoc b by simp_all
  show "(s OR tmrSTATUS_IS_ACTIVE) AND tmrSTATUS_IS_AUTORELOAD = s AND tmrSTATUS_IS_AUTORELOAD"
    unfolding tmrSTATUS_IS_ACTIVE_def tmrSTATUS_IS_AUTORELOAD_def bit.conj_disj_distrib2 b by simp
  have "bit ((s OR tmrSTATUS_IS_ACTIVE) AND tmrSTATUS_IS_ACTIVE) 0"
    by (simp add: tmrSTATUS_IS_ACTIVE_def bit_and_iff bit_or_iff)
  then show "(s OR tmrSTATUS_IS_ACTIVE) AND tmrSTATUS_IS_ACTIVE \<noteq> 0" by (metis bit_0_eq bot_apply bot_bool_def)
qed

lemma status_active_nonzero [simp]: "tmrSTATUS_IS_ACTIVE \<noteq> 0" by (simp add: tmrSTATUS_IS_ACTIVE_def)

text \<open>What serving timers leaves alone.\<close>

definition tm_frame :: "tmsys \<Rightarrow> tmsys \<Rightarrow> bool" where
  "tm_frame st st' \<longleftrightarrow> pxCurrentTimerList st' = pxCurrentTimerList st \<and> pxOverflowTimerList st' = pxOverflowTimerList st \<and>
     xTimerQueue st' = xTimerQueue st \<and> xTimerTaskHandle st' = xTimerTaskHandle st \<and> xLastTime st' = xLastTime st \<and>
     freed st' = freed st \<and>
     (\<forall>u. xTimerPeriodInTicks (tmr st' u) = xTimerPeriodInTicks (tmr st u) \<and> xTimerGetReloadMode u st' = xTimerGetReloadMode u st)"

lemma tm_frame_refl [simp]: "tm_frame st st" by (simp add: tm_frame_def)
lemma tm_frame_trans: "tm_frame a b \<Longrightarrow> tm_frame b c \<Longrightarrow> tm_frame a c" by (simp add: tm_frame_def)

text \<open>Serving one timer, all others being left as they are.\<close>

definition served :: "nat \<Rightarrow> nat \<Rightarrow> u32 \<Rightarrow> tmsys \<Rightarrow> tmsys \<Rightarrow> bool" where
  "served e n t st st' \<longleftrightarrow>
     due e st' = (due e st)(t := next_due (xTimerGetReloadMode t st) (period st t) n (due e st t)) \<and>
     calls st' = calls st @ replicate (firings (xTimerGetReloadMode t st) (period st t) n (due e st t)) t"

lemma head_timer:
  assumes ok: "tm_inv I D X st" and ne: "\<not> listLIST_IS_EMPTY (pxCurrentTimerList st) (tls st)"
  shows "\<exists>t x. listGET_OWNER_OF_HEAD_ENTRY (pxCurrentTimerList st) (tls st) = t \<and>
    listGET_ITEM_VALUE_OF_HEAD_ENTRY (pxCurrentTimerList st) (tls st) = w32 x \<and> x div epoch_length = e \<and>
    tm_cont (tls st) t = Some (pxCurrentTimerList st) \<and> due e st t = Some x \<and> (\<forall>u y. due e st u = Some y \<longrightarrow> x \<le> y)"
proof -
  let ?c = "pxCurrentTimerList st"
  obtain t where t: "tm_cont (tls st) t = Some ?c" "listGET_OWNER_OF_HEAD_ENTRY ?c (tls st) = t"
    "listGET_ITEM_VALUE_OF_HEAD_ENTRY ?c (tls st) = tm_val (tls st) t"
    "\<And>u. tm_cont (tls st) u = Some ?c \<Longrightarrow> tm_val (tls st) t \<le> tm_val (tls st) u"
    using tm_head [OF _ ne] ok by (auto simp: tm_inv_def)
  let ?v = "unat (tm_val (tls st) t)"
  let ?x = "e * epoch_length + ?v"
  have v: "?v < epoch_length" using unat_u32_less [of "tm_val (tls st) t"] by simp
  have "unat (w32 ?x) = ?v" using v by (simp add: unat_w32_mod)
  then have "tm_val (tls st) t = w32 ?x" by (metis w32_unat)
  moreover have "due e st t = Some ?x" by (simp add: due_def t(1))
  moreover have "?x \<le> y" if d: "due e st u = Some y" for u y
  proof -
    obtain l where l: "tm_cont (tls st) u = Some l"
      "y = (if l = ?c then e else Suc e) * epoch_length + unat (tm_val (tls st) u)"
      using d unfolding due_def map_option_eq_Some by blast
    show ?thesis
    proof (cases "l = ?c")
      case True
      then show ?thesis using l t(4) [of u] by (simp add: word_le_nat_alt)
    next
      case False
      then show ?thesis using l(2) v by simp
    qed
  qed
  moreover have "?x div epoch_length = e" using v by simp
  ultimately show ?thesis using t(1-3) by (intro exI [of _ t] exI [of _ ?x]) simp
qed

lemma expired_timer:
  assumes cb: "quiet I cb" and ok: "tm_inv I D X st" and n: "n div epoch_length = e"
    and t: "listGET_OWNER_OF_HEAD_ENTRY (pxCurrentTimerList st) (tls st) = t"
      "tm_cont (tls st) t = Some (pxCurrentTimerList st)" "due e st t = Some x"
    and x: "x \<le> n" "x div epoch_length = e"
  shows "\<exists>st'. prvProcessExpiredTimer cb (w32 x) (w32 n) st = Some st' \<and> tm_inv I D X st' \<and> tm_frame st st' \<and> served e n t st st'"
proof -
  note ok' = ok [unfolded tm_inv_def]
  have sys: "I (tm_sys st)" and ls: "tmlists_ok D (tls st)" and ne: "pxCurrentTimerList st \<noteq> pxOverflowTimerList st"
    and act: "u \<in> D \<Longrightarrow> 0 < period st u" "u \<in> D \<Longrightarrow> u \<notin> X \<Longrightarrow> xTimerIsTimerActive u st \<longleftrightarrow> tm_cont (tls st) u \<noteq> None" for u
    using ok' by simp_all
  have D: "t \<in> D" using ls t(2) by (simp add: tmlists_ok_def)
  note p = act(1) [OF D]
  obtain k s where s: "uxListRemove t (tls st) = Some (k, s)" "tmlists_ok D s"
    "tm_cont s = (tm_cont (tls st))(t := None)" "tm_val s = tm_val (tls st)"
    using tm_remove [OF ls t(2)] by blast
  let ?st1 = "st\<lparr>tls := s\<rparr>" and ?a = "xTimerGetReloadMode t st" and ?p = "period st t"
  have d1: "due e ?st1 = (due e st)(t := None)" by (simp add: fun_eq_iff due_def s(3,4))
  have near: "n < x + epoch_length"
    using x(2) n div_mult_mod_eq [of n epoch_length] div_mult_mod_eq [of x epoch_length]
      mod_less_divisor [of epoch_length n] by simp
  show ?thesis
  proof (cases ?a)
    case True
    then have a: "ucStatus (tmr st t) AND tmrSTATUS_IS_AUTORELOAD \<noteq> 0" by (simp add: xTimerGetReloadMode_def)
    obtain sys s' where r: "prvReloadTimer cb t (w32 x) (w32 n) ?st1 =
        Some (?st1\<lparr>tm_sys := sys, tls := s', calls := calls ?st1 @ replicate ((n - x) div period ?st1 t) t\<rparr>)"
      "I sys" "tmlists_ok D s'" "tm_cont s' t \<noteq> None"
      "due (n div epoch_length) (?st1\<lparr>tls := s'\<rparr>) =
         (due (n div epoch_length) ?st1)(t \<mapsto> x + Suc ((n - x) div period ?st1 t) * period ?st1 t)"
      using reload_timer [OF cb, of ?st1 D t x n] s ne D p x(1) near sys by auto
    let ?st2 = "st\<lparr>tm_sys := sys, tls := s', calls := calls st @ replicate ((n - x) div ?p) t\<rparr>"
    have r': "prvReloadTimer cb t (w32 x) (w32 n) ?st1 = Some ?st2" using r(1) by simp
    obtain sys' where c: "I sys'" "call_timer cb t ?st2 = Some (?st2\<lparr>calls := calls ?st2 @ [t], tm_sys := sys'\<rparr>)"
      using call_timer_quiet [where st = ?st2, OF cb, of t] r(2) by auto
    let ?st3 = "?st2\<lparr>calls := calls ?st2 @ [t], tm_sys := sys'\<rparr>"
    have run: "prvProcessExpiredTimer cb (w32 x) (w32 n) st = Some ?st3"
      unfolding prvProcessExpiredTimer_def t(1) Let_def using a c(2) r' by (simp add: s(1))
    have d: "due e (st\<lparr>tls := s'\<rparr>) = (due e st)(t \<mapsto> x + Suc ((n - x) div ?p) * ?p)"
      using r(5) by (simp add: n d1 due_def fun_eq_iff)
    have cont: "tm_cont s' u \<noteq> None \<longleftrightarrow> tm_cont (tls st) u \<noteq> None" for u
      using arg_cong [OF fun_cong [OF d, of u], of "\<lambda>d. d = None"] t(2) by (cases "u = t") (simp_all add: due_None)
    have "tm_inv I D X ?st3"
      using r(3) c(1) ne act cont by (simp add: tm_inv_def xTimerIsTimerActive_def)
    moreover have "tm_frame st ?st3" by (simp add: tm_frame_def xTimerGetReloadMode_def)
    moreover have "served e n t st ?st3"
      using True x(1) by (simp add: served_def d t(3) next_due_def firings_def replicate_append_same)
    ultimately show ?thesis using run by blast
  next
    case False
    then have a: "ucStatus (tmr st t) AND tmrSTATUS_IS_AUTORELOAD = 0" by (simp add: xTimerGetReloadMode_def)
    let ?st2 = "set_status t (ucStatus (tmr st t) AND NOT tmrSTATUS_IS_ACTIVE) ?st1"
    note set = set_status_def set_timer_def
    obtain sys' where c: "I sys'" "call_timer cb t ?st2 = Some (?st2\<lparr>calls := calls ?st2 @ [t], tm_sys := sys'\<rparr>)"
      using call_timer_quiet [where st = ?st2, OF cb, of t] sys by (auto simp: set)
    let ?st3 = "?st2\<lparr>calls := calls ?st2 @ [t], tm_sys := sys'\<rparr>"
    have run: "prvProcessExpiredTimer cb (w32 x) (w32 n) st = Some ?st3"
      unfolding prvProcessExpiredTimer_def t(1) Let_def using a c(2) by (simp add: s(1))
    have "tm_inv I D X ?st3"
      using s(2,3) c(1) ne act by (auto simp: tm_inv_def xTimerIsTimerActive_def set)
    moreover have "tm_frame st ?st3" by (auto simp: tm_frame_def xTimerGetReloadMode_def set)
    moreover have "served e n t st ?st3"
      using False x(1) by (simp add: served_def d1 t(3) next_due_def firings_def set)
    ultimately show ?thesis using run by blast
  qed
qed

subsection \<open>Keeping the schedule\<close>

text \<open>From time \<open>n\<close> on, a timer fires as often and at the same times in both states: the callbacks made
  and those still to come add up to the same number at every later time.\<close>

definition on_schedule :: "bool \<Rightarrow> nat \<Rightarrow> nat \<Rightarrow> nat \<Rightarrow> nat option \<Rightarrow> nat \<Rightarrow> nat option \<Rightarrow> bool" where
  "on_schedule a p n k d k' d' \<longleftrightarrow>
     k \<le> k' \<and> (\<forall>m\<ge>n. next_due a p m d' = next_due a p m d \<and> k' + firings a p m d' = k + firings a p m d)"

lemma on_schedule_refl [simp]: "on_schedule a p n k d k d" by (simp add: on_schedule_def)

lemma on_schedule_None:
  assumes "on_schedule a p n k None k' d'"
  shows "d' = None" "k' = k"
proof -
  have "k \<le> k'" "next_due a p n d' = None" "k' + firings a p n d' = k" using assms by (auto simp: on_schedule_def)
  then show "d' = None" by (cases d') (auto simp: next_due_def firings_def split: if_splits)
  with \<open>k' + firings a p n d' = k\<close> show "k' = k" by simp
qed

lemma on_schedule_trans:
  "on_schedule a p n k d k' d' \<Longrightarrow> on_schedule a p n k' d' k'' d'' \<Longrightarrow> on_schedule a p n k d k'' d''"
  by (simp add: on_schedule_def)

lemma on_schedule_later: "on_schedule a p n k d k' d' \<Longrightarrow> n \<le> m \<Longrightarrow> on_schedule a p m k d k' d'"
  by (simp add: on_schedule_def)

lemma on_schedule_next:
  assumes "0 < p"
  shows "on_schedule a p n k d (k + firings a p n d) (next_due a p n d)"
  using next_due_compose [OF assms] by (auto simp: on_schedule_def add.assoc)

definition same_schedule :: "nat \<Rightarrow> nat \<Rightarrow> nat \<Rightarrow> tmsys \<Rightarrow> tmsys \<Rightarrow> u32 \<Rightarrow> bool" where
  "same_schedule n e e' st st' u \<longleftrightarrow> on_schedule (xTimerGetReloadMode u st) (period st u) n
     (count_list (calls st) u) (due e st u) (count_list (calls st') u) (due e' st' u)"

lemma same_schedule_refl [simp]: "same_schedule n e e st st u" by (simp add: same_schedule_def)

lemma same_schedule_trans:
  assumes "same_schedule n e1 e2 st1 st2 u" and "tm_frame st1 st2" and "same_schedule n e2 e3 st2 st3 u"
  shows "same_schedule n e1 e3 st1 st3 u"
  using assms by (auto simp: same_schedule_def tm_frame_def intro: on_schedule_trans)

lemma count_list_replicate [simp]: "count_list (replicate k t) u = (if u = t then k else 0)"
  by (induction k) auto

lemma due_period:
  assumes "tm_inv I D X st" and "due e st u = Some x"
  shows "u \<in> D" "0 < period st u"
  using assms by (auto simp: tm_inv_def tmlists_ok_def due_def)

lemma served_schedule:
  assumes ok: "tm_inv I D X st" and s: "served e n t st st'"
  shows "same_schedule n e e st st' u"
proof (cases "due e st t")
  case None
  then have "due e st' = due e st" "calls st' = calls st" using s by (auto simp: served_def)
  then show ?thesis by (simp add: same_schedule_def)
next
  case (Some x)
  then show ?thesis
    using s on_schedule_next [OF due_period(2) [OF ok Some], of "xTimerGetReloadMode t st" n "count_list (calls st) t" "due e st t"]
    by (simp add: served_def same_schedule_def)
qed

text \<open>The current list holds the timers that are due in the epoch.\<close>

lemma due_epoch:
  assumes "due e st u = Some x"
  shows "tm_cont (tls st) u = Some (pxCurrentTimerList st) \<longleftrightarrow> x div epoch_length = e"
    "tm_cont (tls st) u \<noteq> Some (pxCurrentTimerList st) \<longleftrightarrow> x div epoch_length = Suc e"
proof -
  obtain l where l: "tm_cont (tls st) u = Some l"
    "x = (if l = pxCurrentTimerList st then e else Suc e) * epoch_length + unat (tm_val (tls st) u)"
    using assms unfolding due_def map_option_eq_Some by blast
  have "x div epoch_length = (if l = pxCurrentTimerList st then e else Suc e)"
    unfolding l(2) using unat_u32_less [of "tm_val (tls st) u"] by simp
  then show "tm_cont (tls st) u = Some (pxCurrentTimerList st) \<longleftrightarrow> x div epoch_length = e"
    "tm_cont (tls st) u \<noteq> Some (pxCurrentTimerList st) \<longleftrightarrow> x div epoch_length = Suc e" using l(1) by simp_all
qed

lemma on_current:
  "tm_cont (tls st) u = Some (pxCurrentTimerList st) \<longleftrightarrow> (\<exists>x. due e st u = Some x \<and> x div epoch_length = e)"
proof (cases "due e st u")
  case None
  then show ?thesis using due_None [of e st u] by simp
next
  case (Some x)
  then show ?thesis using due_epoch(1) [OF Some] by simp
qed

subsection \<open>Switching the lists\<close>

lemma switch_loop_run:
  fixes e :: nat
  assumes cb: "quiet I cb" and ok: "tm_inv I D X st"
  defines "b \<equiv> Suc e * epoch_length - 1"
  shows "\<exists>st'. switch_loop cb st = Some st' \<and> tm_inv I D X st' \<and> tm_frame st st' \<and> (\<forall>u. same_schedule b e e st st' u) \<and>
    listLIST_IS_EMPTY (pxCurrentTimerList st') (tls st')"
  using ok
proof (induction "card {u. tm_cont (tls st) u = Some (pxCurrentTimerList st)}" arbitrary: st rule: less_induct)
  case less
  show ?case
  proof (cases "listLIST_IS_EMPTY (pxCurrentTimerList st) (tls st)")
    case True
    then show ?thesis
      using less.prems by (subst switch_loop.simps) auto
  next
    case False
    have be: "b = e * epoch_length + 4294967295" by (simp add: b_def)
    have "unat (w32 b) = unat tmrMAX_TIME_BEFORE_OVERFLOW"
      unfolding be by (simp add: unat_w32_mod tmrMAX_TIME_BEFORE_OVERFLOW_def unsigned_minus_1_eq_mask mask_eq_exp_minus_1)
    then have b: "b div epoch_length = e" "w32 b = tmrMAX_TIME_BEFORE_OVERFLOW"
      unfolding be by (simp_all only: word_unat_eq_iff)
    obtain t x where t: "listGET_OWNER_OF_HEAD_ENTRY (pxCurrentTimerList st) (tls st) = t"
      "listGET_ITEM_VALUE_OF_HEAD_ENTRY (pxCurrentTimerList st) (tls st) = w32 x" "x div epoch_length = e"
      "tm_cont (tls st) t = Some (pxCurrentTimerList st)" "due e st t = Some x"
      using head_timer [OF less.prems False] by blast
    have "x \<le> b" using t(3) mod_less_divisor [of epoch_length x] div_mult_mod_eq [of x epoch_length] by (simp add: b_def)
    then obtain st1 where st1: "prvProcessExpiredTimer cb (w32 x) (w32 b) st = Some st1" "tm_inv I D X st1" "tm_frame st st1"
      "served e b t st st1"
      using expired_timer [OF cb less.prems b(1) t(1,4,5) _ t(3)] by blast
    have gone: "tm_cont (tls st1) t \<noteq> Some (pxCurrentTimerList st1)"
    proof
      assume "tm_cont (tls st1) t = Some (pxCurrentTimerList st1)"
      then obtain y where y: "due e st1 t = Some y" "y div epoch_length = e" using on_current [of st1 t e] by blast
      then have "b < y"
        using st1(4) next_due_later [OF due_period(2) [OF less.prems t(5)]] by (auto simp: served_def)
      then show False
        using y(2) mod_less_divisor [of epoch_length y] div_mult_mod_eq [of y epoch_length] by (simp add: b_def)
    qed
    have "{u. tm_cont (tls st1) u = Some (pxCurrentTimerList st1)} \<subseteq> {u. tm_cont (tls st) u = Some (pxCurrentTimerList st)} - {t}"
      using gone st1(4) by (auto simp: on_current [where e = e] served_def split: if_splits)
    then have "card {u. tm_cont (tls st1) u = Some (pxCurrentTimerList st1)} < card {u. tm_cont (tls st) u = Some (pxCurrentTimerList st)}"
      using t(4) by (intro psubset_card_mono) auto
    from less.hyps [OF this st1(2)] obtain st' where st': "switch_loop cb st1 = Some st'" "tm_inv I D X st'" "tm_frame st1 st'"
      "\<And>u. same_schedule b e e st1 st' u" "listLIST_IS_EMPTY (pxCurrentTimerList st') (tls st')" by blast
    have run: "switch_loop cb st = Some st'"
      using False st1(1) st'(1) by (subst switch_loop.simps) (simp add: t(2) b(2))
    have "same_schedule b e e st st' u" for u
      by (rule same_schedule_trans [OF served_schedule [OF less.prems st1(4)] st1(3) st'(4)])
    then show ?thesis using run st'(2,5) tm_frame_trans [OF st1(3) st'(3)] by blast
  qed
qed

text \<open>With nothing left on it, the list of the past epoch becomes the list of the next.\<close>

lemma switch_lists_run:
  assumes "quiet I cb" and "tm_inv I D X st"
  shows "\<exists>st'. prvSwitchTimerLists cb st = Some st' \<and> tm_inv I D X st' \<and>
    tm_frame (st\<lparr>pxCurrentTimerList := pxOverflowTimerList st, pxOverflowTimerList := pxCurrentTimerList st\<rparr>) st' \<and>
    (\<forall>u. same_schedule (Suc e * epoch_length - 1) e (Suc e) st st' u)"
proof -
  obtain st1 where st1: "switch_loop cb st = Some st1" "tm_inv I D X st1" "tm_frame st st1"
    "\<And>u. same_schedule (Suc e * epoch_length - 1) e e st st1 u" "listLIST_IS_EMPTY (pxCurrentTimerList st1) (tls st1)"
    using switch_loop_run [OF assms] by blast
  let ?st' = "st1\<lparr>pxCurrentTimerList := pxOverflowTimerList st1, pxOverflowTimerList := pxCurrentTimerList st1\<rparr>"
  have none: "tm_cont (tls st1) u \<noteq> Some (pxCurrentTimerList st1)" for u
    using tm_empty [of D "tls st1" "pxCurrentTimerList st1"] st1(2,5) by (auto simp: tm_inv_def)
  then have cont: "tm_cont (tls st1) u = Some l \<Longrightarrow> l = pxOverflowTimerList st1" for u l
    using tlist_other [of st1 l] st1(2) by (auto simp: tm_inv_def)
  have d: "due (Suc e) ?st' u = due e st1 u" for u
    using none [of u] cont [of u] st1(2) by (cases "tm_cont (tls st1) u") (auto simp: due_def tm_inv_def)
  have "prvSwitchTimerLists cb st = Some ?st'" by (simp add: prvSwitchTimerLists_def st1(1))
  moreover have "tm_inv I D X ?st'" using st1(2) by (auto simp: tm_inv_def xTimerIsTimerActive_def)
  moreover have "tm_frame (st\<lparr>pxCurrentTimerList := pxOverflowTimerList st, pxOverflowTimerList := pxCurrentTimerList st\<rparr>) ?st'"
    using st1(3) by (simp add: tm_frame_def xTimerGetReloadMode_def)
  moreover have "same_schedule (Suc e * epoch_length - 1) e (Suc e) st ?st' u" for u
    using st1(4) [of u] by (simp add: same_schedule_def d)
  ultimately show ?thesis by blast
qed

subsection \<open>Reading the time\<close>

text \<open>What commands leave alone as well.\<close>

definition tm_keep :: "tmsys \<Rightarrow> tmsys \<Rightarrow> bool" where
  "tm_keep st st' \<longleftrightarrow> xTimerQueue st' = xTimerQueue st \<and> xTimerTaskHandle st' = xTimerTaskHandle st \<and>
     (\<forall>u. xTimerPeriodInTicks (tmr st' u) = xTimerPeriodInTicks (tmr st u) \<and> xTimerGetReloadMode u st' = xTimerGetReloadMode u st)"

lemma tm_keep_trans: "tm_keep a b \<Longrightarrow> tm_keep b c \<Longrightarrow> tm_keep a c" by (simp add: tm_keep_def)
lemma frame_keep: "tm_frame a b \<Longrightarrow> tm_keep a b" by (simp add: tm_frame_def tm_keep_def)

text \<open>The last reading was at \<open>l\<close>, this one is at \<open>n\<close>, less than an epoch later.\<close>

lemma sample_time:
  assumes cb: "quiet I cb" and ok: "tm_inv I D X st"
    and l: "xLastTime st = w32 l" and n: "l \<le> n" "n < l + epoch_length" "xTaskGetTickCount (ks (tm_sys st)) = w32 n"
  shows "\<exists>sw st'. prvSampleTimeNow cb st = Some (w32 n, sw, st') \<and> (sw \<longleftrightarrow> n div epoch_length \<noteq> l div epoch_length) \<and>
    tm_inv I D X st' \<and> tm_keep st st' \<and> freed st' = freed st \<and> xLastTime st' = w32 n \<and>
    (\<forall>u. same_schedule n (l div epoch_length) (n div epoch_length) st st' u) \<and> (sw \<or> st' = st\<lparr>xLastTime := w32 n\<rparr>)"
proof -
  let ?P = epoch_length
  have lt: "w32 n < w32 l \<longleftrightarrow> n mod ?P < l mod ?P" by (simp add: word_less_nat_alt unat_w32_mod)
  have eq: "l div ?P * ?P + l mod ?P = l" "n div ?P * ?P + n mod ?P = n" by simp_all
  have m: "l mod ?P < ?P" "n mod ?P < ?P" by simp_all
  have "l div ?P < n div ?P \<or> l div ?P = n div ?P \<and> l mod ?P \<le> n mod ?P"
    using epoch_le [OF m, of "l div ?P" "n div ?P"] n(1) unfolding eq by simp
  moreover have "n div ?P < Suc (l div ?P) \<or> n div ?P = Suc (l div ?P) \<and> n mod ?P < l mod ?P"
    using epoch_less [OF m(2,1), of "n div ?P" "Suc (l div ?P)"] n(2) eq by simp
  ultimately consider "n div ?P = l div ?P" "\<not> w32 n < w32 l" | "n div ?P = Suc (l div ?P)" "w32 n < w32 l"
    unfolding lt by linarith
  then show ?thesis
  proof cases
    case 1
    let ?st' = "st\<lparr>xLastTime := w32 n\<rparr>"
    have "prvSampleTimeNow cb st = Some (w32 n, False, ?st')" using 1 by (simp add: prvSampleTimeNow_def l n(3) Let_def)
    moreover have "tm_inv I D X ?st'" using ok by (simp add: tm_inv_def xTimerIsTimerActive_def)
    moreover have "tm_keep st ?st'" by (simp add: tm_keep_def xTimerGetReloadMode_def)
    moreover have "same_schedule n (l div ?P) (n div ?P) st ?st' u" for u by (simp add: same_schedule_def 1)
    ultimately show ?thesis using 1 by (intro exI [of _ False] exI [of _ ?st'] conjI) simp_all
  next
    case 2
    let ?e = "l div ?P"
    obtain st1 where st1: "prvSwitchTimerLists cb st = Some st1" "tm_inv I D X st1"
      "tm_frame (st\<lparr>pxCurrentTimerList := pxOverflowTimerList st, pxOverflowTimerList := pxCurrentTimerList st\<rparr>) st1"
      "\<And>u. same_schedule (Suc ?e * ?P - 1) ?e (Suc ?e) st st1 u"
      using switch_lists_run [OF cb ok] by blast
    let ?st' = "st1\<lparr>xLastTime := w32 n\<rparr>"
    have "prvSampleTimeNow cb st = Some (w32 n, True, ?st')" using 2(2) by (simp add: prvSampleTimeNow_def l n(3) Let_def st1(1))
    moreover have "tm_inv I D X ?st'" using st1(2) by (simp add: tm_inv_def xTimerIsTimerActive_def)
    moreover have "tm_keep st ?st'" "freed ?st' = freed st"
      using st1(3) by (simp_all add: tm_frame_def tm_keep_def xTimerGetReloadMode_def)
    moreover have "Suc ?e * ?P - 1 \<le> n" using eq(2) unfolding 2(1) by linarith
    then have "same_schedule n ?e (n div ?P) st ?st' u" for u
      using st1(4) [of u] unfolding 2(1) same_schedule_def by (auto intro: on_schedule_later)
    ultimately show ?thesis using 2 by (intro exI [of _ True] exI [of _ ?st'] conjI) simp_all
  qed
qed

subsection \<open>Commands\<close>

text \<open>A timer started at \<open>c\<close> behaves as one due a period later, however late the command is served.\<close>

lemma start_timer_run:
  assumes cb: "quiet I cb" and ok: "tm_inv I D {t} st" and t: "tm_cont (tls st) t = None" "t \<in> D"
    and time: "c \<le> n" "n < c + epoch_length"
  defines "a \<equiv> xTimerGetReloadMode t st" and "p \<equiv> period st t" and "e \<equiv> n div epoch_length"
  shows "\<exists>st'. start_timer cb t (w32 c) (w32 n) st = Some st' \<and> tm_ok I D st' \<and> tm_frame st st' \<and>
    due e st' = (due e st)(t := next_due a p n (Some (c + p))) \<and>
    calls st' = calls st @ replicate (firings a p n (Some (c + p))) t"
proof -
  let ?st = "set_status t (ucStatus (tmr st t) OR tmrSTATUS_IS_ACTIVE) st"
  note set = set_status_def set_timer_def
  have f: "tls ?st = tls st" "pxCurrentTimerList ?st = pxCurrentTimerList st" "pxOverflowTimerList ?st = pxOverflowTimerList st"
    "period ?st t = p" "calls ?st = calls st" "due e ?st = due e st" by (simp_all add: set p_def)
  have sys: "I (tm_sys st)" using ok by (simp add: tm_inv_def)
  have ls: "tmlists_ok D (tls ?st)" "pxCurrentTimerList ?st \<noteq> pxOverflowTimerList ?st" "tm_cont (tls ?st) t = None" "0 < p"
    using ok t(2) unfolding f by (simp_all add: tm_inv_def t(1) p_def)
  have v: "w32 c + xTimerPeriodInTicks (tmr ?st t) = w32 (c + p)" using f(4) by (metis w32_add w32_unat)
  have act: "u \<in> D \<Longrightarrow> 0 < period st u" "u \<in> D \<Longrightarrow> u \<noteq> t \<Longrightarrow> xTimerIsTimerActive u st \<longleftrightarrow> tm_cont (tls st) u \<noteq> None" for u
    using ok by (simp_all add: tm_inv_def)
  have a: "ucStatus (tmr st t) AND tmrSTATUS_IS_AUTORELOAD \<noteq> 0 \<longleftrightarrow> a" by (simp add: a_def xTimerGetReloadMode_def)
  note ins = insert_timer [OF ls(1-3) t(2) time, unfolded f(4,6) e_def [symmetric]]
  have cont: "tm_cont s' u \<noteq> None \<longleftrightarrow> u = t \<or> tm_cont (tls st) u \<noteq> None"
    if "due e (?st\<lparr>tls := s'\<rparr>) = (due e st)(t \<mapsto> y)" for s' y u
    using arg_cong [OF fun_cong [OF that, of u], of "\<lambda>d. d = None"] by (cases "u = t") (simp_all add: due_None set)
  show ?thesis
  proof (cases "c + p \<le> n")
    case False
    then obtain s' where s': "prvInsertTimerInActiveList t (w32 (c + p)) (w32 n) (w32 c) ?st = Some (False, ?st\<lparr>tls := s'\<rparr>)"
      "tmlists_ok D s'" "due e (?st\<lparr>tls := s'\<rparr>) = (due e st)(t \<mapsto> c + p)" using ins(2) by auto
    have "start_timer cb t (w32 c) (w32 n) st = Some (?st\<lparr>tls := s'\<rparr>)"
      unfolding start_timer_def Let_def v s'(1) by simp
    moreover have "tm_ok I D (?st\<lparr>tls := s'\<rparr>)"
      using s'(2) sys ls(2) act cont [OF s'(3)] by (auto simp: tm_inv_def xTimerIsTimerActive_def set)
    moreover have "tm_frame st (?st\<lparr>tls := s'\<rparr>)" by (auto simp: tm_frame_def xTimerGetReloadMode_def set)
    ultimately show ?thesis using False s'(3) by (intro exI [of _ "?st\<lparr>tls := s'\<rparr>"] conjI) (simp_all add: set)
  next
    case True
    let ?st1 = "?st\<lparr>tls := stamp t (w32 (c + p)) (tls ?st)\<rparr>"
    have ins: "prvInsertTimerInActiveList t (w32 c + xTimerPeriodInTicks (tmr ?st t)) (w32 n) (w32 c) ?st = Some (True, ?st1)"
      using ins(1) True v by simp
    have ac: "ucStatus (tmr ?st t) AND tmrSTATUS_IS_AUTORELOAD \<noteq> 0 \<longleftrightarrow> a" using a by (simp add: set)
    show ?thesis
    proof (cases a)
      case auto: True
      have "n < c + p + epoch_length" using time by linarith
      then obtain sys s' where r: "prvReloadTimer cb t (w32 (c + p)) (w32 n) ?st1 =
          Some (?st1\<lparr>tm_sys := sys, tls := s', calls := calls st @ replicate ((n - (c + p)) div p) t\<rparr>)"
        "I sys" "tmlists_ok D s'" "due e (?st1\<lparr>tls := s'\<rparr>) = (due e ?st1)(t \<mapsto> c + p + Suc ((n - (c + p)) div p) * p)"
        using reload_timer [OF cb, of ?st1 D t "c + p" n] tm_stamp [OF ls(1,3)] ls t(2) True f sys by (auto simp: e_def set)
      let ?st2 = "?st1\<lparr>tm_sys := sys, tls := s', calls := calls st @ replicate ((n - (c + p)) div p) t\<rparr>"
      obtain sys' where call: "I sys'" "call_timer cb t ?st2 = Some (?st2\<lparr>calls := calls ?st2 @ [t], tm_sys := sys'\<rparr>)"
        using call_timer_quiet [where st = ?st2, OF cb, of t] r(2) by auto
      let ?st3 = "?st2\<lparr>calls := calls ?st2 @ [t], tm_sys := sys'\<rparr>"
      have "start_timer cb t (w32 c) (w32 n) st = Some ?st3"
        unfolding start_timer_def Let_def ins using auto call(2) r(1) by (simp add: ac v)
      moreover have d: "due e (?st\<lparr>tls := s'\<rparr>) = (due e st)(t \<mapsto> c + p + Suc ((n - (c + p)) div p) * p)"
        using r(4) due_stamp [OF ls(3), of e] by (simp add: f)
      moreover have "tm_ok I D ?st3"
        using r(3) call(1) ls(2) act cont [OF d] by (auto simp: tm_inv_def xTimerIsTimerActive_def set)
      moreover have "tm_frame st ?st3" by (auto simp: tm_frame_def xTimerGetReloadMode_def set)
      ultimately show ?thesis using auto True
        by (intro exI [of _ ?st3] conjI) (simp_all add: next_due_def firings_def replicate_append_same set)
    next
      case False
      let ?st2 = "set_status t (ucStatus (tmr ?st1 t) AND NOT tmrSTATUS_IS_ACTIVE) ?st1"
      obtain sys' where call: "I sys'" "call_timer cb t ?st2 = Some (?st2\<lparr>calls := calls ?st2 @ [t], tm_sys := sys'\<rparr>)"
        using call_timer_quiet [where st = ?st2, OF cb, of t] sys by (auto simp: set)
      let ?st3 = "?st2\<lparr>calls := calls ?st2 @ [t], tm_sys := sys'\<rparr>"
      have "start_timer cb t (w32 c) (w32 n) st = Some ?st3"
        unfolding start_timer_def Let_def ins using False call(2) by (simp add: ac)
      moreover have "due e ?st3 = (due e st)(t := None)"
        using due_stamp [OF ls(3), of e] t(1) by (simp add: fun_eq_iff set due_def)
      moreover have "tm_ok I D ?st3"
        using tm_stamp [OF ls(1,3)] call(1) ls(2) act t(1) by (auto simp: tm_inv_def xTimerIsTimerActive_def set)
      moreover have "tm_frame st ?st3" by (auto simp: tm_frame_def xTimerGetReloadMode_def set)
      ultimately show ?thesis using False True
        by (intro exI [of _ ?st3] conjI) (simp_all add: next_due_def firings_def set)
    qed
  qed
qed

end
