(* ===== verification/TimersStart.thy ===== *)
theory TimersStart
  imports TimersSpec
begin

text \<open>
  Starting the timer service and creating timers.
\<close>

subsection \<open>New lists, new timers\<close>

lemma tmlists_init:
  assumes "\<And>x. pxContainer (nodes s (Item x)) = None"
  shows "tmlists_ok {} (vListInitialise ActiveTimerList2 (vListInitialise ActiveTimerList1 s))"
    "tm_cont (vListInitialise ActiveTimerList2 (vListInitialise ActiveTimerList1 s)) t = None"
proof -
  let ?s1 = "vListInitialise ActiveTimerList1 s"
  let ?s2 = "vListInitialise ActiveTimerList2 ?s1"
  let ?A = "\<lambda>_ :: tlist. ([] :: u32 list, 0 :: nat)"
  have "lrel {} s ?A" using assms by (simp add: lrel_def)
  from vListInitialise_lrel [OF this, of ActiveTimerList1] have r1: "lrel {ActiveTimerList1} ?s1 ?A"
    by (simp add: fun_upd_idem)
  have u: "{ActiveTimerList2, ActiveTimerList1} = UNIV" using tlist.exhaust by auto
  from vListInitialise_lrel [OF r1, of ActiveTimerList2] have r2: "lrel UNIV ?s2 ?A"
    by (simp add: fun_upd_idem u)
  show c: "tm_cont ?s2 t = None" for t using assms by (simp add: tm_cont_def vListInitialise_def)
  show "tmlists_ok {} ?s2" using r2 c by (auto simp: tmlists_ok_def intro!: exI [of _ ?A])
qed

lemma new_item:
  assumes ok: "tmlists_ok D s" and t: "t \<notin> D" and card: "card (insert t D) < 2 ^ 31"
  shows "tm_cont s t = None" "vListInitialiseItem t s = s" "tmlists_ok (insert t D) s"
proof -
  show c: "tm_cont s t = None" using ok t by (auto simp: tmlists_ok_def)
  then have "nodes s (Item t)\<lparr>pxContainer := None\<rparr> = nodes s (Item t)" by (simp add: tm_cont_def)
  then show "vListInitialiseItem t s = s" by (simp add: vListInitialiseItem_def set_container_def)
  show "tmlists_ok (insert t D) s" using ok card by (auto simp: tmlists_ok_def)
qed

lemma check_done: "xTimerQueue st = Some q \<Longrightarrow> prvCheckForValidListAndQueue malloc q' st = Some st"
  by (simp add: prvCheckForValidListAndQueue_def)

lemma create_status [simp]:
  "tmrSTATUS_IS_AUTORELOAD \<noteq> 0" "tmrSTATUS_IS_AUTORELOAD AND tmrSTATUS_IS_ACTIVE = 0"
  by (simp_all add: tmrSTATUS_IS_AUTORELOAD_def tmrSTATUS_IS_ACTIVE_def)

text \<open>The record of a new timer.\<close>

definition new_timer :: "string \<Rightarrow> u32 \<Rightarrow> bool \<Rightarrow> u32 \<Rightarrow> u32 \<Rightarrow> Timer_t \<Rightarrow> Timer_t" where
  "new_timer name p xAutoReload ident f T =
     (let T1 = T\<lparr>ucStatus := 0, pcTimerName := name, xTimerPeriodInTicks := p, pvTimerID := ident, pxCallbackFunction := f\<rparr>
      in if xAutoReload then T1\<lparr>ucStatus := tmrSTATUS_IS_AUTORELOAD\<rparr> else T1)"

lemma create_timer:
  fixes name :: string and xAutoReload :: bool and ident f :: u32
  assumes ok: "tm_ok I D st" and q: "xTimerQueue st = Some q" and t: "t \<notin> D" and p: "p \<noteq> 0" and card: "card (insert t D) < 2 ^ 31"
  defines "st' \<equiv> set_timer t (new_timer name p xAutoReload ident f (tmr st t)) st"
  shows "xTimerCreate malloc q' (Some t) name p xAutoReload ident f st = Some (Some t, st')"
    "tm_ok I (insert t D) st'" "due e st' = due e st" "due e st t = None"
proof -
  have ls: "tmlists_ok D (tls st)" using ok by (simp add: tm_inv_def)
  note n = new_item [OF ls t card]
  note set = set_status_def set_timer_def new_timer_def Let_def
  have "xTimerQueue (set_status t 0 st) = Some q" using q by (simp add: set)
  from check_done [OF this] have "prvInitialiseNewTimer malloc q' name p xAutoReload ident f t (set_status t 0 st) = Some st'"
    using n(2) by (simp add: prvInitialiseNewTimer_def Let_def st'_def set)
  then show "xTimerCreate malloc q' (Some t) name p xAutoReload ident f st = Some (Some t, st')"
    by (simp add: xTimerCreate_def)
  show "tm_ok I (insert t D) st'"
    using ok n p by (auto simp: tm_inv_def st'_def set xTimerIsTimerActive_def unat_gt_0)
  show "due e st' = due e st" by (simp add: st'_def set)
  show "due e st t = None" using n(1) by (simp add: due_None)
qed


subsection \<open>A system with a timer\<close>

text \<open>The tasks 0, 3 and 5 (running), the command queue 2, and the timer 1 of period 10 that reloads itself.\<close>

definition timers_0 :: tmsys where
  "timers_0 = \<lparr>tm_sys = qsys_0,
     tmr = (\<lambda>_. \<lparr>pcTimerName = '''', xTimerPeriodInTicks = 0, pvTimerID = 0, pxCallbackFunction = 0, uxTimerNumber = 0, ucStatus = 0\<rparr>),
     tls = \<lparr>nodes = (\<lambda>p. \<lparr>xItemValue = 0, pxNext = p, pxPrevious = p, pvOwner = 0, pxContainer = None\<rparr>),
            lists = (\<lambda>l. \<lparr>uxNumberOfItems = 0, pxIndex = ListEnd l\<rparr>)\<rparr>,
     pxCurrentTimerList = ActiveTimerList1, pxOverflowTimerList = ActiveTimerList2,
     xTimerQueue = None, xTimerTaskHandle = None, xLastTime = 0, calls = [], freed = []\<rparr>"

definition timers_1 :: tmsys where "timers_1 = the (prvCheckForValidListAndQueue zeros 2 timers_0)"

definition timers_w :: tmsys where
  "timers_w = set_timer 1 (new_timer ''T'' 10 True 0 0 (tmr timers_1 1)) timers_1"

definition timer_sys :: "qsys \<Rightarrow> bool" where
  "timer_sys sys \<longleftrightarrow> queues_ok {0, 3, 5} {6, 7} 0 {2} (\<lambda>_. []) sys \<and> \<not> is_mutex (qs sys 2) \<and> contents (qs sys 2) = [] \<and>
     uxLength (qs sys 2) = 8 \<and> uxItemSize (qs sys 2) = 12 \<and> cRxLock (qs sys 2) = queueUNLOCKED \<and> cTxLock (qs sys 2) = queueUNLOCKED \<and>
     pxCurrentTCB (ks sys) = Some 5 \<and> uxSchedulerSuspended (ks sys) = 0 \<and> xTickCount (ks sys) = 0 \<and> container (EventItem 5) (ks sys) = None"

lemma registry_fields [simp]: "ks (vQueueAddToRegistry q name sys) = ks sys" "qs (vQueueAddToRegistry q name sys) = qs sys"
  by (simp_all add: vQueueAddToRegistry_def split: option.split)

lemma timers_1:
  "tm_ok timer_sys {} timers_1" "xTimerQueue timers_1 = Some 2" "xLastTime timers_1 = 0" "calls timers_1 = []" "due e timers_1 t = None"
proof -
  have z: "zeros (sizeof_Queue_t + 8 * 12) = Some (replicate 176 0)" "length (replicate 176 (0 :: u8)) = unat (sizeof_Queue_t + 8 * 12)"
    by (simp_all add: zeros_def sizeof_Queue_t_def)
  obtain sys where sys: "xQueueGenericCreate zeros 8 12 0 2 qsys_0 = Some (True, sys)"
    "queues_ok {0, 3, 5} {7, 6} 0 {2} ((\<lambda>_. [])(6 := [], 7 := [])) sys" "\<not> is_mutex (qs sys 2)"
    "contents (qs sys 2) = []" "uxLength (qs sys 2) = 8" "uxItemSize (qs sys 2) = 12"
    "cRxLock (qs sys 2) = queueUNLOCKED" "cTxLock (qs sys 2) = queueUNLOCKED"
    "ks sys = on_lists (vListInitialise (Event 7)) (on_lists (vListInitialise (Event 6)) tasks_w)"
    using create_queue [where malloc = zeros and len = 8 and sz = 12 and q = 2 and type = 0 and E = "{}" and D = "{}", OF queues_0 _ _ z, of "\<lambda>_. []"]
    by (auto simp: qsys_0_def)
  have f: "(\<lambda>_. [])(6 := [], 7 := []) = (\<lambda>_ :: nat. [] :: kitem list)" by (simp add: fun_eq_iff)
  have "pxCurrentTCB (ks sys) = Some 5" "uxSchedulerSuspended (ks sys) = 0" "xTickCount (ks sys) = 0"
    unfolding sys(9) using tasks_w by (simp_all add: on_lists_def)
  moreover have "container (EventItem 5) (ks sys) = None" unfolding sys(9) using tasks_w(13) by simp
  ultimately have s: "timer_sys (vQueueAddToRegistry 2 (Some ''TmrQ'') sys)"
    using sys(2-8) f by (simp add: timer_sys_def queues_ok_def insert_commute)
  let ?s = "vListInitialise ActiveTimerList2 (vListInitialise ActiveTimerList1 (tls timers_0))"
  have one: "timers_1 = timers_0\<lparr>tls := ?s, pxCurrentTimerList := ActiveTimerList1, pxOverflowTimerList := ActiveTimerList2,
      tm_sys := vQueueAddToRegistry 2 (Some ''TmrQ'') sys, xTimerQueue := Some 2\<rparr>"
    using sys(1) by (simp add: timers_1_def prvCheckForValidListAndQueue_def timers_0_def Let_def
        configTIMER_QUEUE_LENGTH_def sizeof_DaemonTaskMessage_t_def)
  have i: "tmlists_ok {} ?s" "tm_cont ?s u = None" for u by (rule tmlists_init; simp add: timers_0_def)+
  show "tm_ok timer_sys {} timers_1" using s i by (simp add: one tm_inv_def)
  show "xTimerQueue timers_1 = Some 2" "xLastTime timers_1 = 0" "calls timers_1 = []"
    by (simp_all add: one timers_0_def)
  show "due e timers_1 t = None" using i(2) by (simp add: one due_None)
qed

lemma timers_w:
  "tm_ok timer_sys {1} timers_w" "xTimerQueue timers_w = Some 2" "xLastTime timers_w = 0" "calls timers_w = []"
  "due e timers_w t = None" "period timers_w 1 = 10" "xTimerGetReloadMode 1 timers_w" "timer_sys (tm_sys timers_w)"
proof -
  have p: "(10 :: u32) \<noteq> 0" "card {1 :: u32} < 2 ^ 31" "(1 :: u32) \<notin> {}" by simp_all
  note c = create_timer(1-3) [OF timers_1(1,2) p(3,1,2), where name = "''T''" and xAutoReload = True and ident = 0 and f = 0, folded timers_w_def]
  show "tm_ok timer_sys {1} timers_w" "due e timers_w t = None" using c(2,3) timers_1(5) by simp_all
  then show "timer_sys (tm_sys timers_w)" by (simp add: tm_inv_def)
  show "xTimerQueue timers_w = Some 2" "xLastTime timers_w = 0" "calls timers_w = []" "period timers_w 1 = 10" "xTimerGetReloadMode 1 timers_w"
    using timers_1 by (simp_all add: timers_w_def set_timer_def new_timer_def Let_def xTimerGetReloadMode_def)
qed


end
