(* ===== verification/TimersProps.thy ===== *)
theory TimersProps
  imports TimersStart
begin

text \<open>
  The commands of the timer task, served at the time the specification is read at, and the
  properties of the timer service.
\<close>

subsection \<open>Every command takes its timer off the lists and reads the time\<close>

lemma command_prefix:
  assumes cb: "quiet I cb" and ok: "tm_ok I D st"
    and l: "xLastTime st = w32 l" and n: "l \<le> n" "n < l + epoch_length" "xTaskGetTickCount (ks (tm_sys st)) = w32 n"
  shows "\<exists>st1 sw st2. (if pxContainer (nodes (tls st) (Item t)) \<noteq> None
      then map_option (\<lambda>(_, s). st\<lparr>tls := s\<rparr>) (uxListRemove t (tls st)) else Some st) = Some st1 \<and>
    prvSampleTimeNow cb st1 = Some (w32 n, sw, st2) \<and> tm_inv I D {t} st2 \<and> tm_cont (tls st2) t = None \<and>
    tm_keep st st2 \<and> freed st2 = freed st \<and> xLastTime st2 = w32 n \<and>
    count_list (calls st2) t = count_list (calls st) t \<and>
    (\<forall>u. u \<noteq> t \<longrightarrow> same_schedule n (l div epoch_length) (n div epoch_length) st st2 u)"
proof -
  let ?e = "l div epoch_length"
  have "\<exists>s. (if pxContainer (nodes (tls st) (Item t)) \<noteq> None
      then map_option (\<lambda>(_, s). st\<lparr>tls := s\<rparr>) (uxListRemove t (tls st)) else Some st) = Some (st\<lparr>tls := s\<rparr>) \<and>
    tmlists_ok D s \<and> tm_cont s = (tm_cont (tls st))(t := None) \<and> tm_val s = tm_val (tls st)"
  proof (cases "tm_cont (tls st) t")
    case None
    then show ?thesis using ok by (intro exI [of _ "tls st"]) (auto simp: tm_inv_def tm_cont_def)
  next
    case (Some c)
    then show ?thesis using tm_remove [of D "tls st" t c] ok by (auto simp: tm_inv_def tm_cont_def)
  qed
  then obtain s where s: "(if pxContainer (nodes (tls st) (Item t)) \<noteq> None
      then map_option (\<lambda>(_, s). st\<lparr>tls := s\<rparr>) (uxListRemove t (tls st)) else Some st) = Some (st\<lparr>tls := s\<rparr>)"
    "tmlists_ok D s" "tm_cont s = (tm_cont (tls st))(t := None)" "tm_val s = tm_val (tls st)" by blast
  let ?st1 = "st\<lparr>tls := s\<rparr>"
  have ok1: "tm_inv I D {t} ?st1" using ok s(2,3) by (simp add: tm_inv_def xTimerIsTimerActive_def)
  have d1: "due ?e ?st1 = (due ?e st)(t := None)" by (simp add: fun_eq_iff due_def s(3,4))
  obtain sw st2 where st2: "prvSampleTimeNow cb ?st1 = Some (w32 n, sw, st2)" "tm_inv I D {t} st2" "tm_keep ?st1 st2"
    "freed st2 = freed ?st1" "xLastTime st2 = w32 n"
    "\<And>u. same_schedule n ?e (n div epoch_length) ?st1 st2 u"
    using sample_time [OF cb ok1 _ n(1,2), of] l n(3) by auto
  have "same_schedule n ?e (n div epoch_length) st st2 u" if "u \<noteq> t" for u
    using st2(6) [of u] that by (simp add: same_schedule_def d1 xTimerGetReloadMode_def)
  moreover have "due (n div epoch_length) st2 t = None" "count_list (calls st2) t = count_list (calls st) t"
    using on_schedule_None st2(6) [of t] by (auto simp: same_schedule_def d1)
  moreover have "tm_keep st st2" using st2(3) by (simp add: tm_keep_def xTimerGetReloadMode_def)
  ultimately show ?thesis using s(1) st2(1,2,4,5)
    by (intro exI [of _ ?st1] exI [of _ sw] exI [of _ st2]) (simp add: due_None)
qed

lemma start_ids:
  assumes "k \<in> {tmrCOMMAND_START, tmrCOMMAND_START_FROM_ISR, tmrCOMMAND_RESET, tmrCOMMAND_RESET_FROM_ISR}"
  shows "0 \<le>s k"
  using assms by (auto simp: tmrCOMMAND_START_def tmrCOMMAND_START_FROM_ISR_def tmrCOMMAND_RESET_def tmrCOMMAND_RESET_FROM_ISR_def
      word_sle_eq)

lemma start_command_run:
  assumes "quiet I cb" and "tm_ok I D st" and "t \<in> D"
    and "xMessageID m \<in> {tmrCOMMAND_START, tmrCOMMAND_START_FROM_ISR, tmrCOMMAND_RESET, tmrCOMMAND_RESET_FROM_ISR}"
    and "pxTimer m = t" and "xMessageValue m = w32 c"
    and "xLastTime st = w32 l" and "xTaskGetTickCount (ks (tm_sys st)) = w32 n"
    and "l \<le> n" "n < l + epoch_length" and "c \<le> n" "n < c + epoch_length"
  defines "a \<equiv> xTimerGetReloadMode t st" and "p \<equiv> period st t"
  shows "\<exists>st'. process_command cb m st = Some st' \<and> tm_ok I D st' \<and>
    due (n div epoch_length) st' t = next_due a p n (Some (c + p)) \<and>
    count_list (calls st') t = count_list (calls st) t + firings a p n (Some (c + p)) \<and>
    (\<forall>u. u \<noteq> t \<longrightarrow> same_schedule n (l div epoch_length) (n div epoch_length) st st' u) \<and> tm_keep st st' \<and>
    xLastTime st' = w32 n"
proof -
  let ?e = "n div epoch_length"
  obtain st1 sw st2 where st2: "(if pxContainer (nodes (tls st) (Item t)) \<noteq> None
      then map_option (\<lambda>(_, s). st\<lparr>tls := s\<rparr>) (uxListRemove t (tls st)) else Some st) = Some st1"
    "prvSampleTimeNow cb st1 = Some (w32 n, sw, st2)" "tm_inv I D {t} st2" "tm_cont (tls st2) t = None" "tm_keep st st2"
    "xLastTime st2 = w32 n"
    "count_list (calls st2) t = count_list (calls st) t"
    "\<forall>u. u \<noteq> t \<longrightarrow> same_schedule n (l div epoch_length) ?e st st2 u"
    using command_prefix [OF assms(1,2,7,9,10,8), of t] by blast
  obtain st' where st': "start_timer cb t (w32 c) (w32 n) st2 = Some st'" "tm_ok I D st'" "tm_frame st2 st'"
    "due ?e st' = (due ?e st2)(t := next_due a p n (Some (c + p)))"
    "calls st' = calls st2 @ replicate (firings a p n (Some (c + p))) t"
    using start_timer_run [OF assms(1) st2(3,4) assms(3,11,12)] st2(5) by (auto simp: a_def p_def tm_keep_def)
  have run: "process_command cb m st = Some st'"
    using st2(1,2) st'(1) start_ids [OF assms(4)] assms(4) by (simp add: process_command_def Let_def assms(5,6))
  have "same_schedule n (l div epoch_length) ?e st st' u" if "u \<noteq> t" for u
    using st2(8) that by (simp add: same_schedule_def st'(4,5))
  moreover have "tm_keep st st'" "xLastTime st' = w32 n"
    using tm_keep_trans [OF st2(5) frame_keep [OF st'(3)]] st'(3) st2(6) by (simp_all add: tm_frame_def)
  ultimately show ?thesis using run st'(2,4,5) st2(7) by (intro exI [of _ st']) simp
qed

subsection \<open>The other commands\<close>

lemmas command_defs = tmrCOMMAND_START_def tmrCOMMAND_START_FROM_ISR_def tmrCOMMAND_RESET_def tmrCOMMAND_RESET_FROM_ISR_def
  tmrCOMMAND_STOP_def tmrCOMMAND_STOP_FROM_ISR_def tmrCOMMAND_CHANGE_PERIOD_def tmrCOMMAND_CHANGE_PERIOD_FROM_ISR_def
  tmrCOMMAND_DELETE_def word_sle_eq

lemma quieted:
  assumes "tm_inv I D {t} st" and "tm_cont (tls st) t = None"
  defines "st' \<equiv> set_status t (ucStatus (tmr st t) AND NOT tmrSTATUS_IS_ACTIVE) st"
  shows "tm_ok I D st'" "due e st' = due e st" "calls st' = calls st" "tm_keep st st'"
  using assms(1,2) by (auto simp: st'_def tm_inv_def xTimerIsTimerActive_def set_status_def set_timer_def tm_keep_def xTimerGetReloadMode_def)

lemma changed_period:
  assumes ok: "tm_inv I D {t} st" and c: "tm_cont (tls st) t = None" and t: "t \<in> D" and v: "v \<noteq> 0"
  defines "st3 \<equiv> set_status t (ucStatus (tmr st t) OR tmrSTATUS_IS_ACTIVE) st"
  defines "st4 \<equiv> set_timer t ((tmr st3 t)\<lparr>xTimerPeriodInTicks := v\<rparr>) st3"
  shows "\<exists>st'. prvInsertTimerInActiveList t (w32 n + v) (w32 n) (w32 n) st4 = Some (False, st') \<and> tm_ok I D st' \<and>
    due (n div epoch_length) st' = (due (n div epoch_length) st)(t \<mapsto> n + unat v) \<and> calls st' = calls st \<and> period st' t = unat v \<and> freed st' = freed st"
proof -
  let ?e = "n div epoch_length"
  note set = set_status_def set_timer_def st3_def st4_def
  have f: "tls st4 = tls st" "pxCurrentTimerList st4 = pxCurrentTimerList st" "pxOverflowTimerList st4 = pxOverflowTimerList st"
    "period st4 t = unat v" "due ?e st4 = due ?e st" by (simp_all add: set)
  have ls: "tmlists_ok D (tls st4)" "pxCurrentTimerList st4 \<noteq> pxOverflowTimerList st4" "tm_cont (tls st4) t = None"
    using ok c unfolding f by (simp_all add: tm_inv_def)
  have lt: "n < n + unat v" using v by (simp add: unat_gt_0)
  have w: "w32 n + v = w32 (n + unat v)" by (metis w32_add w32_unat)
  obtain s' where s': "prvInsertTimerInActiveList t (w32 (n + unat v)) (w32 n) (w32 n) st4 = Some (False, st4\<lparr>tls := s'\<rparr>)"
    "tmlists_ok D s'" "due ?e (st4\<lparr>tls := s'\<rparr>) = (due ?e st)(t \<mapsto> n + unat v)"
    using insert_timer(2) [OF ls t, of n n] lt unfolding f by auto
  have cont: "tm_cont s' u \<noteq> None \<longleftrightarrow> u = t \<or> tm_cont (tls st) u \<noteq> None" for u
    using arg_cong [OF fun_cong [OF s'(3), of u], of "\<lambda>d. d = None"] by (cases "u = t") (simp_all add: due_None set)
  have "tm_ok I D (st4\<lparr>tls := s'\<rparr>)"
    using ok s'(2) cont v by (auto simp: tm_inv_def xTimerIsTimerActive_def set unat_gt_0)
  then show ?thesis using s'(1,3) unfolding w by (intro exI [of _ "st4\<lparr>tls := s'\<rparr>"]) (simp add: set)
qed

text \<open>C19: stopping, deleting and changing the period.  None of these makes a callback of the timer; a stopped or
  deleted timer is due no more, one whose period is changed is due a new period from now.  Deleting
  releases the memory of a timer that was allocated dynamically, and the invariant no longer speaks of
  it.  All other timers keep their schedules, also when the tick count has overflowed since the last command.\<close>

theorem stop_change_delete_commands:
  assumes "quiet I cb" and "tm_ok I D st" and "t \<in> D" and "pxTimer m = t"
    and "xLastTime st = w32 l" and "xTaskGetTickCount (ks (tm_sys st)) = w32 n" and "l \<le> n" "n < l + epoch_length"
    and "xMessageID m \<in> {tmrCOMMAND_STOP, tmrCOMMAND_STOP_FROM_ISR} \<or> xMessageID m = tmrCOMMAND_DELETE \<or>
      xMessageID m \<in> {tmrCOMMAND_CHANGE_PERIOD, tmrCOMMAND_CHANGE_PERIOD_FROM_ISR} \<and> xMessageValue m \<noteq> 0"
  defines "change \<equiv> xMessageID m \<in> {tmrCOMMAND_CHANGE_PERIOD, tmrCOMMAND_CHANGE_PERIOD_FROM_ISR}"
  shows "\<exists>st'. process_command cb m st = Some st' \<and> count_list (calls st') t = count_list (calls st) t \<and>
      (\<forall>u. u \<noteq> t \<longrightarrow> same_schedule n (l div epoch_length) (n div epoch_length) st st' u) \<and>
      due (n div epoch_length) st' t = (if change then Some (n + unat (xMessageValue m)) else None) \<and>
      period st' t = (if change then unat (xMessageValue m) else period st t) \<and>
      (if xMessageID m = tmrCOMMAND_DELETE \<and> ucStatus (tmr st' t) AND tmrSTATUS_IS_STATICALLY_ALLOCATED = 0
       then freed st' = freed st @ [t] \<and> tm_ok I (D - {t}) st' else freed st' = freed st \<and> tm_ok I D st')"
proof -
  let ?e = "n div epoch_length"
  obtain st1 sw st2 where st2: "(if pxContainer (nodes (tls st) (Item t)) \<noteq> None
      then map_option (\<lambda>(_, s). st\<lparr>tls := s\<rparr>) (uxListRemove t (tls st)) else Some st) = Some st1"
    "prvSampleTimeNow cb st1 = Some (w32 n, sw, st2)" "tm_inv I D {t} st2" "tm_cont (tls st2) t = None" "tm_keep st st2"
    "freed st2 = freed st" "count_list (calls st2) t = count_list (calls st) t"
    "\<forall>u. u \<noteq> t \<longrightarrow> same_schedule n (l div epoch_length) ?e st st2 u"
    using command_prefix [OF assms(1,2,5,7,8,6), of t] by blast
  have p: "period st2 t = period st t" using st2(5) by (simp add: tm_keep_def)
  have none: "due ?e st2 t = None" using st2(4) by (simp add: due_None)
  note run = process_command_def [of cb m st, unfolded Let_def assms(4) st2(1)]
  let ?quiet = "set_status t (ucStatus (tmr st2 t) AND NOT tmrSTATUS_IS_ACTIVE) st2"
  note q = quieted [OF st2(3,4)]
  have qf: "freed ?quiet = freed st2" "period ?quiet t = period st2 t"
    "ucStatus (tmr ?quiet t) AND tmrSTATUS_IS_STATICALLY_ALLOCATED = ucStatus (tmr st2 t) AND tmrSTATUS_IS_STATICALLY_ALLOCATED"
    by (simp_all add: set_status_def set_timer_def and.assoc tmrSTATUS_IS_ACTIVE_def tmrSTATUS_IS_STATICALLY_ALLOCATED_def)
  have qs: "\<forall>u. u \<noteq> t \<longrightarrow> same_schedule n (l div epoch_length) ?e st ?quiet u"
    using st2(8) by (simp add: same_schedule_def q(2,3))
  from assms(9) consider "xMessageID m \<in> {tmrCOMMAND_STOP, tmrCOMMAND_STOP_FROM_ISR}" | "xMessageID m = tmrCOMMAND_DELETE"
    | "change" "xMessageValue m \<noteq> 0" by (auto simp: change_def)
  then show ?thesis
  proof cases
    case 1
    then have "process_command cb m st = Some ?quiet" unfolding run by (auto simp: command_defs st2(2))
    moreover have "xMessageID m \<noteq> tmrCOMMAND_DELETE" "\<not> change" using 1 by (auto simp: command_defs change_def)
    ultimately show ?thesis using q(1-3) qf(1,2) qs st2(6,7) p none by (intro exI [of _ ?quiet]) simp
  next
    case 2
    have nc: "\<not> change" using 2 by (simp add: command_defs change_def)
    show ?thesis
    proof (cases "ucStatus (tmr st2 t) AND tmrSTATUS_IS_STATICALLY_ALLOCATED = 0")
      case True
      let ?st' = "st2\<lparr>freed := freed st2 @ [t]\<rparr>"
      have "process_command cb m st = Some ?st'" unfolding run using 2 True by (simp add: command_defs st2(2))
      moreover have "tm_ok I (D - {t}) ?st'"
        using st2(3,4) card_Diff1_le [of D t] by (auto simp: tm_inv_def tmlists_ok_def xTimerIsTimerActive_def)
      moreover have "due ?e ?st' = due ?e st2" by (simp add: fun_eq_iff due_def)
      ultimately show ?thesis using 2 True nc st2(6-8) p none
        by (intro exI [of _ ?st']) (simp add: same_schedule_def)
    next
      case False
      then have "process_command cb m st = Some ?quiet" unfolding run using 2 by (simp add: command_defs st2(2))
      then show ?thesis using 2 False nc q(1-3) qf qs st2(6,7) p none by (intro exI [of _ ?quiet]) simp
    qed
  next
    case 3
    let ?st3 = "set_status t (ucStatus (tmr st2 t) OR tmrSTATUS_IS_ACTIVE) st2"
    let ?st4 = "set_timer t ((tmr ?st3 t)\<lparr>xTimerPeriodInTicks := xMessageValue m\<rparr>) ?st3"
    obtain st' where st': "prvInsertTimerInActiveList t (w32 n + xMessageValue m) (w32 n) (w32 n) ?st4 = Some (False, st')" "tm_ok I D st'"
      "due ?e st' = (due ?e st2)(t \<mapsto> n + unat (xMessageValue m))" "calls st' = calls st2" "period st' t = unat (xMessageValue m)"
      "freed st' = freed st2"
      using changed_period [OF st2(3,4) assms(3) 3(2)] by blast
    have "xTimerPeriodInTicks (tmr ?st4 t) = xMessageValue m" by (simp add: set_timer_def)
    then have "process_command cb m st = Some st'"
      unfolding run using 3(1) st'(1) by (auto simp: command_defs change_def st2(2))
    moreover have "freed st' = freed st" using st'(6) st2(6) by simp
    moreover have "xMessageID m \<noteq> tmrCOMMAND_DELETE" using 3(1) by (auto simp: command_defs change_def)
    ultimately show ?thesis using 3(1) st'(2-5) st2(7,8)
      by (intro exI [of _ st']) (simp add: same_schedule_def)
  qed
qed

lemma quiet_noop: "quiet I (\<lambda>f t st. Some st)"
  by (auto simp: quiet_def intro: exI [of _ "tm_sys st" for st])

text \<open>A start command given 25 ticks before the tick count overflows and served as it does.\<close>

lemma start_across_overflow:
  "\<exists>st'. process_command (\<lambda>f t st. Some st)
      \<lparr>xMessageID = tmrCOMMAND_START, xMessageValue = w32 (epoch_length - 25), pxTimer = 1\<rparr> timers_w = Some st' \<and>
    due 1 st' 1 = Some (epoch_length + 5) \<and> count_list (calls st') 1 = 2"
proof -
  let ?m = "\<lparr>xMessageID = tmrCOMMAND_START, xMessageValue = w32 (epoch_length - 25), pxTimer = 1\<rparr>"
  have "w32 epoch_length = 0" by (simp add: w32_def)
  then have t: "xLastTime timers_w = w32 epoch_length" "xTaskGetTickCount (ks (tm_sys timers_w)) = w32 epoch_length"
    using timers_w(3,8) by (simp_all add: timer_sys_def xTaskGetTickCount_def)
  have m: "(1 :: u32) \<in> {1}" "xMessageID ?m \<in> {tmrCOMMAND_START, tmrCOMMAND_START_FROM_ISR, tmrCOMMAND_RESET, tmrCOMMAND_RESET_FROM_ISR}"
    "pxTimer ?m = 1" "xMessageValue ?m = w32 (epoch_length - 25)" by simp_all
  have le: "epoch_length \<le> epoch_length" "epoch_length < epoch_length + epoch_length" "epoch_length - 25 \<le> epoch_length"
    "epoch_length < epoch_length - 25 + epoch_length" by simp_all
  from start_command_run [OF quiet_noop timers_w(1) m t le] show ?thesis
    using timers_w(4,6,7) by (auto simp: next_due_def firings_def)
qed

theorem stop_change_delete_commands_witness:
  "\<exists>st'. process_command (\<lambda>f t st. Some st) \<lparr>xMessageID = tmrCOMMAND_CHANGE_PERIOD, xMessageValue = 25, pxTimer = 1\<rparr> timers_w = Some st' \<and>
    due 0 st' 1 = Some 25 \<and> period st' 1 = 25"
proof -
  let ?m = "\<lparr>xMessageID = tmrCOMMAND_CHANGE_PERIOD, xMessageValue = 25, pxTimer = 1\<rparr>"
  have t: "xLastTime timers_w = w32 0" "xTaskGetTickCount (ks (tm_sys timers_w)) = w32 0" "(0 :: nat) \<le> 0" "0 < 0 + epoch_length"
    using timers_w(3,8) by (simp_all add: timer_sys_def xTaskGetTickCount_def)
  have m: "(1 :: u32) \<in> {1}" "pxTimer ?m = 1"
    "xMessageID ?m \<in> {tmrCOMMAND_STOP, tmrCOMMAND_STOP_FROM_ISR} \<or> xMessageID ?m = tmrCOMMAND_DELETE \<or>
      xMessageID ?m \<in> {tmrCOMMAND_CHANGE_PERIOD, tmrCOMMAND_CHANGE_PERIOD_FROM_ISR} \<and> xMessageValue ?m \<noteq> 0" by simp_all
  from stop_change_delete_commands [OF quiet_noop timers_w(1) m(1,2) t m(3)] show ?thesis by auto
qed

text \<open>The same timer, started at time 0.\<close>

definition started_w :: tmsys where
  "started_w = the (process_command (\<lambda>f t st. Some st) \<lparr>xMessageID = tmrCOMMAND_START, xMessageValue = 0, pxTimer = 1\<rparr> timers_w)"

lemma started_w:
  "tm_ok timer_sys {1} started_w" "due 0 started_w = [1 \<mapsto> 10]" "xTimerQueue started_w = Some 2" "xLastTime started_w = 0"
  "period started_w 1 = 10" "xTimerGetReloadMode 1 started_w"
proof -
  let ?m = "\<lparr>xMessageID = tmrCOMMAND_START, xMessageValue = 0, pxTimer = 1\<rparr>"
  have t: "xLastTime timers_w = w32 0" "xTaskGetTickCount (ks (tm_sys timers_w)) = w32 0"
    using timers_w(3,8) by (simp_all add: timer_sys_def xTaskGetTickCount_def)
  have m: "(1 :: u32) \<in> {1}" "xMessageID ?m \<in> {tmrCOMMAND_START, tmrCOMMAND_START_FROM_ISR, tmrCOMMAND_RESET, tmrCOMMAND_RESET_FROM_ISR}"
    "pxTimer ?m = 1" "xMessageValue ?m = w32 0" by simp_all
  have le: "0 \<le> (0 :: nat)" "0 < 0 + epoch_length" by simp_all
  obtain st' where st': "process_command (\<lambda>f t st. Some st) ?m timers_w = Some st'" "tm_ok timer_sys {1} st'" "due 0 st' 1 = Some 10"
    "\<forall>u. u \<noteq> 1 \<longrightarrow> same_schedule 0 0 0 timers_w st' u" "tm_keep timers_w st'" "xLastTime st' = 0"
    using start_command_run [OF quiet_noop timers_w(1) m t le le] timers_w(2,6) by auto
  have w: "started_w = st'" by (simp add: started_w_def st'(1))
  have "due 0 st' u = None" if "u \<noteq> 1" for u
    using st'(4) that timers_w(5) on_schedule_None(1) by (fastforce simp: same_schedule_def)
  then show "due 0 started_w = [1 \<mapsto> 10]" using st'(3) by (auto simp: w)
  show "tm_ok timer_sys {1} started_w" "xTimerQueue started_w = Some 2" "xLastTime started_w = 0"
    "period started_w 1 = 10" "xTimerGetReloadMode 1 started_w"
    using st' timers_w(2,6,7) by (simp_all add: w tm_keep_def)
qed

end
