(* ===== verification/TimersTask.thy ===== *)
theory TimersTask
  imports TimersProps
begin

text \<open>
  The timer task between commands: it sleeps on its queue until the first timer is due and then
  serves it.
\<close>

subsection \<open>Waiting on the queue with a time limit, the scheduler being suspended\<close>

lemma place_restricted:
  assumes k: "kernel T E idle k" and cur: "pxCurrentTCB k = Some cur" "cur \<noteq> idle" and e: "e \<in> E"
    and free: "container (EventItem cur) k = None" and n: "forever \<or> 0 < n"
  shows "\<exists>k'. vTaskPlaceOnEventListRestricted (Event e) n forever k = Some k' \<and> kernel T E idle k' \<and> same_ctl k k' \<and>
    container (EventItem cur) k' = Some (Event e) \<and>
    (\<forall>t. t \<noteq> cur \<longrightarrow> container (EventItem t) k' = container (EventItem t) k) \<and>
    time_left k' cur = (if forever then None else Some (unat n)) \<and> (\<forall>t. t \<noteq> cur \<longrightarrow> time_left k' t = time_left k t)"
proof -
  note kd = kernel_D [OF k]
  let ?n = "if forever then portMAX_DELAY else n"
  have n': "0 < ?n" using n by (auto simp: portMAX_DELAY_def)
  have ct: "cur \<in> T" using kd(6) cur by auto
  obtain l where l: "container (StateItem cur) k = Some l" using kd(4) [OF ct] by blast
  define k1 where "k1 = on_lists (vListInsertEnd (Event e) (EventItem cur)) k"
  have ins: "sched_at T E (Suc (unat (xTickCount k))) (unat (xTickCount k)) k1" "moved (EventItem cur) (Some (Event e)) k k1"
    unfolding k1_def by (rule sched_insert_end [OF kd(1) free]; use ct e in simp)+
  note m = moved_fields [OF ins(2)]
  have s1: "sched T E k1" using ins(1) by (simp only: m(5))
  have c1: "pxCurrentTCB k1 = Some cur" "container (StateItem cur) k1 = Some l" using m(2,15) cur(1) l by simp_all
  obtain k' where k': "prvAddCurrentTaskToDelayedList ?n forever k1 = Some k'" "sched T E k'"
    "blocks cur (delay_list ?n forever k1) k1 k'"
    "delay_list ?n forever k1 \<noteq> Suspended \<longrightarrow> time_left k' cur = Some (unat ?n)"
    "\<forall>t. t \<noteq> cur \<longrightarrow> time_left k' t = time_left k1 t"
    using delayed_time [OF s1 c1(1) ct c1(2) n', of forever] by blast
  note b = blocks_D [OF k'(3)]
  have sc: "same_ctl k k'" using same_ctl_trans [OF moved_same_ctl [OF ins(2)] b(1)] .
  note f = same_ctl_D [OF sc]
  have c: "container j k' = (if j = StateItem cur then Some (delay_list ?n forever k1)
      else if j = EventItem cur then Some (Event e) else container j k)" for j
    using b(2) m(15) by simp
  have dl: "delay_list ?n forever k1 \<in> {DelayedTaskList1, DelayedTaskList2, Suspended}" by (rule delay_list_cases [OF s1])
  have lists: "pxDelayedTaskList k' \<in> {DelayedTaskList1, DelayedTaskList2}" "pxOverflowDelayedTaskList k' \<in> {DelayedTaskList1, DelayedTaskList2}"
    using tasks_at_D(7) [of T "Suc (unat (xTickCount k'))" "unat (xTickCount k')" k'] k'(2) by (auto simp: sched_at_def)
  have "kernel T E idle k'"
    unfolding kernel_def f c using k'(2) kd cur dl by (auto simp: f)
  moreover have "time_left k' cur = (if forever then None else Some (unat n))"
  proof (cases forever)
    case True
    then have "delay_list ?n forever k1 = Suspended" by (simp add: delay_list_def)
    then show ?thesis using True lists c by (auto simp: time_left_def)
  next
    case False
    have "pxDelayedTaskList k1 \<noteq> Suspended" "pxOverflowDelayedTaskList k1 \<noteq> Suspended"
      using lists same_ctl_D(3,4) [OF b(1)] by auto
    then show ?thesis using k'(4) False by (auto simp: delay_list_def)
  qed
  moreover have "time_left k1 t = time_left k t" for t by (simp add: time_left_def m)
  moreover have "vTaskPlaceOnEventListRestricted (Event e) n forever k = Some k'"
    using k'(1) cur(1) by (simp add: vTaskPlaceOnEventListRestricted_def k1_def Let_def)
  ultimately show ?thesis using sc c k'(5) by (intro exI [of _ k']) simp
qed

lemma wait_restricted:
  assumes k: "kernel T E idle (ks st)" and cur: "pxCurrentTCB (ks st) = Some cur" "cur \<noteq> idle" and e: "receivers q \<in> E"
    and free: "container (EventItem cur) (ks st) = None" and n: "forever \<or> 0 < n"
    and u: "untouched (qs st q)" "uxMessagesWaiting (qs st q) = 0"
  shows "\<exists>k'. vQueueWaitForMessageRestricted q n forever st = Some (set_queue q (unlocked (qs st q)) k' st) \<and>
    kernel T E idle k' \<and> same_ctl (ks st) k' \<and> container (EventItem cur) k' = Some (Event (receivers q)) \<and>
    (\<forall>t. t \<noteq> cur \<longrightarrow> container (EventItem t) k' = container (EventItem t) (ks st)) \<and>
    time_left k' cur = (if forever then None else Some (unat n)) \<and> (\<forall>t. t \<noteq> cur \<longrightarrow> time_left k' t = time_left (ks st) t)"
proof -
  obtain k' where k': "vTaskPlaceOnEventListRestricted (Event (receivers q)) n forever (ks st) = Some k'" "kernel T E idle k'"
    "same_ctl (ks st) k'" "container (EventItem cur) k' = Some (Event (receivers q))"
    "\<forall>t. t \<noteq> cur \<longrightarrow> container (EventItem t) k' = container (EventItem t) (ks st)"
    "time_left k' cur = (if forever then None else Some (unat n))" "\<forall>t. t \<noteq> cur \<longrightarrow> time_left k' t = time_left (ks st) t"
    using place_restricted [OF k cur e free n] by blast
  have "uxMessagesWaiting (prvLockQueue (qs st q)) = 0" using u(2) by (simp add: prvLockQueue_def Let_def)
  moreover have "set_queue q (unlocked (qs st q)) k' (lock_queue q st) = set_queue q (unlocked (qs st q)) k' st"
    by (simp add: set_queue_def lock_queue_def)
  ultimately have "vQueueWaitForMessageRestricted q n forever st = Some (set_queue q (unlocked (qs st q)) k' st)"
    using k'(1) unlock_untouched [OF lock_untouched(1) [OF u(1)]] lock_untouched(2) [of "qs st q"]
    by (simp add: vQueueWaitForMessageRestricted_def xTasksWaitingToReceive_def Let_def)
  then show ?thesis using k'(2-7) by (intro exI [of _ k']) simp
qed

subsection \<open>Sleeping until the next timer is due\<close>

lemma on_kernel_simps [simp]:
  "ks (tm_sys (on_kernel f st)) = f (ks (tm_sys st))" "qs (tm_sys (on_kernel f st)) = qs (tm_sys st)"
  "tmr (on_kernel f st) = tmr st" "tls (on_kernel f st) = tls st" "pxCurrentTimerList (on_kernel f st) = pxCurrentTimerList st"
  "pxOverflowTimerList (on_kernel f st) = pxOverflowTimerList st" "xTimerQueue (on_kernel f st) = xTimerQueue st"
  "xTimerTaskHandle (on_kernel f st) = xTimerTaskHandle st" "xLastTime (on_kernel f st) = xLastTime st"
  "calls (on_kernel f st) = calls st" "freed (on_kernel f st) = freed st" "due e (on_kernel f st) = due e st"
  by (simp_all add: on_kernel_def)

lemma tick_count_suspended [simp]: "xTaskGetTickCount (vTaskSuspendAll k) = xTaskGetTickCount k"
  by (simp add: xTaskGetTickCount_def vTaskSuspendAll_def)

lemma yielding [simp]:
  "time_left (taskYIELD_IF_USING_PREEMPTION k) = time_left k" "kernel T E idle (taskYIELD_IF_USING_PREEMPTION k) = kernel T E idle k"
  "uxSchedulerSuspended (taskYIELD_IF_USING_PREEMPTION k) = uxSchedulerSuspended k"
  "container j (taskYIELD_IF_USING_PREEMPTION k) = container j k"
  by (simp_all add: taskYIELD_IF_USING_PREEMPTION_def time_left_def fun_eq_iff)

text \<open>In one epoch the words compare as the times do.\<close>

lemma same_epoch_le:
  assumes "x div epoch_length = n div epoch_length"
  shows "w32 x \<le> w32 n \<longleftrightarrow> x \<le> n"
proof -
  have "x div epoch_length * epoch_length + x mod epoch_length = x" "n div epoch_length * epoch_length + n mod epoch_length = n"
    by simp_all
  then have "x mod epoch_length \<le> n mod epoch_length \<longleftrightarrow> x \<le> n" using assms by linarith
  then show ?thesis by (simp add: word_le_nat_alt unat_w32_mod)
qed

text \<open>Reading the time in the epoch of the last reading does nothing else.\<close>

lemma sample_same_epoch:
  assumes "xLastTime st = w32 l" and "l \<le> n" and "xTaskGetTickCount (ks (tm_sys st)) = w32 n" and "n div epoch_length = l div epoch_length"
  shows "prvSampleTimeNow cb st = Some (w32 n, False, st\<lparr>xLastTime := w32 n\<rparr>)"
proof -
  have "\<not> w32 n < w32 l" using same_epoch_le [of l n] assms(2,4) by simp
  then show ?thesis using assms by (simp add: prvSampleTimeNow_def Let_def)
qed

text \<open>The time the task waits for when the last time read was \<open>n\<close>: the head of the current list, else
  the end of the epoch.\<close>

lemma next_expiry:
  assumes ok: "tm_ok I D st" and future: "\<forall>u x. due (n div epoch_length) st u = Some x \<longrightarrow> n < x"
    and n: "n mod epoch_length \<noteq> 0 \<or> \<not> listLIST_IS_EMPTY (pxCurrentTimerList st) (tls st)"
  shows "\<exists>x idle_list. prvGetNextExpireTime st = (w32 x, idle_list) \<and> n < x \<and> x < n + epoch_length \<and>
    (idle_list \<longleftrightarrow> (\<forall>u. tm_cont (tls st) u \<noteq> Some (pxCurrentTimerList st))) \<and> (\<not> idle_list \<longrightarrow> \<not> w32 x \<le> w32 n) \<and>
    (\<forall>u y. due (n div epoch_length) st u = Some y \<longrightarrow> x \<le> y) \<and>
    ((\<exists>u. due (n div epoch_length) st u = Some x) \<or> x mod epoch_length = 0)"
proof (cases "listLIST_IS_EMPTY (pxCurrentTimerList st) (tls st)")
  case True
  let ?e = "n div epoch_length"
  let ?x = "Suc ?e * epoch_length"
  have none: "tm_cont (tls st) u \<noteq> Some (pxCurrentTimerList st)" for u
    using True tm_empty [of D "tls st" "pxCurrentTimerList st"] ok by (auto simp: tm_inv_def)
  have later: "y div epoch_length = Suc ?e" if "due ?e st u = Some y" for u y
    using due_epoch(2) [OF that] none [of u] by blast
  have "unat (w32 ?x) = 0" by (simp only: unat_w32_mod) simp
  then have "w32 ?x = 0" by (simp add: unat_eq_0)
  moreover have "n div epoch_length * epoch_length + n mod epoch_length = n" "n mod epoch_length < epoch_length" by simp_all
  then have "n < ?x" "?x < n + epoch_length" using n True unfolding mult_Suc by linarith+
  moreover have "?x \<le> y" if "due ?e st u = Some y" for u y
    using later [OF that] div_mult_mod_eq [of y epoch_length] by simp
  ultimately show ?thesis using True none
    by (intro exI [of _ ?x] exI [of _ True]) (simp add: prvGetNextExpireTime_def Let_def)
next
  case False
  let ?e = "n div epoch_length"
  obtain t x where t: "listGET_ITEM_VALUE_OF_HEAD_ENTRY (pxCurrentTimerList st) (tls st) = w32 x" "x div epoch_length = ?e"
    "tm_cont (tls st) t = Some (pxCurrentTimerList st)" "due ?e st t = Some x" "\<forall>u y. due ?e st u = Some y \<longrightarrow> x \<le> y"
    using head_timer [OF ok False] by blast
  have x: "n < x" using future t(4) by blast
  have "\<not> w32 x \<le> w32 n" using same_epoch_le [OF t(2)] x by simp
  moreover have "x < n + epoch_length"
    using t(2) x div_mult_mod_eq [of n epoch_length] div_mult_mod_eq [of x epoch_length] mod_less_divisor [of epoch_length x] by simp
  ultimately show ?thesis using False t x
    by (intro exI [of _ x] exI [of _ False]) (auto simp: prvGetNextExpireTime_def Let_def)
qed

text \<open>C18: when nothing has expired and no command waits, the timer task goes to sleep on its command queue
  until exactly the time the first timer is due, or until the tick count overflows if that is
  earlier; if no timer is active it waits without limit.  It never sleeps past a due time.\<close>

theorem timer_task_sleeps_until_due:
  assumes "tm_ok I D st" and "xTimerQueue st = Some q"
    and "xLastTime st = w32 l" and "xTaskGetTickCount (ks (tm_sys st)) = w32 n"
    and "l \<le> n" and "n div epoch_length = l div epoch_length"
    and "n mod epoch_length \<noteq> 0 \<or> \<not> listLIST_IS_EMPTY (pxCurrentTimerList st) (tls st)"
    and "\<forall>u x. due (n div epoch_length) st u = Some x \<longrightarrow> n < x"
    and "kernel T E idle (ks (tm_sys st))" and "settled (ks (tm_sys st))" and "uxSchedulerSuspended (ks (tm_sys st)) = 0"
    and "pxCurrentTCB (ks (tm_sys st)) = Some cur" and "cur \<noteq> idle"
    and "receivers q \<in> E" and "container (EventItem cur) (ks (tm_sys st)) = None"
    and "untouched (qs (tm_sys st) q)" and "uxMessagesWaiting (qs (tm_sys st) q) = 0"
  shows "\<exists>st'. (case prvGetNextExpireTime st of (x, idle_list) \<Rightarrow> prvProcessTimerOrBlockTask cb sleep x idle_list st) = sleep st' \<and>
    due (n div epoch_length) st' = due (n div epoch_length) st \<and> calls st' = calls st \<and> xLastTime st' = w32 n \<and>
    kernel T E idle (ks (tm_sys st')) \<and> uxSchedulerSuspended (ks (tm_sys st')) = 0 \<and>
    container (EventItem cur) (ks (tm_sys st')) = Some (Event (receivers q)) \<and>
    (case time_left (ks (tm_sys st')) cur of
       None \<Rightarrow> \<forall>u. due (n div epoch_length) st u = None
     | Some w \<Rightarrow> 0 < w \<and> (\<forall>u x. due (n div epoch_length) st u = Some x \<longrightarrow> n + w \<le> x) \<and>
         ((\<exists>u. due (n div epoch_length) st u = Some (n + w)) \<or> (n + w) mod epoch_length = 0))"
proof -
  let ?e = "n div epoch_length"
  obtain x idle_list where x: "prvGetNextExpireTime st = (w32 x, idle_list)" "n < x" "x < n + epoch_length"
    "idle_list \<longleftrightarrow> (\<forall>u. tm_cont (tls st) u \<noteq> Some (pxCurrentTimerList st))" "\<not> idle_list \<longrightarrow> \<not> w32 x \<le> w32 n"
    "\<forall>u y. due ?e st u = Some y \<longrightarrow> x \<le> y" "(\<exists>u. due ?e st u = Some x) \<or> x mod epoch_length = 0"
    using next_expiry [OF assms(1,8,7)] by (elim exE conjE) (rule that)
  let ?st0 = "on_kernel vTaskSuspendAll st"
  let ?st1 = "?st0\<lparr>xLastTime := w32 n\<rparr>"
  let ?k = "vTaskSuspendAll (ks (tm_sys st))"
  define forever where "forever = (if idle_list then listLIST_IS_EMPTY (pxOverflowTimerList st) (tls st) else idle_list)"
  have sample: "prvSampleTimeNow cb ?st0 = Some (w32 n, False, ?st1)"
    using sample_same_epoch [of ?st0 l n cb] assms(3-6) by simp
  have fe: "forever \<longleftrightarrow> (\<forall>u. due ?e st u = None)"
  proof -
    have o: "listLIST_IS_EMPTY (pxOverflowTimerList st) (tls st) \<longleftrightarrow> (\<forall>u. tm_cont (tls st) u \<noteq> Some (pxOverflowTimerList st))"
      using tm_empty assms(1) by (auto simp: tm_inv_def)
    have "tm_cont (tls st) u = None \<longleftrightarrow> tm_cont (tls st) u \<noteq> Some (pxCurrentTimerList st) \<and>
        tm_cont (tls st) u \<noteq> Some (pxOverflowTimerList st)" for u
      using tlist_other [of st "the (tm_cont (tls st) u)"] assms(1) by (cases "tm_cont (tls st) u") (auto simp: tm_inv_def)
    then show ?thesis unfolding forever_def o x(4) due_None by auto
  qed
  have nw: "w32 x - w32 n = w32 (x - n)" "unat (w32 (x - n)) = x - n" using x(2,3) by (simp_all add: w32_diff)
  then have pos: "forever \<or> 0 < w32 x - w32 n" using x(2) by (simp add: word_less_nat_alt)
  have s: "kernel T E idle (ks (tm_sys ?st1))" "pxCurrentTCB (ks (tm_sys ?st1)) = Some cur"
    "container (EventItem cur) (ks (tm_sys ?st1)) = None" "untouched (qs (tm_sys ?st1) q)" "uxMessagesWaiting (qs (tm_sys ?st1) q) = 0"
    using assms(9,12,15-17) by simp_all
  obtain k' where k': "vQueueWaitForMessageRestricted q (w32 x - w32 n) forever (tm_sys ?st1) =
      Some (set_queue q (unlocked (qs (tm_sys ?st1) q)) k' (tm_sys ?st1))"
    "kernel T E idle k'" "same_ctl (ks (tm_sys ?st1)) k'" "container (EventItem cur) k' = Some (Event (receivers q))"
    "\<forall>t. t \<noteq> cur \<longrightarrow> container (EventItem t) k' = container (EventItem t) (ks (tm_sys ?st1))"
    "time_left k' cur = (if forever then None else Some (unat (w32 x - w32 n)))"
    using wait_restricted [OF s(1,2) assms(13,14) s(3) pos s(4,5)] by blast
  note f = same_ctl_D [OF k'(3)]
  have q0: "xPendedTicks (ks (tm_sys st)) = 0" "pending (ks (tm_sys st)) = {}"
    using settled_quiet [OF assms(10,11)] by simp_all
  have "container (EventItem t) k' \<noteq> Some PendingReady" for t
    using k'(4,5) q0(2) by (cases "t = cur") (auto simp: pending_def)
  then have pend: "pending k' = {}" by (simp add: pending_def)
  have q1: "uxSchedulerSuspended k' = 1" "xPendedTicks k' = 0" using f assms(11) q0(1) by simp_all
  obtain y k2 where r: "xTaskResumeAll k' = Some (y, k2)" "kernel T E idle k2"
    "\<forall>t. container (EventItem t) k2 = container (EventItem t) k'" "time_left k2 = time_left k'" "uxSchedulerSuspended k2 = 0"
    using resume_all_quiet [OF k'(2) q1 pend] by blast
  let ?sys = "set_queue q (unlocked (qs (tm_sys ?st1) q)) k' (tm_sys ?st1)"
  let ?st2 = "on_kernel (\<lambda>_. k2) (?st1\<lparr>tm_sys := ?sys\<rparr>)"
  let ?st3 = "if \<not> y then on_kernel taskYIELD_IF_USING_PREEMPTION ?st2 else ?st2"
  have resume: "resume_timers (?st1\<lparr>tm_sys := ?sys\<rparr>) = Some (y, ?st2)" by (simp add: resume_timers_def r(1))
  have fold: "(if idle_list then listLIST_IS_EMPTY (pxOverflowTimerList ?st1) (tls ?st1) else idle_list) = forever"
    by (simp add: forever_def)
  have cond: "(\<not> idle_list \<and> w32 x \<le> w32 n) = False" using x(5) by blast
  have queue: "xTimerQueue ?st1 = Some q" using assms(2) by simp
  have run: "prvProcessTimerOrBlockTask cb sleep (w32 x) idle_list st = sleep ?st3"
    unfolding prvProcessTimerOrBlockTask_def sample Let_def
    by (simp only: Option.bind.simps prod.case fold cond if_False if_True not_False_eq_True queue k'(1) resume)
  have k3: "kernel T E idle (ks (tm_sys ?st3))" "uxSchedulerSuspended (ks (tm_sys ?st3)) = 0"
    "container (EventItem cur) (ks (tm_sys ?st3)) = Some (Event (receivers q))" "time_left (ks (tm_sys ?st3)) cur = time_left k' cur"
    using r k'(4) by simp_all
  have same: "due ?e ?st3 = due ?e st" "calls ?st3 = calls st" "xLastTime ?st3 = w32 n" by simp_all
  have "n + (x - n) = x" using x(2) by simp
  then show ?thesis
    unfolding x(1) prod.case run by (intro exI [of _ ?st3] conjI same k3(1-3) refl)
      (use x(2,6,7) fe k'(6) nw in \<open>simp add: k3(4)\<close>)
qed

theorem timer_task_sleeps_until_due_witness:
  "\<exists>st'. (case prvGetNextExpireTime started_w of (x, idle_list) \<Rightarrow>
      prvProcessTimerOrBlockTask (\<lambda>f t st. Some st) Some x idle_list started_w) = Some st' \<and>
    time_left (ks (tm_sys st')) 5 = Some 10"
proof -
  have s: "timer_sys (tm_sys started_w)" using started_w(1) by (simp add: tm_inv_def)
  note k = s [unfolded timer_sys_def]
  have d: "due (0 div epoch_length) started_w = [1 \<mapsto> 10]" using started_w(2) by simp
  have on: "tm_cont (tls started_w) 1 = Some (pxCurrentTimerList started_w)"
    using due_epoch(1) [of 0 started_w 1 10] started_w(2) by simp
  then have ne: "(0 :: nat) mod epoch_length \<noteq> 0 \<or> \<not> listLIST_IS_EMPTY (pxCurrentTimerList started_w) (tls started_w)"
    using tm_empty started_w(1) by (auto simp: tm_inv_def)
  have t: "xLastTime started_w = w32 0" "xTaskGetTickCount (ks (tm_sys started_w)) = w32 0" "(0 :: nat) \<le> 0"
    "0 div epoch_length = 0 div epoch_length" "\<forall>u x. due (0 div epoch_length) started_w u = Some x \<longrightarrow> 0 < x"
    using k started_w(4) d by (auto simp: xTaskGetTickCount_def split: if_splits)
  have q: "kernel {0, 3, 5} {6, 7} 0 (ks (tm_sys started_w))" "settled (ks (tm_sys started_w))"
    "uxSchedulerSuspended (ks (tm_sys started_w)) = 0" "pxCurrentTCB (ks (tm_sys started_w)) = Some 5" "(5 :: nat) \<noteq> 0"
    "receivers 2 \<in> {6, 7 :: nat}" "container (EventItem 5) (ks (tm_sys started_w)) = None"
    "untouched (qs (tm_sys started_w) 2)" "uxMessagesWaiting (qs (tm_sys started_w) 2) = 0"
    using k length_contents [of "qs (tm_sys started_w) 2"]
    by (auto simp: queues_ok_def untouched_def lock_values unat_eq_0)
  obtain st' where st': "(case prvGetNextExpireTime started_w of (x, idle_list) \<Rightarrow>
      prvProcessTimerOrBlockTask (\<lambda>f t st. Some st) Some x idle_list started_w) = Some st'"
    "case time_left (ks (tm_sys st')) 5 of None \<Rightarrow> \<forall>u. due (0 div epoch_length) started_w u = None
     | Some w \<Rightarrow> 0 < w \<and> (\<forall>u x. due (0 div epoch_length) started_w u = Some x \<longrightarrow> 0 + w \<le> x) \<and>
         ((\<exists>u. due (0 div epoch_length) started_w u = Some (0 + w)) \<or> (0 + w) mod epoch_length = 0)"
    using timer_task_sleeps_until_due [where sleep = Some and cb = "\<lambda>f t st. Some st", OF started_w(1,3) t(1-4) ne t(5) q] by blast
  have "time_left (ks (tm_sys st')) 5 = Some 10"
    using st'(2) unfolding d by (auto split: option.splits if_splits)
  then show ?thesis using st'(1) by blast
qed

subsection \<open>Serving what has expired\<close>

definition kernel_at :: "task set \<Rightarrow> nat set \<Rightarrow> task \<Rightarrow> u32 \<Rightarrow> qsys \<Rightarrow> bool" where
  "kernel_at T E idle k sys \<longleftrightarrow> kernel T E idle (ks sys) \<and> settled (ks sys) \<and> uxSchedulerSuspended (ks sys) = k"

lemma suspend_at:
  assumes "tm_ok (kernel_at T E idle 0) D st"
  shows "tm_ok (kernel_at T E idle 1) D (on_kernel vTaskSuspendAll st)"
  using assms by (simp add: tm_inv_def kernel_at_def xTimerIsTimerActive_def settled_def)

lemma resume_at:
  assumes "tm_ok (kernel_at T E idle 1) D st"
  shows "\<exists>y k. resume_timers st = Some (y, on_kernel (\<lambda>_. k) st) \<and> tm_ok (kernel_at T E idle 0) D (on_kernel (\<lambda>_. k) st)"
proof -
  have k: "kernel T E idle (ks (tm_sys st))" "settled (ks (tm_sys st))" "uxSchedulerSuspended (ks (tm_sys st)) = 1"
    using assms by (simp_all add: tm_inv_def kernel_at_def)
  obtain y st1 k' where r: "xTaskResumeAll (ks (tm_sys st)) = Some (y, k')" "kernel T E idle k'"
    "wakes (pending (ks (tm_sys st))) ((ks (tm_sys st))\<lparr>uxSchedulerSuspended := 0\<rparr>) st1"
    "after_ticks T E (unat (xPendedTicks (ks (tm_sys st)))) st1 (k'\<lparr>yields := yields (ks (tm_sys st))\<rparr>)"
    using TasksRun.resume_all [OF k(1,3)] by blast
  have "settled k'" using resume_all_ok [OF k(1,2)] r(1) k(3) by simp
  moreover have "uxSchedulerSuspended k' = 0"
    using r(4) wakes_D [OF r(3)] by (simp add: after_ticks_def)
  ultimately have "tm_ok (kernel_at T E idle 0) D (on_kernel (\<lambda>_. k') st)"
    using assms r(2) by (simp add: tm_inv_def kernel_at_def xTimerIsTimerActive_def)
  then show ?thesis using r(1) by (intro exI [of _ y] exI [of _ k']) (simp add: resume_timers_def)
qed

lemma frame_on_kernel [simp]:
  "tm_frame st (on_kernel f st)" "same_schedule n e e st (on_kernel f st) u" "same_schedule n e e (on_kernel f st) st' u = same_schedule n e e st st' u"
  by (simp_all add: tm_frame_def same_schedule_def xTimerGetReloadMode_def)

text \<open>C17: when a timer has expired, or the tick count has overflowed since the last reading, the timer task does
  not sleep.  No timer loses or gains a callback or drifts, however late it is served: callbacks made and still to come
  add up as before at every later time.  Without overflow it serves the timer that was due first.\<close>

theorem timer_task_keeps_schedules:
  assumes "quiet (kernel_at T E idle 0) cb" and "quiet (kernel_at T E idle 1) cb" and "tm_ok (kernel_at T E idle 0) D st"
    and "xLastTime st = w32 l" and "xTaskGetTickCount (ks (tm_sys st)) = w32 n" and "l \<le> n" and "n < l + epoch_length"
    and "n div epoch_length \<noteq> l div epoch_length \<or> (\<exists>u y. due (l div epoch_length) st u = Some y \<and> y \<le> n)"
  shows "\<exists>st'. (case prvGetNextExpireTime st of (x, idle_list) \<Rightarrow> prvProcessTimerOrBlockTask cb sleep x idle_list st) = Some st' \<and>
    tm_ok (kernel_at T E idle 0) D st' \<and> xLastTime st' = w32 n \<and>
    (\<forall>u. same_schedule n (l div epoch_length) (n div epoch_length) st st' u) \<and>
    (n div epoch_length = l div epoch_length \<longrightarrow>
      (\<exists>t x. due (n div epoch_length) st t = Some x \<and> (\<forall>u y. due (n div epoch_length) st u = Some y \<longrightarrow> x \<le> y) \<and>
        served (n div epoch_length) n t st st'))"
proof (cases "n div epoch_length = l div epoch_length")
  case True
  let ?e = "n div epoch_length" and ?I = "kernel_at T E idle"
  let ?st0 = "on_kernel vTaskSuspendAll st"
  let ?st1 = "?st0\<lparr>xLastTime := w32 n\<rparr>"
  obtain v y where y: "due ?e st v = Some y" "y \<le> n" using assms(8) True by auto
  have "y div epoch_length \<le> ?e" using y(2) by (rule div_le_mono)
  then have "y div epoch_length = ?e" using due_epoch [OF y(1)] by linarith
  then have "tm_cont (tls st) v = Some (pxCurrentTimerList st)" using due_epoch(1) [OF y(1)] by blast
  then have ne: "\<not> listLIST_IS_EMPTY (pxCurrentTimerList st) (tls st)"
    using tm_empty assms(3) by (auto simp: tm_inv_def)
  obtain t x where t: "listGET_OWNER_OF_HEAD_ENTRY (pxCurrentTimerList st) (tls st) = t"
    "listGET_ITEM_VALUE_OF_HEAD_ENTRY (pxCurrentTimerList st) (tls st) = w32 x" "x div epoch_length = ?e"
    "tm_cont (tls st) t = Some (pxCurrentTimerList st)" "due ?e st t = Some x" "\<forall>u y. due ?e st u = Some y \<longrightarrow> x \<le> y"
    using head_timer [OF assms(3) ne] by blast
  have x: "x \<le> n" using t(6) y by (meson le_trans)
  have next_time: "prvGetNextExpireTime st = (w32 x, False)" using ne t(2) by (simp add: prvGetNextExpireTime_def Let_def)
  have sample: "prvSampleTimeNow cb ?st0 = Some (w32 n, False, ?st1)"
    using sample_same_epoch [of ?st0 l n cb] assms(4-6) True by simp
  have "tm_ok (?I 1) D ?st1" using suspend_at [OF assms(3)] by (simp add: tm_inv_def xTimerIsTimerActive_def)
  then obtain b k where k: "resume_timers ?st1 = Some (b, on_kernel (\<lambda>_. k) ?st1)" "tm_ok (?I 0) D (on_kernel (\<lambda>_. k) ?st1)"
    using resume_at by blast
  let ?st2 = "on_kernel (\<lambda>_. k) ?st1"
  have eq: "tls ?st2 = tls st" "pxCurrentTimerList ?st2 = pxCurrentTimerList st" "due ?e ?st2 = due ?e st" by simp_all
  obtain st' where st': "prvProcessExpiredTimer cb (w32 x) (w32 n) ?st2 = Some st'" "tm_ok (?I 0) D st'" "tm_frame ?st2 st'"
    "served ?e n t ?st2 st'"
    using expired_timer [OF assms(1) k(2) refl _ _ _ x t(3), of t] t(1,4,5) unfolding eq by blast
  have "w32 x \<le> w32 n" using same_epoch_le [OF t(3)] x by simp
  then have run: "prvProcessTimerOrBlockTask cb sleep (w32 x) False st = Some st'"
    unfolding prvProcessTimerOrBlockTask_def sample using k(1) st'(1) by simp
  have s: "served ?e n t st st'" using st'(4) by (simp add: served_def xTimerGetReloadMode_def)
  have "xLastTime st' = w32 n" using st'(3) by (simp add: tm_frame_def)
  moreover have "same_schedule n ?e ?e st st' u" for u by (rule served_schedule [OF assms(3) s])
  ultimately show ?thesis
    unfolding next_time prod.case run using st'(2) s t(5,6) True by (intro exI [of _ st']) auto
next
  case False
  let ?e = "n div epoch_length" and ?I = "kernel_at T E idle"
  let ?st0 = "on_kernel vTaskSuspendAll st"
  have st0: "xLastTime ?st0 = w32 l" "xTaskGetTickCount (ks (tm_sys ?st0)) = w32 n" using assms(4,5) by simp_all
  obtain sw st1 where st1: "prvSampleTimeNow cb ?st0 = Some (w32 n, sw, st1)" "sw \<longleftrightarrow> ?e \<noteq> l div epoch_length" "tm_ok (?I 1) D st1"
    "xLastTime st1 = w32 n" "\<forall>u. same_schedule n (l div epoch_length) ?e ?st0 st1 u"
    using sample_time [OF assms(2) suspend_at [OF assms(3)] st0(1) assms(6,7) st0(2)] by blast
  obtain b k where k: "resume_timers st1 = Some (b, on_kernel (\<lambda>_. k) st1)" "tm_ok (?I 0) D (on_kernel (\<lambda>_. k) st1)"
    using resume_at [OF st1(3)] by blast
  have run: "prvProcessTimerOrBlockTask cb sleep x idle_list st = Some (on_kernel (\<lambda>_. k) st1)" for x idle_list
    unfolding prvProcessTimerOrBlockTask_def st1(1) using st1(2) False k(1) by simp
  have "same_schedule n (l div epoch_length) ?e st (on_kernel (\<lambda>_. k) st1) u" for u
    using st1(5) [THEN spec, of u] by (simp add: same_schedule_def xTimerGetReloadMode_def)
  then show ?thesis unfolding run using False k(2) st1(4)
    by (intro exI [of _ "on_kernel (\<lambda>_. k) st1"]) (simp split: prod.split)
qed

text \<open>35 ticks after the start of the timer of period 10: it fires three times and is due at 40.\<close>

theorem timer_task_keeps_schedules_witness:
  "\<exists>k st'. ticks 35 (ks (tm_sys started_w)) = Some k \<and>
    (case prvGetNextExpireTime (on_kernel (\<lambda>_. k) started_w) of (x, idle_list) \<Rightarrow>
       prvProcessTimerOrBlockTask (\<lambda>f t st. Some st) Some x idle_list (on_kernel (\<lambda>_. k) started_w)) = Some st' \<and>
    due 0 st' 1 = Some 40 \<and> calls st' = calls started_w @ [1, 1, 1]"
proof -
  have s: "timer_sys (tm_sys started_w)" using started_w(1) by (simp add: tm_inv_def)
  have k0: "kernel {0, 3, 5} {6, 7} 0 (ks (tm_sys started_w))" "settled (ks (tm_sys started_w))"
    "uxSchedulerSuspended (ks (tm_sys started_w)) = 0" "xTickCount (ks (tm_sys started_w)) = 0"
    using s by (auto simp: timer_sys_def queues_ok_def)
  obtain k where k: "ticks 35 (ks (tm_sys started_w)) = Some k" "kernel {0, 3, 5} {6, 7} 0 k" "settled k"
    "after_ticks {0, 3, 5} {6, 7} 35 (ks (tm_sys started_w)) k"
    using ticks_ok [OF k0(1-3)] by blast
  let ?st = "on_kernel (\<lambda>_. k) started_w"
  have "clock k mod 2 ^ 32 = (clock (ks (tm_sys started_w)) + 35) mod 2 ^ 64 mod 2 ^ 32" using k(4) by (simp add: after_ticks_def)
  then have "unat (xTickCount k) = 35"
    using unat_u32_less [of "xTickCount k"] k0(4) by (simp add: clock_def mod_mod_cancel mod_simps)
  then have tick: "xTaskGetTickCount (ks (tm_sys ?st)) = w32 35" by (metis on_kernel_simps(1) w32_unat xTaskGetTickCount_def)
  have "uxSchedulerSuspended k = 0" using k(4) k0(3) by (simp add: after_ticks_def)
  then have ok: "tm_ok (kernel_at {0, 3, 5} {6, 7} 0 0) {1} ?st"
    using started_w(1) k(2,3) by (simp add: tm_inv_def kernel_at_def xTimerIsTimerActive_def)
  have t: "xLastTime ?st = w32 0" "(0 :: nat) \<le> 35" "35 < 0 + epoch_length"
    "35 div epoch_length \<noteq> 0 div epoch_length \<or> (\<exists>u y. due (0 div epoch_length) ?st u = Some y \<and> y \<le> 35)"
    using started_w(2,4) by auto
  have p: "xTimerGetReloadMode 1 ?st" "period ?st 1 = 10"
    using started_w(5,6) by (simp_all add: xTimerGetReloadMode_def)
  have d: "due 0 ?st = [1 \<mapsto> 10]" using started_w(2) by simp
  obtain st' where st': "(case prvGetNextExpireTime ?st of (x, idle_list) \<Rightarrow>
       prvProcessTimerOrBlockTask (\<lambda>f t st. Some st) Some x idle_list ?st) = Some st'"
    "\<exists>t x. due (35 div epoch_length) ?st t = Some x \<and> served (35 div epoch_length) 35 t ?st st'"
    using timer_task_keeps_schedules [where sleep = Some, OF quiet_noop quiet_noop ok t(1) tick t(2-4)] by auto
  then have "served 0 35 1 ?st st'" using d by (auto split: if_splits)
  then have "due 0 st' 1 = Some 40" "calls st' = calls started_w @ [1, 1, 1]"
    using p d by (simp_all add: served_def next_due_def firings_def numeral_3_eq_3)
  then show ?thesis using k(1) st'(1) by blast
qed

end
