(* ===== verification/TimersQueue.thy ===== *)
theory TimersQueue
  imports TimersTask
begin

text \<open>
  Commands on their way: what a task sends to the command queue is what the timer task serves; and
  the creation of a timer.
\<close>

subsection \<open>The command queue\<close>

text \<open>The commands \<open>ms\<close> wait in the queue; the scheduler is running.\<close>

definition commands_in :: "task set \<Rightarrow> nat set \<Rightarrow> task \<Rightarrow> nat set \<Rightarrow> nat \<Rightarrow> bool \<Rightarrow> DaemonTaskMessage_t list \<Rightarrow> qsys \<Rightarrow> bool" where
  "commands_in T E idle Q q big ms sys \<longleftrightarrow> fifo_ok T E idle Q q sys \<and> uxSchedulerSuspended (ks sys) = 0 \<and>
     qsz (qs sys q) = 12 \<and> contents (qs sys q) = map (message_bytes big) ms"

lemma message_roundtrip [simp]: "bytes_message big (message_bytes big m) = m"
  by (cases m) (simp add: bytes_message_def message_bytes_def)

lemma length_message [simp]: "length (message_bytes big m) = 12"
  by (simp add: message_bytes_def)

lemma first_woken_tick:
  assumes "first_woken W k k'" and "uxSchedulerSuspended k = 0"
  shows "uxSchedulerSuspended k' = 0" "xTaskGetTickCount k' = xTaskGetTickCount k"
  using assms by (auto simp: first_woken_def xTaskGetTickCount_def dest: wakes_D(5,6) split: list.splits)

lemma send_command:
  assumes c: "commands_in T E idle Q q big ms sys" and room: "length ms < qlen (qs sys q)"
  shows "\<exists>sys'. xQueueGenericSend world q (message_bytes big m) n queueSEND_TO_BACK sys = Some (True, sys') \<and>
    commands_in T E idle Q q big (ms @ [m]) sys' \<and> qlen (qs sys' q) = qlen (qs sys q) \<and>
    xTaskGetTickCount (ks sys') = xTaskGetTickCount (ks sys)"
proof -
  obtain W where W: "queues_ok T E idle Q W sys" "q \<in> Q" "\<not> is_mutex (qs sys q)"
    using c by (auto simp: commands_in_def fifo_ok_def)
  have "length (contents (qs sys q)) = length ms" using c by (simp add: commands_in_def)
  then have r: "has_room queueSEND_TO_BACK (qs sys q)" using room by (simp add: has_room_def)
  have l: "length (message_bytes big m) = qsz (qs sys q)" using c by (simp add: commands_in_def)
  obtain sys' where s: "xQueueGenericSend_enter q (message_bytes big m) n queueSEND_TO_BACK sys = Some (Return True, sys')"
    "queues_ok T E idle Q (W(receivers q := tl (W (receivers q)))) sys'"
    "contents (qs sys' q) = enqueue queueSEND_TO_BACK (message_bytes big m) (contents (qs sys q))" "same_shape (qs sys q) (qs sys' q)"
    "first_woken (W (receivers q)) (ks sys) (ks sys')"
    using send_room [OF W r l] by blast
  have "uxSchedulerSuspended (ks sys) = 0" using c by (simp add: commands_in_def)
  note w = first_woken_tick [OF s(5) this]
  have "commands_in T E idle Q q big (ms @ [m]) sys'"
    using c s(2,3,4) W(2,3) w(1) fifo_ok_I [OF s(2) W(2)] by (simp add: commands_in_def same_shape_def enqueue_def)
  then show ?thesis using send_returns [OF s(1)] s(4) w(2) by (auto simp: same_shape_def)
qed

lemma receive_command:
  assumes c: "commands_in T E idle Q q big (m # ms) sys"
  shows "\<exists>sys'. xQueueReceive world q n sys = Some (Some (message_bytes big m), sys') \<and>
    commands_in T E idle Q q big ms sys' \<and> xTaskGetTickCount (ks sys') = xTaskGetTickCount (ks sys)"
proof -
  obtain W where W: "queues_ok T E idle Q W sys" "q \<in> Q" "\<not> is_mutex (qs sys q)"
    using c by (auto simp: commands_in_def fifo_ok_def)
  have ne: "contents (qs sys q) = message_bytes big m # map (message_bytes big) ms" using c by (simp add: commands_in_def)
  obtain sys' where s: "xQueueReceive_enter q n sys = Some (Return (Some (message_bytes big m)), sys')"
    "queues_ok T E idle Q (W(senders q := tl (W (senders q)))) sys'"
    "contents (qs sys' q) = map (message_bytes big) ms" "same_shape (qs sys q) (qs sys' q)"
    "first_woken (W (senders q)) (ks sys) (ks sys')"
    using receive_item [OF W ne] by blast
  have "uxSchedulerSuspended (ks sys) = 0" using c by (simp add: commands_in_def)
  note w = first_woken_tick [OF s(5) this]
  have "commands_in T E idle Q q big ms sys'"
    using c s(2,3,4) W(2,3) w(1) fifo_ok_I [OF s(2) W(2)] by (simp add: commands_in_def same_shape_def)
  then show ?thesis using receive_returns [OF s(1)] w(2) by blast
qed

lemma no_command:
  assumes "commands_in T E idle Q q big [] sys"
  shows "xQueueReceive world q 0 sys = Some (None, sys)"
proof -
  have "qn (qs sys q) = 0" using assms length_contents [of "qs sys q"] by (simp add: commands_in_def)
  then have "uxMessagesWaiting (qs sys q) = 0" by (simp add: unat_eq_0)
  then show ?thesis using receive_empty(1) [of sys q 0] by (intro receive_returns) simp
qed

text \<open>The timer task serves the commands in the order in which they were sent.\<close>

lemma serve_one:
  assumes "xTimerQueue st = Some q" and "commands_in T E idle Q q big (m # ms) (tm_sys st)"
  shows "\<exists>sys. commands_in T E idle Q q big ms sys \<and> xTaskGetTickCount (ks sys) = xTaskGetTickCount (ks (tm_sys st)) \<and>
    prvProcessReceivedCommands big cb world st =
      Option.bind (process_command cb m (st\<lparr>tm_sys := sys\<rparr>)) (prvProcessReceivedCommands big cb world)"
proof -
  obtain sys where sys: "xQueueReceive world q tmrNO_DELAY (tm_sys st) = Some (Some (message_bytes big m), sys)"
    "commands_in T E idle Q q big ms sys" "xTaskGetTickCount (ks sys) = xTaskGetTickCount (ks (tm_sys st))"
    using receive_command [OF assms(2)] by blast
  then show ?thesis
    by (intro exI [of _ sys] conjI) (simp_all add: prvProcessReceivedCommands.simps [of big cb world st] assms(1))
qed

lemma serve_none:
  assumes "xTimerQueue st = Some q" and "commands_in T E idle Q q big [] (tm_sys st)"
  shows "prvProcessReceivedCommands big cb world st = Some st"
  using no_command [OF assms(2)] by (subst prvProcessReceivedCommands.simps) (simp add: assms(1) tmrNO_DELAY_def)

text \<open>C16: starting a timer, from the caller to the timer task.  With room in the command queue the call succeeds
  without waiting and the queue holds the one command.  Whenever the timer task gets to it, at any time
  less than an epoch later, the timer is due at the first multiple of its period after the call that is
  still to come, its callback has been made for each multiple that has passed (once, if it does not reload itself), and all
  other timers are on schedule.\<close>

theorem timer_start_takes_effect:
  assumes "quiet (commands_in T E idle Q q big []) cb" and "tm_ok (commands_in T E idle Q q big []) D st" and "t \<in> D"
    and "xTimerQueue st = Some q" and "0 < qlen (qs (tm_sys st) q)"
    and "k \<in> {tmrCOMMAND_START, tmrCOMMAND_RESET}"
    and "xTaskGetTickCount (ks (tm_sys st)) = w32 c" and "xLastTime st = w32 l"
  shows "\<exists>sys. xTimerGenericCommand big world t k (xTaskGetTickCount (ks (tm_sys st))) wait st =
      Some (True, False, st\<lparr>tm_sys := sys\<rparr>) \<and> commands_in T E idle Q q big [\<lparr>xMessageID = k, xMessageValue = w32 c, pxTimer = t\<rparr>] sys \<and>
    xTaskGetTickCount (ks sys) = w32 c \<and>
    (\<forall>n later. commands_in T E idle Q q big [\<lparr>xMessageID = k, xMessageValue = w32 c, pxTimer = t\<rparr>] later \<and>
        xTaskGetTickCount (ks later) = w32 n \<and> c \<le> n \<and> n < c + epoch_length \<and> l \<le> n \<and> n < l + epoch_length \<longrightarrow>
      (\<exists>st'. prvProcessReceivedCommands big cb world' (st\<lparr>tm_sys := later\<rparr>) = Some st' \<and>
        tm_ok (commands_in T E idle Q q big []) D st' \<and>
        due (n div epoch_length) st' t = next_due (xTimerGetReloadMode t st) (period st t) n (Some (c + period st t)) \<and>
        count_list (calls st') t = count_list (calls st) t + firings (xTimerGetReloadMode t st) (period st t) n (Some (c + period st t)) \<and>
        (\<forall>u. u \<noteq> t \<longrightarrow> same_schedule n (l div epoch_length) (n div epoch_length) st st' u)))"
proof -
  let ?I = "commands_in T E idle Q q big []" and ?m = "\<lparr>xMessageID = k, xMessageValue = w32 c, pxTimer = t\<rparr>"
  have I: "?I (tm_sys st)" using assms(2) by (simp add: tm_inv_def)
  have room: "length [] < qlen (qs (tm_sys st) q)" using assms(5) by simp
  have task: "k <s tmrFIRST_FROM_ISR_COMMAND" and
    ids: "k \<in> {tmrCOMMAND_START, tmrCOMMAND_START_FROM_ISR, tmrCOMMAND_RESET, tmrCOMMAND_RESET_FROM_ISR}"
    using assms(6) by (auto simp: tmrCOMMAND_START_def tmrCOMMAND_RESET_def tmrFIRST_FROM_ISR_COMMAND_def word_sless_alt)
  define w where "w = (if xTaskGetSchedulerState (ks (tm_sys st)) = taskSCHEDULER_RUNNING then wait else tmrNO_DELAY)"
  obtain sys where sys: "xQueueGenericSend world q (message_bytes big ?m) w queueSEND_TO_BACK (tm_sys st) = Some (True, sys)"
    "commands_in T E idle Q q big [?m] sys" "xTaskGetTickCount (ks sys) = w32 c"
    using send_command [OF I room, of world ?m w] assms(7) by auto
  have sent: "xTimerGenericCommand big world t k (xTaskGetTickCount (ks (tm_sys st))) wait st = Some (True, False, st\<lparr>tm_sys := sys\<rparr>)"
    using task sys(1) by (simp add: xTimerGenericCommand_def assms(4,7) w_def Let_def split: if_splits)
  have "\<exists>st'. prvProcessReceivedCommands big cb world' (st\<lparr>tm_sys := later\<rparr>) = Some st' \<and> tm_ok ?I D st' \<and>
      due (n div epoch_length) st' t = next_due (xTimerGetReloadMode t st) (period st t) n (Some (c + period st t)) \<and>
      count_list (calls st') t = count_list (calls st) t + firings (xTimerGetReloadMode t st) (period st t) n (Some (c + period st t)) \<and>
      (\<forall>u. u \<noteq> t \<longrightarrow> same_schedule n (l div epoch_length) (n div epoch_length) st st' u)"
    if later: "commands_in T E idle Q q big [?m] later" "xTaskGetTickCount (ks later) = w32 n" "c \<le> n" "n < c + epoch_length"
      "l \<le> n" "n < l + epoch_length" for n later
  proof -
    obtain sys2 where sys2: "?I sys2" "xTaskGetTickCount (ks sys2) = w32 n"
      "prvProcessReceivedCommands big cb world' (st\<lparr>tm_sys := later\<rparr>) =
         Option.bind (process_command cb ?m (st\<lparr>tm_sys := sys2\<rparr>)) (prvProcessReceivedCommands big cb world')"
      using serve_one [of "st\<lparr>tm_sys := later\<rparr>" q T E idle Q big ?m "[]" cb world'] assms(4) later(1,2) by auto
    let ?s = "st\<lparr>tm_sys := sys2\<rparr>"
    have ok: "tm_ok ?I D ?s" using assms(2) sys2(1) by (simp add: tm_inv_def xTimerIsTimerActive_def)
    obtain st' where st': "process_command cb ?m ?s = Some st'" "tm_ok ?I D st'"
      "due (n div epoch_length) st' t = next_due (xTimerGetReloadMode t ?s) (period ?s t) n (Some (c + period ?s t))"
      "count_list (calls st') t = count_list (calls ?s) t + firings (xTimerGetReloadMode t ?s) (period ?s t) n (Some (c + period ?s t))"
      "\<forall>u. u \<noteq> t \<longrightarrow> same_schedule n (l div epoch_length) (n div epoch_length) ?s st' u" "xTimerQueue st' = Some q"
      using start_command_run [OF assms(1) ok assms(3), of ?m c l n] ids assms(4,8) sys2(2) later(3-6) by (auto simp: tm_keep_def)
    have "?I (tm_sys st')" using st'(2) by (simp add: tm_inv_def)
    then have "prvProcessReceivedCommands big cb world' (st\<lparr>tm_sys := later\<rparr>) = Some st'"
      using sys2(3) st'(1) serve_none [OF st'(6)] by simp
    then show ?thesis using st'(2-5) by (intro exI [of _ st']) (simp add: xTimerGetReloadMode_def same_schedule_def)
  qed
  then show ?thesis using sent sys(2,3) by blast
qed

theorem timer_start_takes_effect_witness:
  "\<exists>sys st'. xTimerGenericCommand False (\<lambda>_. Some) 1 tmrCOMMAND_START (xTaskGetTickCount (ks (tm_sys timers_w))) 0 timers_w =
      Some (True, False, timers_w\<lparr>tm_sys := sys\<rparr>) \<and>
    prvProcessReceivedCommands False (\<lambda>f t st. Some st) (\<lambda>_. Some) (timers_w\<lparr>tm_sys := sys\<rparr>) = Some st' \<and> due 0 st' 1 = Some 10"
proof -
  let ?I = "commands_in {0, 3, 5} {6, 7} 0 {2} 2 False []" and ?m = "\<lparr>xMessageID = tmrCOMMAND_START, xMessageValue = w32 0, pxTimer = 1\<rparr>"
  have s: "timer_sys (tm_sys timers_w)" by (rule timers_w(8))
  then have "?I (tm_sys timers_w)"
    unfolding timer_sys_def commands_in_def by (auto intro: fifo_ok_I)
  then have ok: "tm_ok ?I {1} timers_w" using timers_w(1) by (simp add: tm_inv_def)
  have h: "(1 :: u32) \<in> {1}" "0 < qlen (qs (tm_sys timers_w) 2)" "tmrCOMMAND_START \<in> {tmrCOMMAND_START, tmrCOMMAND_RESET}"
    "xTaskGetTickCount (ks (tm_sys timers_w)) = w32 0" "xLastTime timers_w = w32 0"
    using s timers_w(3) by (simp_all add: timer_sys_def xTaskGetTickCount_def)
  obtain sys where sys: "xTimerGenericCommand False (\<lambda>_. Some) 1 tmrCOMMAND_START (xTaskGetTickCount (ks (tm_sys timers_w))) 0 timers_w =
      Some (True, False, timers_w\<lparr>tm_sys := sys\<rparr>)" "commands_in {0, 3, 5} {6, 7} 0 {2} 2 False [?m] sys" "xTaskGetTickCount (ks sys) = w32 0"
    "\<exists>st'. prvProcessReceivedCommands False (\<lambda>f t st. Some st) (\<lambda>_. Some) (timers_w\<lparr>tm_sys := sys\<rparr>) = Some st' \<and> due 0 st' 1 = Some 10"
    using timer_start_takes_effect [OF quiet_noop ok h(1) timers_w(2) h(2-5), of "\<lambda>_. Some" 0 "\<lambda>_. Some"] timers_w(6)
    by (elim exE conjE) (rule that, assumption+, fastforce)
  then show ?thesis by blast
qed

end
