(* ===== verification/Xprintf.thy ===== *)
theory Xprintf
  imports Prelude "HOL-Library.Monad_Syntax" "HOL-Library.Char_ord"
begin

text \<open>
  Formatted output, \<^verbatim>\<open>libs/xprintf.c\<close>.  A function returns the characters it sends to the serial line, in
  order; \<open>qemu\<close> says whether the build is for the emulator, where a line feed is sent alone.
\<close>

subsection \<open>Characters and strings\<close>

definition xputc :: "bool \<Rightarrow> char \<Rightarrow> string" where
  "xputc qemu c = (if \<not> qemu \<and> c = CHR 0x0A then [CHR 0x0D, c] else [c])"

text \<open>A string of C in memory: the characters up to the first zero; \<open>None\<close> if there is none.\<close>

fun cstring :: "string \<Rightarrow> string option" where
  "cstring [] = None"
| "cstring (c # m) = (if c = CHR 0x00 then Some [] else map_option ((#) c) (cstring m))"

definition xputs :: "bool \<Rightarrow> string \<Rightarrow> string" where
  "xputs qemu s = concat (map (xputc qemu) s)"

text \<open>\<^verbatim>\<open>while (j++ < w) xputc(c);\<close>, with the value of \<open>j\<close> afterwards.\<close>

function pad_loop :: "bool \<Rightarrow> char \<Rightarrow> u32 \<Rightarrow> u32 \<Rightarrow> string \<times> u32" where
  "pad_loop qemu c j w =
     (if j < w then let (s, j') = pad_loop qemu c (j + 1) w in (xputc qemu c @ s, j') else ([], j + 1))"
  by auto
termination
proof (relation "measure (\<lambda>(qemu, c, j, w). unat w - unat j)")
  fix qemu :: bool and c :: char and j w :: u32
  assume "j < w"
  moreover have "unat (j + 1) = unat j + 1"
    using \<open>j < w\<close> unat_u32_less [of w] by (simp add: word_less_nat_alt unat_word_ariths)
  ultimately show "((qemu, c, j + 1, w), (qemu, c, j, w)) \<in> measure (\<lambda>(qemu, c, j, w). unat w - unat j)"
    by (simp add: word_less_nat_alt)
qed simp

subsection \<open>Numbers\<close>

text \<open>One pass through the loop that takes a number apart: the digit and what is left.  \<open>r\<close> is the radix.\<close>

definition digit_step :: "u32 \<Rightarrow> u32 \<Rightarrow> nat \<times> u32" where
  "digit_step r v =
     (if r = 2 then (unat (v AND 1), drop_bit 1 v)
      else if r = 8 then (unat (v AND 7), drop_bit 3 v)
      else if r = 10 then (unat (v mod r), v div r)
      else if r = 16 then (unat (v AND 15), drop_bit 4 v)
      else (0, 0))"

definition digit_char :: "char \<Rightarrow> nat \<Rightarrow> char" where
  "digit_char c d = char_of ((if d > 9 then d + (if c = CHR ''x'' then 0x27 else 0x07) else d) + 48)"

text \<open>The buffer \<^verbatim>\<open>s\<close>, of 16 characters, the last digit first.\<close>

function digit_loop :: "char \<Rightarrow> u32 \<Rightarrow> u32 \<Rightarrow> nat \<Rightarrow> string" where
  "digit_loop c r v i =
     (let (d, v') = digit_step r v
      in digit_char c d # (if v' \<noteq> 0 \<and> i + 1 < 16 then digit_loop c r v' (i + 1) else []))"
  by auto
termination by (relation "measure (\<lambda>(c, r, v, i). 16 - i)") auto

text \<open>\<open>f\<close> holds the flags: 1 padded with zeros, 2 left justified, 8 negative.  \<open>None\<close>: the sign does not fit
  the buffer.\<close>

definition put_number :: "bool \<Rightarrow> char \<Rightarrow> u32 \<Rightarrow> u32 \<Rightarrow> u32 \<Rightarrow> u32 \<Rightarrow> string option" where
  "put_number qemu c r v w f =
     (let ds = digit_loop c r v 0;
          s = (if f AND 8 \<noteq> 0 then ds @ [CHR ''-''] else ds);
          j = w32 (length s);
          d = (if f AND 1 \<noteq> 0 then CHR ''0'' else CHR '' '');
          (before, j1) = (if f AND 2 = 0 then pad_loop qemu d j w else ([], j));
          (after, _) = pad_loop qemu (CHR '' '') j1 w
      in if length s \<le> 16 then Some (before @ xputs qemu (rev s) @ after) else None)"

subsection \<open>The format string\<close>

text \<open>An argument: a number, or a pointer with the memory it points to.\<close>

datatype arg = Num u32 | Str string

fun scan_width :: "u32 \<Rightarrow> string \<Rightarrow> u32 \<times> string" where
  "scan_width w [] = (w, [])"
| "scan_width w (c # fmt) =
     (if CHR ''0'' \<le> c \<and> c \<le> CHR ''9'' then scan_width (w * 10 + w32 (of_char c) - 48) fmt else (w, c # fmt))"

text \<open>The flags, the width and the size that follow a percent sign; the rest starts with the type.\<close>

definition scan_flags :: "string \<Rightarrow> u32 \<times> string" where
  "scan_flags fmt =
     (case fmt of
        c # fmt' \<Rightarrow> if c = CHR ''0'' then (1, fmt') else if c = CHR ''-'' then (2, fmt') else (0, fmt)
      | [] \<Rightarrow> (0, fmt))"

definition scan_size :: "u32 \<Rightarrow> string \<Rightarrow> u32 \<times> string" where
  "scan_size f fmt =
     (case fmt of
        c # fmt' \<Rightarrow> if c = CHR ''l'' \<or> c = CHR ''L'' then (f OR 4, fmt') else (f, fmt)
      | [] \<Rightarrow> (f, fmt))"

definition scan_spec :: "string \<Rightarrow> u32 \<times> u32 \<times> string" where
  "scan_spec fmt = (let (f, fmt1) = scan_flags fmt; (w, fmt2) = scan_width 0 fmt1; (f', fmt3) = scan_size f fmt2 in (f', w, fmt3))"

definition upper :: "char \<Rightarrow> char" where
  "upper c = (if CHR ''a'' \<le> c then char_of (of_char c - 0x20 :: nat) else c)"

text \<open>\<^verbatim>\<open>%s\<close>.\<close>

definition put_string :: "bool \<Rightarrow> string \<Rightarrow> u32 \<Rightarrow> u32 \<Rightarrow> string option" where
  "put_string qemu p w f =
     do {
       s \<leftarrow> cstring p;
       let j = w32 (length s);
       let (before, j1) = (if f AND 2 = 0 then pad_loop qemu (CHR '' '') j w else ([], j));
       let (after, _) = pad_loop qemu (CHR '' '') j1 w;
       Some (before @ xputs qemu s @ after)
     }"

text \<open>A number of type \<open>d\<close>, the type letter in upper case.  On both targets \<^verbatim>\<open>int\<close> and \<^verbatim>\<open>long\<close> have 32 bits.\<close>

definition put_typed :: "bool \<Rightarrow> char \<Rightarrow> char \<Rightarrow> u32 \<Rightarrow> u32 \<Rightarrow> u32 \<Rightarrow> u32 \<Rightarrow> string option" where
  "put_typed qemu c d r v w f =
     (if d = CHR ''D'' \<and> v AND 0x80000000 \<noteq> 0 then put_number qemu c r (0 - v) w (f OR 8) else put_number qemu c r v w f)"

definition radix_of :: "char \<Rightarrow> u32 option" where
  "radix_of d =
     (if d = CHR ''B'' then Some 2 else if d = CHR ''O'' then Some 8
      else if d = CHR ''D'' \<or> d = CHR ''U'' then Some 10 else if d = CHR ''X'' then Some 16 else None)"

lemma scan_width_shorter: "scan_width w fmt = (w', fmt') \<Longrightarrow> length fmt' \<le> length fmt"
  by (induction w fmt rule: scan_width.induct) (auto split: if_splits)

lemma scan_spec_shorter: "scan_spec fmt = (f, w, fmt') \<Longrightarrow> length fmt' \<le> length fmt"
  by (auto simp: scan_spec_def scan_flags_def scan_size_def Let_def split: list.splits if_splits prod.splits
      dest!: scan_width_shorter)

text \<open>The format string is given without its terminating zero.  \<open>None\<close>: an argument of the wrong kind, or
  none.\<close>

function xvprintf :: "bool \<Rightarrow> string \<Rightarrow> arg list \<Rightarrow> string option" where
  "xvprintf qemu [] args = Some []"
| "xvprintf qemu (c0 # fmt0) args =
     (if c0 \<noteq> CHR ''%'' then map_option ((@) (xputc qemu c0)) (xvprintf qemu fmt0 args)
      else
        (case scan_spec fmt0 of (f, w, rest) \<Rightarrow>
           (case rest of
              [] \<Rightarrow> Some []
            | c # fmt \<Rightarrow>
                let d = upper c in
                if d = CHR ''S'' then
                  (case args of
                     Str p # args' \<Rightarrow> do { s \<leftarrow> put_string qemu p w f; map_option ((@) s) (xvprintf qemu fmt args') }
                   | _ \<Rightarrow> None)
                else if d = CHR ''C'' then
                  (case args of
                     Num v # args' \<Rightarrow> map_option ((@) (xputc qemu (char_of (unat v)))) (xvprintf qemu fmt args')
                   | _ \<Rightarrow> None)
                else
                  (case radix_of d of
                     None \<Rightarrow> map_option ((@) (xputc qemu c)) (xvprintf qemu fmt args)
                   | Some r \<Rightarrow>
                       (case args of
                          Num v # args' \<Rightarrow> do { s \<leftarrow> put_typed qemu c d r v w f; map_option ((@) s) (xvprintf qemu fmt args') }
                        | _ \<Rightarrow> None)))))"
  by pat_completeness auto
termination
  by (relation "measure (\<lambda>(qemu, fmt, args). length fmt)") (auto dest!: scan_spec_shorter [OF sym])

text \<open>\<^verbatim>\<open>xprintf\<close> runs in a critical section, \<^verbatim>\<open>yprintf\<close> without.\<close>

definition xprintf :: "bool \<Rightarrow> string \<Rightarrow> arg list \<Rightarrow> string option" where
  "xprintf qemu fmt args = xvprintf qemu fmt args"

definition yprintf :: "bool \<Rightarrow> string \<Rightarrow> arg list \<Rightarrow> string option" where
  "yprintf qemu fmt args = xvprintf qemu fmt args"

end
