(* ===== verification/Shell.thy ===== *)
theory Shell
  imports Xprintf
begin

text \<open>
  The shell, \<^verbatim>\<open>libs/xshell.c\<close>.  Arrays of characters are strings of fixed length; an access outside one, or
  reading a string that has no terminating zero, is \<open>None\<close>.  \<open>sc\<close> says whether \<^verbatim>\<open>char\<close> is signed, \<open>cmds\<close> are the
  names in \<^verbatim>\<open>gsShellCommands\<close>, and the characters received are an argument.
\<close>

subsection \<open>Arrays of characters\<close>

definition put :: "nat \<Rightarrow> char \<Rightarrow> string \<Rightarrow> string option" where
  "put i c m = (if i < length m then Some (m[i := c]) else None)"

definition get :: "string \<Rightarrow> nat \<Rightarrow> char option" where
  "get m i = (if i < length m then Some (m ! i) else None)"

text \<open>\<^verbatim>\<open>memmove(&m[dst], &m[src], n)\<close>, and \<^verbatim>\<open>strcpy(&m[dst], s)\<close> where \<open>s\<close> is the memory from the source on.\<close>

definition memmove :: "string \<Rightarrow> nat \<Rightarrow> nat \<Rightarrow> nat \<Rightarrow> string option" where
  "memmove m dst src n =
     (if dst + n \<le> length m \<and> src + n \<le> length m
      then Some (take dst m @ take n (drop src m) @ drop (dst + n) m) else None)"

definition strcpy :: "string \<Rightarrow> nat \<Rightarrow> string \<Rightarrow> string option" where
  "strcpy m dst s =
     do {
       t \<leftarrow> cstring s;
       if dst + length t + 1 \<le> length m
       then Some (take dst m @ t @ [CHR 0x00] @ drop (dst + length t + 1) m) else None
     }"

text \<open>\<^verbatim>\<open>strncmp(a, b, n) == 0\<close>.\<close>

fun strncmp_eq :: "nat \<Rightarrow> string \<Rightarrow> string \<Rightarrow> bool option" where
  "strncmp_eq 0 a b = Some True"
| "strncmp_eq (Suc n) (x # a) (y # b) =
     (if x \<noteq> y then Some False else if x = CHR 0x00 then Some True else strncmp_eq n a b)"
| "strncmp_eq (Suc n) a b = None"

definition strlen :: "string \<Rightarrow> nat option" where
  "strlen s = map_option length (cstring s)"

text \<open>A string literal in memory.\<close>

definition literal :: "string \<Rightarrow> string" where
  "literal s = s @ [CHR 0x00]"

subsection \<open>State\<close>

definition SHELL_CMD_SIZE :: nat where
  "SHELL_CMD_SIZE = 128"

definition SHELL_ARG_MAX :: nat where
  "SHELL_ARG_MAX = 8"

datatype keystate = eWaitIdle | eWaitSpecKey | eWaitFuncKey

record SHELL_T =
  aszLine :: string
  eKeyState :: keystate
  ui16LinePosition :: nat
  ui16LineCurrentPosition :: nat

record shell =
  maszShellPrompt :: string
  maszShellLineHistory :: string

definition shell_init :: shell where
  "shell_init = \<lparr>maszShellPrompt = replicate 8 (CHR 0x00), maszShellLineHistory = replicate SHELL_CMD_SIZE (CHR 0x00)\<rparr>"

definition Shell_SetPrompt :: "string \<Rightarrow> shell \<Rightarrow> shell option" where
  "Shell_SetPrompt pszPrompt st =
     do {
       n \<leftarrow> strlen pszPrompt;
       let s = (if n > length (maszShellPrompt st) - 1 then literal ''$'' else pszPrompt);
       p \<leftarrow> strcpy (maszShellPrompt st) 0 s;
       k \<leftarrow> strlen s;
       p' \<leftarrow> put k (CHR 0x00) p;
       Some (st\<lparr>maszShellPrompt := p'\<rparr>)
     }"

definition Shell_Init :: "shell \<Rightarrow> shell option" where
  "Shell_Init st = Shell_SetPrompt (literal ''xsh'') st"

subsection \<open>Completion\<close>

fun complete_loop :: "bool \<Rightarrow> string list \<Rightarrow> string \<Rightarrow> nat \<Rightarrow> (string \<times> string \<times> nat) option" where
  "complete_loop qemu [] pszPrefix n = Some ([], pszPrefix, n)"
| "complete_loop qemu (c # cmds) pszPrefix n =
     do {
       eq \<leftarrow> strncmp_eq n pszPrefix (literal c);
       if eq then
         do {
           p \<leftarrow> strcpy pszPrefix n (drop n (literal c));
           out \<leftarrow> xprintf qemu ''%s '' [Str (drop n (literal c))];
           k \<leftarrow> strlen (literal c);
           p' \<leftarrow> put k (CHR '' '') p;
           Some (out, p', k + 1)
         }
       else complete_loop qemu cmds pszPrefix n
     }"

definition Shell_AutoComplete :: "bool \<Rightarrow> string list \<Rightarrow> string \<Rightarrow> nat \<Rightarrow> (string \<times> string \<times> nat) option" where
  "Shell_AutoComplete qemu cmds pszPrefix ui32Length =
     (if ui32Length = 0 then Some ([], pszPrefix, ui32Length) else complete_loop qemu cmds pszPrefix ui32Length)"

subsection \<open>Keys\<close>

text \<open>What a key does: the characters sent, whether the line is complete, the state.\<close>

type_synonym key_result = "(string \<times> bool \<times> SHELL_T) option"

definition move_to :: "nat \<Rightarrow> nat \<Rightarrow> SHELL_T \<Rightarrow> SHELL_T" where
  "move_to pos cur sh = sh\<lparr>ui16LinePosition := pos, ui16LineCurrentPosition := cur\<rparr>"

definition backspaces :: "bool \<Rightarrow> nat \<Rightarrow> string option" where
  "backspaces qemu n = map_option (\<lambda>s. concat (replicate n s)) (xprintf qemu [CHR 0x08] [])"

definition erase :: "bool \<Rightarrow> nat \<Rightarrow> string option" where
  "erase qemu n = map_option (\<lambda>s. concat (replicate n s)) (xprintf qemu [CHR 0x08, CHR '' '', CHR 0x08] [])"

definition key_up :: "bool \<Rightarrow> string \<Rightarrow> SHELL_T \<Rightarrow> key_result" where
  "key_up qemu history sh =
     do {
       o1 \<leftarrow> erase qemu (ui16LinePosition sh);
       line \<leftarrow> strcpy (aszLine sh) 0 history;
       n \<leftarrow> strlen line;
       o2 \<leftarrow> xprintf qemu ''%s'' [Str line];
       Some (o1 @ o2, False, move_to n n (sh\<lparr>aszLine := line\<rparr>))
     }"

definition key_down :: "bool \<Rightarrow> SHELL_T \<Rightarrow> key_result" where
  "key_down qemu sh = map_option (\<lambda>o1. (o1, False, move_to 0 0 sh)) (erase qemu (ui16LinePosition sh))"

definition key_right :: "bool \<Rightarrow> SHELL_T \<Rightarrow> key_result" where
  "key_right qemu sh =
     (let pos = ui16LinePosition sh; cur = ui16LineCurrentPosition sh in
      if cur < pos then
        do {
          c \<leftarrow> get (aszLine sh) cur;
          o1 \<leftarrow> xprintf qemu ''%c'' [Num (w32 (of_char c))];
          Some (o1, False, move_to pos (cur + 1) sh)
        }
      else Some ([], False, sh))"

definition key_left :: "bool \<Rightarrow> SHELL_T \<Rightarrow> key_result" where
  "key_left qemu sh =
     (let pos = ui16LinePosition sh; cur = ui16LineCurrentPosition sh in
      if cur \<noteq> 0 then map_option (\<lambda>o1. (o1, False, move_to pos (cur - 1) sh)) (xprintf qemu [CHR 0x08] [])
      else Some ([], False, sh))"

definition key_tab :: "bool \<Rightarrow> string list \<Rightarrow> SHELL_T \<Rightarrow> key_result" where
  "key_tab qemu cmds sh =
     (let pos = ui16LinePosition sh in
      if pos > 0 then
        do {
          (o1, line, n) \<leftarrow> Shell_AutoComplete qemu cmds (aszLine sh) pos;
          Some (o1, False, move_to n n (sh\<lparr>aszLine := line\<rparr>))
        }
      else
        do {
          l1 \<leftarrow> strcpy (aszLine sh) 0 (literal ''help'');
          n \<leftarrow> strlen l1;
          l2 \<leftarrow> put n (CHR 0x00) l1;
          Some ([], True, move_to n n (sh\<lparr>aszLine := l2\<rparr>))
        })"

definition key_backspace :: "bool \<Rightarrow> SHELL_T \<Rightarrow> key_result" where
  "key_backspace qemu sh =
     (if ui16LineCurrentPosition sh = 0 then Some ([], False, sh)
      else
        let pos = ui16LinePosition sh - 1; cur = ui16LineCurrentPosition sh - 1 in
        if cur < pos then
          do {
            l1 \<leftarrow> memmove (aszLine sh) cur (cur + 1) (pos - cur);
            l2 \<leftarrow> put pos (CHR 0x00) l1;
            o1 \<leftarrow> xprintf qemu (CHR 0x08 # ''%s '') [Str (drop cur l2)];
            o2 \<leftarrow> backspaces qemu (pos - cur + 1);
            Some (o1 @ o2, False, move_to pos cur (sh\<lparr>aszLine := l2\<rparr>))
          }
        else
          do {
            o1 \<leftarrow> erase qemu 1;
            l1 \<leftarrow> put pos (CHR 0x00) (aszLine sh);
            Some (o1, False, move_to pos cur (sh\<lparr>aszLine := l1\<rparr>))
          })"

definition key_enter :: "SHELL_T \<Rightarrow> key_result" where
  "key_enter sh = map_option (\<lambda>l. ([], True, sh\<lparr>aszLine := l\<rparr>)) (put (ui16LinePosition sh) (CHR 0x00) (aszLine sh))"

definition key_normal :: "bool \<Rightarrow> char \<Rightarrow> SHELL_T \<Rightarrow> key_result" where
  "key_normal qemu c sh =
     (let pos = ui16LinePosition sh; cur = ui16LineCurrentPosition sh in
      do {
        (o1, line) \<leftarrow>
          (if cur < pos then
             do {
               l1 \<leftarrow> memmove (aszLine sh) (cur + 1) cur (pos - cur);
               l2 \<leftarrow> put cur c l1;
               o1 \<leftarrow> xprintf qemu ''%s'' [Str (drop cur l2)];
               o2 \<leftarrow> backspaces qemu (pos - cur);
               Some (o1 @ o2, l2)
             }
           else
             do {
               l1 \<leftarrow> put pos c (aszLine sh);
               o1 \<leftarrow> xprintf qemu ''%c'' [Num (w32 (of_char c))];
               Some (o1, l1)
             });
        let sh1 = sh\<lparr>aszLine := line\<rparr>;
        Some (o1, False, if pos + 1 \<ge> SHELL_CMD_SIZE then move_to 0 0 sh1 else move_to (pos + 1) (cur + 1) sh1)
      })"

text \<open>A character that belongs to no escape sequence.\<close>

definition key_edit :: "bool \<Rightarrow> string list \<Rightarrow> char \<Rightarrow> SHELL_T \<Rightarrow> key_result" where
  "key_edit qemu cmds c sh =
     (if c = CHR 0x09 then key_tab qemu cmds sh
      else if c = CHR 0x08 \<or> c = CHR 0x7F then key_backspace qemu sh
      else if c = CHR 0x0D \<or> c = CHR 0x0A then key_enter sh
      else key_normal qemu c sh)"

definition Shell_key :: "bool \<Rightarrow> bool \<Rightarrow> string list \<Rightarrow> string \<Rightarrow> char \<Rightarrow> SHELL_T \<Rightarrow> key_result" where
  "Shell_key sc qemu cmds history c sh =
     (let idle = sh\<lparr>eKeyState := eWaitIdle\<rparr> in
      if sc \<and> of_char c \<ge> (128 :: nat) then Some ([], False, sh)
      else if c = CHR 0x1B then Some ([], False, sh\<lparr>eKeyState := eWaitSpecKey\<rparr>)
      else
        (case eKeyState sh of
           eWaitSpecKey \<Rightarrow>
             if c = CHR 0x5B then Some ([], False, sh\<lparr>eKeyState := eWaitFuncKey\<rparr>) else key_edit qemu cmds c idle
         | eWaitFuncKey \<Rightarrow>
             if c = CHR 0x41 then key_up qemu history idle
             else if c = CHR 0x42 then key_down qemu idle
             else if c = CHR 0x43 then key_right qemu idle
             else if c = CHR 0x44 then key_left qemu idle
             else key_edit qemu cmds c idle
         | eWaitIdle \<Rightarrow> key_edit qemu cmds c sh))"

subsection \<open>Reading a command\<close>

text \<open>The loop over the characters received: what is sent, whether a line is complete, the state and the characters
  not read yet.  If no line is complete the call waits for more.\<close>

fun Shell_loop :: "bool \<Rightarrow> bool \<Rightarrow> string list \<Rightarrow> string \<Rightarrow> string \<Rightarrow> SHELL_T \<Rightarrow> (string \<times> bool \<times> SHELL_T \<times> string) option" where
  "Shell_loop sc qemu cmds history [] sh = Some ([], False, sh, [])"
| "Shell_loop sc qemu cmds history (c # input) sh =
     do {
       (o1, ready, sh1) \<leftarrow> Shell_key sc qemu cmds history c sh;
       if ready then Some (o1, True, sh1, input)
       else
         do {
           (o2, r) \<leftarrow> Shell_loop sc qemu cmds history input sh1;
           Some (o1 @ o2, r)
         }
     }"

definition SHELL_0 :: SHELL_T where
  "SHELL_0 = \<lparr>aszLine = replicate SHELL_CMD_SIZE (CHR 0x00), eKeyState = eWaitIdle, ui16LinePosition = 0,
     ui16LineCurrentPosition = 0\<rparr>"

text \<open>\<open>data\<close> is the buffer of the caller, \<open>None\<close> if it is null.  The second component of the result is \<open>None\<close>
  while the call waits; else it has the value returned, the buffer, the state and the characters not read.\<close>

definition Shell_GetCommand ::
  "bool \<Rightarrow> bool \<Rightarrow> string list \<Rightarrow> string option \<Rightarrow> u32 \<Rightarrow> string \<Rightarrow> shell \<Rightarrow>
   (string \<times> (nat \<times> string option \<times> shell \<times> string) option) option" where
  "Shell_GetCommand sc qemu cmds data ui32Length input st =
     do {
       p \<leftarrow> get (maszShellPrompt st) 0;
       st1 \<leftarrow> (if p = CHR 0x00 then Shell_SetPrompt (literal ''xsh'') st else Some st);
       o1 \<leftarrow> xprintf qemu ''%s > '' [Str (maszShellPrompt st1)];
       (o2, ready, sh, rest) \<leftarrow> Shell_loop sc qemu cmds (maszShellLineHistory st1) input SHELL_0;
       if \<not> ready then Some (o1 @ o2, None)
       else
         do {
           st2 \<leftarrow>
             (if ui16LinePosition sh > 0 then
                do {
                  h \<leftarrow> strcpy (maszShellLineHistory st1) 0 (aszLine sh);
                  h' \<leftarrow> put (ui16LinePosition sh) (CHR 0x00) h;
                  Some (st1\<lparr>maszShellLineHistory := h'\<rparr>)
                }
              else Some st1);
           o3 \<leftarrow> xprintf qemu [CHR 0x0A] [];
           (n, data') \<leftarrow>
             (case data of
                None \<Rightarrow> Some (0, None)
              | Some d \<Rightarrow>
                  let n = min (unat (ui32Length - 1)) (ui16LinePosition sh) in
                  if n \<le> length d then Some (n, Some (take n (aszLine sh) @ drop n d)) else None);
           Some (o1 @ o2 @ o3, Some (n, data', st2, rest))
         }
     }"

subsection \<open>Splitting a command\<close>

definition blank :: "char \<Rightarrow> bool" where
  "blank c \<longleftrightarrow> c = CHR '' '' \<or> c = CHR 0x09"

text \<open>Loops over the buffer \<open>m\<close> from position \<open>p\<close>; the pointer \<^verbatim>\<open>pszPtr\<close> is always \<^verbatim>\<open>pszData\<close> plus the position.\<close>

function strip_loop :: "nat \<Rightarrow> string \<Rightarrow> nat \<Rightarrow> (string \<times> nat) option" where
  "strip_loop n m p =
     do {
       c \<leftarrow> get m p;
       if blank c \<and> p < n then do { m' \<leftarrow> put p (CHR 0x00) m; strip_loop n m' (p + 1) } else Some (m, p)
     }"
  by auto
termination by (relation "measure (\<lambda>(n, m, p). n - p)") auto

function word_loop :: "nat \<Rightarrow> string \<Rightarrow> nat \<Rightarrow> nat option" where
  "word_loop n m p =
     do {
       c \<leftarrow> get m p;
       if \<not> blank c \<and> p < n then word_loop n m (p + 1) else Some p
     }"
  by auto
termination by (relation "measure (\<lambda>(n, m, p). n - p)") auto

function quote_loop :: "nat \<Rightarrow> string \<Rightarrow> nat \<Rightarrow> nat option" where
  "quote_loop n m p =
     do {
       c \<leftarrow> get m p;
       if c \<noteq> CHR 0x22 \<and> p < n then
         if c = CHR 0x5C then
           do { e \<leftarrow> get m (p + 1); quote_loop n m (if e = CHR 0x22 then p + 2 else p + 1) }
         else quote_loop n m (p + 1)
       else Some p
     }"
  by auto
termination by (relation "measure (\<lambda>(n, m, p). n - p)") auto

lemma strip_loop_progress: "strip_loop n m p = Some (m', p') \<Longrightarrow> p \<le> p' \<and> (p' < n \<longrightarrow> (\<exists>c. get m' p' = Some c \<and> \<not> blank c))"
proof (induction n m p rule: strip_loop.induct)
  case (1 n m p)
  obtain c where c: "get m p = Some c" using "1.prems" by (subst (asm) strip_loop.simps) (cases "get m p"; simp)
  show ?case
  proof (cases "blank c \<and> p < n")
    case True
    then obtain m1 where m1: "put p (CHR 0x00) m = Some m1" "strip_loop n m1 (p + 1) = Some (m', p')"
      using "1.prems" c by (subst (asm) strip_loop.simps) (cases "put p (CHR 0x00) m"; simp)
    then show ?thesis using "1.IH" [OF c True m1] by auto
  next
    case False
    then show ?thesis using "1.prems" c by (subst (asm) strip_loop.simps) auto
  qed
qed

lemma word_loop_progress: "word_loop n m p = Some p' \<Longrightarrow> p \<le> p'"
proof (induction n m p rule: word_loop.induct)
  case (1 n m p)
  then show ?case by (subst (asm) (2) word_loop.simps) (cases "get m p"; force split: if_splits)
qed

lemma quote_loop_progress: "quote_loop n m p = Some p' \<Longrightarrow> p \<le> p'"
proof (induction n m p rule: quote_loop.induct)
  case (1 n m p)
  then show ?case
    by (subst (asm) (3) quote_loop.simps) (cases "get m p"; cases "get m (Suc p)"; force split: if_splits)
qed

lemma word_loop_step: "get m p = Some c \<Longrightarrow> \<not> blank c \<Longrightarrow> p < n \<Longrightarrow> word_loop n m p = word_loop n m (p + 1)"
  by (subst word_loop.simps) simp

text \<open>The message when there are more arguments than the array has room for.\<close>

fun put_args :: "bool \<Rightarrow> string \<Rightarrow> nat list \<Rightarrow> string option" where
  "put_args qemu m [] = Some []"
| "put_args qemu m (a # argv) =
     do { s \<leftarrow> xprintf qemu ''%s '' [Str (drop a m)]; map_option ((@) s) (put_args qemu m argv) }"

definition too_many_args :: "bool \<Rightarrow> string \<Rightarrow> nat list \<Rightarrow> string option" where
  "too_many_args qemu m argv =
     do {
       o1 \<leftarrow> xprintf qemu (''Too many args ! We only Use:'' @ [CHR 0x0A]) [];
       o2 \<leftarrow> put_args qemu m argv;
       o3 \<leftarrow> xprintf qemu [CHR 0x0A] [];
       Some (o1 @ o2 @ o3)
     }"

text \<open>What is sent, the buffer afterwards and the arguments, as positions in it.\<close>

function split_loop :: "bool \<Rightarrow> nat \<Rightarrow> string \<Rightarrow> nat \<Rightarrow> nat list \<Rightarrow> (string \<times> string \<times> nat list) option" where
  "split_loop qemu n m p argv =
     (if p < n then
        do {
          (m1, p1) \<leftarrow> strip_loop n m p;
          if length argv \<ge> SHELL_ARG_MAX then do { o1 \<leftarrow> too_many_args qemu m1 argv; Some (o1, m1, argv) }
          else if p1 \<ge> n then Some ([], m1, argv)
          else
            do {
              c \<leftarrow> get m1 p1;
              if c = CHR 0x22 then
                do {
                  p2 \<leftarrow> quote_loop n m1 (p1 + 1);
                  if p2 \<ge> n then Some ([], m1, argv @ [p1 + 1])
                  else do { m2 \<leftarrow> put p2 (CHR 0x00) m1; split_loop qemu n m2 (p2 + 1) (argv @ [p1 + 1]) }
                }
              else
                do {
                  p2 \<leftarrow> word_loop n m1 p1;
                  if p2 \<ge> n then Some ([], m1, argv @ [p1]) else split_loop qemu n m1 p2 (argv @ [p1])
                }
            }
        }
      else Some ([], m, argv))"
  by auto
termination
proof (relation "measure (\<lambda>(qemu, n, m, p, argv). n - p)", goal_cases)
  case (2 qemu n m p argv mp m1 p1 c p2 m2)
  then show ?case using strip_loop_progress [of n m p m1 p1] quote_loop_progress [of n m1 "p1 + 1" p2] by auto
next
  case (3 qemu n m p argv mp m1 p1 c p2)
  then have "\<not> blank c" using strip_loop_progress [of n m p m1 p1] by auto
  then have "word_loop n m1 (p1 + 1) = Some p2" using 3 word_loop_step [of m1 p1 c n] by auto
  then show ?case using 3 strip_loop_progress [of n m p m1 p1] word_loop_progress [of n m1 "p1 + 1" p2] by auto
qed simp

definition Shell_SplitCommand :: "bool \<Rightarrow> string \<Rightarrow> nat \<Rightarrow> (string \<times> string \<times> nat list) option" where
  "Shell_SplitCommand qemu pszData ui32Length = split_loop qemu ui32Length pszData 0 []"

subsection \<open>Running a command\<close>

text \<open>\<^verbatim>\<open>strcmp(a, b) == 0\<close>.\<close>

fun strcmp_eq :: "string \<Rightarrow> string \<Rightarrow> bool option" where
  "strcmp_eq (x # a) (y # b) = (if x \<noteq> y then Some False else if x = CHR 0x00 then Some True else strcmp_eq a b)"
| "strcmp_eq a b = None"

text \<open>What becomes of a command line: the call of the command with index \<open>i\<close> with the buffer and its arguments.  The
  pointers \<^verbatim>\<open>apszArgv\<close> that were not set are indeterminate.\<close>

datatype handled = Ignored | Called nat string "nat list" | Unknown

fun find_loop :: "string list \<Rightarrow> nat \<Rightarrow> string \<Rightarrow> nat list \<Rightarrow> nat option option" where
  "find_loop [] i m argv = Some None"
| "find_loop (c # cmds) i m argv =
     (case argv of
        [] \<Rightarrow> None
      | a # _ \<Rightarrow>
          do {
            eq \<leftarrow> strcmp_eq (drop a m) (literal c);
            if eq then Some (Some i) else find_loop cmds (i + 1) m argv
          })"

definition Shell_HandleCommand :: "bool \<Rightarrow> string list \<Rightarrow> string \<Rightarrow> nat \<Rightarrow> (string \<times> handled) option" where
  "Shell_HandleCommand qemu cmds pszData ui32Length =
     (if ui32Length < 1 then Some ([], Ignored)
      else
        do {
          (o1, m, argv) \<leftarrow> Shell_SplitCommand qemu pszData ui32Length;
          found \<leftarrow> find_loop cmds 0 m argv;
          (case found of
             Some i \<Rightarrow> Some (o1, Called i m argv)
           | None \<Rightarrow> do { o2 \<leftarrow> xprintf qemu (''Unknown command!'' @ [CHR 0x0A]) []; Some (o1 @ o2, Unknown) })
        })"

text \<open>One pass through the loop of the shell's task, \<^verbatim>\<open>xshell_task\<close>; \<open>buffer\<close> is the local array \<^verbatim>\<open>aszCommand\<close>.\<close>

definition xshell_task ::
  "bool \<Rightarrow> bool \<Rightarrow> string list \<Rightarrow> string \<Rightarrow> string \<Rightarrow> shell \<Rightarrow> (string \<times> (handled \<times> shell \<times> string) option) option" where
  "xshell_task sc qemu cmds buffer input st =
     do {
       (o1, r) \<leftarrow> Shell_GetCommand sc qemu cmds (Some buffer) (w32 (length buffer)) input st;
       (case r of
          None \<Rightarrow> Some (o1, None)
        | Some (n, data, st', rest) \<Rightarrow>
            do {
              d \<leftarrow> data;
              d' \<leftarrow> put n (CHR 0x00) d;
              (o2, h) \<leftarrow> Shell_HandleCommand qemu cmds d' n;
              Some (o1 @ o2, Some (h, st', rest))
            })
     }"

end
