(* ===== verification/XprintfProps.thy ===== *)
theory XprintfProps
  imports Xprintf
begin

text \<open>
  What formatted output prints: numbers in the radix asked for, padded to the width.
\<close>

subsection \<open>Padding\<close>

lemma unat_next: "unat (j :: u32) + 1 < 2 ^ 32 \<Longrightarrow> unat (j + 1) = unat j + 1"
  by (simp add: unat_word_ariths)

lemma pad_loop_eq:
  "pad_loop qemu c j w = (concat (replicate (unat w - unat j) (xputc qemu c)), max j w + 1)"
proof (induction qemu c j w rule: pad_loop.induct)
  case (1 qemu c j w)
  show ?case
  proof (cases "j < w")
    case True
    have j: "unat (j + 1) = unat j + 1"
      using True unat_u32_less [of w] by (intro unat_next) (simp add: word_less_nat_alt)
    then have "unat w - unat j = Suc (unat w - unat (j + 1))" "max (j + 1) w = max j w"
      using True by (auto simp: word_less_nat_alt word_le_nat_alt max_def)
    then show ?thesis using 1 True by (subst pad_loop.simps) simp
  next
    case False
    then have m: "max j w = j" by (simp add: max_def not_less)
    show ?thesis using False by (subst pad_loop.simps) (simp add: m word_less_nat_alt)
  qed
qed

declare pad_loop.simps [simp del] digit_loop.simps [simp del]

text \<open>A field of width \<open>w\<close>: filled on the left with \<open>d\<close>, or with blanks on the right.\<close>

definition field :: "bool \<Rightarrow> bool \<Rightarrow> char \<Rightarrow> nat \<Rightarrow> string \<Rightarrow> string" where
  "field qemu left d w s =
     (if left then xputs qemu s @ concat (replicate (w - length s) (xputc qemu CHR '' ''))
      else concat (replicate (w - length s) (xputc qemu d)) @ xputs qemu s)"

lemma field_pads:
  assumes "length s + 1 < 2 ^ 32" and "unat w + 1 < 2 ^ 32"
  shows "(let (before, j1) = (if f AND 2 = 0 then pad_loop qemu d (w32 (length s)) w else ([], w32 (length s)));
            (after, _) = pad_loop qemu (CHR '' '') j1 w in before @ t @ after) =
    (if f AND (2 :: u32) \<noteq> 0 then t @ concat (replicate (unat w - length s) (xputc qemu CHR '' ''))
     else concat (replicate (unat w - length s) (xputc qemu d)) @ t)"
proof -
  have j: "unat (w32 (length s)) = length s" using assms(1) by simp
  have "unat (max (w32 (length s)) w + 1) = unat (max (w32 (length s)) w) + 1"
    using assms j by (intro unat_next) (simp add: max_def)
  then have "unat w - unat (max (w32 (length s)) w + 1) = 0" by (simp add: max_def word_le_nat_alt)
  then show ?thesis using j by (simp add: pad_loop_eq)
qed

lemma put_number_field:
  assumes "length (digit_loop c r v 0) + (if f AND 8 \<noteq> 0 then 1 else 0) \<le> 16" and "unat w + 1 < 2 ^ 32"
  shows "put_number qemu c r v w f =
    Some (field qemu (f AND 2 \<noteq> 0) (if f AND 1 \<noteq> 0 then CHR ''0'' else CHR '' '') (unat w)
      ((if f AND 8 \<noteq> 0 then ''-'' else []) @ rev (digit_loop c r v 0)))"
proof -
  define D where "D = (if f AND 8 \<noteq> 0 then digit_loop c r v 0 @ ''-'' else digit_loop c r v 0)"
  have D: "(if f AND 8 \<noteq> 0 then ''-'' else []) @ rev (digit_loop c r v 0) = rev D" by (simp add: D_def)
  have len: "length D \<le> 16" using assms(1) by (simp add: D_def split: if_splits)
  note fp = field_pads [where s = D and w = w and f = f and qemu = qemu and t = "xputs qemu (rev D)"]
  show ?thesis
    unfolding put_number_def Let_def D_def [symmetric] D
    using fp [where d = "CHR ''0''"] fp [where d = "CHR '' ''"] len assms(2)
    by (cases "f AND 2 = 0"; cases "f AND 1 = 0") (simp_all add: field_def Let_def split: prod.splits)
qed

lemma put_string_field:
  assumes "cstring p = Some s" and "length s + 1 < 2 ^ 32" and "unat w + 1 < 2 ^ 32"
  shows "put_string qemu p w f = Some (field qemu (f AND 2 \<noteq> 0) (CHR '' '') (unat w) s)"
  using field_pads [OF assms(2,3), of f qemu "CHR '' ''" "xputs qemu s"] assms(1)
  by (cases "f AND 2 = 0") (simp_all add: put_string_def field_def Let_def split: prod.splits)

subsection \<open>Taking a number apart\<close>

text \<open>The digits a stepping function yields, the last first, at most \<open>n\<close> of them; and their value.\<close>

fun digit_list :: "(u32 \<Rightarrow> nat \<times> u32) \<Rightarrow> nat \<Rightarrow> u32 \<Rightarrow> nat list" where
  "digit_list step 0 v = []"
| "digit_list step (Suc n) v = (let (d, v') = step v in d # (if v' \<noteq> 0 \<and> 0 < n then digit_list step n v' else []))"

definition digits_value :: "nat \<Rightarrow> nat list \<Rightarrow> nat" where
  "digits_value r ds = foldr (\<lambda>d a. d + r * a) ds 0"

lemma digits_value_simps [simp]: "digits_value r [] = 0" "digits_value r (d # ds) = d + r * digits_value r ds"
  by (simp_all add: digits_value_def)

locale number_system =
  fixes r :: nat and step :: "u32 \<Rightarrow> nat \<times> u32"
  assumes radix: "1 < r" and digit: "fst (step v) = unat v mod r" and rest: "unat (snd (step v)) = unat v div r"
begin

lemma digits_of_value: "0 < n \<Longrightarrow> digits_value r (digit_list step n v) = unat v mod r ^ n"
proof (induction n arbitrary: v)
  case (Suc n)
  obtain d v' where s: "step v = (d, v')" by fastforce
  have d: "d = unat v mod r" "unat v' = unat v div r" using digit [of v] rest [of v] s by simp_all
  have v: "unat v mod r ^ Suc n = unat v mod r + r * (unat v div r mod r ^ n)" by (simp add: mod_mult2_eq)
  show ?case
  proof (cases "v' \<noteq> 0 \<and> 0 < n")
    case True
    then show ?thesis using Suc.IH [of v'] s d v by simp
  next
    case False
    then have "unat v div r = 0 \<or> n = 0" using d(2) by auto
    then show ?thesis using False s d(1) v by auto
  qed
qed simp

lemma digits_bounded: "d \<in> set (digit_list step n v) \<Longrightarrow> d < r"
proof (induction n arbitrary: v)
  case (Suc n)
  obtain e v' where s: "step v = (e, v')" by fastforce
  have "e < r" using digit [of v] s radix by simp
  then show ?case using Suc s by (auto split: if_splits)
qed simp

lemma digits_length: "0 < n \<Longrightarrow> digit_list step n v \<noteq> [] \<and> length (digit_list step n v) \<le> n"
proof (induction n arbitrary: v)
  case (Suc n)
  obtain e v' where "step v = (e, v')" by fastforce
  then show ?case using Suc.IH [of v'] by (cases "n = 0") auto
qed simp

lemma digits_short: "0 < k \<Longrightarrow> unat v < r ^ k \<Longrightarrow> length (digit_list step n v) \<le> k"
proof (induction n arbitrary: k v)
  case (Suc n)
  obtain e v' where s: "step v = (e, v')" by fastforce
  have d: "unat v' = unat v div r" using rest [of v] s by simp
  show ?case
  proof (cases "v' \<noteq> 0 \<and> 0 < n")
    case True
    obtain k' where k: "k = Suc k'" using Suc.prems(1) by (cases k) auto
    have lt: "unat v' < r ^ k'" using Suc.prems(2) d by (simp add: k less_mult_imp_div_less mult.commute)
    then have "0 < k'" using True by (cases k') (simp_all add: unat_eq_0)
    then show ?thesis using Suc.IH [OF _ lt] s True k by simp
  next
    case False
    then show ?thesis using s Suc.prems(1) by auto
  qed
qed simp

text \<open>Enough digits leave no zero in front.\<close>

lemma digits_no_leading_zero: "v \<noteq> 0 \<Longrightarrow> unat v < r ^ n \<Longrightarrow> last (digit_list step n v) \<noteq> 0"
proof (induction n arbitrary: v)
  case (Suc n)
  obtain e v' where s: "step v = (e, v')" by fastforce
  have d: "e = unat v mod r" "unat v' = unat v div r" using digit [of v] rest [of v] s by simp_all
  show ?case
  proof (cases "v' = 0")
    case True
    then have "unat v div r = 0" using d(2) by simp
    then have "e = unat v" using d(1) div_mult_mod_eq [of "unat v" r] by simp
    then show ?thesis using True s Suc.prems(1) by (simp add: unat_eq_0)
  next
    case False
    have lt: "unat v' < r ^ n" using Suc.prems(2) d(2) by (simp add: less_mult_imp_div_less mult.commute)
    then have n: "0 < n" using False by (cases n) (simp_all add: unat_eq_0)
    then show ?thesis using Suc.IH [OF False lt] digits_length [OF n, of v'] s False by simp
  qed
qed (simp add: unat_eq_0)

end

lemma unat_and_mask: "unat (v AND mask n :: u32) = unat v mod 2 ^ n"
proof -
  have "v AND mask n = take_bit n v" by (simp add: take_bit_eq_mask)
  then have "unat (v AND mask n) = take_bit n (unat v)" by (simp only: unsigned_take_bit_eq)
  then show ?thesis by (simp add: take_bit_eq_mod)
qed

lemma unat_drop_bit: "unat (drop_bit n v :: u32) = unat v div 2 ^ n"
proof -
  have "unat (drop_bit n v) = drop_bit n (unat v)" by (simp only: unsigned_drop_bit_eq) (simp add: take_bit_nat_eq_self unat_u32_less [simplified])
  then show ?thesis by (simp add: drop_bit_eq_div)
qed

interpretation binary: number_system 2 "digit_step 2"
  by unfold_locales (use unat_and_mask [of _ 1] unat_drop_bit [of 1] in \<open>auto simp: digit_step_def mask_eq_exp_minus_1\<close>)

interpretation octal: number_system 8 "digit_step 8"
  by unfold_locales (use unat_and_mask [of _ 3] unat_drop_bit [of 3] in \<open>auto simp: digit_step_def mask_eq_exp_minus_1\<close>)

interpretation decimal: number_system 10 "digit_step 10"
  by unfold_locales (auto simp: digit_step_def unat_mod unat_div)

interpretation hexadecimal: number_system 16 "digit_step 16"
  by unfold_locales (use unat_and_mask [of _ 4] unat_drop_bit [of 4] in \<open>auto simp: digit_step_def mask_eq_exp_minus_1\<close>)

subsection \<open>Printed numbers\<close>

lemma digit_loop_list: "i < 16 \<Longrightarrow> digit_loop c r v i = map (digit_char c) (digit_list (digit_step r) (16 - i) v)"
proof (induction c r v i rule: digit_loop.induct)
  case (1 c r v i)
  obtain d v' where s: "digit_step r v = (d, v')" by fastforce
  have n: "16 - i = Suc (16 - (i + 1))" using 1(2) by simp
  show ?case
  proof (cases "v' \<noteq> 0 \<and> i + 1 < 16")
    case True
    then have "digit_loop c r v' (i + 1) = map (digit_char c) (digit_list (digit_step r) (16 - (i + 1)) v')"
      using 1(1) [OF s [symmetric] refl] by simp
    then show ?thesis using s True n by (subst digit_loop.simps) simp
  next
    case False
    then show ?thesis using s 1(2) n by (subst digit_loop.simps) auto
  qed
qed

text \<open>Reading a number back.\<close>

definition char_digit :: "char \<Rightarrow> nat" where
  "char_digit c = (let n = of_char c in if n < 58 then n - 48 else if n < 97 then n - 55 else n - 87)"

definition parse_number :: "nat \<Rightarrow> string \<Rightarrow> nat" where
  "parse_number r s = foldl (\<lambda>a c. r * a + char_digit c) 0 s"

lemma digit_roundtrip:
  assumes "d < 16"
  shows "char_digit (digit_char c d) = d" "digit_char c d \<noteq> CHR 0x0A" "digit_char c d = CHR ''0'' \<longleftrightarrow> d = 0"
proof -
  have n: "of_char (digit_char c d) = (if d > 9 then d + (if c = CHR ''x'' then 87 else 55) else d + 48)"
    using assms by (auto simp: digit_char_def)
  have eq: "digit_char c d = x \<longleftrightarrow> of_char (digit_char c d) = (of_char x :: nat)" for x by (simp add: of_char_eq_iff)
  show "char_digit (digit_char c d) = d" using assms unfolding char_digit_def n by (auto simp: Let_def)
  show "digit_char c d \<noteq> CHR 0x0A" unfolding eq n by auto
  show "digit_char c d = CHR ''0'' \<longleftrightarrow> d = 0" unfolding eq n by auto
qed

lemma parse_rev: "parse_number r (rev s) = digits_value r (map char_digit s)"
  by (induction s) (simp_all add: parse_number_def add.commute)

lemma xputs_id: "CHR 0x0A \<notin> set s \<Longrightarrow> xputs qemu s = s"
  by (induction s) (auto simp: xputs_def xputc_def)

text \<open>The digits of a number, in the order they are printed.\<close>

definition number_string :: "char \<Rightarrow> u32 \<Rightarrow> u32 \<Rightarrow> string" where
  "number_string c r v = rev (digit_loop c r v 0)"

lemma number_string:
  assumes "r \<in> {2, 8, 10, 16}"
  shows "parse_number (unat r) (number_string c r v) = unat v mod unat r ^ 16" "CHR 0x0A \<notin> set (number_string c r v)"
    "number_string c r v \<noteq> []" "length (number_string c r v) \<le> 16"
    "v \<noteq> 0 \<Longrightarrow> r \<noteq> 2 \<Longrightarrow> hd (number_string c r v) \<noteq> CHR ''0''"
    "r = 10 \<Longrightarrow> length (number_string c r v) \<le> 15"
proof -
  have sys: "number_system (unat r) (digit_step r)"
    using assms binary.number_system_axioms octal.number_system_axioms decimal.number_system_axioms
      hexadecimal.number_system_axioms by auto
  let ?ds = "digit_list (digit_step r) 16 v"
  have r: "unat r \<le> 16" "unat r = 2 \<or> 8 \<le> unat r" using assms by auto
  have eq: "number_string c r v = map (digit_char c) (rev ?ds)" by (simp add: number_string_def digit_loop_list rev_map)
  have lt: "d < 16" if "d \<in> set ?ds" for d using number_system.digits_bounded [OF sys that] r by simp
  have "map char_digit (map (digit_char c) ?ds) = ?ds" using lt by (simp add: map_idI digit_roundtrip)
  then show "parse_number (unat r) (number_string c r v) = unat v mod unat r ^ 16"
    using number_system.digits_of_value [OF sys, of 16 v] by (simp add: eq rev_map [symmetric] parse_rev)
  show "CHR 0x0A \<notin> set (number_string c r v)" using lt digit_roundtrip(2) by (fastforce simp: eq)
  note len = number_system.digits_length [OF sys, of 16 v]
  show "number_string c r v \<noteq> []" "length (number_string c r v) \<le> 16" using len by (simp_all add: eq)
  show "hd (number_string c r v) \<noteq> CHR ''0''" if "v \<noteq> 0" "r \<noteq> 2"
  proof -
    have "8 \<le> unat r" using assms that(2) by auto
    then have "8 ^ 16 \<le> unat r ^ 16" by (intro power_mono) simp_all
    then have "unat v < unat r ^ 16" using unat_u32_less [of v] by simp
    then have "last ?ds \<noteq> 0" using number_system.digits_no_leading_zero [OF sys that(1)] by blast
    then show ?thesis using digit_roundtrip(3) [OF lt] len by (simp add: eq hd_map hd_rev)
  qed
  show "length (number_string c r v) \<le> 15" if "r = 10"
    unfolding eq using number_system.digits_short [OF sys, of 15 v 16] unat_u32_less [of v] that by simp
qed

lemma sign_bit: "v AND 0x80000000 \<noteq> 0 \<longleftrightarrow> bit (v :: u32) 31"
  using bit_iff_and_push_bit_not_eq_0 [of v 31] by simp

lemma scanned_flags:
  assumes "scan_spec spec = (f, w, rest)"
  shows "f AND 8 = 0"
proof -
  have "f = 0 \<or> f = 1 \<or> f = 2 \<or> f = 4 \<or> f = 5 \<or> f = 6"
    using assms by (auto simp: scan_spec_def scan_flags_def scan_size_def Let_def split: list.splits if_splits prod.splits)
  then show ?thesis by auto
qed

text \<open>C23: a number argument is printed in a field of the width given, on the right or, with \<^verbatim>\<open>-\<close>, on the left
  of it, filled with blanks or, with \<^verbatim>\<open>0\<close>, with zeros; \<^verbatim>\<open>%d\<close> of a negative number prints a minus sign and its
  absolute value, the other types the unsigned value.  Reading the digits back in the radix of the type gives that value, without leading
  zeros, in all but one case: \<^verbatim>\<open>%b\<close> prints no more than the low 16 bits of it.\<close>

theorem xprintf_prints_number:
  fixes v :: u32
  assumes "scan_spec spec = (f, w, [c])" and "radix_of (upper c) = Some r" and "unat w + 1 < 2 ^ 32"
  defines "neg \<equiv> upper c = CHR ''D'' \<and> bit v 31"
  defines "m \<equiv> if neg then 2 ^ 32 - unat v else unat v"
  shows "\<exists>s. xprintf qemu (CHR ''%'' # spec) [Num v] =
      Some (field qemu (f AND 2 \<noteq> 0) (if f AND 1 \<noteq> 0 then CHR ''0'' else CHR '' '') (unat w) ((if neg then ''-'' else []) @ s)) \<and>
    parse_number (unat r) s = (if r = 2 then m mod 2 ^ 16 else m) \<and> s \<noteq> [] \<and> (m \<noteq> 0 \<and> r \<noteq> 2 \<longrightarrow> hd s \<noteq> CHR ''0'')"
proof -
  have r: "r \<in> {2, 8, 10, 16}" using assms(2) by (auto simp: radix_of_def split: if_splits)
  have types: "upper c \<noteq> CHR ''S''" "upper c \<noteq> CHR ''C''" using assms(2) by (auto simp: radix_of_def split: if_splits)
  define u where "u = (if neg then 0 - v else v)"
  have u: "unat u = m"
  proof (cases neg)
    case True
    then have "v \<noteq> 0" by (auto simp: neg_def)
    then show ?thesis using True unat_sub_if' [of 0 v] by (simp add: u_def m_def unat_eq_0)
  qed (simp add: u_def m_def)
  let ?s = "number_string c r u" and ?f = "if neg then f OR 8 else f"
  have f8: "f AND 8 = 0" using scanned_flags [OF assms(1)] .
  have flags: "?f AND 8 \<noteq> 0 \<longleftrightarrow> neg" "?f AND 2 = f AND 2" "?f AND 1 = f AND 1"
    using f8 by (simp_all add: bit.conj_disj_distrib2)
  note n = number_string [OF r, where c = c and v = u]
  have dec: "neg \<Longrightarrow> r = 10" using assms(2) by (auto simp: neg_def radix_of_def split: if_splits)
  have lf: "CHR 0x0A \<notin> set ((if neg then ''-'' else []) @ ?s)" using n(2) by auto
  let ?t = "(if neg then ''-'' else []) @ ?s"
  have len: "length ?t \<le> 16" using n(4) n(6) dec by (cases neg) auto
  have put: "put_number qemu c r u w ?f = Some (field qemu (f AND 2 \<noteq> 0) (if f AND 1 \<noteq> 0 then CHR ''0'' else CHR '' '') (unat w) ?t)"
    using put_number_field [of c r u ?f w qemu] len assms(3) unfolding flags
    by (cases neg) (simp_all add: number_string_def)
  have "put_typed qemu c (upper c) r v w f = put_number qemu c r u w ?f"
    by (simp add: put_typed_def neg_def u_def sign_bit)
  then have "xprintf qemu (CHR ''%'' # spec) [Num v] =
      Some (field qemu (f AND 2 \<noteq> 0) (if f AND 1 \<noteq> 0 then CHR ''0'' else CHR '' '') (unat w) ?t)"
    using assms(1,2) types put by (simp add: xprintf_def Let_def)
  moreover have "parse_number (unat r) ?s = (if r = 2 then m mod 2 ^ 16 else m)"
  proof -
    have "unat u mod unat r ^ 16 = unat u" if "r \<noteq> 2"
    proof -
      have "8 \<le> unat r" using r that by auto
      then have "8 ^ 16 \<le> unat r ^ 16" by (intro power_mono) simp_all
      then show ?thesis using unat_u32_less [of u] by simp
    qed
    then show ?thesis using n(1) u by simp
  qed
  moreover have "m \<noteq> 0 \<and> r \<noteq> 2 \<longrightarrow> hd ?s \<noteq> CHR ''0''" using n(5) u by (metis unat_0)
  ultimately show ?thesis using n(3) by blast
qed

theorem xprintf_prints_number_witness:
  "\<exists>s. xprintf True ''%-6d'' [Num (- 200)] = Some (field True True (CHR '' '') 6 (''-'' @ s)) \<and>
    parse_number 10 s = 200 \<and> s \<noteq> [] \<and> hd s \<noteq> CHR ''0''"
proof -
  have spec: "scan_spec ''-6d'' = (2, 6, ''d'')" "upper (CHR ''d'') = CHR ''D''" by code_simp+
  have v: "(- 200 :: u32) = 4294967096" by simp
  show ?thesis
    using xprintf_prints_number [OF spec(1), where r = 10 and v = "- 200" and qemu = True]
    unfolding spec(2) v by (simp add: radix_of_def)
qed

lemma xprintf_example_zeros: "xprintf True ''%06d'' [Num (- 200)] = Some ''00-200''"
  by code_simp

end
