(* ===== verification/ShellSplit.thy ===== *)
theory ShellSplit
  imports Shell XprintfProps
begin

text \<open>
  Splitting a command line in place yields the words of the line, and the first of them selects the command.
\<close>

declare strip_loop.simps [simp del] word_loop.simps [simp del] quote_loop.simps [simp del] split_loop.simps [simp del]

subsection \<open>What the format strings of the shell print\<close>

lemma cstring_app: "CHR 0x00 \<notin> set s \<Longrightarrow> cstring (s @ CHR 0x00 # m) = Some s"
  by (induction s) auto

lemma cstring_length: "cstring m = Some s \<Longrightarrow> length s < length m"
  by (induction m arbitrary: s) (auto split: if_splits)

lemma cstring_takeWhile: "CHR 0x00 \<in> set m \<Longrightarrow> cstring m = Some (takeWhile (\<lambda>c. c \<noteq> CHR 0x00) m)"
  by (induction m) auto

lemma put_string_plain:
  assumes "cstring p = Some s" and "length p < 2 ^ 32"
  shows "put_string qemu p 0 0 = Some (xputs qemu s)"
proof -
  have "length s + 1 < 2 ^ 32" using cstring_length [OF assms(1)] assms(2) by linarith
  from put_string_field [OF assms(1) this, where w = 0 and f = 0] show ?thesis by (simp add: field_def)
qed

lemma scan_spec_letter:
  assumes "c \<in> {CHR ''s'', CHR ''c''}"
  shows "scan_spec (c # fmt) = (0, 0, c # fmt)"
proof -
  have "\<not> CHR ''s'' \<le> CHR ''9''" "\<not> CHR ''c'' \<le> CHR ''9''" by code_simp+
  then have w: "scan_width 0 (c # fmt) = (0, c # fmt)" using assms by auto
  have f: "scan_flags (c # fmt) = (0, c # fmt)" using assms by (auto simp: scan_flags_def)
  have z: "scan_size 0 (c # fmt) = (0, c # fmt)" using assms by (auto simp: scan_size_def)
  show ?thesis by (simp only: scan_spec_def f w z Let_def prod.case)
qed

lemma upper_letters [simp]: "upper (CHR ''s'') = CHR ''S''" "upper (CHR ''c'') = CHR ''C''"
  by code_simp+

lemma xvprintf_plain: "c \<noteq> CHR ''%'' \<Longrightarrow> xvprintf qemu (c # fmt) args = map_option ((@) (xputc qemu c)) (xvprintf qemu fmt args)"
  by simp

lemma xvprintf_string:
  "cstring p = Some s \<Longrightarrow> length p < 2 ^ 32 \<Longrightarrow>
    xvprintf qemu (CHR ''%'' # CHR ''s'' # fmt) (Str p # args) = map_option ((@) (xputs qemu s)) (xvprintf qemu fmt args)"
  by (simp add: scan_spec_letter put_string_plain Let_def)

lemma xvprintf_char:
  "xvprintf qemu (CHR ''%'' # CHR ''c'' # fmt) (Num v # args) =
    map_option ((@) (xputc qemu (char_of (unat v)))) (xvprintf qemu fmt args)"
  by (simp add: scan_spec_letter Let_def)

lemma xvprintf_constant: "CHR ''%'' \<notin> set s \<Longrightarrow> xvprintf qemu s args = Some (xputs qemu s)"
  by (induction s) (auto simp: xputs_def)

lemma xprintf_constant: "CHR ''%'' \<notin> set s \<Longrightarrow> xprintf qemu s args = Some (xputs qemu s)"
  by (simp add: xprintf_def xvprintf_constant)

lemma of_char_less_256': "(of_char c :: nat) < 256"
  using nat_of_char_less_256 .

lemma char_back [simp]: "char_of (unat (w32 (of_char c))) = c"
proof -
  have "of_char c < (2 :: nat) ^ 32" by (rule less_le_trans [OF of_char_less_256']) simp
  then show ?thesis by (simp add: take_bit_nat_eq_self)
qed

declare xvprintf.simps(2) [simp del]

lemma xprintf_s [simp]: "cstring p = Some s \<Longrightarrow> length p < 2 ^ 32 \<Longrightarrow> xprintf qemu ''%s'' [Str p] = Some (xputs qemu s)"
  and xprintf_s_blank [simp]: "cstring p = Some s \<Longrightarrow> length p < 2 ^ 32 \<Longrightarrow> xprintf qemu ''%s '' [Str p] = Some (xputs qemu s @ '' '')"
  and xprintf_c [simp]: "xprintf qemu ''%c'' [Num (w32 (of_char c))] = Some (xputc qemu c)"
  by (simp_all add: xprintf_def xvprintf_string xvprintf_char xvprintf_plain xputc_def)

subsection \<open>The loops over the buffer\<close>

text \<open>The buffer is \<open>pre @ s @ CHR 0x00 # post\<close>, and the position at its part \<open>s\<close>, the rest of the line.\<close>

lemma get_at [simp]: "get (pre @ c # m) (length pre) = Some c" "length pre = n \<Longrightarrow> get (pre @ c # m) n = Some c"
  by (auto simp: get_def)

lemma put_at: "length pre = n \<Longrightarrow> put n c (pre @ x # m) = Some (pre @ c # m)"
  by (auto simp: put_def)

lemma strip_line:
  "strip_loop (length pre + length s) (pre @ s @ CHR 0x00 # post) (length pre) =
    Some (pre @ replicate (length (takeWhile blank s)) (CHR 0x00) @ dropWhile blank s @ CHR 0x00 # post,
      length pre + length (takeWhile blank s))"
proof (induction s arbitrary: pre)
  case Nil
  then show ?case by (subst strip_loop.simps) (simp add: blank_def)
next
  case (Cons c s)
  show ?case
  proof (cases "blank c")
    case True
    then show ?thesis using Cons [of "pre @ [CHR 0x00]"]
      by (subst strip_loop.simps) (simp add: put_at)
  next
    case False
    then show ?thesis by (subst strip_loop.simps) simp
  qed
qed

lemma word_line:
  "word_loop (length pre + length s) (pre @ s @ CHR 0x00 # post) (length pre) =
    Some (length pre + length (takeWhile (\<lambda>c. \<not> blank c) s))"
proof (induction s arbitrary: pre)
  case Nil
  then show ?case by (subst word_loop.simps) (simp add: blank_def)
next
  case (Cons c s)
  show ?case using Cons [of "pre @ [c]"] by (subst word_loop.simps) simp
qed

text \<open>The rest of a string in quotes, up to the closing quote, and what follows it.  A quote after a backslash
  does not close it.\<close>

fun quoted :: "string \<Rightarrow> string \<times> string" where
  "quoted [] = ([], [])"
| "quoted (c # s) =
     (if c = CHR 0x22 then ([], s)
      else if c = CHR 0x5C \<and> s \<noteq> [] \<and> hd s = CHR 0x22 then (c # CHR 0x22 # fst (quoted (tl s)), snd (quoted (tl s)))
      else (c # fst (quoted s), snd (quoted s)))"

lemma quoted_parts: "(s = fst (quoted s) \<and> snd (quoted s) = []) \<or> s = fst (quoted s) @ CHR 0x22 # snd (quoted s)"
  by (induction s rule: quoted.induct) (auto simp: neq_Nil_conv)

lemma quote_line:
  "quote_loop (length pre + length s) (pre @ s @ CHR 0x00 # post) (length pre) = Some (length pre + length (fst (quoted s)))"
proof (induction s arbitrary: pre rule: quoted.induct)
  case 1
  then show ?case by (subst quote_loop.simps) simp
next
  case (2 c s)
  consider (quote) "c = CHR 0x22" | (escape) r where "c = CHR 0x5C" "s = CHR 0x22 # r" | (slash) "c = CHR 0x5C" "\<not> (s \<noteq> [] \<and> hd s = CHR 0x22)"
    | (other) "c \<noteq> CHR 0x22" "c \<noteq> CHR 0x5C" by (cases s) auto
  then show ?case
  proof cases
    case quote
    then show ?thesis by (subst quote_loop.simps) simp
  next
    case escape
    have g: "get (pre @ c # CHR 0x22 # r @ CHR 0x00 # post) (Suc (length pre)) = Some (CHR 0x22)"
      using get_at(2) [of "pre @ [c]"] by simp
    show ?thesis using "2.IH"(1) [of "pre @ [c, CHR 0x22]"] escape g by (subst quote_loop.simps) simp
  next
    case slash
    define e where "e = hd (s @ [CHR 0x00])"
    have e: "e \<noteq> CHR 0x22" using slash(2) by (cases s) (auto simp: e_def)
    have g: "get (pre @ c # s @ CHR 0x00 # post) (Suc (length pre)) = Some e"
      using get_at(2) [of "pre @ [c]"] by (cases s) (simp_all add: e_def)
    have q: "c \<noteq> CHR 0x22" "\<not> (c = CHR 0x5C \<and> s \<noteq> [] \<and> hd s = CHR 0x22)" using slash by auto
    show ?thesis using "2.IH"(3) [OF q, of "pre @ [c]"] slash q e g by (subst quote_loop.simps) auto
  next
    case other
    have q: "c \<noteq> CHR 0x22" "\<not> (c = CHR 0x5C \<and> s \<noteq> [] \<and> hd s = CHR 0x22)" using other by auto
    show ?thesis using "2.IH"(3) [OF q, of "pre @ [c]"] other q by (subst quote_loop.simps) simp
  qed
qed

subsection \<open>The words of a line\<close>

lemma quoted_shorter: "length (snd (quoted s)) \<le> length s"
  using quoted_parts [of s]
proof
  assume "s = fst (quoted s) @ CHR 0x22 # snd (quoted s)"
  from arg_cong [OF this, of length] show ?thesis by simp
qed simp

text \<open>A word ends at a blank; a word that starts with a quote ends at the closing one.\<close>

function tokens :: "string \<Rightarrow> string list" where
  "tokens s =
     (case dropWhile blank s of
        [] \<Rightarrow> []
      | c # r \<Rightarrow>
          if c = CHR 0x22 then fst (quoted r) # tokens (snd (quoted r))
          else (c # takeWhile (\<lambda>c. \<not> blank c) r) # tokens (dropWhile (\<lambda>c. \<not> blank c) r))"
  by auto
termination
proof (relation "measure length", goal_cases)
  case (2 s c r)
  then have "length (c # r) \<le> length s" using length_dropWhile_le [of blank s] by simp
  then show ?case using quoted_shorter [of r] by simp
next
  case (3 s c r)
  then have "length (c # r) \<le> length s" using length_dropWhile_le [of blank s] by simp
  then show ?case using length_dropWhile_le [of "\<lambda>c. \<not> blank c" r] by simp
qed simp

declare tokens.simps [simp del]

lemma tokens_Nil [simp]: "tokens [] = []"
  by (subst tokens.simps) simp

text \<open>The word at a position of the part of the buffer already split.\<close>

definition word_at :: "string \<Rightarrow> nat \<Rightarrow> string" where
  "word_at pre a = takeWhile (\<lambda>c. c \<noteq> CHR 0x00) (drop a pre)"

lemma takeWhile_stops:
  assumes "(\<exists>c\<in>set u. \<not> P c) \<or> x = [] \<or> \<not> P (hd x)"
  shows "takeWhile P (u @ x) = takeWhile P u"
proof (cases "\<forall>c\<in>set u. P c")
  case True
  then have "takeWhile P u = u" "takeWhile P x = []" using assms by (cases x; simp)+
  moreover have "takeWhile P (u @ x) = u @ takeWhile P x" using True by (simp add: takeWhile_append)
  ultimately show ?thesis by (metis append_Nil2)
next
  case False
  then show ?thesis by (auto simp: takeWhile_append1)
qed

lemma word_at_extend:
  assumes "a \<le> length pre" and "CHR 0x00 \<in> set (drop a pre) \<or> x = [] \<or> hd x = CHR 0x00"
  shows "word_at (pre @ x) a = word_at pre a"
  unfolding word_at_def using takeWhile_stops [of "drop a pre" "\<lambda>c. c \<noteq> CHR 0x00" x] assms by fastforce

lemma word_at_new: "CHR 0x00 \<notin> set w \<Longrightarrow> word_at (pre @ w) (length pre) = w"
  by (auto simp: word_at_def takeWhile_eq_all_conv)

lemma cstring_word:
  assumes "a \<le> length pre" and "CHR 0x00 \<in> set (drop a pre) \<or> (x \<noteq> [] \<and> hd x = CHR 0x00)"
  shows "cstring (drop a (pre @ x)) = Some (word_at pre a)"
proof -
  have "CHR 0x00 \<in> set (drop a (pre @ x))" using assms by (cases x) auto
  then have "cstring (drop a (pre @ x)) = Some (word_at (pre @ x) a)" unfolding word_at_def by (rule cstring_takeWhile)
  also have "word_at (pre @ x) a = word_at pre a" using assms by (intro word_at_extend) auto
  finally show ?thesis .
qed

lemma put_args_total:
  "length m < 2 ^ 32 \<Longrightarrow> \<forall>a\<in>set argv. \<exists>w. cstring (drop a m) = Some w \<Longrightarrow> \<exists>out. put_args qemu m argv = Some out"
proof (induction argv)
  case (Cons a argv)
  then obtain w where w: "cstring (drop a m) = Some w" by auto
  have "length (drop a m) < 2 ^ 32" using Cons.prems(1) by simp
  then show ?case using Cons w by auto
qed simp

lemma too_many_args_total:
  "length m < 2 ^ 32 \<Longrightarrow> \<forall>a\<in>set argv. \<exists>w. cstring (drop a m) = Some w \<Longrightarrow> \<exists>out. too_many_args qemu m argv = Some out"
  using put_args_total [of m argv qemu] by (auto simp: too_many_args_def xprintf_constant)

text \<open>The state of the split: the arguments found so far lie in \<open>pre\<close> and are closed by a zero, or will be.\<close>

definition args_in :: "string \<Rightarrow> string \<Rightarrow> nat list \<Rightarrow> bool" where
  "args_in pre s argv \<longleftrightarrow> (\<forall>a\<in>set argv. a \<le> length pre \<and>
     (CHR 0x00 \<in> set (drop a pre) \<or> s = [] \<or> blank (hd s)))"

lemma args_in_strip:
  assumes "args_in pre s argv"
  defines "pre1 \<equiv> pre @ replicate (length (takeWhile blank s)) (CHR 0x00)"
  shows "\<forall>a\<in>set argv. a \<le> length pre1 \<and> word_at pre1 a = word_at pre a \<and> (dropWhile blank s = [] \<or> CHR 0x00 \<in> set (drop a pre1))"
proof
  fix a assume a: "a \<in> set argv"
  have le: "a \<le> length pre" using assms(1) a by (auto simp: args_in_def)
  have w: "word_at pre1 a = word_at pre a"
    unfolding pre1_def by (rule word_at_extend [OF le]) (cases "takeWhile blank s"; simp)
  have "dropWhile blank s = [] \<or> CHR 0x00 \<in> set (drop a pre1)"
  proof (cases "s = [] \<or> blank (hd s)")
    case True
    then show ?thesis using le by (cases s) (auto simp: pre1_def)
  next
    case False
    then show ?thesis using assms(1) a by (auto simp: args_in_def pre1_def)
  qed
  then show "a \<le> length pre1 \<and> word_at pre1 a = word_at pre a \<and> (dropWhile blank s = [] \<or> CHR 0x00 \<in> set (drop a pre1))"
    using le w by (simp add: pre1_def)
qed

text \<open>The result of the split: the words of the arguments found before, and of the ones to come.\<close>

definition split_to :: "(string \<times> string \<times> nat list) option \<Rightarrow> nat \<Rightarrow> string list \<Rightarrow> nat list \<Rightarrow> string list \<Rightarrow> bool" where
  "split_to r n ws argv ts \<longleftrightarrow> (\<exists>out m new. r = Some (out, m, argv @ new) \<and> length m = n \<and>
     map (\<lambda>a. cstring (drop a m)) (argv @ new) = map Some (ws @ take (8 - length argv) ts) \<and>
     (length argv + length ts < 8 \<longrightarrow> out = []))"

lemma split_to_word:
  assumes "split_to r n (ws @ [w]) (argv @ [a]) ts" "length argv < 8"
  shows "split_to r n ws argv (w # ts)"
proof -
  obtain out m new where r: "r = Some (out, m, argv @ a # new)" "length m = n"
    "map (\<lambda>a. cstring (drop a m)) (argv @ a # new) = map Some ((ws @ [w]) @ take (7 - length argv) ts)"
    "length argv + length (w # ts) < 8 \<longrightarrow> out = []"
    using assms(1) by (auto simp: split_to_def)
  have "(ws @ [w]) @ take (7 - length argv) ts = ws @ take (8 - length argv) (w # ts)"
    using assms(2) by (simp add: take_Cons')
  then show ?thesis using r unfolding split_to_def by (intro exI [of _ out] exI [of _ m] exI [of _ "a # new"]) auto
qed

lemma split_to_end:
  assumes "map (\<lambda>a. cstring (drop a m)) argv = map Some ws"
  shows "split_to (Some ([], m, argv)) (length m) ws argv []"
  using assms by (auto simp: split_to_def)

lemma split_to_last:
  assumes "map (\<lambda>a. cstring (drop a m)) argv = map Some ws" "cstring (drop a m) = Some w" "length argv < 8"
  shows "split_to (Some ([], m, argv @ [a])) (length m) ws argv [w]"
  using assms by (intro split_to_word [where a = a] split_to_end) simp_all

text \<open>The pass through the loop that starts with \<open>c # r\<close> after the blanks, \<open>pre\<close> being what is before.\<close>

definition split_word :: "bool \<Rightarrow> nat \<Rightarrow> string \<Rightarrow> nat \<Rightarrow> nat list \<Rightarrow> (string \<times> string \<times> nat list) option" where
  "split_word qemu n m k argv =
     do {
       c \<leftarrow> get m k;
       if c = CHR 0x22 then
         do {
           p2 \<leftarrow> quote_loop n m (k + 1);
           if p2 \<ge> n then Some ([], m, argv @ [k + 1])
           else do { m2 \<leftarrow> put p2 (CHR 0x00) m; split_loop qemu n m2 (p2 + 1) (argv @ [k + 1]) }
         }
       else
         do {
           p2 \<leftarrow> word_loop n m k;
           if p2 \<ge> n then Some ([], m, argv @ [k]) else split_loop qemu n m p2 (argv @ [k])
         }
     }"

lemma split_loop_word:
  assumes "p < n" "strip_loop n m p = Some (m1, k)" "length argv < 8" "k < n"
  shows "split_loop qemu n m p argv = split_word qemu n m1 k argv"
  using assms by (subst split_loop.simps) (simp add: SHELL_ARG_MAX_def split_word_def)

lemma split_quoted:
  assumes "CHR 0x00 \<notin> set r" "length argv < 8"
    and old: "\<forall>a\<in>set argv. a \<le> length pre \<and> CHR 0x00 \<in> set (drop a pre)"
    and n: "n = length pre + 1 + length r"
    and IH: "\<And>pre' argv'. args_in pre' (snd (quoted r)) argv' \<Longrightarrow> length argv' \<le> 8 \<Longrightarrow> n = length pre' + length (snd (quoted r)) \<Longrightarrow>
      split_to (split_loop qemu n (pre' @ snd (quoted r) @ CHR 0x00 # post) (length pre') argv')
        (n + 1 + length post) (map (word_at pre') argv') argv' (tokens (snd (quoted r)))"
  shows "split_to (split_word qemu n (pre @ CHR 0x22 # r @ CHR 0x00 # post) (length pre) argv)
    (n + 1 + length post) (map (word_at pre) argv) argv (fst (quoted r) # tokens (snd (quoted r)))"
proof -
  let ?m = "pre @ CHR 0x22 # r @ CHR 0x00 # post" and ?k = "length pre + 1" and ?w = "fst (quoted r)" and ?r = "snd (quoted r)"
  have cold: "cstring (drop a (pre @ x)) = Some (word_at pre a)" "word_at (pre @ x) a = word_at pre a" if "a \<in> set argv" for a x
    using cstring_word [of a pre x] word_at_extend [of a pre x] old that by auto
  have lm: "length ?m = n + 1 + length post" using n by simp
  have q: "quote_loop n ?m ?k = Some (?k + length ?w)" using quote_line [of "pre @ [CHR 0x22]" r post] n by simp
  show ?thesis
  proof (cases "?k + length ?w \<ge> n")
    case True
    then have w: "r = ?w" "?r = []" using quoted_parts [of r] n by (auto dest: arg_cong [where f = length])
    have "cstring (drop ?k ?m) = Some ?w" using cstring_app [OF assms(1), of post] w by simp
    then have "split_to (Some ([], ?m, argv @ [?k])) (n + 1 + length post) (map (word_at pre) argv) argv [?w]"
      unfolding lm [symmetric] using cold(1) assms(2) by (intro split_to_last) simp_all
    then show ?thesis using q True w(2) by (simp add: split_word_def)
  next
    case False
    then have rw: "r = ?w @ CHR 0x22 # ?r" using quoted_parts [of r] n by auto
    define pre2 where "pre2 = pre @ [CHR 0x22] @ ?w @ [CHR 0x00]"
    have w0: "CHR 0x00 \<notin> set ?w" using assms(1) by (subst (asm) rw) simp
    have m: "?m = (pre @ [CHR 0x22] @ ?w) @ CHR 0x22 # ?r @ CHR 0x00 # post" using rw by simp
    have put: "put (?k + length ?w) (CHR 0x00) ?m = Some (pre2 @ ?r @ CHR 0x00 # post)"
      unfolding m by (subst put_at) (simp_all add: pre2_def)
    have n2: "n = length pre2 + length ?r" "?k + length ?w + 1 = length pre2"
      using n arg_cong [OF rw, of length] by (simp_all add: pre2_def)
    have in2: "args_in pre2 ?r (argv @ [?k])" using old by (auto simp: args_in_def pre2_def intro!: le_SucI trans_le_add1)
    have words: "map (word_at pre2) (argv @ [?k]) = map (word_at pre) argv @ [?w]"
      using cold(2) word_at_extend [of ?k "pre @ [CHR 0x22] @ ?w" "[CHR 0x00]"] word_at_new [OF w0, of "pre @ [CHR 0x22]"]
      by (auto simp: pre2_def)
    have "split_to (split_loop qemu n (pre2 @ ?r @ CHR 0x00 # post) (length pre2) (argv @ [?k]))
        (n + 1 + length post) (map (word_at pre) argv @ [?w]) (argv @ [?k]) (tokens ?r)"
      using IH [OF in2 _ n2(1)] assms(2) unfolding words by simp
    from split_to_word [OF this assms(2)] show ?thesis using q False put n2(2) by (simp add: split_word_def)
  qed
qed

lemma split_plain:
  assumes "CHR 0x00 \<notin> set (c # r)" "length argv < 8" "c \<noteq> CHR 0x22" "\<not> blank c"
    and old: "\<forall>a\<in>set argv. a \<le> length pre \<and> CHR 0x00 \<in> set (drop a pre)"
    and n: "n = length pre + length (c # r)"
    and IH: "\<And>pre' argv'. args_in pre' (dropWhile (\<lambda>c. \<not> blank c) r) argv' \<Longrightarrow> length argv' \<le> 8 \<Longrightarrow>
      n = length pre' + length (dropWhile (\<lambda>c. \<not> blank c) r) \<Longrightarrow>
      split_to (split_loop qemu n (pre' @ dropWhile (\<lambda>c. \<not> blank c) r @ CHR 0x00 # post) (length pre') argv')
        (n + 1 + length post) (map (word_at pre') argv') argv' (tokens (dropWhile (\<lambda>c. \<not> blank c) r))"
  shows "split_to (split_word qemu n (pre @ c # r @ CHR 0x00 # post) (length pre) argv)
    (n + 1 + length post) (map (word_at pre) argv) argv
    ((c # takeWhile (\<lambda>c. \<not> blank c) r) # tokens (dropWhile (\<lambda>c. \<not> blank c) r))"
proof -
  let ?m = "pre @ c # r @ CHR 0x00 # post" and ?w = "c # takeWhile (\<lambda>c. \<not> blank c) r"
  define r2 where "r2 = dropWhile (\<lambda>c. \<not> blank c) r"
  have cold: "cstring (drop a (pre @ x)) = Some (word_at pre a)" "word_at (pre @ x) a = word_at pre a" if "a \<in> set argv" for a x
    using cstring_word [of a pre x] word_at_extend [of a pre x] old that by auto
  have w: "c # r = ?w @ r2" by (simp add: r2_def)
  have lm: "length ?m = n + 1 + length post" using n by simp
  have q: "word_loop n ?m (length pre) = Some (length pre + length ?w)"
    using word_line [of pre "c # r" post] n assms(4) by simp
  have w0: "CHR 0x00 \<notin> set ?w" using assms(1) by (auto dest: set_takeWhileD)
  show ?thesis
  proof (cases "r2 = []")
    case True
    then have r: "c # r = ?w" using w by (metis append_Nil2)
    have "drop (length pre) ?m = (c # r) @ CHR 0x00 # post" by simp
    then have "cstring (drop (length pre) ?m) = Some ?w" using cstring_app [OF assms(1), of post] r by metis
    then have "split_to (Some ([], ?m, argv @ [length pre])) (n + 1 + length post) (map (word_at pre) argv) argv [?w]"
      unfolding lm [symmetric] using cold(1) assms(2) by (intro split_to_last) simp_all
    moreover have "length pre + length ?w \<ge> n" using n r by (metis order_refl)
    ultimately show ?thesis using q assms(3) unfolding r2_def [symmetric] True by (simp add: split_word_def)
  next
    case False
    have m: "?m = (pre @ ?w) @ r2 @ CHR 0x00 # post" using w by (metis append.assoc append_Cons)
    have n2: "n = length (pre @ ?w) + length r2" using n arg_cong [OF w, of length] by simp
    then have np: "\<not> length pre + length ?w \<ge> n" using False by simp
    have in2: "args_in (pre @ ?w) r2 (argv @ [length pre])"
      using old hd_dropWhile [OF False [unfolded r2_def]] by (auto simp: args_in_def r2_def intro!: le_SucI trans_le_add1)
    have words: "map (word_at (pre @ ?w)) (argv @ [length pre]) = map (word_at pre) argv @ [?w]"
      using cold(2) word_at_new [OF w0, of pre] by auto
    have "split_to (split_loop qemu n ?m (length (pre @ ?w)) (argv @ [length pre]))
        (n + 1 + length post) (map (word_at pre) argv @ [?w]) (argv @ [length pre]) (tokens r2)"
      using IH [OF in2 [unfolded r2_def] _ n2 [unfolded r2_def]] assms(2) unfolding words m r2_def by simp
    from split_to_word [OF this assms(2)] show ?thesis using q np assms(3) by (simp add: split_word_def r2_def)
  qed
qed

lemma split_loop_tokens:
  assumes "CHR 0x00 \<notin> set s" "args_in pre s argv" "length argv \<le> 8"
    and "n = length pre + length s" "n + length post + 1 < 2 ^ 32"
  shows "split_to (split_loop qemu n (pre @ s @ CHR 0x00 # post) (length pre) argv) (n + 1 + length post)
    (map (word_at pre) argv) argv (tokens s)"
  using assms
proof (induction s arbitrary: pre argv rule: tokens.induct)
  case (1 s)
  let ?m = "pre @ s @ CHR 0x00 # post"
  define pre1 where "pre1 = pre @ replicate (length (takeWhile blank s)) (CHR 0x00)"
  define s1 where "s1 = dropWhile blank s"
  let ?m1 = "pre1 @ s1 @ CHR 0x00 # post"
  have n: "n = length pre1 + length s1"
    using length_append [of "takeWhile blank s" "dropWhile blank s"] "1.prems"(4) by (simp add: pre1_def s1_def)
  have strip: "strip_loop n ?m (length pre) = Some (?m1, length pre1)"
    using strip_line [of pre s post] "1.prems"(4) by (simp add: pre1_def s1_def)
  have s1: "CHR 0x00 \<notin> set s1" using "1.prems"(1) unfolding s1_def by (meson set_dropWhileD)
  have old: "a \<le> length pre1" "word_at pre1 a = word_at pre a" "s1 = [] \<or> CHR 0x00 \<in> set (drop a pre1)" if "a \<in> set argv" for a
    using args_in_strip [OF "1.prems"(2)] that unfolding pre1_def s1_def by blast+
  have "cstring (drop a ?m1) = Some (word_at pre a)" if "a \<in> set argv" for a
    using cstring_word [of a pre1 "s1 @ CHR 0x00 # post"] old [OF that] by (cases s1) auto
  then have cold: "map (\<lambda>a. cstring (drop a ?m1)) argv = map Some (map (word_at pre) argv)" by simp
  have len1: "length ?m1 = n + 1 + length post" using n by simp
  have words: "map (word_at pre) argv = map (word_at pre1) argv" using old(2) by simp
  consider (start) "s = []" | (full) "s \<noteq> []" "8 \<le> length argv" | (blanks) "s \<noteq> []" "length argv < 8" "s1 = []"
    | (word) c r where "s \<noteq> []" "length argv < 8" "s1 = c # r" by (cases s1) fastforce+
  then show ?case
  proof cases
    case start
    then show ?thesis using split_to_end [OF cold] "1.prems"(4) by (subst split_loop.simps) (simp add: s1_def pre1_def)
  next
    case full
    have "\<forall>a\<in>set argv. \<exists>w. cstring (drop a ?m1) = Some w" using cold by (auto simp: map_eq_conv)
    then obtain out where "too_many_args qemu ?m1 argv = Some out"
      using too_many_args_total [of ?m1 argv qemu] len1 "1.prems"(5) by auto
    then show ?thesis using full cold strip len1 "1.prems"(3,4)
      by (subst split_loop.simps) (simp add: SHELL_ARG_MAX_def split_to_def)
  next
    case blanks
    have "tokens s = []" by (subst tokens.simps) (simp only: blanks(3) [unfolded s1_def] list.case)
    moreover have "length pre < n" using blanks(1) "1.prems"(4) by simp
    moreover have "length pre1 \<ge> n" using blanks(3) n by simp
    ultimately show ?thesis using blanks(2) split_to_end [OF cold, unfolded len1] strip
      by (subst split_loop.simps) (simp add: SHELL_ARG_MAX_def)
  next
    case word
    have dw: "dropWhile blank s = c # r" using word(3) by (simp add: s1_def)
    have nb: "\<not> blank c" using hd_dropWhile [of blank s] dw by auto
    have closed: "\<forall>a\<in>set argv. a \<le> length pre1 \<and> CHR 0x00 \<in> set (drop a pre1)" using old(1,3) word(3) by auto
    have p: "length pre < n" "length pre1 < n" using word(1,3) "1.prems"(4) n by simp_all
    have body: "split_loop qemu n ?m (length pre) argv = split_word qemu n (pre1 @ c # r @ CHR 0x00 # post) (length pre1) argv"
      using split_loop_word [OF p(1) strip word(2) p(2)] word(3) by simp
    have n1: "n = length pre1 + 1 + length r" and n2: "n = length pre1 + length (c # r)" using n word(3) by simp_all
    have r0: "CHR 0x00 \<notin> set r" "CHR 0x00 \<notin> set (c # r)" using s1 word(3) by auto
    show ?thesis
    proof (cases "c = CHR 0x22")
      case True
      have z: "CHR 0x00 \<notin> set (snd (quoted r))" using quoted_parts [of r] r0(1) by (metis Un_iff empty_iff list.set(1) list.set_intros(2) set_append)
      have "split_to (split_word qemu n (pre1 @ CHR 0x22 # r @ CHR 0x00 # post) (length pre1) argv)
          (n + 1 + length post) (map (word_at pre1) argv) argv (fst (quoted r) # tokens (snd (quoted r)))"
        by (rule split_quoted [OF r0(1) word(2) closed n1]) (rule "1.IH"(1) [OF dw True z _ _ _ "1.prems"(5)])
      moreover have "tokens s = fst (quoted r) # tokens (snd (quoted r))" using True dw by (subst tokens.simps) simp
      ultimately show ?thesis unfolding body words True by simp
    next
      case False
      have z: "CHR 0x00 \<notin> set (dropWhile (\<lambda>c. \<not> blank c) r)" using r0(1) by (meson set_dropWhileD)
      have "split_to (split_word qemu n (pre1 @ c # r @ CHR 0x00 # post) (length pre1) argv) (n + 1 + length post)
          (map (word_at pre1) argv) argv ((c # takeWhile (\<lambda>c. \<not> blank c) r) # tokens (dropWhile (\<lambda>c. \<not> blank c) r))"
        by (rule split_plain [OF r0(2) word(2) False nb closed n2]) (rule "1.IH"(2) [OF dw False z _ _ _ "1.prems"(5)])
      moreover have "tokens s = (c # takeWhile (\<lambda>c. \<not> blank c) r) # tokens (dropWhile (\<lambda>c. \<not> blank c) r)"
        using False dw by (subst tokens.simps) simp
      ultimately show ?thesis unfolding body words by simp
    qed
  qed
qed

end
