(* ===== verification/ShellEdit.thy ===== *)
theory ShellEdit
  imports ShellSplit
begin

text \<open>
  Reading a line: the array and its two positions implement a text with a cursor in it.
\<close>

subsection \<open>Exact effects of the editing keys\<close>

lemma list_update_at: "length b = n \<Longrightarrow> (b @ x # y)[n := c] = b @ c # y"
  by (induction b arbitrary: n) auto

lemma backspaces_eq [simp]: "backspaces qemu n = Some (replicate n (CHR 0x08))"
  by (induction n) (simp_all add: backspaces_def xprintf_constant xputs_def xputc_def)

lemma erase_eq [simp]: "erase qemu n = Some (concat (replicate n [CHR 0x08, CHR '' '', CHR 0x08]))"
  by (simp add: erase_def xprintf_constant xputs_def xputc_def)

lemma xprintf_bs [simp]: "xprintf qemu [CHR 0x08] [] = Some [CHR 0x08]"
  by (simp add: xprintf_constant xputs_def xputc_def)

lemma xprintf_bs_s [simp]:
  "cstring p = Some s \<Longrightarrow> length p < 2 ^ 32 \<Longrightarrow> xprintf qemu (CHR 0x08 # ''%s '') [Str p] = Some (CHR 0x08 # xputs qemu s @ '' '')"
  by (simp add: xprintf_def xvprintf_string xvprintf_plain xputc_def)

lemma strcpy_start:
  assumes "CHR 0x00 \<notin> set h" and "length h < length m"
  shows "strcpy m 0 (h @ CHR 0x00 # r) = Some (h @ CHR 0x00 # drop (length h + 1) m)"
  using assms by (simp add: strcpy_def cstring_app)

lemma key_normal_end:
  assumes "aszLine sh = b @ x # y" "ui16LinePosition sh = length b" "ui16LineCurrentPosition sh = length b" "length b < 127"
  shows "key_normal qemu c sh = Some (xputc qemu c, False, move_to (length b + 1) (length b + 1) (sh\<lparr>aszLine := b @ c # y\<rparr>))"
  using assms by (simp add: key_normal_def Let_def put_at SHELL_CMD_SIZE_def)

lemma key_normal_middle:
  assumes "aszLine sh = b @ a @ x # y" "ui16LinePosition sh = length b + length a" "ui16LineCurrentPosition sh = length b"
    "a \<noteq> []" "length b + length a < 127" "cstring (c # a @ y) = Some s" "length (aszLine sh) < 2 ^ 32"
  shows "key_normal qemu c sh = Some (xputs qemu s @ replicate (length a) (CHR 0x08), False,
    move_to (length b + length a + 1) (length b + 1) (sh\<lparr>aszLine := b @ c # a @ y\<rparr>))"
proof -
  obtain z a' where a: "a = z # a'" using assms(4) by (cases a) auto
  have m: "memmove (aszLine sh) (length b + 1) (length b) (length a) = Some (b @ z # a @ y)"
    using assms(1) by (simp add: memmove_def a)
  have p: "put (length b) c (b @ z # a @ y) = Some (b @ c # a @ y)" by (simp add: put_at)
  have "length (c # a @ y) < 2 ^ 32" using assms(1,7) by simp
  then show ?thesis using assms(2,3,5,6) m p a by (simp add: key_normal_def Let_def SHELL_CMD_SIZE_def)
qed

lemma key_backspace_eq:
  assumes "aszLine sh = b @ l # a @ y" "ui16LinePosition sh = length b + length a + 1" "ui16LineCurrentPosition sh = length b + 1"
    "CHR 0x00 \<notin> set a" "length (aszLine sh) < 2 ^ 32"
  shows "key_backspace qemu sh = Some (CHR 0x08 # xputs qemu a @ CHR '' '' # replicate (length a + 1) (CHR 0x08), False,
    move_to (length b + length a) (length b) (sh\<lparr>aszLine := b @ a @ CHR 0x00 # y\<rparr>))"
proof (cases "a = []")
  case True
  then show ?thesis using assms(1-3) by (simp add: key_backspace_def Let_def put_at xputs_def)
next
  case False
  then obtain a' z where a: "a = a' @ [z]" by (cases a rule: rev_cases) auto
  have m: "memmove (aszLine sh) (length b) (length b + 1) (length a) = Some (b @ a @ z # y)"
    using assms(1) by (simp add: memmove_def a)
  have p: "put (length b + length a) (CHR 0x00) (b @ a @ z # y) = Some (b @ a @ CHR 0x00 # y)"
    using put_at [of "b @ a"] by simp
  have "length (a @ CHR 0x00 # y) < 2 ^ 32" using assms(1,5) by simp
  then show ?thesis using assms(2,3,4) m p False by (simp add: key_backspace_def Let_def cstring_app)
qed

lemma key_right_eq:
  assumes "aszLine sh = b @ c # m" "ui16LinePosition sh > length b" "ui16LineCurrentPosition sh = length b"
  shows "key_right qemu sh = Some (xputc qemu c, False, move_to (ui16LinePosition sh) (length b + 1) sh)"
  using assms by (simp add: key_right_def Let_def)

subsection \<open>A text with a cursor\<close>

text \<open>The line shows the text before the cursor and the text after it; the array stays terminated.\<close>

definition line_text :: "SHELL_T \<Rightarrow> string \<Rightarrow> string \<Rightarrow> bool" where
  "line_text sh b a \<longleftrightarrow> length (aszLine sh) = 128 \<and> last (aszLine sh) = CHR 0x00 \<and> CHR 0x00 \<notin> set (b @ a) \<and>
     length (b @ a) < 128 \<and> take (length (b @ a)) (aszLine sh) = b @ a \<and>
     ui16LinePosition sh = length (b @ a) \<and> ui16LineCurrentPosition sh = length b \<and> eKeyState sh = eWaitIdle"

lemma line_text_parts:
  assumes "line_text sh b a"
  obtains x y where "aszLine sh = b @ a @ x # y" "length y = 127 - length (b @ a)" "last (x # y) = CHR 0x00"
proof -
  define z where "z = drop (length (b @ a)) (aszLine sh)"
  have z: "aszLine sh = b @ a @ z"
    using assms append_take_drop_id [of "length (b @ a)" "aszLine sh"] by (simp add: line_text_def z_def)
  have "length z = 128 - length (b @ a)" "z \<noteq> []" using assms by (auto simp: line_text_def z_def)
  moreover have "last z = CHR 0x00" using assms \<open>z \<noteq> []\<close> z by (simp add: line_text_def)
  ultimately show ?thesis using z that by (cases z) auto
qed

lemma line_textI:
  assumes "m = b @ a @ z" "length m = 128" "z \<noteq> []" "last z = CHR 0x00" "CHR 0x00 \<notin> set (b @ a)" "eKeyState sh = eWaitIdle"
    "n = length b + length a"
  shows "line_text (move_to n (length b) (sh\<lparr>aszLine := m\<rparr>)) b a"
proof -
  have "length (b @ a) < 128" using assms(1,2,3) by (cases z) auto
  then show ?thesis using assms by (simp add: line_text_def move_to_def)
qed

text \<open>The characters received for a key, and what it does to the text.  Typing into a full line, and completing an
  empty one, are not editing.\<close>

datatype key = Typed char | Backspace | Cursor_left | Cursor_right | Cursor_up | Cursor_down | Complete

fun key_chars :: "key \<Rightarrow> string" where
  "key_chars (Typed c) = [c]"
| "key_chars Backspace = [CHR 0x08]"
| "key_chars Cursor_up = [CHR 0x1B, CHR 0x5B, CHR 0x41]"
| "key_chars Cursor_down = [CHR 0x1B, CHR 0x5B, CHR 0x42]"
| "key_chars Cursor_right = [CHR 0x1B, CHR 0x5B, CHR 0x43]"
| "key_chars Cursor_left = [CHR 0x1B, CHR 0x5B, CHR 0x44]"
| "key_chars Complete = [CHR 0x09]"

definition typable :: "bool \<Rightarrow> char \<Rightarrow> bool" where
  "typable sc c \<longleftrightarrow> c \<notin> {CHR 0x00, CHR 0x08, CHR 0x09, CHR 0x0A, CHR 0x0D, CHR 0x1B, CHR 0x7F} \<and>
     (sc \<longrightarrow> of_char c < (128 :: nat))"

definition completed :: "string list \<Rightarrow> string \<Rightarrow> string" where
  "completed cmds s = (case find (\<lambda>c. take (length s) c = s) cmds of None \<Rightarrow> s | Some c \<Rightarrow> c @ '' '')"

fun edit :: "bool \<Rightarrow> string list \<Rightarrow> string \<Rightarrow> key \<Rightarrow> string \<times> string \<Rightarrow> (string \<times> string) option" where
  "edit sc cmds h (Typed c) (b, a) = (if typable sc c \<and> length (b @ a) < 127 then Some (b @ [c], a) else None)"
| "edit sc cmds h Backspace (b, a) = Some (butlast b, a)"
| "edit sc cmds h Cursor_left (b, a) = Some (if b = [] then (b, a) else (butlast b, last b # a))"
| "edit sc cmds h Cursor_right (b, a) = Some (case a of [] \<Rightarrow> (b, a) | c # a' \<Rightarrow> (b @ [c], a'))"
| "edit sc cmds h Cursor_up (b, a) = Some (h, [])"
| "edit sc cmds h Cursor_down (b, a) = Some ([], [])"
| "edit sc cmds h Complete (b, a) = (if b @ a = [] then None else Some (completed cmds (b @ a), []))"

fun edits :: "bool \<Rightarrow> string list \<Rightarrow> string \<Rightarrow> key list \<Rightarrow> string \<times> string \<Rightarrow> (string \<times> string) option" where
  "edits sc cmds h [] t = Some t"
| "edits sc cmds h (k # ks) t = Option.bind (edit sc cmds h k t) (edits sc cmds h ks)"

text \<open>The history and the commands the editor relies on.\<close>

definition history_text :: "string \<Rightarrow> string \<Rightarrow> bool" where
  "history_text m h \<longleftrightarrow> length m = 128 \<and> cstring m = Some h"

definition commands_ok :: "string list \<Rightarrow> bool" where
  "commands_ok cmds \<longleftrightarrow> (\<forall>c\<in>set cmds. CHR 0x00 \<notin> set c \<and> length c < 127)"

lemma cstring_split: "cstring m = Some s \<Longrightarrow> \<exists>r. m = s @ CHR 0x00 # r \<and> CHR 0x00 \<notin> set s"
proof (induction m arbitrary: s)
  case (Cons c m)
  show ?case
  proof (cases "c = CHR 0x00")
    case False
    then obtain t where t: "cstring m = Some t" "s = c # t" using Cons.prems by auto
    then show ?thesis using Cons.IH [OF t(1)] False by auto
  qed (use Cons.prems in auto)
qed simp

lemma strncmp_eq_prefix:
  assumes "CHR 0x00 \<notin> set s" "CHR 0x00 \<notin> set c"
  shows "strncmp_eq (length s) (s @ z) (literal c) = Some (take (length s) c = s)"
  using assms
proof (induction s arbitrary: c)
  case (Cons x s)
  then show ?case by (cases c) (auto simp: literal_def)
qed simp

lemma last_drop_or_Nil: "drop n m \<noteq> [] \<Longrightarrow> last (drop n m) = last m"
  by (auto simp: last_drop)

lemma strcpy_terminated:
  assumes "length m = 128" "last m = CHR 0x00" "length h < 128" "CHR 0x00 \<notin> set h" "n = length h"
  shows "line_text (move_to n n (sh\<lparr>eKeyState := eWaitIdle, aszLine := h @ CHR 0x00 # drop (length h + 1) m\<rparr>)) h []"
proof -
  have "last (CHR 0x00 # drop (length h + 1) m) = CHR 0x00" using assms(2) by (cases "drop (length h + 1) m = []") (simp_all add: last_drop)
  then show ?thesis
    using assms line_textI [of "h @ CHR 0x00 # drop (length h + 1) m" h "[]" _ "sh\<lparr>eKeyState := eWaitIdle\<rparr>" n] by simp
qed

lemma complete_loop_eq:
  assumes "m = s @ z" "length m = 128" "CHR 0x00 \<notin> set s" "commands_ok cmds"
  shows "\<exists>out. complete_loop qemu cmds m (length s) =
    Some (out, (case find (\<lambda>c. take (length s) c = s) cmds of None \<Rightarrow> m | Some c \<Rightarrow> c @ CHR '' '' # drop (length c + 1) m),
      length (completed cmds s))"
  using assms(4)
proof (induction cmds)
  case Nil
  then show ?case by (simp add: completed_def)
next
  case (Cons c cmds)
  have c: "CHR 0x00 \<notin> set c" "length c < 127" using Cons.prems by (auto simp: commands_ok_def)
  have eq: "strncmp_eq (length s) m (literal c) = Some (take (length s) c = s)"
    unfolding assms(1) by (rule strncmp_eq_prefix [OF assms(3) c(1)])
  show ?case
  proof (cases "take (length s) c = s")
    case True
    define t where "t = drop (length s) c"
    have ct: "c = s @ t" using True append_take_drop_id [of "length s" c] by (simp add: t_def)
    have t: "CHR 0x00 \<notin> set t" "drop (length s) (literal c) = t @ [CHR 0x00]" using c(1) ct by (auto simp: literal_def)
    have cp: "strcpy m (length s) (t @ [CHR 0x00]) = Some (c @ CHR 0x00 # drop (length c + 1) m)"
      using assms(2) c(2) ct cstring_app [OF t(1), of "[]"] by (simp add: strcpy_def assms(1))
    have "length (t @ [CHR 0x00]) < 2 ^ 32" using c(2) ct by simp
    then obtain out where out: "xprintf qemu ''%s '' [Str (t @ [CHR 0x00])] = Some out"
      using xprintf_s_blank [OF cstring_app [OF t(1), of "[]"]] by blast
    have len: "strlen (literal c) = Some (length c)" using cstring_app [OF c(1), of "[]"] by (simp add: strlen_def literal_def)
    have "put (length c) (CHR '' '') (c @ CHR 0x00 # drop (length c + 1) m) = Some (c @ CHR '' '' # drop (length c + 1) m)"
      by (rule put_at) simp
    then show ?thesis using eq True t(2) cp out len by (simp add: completed_def)
  next
    case False
    have "commands_ok cmds" using Cons.prems by (simp add: commands_ok_def)
    then show ?thesis using Cons.IH eq False by (simp add: completed_def)
  qed
qed

lemma completed_ok:
  assumes "commands_ok cmds" "CHR 0x00 \<notin> set s"
  shows "CHR 0x00 \<notin> set (completed cmds s)"
  using assms by (auto simp: completed_def commands_ok_def find_Some_iff split: option.splits)

lemma key_up_eq:
  assumes "line_text sh b a" "history_text m h"
  shows "\<exists>out sh'. key_up qemu m sh = Some (out, False, sh') \<and> line_text sh' h []"
proof -
  obtain r where m: "m = h @ CHR 0x00 # r" "CHR 0x00 \<notin> set h" using assms(2) cstring_split by (auto simp: history_text_def)
  have len: "length h < 128" using assms(2) m(1) by (auto simp: history_text_def)
  have l: "length (aszLine sh) = 128" "last (aszLine sh) = CHR 0x00" "eKeyState sh = eWaitIdle" using assms(1) by (auto simp: line_text_def)
  let ?l = "h @ CHR 0x00 # drop (length h + 1) (aszLine sh)"
  have cp: "strcpy (aszLine sh) 0 m = Some ?l" unfolding m(1) using m(2) len l(1) by (intro strcpy_start) simp_all
  have cs: "cstring ?l = Some h" "length ?l < 2 ^ 32" using m(2) len l(1) by (simp_all add: cstring_app)
  have "key_up qemu m sh = Some (concat (replicate (ui16LinePosition sh) [CHR 0x08, CHR '' '', CHR 0x08]) @ xputs qemu h, False,
      move_to (length h) (length h) (sh\<lparr>aszLine := ?l\<rparr>))"
    using cp xprintf_s [OF cs, of qemu] cs(1) by (simp add: key_up_def strlen_def)
  moreover have "sh\<lparr>eKeyState := eWaitIdle, aszLine := ?l\<rparr> = sh\<lparr>aszLine := ?l\<rparr>" using l(3) by simp
  ultimately show ?thesis using strcpy_terminated [OF l(1,2) len m(2) refl, of sh] by metis
qed

text \<open>Escape sequences put the automaton back into its idle state.\<close>

lemma shell_escape:
  assumes "eKeyState sh = eWaitIdle" "c \<in> {CHR 0x41, CHR 0x42, CHR 0x43, CHR 0x44}"
  shows "Shell_loop sc qemu cmds m (CHR 0x1B # CHR 0x5B # c # input) sh =
    (case (if c = CHR 0x41 then key_up qemu m sh else if c = CHR 0x42 then key_down qemu sh
           else if c = CHR 0x43 then key_right qemu sh else key_left qemu sh) of
       None \<Rightarrow> None
     | Some (o1, ready, sh1) \<Rightarrow>
         if ready then Some (o1, True, sh1, input)
         else map_option (\<lambda>(o2, r). (o1 @ o2, r)) (Shell_loop sc qemu cmds m input sh1))"
proof -
  have b: "of_char (CHR 0x1B) < (128 :: nat)" "of_char (CHR 0x5B) < (128 :: nat)" "of_char c < (128 :: nat)"
    using assms(2) by auto
  have s: "sh\<lparr>eKeyState := eWaitIdle\<rparr> = sh" using assms(1) by simp
  have k1: "Shell_key sc qemu cmds m (CHR 0x1B) sh = Some ([], False, sh\<lparr>eKeyState := eWaitSpecKey\<rparr>)"
    using b(1) by (simp add: Shell_key_def)
  have k2: "Shell_key sc qemu cmds m (CHR 0x5B) (sh\<lparr>eKeyState := eWaitSpecKey\<rparr>) = Some ([], False, sh\<lparr>eKeyState := eWaitFuncKey\<rparr>)"
    using b(2) by (simp add: Shell_key_def)
  have k3: "Shell_key sc qemu cmds m c (sh\<lparr>eKeyState := eWaitFuncKey\<rparr>) =
      (if c = CHR 0x41 then key_up qemu m sh else if c = CHR 0x42 then key_down qemu sh
       else if c = CHR 0x43 then key_right qemu sh else key_left qemu sh)"
    using b(3) assms(2) s by (auto simp: Shell_key_def Let_def)
  show ?thesis using k1 k2 k3 by (simp add: bind_eq_Some_conv map_option_case split: option.splits prod.splits)
qed

subsection \<open>Keys implement editing\<close>

definition key_effect :: "bool \<Rightarrow> string list \<Rightarrow> string \<Rightarrow> key \<Rightarrow> SHELL_T \<Rightarrow> key_result" where
  "key_effect qemu cmds m k sh =
     (case k of
        Typed c \<Rightarrow> key_normal qemu c sh
      | Backspace \<Rightarrow> key_backspace qemu sh
      | Cursor_left \<Rightarrow> key_left qemu sh
      | Cursor_right \<Rightarrow> key_right qemu sh
      | Cursor_up \<Rightarrow> key_up qemu m sh
      | Cursor_down \<Rightarrow> key_down qemu sh
      | Complete \<Rightarrow> key_tab qemu cmds sh)"

lemma shell_plain:
  assumes "eKeyState sh = eWaitIdle" "sc \<longrightarrow> of_char c < (128 :: nat)" "c \<noteq> CHR 0x1B"
  shows "Shell_key sc qemu cmds m c sh = key_edit qemu cmds c sh"
  using assms by (auto simp: Shell_key_def)

lemma typable_edit: "typable sc c \<Longrightarrow> key_edit qemu cmds c sh = key_normal qemu c sh"
  by (simp add: typable_def key_edit_def)

lemma shell_loop_key:
  assumes "eKeyState sh = eWaitIdle" "\<forall>c. k = Typed c \<longrightarrow> typable sc c" "key_effect qemu cmds m k sh = Some (out, False, sh')"
  shows "Shell_loop sc qemu cmds m (key_chars k @ input) sh = map_option (\<lambda>(o2, r). (out @ o2, r)) (Shell_loop sc qemu cmds m input sh')"
proof -
  consider (plain) c where "key_chars k = [c]" "Shell_key sc qemu cmds m c sh = key_effect qemu cmds m k sh"
    | (escape) "k \<in> {Cursor_left, Cursor_right, Cursor_up, Cursor_down}"
  proof (cases k)
    case (Typed c)
    then have "typable sc c" using assms(2) by simp
    moreover from this have "Shell_key sc qemu cmds m c sh = key_edit qemu cmds c sh"
      using assms(1) by (intro shell_plain) (auto simp: typable_def)
    ultimately show ?thesis using plain [of c] Typed by (simp add: key_effect_def typable_edit)
  next
    case Backspace
    have "of_char (CHR 0x08) < (128 :: nat)" by simp
    then have "Shell_key sc qemu cmds m (CHR 0x08) sh = key_edit qemu cmds (CHR 0x08) sh" using assms(1) by (intro shell_plain) simp_all
    then show ?thesis using plain [of "CHR 0x08"] Backspace by (simp add: key_effect_def key_edit_def)
  next
    case Complete
    have "of_char (CHR 0x09) < (128 :: nat)" by simp
    then have "Shell_key sc qemu cmds m (CHR 0x09) sh = key_edit qemu cmds (CHR 0x09) sh" using assms(1) by (intro shell_plain) simp_all
    then show ?thesis using plain [of "CHR 0x09"] Complete by (simp add: key_effect_def key_edit_def)
  qed (use escape in auto)
  then show ?thesis
  proof cases
    case plain
    then show ?thesis using assms(3) by (simp add: bind_eq_Some_conv map_option_case split: option.splits)
  next
    case escape
    then show ?thesis using assms(1,3) by (elim insertE) (simp_all add: shell_escape key_effect_def del: Shell_loop.simps)
  qed
qed

lemma line_text_move:
  "line_text sh b a \<Longrightarrow> b @ a = b' @ a' \<Longrightarrow> n = length (b @ a) \<Longrightarrow> line_text (move_to n (length b') sh) b' a'"
  by (auto simp: line_text_def move_to_def simp flip: length_append)

text \<open>A key that leaves the line open and turns its text into \<open>b'\<close> and \<open>a'\<close>.\<close>

definition edited :: "key_result \<Rightarrow> string \<Rightarrow> string \<Rightarrow> bool" where
  "edited r b' a' \<longleftrightarrow> (\<exists>out sh'. r = Some (out, False, sh') \<and> line_text sh' b' a')"

lemma line_text_facts:
  assumes "line_text sh b a"
  shows "ui16LinePosition sh = length b + length a" "ui16LineCurrentPosition sh = length b" "eKeyState sh = eWaitIdle"
    "CHR 0x00 \<notin> set b" "CHR 0x00 \<notin> set a" "length (aszLine sh) = 128" "length (b @ a) < 128"
  using assms by (auto simp: line_text_def)

lemma edited_typed:
  assumes "line_text sh b a" "typable sc c" "length (b @ a) < 127"
  shows "edited (key_normal qemu c sh) (b @ [c]) a"
proof -
  obtain x y where line: "aszLine sh = b @ a @ x # y" "length y = 127 - length (b @ a)" "last (x # y) = CHR 0x00"
    using line_text_parts [OF assms(1)] by blast
  note pos = line_text_facts [OF assms(1)]
  have y: "y \<noteq> []" "last y = CHR 0x00" using line(2,3) assms(3) by (auto split: if_splits)
  have c0: "CHR 0x00 \<noteq> c" using assms(2) by (auto simp: typable_def)
  have new: "line_text (move_to (length b + length a + 1) (length b + 1) (sh\<lparr>aszLine := b @ c # a @ y\<rparr>)) (b @ [c]) a"
    using line_textI [of "b @ c # a @ y" "b @ [c]" a y sh "length b + length a + 1"] line y pos c0 by simp
  have "CHR 0x00 \<in> set (c # a @ y)" using y last_in_set [of y] by simp
  then obtain s where "cstring (c # a @ y) = Some s" using cstring_takeWhile by blast
  then show ?thesis
    using key_normal_end [of sh b x y qemu c] key_normal_middle [of sh b a x y c s qemu] line(1) pos assms(3) new
    by (cases "a = []") (auto simp: edited_def)
qed

lemma edited_backspace:
  assumes "line_text sh (b @ [l]) a"
  shows "edited (key_backspace qemu sh) b a"
proof -
  obtain x y where line: "aszLine sh = (b @ [l]) @ a @ x # y" "last (x # y) = CHR 0x00"
    using line_text_parts [OF assms] by blast
  note pos = line_text_facts [OF assms]
  let ?sh = "move_to (length b + length a) (length b) (sh\<lparr>aszLine := b @ a @ CHR 0x00 # x # y\<rparr>)"
  have "key_backspace qemu sh = Some (CHR 0x08 # xputs qemu a @ CHR '' '' # replicate (length a + 1) (CHR 0x08), False, ?sh)"
    using line(1) pos by (intro key_backspace_eq) simp_all
  moreover have "line_text ?sh b a" using line pos by (intro line_textI [where z = "CHR 0x00 # x # y"]) auto
  ultimately show ?thesis by (auto simp: edited_def)
qed

lemma edited_left:
  assumes "line_text sh (b @ [l]) a"
  shows "edited (key_left qemu sh) b (l # a)"
  using line_text_facts [OF assms] line_text_move [OF assms, of b "l # a"] by (simp add: edited_def key_left_def Let_def)

lemma edited_right:
  assumes "line_text sh b (c # a)"
  shows "edited (key_right qemu sh) (b @ [c]) a"
proof -
  obtain m where "aszLine sh = b @ c # m" using line_text_parts [OF assms] by (metis append_Cons)
  then show ?thesis using line_text_facts [OF assms] line_text_move [OF assms, of "b @ [c]" a] key_right_eq [of sh b c m qemu]
    by (simp add: edited_def)
qed

lemma edited_complete:
  assumes "line_text sh b a" "commands_ok cmds" "b @ a \<noteq> []"
  shows "edited (key_tab qemu cmds sh) (completed cmds (b @ a)) []"
proof -
  let ?s = "b @ a" and ?line = "aszLine sh"
  let ?b = "completed cmds ?s" and ?l = "case find (\<lambda>c. take (length ?s) c = ?s) cmds of None \<Rightarrow> ?line | Some c \<Rightarrow> c @ CHR '' '' # drop (length c + 1) ?line"
  note pos = line_text_facts [OF assms(1)]
  have z: "CHR 0x00 \<notin> set ?s" using pos by simp
  obtain r where "?line = ?s @ r" using line_text_parts [OF assms(1)] by (metis append_assoc)
  then obtain out where out: "complete_loop qemu cmds ?line (length ?s) = Some (out, ?l, length ?b)"
    using complete_loop_eq [OF _ pos(6) z assms(2)] by blast
  have "line_text (move_to (length ?b) (length ?b) (sh\<lparr>aszLine := ?l\<rparr>)) ?b []"
  proof (cases "find (\<lambda>c. take (length ?s) c = ?s) cmds")
    case None
    then have "?b = ?s" by (simp add: completed_def)
    then show ?thesis using assms(1) None line_text_move [OF assms(1), of ?s "[]" "length ?s"] by simp
  next
    case (Some c)
    then have b: "?b = c @ '' ''" by (simp add: completed_def)
    have "c \<in> set cmds" using Some by (auto simp: find_Some_iff)
    then have c: "length c < 127" using assms(2) by (simp add: commands_ok_def)
    have "last (drop (length c + 1) ?line) = CHR 0x00" using assms(1) c by (simp add: last_drop line_text_def)
    then have "line_text (move_to (length ?b) (length ?b) (sh\<lparr>aszLine := c @ CHR '' '' # drop (length c + 1) ?line\<rparr>)) ?b []"
      using c pos(3,6) completed_ok [OF assms(2) z]
      by (intro line_textI [where z = "drop (length c + 1) ?line"]) (auto simp: b)
    then show ?thesis using Some by simp
  qed
  then show ?thesis using assms(3) out pos(1) by (auto simp: edited_def key_tab_def Shell_AutoComplete_def)
qed

lemma edit_step:
  assumes "line_text sh b a" "history_text m h" "commands_ok cmds" "edit sc cmds h k (b, a) = Some (b', a')"
  shows "\<exists>out sh'. key_effect qemu cmds m k sh = Some (out, False, sh') \<and> line_text sh' b' a'"
proof -
  note pos = line_text_facts [OF assms(1)]
  have idle: "b = [] \<Longrightarrow> key_backspace qemu sh = Some ([], False, sh)" "b = [] \<Longrightarrow> key_left qemu sh = Some ([], False, sh)"
    "a = [] \<Longrightarrow> key_right qemu sh = Some ([], False, sh)" "edited (Some ([], False, sh)) b a"
    using pos assms(1) by (simp_all add: key_backspace_def key_left_def key_right_def edited_def)
  have down: "line_text (move_to 0 0 sh) [] []" using assms(1) by (simp add: line_text_def move_to_def)
  have "edited (key_effect qemu cmds m k sh) b' a'"
  proof (cases k)
    case (Typed c)
    then show ?thesis using edited_typed [OF assms(1)] assms(4) by (auto simp: key_effect_def split: if_splits)
  next
    case Backspace
    then show ?thesis using edited_backspace assms(1,4) idle by (cases b rule: rev_cases) (auto simp: key_effect_def)
  next
    case Cursor_left
    then show ?thesis using edited_left assms(1,4) idle by (cases b rule: rev_cases) (auto simp: key_effect_def)
  next
    case Cursor_right
    then show ?thesis using edited_right assms(1,4) idle by (cases a) (auto simp: key_effect_def)
  next
    case Cursor_up
    then show ?thesis using key_up_eq [OF assms(1,2), of qemu] assms(4) by (simp add: key_effect_def edited_def)
  next
    case Cursor_down
    then show ?thesis using down assms(4) by (simp add: key_effect_def key_down_def edited_def)
  next
    case Complete
    then show ?thesis using edited_complete [OF assms(1,3)] assms(4) by (auto simp: key_effect_def split: if_splits)
  qed
  then show ?thesis by (simp add: edited_def)
qed

end
