(* ===== verification/ShellProps.thy ===== *)
theory ShellProps
  imports ShellEdit
begin

text \<open>
  The shell runs the line that was typed, and the terminal shows it.
\<close>

subsection \<open>Running a command line\<close>

lemma strcmp_eq_string: "cstring m = Some w \<Longrightarrow> CHR 0x00 \<notin> set c \<Longrightarrow> strcmp_eq m (literal c) = Some (w = c)"
proof (induction m arbitrary: w c)
  case (Cons x m)
  show ?case
  proof (cases "x = CHR 0x00")
    case True
    then show ?thesis using Cons.prems by (cases c) (auto simp: literal_def)
  next
    case False
    then obtain v where v: "cstring m = Some v" "w = x # v" using Cons.prems(1) by auto
    show ?thesis
    proof (cases c)
      case Nil
      then show ?thesis using False v by (simp add: literal_def)
    next
      case (Cons y d)
      then show ?thesis using False v Cons.IH [OF v(1), of d] Cons.prems(2) by (auto simp: literal_def)
    qed
  qed
qed simp

lemma find_loop_eq:
  assumes "commands_ok cmds" "cstring (drop a m) = Some w"
  shows "find_loop cmds i m (a # argv) = Some (if w \<in> set cmds then Some (i + length (takeWhile (\<lambda>c. c \<noteq> w) cmds)) else None)"
  using assms
proof (induction cmds arbitrary: i)
  case (Cons c cmds)
  have "CHR 0x00 \<notin> set c" "commands_ok cmds" using Cons.prems(1) by (simp_all add: commands_ok_def)
  then show ?case using Cons.IH [OF _ Cons.prems(2), of "i + 1"] strcmp_eq_string [OF Cons.prems(2)] by auto
qed simp

text \<open>What becomes of a line with words in it: the first word selects the command, which gets the first eight words.\<close>

definition runs :: "string list \<Rightarrow> string \<Rightarrow> handled \<Rightarrow> bool" where
  "runs cmds t r \<longleftrightarrow>
     (if t = [] then r = Ignored
      else if hd (tokens t) \<notin> set cmds then r = Unknown
      else (\<exists>m argv. r = Called (length (takeWhile (\<lambda>c. c \<noteq> hd (tokens t)) cmds)) m argv \<and>
              map (\<lambda>a. cstring (drop a m)) argv = map Some (take SHELL_ARG_MAX (tokens t))))"

lemma Shell_SplitCommand_tokens:
  assumes "CHR 0x00 \<notin> set t" "length t + length post + 1 < 2 ^ 32"
  shows "\<exists>out m argv. Shell_SplitCommand qemu (t @ CHR 0x00 # post) (length t) = Some (out, m, argv) \<and>
    map (\<lambda>a. cstring (drop a m)) argv = map Some (take SHELL_ARG_MAX (tokens t)) \<and> (length (tokens t) < SHELL_ARG_MAX \<longrightarrow> out = [])"
  using split_loop_tokens [of t "[]" "[]" "length t" post qemu] assms
  by (simp add: args_in_def Shell_SplitCommand_def SHELL_ARG_MAX_def split_to_def) blast

lemma Shell_HandleCommand_runs:
  assumes "commands_ok cmds" "CHR 0x00 \<notin> set t" "length t + length post + 1 < 2 ^ 32" "t = [] \<or> tokens t \<noteq> []"
  shows "\<exists>out r. Shell_HandleCommand qemu cmds (t @ CHR 0x00 # post) (length t) = Some (out, r) \<and> runs cmds t r"
proof (cases "t = []")
  case True
  then show ?thesis by (simp add: Shell_HandleCommand_def runs_def)
next
  case False
  obtain w ws where w: "tokens t = w # ws" using assms(4) False by (cases "tokens t") auto
  obtain out m argv where split: "Shell_SplitCommand qemu (t @ CHR 0x00 # post) (length t) = Some (out, m, argv)"
    "map (\<lambda>a. cstring (drop a m)) argv = map Some (take SHELL_ARG_MAX (tokens t))"
    using Shell_SplitCommand_tokens [OF assms(2,3)] by blast
  then obtain a as where a: "argv = a # as" "cstring (drop a m) = Some w" using w by (cases argv) (auto simp: SHELL_ARG_MAX_def)
  have "length t \<noteq> 0" using False by simp
  then show ?thesis
    using split w a find_loop_eq [OF assms(1) a(2), of 0 as] False
    by (simp add: Shell_HandleCommand_def runs_def xprintf_constant)
qed

text \<open>A line of blanks has no first word: the code compares a pointer that was never set.\<close>

lemma blank_line_undefined:
  assumes "t \<noteq> []" "tokens t = []" "CHR 0x00 \<notin> set t" "length t + length post + 1 < 2 ^ 32" "cmds \<noteq> []"
  shows "Shell_HandleCommand qemu cmds (t @ CHR 0x00 # post) (length t) = None"
proof -
  obtain out m argv where "Shell_SplitCommand qemu (t @ CHR 0x00 # post) (length t) = Some (out, m, argv)" "argv = []"
    using Shell_SplitCommand_tokens [OF assms(3,4), of qemu] assms(2) by auto
  then show ?thesis using assms(1,5) by (cases cmds) (simp_all add: Shell_HandleCommand_def)
qed

subsection \<open>Reading a line and running it\<close>

text \<open>The line a key submits: return and line feed the text, a tab on an empty line the command \<^verbatim>\<open>help\<close>.\<close>

definition submitted :: "char \<Rightarrow> string \<times> string \<Rightarrow> string option" where
  "submitted e t =
     (if e = CHR 0x0D \<or> e = CHR 0x0A then Some (fst t @ snd t)
      else if e = CHR 0x09 \<and> fst t @ snd t = [] then Some ''help'' else None)"

definition shell_ok :: "shell \<Rightarrow> string \<Rightarrow> bool" where
  "shell_ok st h \<longleftrightarrow> length (maszShellPrompt st) = 8 \<and> CHR 0x00 \<in> set (maszShellPrompt st) \<and>
     history_text (maszShellLineHistory st) h"

lemma edits_loop:
  assumes "line_text sh b a" "history_text m h" "commands_ok cmds" "edits sc cmds h ks (b, a) = Some (b', a')"
  shows "\<exists>out sh'. line_text sh' b' a' \<and> (\<forall>input. Shell_loop sc qemu cmds m (concat (map key_chars ks) @ input) sh =
    map_option (\<lambda>(o2, r). (out @ o2, r)) (Shell_loop sc qemu cmds m input sh'))"
  using assms(1,4)
proof (induction ks arbitrary: sh b a)
  case Nil
  then show ?case by (intro exI [of _ "[]"] exI [of _ sh]) (auto simp: option.map_ident case_prod_beta)
next
  case (Cons k ks)
  obtain b1 a1 where e: "edit sc cmds h k (b, a) = Some (b1, a1)" "edits sc cmds h ks (b1, a1) = Some (b', a')"
    using Cons.prems(2) by (auto simp: bind_eq_Some_conv)
  obtain o1 sh1 where s: "key_effect qemu cmds m k sh = Some (o1, False, sh1)" "line_text sh1 b1 a1"
    using edit_step [OF Cons.prems(1) assms(2,3) e(1)] by blast
  obtain o2 sh2 where i: "line_text sh2 b' a'" "\<And>input. Shell_loop sc qemu cmds m (concat (map key_chars ks) @ input) sh1 =
      map_option (\<lambda>(o3, r). (o2 @ o3, r)) (Shell_loop sc qemu cmds m input sh2)"
    using Cons.IH [OF s(2) e(2)] by blast
  have "eKeyState sh = eWaitIdle" "\<forall>c. k = Typed c \<longrightarrow> typable sc c"
    using Cons.prems(1) e(1) by (auto simp: line_text_def split: if_splits)
  then have "Shell_loop sc qemu cmds m (concat (map key_chars (k # ks)) @ input) sh =
      map_option (\<lambda>(o3, r). ((o1 @ o2) @ o3, r)) (Shell_loop sc qemu cmds m input sh2)" for input
    using shell_loop_key [OF _ _ s(1), of sc "concat (map key_chars ks) @ input"] i(2) [of input]
    by (simp add: option.map_comp comp_def case_prod_unfold)
  then show ?case using i(1) by blast
qed

lemma key_submit:
  assumes "line_text sh b a" "submitted e (b, a) = Some t"
  shows "\<exists>sh'. Shell_loop sc qemu cmds m (e # rest) sh = Some ([], True, sh', rest) \<and> length (aszLine sh') = 128 \<and>
    cstring (aszLine sh') = Some t \<and> ui16LinePosition sh' = length t \<and> CHR 0x00 \<notin> set t"
proof -
  have idle: "eKeyState sh = eWaitIdle" "length (aszLine sh) = 128" using assms(1) by (auto simp: line_text_def)
  have e: "e \<in> {CHR 0x0D, CHR 0x0A, CHR 0x09}" using assms(2) by (auto simp: submitted_def split: if_splits)
  then have "of_char e < (128 :: nat)" by auto
  then have key: "Shell_key sc qemu cmds m e sh = key_edit qemu cmds e sh" using idle e by (intro shell_plain) auto
  obtain x y where line: "aszLine sh = b @ a @ x # y" using line_text_parts [OF assms(1)] by blast
  show ?thesis
  proof (cases "e = CHR 0x09")
    case True
    then have t: "b = []" "a = []" "t = ''help''" using assms(2) by (auto simp: submitted_def split: if_splits)
    let ?l = "''help'' @ CHR 0x00 # drop 5 (aszLine sh)"
    have "key_tab qemu cmds sh = Some ([], True, move_to 4 4 (sh\<lparr>aszLine := ?l\<rparr>))"
      using assms(1) t strcpy_start [of "''help''" "aszLine sh" "[]"] idle(2)
      by (simp add: key_tab_def line_text_def literal_def strlen_def put_def eval_nat_numeral)
    then show ?thesis using key True idle(2) t(3) by (simp add: key_edit_def move_to_def)
  next
    case False
    then have t: "t = b @ a" "e = CHR 0x0D \<or> e = CHR 0x0A" using assms(2) by (auto simp: submitted_def split: if_splits)
    have z: "CHR 0x00 \<notin> set (b @ a)" "ui16LinePosition sh = length (b @ a)" using assms(1) by (auto simp: line_text_def)
    have "key_enter sh = Some ([], True, sh\<lparr>aszLine := b @ a @ CHR 0x00 # y\<rparr>)"
      using line z(2) put_at [of "b @ a"] by (simp add: key_enter_def)
    then show ?thesis using key t z line idle(2) cstring_app [OF z(1), of y] by (auto simp: key_edit_def)
  qed
qed

lemma prompt_printed:
  assumes "shell_ok st h" 
  shows "\<exists>c p st1. get (maszShellPrompt st) 0 = Some c \<and>
    (if c = CHR 0x00 then Shell_SetPrompt (literal ''xsh'') st else Some st) = Some st1 \<and> shell_ok st1 h \<and>
    maszShellLineHistory st1 = maszShellLineHistory st \<and>
    cstring (maszShellPrompt st) = Some p \<and> xprintf qemu ''%s > '' [Str (maszShellPrompt st1)] =
      Some (xputs qemu (if p = [] then ''xsh'' else p) @ '' > '')"
proof -
  have len: "length (maszShellPrompt st) = 8" using assms by (simp add: shell_ok_def)
  then obtain c m where m: "maszShellPrompt st = c # m" by (cases "maszShellPrompt st") auto
  obtain p where p: "cstring (maszShellPrompt st) = Some p" using assms cstring_takeWhile by (auto simp: shell_ok_def)
  have print: "xprintf qemu ''%s > '' [Str q] = Some (xputs qemu s @ '' > '')" if "cstring q = Some s" "length q = 8" for q s
    using that by (simp add: xprintf_def xvprintf_string xvprintf_plain xputc_def)
  show ?thesis
  proof (cases "c = CHR 0x00")
    case True
    let ?q = "''xsh'' @ CHR 0x00 # drop 4 (maszShellPrompt st)"
    have "Shell_SetPrompt (literal ''xsh'') st = Some (st\<lparr>maszShellPrompt := ?q\<rparr>)"
      using len strcpy_start [of "''xsh''" "maszShellPrompt st" "[]"]
      by (simp add: Shell_SetPrompt_def strlen_def literal_def put_def eval_nat_numeral)
    then show ?thesis using assms True m p print [of ?q "''xsh''"] len by (auto simp: shell_ok_def get_def)
  next
    case False
    then have "p \<noteq> []" using p m by auto
    then show ?thesis using assms False m p print [OF p len] by (auto simp: shell_ok_def get_def)
  qed
qed

lemma line_text_0: "line_text SHELL_0 [] []"
  by (simp add: line_text_def SHELL_0_def SHELL_CMD_SIZE_def)

lemma Shell_GetCommand_line:
  assumes "shell_ok st h" "commands_ok cmds" "length d = 128" "edits sc cmds h ks ([], []) = Some (b, a)"
    "submitted e (b, a) = Some t"
  shows "\<exists>out st'. Shell_GetCommand sc qemu cmds (Some d) 128 (concat (map key_chars ks) @ e # rest) st =
      Some (out, Some (length t, Some (t @ drop (length t) d), st', rest)) \<and> shell_ok st' (if t = [] then h else t) \<and>
    CHR 0x00 \<notin> set t \<and> length t < 128"
proof -
  obtain c p st1 where st1: "get (maszShellPrompt st) 0 = Some c"
    "(if c = CHR 0x00 then Shell_SetPrompt (literal ''xsh'') st else Some st) = Some st1" "shell_ok st1 h"
    "maszShellLineHistory st1 = maszShellLineHistory st"
    "xprintf qemu ''%s > '' [Str (maszShellPrompt st1)] = Some (xputs qemu (if p = [] then ''xsh'' else p) @ '' > '')"
    using prompt_printed [OF assms(1), of qemu] by blast
  define m where "m = maszShellLineHistory st1"
  have hist: "history_text m h" "length m = 128" using st1(3) by (auto simp: m_def shell_ok_def history_text_def)
  obtain o2 sh where edits: "line_text sh b a" "\<And>input. Shell_loop sc qemu cmds m (concat (map key_chars ks) @ input) SHELL_0 =
      map_option (\<lambda>(o3, r). (o2 @ o3, r)) (Shell_loop sc qemu cmds m input sh)"
    using edits_loop [OF line_text_0 hist(1) assms(2,4)] by blast
  obtain sh' where sh': "Shell_loop sc qemu cmds m (e # rest) sh = Some ([], True, sh', rest)" "length (aszLine sh') = 128"
    "cstring (aszLine sh') = Some t" "ui16LinePosition sh' = length t" "CHR 0x00 \<notin> set t"
    using key_submit [OF edits(1) assms(5)] by blast
  have loop: "Shell_loop sc qemu cmds m (concat (map key_chars ks) @ e # rest) SHELL_0 = Some (o2, True, sh', rest)"
    using edits(2) [of "e # rest"] sh'(1) by simp
  have len: "length t < 128" using cstring_length [OF sh'(3)] sh'(2) by simp
  obtain r where line: "aszLine sh' = t @ CHR 0x00 # r" using cstring_split [OF sh'(3)] by blast
  let ?h = "t @ CHR 0x00 # drop (length t + 1) m"
  have cp: "strcpy m 0 (aszLine sh') = Some ?h" unfolding line using sh'(5) len hist(2) by (intro strcpy_start) simp_all
  have zero: "put (length t) (CHR 0x00) ?h = Some ?h" by (rule put_at) simp
  define st2 where "st2 = (if t = [] then st1 else st1\<lparr>maszShellLineHistory := ?h\<rparr>)"
  have "shell_ok st2 (if t = [] then h else t)"
    using st1(3) sh'(5) len hist(2) by (auto simp: st2_def shell_ok_def history_text_def cstring_app)
  moreover have n: "min (unat (128 - 1 :: u32)) (length t) = length t" using len by simp
  moreover have "Shell_GetCommand sc qemu cmds (Some d) 128 (concat (map key_chars ks) @ e # rest) st =
      Some ((xputs qemu (if p = [] then ''xsh'' else p) @ '' > '') @ o2 @ xputs qemu [CHR 0x0A],
        Some (length t, Some (t @ drop (length t) d), st2, rest))"
    using st1(1,2,5) loop cp zero sh'(4) n assms(3) len line
    by (cases "t = []") (simp_all add: Shell_GetCommand_def m_def xprintf_constant st2_def Let_def)
  ultimately show ?thesis using sh'(5) len by blast
qed

text \<open>C24: whatever keys are used to edit it (typing, backspace, the arrow keys with the last command as
  history, completion with tab), the line submitted is the edited text, and one pass of the shell's task runs it: the first word selects the first command of that
  name, whose arguments are the first eight words of the line, where quotes group characters to one word; if there is no such
  command it is reported, and an empty line is ignored.  The line becomes the history, and no array is accessed outside its bounds.\<close>

theorem xshell_task_runs_line:
  assumes "shell_ok st h" and "commands_ok cmds" and "length buffer = 128"
    and "edits sc cmds h ks ([], []) = Some (b, a)" and "submitted e (b, a) = Some t" and "t = [] \<or> tokens t \<noteq> []"
  shows "\<exists>out r st'. xshell_task sc qemu cmds buffer (concat (map key_chars ks) @ e # rest) st = Some (out, Some (r, st', rest)) \<and>
    runs cmds t r \<and> shell_ok st' (if t = [] then h else t)"
proof -
  obtain out st' where get: "Shell_GetCommand sc qemu cmds (Some buffer) 128 (concat (map key_chars ks) @ e # rest) st =
      Some (out, Some (length t, Some (t @ drop (length t) buffer), st', rest))" "shell_ok st' (if t = [] then h else t)"
    "CHR 0x00 \<notin> set t" "length t < 128"
    using Shell_GetCommand_line [OF assms(1-5)] by blast
  have "put (length t) (CHR 0x00) (t @ drop (length t) buffer) = Some (t @ CHR 0x00 # drop (length t + 1) buffer)"
    using assms(3) get(4) by (simp add: put_def Cons_nth_drop_Suc [symmetric] list_update_append)
  moreover obtain o2 r where "Shell_HandleCommand qemu cmds (t @ CHR 0x00 # drop (length t + 1) buffer) (length t) = Some (o2, r)"
    "runs cmds t r"
    using Shell_HandleCommand_runs [OF assms(2) get(3) _ assms(6), of "drop (length t + 1) buffer" qemu] get(4) assms(3) by auto
  moreover have "w32 (length buffer) = 128" using assms(3) by (simp add: w32_def)
  ultimately show ?thesis using get(1,2) by (auto simp: xshell_task_def)
qed

lemma shell_ok_init: "shell_ok shell_init []"
  by (simp add: shell_ok_def shell_init_def history_text_def SHELL_CMD_SIZE_def) (simp add: numeral_eq_Suc)

theorem xshell_task_runs_line_witness:
  "\<exists>out r st'. xshell_task False True [''help'', ''reg''] (replicate 128 (CHR ''?''))
      (concat (map key_chars [Typed (CHR ''r''), Typed (CHR ''x''), Backspace, Complete, Typed (CHR ''w''), Cursor_left, Typed (CHR ''r'')]) @ CHR 0x0D # ''y'') shell_init =
      Some (out, Some (r, st', ''y'')) \<and> runs [''help'', ''reg''] ''reg rw'' r \<and> shell_ok st' ''reg rw''"
proof -
  have e: "edits False [''help'', ''reg''] [] [Typed (CHR ''r''), Typed (CHR ''x''), Backspace, Complete, Typed (CHR ''w''), Cursor_left, Typed (CHR ''r'')]
      ([], []) = Some (''reg r'', ''w'')" by code_simp
  have s: "submitted (CHR 0x0D) (''reg r'', ''w'') = Some ''reg rw''" "commands_ok [''help'', ''reg'']"
    by (simp_all add: submitted_def commands_ok_def)
  have "tokens ''reg rw'' = [''reg'', ''rw'']" by code_simp
  then show ?thesis
    using xshell_task_runs_line [OF shell_ok_init s(2) _ e s(1), of "replicate 128 (CHR ''?'')" True "''y''"] by simp
qed

subsection \<open>The terminal\<close>

text \<open>A terminal with one line: what is to the left of its cursor and what is from the cursor on.  A backspace moves the cursor, any other character
  is shown in place of the one under it.\<close>

fun terminal :: "string \<times> string \<Rightarrow> char \<Rightarrow> string \<times> string" where
  "terminal (l, r) c =
     (if c = CHR 0x08 then (if l = [] then (l, r) else (butlast l, last l # r)) else (l @ [c], tl r))"

lemma terminal_text: "CHR 0x08 \<notin> set s \<Longrightarrow> foldl terminal (l, r) s = (l @ s, drop (length s) r)"
  by (induction s arbitrary: l r) (auto simp: drop_Suc tl_drop)

lemma terminal_back: "foldl terminal (l @ s, r) (replicate (length s) (CHR 0x08)) = (l, s @ r)"
  by (induction s arbitrary: r rule: rev_induct) (simp_all add: butlast_append)

definition shown :: "char \<Rightarrow> bool" where
  "shown c \<longleftrightarrow> of_char c \<ge> (32 :: nat)"

lemma shown_plain: "\<forall>c\<in>set s. shown c \<Longrightarrow> CHR 0x08 \<notin> set s \<and> xputs qemu s = s"
proof -
  assume s: "\<forall>c\<in>set s. shown c"
  have "\<not> shown (CHR 0x08)" "\<not> shown (CHR 0x0A)" by (simp_all add: shown_def)
  then have "CHR 0x08 \<notin> set s" "CHR 0x0A \<notin> set s" using s by auto
  then show ?thesis by (simp add: xputs_id)
qed

text \<open>The array is zero behind the text.\<close>

definition clean_line :: "SHELL_T \<Rightarrow> string \<Rightarrow> string \<Rightarrow> bool" where
  "clean_line sh b a \<longleftrightarrow> line_text sh b a \<and> (\<forall>c\<in>set (b @ a). shown c) \<and>
     aszLine sh = b @ a @ replicate (128 - length (b @ a)) (CHR 0x00)"

text \<open>The output of a key takes the terminal from showing the old text to showing the new one.\<close>

definition redraws :: "string \<Rightarrow> string \<Rightarrow> string \<Rightarrow> string \<Rightarrow> string \<Rightarrow> bool" where
  "redraws out b a b' a' \<longleftrightarrow> (\<forall>p k. \<exists>k'. foldl terminal (p @ b, a @ replicate k (CHR '' '')) out =
     (p @ b', a' @ replicate k' (CHR '' '')))"

lemma redraws_Nil: "redraws [] b a b a"
  by (auto simp: redraws_def)

lemma redraws_app: "redraws o1 b a b1 a1 \<Longrightarrow> redraws o2 b1 a1 b2 a2 \<Longrightarrow> redraws (o1 @ o2) b a b2 a2"
  unfolding redraws_def foldl_append by metis

lemma redraws_typed:
  assumes "CHR 0x08 \<notin> set (c # a)"
  shows "redraws (c # a @ replicate (length a) (CHR 0x08)) b a (b @ [c]) a"
proof -
  have "foldl terminal (p @ b, a @ replicate k (CHR '' '')) (c # a @ replicate (length a) (CHR 0x08)) =
      (p @ b @ [c], a @ replicate (k - 1) (CHR '' ''))" for p k
  proof -
    have "foldl terminal (p @ b, a @ replicate k (CHR '' '')) (c # a) = ((p @ b @ [c]) @ a, replicate (k - 1) (CHR '' ''))"
      using terminal_text [OF assms, of "p @ b" "a @ replicate k (CHR '' '')"] by simp
    then show ?thesis using terminal_back [of "p @ b @ [c]" a] by (simp flip: append_Cons)
  qed
  then show ?thesis by (auto simp: redraws_def)
qed

lemma redraws_backspace:
  assumes "CHR 0x08 \<notin> set a"
  shows "redraws (CHR 0x08 # a @ CHR '' '' # replicate (length a + 1) (CHR 0x08)) (b @ [c]) a b a"
proof -
  have "foldl terminal (p @ b @ [c], a @ replicate k (CHR '' '')) (CHR 0x08 # a @ CHR '' '' # replicate (length a + 1) (CHR 0x08)) =
      (p @ b, a @ CHR '' '' # replicate k (CHR '' ''))" for p k
  proof -
    have "foldl terminal (p @ b, c # a @ replicate k (CHR '' '')) (a @ '' '') = ((p @ b) @ (a @ '' ''), replicate k (CHR '' ''))"
      using terminal_text [of "a @ '' ''" "p @ b" "c # a @ replicate k (CHR '' '')"] assms by simp
    then show ?thesis using terminal_back [of "p @ b" "a @ '' ''" "replicate k (CHR '' '')"]
      by (simp del: replicate.simps add: butlast_append)
  qed
  then show ?thesis unfolding redraws_def by (metis append_assoc replicate_Suc)
qed

lemma redraws_left: "b \<noteq> [] \<Longrightarrow> redraws [CHR 0x08] b a (butlast b) (last b # a)"
  by (auto simp: redraws_def butlast_append)

lemma redraws_right: "c \<noteq> CHR 0x08 \<Longrightarrow> redraws [c] b (c # a) (b @ [c]) a"
  by (auto simp: redraws_def)

lemma clean_lineI:
  assumes "line_text (move_to n j (sh\<lparr>aszLine := m\<rparr>)) b a" "\<forall>c\<in>set (b @ a). shown c" "m = b @ a @ replicate k (CHR 0x00)"
  shows "clean_line (move_to n j (sh\<lparr>aszLine := m\<rparr>)) b a"
proof -
  have "length m = 128" using assms(1) by (simp add: line_text_def move_to_def)
  then have "k = 128 - length (b @ a)" using assms(3) by simp
  then show ?thesis using assms by (simp add: clean_line_def move_to_def)
qed

lemma clean_line_parts:
  assumes "clean_line sh b a"
  obtains z where "aszLine sh = b @ a @ CHR 0x00 # replicate z (CHR 0x00)" "length b + length a + z = 127" "line_text sh b a"
    "\<forall>c\<in>set b. shown c" "\<forall>c\<in>set a. shown c" "CHR 0x08 \<notin> set a" "xputs qemu a = a"
    "ui16LinePosition sh = length b + length a" "ui16LineCurrentPosition sh = length b" "eKeyState sh = eWaitIdle"
    "CHR 0x00 \<notin> set b" "CHR 0x00 \<notin> set a" "length (aszLine sh) = 128"
proof -
  have l: "line_text sh b a" "\<forall>c\<in>set a. shown c" using assms by (auto simp: clean_line_def)
  then have "length (b @ a) < 128" by (simp add: line_text_def)
  then have n: "128 - length (b @ a) = Suc (127 - length (b @ a))" by linarith
  show ?thesis
    using assms l shown_plain [OF l(2)] n by (intro that [of "127 - length (b @ a)"]) (auto simp: clean_line_def line_text_def)
qed

definition redrawn :: "key_result \<Rightarrow> string \<Rightarrow> string \<Rightarrow> string \<Rightarrow> string \<Rightarrow> bool" where
  "redrawn r b a b' a' \<longleftrightarrow> (\<exists>out sh'. r = Some (out, False, sh') \<and> clean_line sh' b' a' \<and> redraws out b a b' a')"

lemma redrawn_typed:
  assumes "clean_line sh b a" "typable sc c" "shown c" "length (b @ a) < 127"
  shows "redrawn (key_normal qemu c sh) b a (b @ [c]) a"
proof -
  obtain z where l: "aszLine sh = b @ a @ CHR 0x00 # replicate z (CHR 0x00)" "length b + length a + z = 127"
    "\<forall>c\<in>set b. shown c" "\<forall>c\<in>set a. shown c" "ui16LinePosition sh = length b + length a"
    "ui16LineCurrentPosition sh = length b" "eKeyState sh = eWaitIdle" "CHR 0x00 \<notin> set b" "CHR 0x00 \<notin> set a" "length (aszLine sh) = 128"
    using clean_line_parts [OF assms(1)] by metis
  have c: "CHR 0x08 \<notin> set (c # a)" "xputs qemu (c # a) = c # a" "xputc qemu c = [c]" "CHR 0x00 \<notin> set (c # a)"
    using shown_plain [of "c # a"] shown_plain [of "[c]"] l(4,9) assms(2,3) by (auto simp: typable_def xputs_def)
  obtain y where y: "z = Suc y" using l(2) assms(4) by (cases z) auto
  let ?sh = "move_to (length b + length a + 1) (length b + 1) (sh\<lparr>aszLine := b @ c # a @ replicate z (CHR 0x00)\<rparr>)"
  have "key_normal qemu c sh = Some (c # a @ replicate (length a) (CHR 0x08), False, ?sh)"
  proof (cases "a = []")
    case True
    then show ?thesis using key_normal_end [of sh b "CHR 0x00" "replicate z (CHR 0x00)" qemu c] l assms(4) c(3) by simp
  next
    case False
    have "cstring (c # a @ replicate z (CHR 0x00)) = Some (c # a)" using cstring_app [OF c(4), of "replicate y (CHR 0x00)"] y by simp
    then show ?thesis
      using key_normal_middle [of sh b a "CHR 0x00" "replicate z (CHR 0x00)" c "c # a" qemu] l assms(4) c(2) False by simp
  qed
  moreover have "line_text ?sh (b @ [c]) a"
    using line_textI [of "b @ c # a @ replicate z (CHR 0x00)" "b @ [c]" a "replicate z (CHR 0x00)" sh "length b + length a + 1"]
      l c(4) y by simp
  then have "clean_line ?sh (b @ [c]) a" using l(3,4) assms(3) by (intro clean_lineI [where k = z]) auto
  ultimately show ?thesis unfolding redrawn_def using redraws_typed [OF c(1), of b] by blast
qed

lemma redrawn_backspace:
  assumes "clean_line sh (b @ [l]) a"
  shows "redrawn (key_backspace qemu sh) (b @ [l]) a b a"
proof -
  obtain z where l: "aszLine sh = (b @ [l]) @ a @ CHR 0x00 # replicate z (CHR 0x00)" "length (b @ [l]) + length a + z = 127"
    "\<forall>c\<in>set (b @ [l]). shown c" "\<forall>c\<in>set a. shown c" "CHR 0x08 \<notin> set a" "xputs qemu a = a" "ui16LinePosition sh = length (b @ [l]) + length a"
    "ui16LineCurrentPosition sh = length (b @ [l])" "eKeyState sh = eWaitIdle" "CHR 0x00 \<notin> set (b @ [l])" "CHR 0x00 \<notin> set a" "length (aszLine sh) = 128"
    using clean_line_parts [OF assms] by metis
  let ?m = "b @ a @ CHR 0x00 # CHR 0x00 # replicate z (CHR 0x00)"
  let ?sh = "move_to (length b + length a) (length b) (sh\<lparr>aszLine := ?m\<rparr>)"
  have "key_backspace qemu sh = Some (CHR 0x08 # a @ CHR '' '' # replicate (length a + 1) (CHR 0x08), False, ?sh)"
    using key_backspace_eq [of sh b l a "CHR 0x00 # replicate z (CHR 0x00)" qemu] l by simp
  moreover have "line_text ?sh b a" using l(2,9,10,11) by (intro line_textI [where z = "CHR 0x00 # CHR 0x00 # replicate z (CHR 0x00)"]) auto
  then have "clean_line ?sh b a" using l(3,4) by (intro clean_lineI [where k = "z + 2"]) auto
  ultimately show ?thesis unfolding redrawn_def using redraws_backspace [OF l(5), of b l] by blast
qed

lemma clean_line_move:
  "clean_line sh b a \<Longrightarrow> b @ a = b' @ a' \<Longrightarrow> n = length (b @ a) \<Longrightarrow> clean_line (move_to n (length b') sh) b' a'"
  using line_text_move [of sh b a b' a' n] by (auto simp: clean_line_def move_to_def simp flip: length_append)

lemma redrawn_left:
  assumes "clean_line sh (b @ [l]) a"
  shows "redrawn (key_left qemu sh) (b @ [l]) a b (l # a)"
proof -
  have "key_left qemu sh = Some ([CHR 0x08], False, move_to (length (b @ [l]) + length a) (length b) sh)"
    using assms by (simp add: key_left_def clean_line_def line_text_def Let_def)
  then show ?thesis using clean_line_move [OF assms, of b "l # a"] redraws_left [of "b @ [l]" a] by (simp add: redrawn_def)
qed

lemma redrawn_right:
  assumes "clean_line sh b (c # a)"
  shows "redrawn (key_right qemu sh) b (c # a) (b @ [c]) a"
proof -
  have c: "shown c" using assms by (simp add: clean_line_def)
  then have "xputc qemu c = [c]" "c \<noteq> CHR 0x08" using shown_plain [of "[c]"] by (auto simp: xputs_def)
  moreover have "key_right qemu sh = Some (xputc qemu c, False, move_to (ui16LinePosition sh) (length b + 1) sh)"
    using assms by (intro key_right_eq) (auto simp: clean_line_def line_text_def)
  moreover have "ui16LinePosition sh = length (b @ c # a)" using assms by (simp add: clean_line_def line_text_def)
  ultimately show ?thesis using clean_line_move [OF assms, of "b @ [c]" a] redraws_right [of c b a] by (auto simp: redrawn_def)
qed

lemma redrawn_step:
  assumes "clean_line sh b a" "edit sc cmds h k (b, a) = Some (b', a')" "k \<in> {Backspace, Cursor_left, Cursor_right} \<or> (\<exists>c. k = Typed c \<and> shown c)"
  shows "redrawn (key_effect qemu cmds m k sh) b a b' a'"
proof -
  have pos: "ui16LinePosition sh = length b + length a" "ui16LineCurrentPosition sh = length b" using assms(1) by (auto simp: clean_line_def line_text_def)
  have stay: "redrawn (Some ([], False, sh)) b a b a" using assms(1) redraws_Nil by (auto simp: redrawn_def)
  have idle: "b = [] \<Longrightarrow> key_backspace qemu sh = Some ([], False, sh)" "b = [] \<Longrightarrow> key_left qemu sh = Some ([], False, sh)"
    "a = [] \<Longrightarrow> key_right qemu sh = Some ([], False, sh)"
    using pos by (simp_all add: key_backspace_def key_left_def key_right_def)
  consider (typed) c where "k = Typed c" "shown c" | (backspace) "k = Backspace" | (left) "k = Cursor_left" | (right) "k = Cursor_right"
    using assms(3) by auto
  then show ?thesis
  proof cases
    case typed
    then show ?thesis using redrawn_typed [OF assms(1) _ typed(2)] assms(2) by (auto simp: key_effect_def split: if_splits)
  next
    case backspace
    then show ?thesis using redrawn_backspace assms(1,2) stay pos
      by (cases b rule: rev_cases) (auto simp: key_effect_def idle)
  next
    case left
    then show ?thesis using redrawn_left assms(1,2) stay pos
      by (cases b rule: rev_cases) (auto simp: key_effect_def idle)
  next
    case right
    then show ?thesis using redrawn_right assms(1,2) stay pos by (cases a) (auto simp: key_effect_def idle)
  qed
qed

definition in_line_key :: "key \<Rightarrow> bool" where
  "in_line_key k \<longleftrightarrow> (case k of Typed c \<Rightarrow> shown c | Backspace \<Rightarrow> True | Cursor_left \<Rightarrow> True | Cursor_right \<Rightarrow> True | _ \<Rightarrow> False)"

lemma redrawn_loop:
  assumes "clean_line sh b a" "\<forall>k\<in>set ks. in_line_key k" "edits sc cmds h ks (b, a) = Some (b', a')"
  shows "\<exists>out sh'. Shell_loop sc qemu cmds m (concat (map key_chars ks)) sh = Some (out, False, sh', []) \<and> redraws out b a b' a'"
  using assms
proof (induction ks arbitrary: sh b a)
  case Nil
  then show ?case using redraws_Nil by auto
next
  case (Cons k ks)
  obtain b1 a1 where e: "edit sc cmds h k (b, a) = Some (b1, a1)" "edits sc cmds h ks (b1, a1) = Some (b', a')"
    using Cons.prems(3) by (auto simp: bind_eq_Some_conv)
  have k: "k \<in> {Backspace, Cursor_left, Cursor_right} \<or> (\<exists>c. k = Typed c \<and> shown c)"
    using Cons.prems(2) by (auto simp: in_line_key_def split: key.splits)
  obtain o1 sh1 where s: "key_effect qemu cmds m k sh = Some (o1, False, sh1)" "clean_line sh1 b1 a1" "redraws o1 b a b1 a1"
    using redrawn_step [OF Cons.prems(1) e(1) k, of qemu m] by (auto simp: redrawn_def)
  obtain o2 sh2 where i: "Shell_loop sc qemu cmds m (concat (map key_chars ks)) sh1 = Some (o2, False, sh2, [])" "redraws o2 b1 a1 b' a'"
    using Cons.IH [OF s(2) _ e(2)] Cons.prems(2) by auto
  have "eKeyState sh = eWaitIdle" "\<forall>c. k = Typed c \<longrightarrow> typable sc c"
    using Cons.prems(1) e(1) by (auto simp: clean_line_def line_text_def split: if_splits)
  then show ?case using shell_loop_key [OF _ _ s(1), of sc "concat (map key_chars ks)"] i redraws_app [OF s(3) i(2)] by auto
qed

lemma clean_line_0: "clean_line SHELL_0 [] []"
  using line_text_0 by (simp add: clean_line_def SHELL_0_def SHELL_CMD_SIZE_def)

text \<open>C25: while a line is typed and edited within, with backspace and the left and right arrow keys, the terminal shows the prompt and the text, with nothing
  after it, and its cursor stands where the next character goes; the call goes on waiting for keys.\<close>

theorem Shell_GetCommand_shows_line:
  assumes "shell_ok st h" and "cstring (maszShellPrompt st) = Some p" and "\<forall>c\<in>set p. shown c"
    and "\<forall>k\<in>set ks. in_line_key k" and "edits sc cmds h ks ([], []) = Some (b, a)"
  shows "\<exists>out k. Shell_GetCommand sc qemu cmds data len (concat (map key_chars ks)) st = Some (out, None) \<and>
    foldl terminal ([], []) out = ((if p = [] then ''xsh'' else p) @ '' > '' @ b, a @ replicate k (CHR '' ''))"
proof -
  obtain c st1 where st1: "get (maszShellPrompt st) 0 = Some c"
    "(if c = CHR 0x00 then Shell_SetPrompt (literal ''xsh'') st else Some st) = Some st1"
    "xprintf qemu ''%s > '' [Str (maszShellPrompt st1)] = Some (xputs qemu (if p = [] then ''xsh'' else p) @ '' > '')"
    using prompt_printed [OF assms(1), of qemu] assms(2) by auto
  obtain out sh where l: "Shell_loop sc qemu cmds (maszShellLineHistory st1) (concat (map key_chars ks)) SHELL_0 = Some (out, False, sh, [])"
    "redraws out [] [] b a" using redrawn_loop [OF clean_line_0 assms(4,5)] by blast
  let ?p = "(if p = [] then ''xsh'' else p) @ '' > ''"
  have shown: "\<forall>c\<in>set ?p. shown c" using assms(3) by (auto simp: shown_def)
  have print: "foldl terminal ([], []) (xputs qemu (if p = [] then ''xsh'' else p) @ '' > '') = (?p, [])"
    using terminal_text [of ?p "[]" "[]"] shown_plain [OF shown] shown_plain [of p qemu] shown_plain [of "''xsh''" qemu] assms(3)
    by (auto simp: shown_def)
  obtain k where "foldl terminal (?p, []) out = (?p @ b, a @ replicate k (CHR '' ''))"
    using l(2) unfolding redraws_def by (metis append_Nil append_Nil2 replicate_0)
  then have "foldl terminal ([], []) ((xputs qemu (if p = [] then ''xsh'' else p) @ '' > '') @ out) = (?p @ b, a @ replicate k (CHR '' ''))"
    by (simp only: foldl_append [of terminal "([], [])" "xputs qemu (if p = [] then ''xsh'' else p) @ '' > ''" out] print)
  then show ?thesis using st1 l(1) by (intro exI [of _ "(xputs qemu (if p = [] then ''xsh'' else p) @ '' > '') @ out"] exI [of _ k])
      (simp add: Shell_GetCommand_def)
qed

theorem Shell_GetCommand_shows_line_witness:
  "\<exists>out k. Shell_GetCommand False True [''help''] None 0
      (concat (map key_chars [Typed (CHR ''a''), Typed (CHR ''c''), Cursor_left, Typed (CHR ''b''), Typed (CHR ''x''), Backspace])) shell_init = Some (out, None) \<and>
    foldl terminal ([], []) out = (''xsh > ab'', ''c'' @ replicate k (CHR '' ''))"
proof -
  have p: "cstring (maszShellPrompt shell_init) = Some []" by (simp add: shell_init_def numeral_eq_Suc)
  have k: "\<forall>k\<in>set [Typed (CHR ''a''), Typed (CHR ''c''), Cursor_left, Typed (CHR ''b''), Typed (CHR ''x''), Backspace]. in_line_key k"
    by (simp add: in_line_key_def shown_def)
  have e: "edits False [''help''] [] [Typed (CHR ''a''), Typed (CHR ''c''), Cursor_left, Typed (CHR ''b''), Typed (CHR ''x''), Backspace] ([], []) =
      Some (''ab'', ''c'')" by code_simp
  show ?thesis using Shell_GetCommand_shows_line [OF shell_ok_init p _ k e, of True None 0] by simp
qed

text \<open>Recalling a line while the cursor is inside the text: the erasing starts at the cursor and takes the prompt with
  it.  A line replaced with the arrow keys is not cleared: characters of the old one are shown again.\<close>

lemma cursor_up_erases_prompt:
  "map_option (\<lambda>(out, r). foldl terminal ([], []) out)
     (Shell_GetCommand False True [] None 0
       (concat (map key_chars [Typed (CHR ''a''), Typed (CHR ''b''), Cursor_left, Cursor_up])) shell_init) = Some (''xsh >'', ''  b'')"
  by code_simp

lemma cursor_down_leaves_text:
  "map_option (\<lambda>(out, r). foldl terminal ([], []) out)
     (Shell_GetCommand False True [] None 0
       (concat (map key_chars [Typed (CHR ''a''), Typed (CHR ''b''), Typed (CHR ''c''), Cursor_down, Typed (CHR ''x''), Cursor_left, Typed (CHR ''y'')]))
       shell_init) = Some (''xsh > yx'', ''c'')"
  by code_simp

end
