(* ===== verification/Ymodem.thy ===== *)
theory Ymodem
  imports Prelude
begin

text \<open>
  The YMODEM receiver, \<^verbatim>\<open>xyp1022_project/libs/ymodem.c\<close>: the CRC, one packet, and the transfer of a
  file.  The UART is the list of the bytes that will arrive and the list of those sent; the FatFS
  calls are logged, and whether \<^verbatim>\<open>f_open\<close> succeeds is a parameter.  Waiting for a byte that never
  comes and writing outside the packet buffer are the two errors.
\<close>

subsection \<open>Constants and state\<close>

definition RYM_PACKET_HEADER :: nat where "RYM_PACKET_HEADER = 3"
definition RYM_PACKET_OVERHEAD :: nat where "RYM_PACKET_OVERHEAD = 5"
definition RYM_PACKET_SIZE :: u16 where "RYM_PACKET_SIZE = 128"
definition RYM_PACKET_1K_SIZE :: u16 where "RYM_PACKET_1K_SIZE = 1024"
definition RYM_CODE_SOH :: u8 where "RYM_CODE_SOH = 0x01"
definition RYM_CODE_STX :: u8 where "RYM_CODE_STX = 0x02"
definition RYM_CODE_EOT :: u8 where "RYM_CODE_EOT = 0x04"
definition RYM_CODE_ACK :: u8 where "RYM_CODE_ACK = 0x06"
definition RYM_CODE_CAN :: u8 where "RYM_CODE_CAN = 0x18"
definition RYM_CODE_CRC :: u8 where "RYM_CODE_CRC = 0x43"

datatype eRymState_t = eRymInit | eRymRecv | eRymDone | eRymFail

record YMODEM_CTX_T =
  ui8Code :: u8
  ui8Index :: u8
  aui8Data :: "u8 list"
  ui16PacketLength :: u16
  eRymState :: eRymState_t
  ui16WrPosition :: u16
  ui16RdPosition :: u16

record uart =
  rx :: "u8 list"
  tx :: "u8 list"

datatype rym_error = NoInput | Overrun

subsection \<open>The CRC\<close>

definition YmodemCrc16_step :: "u16 \<Rightarrow> u8 \<Rightarrow> u16" where
  "YmodemCrc16_step crc b =
     (let d = drop_bit 8 crc XOR ucast b;
          d' = d XOR drop_bit 4 d
      in push_bit 8 crc XOR push_bit 12 d' XOR push_bit 5 d' XOR d')"

definition YmodemCrc16 :: "u8 list \<Rightarrow> u16" where
  "YmodemCrc16 data = foldl YmodemCrc16_step 0 data"

subsection \<open>One packet\<close>

definition YmodemSendOneByte :: "u8 \<Rightarrow> uart \<Rightarrow> uart" where
  "YmodemSendOneByte b u = u\<lparr>tx := tx u @ [b]\<rparr>"

text \<open>The inner loop: it works through the bytes received but not yet looked at.  The result is
  \<^verbatim>\<open>bFinished\<close> with the context.\<close>

function rym_scan :: "bool \<Rightarrow> YMODEM_CTX_T \<Rightarrow> bool \<times> YMODEM_CTX_T" where
  "rym_scan bFinished c =
     (if ui16WrPosition c > ui16RdPosition c then
        let rd = ui16RdPosition c; len = unat (ui16PacketLength c) in
        if rd = 0 then
          let c1 = c\<lparr>ui8Code := aui8Data c ! unat rd\<rparr> in
          if ui8Code c1 = RYM_CODE_SOH then
            rym_scan bFinished (c1\<lparr>ui16PacketLength := RYM_PACKET_SIZE, eRymState := eRymRecv, ui16RdPosition := rd + 1\<rparr>)
          else if ui8Code c1 = RYM_CODE_STX then
            rym_scan bFinished (c1\<lparr>ui16PacketLength := RYM_PACKET_1K_SIZE, eRymState := eRymRecv, ui16RdPosition := rd + 1\<rparr>)
          else
            rym_scan True (c1\<lparr>ui16PacketLength := 0, eRymState := eRymDone, ui16RdPosition := rd + 1\<rparr>)
        else if rd = 1 then
          rym_scan bFinished (c\<lparr>ui8Index := aui8Data c ! unat rd, ui16RdPosition := rd + 1\<rparr>)
        else if rd = 2 then
          if ui8Index c AND aui8Data c ! unat rd \<noteq> 0
          then (True, c\<lparr>ui16PacketLength := 0, eRymState := eRymFail\<rparr>)
          else rym_scan bFinished (c\<lparr>ui16RdPosition := rd + 1\<rparr>)
        else if unat rd = RYM_PACKET_HEADER + len + 1 then
          let ui16RecvCrc = ucast (aui8Data c ! (RYM_PACKET_HEADER + len)) OR
                push_bit 1 (ucast (aui8Data c ! (RYM_PACKET_HEADER + len + 1)));
              ui16CalcCrc = YmodemCrc16 (take len (drop RYM_PACKET_HEADER (aui8Data c)))
          in (True, c\<lparr>eRymState := if ui16CalcCrc \<noteq> ui16RecvCrc then eRymFail else eRymDone\<rparr>)
        else rym_scan bFinished (c\<lparr>ui16RdPosition := rd + 1\<rparr>)
      else (bFinished, c))"
  by pat_completeness auto

lemma scan_measure:
  fixes rd wr :: u16
  assumes "unat rd < unat wr"
  shows "unat wr - unat (rd + 1) < unat wr - unat rd"
proof -
  have "unat (rd + 1) = Suc (unat rd)"
    using assms unsigned_less [where 'a = nat, of wr] by (simp add: unat_word_ariths)
  then show ?thesis using assms by simp
qed

termination rym_scan
  by (relation "measure (\<lambda>(_, c). unat (ui16WrPosition c) - unat (ui16RdPosition c))")
    (auto simp: word_less_nat_alt intro: scan_measure)

declare rym_scan.simps [simp del]

text \<open>The outer loop, over the bytes that arrive.\<close>

fun rym_receive :: "YMODEM_CTX_T \<Rightarrow> u8 list \<Rightarrow> rym_error + (YMODEM_CTX_T \<times> u8 list)" where
  "rym_receive c [] = Inl NoInput"
| "rym_receive c (b # bs) =
     (if unat (ui16WrPosition c) < length (aui8Data c) then
        let c1 = c\<lparr>aui8Data := (aui8Data c)[unat (ui16WrPosition c) := b], ui16WrPosition := ui16WrPosition c + 1\<rparr>;
            (bFinished, c2) = rym_scan False c1
        in if bFinished then Inr (c2, bs) else rym_receive c2 bs
      else Inl Overrun)"

definition YmodemRecvPacket :: "u8 \<Rightarrow> YMODEM_CTX_T \<Rightarrow> uart \<Rightarrow> rym_error + (YMODEM_CTX_T \<times> uart)" where
  "YmodemRecvPacket ui8NextAckData c u =
     (let u1 = YmodemSendOneByte ui8NextAckData u in
      case rym_receive (c\<lparr>ui16WrPosition := 0, ui16RdPosition := 0\<rparr>) (rx u1) of
        Inl e \<Rightarrow> Inl e
      | Inr (c1, bs) \<Rightarrow> Inr (c1, u1\<lparr>rx := bs\<rparr>))"

lemma rym_receive_consumes: "rym_receive c bs = Inr (c', bs') \<Longrightarrow> length bs' < length bs"
proof (induction bs arbitrary: c)
  case (Cons b bs)
  let ?c = "c\<lparr>aui8Data := (aui8Data c)[unat (ui16WrPosition c) := b], ui16WrPosition := ui16WrPosition c + 1\<rparr>"
  obtain fin c2 where "rym_scan False ?c = (fin, c2)" by (cases "rym_scan False ?c")
  then show ?case using Cons.IH [of c2] Cons.prems by (auto simp: Let_def split: if_splits)
qed simp

lemma YmodemRecvPacket_consumes:
  assumes "YmodemRecvPacket a c u = Inr (c', u')"
  shows "length (rx u') < length (rx u)"
  using assms rym_receive_consumes
  by (fastforce simp: YmodemRecvPacket_def YmodemSendOneByte_def Let_def split: sum.splits prod.splits)

subsection \<open>The transfer\<close>

datatype ff_call = F_open "u8 list" | F_write "u8 list" | F_close

text \<open>The loop of \<^verbatim>\<open>Ymodem_ReceiveTask\<close>; \<open>calls\<close> are the file operations so far.  \<^verbatim>\<open>f_open\<close> gets the rest of
  the packet buffer as the file name.  The messages on the console are left out.\<close>

function ymodem_loop ::
  "(u8 list \<Rightarrow> bool) \<Rightarrow> u8 \<Rightarrow> bool \<Rightarrow> YMODEM_CTX_T \<Rightarrow> uart \<Rightarrow> ff_call list \<Rightarrow> rym_error + (uart \<times> ff_call list)" where
  "ymodem_loop f_open ui8NextAckData bHaveRecvedHeader c u calls =
     (case YmodemRecvPacket ui8NextAckData c u of
        Inl e \<Rightarrow> Inl e
      | Inr (c1, u1) \<Rightarrow>
          if ui8Code c1 = RYM_CODE_SOH \<or> ui8Code c1 = RYM_CODE_STX then
            if \<not> bHaveRecvedHeader \<and> ui8Index c1 = 0 then
              let name = drop RYM_PACKET_HEADER (aui8Data c1) in
              if f_open name then ymodem_loop f_open RYM_CODE_ACK True c1 u1 (calls @ [F_open name])
              else Inr (u1, calls @ [F_open name, F_close])
            else
              ymodem_loop f_open RYM_CODE_ACK bHaveRecvedHeader c1 u1
                (calls @ [F_write (take (unat (ui16PacketLength c1)) (drop RYM_PACKET_HEADER (aui8Data c1)))])
          else if ui8Code c1 = RYM_CODE_EOT then
            if length (rx u1) < 10 then Inl NoInput
            else Inr (u1\<lparr>rx := drop 10 (rx u1), tx := tx u1 @ replicate 6 RYM_CODE_CAN\<rparr>, calls @ [F_close])
          else ymodem_loop f_open ui8NextAckData bHaveRecvedHeader c1 u1 calls)"
  by pat_completeness auto
termination
  by (relation "measure (\<lambda>(_, _, _, _, u, _). length (rx u))") (auto dest: YmodemRecvPacket_consumes)

declare ymodem_loop.simps [simp del]

definition Ymodem_ReceiveTask :: "(u8 list \<Rightarrow> bool) \<Rightarrow> YMODEM_CTX_T \<Rightarrow> uart \<Rightarrow> rym_error + (uart \<times> ff_call list)" where
  "Ymodem_ReceiveTask f_open c u = ymodem_loop f_open RYM_CODE_CRC False (c\<lparr>eRymState := eRymInit\<rparr>) u []"

end
