(* ===== verification/YmodemProps.thy ===== *)
theory YmodemProps
  imports Ymodem
begin

text \<open>
  The properties of the YMODEM receiver: its CRC is the CRC-16 of the protocol, a packet is read
  exactly, and what a transfer writes.
\<close>

subsection \<open>The CRC\<close>

text \<open>The bit-serial CRC-16 with polynomial 0x1021, most significant bit first.\<close>

definition crc16_bit :: "u16 \<Rightarrow> u16" where
  "crc16_bit x = push_bit 1 x XOR (if bit x 15 then 0x1021 else 0)"

definition crc16_byte :: "u16 \<Rightarrow> u8 \<Rightarrow> u16" where
  "crc16_byte x b = (crc16_bit ^^ 8) (x XOR push_bit 8 (ucast b))"

lemma crc16_bit_xor: "crc16_bit (x XOR y) = crc16_bit x XOR crc16_bit y"
  by (rule bit_word_eqI) (auto simp: crc16_bit_def bit_simps)

lemma crc16_bits_xor: "(crc16_bit ^^ n) (x XOR y) = (crc16_bit ^^ n) x XOR (crc16_bit ^^ n) y"
  by (induction n) (simp_all add: crc16_bit_xor)

lemma crc16_bits_high_zero: "n \<le> 16 \<Longrightarrow> (\<And>k. 16 - n \<le> k \<Longrightarrow> \<not> bit x k) \<Longrightarrow> (crc16_bit ^^ n) x = push_bit n x"
proof (induction n)
  case (Suc n)
  have "(crc16_bit ^^ n) x = push_bit n x" using Suc by simp
  moreover have "crc16_bit (push_bit n x) = push_bit (Suc n) x"
    using Suc.prems by (simp add: crc16_bit_def bit_simps)
  ultimately show ?case by simp
qed simp

text \<open>What the shifts of the code do with the byte \<open>x\<close>, against eight steps; both are linear, so the
  eight single bits decide.\<close>

definition crc16_fold :: "u16 \<Rightarrow> u16" where
  "crc16_fold x = (let d = x XOR drop_bit 4 x in push_bit 12 d XOR push_bit 5 d XOR d)"

lemma crc16_fold_xor: "crc16_fold (x XOR y) = crc16_fold x XOR crc16_fold y"
  by (simp add: crc16_fold_def Let_def push_bit_xor drop_bit_xor ac_simps)

lemma crc16_fold_0 [simp]: "crc16_fold 0 = 0" "(crc16_bit ^^ n) 0 = 0"
  by (simp add: crc16_fold_def) (induction n; simp add: crc16_bit_def)

lemma crc16_single: "k < 8 \<Longrightarrow> (crc16_bit ^^ 8) (push_bit 8 (push_bit k 1)) = crc16_fold (push_bit k 1)"
proof -
  have "\<forall>k \<in> set [0..<8]. (crc16_bit ^^ 8) (push_bit 8 (push_bit k 1)) = crc16_fold (push_bit k 1)"
    by code_simp
  then show "k < 8 \<Longrightarrow> ?thesis" by simp
qed

lemma crc16_low: "(crc16_bit ^^ 8) (push_bit 8 (take_bit n x)) = crc16_fold (take_bit n x)" if "n \<le> 8" for x :: u16
  using that
proof (induction n)
  case (Suc n)
  have t: "take_bit (Suc n) x = take_bit n x XOR (if bit x n then push_bit n 1 else 0)"
    by (rule bit_word_eqI) (auto simp: bit_simps less_Suc_eq)
  have "push_bit 8 (a XOR b) = push_bit 8 a XOR push_bit 8 b" for a b :: u16
    by (rule bit_word_eqI) (auto simp: bit_simps)
  then show ?case unfolding t using Suc crc16_single [of n] by (simp add: crc16_bits_xor crc16_fold_xor)
qed simp

lemma YmodemCrc16_step_eq: "YmodemCrc16_step crc b = crc16_byte crc b"
proof -
  let ?x = "drop_bit 8 crc XOR ucast b"
  have x: "take_bit 8 ?x = ?x"
    by (rule bit_word_eqI) (auto simp: bit_simps dest: bit_imp_le_length)
  have "crc XOR push_bit 8 (ucast b) = push_bit 8 ?x XOR take_bit 8 crc"
    by (rule bit_word_eqI) (auto simp: bit_simps)
  then have "crc16_byte crc b = crc16_fold ?x XOR (crc16_bit ^^ 8) (take_bit 8 crc)"
    using crc16_low [of 8 ?x] by (simp only: crc16_byte_def crc16_bits_xor x)
  also have "(crc16_bit ^^ 8) (take_bit 8 crc) = push_bit 8 (take_bit 8 crc)"
    by (rule crc16_bits_high_zero) (simp_all add: bit_simps)
  also have "push_bit 8 (take_bit 8 crc) = push_bit 8 crc"
    by (rule bit_word_eqI) (auto simp: bit_simps)
  finally show ?thesis
    by (simp add: YmodemCrc16_step_def crc16_fold_def Let_def ac_simps)
qed

text \<open>The checksum computed by shifts is the bit-serial CRC-16 of the YMODEM protocol.\<close>

lemma YmodemCrc16_is_serial: "YmodemCrc16 data = foldl crc16_byte 0 data"
  unfolding YmodemCrc16_def by (rule foldl_cong) (simp_all add: YmodemCrc16_step_eq)

subsection \<open>Reading one packet\<close>

definition w16 :: "nat \<Rightarrow> u16" where "w16 n = word_of_nat n"

lemma unat_w16 [simp]: "n < 2 ^ 16 \<Longrightarrow> unat (w16 n) = n"
  by (simp add: w16_def unat_of_nat take_bit_eq_mod)

lemma w16_Suc [simp]: "w16 n + 1 = w16 (Suc n)"
  by (simp add: w16_def add.commute)

lemma w16_less: "m < 2 ^ 16 \<Longrightarrow> n < 2 ^ 16 \<Longrightarrow> (w16 m < w16 n) = (m < n)"
  by (simp add: word_less_nat_alt)

lemma w16_eq: "m < 2 ^ 16 \<Longrightarrow> n < 2 ^ 16 \<Longrightarrow> (w16 m = w16 n) = (m = n)"
  by (metis unat_w16)

lemma w16_0: "w16 0 = 0"
  by (simp add: w16_def)

lemma w16_is: "n < 2 ^ 16 \<Longrightarrow> (w16 n = 0) = (n = 0)" "n < 2 ^ 16 \<Longrightarrow> (w16 n = 1) = (n = 1)"
  "n < 2 ^ 16 \<Longrightarrow> (w16 n = 2) = (n = 2)" "n < 2 ^ 16 \<Longrightarrow> 0 < n \<Longrightarrow> 0 < w16 n"
  by (simp_all add: word_unat_eq_iff word_less_nat_alt)

text \<open>The context after \<open>w\<close> bytes, of which \<open>r\<close> have been looked at.\<close>

abbreviation (input) ctx :: "u8 \<Rightarrow> u8 \<Rightarrow> u8 list \<Rightarrow> u16 \<Rightarrow> eRymState_t \<Rightarrow> nat \<Rightarrow> nat \<Rightarrow> YMODEM_CTX_T" where
  "ctx code i d len s w r \<equiv> \<lparr>ui8Code = code, ui8Index = i, aui8Data = d, ui16PacketLength = len, eRymState = s,
     ui16WrPosition = w16 w, ui16RdPosition = w16 r\<rparr>"

lemma scan_stop: "rym_scan f (ctx code i d len s n n) = (f, ctx code i d len s n n)"
  by (subst rym_scan.simps) simp

lemma receive_byte:
  assumes "n < length d" and "length d < 2 ^ 16"
  shows "rym_receive (ctx code i d len s n n) (b # bs) =
    (case rym_scan False (ctx code i (d[n := b]) len s (Suc n) n) of
       (f, c2) \<Rightarrow> if f then Inr (c2, bs) else rym_receive c2 bs)"
  using assms by simp

declare rym_receive.simps(2) [simp del]

lemma scan_first:
  "rym_scan False (ctx code i d len s (Suc 0) 0) =
     (if d ! 0 = RYM_CODE_SOH then (False, ctx (d ! 0) i d RYM_PACKET_SIZE eRymRecv (Suc 0) (Suc 0))
      else if d ! 0 = RYM_CODE_STX then (False, ctx (d ! 0) i d RYM_PACKET_1K_SIZE eRymRecv (Suc 0) (Suc 0))
      else (True, ctx (d ! 0) i d 0 eRymDone (Suc 0) (Suc 0)))"
  by (subst rym_scan.simps) (simp add: w16_is w16_less Let_def scan_stop)

lemma scan_index:
  "rym_scan False (ctx code i d len s (Suc 1) 1) = (False, ctx code (d ! 1) d len s (Suc 1) (Suc 1))"
  by (subst rym_scan.simps) (simp add: w16_is w16_less Let_def scan_stop)

lemma scan_complement:
  "rym_scan False (ctx code i d len s (Suc 2) 2) =
     (if i AND d ! 2 \<noteq> 0 then (True, ctx code i d 0 eRymFail (Suc 2) 2) else (False, ctx code i d len s (Suc 2) (Suc 2)))"
  by (subst rym_scan.simps) (simp add: w16_is w16_less Let_def scan_stop)

lemma scan_data:
  assumes "3 \<le> n" and "n < 2 ^ 15" and "n \<noteq> 3 + unat len + 1"
  shows "rym_scan False (ctx code i d len s (Suc n) n) = (False, ctx code i d len s (Suc n) (Suc n))"
  using assms
  by (subst rym_scan.simps) (simp add: w16_is w16_less Let_def scan_stop RYM_PACKET_HEADER_def)

lemma scan_crc:
  assumes "n = 3 + unat len + 1" and "n < 2 ^ 15"
  shows "rym_scan False (ctx code i d len s (Suc n) n) =
    (True, ctx code i d len
       (if YmodemCrc16 (take (unat len) (drop 3 d)) \<noteq> ucast (d ! (n - 1)) OR push_bit 1 (ucast (d ! n)) then eRymFail else eRymDone)
       (Suc n) n)"
  using assms
  by (subst rym_scan.simps) (simp add: w16_is w16_less Let_def RYM_PACKET_HEADER_def)

text \<open>The bytes between the header and the last byte of the checksum are stored one after another.\<close>

lemma receive_data:
  assumes "3 \<le> n" and "n + length bs \<le> 3 + unat len + 1" and "n + length bs \<le> length d" and "length d < 2 ^ 15"
  shows "rym_receive (ctx code i d len s n n) (bs @ rest) =
    rym_receive (ctx code i (take n d @ bs @ drop (n + length bs) d) len s (n + length bs) (n + length bs)) rest"
  using assms
proof (induction bs arbitrary: n d)
  case (Cons b bs)
  have step: "rym_receive (ctx code i d len s n n) (b # bs @ rest) =
      rym_receive (ctx code i (d[n := b]) len s (Suc n) (Suc n)) (bs @ rest)"
    using Cons.prems by (subst receive_byte) (simp_all add: scan_data)
  have "take (Suc n) (d[n := b]) = take n d @ [b]"
    using Cons.prems by (simp add: take_Suc_conv_app_nth)
  moreover have "drop (Suc n + length bs) (d[n := b]) = drop (Suc n + length bs) d"
    by simp
  ultimately show ?case
    using Cons.IH [of "Suc n" "d[n := b]"] Cons.prems by (simp only: append_Cons step) simp
qed simp

definition packet_size :: "u8 \<Rightarrow> u16" where
  "packet_size code = (if code = RYM_CODE_SOH then RYM_PACKET_SIZE else RYM_PACKET_1K_SIZE)"

text \<open>The state a packet with its checksum bytes ends in.\<close>

definition crc_verdict :: "u8 list \<Rightarrow> u8 \<Rightarrow> u8 \<Rightarrow> eRymState_t" where
  "crc_verdict data b0 b1 = (if YmodemCrc16 data = ucast b0 OR push_bit 1 (ucast b1) then eRymDone else eRymFail)"

lemma packet_size_bound: "unat (packet_size code) = 128 \<or> unat (packet_size code) = 1024"
  by (simp add: packet_size_def RYM_PACKET_SIZE_def RYM_PACKET_1K_SIZE_def)

lemma receive_code:
  assumes "code = RYM_CODE_SOH \<or> code = RYM_CODE_STX" and "length d = 1029"
  shows "rym_receive (ctx k j d len s 0 0) (code # bs) =
    rym_receive (ctx code j (d[0 := code]) (packet_size code) eRymRecv (Suc 0) (Suc 0)) bs"
proof -
  have "RYM_CODE_STX \<noteq> RYM_CODE_SOH" by (simp add: RYM_CODE_STX_def RYM_CODE_SOH_def)
  then show ?thesis
    using assms by (subst receive_byte) (auto simp: scan_first packet_size_def nth_list_update)
qed

lemma receive_index:
  assumes "length d = 1029"
  shows "rym_receive (ctx k j d len s (Suc 0) (Suc 0)) (i # bs) = rym_receive (ctx k i (d[1 := i]) len s 2 2) bs"
  using assms scan_index [of k j "d[1 := i]" len s]
  by (subst receive_byte) (simp_all add: numeral_2_eq_2 [symmetric])

lemma receive_complement:
  assumes "length d = 1029"
  shows "rym_receive (ctx k i d len s 2 2) (ci # bs) =
    (if i AND ci \<noteq> 0 then Inr (ctx k i (d[2 := ci]) 0 eRymFail 3 2, bs)
     else rym_receive (ctx k i (d[2 := ci]) len s 3 3) bs)"
  using assms scan_complement [of k i "d[2 := ci]" len s]
  by (subst receive_byte) (simp_all)

lemma receive_header:
  assumes "code = RYM_CODE_SOH \<or> code = RYM_CODE_STX" and "length d = 1029"
  shows "rym_receive (ctx k j d len s 0 0) (code # i # ci # bs) =
    (if i AND ci \<noteq> 0 then Inr (ctx code i ([code, i, ci] @ drop 3 d) 0 eRymFail 3 2, bs)
     else rym_receive (ctx code i ([code, i, ci] @ drop 3 d) (packet_size code) eRymRecv 3 3) bs)"
proof -
  have "d[0 := code, 1 := i, 2 := ci] = [code, i, ci] @ drop 3 d"
  proof (rule nth_equalityI)
    fix n assume "n < length (d[0 := code, 1 := i, 2 := ci])"
    then show "d[0 := code, 1 := i, 2 := ci] ! n = ([code, i, ci] @ drop 3 d) ! n"
      using assms(2) by (cases "n = 0 \<or> n = 1 \<or> n = 2") (auto simp: nth_append nth_Cons')
  qed (use assms(2) in simp)
  then show ?thesis
    using receive_code [OF assms] receive_index [of "d[0 := code]"] receive_complement [of "d[0 := code, 1 := i]"] assms(2)
    by (simp)
qed

lemma receive_checksum:
  assumes n: "n = 3 + unat len + 1" and "n \<le> 1028" and "length d = 1029"
  shows "rym_receive (ctx code i d len s n n) (b1 # rest) =
    Inr (ctx code i (d[n := b1]) len (crc_verdict (take (unat len) (drop 3 d)) (d ! (3 + unat len)) b1) (Suc n) n, rest)"
proof -
  have "rym_scan False (ctx code i (d[n := b1]) len s (Suc n) n) =
      (True, ctx code i (d[n := b1]) len (crc_verdict (take (unat len) (drop 3 d)) (d ! (3 + unat len)) b1) (Suc n) n)"
    using assms by (subst scan_crc) (simp_all add: crc_verdict_def drop_update_swap)
  then show ?thesis
    using assms by (subst receive_byte) (simp_all)
qed

lemma receive_body:
  assumes "length data = unat (packet_size code)" and "length d = 1029"
  shows "rym_receive (ctx code i d (packet_size code) s 3 3) (data @ [b0, b1] @ rest) =
    Inr (ctx code i (take 3 d @ data @ [b0, b1] @ drop (length data + 5) d) (packet_size code)
      (crc_verdict data b0 b1) (length data + 5) (length data + 4), rest)"
proof -
  define n where "n = length data + 4"
  let ?d = "take 3 d @ (data @ [b0]) @ drop n d"
  have n: "n \<le> 1028" "n = 3 + unat (packet_size code) + 1" "unat (packet_size code) = length data"
    using assms packet_size_bound [of code] by (auto simp: n_def)
  have d: "drop n d = d ! n # drop (length data + 5) d"
    using Cons_nth_drop_Suc [of n d] n(1) assms(2) by (simp add: n_def add.commute)
  have len: "length ?d = 1029" using n(1) assms(2) by (simp add: n_def)
  have stored: "?d[n := b1] = take 3 d @ data @ [b0, b1] @ drop (length data + 5) d"
    using assms(2) n(1) by (simp add: list_update_append d [unfolded n_def] n_def)
  have read: "take (unat (packet_size code)) (drop 3 ?d) = data" "?d ! (3 + unat (packet_size code)) = b0"
    using assms(2) by (simp_all add: n(3) nth_append)
  have last: "3 + length (data @ [b0]) = n" by (simp add: n_def)
  have "rym_receive (ctx code i d (packet_size code) s 3 3) ((data @ [b0]) @ (b1 # rest)) =
      rym_receive (ctx code i ?d (packet_size code) s n n) (b1 # rest)"
    unfolding last [symmetric] by (rule receive_data) (use n assms(2) in \<open>simp_all add: n_def\<close>)
  moreover have "rym_receive (ctx code i ?d (packet_size code) s n n) (b1 # rest) =
      Inr (ctx code i (?d[n := b1]) (packet_size code)
        (crc_verdict (take (unat (packet_size code)) (drop 3 ?d)) (?d ! (3 + unat (packet_size code))) b1) (Suc n) n, rest)"
    by (rule receive_checksum) (use n len in simp_all)
  moreover have "Suc n = length data + 5" "n = length data + 4" by (simp_all add: n_def)
  ultimately show ?thesis unfolding stored read by (simp add: add.commute)
qed

lemma receive_control:
  assumes "k \<noteq> RYM_CODE_SOH" and "k \<noteq> RYM_CODE_STX" and "length d = 1029"
  shows "rym_receive (ctx c i d len s 0 0) (k # rest) = Inr (ctx k i (d[0 := k]) 0 eRymDone 1 1, rest)"
  using assms by (subst receive_byte) (simp_all add: scan_first nth_list_update)

lemma ctx_reset: "c\<lparr>ui16WrPosition := 0, ui16RdPosition := 0\<rparr> =
    ctx (ui8Code c) (ui8Index c) (aui8Data c) (ui16PacketLength c) (eRymState c) 0 0"
  by (cases c) (simp add: w16_0)

lemma recv_packet_eq: "YmodemRecvPacket a c u =
    (case rym_receive (ctx (ui8Code c) (ui8Index c) (aui8Data c) (ui16PacketLength c) (eRymState c) 0 0) (rx u) of
       Inl e \<Rightarrow> Inl e | Inr (c1, bs) \<Rightarrow> Inr (c1, \<lparr>rx = bs, tx = tx u @ [a]\<rparr>))"
  by (simp add: YmodemRecvPacket_def YmodemSendOneByte_def Let_def ctx_reset split: sum.splits)

lemma recv_data_packet:
  assumes "length (aui8Data c) = 1029"
    and "code = RYM_CODE_SOH \<or> code = RYM_CODE_STX" and "length data = unat (packet_size code)"
    and "rx u = [code, i, ci] @ data @ [b0, b1] @ rest" and "i AND ci = 0"
  shows "YmodemRecvPacket a c u =
    Inr (\<lparr>ui8Code = code, ui8Index = i,
           aui8Data = [code, i, ci] @ data @ [b0, b1] @ drop (length data + 5) (aui8Data c),
           ui16PacketLength = packet_size code, eRymState = crc_verdict data b0 b1,
           ui16WrPosition = packet_size code + 5, ui16RdPosition = packet_size code + 4\<rparr>,
         \<lparr>rx = rest, tx = tx u @ [a]\<rparr>)"
proof -
  have "w16 (length data + 5) = packet_size code + 5" "w16 (length data + 4) = packet_size code + 4"
    using assms(3) by (simp_all add: w16_def)
  moreover have "drop (length data + 5) ([code, i, ci] @ drop 3 (aui8Data c)) = drop (length data + 5) (aui8Data c)"
    by (subst drop_append) (simp add: add.commute)
  ultimately show ?thesis
    using assms receive_body [OF assms(3), of "[code, i, ci] @ drop 3 (aui8Data c)" i eRymRecv b0 b1 rest]
    by (simp add: recv_packet_eq receive_header)
qed

lemma recv_bad_index:
  assumes "length (aui8Data c) = 1029" and "code = RYM_CODE_SOH \<or> code = RYM_CODE_STX"
    and "rx u = [code, i, ci] @ rest" and "i AND ci \<noteq> 0"
  shows "YmodemRecvPacket a c u =
    Inr (\<lparr>ui8Code = code, ui8Index = i, aui8Data = [code, i, ci] @ drop 3 (aui8Data c), ui16PacketLength = 0,
           eRymState = eRymFail, ui16WrPosition = 3, ui16RdPosition = 2\<rparr>, \<lparr>rx = rest, tx = tx u @ [a]\<rparr>)"
  using assms by (simp add: recv_packet_eq receive_header) (simp add: w16_def)

lemma recv_control:
  assumes "length (aui8Data c) = 1029" and "k \<noteq> RYM_CODE_SOH" and "k \<noteq> RYM_CODE_STX" and "rx u = k # rest"
  shows "YmodemRecvPacket a c u =
    Inr (\<lparr>ui8Code = k, ui8Index = ui8Index c, aui8Data = (aui8Data c)[0 := k], ui16PacketLength = 0,
           eRymState = eRymDone, ui16WrPosition = 1, ui16RdPosition = 1\<rparr>, \<lparr>rx = rest, tx = tx u @ [a]\<rparr>)"
  using assms by (simp add: recv_packet_eq receive_control) (simp add: w16_def)

text \<open>C30: a packet is read exactly.  After a data packet with its 128 or 1024 bytes the buffer holds the
  packet in front of what it held before, and the state says whether the two checksum bytes pass the
  code's comparison; nothing is written outside the buffer and no byte after the packet is consumed.
  A packet whose index and complement share a bit fails after three bytes, and any other first byte
  ends the packet at once.\<close>

theorem YmodemRecvPacket_reads_packet:
  assumes "length (aui8Data c) = 1029"
    and "code = RYM_CODE_SOH \<or> code = RYM_CODE_STX" and "length data = unat (packet_size code)"
  shows "YmodemRecvPacket a c \<lparr>rx = [code, i, ci] @ data @ [b0, b1] @ rest, tx = t\<rparr> =
      (if i AND ci \<noteq> 0
       then Inr (\<lparr>ui8Code = code, ui8Index = i, aui8Data = [code, i, ci] @ drop 3 (aui8Data c), ui16PacketLength = 0,
              eRymState = eRymFail, ui16WrPosition = 3, ui16RdPosition = 2\<rparr>,
            \<lparr>rx = data @ [b0, b1] @ rest, tx = t @ [a]\<rparr>)
       else Inr (\<lparr>ui8Code = code, ui8Index = i,
              aui8Data = [code, i, ci] @ data @ [b0, b1] @ drop (length data + 5) (aui8Data c),
              ui16PacketLength = packet_size code, eRymState = crc_verdict data b0 b1,
              ui16WrPosition = packet_size code + 5, ui16RdPosition = packet_size code + 4\<rparr>,
            \<lparr>rx = rest, tx = t @ [a]\<rparr>)) \<and>
    (k \<notin> {RYM_CODE_SOH, RYM_CODE_STX} \<longrightarrow> YmodemRecvPacket a c \<lparr>rx = k # rest, tx = t\<rparr> =
      Inr (\<lparr>ui8Code = k, ui8Index = ui8Index c, aui8Data = (aui8Data c)[0 := k], ui16PacketLength = 0,
             eRymState = eRymDone, ui16WrPosition = 1, ui16RdPosition = 1\<rparr>, \<lparr>rx = rest, tx = t @ [a]\<rparr>))"
  using recv_data_packet [OF assms, of "\<lparr>rx = [code, i, ci] @ data @ [b0, b1] @ rest, tx = t\<rparr>" i ci b0 b1 rest a]
    recv_bad_index [OF assms(1,2), of "\<lparr>rx = [code, i, ci] @ data @ [b0, b1] @ rest, tx = t\<rparr>" i ci "data @ [b0, b1] @ rest" a]
    recv_control [OF assms(1), of k "\<lparr>rx = k # rest, tx = t\<rparr>" rest a]
  by (auto simp del: append.simps)

lemma YmodemRecvPacket_reads_packet_witness:
  "aui8Data (fst (projr (YmodemRecvPacket RYM_CODE_CRC
     \<lparr>ui8Code = 0, ui8Index = 0, aui8Data = replicate 1029 9, ui16PacketLength = 0, eRymState = eRymInit,
       ui16WrPosition = 0, ui16RdPosition = 0\<rparr>
     \<lparr>rx = [RYM_CODE_SOH, 1, 254] @ replicate 128 7 @ [1, 2] @ [3], tx = []\<rparr>))) =
   [RYM_CODE_SOH, 1, 254] @ replicate 128 7 @ [1, 2] @ replicate 896 9 \<and>
   rx (snd (projr (YmodemRecvPacket RYM_CODE_CRC
     \<lparr>ui8Code = 0, ui8Index = 0, aui8Data = replicate 1029 9, ui16PacketLength = 0, eRymState = eRymInit,
       ui16WrPosition = 0, ui16RdPosition = 0\<rparr> \<lparr>rx = RYM_CODE_EOT # [3], tx = []\<rparr>))) = [3]"
  using YmodemRecvPacket_reads_packet
    [of "\<lparr>ui8Code = 0, ui8Index = 0, aui8Data = replicate 1029 9, ui16PacketLength = 0, eRymState = eRymInit,
       ui16WrPosition = 0, ui16RdPosition = 0\<rparr>" RYM_CODE_SOH "replicate 128 7" RYM_CODE_CRC 1 254 1 2 "[3]" "[]" RYM_CODE_EOT]
  by (simp add: packet_size_def RYM_PACKET_SIZE_def RYM_CODE_EOT_def RYM_CODE_SOH_def RYM_CODE_STX_def)

subsection \<open>The transfer\<close>

text \<open>A packet as the sender forms it, with any two checksum bytes.\<close>

type_synonym ympacket = "u8 \<times> u8 \<times> u8 list \<times> u8 \<times> u8"

fun packet_bytes :: "ympacket \<Rightarrow> u8 list" where
  "packet_bytes (code, i, data, b0, b1) = [code, i, NOT i] @ data @ [b0, b1]"

fun packet_data :: "ympacket \<Rightarrow> u8 list" where "packet_data (code, i, data, b0, b1) = data"

fun packet_ok :: "ympacket \<Rightarrow> bool" where
  "packet_ok (code, i, data, b0, b1) =
     ((code = RYM_CODE_SOH \<or> code = RYM_CODE_STX) \<and> length data = unat (packet_size code))"

lemma and_complement: "(i :: u8) AND NOT i = 0"
  by simp

lemma loop_packet:
  assumes "length (aui8Data c) = 1029" and "packet_ok p"
  obtains c' where "length (aui8Data c') = 1029"
    and "ymodem_loop f a True c \<lparr>rx = packet_bytes p @ bs, tx = t\<rparr> calls =
      ymodem_loop f RYM_CODE_ACK True c' \<lparr>rx = bs, tx = t @ [a]\<rparr> (calls @ [F_write (packet_data p)])"
proof -
  obtain code i data b0 b1 where p: "p = (code, i, data, b0, b1)" by (cases p)
  let ?c = "\<lparr>ui8Code = code, ui8Index = i,
     aui8Data = [code, i, NOT i] @ data @ [b0, b1] @ drop (length data + 5) (aui8Data c),
     ui16PacketLength = packet_size code, eRymState = crc_verdict data b0 b1,
     ui16WrPosition = packet_size code + 5, ui16RdPosition = packet_size code + 4\<rparr>"
  have "YmodemRecvPacket a c \<lparr>rx = packet_bytes p @ bs, tx = t\<rparr> = Inr (?c, \<lparr>rx = bs, tx = t @ [a]\<rparr>)"
    using assms by (subst recv_data_packet) (auto simp: p)
  then have "ymodem_loop f a True c \<lparr>rx = packet_bytes p @ bs, tx = t\<rparr> calls =
      ymodem_loop f RYM_CODE_ACK True ?c \<lparr>rx = bs, tx = t @ [a]\<rparr> (calls @ [F_write (packet_data p)])"
    using assms by (subst ymodem_loop.simps) (simp add: p RYM_PACKET_HEADER_def)
  moreover have "length (aui8Data ?c) = 1029"
    using assms packet_size_bound [of code] by (auto simp: p)
  ultimately show thesis using that by blast
qed

lemma loop_packets:
  assumes "length (aui8Data c) = 1029" and "\<forall>p \<in> set ps. packet_ok p"
  shows "\<exists>c'. length (aui8Data c') = 1029 \<and>
    ymodem_loop f RYM_CODE_ACK True c \<lparr>rx = concat (map packet_bytes ps) @ bs, tx = t\<rparr> calls =
    ymodem_loop f RYM_CODE_ACK True c' \<lparr>rx = bs, tx = t @ replicate (length ps) RYM_CODE_ACK\<rparr>
      (calls @ map (F_write \<circ> packet_data) ps)"
  using assms
proof (induction ps arbitrary: c t calls)
  case Nil then show ?case by auto
next
  case (Cons p ps)
  obtain c1 where c1: "length (aui8Data c1) = 1029"
    and step: "ymodem_loop f RYM_CODE_ACK True c \<lparr>rx = packet_bytes p @ (concat (map packet_bytes ps) @ bs), tx = t\<rparr> calls =
      ymodem_loop f RYM_CODE_ACK True c1 \<lparr>rx = concat (map packet_bytes ps) @ bs, tx = t @ [RYM_CODE_ACK]\<rparr>
        (calls @ [F_write (packet_data p)])"
    using loop_packet [of c p f RYM_CODE_ACK "concat (map packet_bytes ps) @ bs" t calls] Cons.prems by auto
  show ?case
    using Cons.IH [OF c1, of "t @ [RYM_CODE_ACK]" "calls @ [F_write (packet_data p)]"] Cons.prems step by simp
qed

lemma loop_end:
  assumes "length (aui8Data c) = 1029" and "length trailer = 10"
  shows "ymodem_loop f a h c \<lparr>rx = RYM_CODE_EOT # trailer @ rest, tx = t\<rparr> calls =
    Inr (\<lparr>rx = rest, tx = t @ [a] @ replicate 6 RYM_CODE_CAN\<rparr>, calls @ [F_close])"
proof -
  have k: "RYM_CODE_EOT \<noteq> RYM_CODE_SOH" "RYM_CODE_EOT \<noteq> RYM_CODE_STX"
    by (simp_all add: RYM_CODE_EOT_def RYM_CODE_SOH_def RYM_CODE_STX_def)
  show ?thesis
    using assms k by (subst ymodem_loop.simps) (simp add: recv_control)
qed

text \<open>What the buffer holds behind the header when a packet has been read.\<close>

fun name_bytes :: "ympacket \<Rightarrow> u8 list \<Rightarrow> u8 list" where
  "name_bytes (code, i, data, b0, b1) d = data @ [b0, b1] @ drop (length data + 5) d"

lemma loop_header:
  assumes "length (aui8Data c) = 1029" and "packet_ok h" and "fst (snd h) = 0"
  obtains c' where "length (aui8Data c') = 1029"
    and "ymodem_loop f a False c \<lparr>rx = packet_bytes h @ bs, tx = t\<rparr> calls =
      (if f (name_bytes h (aui8Data c))
       then ymodem_loop f RYM_CODE_ACK True c' \<lparr>rx = bs, tx = t @ [a]\<rparr> (calls @ [F_open (name_bytes h (aui8Data c))])
       else Inr (\<lparr>rx = bs, tx = t @ [a]\<rparr>, calls @ [F_open (name_bytes h (aui8Data c)), F_close]))"
proof -
  obtain code data b0 b1 where h: "h = (code, 0, data, b0, b1)" using assms(3) by (cases h) auto
  let ?c = "\<lparr>ui8Code = code, ui8Index = 0,
     aui8Data = [code, 0, NOT 0] @ data @ [b0, b1] @ drop (length data + 5) (aui8Data c),
     ui16PacketLength = packet_size code, eRymState = crc_verdict data b0 b1,
     ui16WrPosition = packet_size code + 5, ui16RdPosition = packet_size code + 4\<rparr>"
  have "YmodemRecvPacket a c \<lparr>rx = packet_bytes h @ bs, tx = t\<rparr> = Inr (?c, \<lparr>rx = bs, tx = t @ [a]\<rparr>)"
    using assms by (subst recv_data_packet) (auto simp: h)
  then have "ymodem_loop f a False c \<lparr>rx = packet_bytes h @ bs, tx = t\<rparr> calls =
      (if f (name_bytes h (aui8Data c))
       then ymodem_loop f RYM_CODE_ACK True ?c \<lparr>rx = bs, tx = t @ [a]\<rparr> (calls @ [F_open (name_bytes h (aui8Data c))])
       else Inr (\<lparr>rx = bs, tx = t @ [a]\<rparr>, calls @ [F_open (name_bytes h (aui8Data c)), F_close]))"
    using assms by (subst ymodem_loop.simps) (simp add: h RYM_PACKET_HEADER_def Let_def)
  moreover have "length (aui8Data ?c) = 1029"
    using assms packet_size_bound [of code] by (auto simp: h)
  ultimately show thesis using that by blast
qed

text \<open>C29: a transfer writes the file.  The header packet opens the file under the name it carries; then
  every data packet is written whole and in order, whatever its checksum bytes are and whatever the
  packet reader said of them, each is acknowledged, and at the end of the transmission the file is
  closed.  When the file cannot be opened nothing is written and no further packet is read.\<close>

theorem Ymodem_ReceiveTask_writes_file:
  assumes "length (aui8Data c) = 1029"
    and "packet_ok h" and "fst (snd h) = 0" and "\<forall>p \<in> set ps. packet_ok p" and "length trailer = 10"
  shows "Ymodem_ReceiveTask f_open c
      \<lparr>rx = packet_bytes h @ concat (map packet_bytes ps) @ RYM_CODE_EOT # trailer @ rest, tx = t\<rparr> =
    (let name = name_bytes h (aui8Data c) in
     if f_open name
     then Inr (\<lparr>rx = rest, tx = t @ [RYM_CODE_CRC] @ replicate (length ps + 1) RYM_CODE_ACK @ replicate 6 RYM_CODE_CAN\<rparr>,
       [F_open name] @ map (F_write \<circ> packet_data) ps @ [F_close])
     else Inr (\<lparr>rx = concat (map packet_bytes ps) @ RYM_CODE_EOT # trailer @ rest, tx = t @ [RYM_CODE_CRC]\<rparr>,
       [F_open name, F_close]))"
proof -
  let ?c = "c\<lparr>eRymState := eRymInit\<rparr>" and ?bs = "concat (map packet_bytes ps) @ RYM_CODE_EOT # trailer @ rest"
  obtain c1 where c1: "length (aui8Data c1) = 1029"
    and header: "ymodem_loop f_open RYM_CODE_CRC False ?c \<lparr>rx = packet_bytes h @ ?bs, tx = t\<rparr> [] =
      (if f_open (name_bytes h (aui8Data ?c))
       then ymodem_loop f_open RYM_CODE_ACK True c1 \<lparr>rx = ?bs, tx = t @ [RYM_CODE_CRC]\<rparr> ([] @ [F_open (name_bytes h (aui8Data ?c))])
       else Inr (\<lparr>rx = ?bs, tx = t @ [RYM_CODE_CRC]\<rparr>, [] @ [F_open (name_bytes h (aui8Data ?c)), F_close]))"
    using loop_header [of ?c h f_open RYM_CODE_CRC ?bs t "[]"] assms by auto
  obtain c2 where c2: "length (aui8Data c2) = 1029"
    and packets: "ymodem_loop f_open RYM_CODE_ACK True c1 \<lparr>rx = ?bs, tx = t @ [RYM_CODE_CRC]\<rparr> [F_open (name_bytes h (aui8Data c))] =
      ymodem_loop f_open RYM_CODE_ACK True c2 \<lparr>rx = RYM_CODE_EOT # trailer @ rest, tx = (t @ [RYM_CODE_CRC]) @ replicate (length ps) RYM_CODE_ACK\<rparr>
        ([F_open (name_bytes h (aui8Data c))] @ map (F_write \<circ> packet_data) ps)"
    using loop_packets [OF c1 assms(4)] by blast
  show ?thesis
    unfolding Ymodem_ReceiveTask_def header using packets loop_end [OF c2 assms(5)]
    by (simp add: Let_def replicate_append_same)
qed

lemma Ymodem_ReceiveTask_writes_file_witness:
  "snd (projr (Ymodem_ReceiveTask (\<lambda>_. True)
       \<lparr>ui8Code = 0, ui8Index = 0, aui8Data = replicate 1029 0, ui16PacketLength = 0, eRymState = eRymInit,
         ui16WrPosition = 0, ui16RdPosition = 0\<rparr>
       \<lparr>rx = packet_bytes (RYM_CODE_SOH, 0, replicate 128 0, 0, 0) @
          concat (map packet_bytes [(RYM_CODE_SOH, 1, replicate 128 7, 1, 2)]) @ RYM_CODE_EOT # replicate 10 0 @ [], tx = []\<rparr>)) =
     [F_open (replicate 128 0 @ [0, 0] @ replicate 896 0), F_write (replicate 128 7), F_close]"
  using Ymodem_ReceiveTask_writes_file
    [of "\<lparr>ui8Code = 0, ui8Index = 0, aui8Data = replicate 1029 0, ui16PacketLength = 0, eRymState = eRymInit,
         ui16WrPosition = 0, ui16RdPosition = 0\<rparr>" "(RYM_CODE_SOH, 0, replicate 128 0, 0, 0)"
      "[(RYM_CODE_SOH, 1, replicate 128 7, 1, 2)]" "replicate 10 0" "\<lambda>_. True" "[]" "[]"]
  by (simp add: packet_size_def RYM_PACKET_SIZE_def)

subsection \<open>Which packets the checksum test accepts\<close>

text \<open>The sender transmits the high byte of the checksum first.  The code puts the first byte at bit 0 and the
  second at bit 1, so of the 65536 checksums it accepts two.\<close>

lemma crc_test_accepts:
  fixes crc :: u16
  shows "(crc = ucast (ucast (drop_bit 8 crc) :: u8) OR push_bit 1 (ucast (ucast crc :: u8))) = (crc = 0 \<or> crc = 0x1FF)"
    (is "(crc = ?r) = _")
proof
  assume eq: "crc = ?r"
  have bit: "bit crc k = (k < 16 \<and> (k < 8 \<and> bit crc (k + 8) \<or> 0 < k \<and> k \<le> 8 \<and> bit crc (k - 1)))" for k
    by (subst eq, unfold bit_or_iff bit_push_bit_iff bit_ucast_iff bit_drop_bit_eq comp_def)
      (auto simp: add.commute dest: bit_imp_le_length)
  have high: "\<not> bit crc k" if "9 \<le> k" for k
    using bit [of k] that by auto
  have low: "bit crc k = bit crc 0" if "k \<le> 8" for k
    using that
  proof (induction k)
    case (Suc k)
    then show ?case using bit [of "Suc k"] high [of "Suc k + 8"] by auto
  qed simp
  have "crc = mask 9" if "bit crc 0"
  proof (rule bit_word_eqI)
    fix k show "bit crc k = bit (mask 9 :: u16) k"
      using that high [of k] low [of k] by (cases "k \<le> 8") (simp_all add: bit_mask_iff)
  qed
  moreover have "crc = 0" if "\<not> bit crc 0"
  proof (rule bit_word_eqI)
    fix k show "bit crc k = bit (0 :: u16) k"
      using that high [of k] low [of k] by (cases "k \<le> 8") simp_all
  qed
  moreover have "mask 9 = (0x1FF :: u16)" by (simp add: mask_eq_exp_minus_1)
  ultimately show "crc = 0 \<or> crc = 0x1FF" by metis
qed (elim disjE; simp)

lemma crc_verdict_accepts:
  "crc_verdict data (ucast (drop_bit 8 (YmodemCrc16 data))) (ucast (YmodemCrc16 data)) = eRymDone \<longleftrightarrow>
   YmodemCrc16 data \<in> {0, 0x1FF}"
  using crc_test_accepts [of "YmodemCrc16 data"] by (simp add: crc_verdict_def)

end
