(* ===== verification/Spec2Isabelle.thy ===== *)
theory Spec2Isabelle
  imports GmacCrc Heap4Ops SysArchProps StreamProps EventGroupsSpec TimersQueue ShellProps YmodemProps
begin

text \<open>
  Verification library for the SunWise Space firmware (\<^verbatim>\<open>src/soc2022_project\<close>, a 32-bit RISC-V
  board, and \<^verbatim>\<open>src/xyp1022_project\<close>, a 32-bit PowerPC board): the FreeRTOS V10.5.1 kernel both boards
  run, in the configuration of their \<^verbatim>\<open>FreeRTOSConfig.h\<close>, and parts of the boards' own code.

  \<^bold>\<open>The program.\<close>  The kernel is a set of C files over two foundations.  \<^verbatim>\<open>heap_4.c\<close> hands out the
  memory; \<^verbatim>\<open>list.c\<close> gives the intrusive doubly linked lists every other file keeps its tasks in.
  \<^verbatim>\<open>tasks.c\<close> holds the ready lists, the two delayed lists, the suspended and the pending list and the
  tick count; \<^verbatim>\<open>queue.c\<close> (queues, semaphores, mutexes), \<^verbatim>\<open>stream_buffer.c\<close> (stream and message
  buffers) and \<^verbatim>\<open>event_groups.c\<close> are clients of it: they put tasks on event lists, or make them wait for a notification,
  and wake them.  \<^verbatim>\<open>timers.c\<close> is a client of queues and lists: tasks send commands through a queue to the timer
  task, which keeps the active timers in two sorted lists.  \<^verbatim>\<open>sys_arch.c\<close> gives the lwIP stack its semaphores, mutexes and mailboxes, which are queues.  \<^verbatim>\<open>drv_gmac_crc.c\<close> computes the Ethernet checksum in software, \<^verbatim>\<open>ymodem.c\<close>
  receives files over the serial line, \<^verbatim>\<open>xprintf.c\<close> formats what is printed on it, and \<^verbatim>\<open>xshell.c\<close>,
  which prints with it, reads command lines from it and runs them.

  \<^bold>\<open>Theories and code.\<close>
  \<^item> \<open>Prelude\<close>: names for machine integers, generic lemmas on words, lists and options.
  \<^item> \<open>GmacCrc\<close>: \<^verbatim>\<open>drv_gmac_crc.c\<close>.  The unit's static variables are the record \<open>crc_unit\<close>, each C
    function one definition over bytes and 32-bit words.
  \<^item> \<open>Heap4\<close> (model), \<open>Heap4Inv\<close>, \<open>Heap4Props\<close>, \<open>Heap4Ops\<close>: \<^verbatim>\<open>portable/MemMang/heap_4.c\<close>.  The state holds
    the block headers in an explicit store from addresses to headers and the bytes; the abstract heap
    is the list of segments in address order.
  \<^item> \<open>KList\<close> (model), \<open>KListProps\<close>: \<^verbatim>\<open>list.c\<close> and the list macros of \<^verbatim>\<open>list.h\<close>, on a store of nodes.  The
    abstract list is a list of items and an index; the locale on its walks is interpreted on it.
  \<^item> \<open>Tasks\<close>, \<open>TaskApi\<close> (models): \<^verbatim>\<open>tasks.c\<close>.  The state \<open>ktask\<close> has the node store, the static variables
    and the task control blocks.  \<open>TasksInv\<close> defines the invariant \<open>sched\<close>; \<open>TasksSwitch\<close>, \<open>TasksTick\<close>,
    \<open>TasksTime\<close>, \<open>TasksDelay\<close>, \<open>TasksEvents\<close>, \<open>TasksPrio\<close>, \<open>TasksRun\<close> and \<open>TasksStart\<close> treat one group of
    operations each, \<open>TasksStep\<close> the transition system, \<open>TasksProps\<close> the properties.
  \<^item> \<open>Queue\<close>, \<open>QueueApi\<close>, \<open>QueueTake\<close> (models): \<^verbatim>\<open>queue.c\<close>, on the kernel state and a map of queues.
    \<open>QueueRing\<close> reads the ring as a list of items, \<open>QueueProps\<close> and \<open>QueueWake\<close> treat the calls that do
    not block, \<open>QueueBlock\<close> the ones that do, \<open>QueueStart\<close> creation, \<open>QueueSpec\<close> the locale
    \<open>bounded_queue\<close>, its interpretation and the properties, \<open>QueueMutex\<close> the recursive mutex.
  \<^item> \<open>StreamBuffer\<close> (model): \<^verbatim>\<open>stream_buffer.c\<close>; \<open>StreamRing\<close> the bytes in the ring, \<open>StreamSpec\<close> the
    locale \<open>bounded_channel\<close> that generalises \<open>bounded_queue\<close>, \<open>StreamProps\<close> the properties.
  \<^item> \<open>EventGroups\<close> (model): \<^verbatim>\<open>event_groups.c\<close>; \<open>EventGroupsWalk\<close> the walk over the waiters,
    \<open>EventGroupsProps\<close> setting bits and going to sleep, \<open>EventGroupsSpec\<close> the properties.
  \<^item> \<open>Timers\<close> (model): \<^verbatim>\<open>timers.c\<close>, on the queue state, the timers and their two lists.  \<open>TimersInv\<close>
    reads the words of expiry times as times on a line without overflow, \<open>TimersSpec\<close> states what a
    timer is and shows that inserting, reloading, expiring and switching the lists implement it,
    \<open>TimersStart\<close> treats creation, \<open>TimersProps\<close> the commands, \<open>TimersTask\<close> the timer task between
    commands, \<open>TimersQueue\<close> the way of a command from the caller to the timer task.
  \<^item> \<open>SysArch\<close> (model), \<open>SysArchProps\<close>: \<^verbatim>\<open>arch/sys_arch.c\<close>, on the queue state and the variables of the core lock.  A
    mailbox is an instance of \<open>bounded_queue\<close> again, with pointers for items.
  \<^item> \<open>Xprintf\<close> (model), \<open>XprintfProps\<close>: \<^verbatim>\<open>libs/xprintf.c\<close>.  A call is a function from the format and the
    arguments to the characters sent; the locale \<open>number_system\<close> has the laws of a digit loop and is
    interpreted on the four radices of the code.
  \<^item> \<open>Shell\<close> (model): \<^verbatim>\<open>libs/xshell.c\<close> and the shell's task of \<^verbatim>\<open>main.c\<close>, on arrays of characters, the
    characters received and the ones sent.  \<open>ShellSplit\<close> shows that splitting a line in place yields its words,
    \<open>ShellEdit\<close> that the keys implement a text with a cursor, \<open>ShellProps\<close> has the properties and the terminal.
  \<^item> \<open>Ymodem\<close> (model), \<open>YmodemProps\<close>: \<^verbatim>\<open>xyp1022_project/libs/ymodem.c\<close>, on the bytes to come, the bytes
    sent and a log of the file operations.

  \<^bold>\<open>How effects are modelled.\<close>  State is passed explicitly.  A function that follows a null or dangling
  pointer, or whose loop does not end, returns \<open>None\<close>; loops over pointers are
  \<open>partial_function (option)\<close>, so that returning is always part of what is proved.  A critical section, or
  a section with the scheduler suspended, is one atomic step.  What other tasks and interrupts do
  while a call sleeps is the argument \<open>world\<close> of the blocking calls, a function on the state: the
  theorems hold for every such function with the property they name, and their witnesses run a concrete
  one.  Machine integers keep their width (\<^typ>\<open>32 word\<close>, \<^typ>\<open>8 word\<close>), so that overflow of the tick count and
  of sizes is part of the model.

  \<^bold>\<open>What the lemmas show.\<close>  Every component has an invariant kept by each of its operations
  (heap, node store, scheduler, queue, stream buffer, timer lists); its operations are total under the invariant;
  and each implements an abstract data type: a list of segments, a list with an index, priority queues and
  countdown timers, a bounded first-in first-out queue, a re-entrant lock, a byte pipe, a message
  channel, due times with periods, numerals, a text with a cursor, the words of a line, bit-serial polynomial division.  The blocking behaviour (wake-ups are not lost, time-outs are exact) is
  proved over the same state, not over an abstraction of it.

  \<^bold>\<open>Bounds.\<close>  Loops of the kernel have no fuel: their termination follows from the invariant.  A call that sleeps is
  given a number of rounds, the times it may be woken for nothing; the theorems state how many they
  need, and it is two for a time-out.  The time of the hardware is the sequence of
  ticks a theorem speaks about.  Reloading a timer whose period is 0 would not end, so that it too is
  partial; the invariant excludes it.  The timer theorems bound the time between two readings of the clock by one round of
  the tick count, \<^verbatim>\<open>2^32\<close> ticks, beyond which the code cannot tell how often it overflowed.

  \<^bold>\<open>Not modelled.\<close>  The commands of the shell; the assembly ports, start-up code and interrupt vectors; the device drivers, whose
  registers have no definition in the source; co-routines, static allocation, queue sets and callbacks per buffer, which
  the configuration compiles out; task names, stacks and the state dumps of \<^verbatim>\<open>tasks.c\<close>, which no other
  operation reads; the vendored lwIP, FatFS and CoreMark; and the vendor's board tests and
  cryptographic drivers.
\<close>

end
